(* ===== verification/Prelude.thy ===== *)
theory Prelude
  imports Main "HOL-Library.AList" "HOL-Library.Multiset" "HOL-Library.Char_ord"
    "HOL-Library.List_Lexorder" "HOL-Library.Product_Lexorder" "HOL-Library.Sublist"
begin

section \<open>Prelude: insertion-ordered dictionaries, combinations, folds\<close>

text \<open>
  Shared vocabulary of the development. A Python \<open>dict\<close> keeps its insertion order and the code
  iterates over it, so a dictionary is an association list updated with \<^const>\<open>AList.update\<close>
  (an existing key keeps its place, a new one goes to the end). A Python \<open>set\<close> whose iteration
  order the code never observes is a list that is only asked for membership, or sorted. Strings
  are ordered lexicographically, as are tuples (\<open>List_Lexorder\<close>, \<open>Product_Lexorder\<close>), which is
  Python's order on \<open>str\<close> and \<open>tuple\<close>.
\<close>

named_theorems dict_simps "lookups after dictionary updates"
named_theorems combos_simps "facts about itertools.combinations"

type_synonym ('k, 'v) dict = "('k \<times> 'v) list"

subsection \<open>Dictionaries\<close>

definition dget :: "('k, 'v) dict \<Rightarrow> 'k \<Rightarrow> 'v \<Rightarrow> 'v" where
  "dget d k v = (case map_of d k of None \<Rightarrow> v | Some x \<Rightarrow> x)"

definition dset :: "('k, 'v) dict \<Rightarrow> 'k \<Rightarrow> 'v \<Rightarrow> ('k, 'v) dict" where
  "dset d k v = AList.update k v d"

definition setdefault :: "('k, 'v) dict \<Rightarrow> 'k \<Rightarrow> 'v \<Rightarrow> ('k, 'v) dict" where
  "setdefault d k v = (case map_of d k of None \<Rightarrow> dset d k v | Some _ \<Rightarrow> d)"

text \<open>\<open>d.setdefault(k, []).append(v)\<close>, the code's multimap insertion.\<close>

definition dappend :: "('k, 'v list) dict \<Rightarrow> 'k \<Rightarrow> 'v \<Rightarrow> ('k, 'v list) dict" where
  "dappend d k v = dset d k (dget d k [] @ [v])"

definition has_key :: "('k, 'v) dict \<Rightarrow> 'k \<Rightarrow> bool" where
  "has_key d k \<longleftrightarrow> map_of d k \<noteq> None"

text \<open>A dict comprehension \<open>{key(x): val(x) for x in xs}\<close>: the last binding of a key wins.\<close>

definition dict_of :: "('a \<Rightarrow> 'k) \<Rightarrow> ('a \<Rightarrow> 'v) \<Rightarrow> 'a list \<Rightarrow> ('k, 'v) dict" where
  "dict_of key val xs = foldl (\<lambda>d x. dset d (key x) (val x)) [] xs"

definition dict_ok :: "('k, 'v) dict \<Rightarrow> bool" where
  "dict_ok d \<longleftrightarrow> distinct (map fst d)"

lemma map_of_dset [simp, dict_simps]: "map_of (dset d k v) = (map_of d)(k \<mapsto> v)"
  by (simp add: dset_def update_conv' update_conv)

lemma dget_dset [simp, dict_simps]: "dget (dset d k v) k' w = (if k = k' then v else dget d k' w)"
  by (simp add: dget_def)

lemma dict_ok_Nil [simp]: "dict_ok []"
  by (simp add: dict_ok_def)

lemma dict_ok_dset [simp, intro]: "dict_ok d \<Longrightarrow> dict_ok (dset d k v)"
  by (simp add: dict_ok_def dset_def distinct_update)

lemma dict_ok_setdefault [simp, intro]: "dict_ok d \<Longrightarrow> dict_ok (setdefault d k v)"
  by (auto simp: setdefault_def split: option.split)

lemma dict_ok_dappend [simp, intro]: "dict_ok d \<Longrightarrow> dict_ok (dappend d k v)"
  by (simp add: dappend_def)

lemma map_of_setdefault [dict_simps]:
  "map_of (setdefault d k v) k' =
     (if k' = k then Some (dget d k v) else map_of d k')"
  by (auto simp: setdefault_def dget_def split: option.split)

lemma dget_dappend [dict_simps]:
  "dget (dappend d k v) k' [] = (if k' = k then dget d k [] @ [v] else dget d k' [])"
  by (simp add: dappend_def)

lemma keys_dset [simp]: "fst ` set (dset d k v) = insert k (fst ` set d)"
  by (metis dom_map_of_conv_image_fst map_of_dset dom_fun_upd option.distinct(1))

lemma keys_setdefault [simp]: "fst ` set (setdefault d k v) = insert k (fst ` set d)"
  by (auto simp: setdefault_def split: option.split dest: map_of_SomeD intro: rev_image_eqI)

lemma keys_dappend [simp]: "fst ` set (dappend d k v) = insert k (fst ` set d)"
  by (simp add: dappend_def)

lemma has_key_iff: "has_key d k \<longleftrightarrow> k \<in> fst ` set d"
  by (simp add: has_key_def map_of_eq_None_iff)

lemma dict_ok_map_of: "dict_ok d \<Longrightarrow> (k, v) \<in> set d \<longleftrightarrow> map_of d k = Some v"
  by (auto simp: dict_ok_def dest: map_of_SomeD map_of_is_SomeI)

lemma dict_ok_fold:
  assumes "\<And>d x. dict_ok d \<Longrightarrow> dict_ok (f d x)" and "dict_ok d"
  shows "dict_ok (foldl f d xs)"
  using assms(2) by (induction xs arbitrary: d) (auto intro: assms(1))

lemma dict_ok_dict_of [simp, intro]: "dict_ok (dict_of key val xs)"
  unfolding dict_of_def by (rule dict_ok_fold) auto

lemma dict_of_snoc:
  "dict_of key val (xs @ [x]) = dset (dict_of key val xs) (key x) (val x)"
  by (simp add: dict_of_def)

lemma dict_of_Nil [simp]: "dict_of key val [] = []"
  by (simp add: dict_of_def)

lemma map_of_dict_of_None: "map_of (dict_of key val xs) k = None \<longleftrightarrow> k \<notin> key ` set xs"
  by (induction xs rule: rev_induct) (auto simp: dict_of_snoc)

lemma map_of_dict_of_SomeD:
  "map_of (dict_of key val xs) k = Some v \<Longrightarrow> \<exists>x \<in> set xs. key x = k \<and> val x = v"
  by (induction xs rule: rev_induct) (auto simp: dict_of_snoc split: if_splits)

lemma map_of_dict_of_distinct:
  "distinct (map key xs) \<Longrightarrow> x \<in> set xs \<Longrightarrow> map_of (dict_of key val xs) (key x) = Some (val x)"
proof (induction xs rule: rev_induct)
  case (snoc y ys)
  show ?case
  proof (cases "key y = key x")
    case True
    with snoc.prems have "x = y" by (auto intro: rev_image_eqI)
    then show ?thesis by (simp add: dict_of_snoc)
  next
    case False
    with snoc show ?thesis by (auto simp: dict_of_snoc)
  qed
qed simp

text \<open>A multimap whose keys satisfy \<open>K\<close> and whose non-empty lists hold values related to their key by \<open>Q\<close>.\<close>

definition multi_ok :: "('k \<Rightarrow> bool) \<Rightarrow> ('k \<Rightarrow> 'v \<Rightarrow> bool) \<Rightarrow> ('k, 'v list) dict \<Rightarrow> bool" where
  "multi_ok K Q d \<longleftrightarrow> dict_ok d \<and> (\<forall>k vs. map_of d k = Some vs \<longrightarrow> K k \<and> vs \<noteq> [] \<and> (\<forall>v \<in> set vs. Q k v))"

lemma multi_ok_Nil [simp]: "multi_ok K Q []"
  by (simp add: multi_ok_def)

lemma multi_ok_dappend: "multi_ok K Q d \<Longrightarrow> K k \<Longrightarrow> Q k v \<Longrightarrow> multi_ok K Q (dappend d k v)"
  by (cases "map_of d k") (auto simp: multi_ok_def dappend_def dget_def)

lemma multi_okD: "multi_ok K Q d \<Longrightarrow> (k, vs) \<in> set d \<Longrightarrow> K k \<and> vs \<noteq> [] \<and> (\<forall>v \<in> set vs. Q k v)"
  by (simp add: multi_ok_def dict_ok_map_of)

subsection \<open>Combinations in the order of \<open>itertools.combinations\<close>\<close>

fun combos :: "nat \<Rightarrow> 'a list \<Rightarrow> 'a list list" where
  "combos 0 xs = [[]]"
| "combos (Suc k) [] = []"
| "combos (Suc k) (x # xs) = map ((#) x) (combos k xs) @ combos (Suc k) xs"

lemma set_combos [combos_simps]: "set (combos k xs) = {ys. subseq ys xs \<and> length ys = k}"
proof (induction k xs rule: combos.induct)
  case (3 k x xs)
  have "subseq ys (x # xs) \<and> length ys = Suc k \<longleftrightarrow>
      (\<exists>zs. ys = x # zs \<and> subseq zs xs \<and> length zs = k) \<or> subseq ys xs \<and> length ys = Suc k" for ys
    by (cases ys) (auto dest: subseq_Cons')
  with "3.IH" show ?case by auto
qed auto

lemma combos_subseq: "ys \<in> set (combos k xs) \<Longrightarrow> subseq ys xs"
  and combos_length: "ys \<in> set (combos k xs) \<Longrightarrow> length ys = k"
  by (auto simp: set_combos)

lemma subseq_subset: "subseq ys xs \<Longrightarrow> set ys \<subseteq> set xs"
  by (induction rule: list_emb.induct) auto

lemma subseq_distinct_conv: "distinct xs \<Longrightarrow> subseq ys xs \<Longrightarrow> ys = filter (\<lambda>x. x \<in> set ys) xs"
proof (induction xs arbitrary: ys)
  case (Cons x xs)
  show ?case
  proof (cases "subseq ys xs")
    case True
    with Cons.prems have "x \<notin> set ys" by (auto dest: subseq_subset)
    with Cons.IH [OF _ True] Cons.prems show ?thesis by simp
  next
    case False
    with Cons.prems obtain zs where zs: "ys = x # zs" "subseq zs xs"
      by (cases ys) (auto split: if_splits)
    with Cons.prems have "x \<notin> set zs" by (auto dest: subseq_subset)
    have "filter (\<lambda>y. y = x \<or> y \<in> set zs) xs = filter (\<lambda>y. y \<in> set zs) xs"
      using Cons.prems by (intro filter_cong) auto
    with Cons.IH [OF _ zs(2)] Cons.prems zs show ?thesis by simp
  qed
qed simp

lemma subseq_distinct: "distinct xs \<Longrightarrow> subseq ys xs \<Longrightarrow> distinct ys"
  by (metis distinct_filter subseq_distinct_conv)

lemma combos_subset: "ys \<in> set (combos k xs) \<Longrightarrow> set ys \<subseteq> set xs"
  by (simp add: set_combos subseq_subset)

lemma combos_distinct_elem: "distinct xs \<Longrightarrow> ys \<in> set (combos k xs) \<Longrightarrow> distinct ys"
  by (auto simp: set_combos intro: subseq_distinct)

lemma distinct_combos: "distinct xs \<Longrightarrow> distinct (combos k xs)"
proof (induction k xs rule: combos.induct)
  case (3 k x xs)
  from 3 have "set (map ((#) x) (combos k xs)) \<inter> set (combos (Suc k) xs) = {}"
    by (auto dest: combos_subset)
  with 3 show ?case by (auto simp: distinct_map)
qed auto

lemma combos_set_inj:
  assumes "distinct xs" and "ys \<in> set (combos k xs)" and "zs \<in> set (combos l xs)"
    and "set ys = set zs"
  shows "ys = zs"
  using assms by (metis combos_subseq subseq_distinct_conv)

subsection \<open>Folds and maxima\<close>

text \<open>\<open>max(xs, key=...)\<close>: the first element whose key no later element exceeds.\<close>

definition max_by :: "('a \<Rightarrow> 'k::linorder) \<Rightarrow> 'a \<Rightarrow> 'a list \<Rightarrow> 'a" where
  "max_by key x xs = foldl (\<lambda>b a. if key b < key a then a else b) x xs"

lemma max_by_in: "max_by key x xs \<in> insert x (set xs)"
  by (induction xs arbitrary: x) (auto simp: max_by_def)

lemma max_by_ge: "y \<in> insert x (set xs) \<Longrightarrow> key y \<le> key (max_by key x xs)"
proof (induction xs arbitrary: x y)
  case (Cons a xs)
  have base: "key z \<le> key (max_by key z xs)" for z
    by (rule Cons.IH) simp
  show ?case
  proof (cases "y \<in> set xs")
    case True
    then show ?thesis using Cons.IH [of y "if key x < key a then a else x"] by (simp add: max_by_def)
  next
    case False
    with Cons.prems have "y = x \<or> y = a" by auto
    moreover have "key x \<le> key (if key x < key a then a else x)"
      "key a \<le> key (if key x < key a then a else x)" by auto
    ultimately show ?thesis
      using base [of "if key x < key a then a else x"] by (auto simp: max_by_def intro: order_trans)
  qed
qed (simp add: max_by_def)

lemma foldl_invariant:
  assumes "P a" and "\<And>a x. P a \<Longrightarrow> x \<in> set xs \<Longrightarrow> P (f a x)"
  shows "P (foldl f a xs)"
  using assms by (induction xs arbitrary: a) auto

lemma sum_list_nonneg_int: "(\<And>x. x \<in> set xs \<Longrightarrow> (0::int) \<le> f x) \<Longrightarrow> 0 \<le> sum_list (map f xs)"
  by (induction xs) auto

lemma sum_list_concat_int: "sum_list (map f (concat xss)) = sum_list (map (\<lambda>xs. sum_list (map f xs)) xss)"
  for f :: "'a \<Rightarrow> int"
  by (induction xss) auto

lemma length_filter_eq_1_iff_ex1:
  "distinct xs \<Longrightarrow> length (filter P xs) = 1 \<longleftrightarrow> (\<exists>!x. x \<in> set xs \<and> P x)"
proof -
  assume d: "distinct xs"
  then have "length (filter P xs) = card {x \<in> set xs. P x}"
    by (metis distinct_card distinct_filter set_filter)
  then show ?thesis by (auto simp: card_1_singleton_iff) (metis (mono_tags, lifting) mem_Collect_eq singleton_iff)+
qed

end
