(* ===== verification/PyFloat.thy ===== *)
theory PyFloat
  imports Complex_Main Prelude
begin

section \<open>Binary floating point, as far as the engine uses it\<close>

text \<open>
  The engine's weights, confidences and margins are Python \<open>float\<close>s. A finite double is a rational
  number, so the carrier is \<^typ>\<open>rat\<close>, and \<open>fl\<close> rounds a rational to the nearest number with a
  53-bit significand, ties to the even significand: every literal, product, difference and quotient
  of the source is one application of \<open>fl\<close> to the exact result, which is what IEEE 754 prescribes.
  The exponent range is unbounded here, and there is no infinity, NaN or signed zero: the numbers
  concerned lie between \<open>-1\<close> and \<open>10^14\<close> and are never small enough to be subnormal.
  The lemmas are the ones the components use: \<open>fl\<close> is monotone, odd, idempotent, and exact on
  integers of at most 53 bits.
\<close>

named_theorems fl_simps "exact cases of floating-point rounding"

subsection \<open>Rounding a rational to an integer, half to even\<close>

definition rhe :: "rat \<Rightarrow> int" where
  "rhe y = (let f = \<lfloor>y\<rfloor>; d = y - of_int f in
     if d < 1 / 2 then f else if d > 1 / 2 then f + 1 else if even f then f else f + 1)"

lemma rhe_of_int [simp]: "rhe (of_int n) = n"
  by (simp add: rhe_def)

lemma rhe_numeral [simp]: "rhe 0 = 0" "rhe 1 = 1" "rhe (numeral k) = numeral k"
  using rhe_of_int [of 0] rhe_of_int [of 1] rhe_of_int [of "numeral k"] by simp_all

lemma rhe_error: "\<bar>of_int (rhe y) - y\<bar> \<le> 1 / 2"
  using floor_correct [of y] by (auto simp: rhe_def Let_def abs_le_iff)

lemma rhe_bounds: "\<lfloor>y\<rfloor> \<le> rhe y" "rhe y \<le> \<lfloor>y\<rfloor> + 1"
  by (auto simp: rhe_def Let_def)

lemma rhe_mono: "x \<le> y \<Longrightarrow> rhe x \<le> rhe y"
proof -
  assume le: "x \<le> y"
  then have fle: "\<lfloor>x\<rfloor> \<le> \<lfloor>y\<rfloor>" by (rule floor_mono)
  show ?thesis
  proof (cases "\<lfloor>x\<rfloor> = \<lfloor>y\<rfloor>")
    case True
    with le show ?thesis by (auto simp: rhe_def Let_def)
  next
    case False
    with fle rhe_bounds [of x] rhe_bounds [of y] show ?thesis by linarith
  qed
qed

lemma rhe_unique: "\<bar>of_int n - y\<bar> < 1 / 2 \<Longrightarrow> rhe y = n"
proof -
  assume "\<bar>of_int n - y\<bar> < 1 / 2"
  with rhe_error [of y] have "\<bar>of_int (rhe y) - (of_int n :: rat)\<bar> < 1"
    by linarith
  then have "\<bar>of_int (rhe y - n) :: rat\<bar> < of_int 1" by simp
  then have "\<bar>rhe y - n\<bar> < 1" by linarith
  then show ?thesis by simp
qed

lemma rhe_minus: "rhe (- y) = - rhe y"
proof (cases "y = of_int \<lfloor>y\<rfloor>")
  case True
  then show ?thesis by (metis of_int_minus rhe_of_int)
next
  case False
  then have "\<lfloor>- y\<rfloor> = - \<lfloor>y\<rfloor> - 1"
    by (metis ceiling_altdef floor_minus add.commute minus_add_distrib uminus_add_conv_diff)
  then show ?thesis by (auto simp: rhe_def Let_def)
qed

subsection \<open>The exponent of a rational\<close>

text \<open>The number of binary digits of a positive integer.\<close>

function blen :: "int \<Rightarrow> int" where
  "blen n = (if n \<le> 0 then 0 else 1 + blen (n div 2))"
  by pat_completeness auto
termination by (relation "measure nat") auto

declare blen.simps [simp del]

definition expo :: "rat \<Rightarrow> int" where
  "expo x = (let (p, q) = quotient_of \<bar>x\<bar>; k = blen p - blen q in
     if \<bar>x\<bar> < 2 powi k then k - 1 else k)"

lemma blen_pos: "0 < p \<Longrightarrow> 0 < blen p"
proof (induction p rule: blen.induct)
  case (1 n)
  have eq: "blen n = 1 + blen (n div 2)" using 1 by (subst blen.simps) simp
  show ?case
  proof (cases "n div 2 = 0")
    case True
    with eq show ?thesis by (simp add: blen.simps [of 0])
  next
    case False
    with 1 have "0 < n div 2" by simp
    with 1 have "0 < blen (n div 2)" by simp
    with eq show ?thesis by simp
  qed
qed

lemma blen_bounds: "0 < p \<Longrightarrow> 2 ^ nat (blen p - 1) \<le> p \<and> p < 2 ^ nat (blen p)"
proof (induction p rule: blen.induct)
  case (1 n)
  have eq: "blen n = 1 + blen (n div 2)" using 1 by (subst blen.simps) simp
  show ?case
  proof (cases "n div 2 = 0")
    case True
    with 1 have "n = 1" by simp
    with eq show ?thesis by (simp add: blen.simps [of 0])
  next
    case False
    with 1 have pos: "0 < n div 2" by simp
    then have ih: "2 ^ nat (blen (n div 2) - 1) \<le> n div 2" "n div 2 < 2 ^ nat (blen (n div 2))"
      using 1 by auto
    from blen_pos [OF pos] obtain k where k: "blen (n div 2) = int (Suc k)"
      by (metis gr0_implies_Suc zero_less_imp_eq_int)
    with ih have "2 ^ k \<le> n div 2" "n div 2 < 2 ^ Suc k" by (auto simp: nat_add_distrib)
    then have "2 * 2 ^ k \<le> n" "n < 2 * 2 ^ Suc k" by linarith+
    with eq k show ?thesis by (simp add: nat_add_distrib)
  qed
qed

lemma blen_le: "0 < p \<Longrightarrow> 2 powi (blen p - 1) \<le> (of_int p :: rat)"
  and blen_gt: "0 < p \<Longrightarrow> (of_int p :: rat) < 2 powi (blen p)"
proof -
  assume p: "0 < p"
  note b = blen_bounds [OF p] and pos = blen_pos [OF p]
  have "(of_int (2 ^ nat (blen p - 1)) :: rat) \<le> of_int p" using b by (subst of_int_le_iff) simp
  then show "2 powi (blen p - 1) \<le> (of_int p :: rat)" using pos by (simp add: power_int_def)
  have "(of_int p :: rat) < of_int (2 ^ nat (blen p))" using b by (subst of_int_less_iff) simp
  then show "(of_int p :: rat) < 2 powi (blen p)" using pos by (simp add: power_int_def)
qed

lemma expo_bounds:
  assumes "x \<noteq> 0"
  shows "2 powi expo x \<le> \<bar>x\<bar>" and "\<bar>x\<bar> < 2 powi (expo x + 1)"
proof -
  obtain p q where pq: "quotient_of \<bar>x\<bar> = (p, q)" by (cases "quotient_of \<bar>x\<bar>")
  define k where "k = blen p - blen q"
  have q: "0 < q" and x: "\<bar>x\<bar> = of_int p / of_int q"
    using quotient_of_denom_pos [OF pq] quotient_of_div [OF pq] by auto
  with assms have p: "0 < p" by (metis divide_pos_pos zero_less_abs_iff zero_less_divide_iff
        of_int_0_less_iff order.asym)
  have "\<bar>x\<bar> < 2 powi (blen p) / 2 powi (blen q - 1)"
    unfolding x using p q blen_gt blen_le by (intro frac_less) (auto simp: less_imp_le)
  also have "\<dots> = 2 powi (k + 1)" by (simp add: k_def flip: power_int_diff) (simp add: algebra_simps)
  finally have up: "\<bar>x\<bar> < 2 powi (k + 1)" .
  have "2 powi (k - 1) = 2 powi (blen p - 1) / (2 powi (blen q) :: rat)"
    by (simp add: k_def algebra_simps flip: power_int_diff)
  also have "\<dots> \<le> \<bar>x\<bar>"
    unfolding x using p q blen_gt blen_le by (intro frac_le) (auto simp: less_imp_le)
  finally have lo: "2 powi (k - 1) \<le> \<bar>x\<bar>" .
  have e: "expo x = (if \<bar>x\<bar> < 2 powi k then k - 1 else k)"
    by (simp add: expo_def pq k_def)
  show "2 powi expo x \<le> \<bar>x\<bar>" using e lo by (auto simp: not_less)
  show "\<bar>x\<bar> < 2 powi (expo x + 1)" using e up by auto
qed

lemma powi2_mono: "i \<le> j \<Longrightarrow> (2 :: rat) powi i \<le> 2 powi j"
  by (rule power_int_increasing) auto

lemma powi2_less_cancel: "(2 :: rat) powi i < 2 powi j \<Longrightarrow> i < j"
  by (meson leD linorder_le_less_linear powi2_mono)

lemma expo_mono: "x \<noteq> 0 \<Longrightarrow> \<bar>x\<bar> \<le> \<bar>y\<bar> \<Longrightarrow> expo x \<le> expo y"
proof -
  assume a: "x \<noteq> 0" "\<bar>x\<bar> \<le> \<bar>y\<bar>"
  then have "y \<noteq> 0" by auto
  have "2 powi expo x < (2 :: rat) powi (expo y + 1)"
    using expo_bounds [OF a(1)] expo_bounds [OF \<open>y \<noteq> 0\<close>] a(2) by linarith
  then have "expo x < expo y + 1" by (rule powi2_less_cancel)
  then show ?thesis by simp
qed

lemma expo_minus [simp]: "expo (- x) = expo x"
  by (simp add: expo_def)

subsection \<open>Rounding to 53 bits\<close>

definition fl :: "rat \<Rightarrow> rat" where
  "fl x = (let u = 2 powi (expo x - 52) in of_int (rhe (x / u)) * u)"

lemma fl_0 [simp, fl_simps]: "fl 0 = 0"
  by (simp add: fl_def)

lemma fl_minus: "fl (- x) = - fl x"
  by (simp add: fl_def Let_def rhe_minus)

lemma fl_representable:
  assumes "\<bar>m\<bar> \<le> 2 ^ 53"
  shows "fl (of_int m * 2 powi e) = of_int m * 2 powi e"
proof (cases "m = 0")
  case False
  define x :: rat where "x = of_int m * 2 powi e"
  with False have "x \<noteq> 0" by simp
  have "\<exists>n. x / 2 powi (expo x - 52) = of_int n"
  proof (cases "expo x \<le> e + 52")
    case True
    have "x / 2 powi (expo x - 52) = of_int m * (2 powi e / 2 powi (expo x - 52))"
      by (simp add: x_def)
    also have "\<dots> = of_int m * 2 powi (e - (expo x - 52))"
      by (simp flip: power_int_diff)
    also have "\<dots> = of_int (m * 2 ^ nat (e - (expo x - 52)))"
      using True by (simp add: power_int_def)
    finally show ?thesis by blast
  next
    case False
    have "\<bar>x\<bar> \<le> 2 powi (e + 53)"
    proof -
      have "\<bar>of_int m :: rat\<bar> \<le> of_int (2 ^ 53)"
        using assms by (metis of_int_abs of_int_le_iff)
      then have "\<bar>of_int m :: rat\<bar> * 2 powi e \<le> 2 ^ 53 * 2 powi e"
        by (intro mult_right_mono) auto
      then show ?thesis by (simp add: x_def abs_mult power_int_add power_int_numeral)
    qed
    moreover have "2 powi (e + 53) \<le> (2 :: rat) powi expo x"
      using False by (intro powi2_mono) simp
    moreover have "2 powi expo x \<le> \<bar>x\<bar>" by (rule expo_bounds) fact
    ultimately have "\<bar>x\<bar> = 2 powi expo x" by simp
    then have "\<bar>x / 2 powi (expo x - 52)\<bar> = 2 powi expo x / 2 powi (expo x - 52)"
      by (simp add: abs_mult)
    also have "\<dots> = of_int (2 ^ 52)"
      by (simp add: power_int_numeral flip: power_int_diff)
    finally have "x / 2 powi (expo x - 52) = of_int (2 ^ 52) \<or>
        x / 2 powi (expo x - 52) = of_int (- (2 ^ 52))"
      by (simp only: of_int_minus abs_eq_iff' of_int_power)
    then show ?thesis by blast
  qed
  then obtain n where "x / 2 powi (expo x - 52) = of_int n" ..
  then have "fl x = x / 2 powi (expo x - 52) * 2 powi (expo x - 52)"
    by (simp add: fl_def Let_def)
  then show ?thesis by (simp add: x_def)
qed simp

lemma fl_of_int [fl_simps]: "\<bar>m\<bar> \<le> 2 ^ 53 \<Longrightarrow> fl (of_int m) = of_int m"
  using fl_representable [of m 0] by simp

lemma fl_1 [simp, fl_simps]: "fl 1 = 1"
  using fl_of_int [of 1] by simp

lemma fl_form:
  obtains m where "\<bar>m\<bar> \<le> 2 ^ 53" and "fl x = of_int m * 2 powi (expo x - 52)"
proof (cases "x = 0")
  case True
  then show ?thesis using that [of 0] by simp
next
  case False
  define y where "y = x / 2 powi (expo x - 52)"
  have "\<bar>y\<bar> = \<bar>x\<bar> / 2 powi (expo x - 52)" by (simp add: y_def)
  also have "\<dots> \<le> 2 powi (expo x + 1) / 2 powi (expo x - 52)"
    using expo_bounds(2) [OF False] by (intro divide_right_mono) auto
  also have "\<dots> = of_int (2 ^ 53)" by (simp add: power_int_numeral flip: power_int_diff)
  finally have le: "\<bar>y\<bar> \<le> of_int (2 ^ 53)" .
  have "rhe y \<le> rhe (of_int (2 ^ 53))"
    using le by (intro rhe_mono) linarith
  moreover have "rhe (- of_int (2 ^ 53)) \<le> rhe y"
    using le by (intro rhe_mono) linarith
  ultimately have "\<bar>rhe y\<bar> \<le> 2 ^ 53" by (simp add: rhe_minus del: of_int_power of_int_numeral)
  then show ?thesis by (intro that [of "rhe y"]) (simp_all add: fl_def y_def Let_def)
qed

lemma fl_fl [simp, fl_simps]: "fl (fl x) = fl x"
  by (metis fl_form fl_representable)

lemma fl_pos_bounds:
  assumes "0 < x"
  shows "2 powi expo x \<le> fl x" and "fl x \<le> 2 powi (expo x + 1)"
proof -
  define u :: rat where "u = 2 powi (expo x - 52)"
  have u: "0 < u" by (simp add: u_def)
  have b: "2 powi expo x \<le> x" "x \<le> 2 powi (expo x + 1)"
    using expo_bounds [of x] assms by auto
  have lo: "2 powi expo x / u = of_int (2 ^ 52)" and hi: "2 powi (expo x + 1) / u = of_int (2 ^ 53)"
    by (simp_all add: u_def power_int_numeral flip: power_int_diff)
  have "rhe (2 powi expo x / u) \<le> rhe (x / u)" "rhe (x / u) \<le> rhe (2 powi (expo x + 1) / u)"
    using b u by (auto intro!: rhe_mono divide_right_mono)
  then have r: "2 ^ 52 \<le> rhe (x / u)" "rhe (x / u) \<le> 2 ^ 53"
    unfolding lo hi rhe_of_int .
  have "2 powi expo x = of_int (2 ^ 52) * u" using lo u by (simp add: field_simps)
  also have "\<dots> \<le> of_int (rhe (x / u)) * u" using r(1) u by (intro mult_right_mono) (simp_all only: of_int_le_iff less_imp_le)
  finally show "2 powi expo x \<le> fl x" by (simp add: fl_def u_def Let_def)
  have "of_int (rhe (x / u)) * u \<le> of_int (2 ^ 53) * u" using r(2) u by (intro mult_right_mono) (simp_all only: of_int_le_iff less_imp_le)
  also have "\<dots> = 2 powi (expo x + 1)" using hi u by (simp add: field_simps)
  finally show "fl x \<le> 2 powi (expo x + 1)" by (simp add: fl_def u_def Let_def)
qed

lemma fl_mono_pos:
  assumes "0 < x" and "x \<le> y"
  shows "fl x \<le> fl y"
proof (cases "expo x = expo y")
  case True
  have "rhe (x / 2 powi (expo y - 52)) \<le> rhe (y / 2 powi (expo y - 52))"
    using assms by (intro rhe_mono divide_right_mono) auto
  then show ?thesis by (simp add: fl_def True Let_def)
next
  case False
  with assms have "expo x + 1 \<le> expo y" using expo_mono [of x y] by simp
  then have "2 powi (expo x + 1) \<le> (2 :: rat) powi expo y" by (rule powi2_mono)
  with fl_pos_bounds [of x] fl_pos_bounds [of y] assms show ?thesis by auto
qed

lemma fl_pos: "0 < x \<Longrightarrow> 0 < fl x"
  by (rule less_le_trans [OF _ fl_pos_bounds(1)]) auto

lemma fl_mono: "x \<le> y \<Longrightarrow> fl x \<le> fl y"
proof (cases "0 < x")
  case False
  assume le: "x \<le> y"
  show ?thesis
  proof (cases "0 < - y")
    case True
    with le show ?thesis using fl_mono_pos [of "- y" "- x"] by (simp add: fl_minus)
  next
    case nonneg: False
    have "fl x \<le> 0" using False fl_pos [of "- x"] by (cases "x = 0") (auto simp: fl_minus)
    moreover have "0 \<le> fl y" using nonneg fl_pos [of y] by (cases "y = 0") auto
    ultimately show ?thesis by simp
  qed
qed (simp add: fl_mono_pos)

lemma fl_nonneg [simp]: "0 \<le> x \<Longrightarrow> 0 \<le> fl x"
  using fl_mono [of 0 x] by simp

lemma fl_le_1: "x \<le> 1 \<Longrightarrow> fl x \<le> 1"
  using fl_mono [of x 1] by simp

text \<open>\<open>round(x, k)\<close> on a float: the double nearest to the correctly rounded decimal.\<close>

definition py_round :: "nat \<Rightarrow> rat \<Rightarrow> rat" where
  "py_round k x = fl (of_int (rhe (x * 10 ^ k)) / 10 ^ k)"

lemma py_round_mono: "x \<le> y \<Longrightarrow> py_round k x \<le> py_round k y"
  unfolding py_round_def by (intro fl_mono divide_right_mono) (auto intro!: rhe_mono mult_right_mono)

text \<open>
  Relative error of one rounding, the fact behind every tolerance argument:
  half a unit in the last place.
\<close>

lemma fl_error: "\<bar>fl x - x\<bar> \<le> \<bar>x\<bar> * 2 powi (- 53)"
proof (cases "x = 0")
  case False
  define u :: rat where "u = 2 powi (expo x - 52)"
  have u: "0 < u" by (simp add: u_def)
  have "fl x - x = (of_int (rhe (x / u)) - x / u) * u"
    using u by (simp add: fl_def Let_def left_diff_distrib flip: u_def)
  then have "\<bar>fl x - x\<bar> = \<bar>of_int (rhe (x / u)) - x / u\<bar> * u"
    using u by (simp add: abs_mult)
  also have "\<dots> \<le> 1 / 2 * u" using u rhe_error by (intro mult_right_mono) auto
  also have "\<dots> = 2 powi expo x * 2 powi (- 53)"
    by (simp add: u_def power_int_diff power_int_minus power_int_numeral)
  also have "\<dots> \<le> \<bar>x\<bar> * 2 powi (- 53)"
    using expo_bounds(1) [OF False] by (intro mult_right_mono) auto
  finally show ?thesis .
qed simp

subsection \<open>Evaluation\<close>

text \<open>
  The definition above divides rationals and reduces every intermediate fraction. For evaluation by rewriting the
  same function is computed on the numerator and denominator with one integer division, and the result is
  reduced by halving. These are equations of the same constants, nothing else.
\<close>

definition rhe_quot :: "int \<Rightarrow> int \<Rightarrow> int" where
  "rhe_quot n d = (let f = n div d; r = n mod d in
     if 2 * r < d then f else if 2 * r > d then f + 1 else if even f then f else f + 1)"

lemma rhe_quot: "0 < d \<Longrightarrow> rhe_quot n d = rhe (of_int n / of_int d)"
proof -
  assume d: "0 < d"
  have fl: "\<lfloor>of_int n / of_int d :: rat\<rfloor> = n div d" by (rule floor_divide_of_int_eq)
  have nm: "(of_int n :: rat) = of_int (n div d) * of_int d + of_int (n mod d)"
    by (metis mult_div_mod_eq of_int_add of_int_mult mult.commute)
  have r: "of_int n / of_int d - of_int (n div d) = (of_int (n mod d) / of_int d :: rat)"
    using d nm by (simp add: field_simps)
  have "(of_int (n mod d) / of_int d :: rat) < 1 / 2 \<longleftrightarrow> of_int (2 * (n mod d)) < (of_int d :: rat)"
    "(of_int (n mod d) / of_int d :: rat) > 1 / 2 \<longleftrightarrow> of_int (2 * (n mod d)) > (of_int d :: rat)"
    using d by (auto simp: field_simps)
  then show ?thesis by (simp only: rhe_def rhe_quot_def Let_def fl r of_int_less_iff)
qed

lemma expo_unique: "2 powi e \<le> \<bar>x\<bar> \<Longrightarrow> \<bar>x\<bar> < 2 powi (e + 1) \<Longrightarrow> expo x = e"
proof -
  assume a: "2 powi e \<le> \<bar>x\<bar>" "\<bar>x\<bar> < 2 powi (e + 1)"
  have "(0 :: rat) < 2 powi e" by simp
  with a have "0 < \<bar>x\<bar>" by linarith
  then have x: "x \<noteq> 0" by simp
  have "2 powi expo x < (2 :: rat) powi (e + 1)" "2 powi e < (2 :: rat) powi (expo x + 1)"
    using expo_bounds [OF x] a by linarith+
  then have "expo x < e + 1" "e < expo x + 1" using powi2_less_cancel by blast+
  then show ?thesis by simp
qed

definition dyad :: "int \<Rightarrow> int \<Rightarrow> rat" where
  "dyad m e = of_int m * 2 powi e"

fun red2 :: "int \<Rightarrow> nat \<Rightarrow> int \<times> int" where
  "red2 m 0 = (m, 1)"
| "red2 m (Suc k) = (if even m then red2 (m div 2) k else (m, 2 ^ Suc k))"

lemma red2: "quotient_of (of_int m / 2 ^ k) = red2 m k"
proof (induction m k rule: red2.induct)
  case (1 m)
  then show ?case by (simp add: quotient_of_int)
next
  case (2 m k)
  show ?case
  proof (cases "even m")
    case True
    then obtain n where n: "m = 2 * n" by blast
    have "(of_int m / 2 ^ Suc k :: rat) = of_int (m div 2) / 2 ^ k" using n by simp
    with 2 True show ?thesis by simp
  next
    case False
    have "(of_int m / 2 ^ Suc k :: rat) = Fract m (2 ^ Suc k)" by (simp add: Fract_of_int_quotient)
    moreover have "coprime m (2 ^ Suc k)" using False by (simp add: coprime_right_2_iff_odd)
    then have "Rat.normalize (m, 2 ^ Suc k) = (m, 2 ^ Suc k)" by (intro normalize_stable) simp_all
    ultimately show ?thesis using False by (simp add: quotient_of_Fract del: power_Suc)
  qed
qed

lemma quotient_of_dyad [code abstract]:
  "quotient_of (dyad m e) = (if e \<ge> 0 then (m * 2 ^ nat e, 1) else red2 m (nat (- e)))"
proof (cases "e \<ge> 0")
  case True
  then have "dyad m e = of_int (m * 2 ^ nat e)" by (simp add: dyad_def power_int_def)
  then have "quotient_of (dyad m e) = (m * 2 ^ nat e, 1)" using red2 [of "m * 2 ^ nat e" 0] by simp
  with True show ?thesis by simp
next
  case False
  then have "dyad m e = of_int m / 2 ^ nat (- e)" by (simp add: dyad_def power_int_def field_simps)
  with False show ?thesis by (simp add: red2)
qed

definition fl_quot :: "int \<Rightarrow> int \<Rightarrow> rat" where
  "fl_quot p q = (if p = 0 then 0 else
     let k = blen \<bar>p\<bar> - blen q;
         e = (if (if 0 \<le> k then \<bar>p\<bar> < q * 2 ^ nat k else \<bar>p\<bar> * 2 ^ nat (- k) < q) then k - 1 else k);
         s = e - 52
     in dyad (if 0 \<le> s then rhe_quot p (q * 2 ^ nat s) else rhe_quot (p * 2 ^ nat (- s)) q) s)"

lemma fl_quot: "0 < q \<Longrightarrow> fl_quot p q = fl (of_int p / of_int q)"
proof (cases "p = 0")
  case False
  assume q: "0 < q"
  define x where "x = (of_int p / of_int q :: rat)"
  define k where "k = blen \<bar>p\<bar> - blen q"
  have x: "\<bar>x\<bar> = of_int \<bar>p\<bar> / of_int q" "x \<noteq> 0" using q False by (auto simp: x_def)
  have "\<bar>x\<bar> < 2 powi (blen \<bar>p\<bar>) / 2 powi (blen q - 1)"
    unfolding x using False q blen_gt [of "\<bar>p\<bar>"] blen_le [of q] by (intro frac_less) auto
  also have "\<dots> = 2 powi (k + 1)" by (simp add: k_def flip: power_int_diff) (simp add: algebra_simps)
  finally have up: "\<bar>x\<bar> < 2 powi (k + 1)" .
  have "2 powi (k - 1) = 2 powi (blen \<bar>p\<bar> - 1) / (2 powi (blen q) :: rat)"
    by (simp add: k_def algebra_simps flip: power_int_diff)
  also have "\<dots> \<le> \<bar>x\<bar>"
    unfolding x using False q blen_le [of "\<bar>p\<bar>"] blen_gt [of q] by (intro frac_le) auto
  finally have lo: "2 powi (k - 1) \<le> \<bar>x\<bar>" .
  have cmp: "(if 0 \<le> k then \<bar>p\<bar> < q * 2 ^ nat k else \<bar>p\<bar> * 2 ^ nat (- k) < q) \<longleftrightarrow> \<bar>x\<bar> < 2 powi k"
  proof (cases "0 \<le> k")
    case True
    have "\<bar>p\<bar> < q * 2 ^ nat k \<longleftrightarrow> (of_int \<bar>p\<bar> :: rat) < of_int (q * 2 ^ nat k)" by (simp only: of_int_less_iff)
    also have "\<dots> \<longleftrightarrow> \<bar>x\<bar> < 2 powi k" using q True unfolding x by (simp add: power_int_def field_simps)
    finally show ?thesis using True by simp
  next
    case False
    have "\<bar>p\<bar> * 2 ^ nat (- k) < q \<longleftrightarrow> (of_int (\<bar>p\<bar> * 2 ^ nat (- k)) :: rat) < of_int q" by (simp only: of_int_less_iff)
    also have "\<dots> \<longleftrightarrow> \<bar>x\<bar> < 2 powi k" using q False unfolding x by (simp add: power_int_def field_simps)
    finally show ?thesis using False by simp
  qed
  define e where "e = (if \<bar>x\<bar> < 2 powi k then k - 1 else k)"
  have e: "expo x = e" using lo up by (intro expo_unique) (auto simp: e_def)
  have "x / 2 powi s = (if 0 \<le> s then of_int p / of_int (q * 2 ^ nat s) else of_int (p * 2 ^ nat (- s)) / of_int q)" for s
    using q by (simp add: x_def power_int_def field_simps)
  then have "rhe (x / 2 powi s) = (if 0 \<le> s then rhe_quot p (q * 2 ^ nat s) else rhe_quot (p * 2 ^ nat (- s)) q)" for s
    using q by (simp add: rhe_quot)
  then show ?thesis
    using False by (simp add: fl_quot_def Let_def dyad_def fl_def e cmp flip: x_def k_def e_def)
qed (simp add: fl_quot_def)

lemma fl_code [code]: "fl x = (case quotient_of x of (p, q) \<Rightarrow> fl_quot p q)"
  by (cases "quotient_of x") (simp add: fl_quot quotient_of_denom_pos flip: quotient_of_div)

lemma rhe_code [code]: "rhe x = (case quotient_of x of (p, q) \<Rightarrow> rhe_quot p q)"
  by (cases "quotient_of x") (simp add: rhe_quot quotient_of_denom_pos flip: quotient_of_div)

definition flm :: "rat \<Rightarrow> rat \<Rightarrow> rat" where
  "flm x y = (case (quotient_of x, quotient_of y) of ((p, q), (r, s)) \<Rightarrow> fl_quot (p * r) (q * s))"

definition fla :: "rat \<Rightarrow> rat \<Rightarrow> rat" where
  "fla x y = (case (quotient_of x, quotient_of y) of ((p, q), (r, s)) \<Rightarrow> fl_quot (p * s + r * q) (q * s))"

definition fls :: "rat \<Rightarrow> rat \<Rightarrow> rat" where
  "fls x y = (case (quotient_of x, quotient_of y) of ((p, q), (r, s)) \<Rightarrow> fl_quot (p * s - r * q) (q * s))"

definition rhm :: "rat \<Rightarrow> rat \<Rightarrow> int" where
  "rhm x y = (case (quotient_of x, quotient_of y) of ((p, q), (r, s)) \<Rightarrow> rhe_quot (p * r) (q * s))"

lemma fl_unfold [code_unfold]: "fl (x * y) = flm x y" "fl (x + y) = fla x y" "fl (x - y) = fls x y" "rhe (x * y) = rhm x y"
proof -
  obtain p q r s where xy: "quotient_of x = (p, q)" "quotient_of y = (r, s)"
    by (cases "quotient_of x"; cases "quotient_of y")
  have pos: "0 < q" "0 < s" using xy quotient_of_denom_pos by blast+
  have x: "x = of_int p / of_int q" "y = of_int r / of_int s" using xy quotient_of_div by blast+
  have qs: "0 < q * s" using pos by simp
  have "x * y = of_int (p * r) / of_int (q * s)" "x + y = of_int (p * s + r * q) / of_int (q * s)"
    "x - y = of_int (p * s - r * q) / of_int (q * s)"
    using pos by (simp_all add: x field_simps)
  then show "fl (x * y) = flm x y" "fl (x + y) = fla x y" "fl (x - y) = fls x y" "rhe (x * y) = rhm x y"
    by (simp_all add: flm_def fla_def fls_def rhm_def xy fl_quot [OF qs] rhe_quot [OF qs] del: of_int_mult of_int_add of_int_diff)
qed

text \<open>
  \<open>sum(xs)\<close> of floats: the running sum starts with the first element (\<open>0 + x\<close>) and carries a compensation
  term, as CPython does since 3.12.
\<close>

fun fsum_loop :: "rat \<Rightarrow> rat \<Rightarrow> rat list \<Rightarrow> rat" where
  "fsum_loop f c [] = (if c \<noteq> 0 then fl (f + c) else f)"
| "fsum_loop f c (x # xs) = (let t = fl (f + x);
     e = (if \<bar>f\<bar> \<ge> \<bar>x\<bar> then fl (fl (f - t) + x) else fl (fl (x - t) + f))
     in fsum_loop t (fl (c + e)) xs)"

definition py_fsum :: "rat list \<Rightarrow> rat" where
  "py_fsum xs = (case xs of [] \<Rightarrow> 0 | x # xs \<Rightarrow> fsum_loop x 0 xs)"

end
