(* ===== verification/PyText.thy ===== *)
theory PyText
  imports PyFloat
begin

section \<open>Text: whitespace, case, tokens and number formatting\<close>

text \<open>
  A Python \<open>str\<close> is represented by its UTF-8 encoding, a \<^typ>\<open>string\<close> of bytes: substring tests,
  equality and the code-point order are the same on both sides, and every literal of the source that is
  not ASCII is spelled here by its bytes (\<open>rupee\<close>, \<open>em_dash\<close>). The whitespace class of \<open>str.strip\<close>
  and of \<open>\s\<close>, and the invisible characters of \<open>engine/packs.py\<close>, are given by the list of their
  encodings. Case mapping and the case-insensitive classes of the regular expressions are those of
  ASCII: the letters beyond it are left as they are.
  The second half renders integers and floats the way the f-strings of the source do.
\<close>

named_theorems text_simps "evaluation of the text functions"

subsection \<open>Characters\<close>

definition code :: "char \<Rightarrow> int" where
  "code c = of_char c"

definition is_digit :: "char \<Rightarrow> bool" where
  "is_digit c \<longleftrightarrow> 48 \<le> code c \<and> code c \<le> 57"

definition is_alpha :: "char \<Rightarrow> bool" where
  "is_alpha c \<longleftrightarrow> (65 \<le> code c \<and> code c \<le> 90) \<or> (97 \<le> code c \<and> code c \<le> 122)"

definition is_alnum :: "char \<Rightarrow> bool" where
  "is_alnum c \<longleftrightarrow> is_digit c \<or> is_alpha c"

definition lower_char :: "char \<Rightarrow> char" where
  "lower_char c = (if 65 \<le> code c \<and> code c \<le> 90 then char_of (code c + 32) else c)"

definition upper_char :: "char \<Rightarrow> char" where
  "upper_char c = (if 97 \<le> code c \<and> code c \<le> 122 then char_of (code c - 32) else c)"

definition py_lower :: "string \<Rightarrow> string" where
  "py_lower s = map lower_char s"

definition py_upper :: "string \<Rightarrow> string" where
  "py_upper s = map upper_char s"

definition rupee :: string where
  "rupee = [CHR 0xE2, CHR 0x82, CHR 0xB9]"

definition em_dash :: string where
  "em_dash = [CHR 0xE2, CHR 0x80, CHR 0x94]"

lemma lower_char_idem [simp]: "lower_char (lower_char c) = lower_char c"
  by (auto simp: lower_char_def code_def)

lemma py_lower_idem [simp]: "py_lower (py_lower s) = py_lower s"
  by (simp add: py_lower_def)

lemma length_py_lower [simp]: "length (py_lower s) = length s"
  by (simp add: py_lower_def)

lemma is_alnum_lower [simp]: "is_alnum (lower_char c) = is_alnum c"
  by (auto simp: lower_char_def is_alnum_def is_digit_def is_alpha_def code_def)

subsection \<open>Substrings\<close>

text \<open>\<open>p in s\<close>, \<open>s.startswith(p)\<close>, \<open>s.endswith(p)\<close>.\<close>

fun contains :: "string \<Rightarrow> string \<Rightarrow> bool" where
  "contains p [] = (p = [])"
| "contains p (c # cs) = (prefix p (c # cs) \<or> contains p cs)"

lemma contains_sublist: "contains p s \<longleftrightarrow> sublist p s"
  by (induction s) (auto simp: sublist_Cons_right)

definition py_partition :: "char \<Rightarrow> string \<Rightarrow> string \<times> string" where
  "py_partition c s = (takeWhile (\<lambda>x. x \<noteq> c) s, drop 1 (dropWhile (\<lambda>x. x \<noteq> c) s))"

subsection \<open>Whitespace and invisible characters\<close>

definition ws_chars :: "string list" where
  "ws_chars = [[CHR 0x09], [CHR 0x0A], [CHR 0x0B], [CHR 0x0C], [CHR 0x0D], [CHR 0x1C], [CHR 0x1D],
     [CHR 0x1E], [CHR 0x1F], [CHR 0x20], [CHR 0xC2, CHR 0x85], [CHR 0xC2, CHR 0xA0],
     [CHR 0xE1, CHR 0x9A, CHR 0x80], [CHR 0xE2, CHR 0x80, CHR 0x80], [CHR 0xE2, CHR 0x80, CHR 0x81],
     [CHR 0xE2, CHR 0x80, CHR 0x82], [CHR 0xE2, CHR 0x80, CHR 0x83], [CHR 0xE2, CHR 0x80, CHR 0x84],
     [CHR 0xE2, CHR 0x80, CHR 0x85], [CHR 0xE2, CHR 0x80, CHR 0x86], [CHR 0xE2, CHR 0x80, CHR 0x87],
     [CHR 0xE2, CHR 0x80, CHR 0x88], [CHR 0xE2, CHR 0x80, CHR 0x89], [CHR 0xE2, CHR 0x80, CHR 0x8A],
     [CHR 0xE2, CHR 0x80, CHR 0xA8], [CHR 0xE2, CHR 0x80, CHR 0xA9], [CHR 0xE2, CHR 0x80, CHR 0xAF],
     [CHR 0xE2, CHR 0x81, CHR 0x9F], [CHR 0xE3, CHR 0x80, CHR 0x80]]"

text \<open>The length of the encoded character of the class at the front of \<open>s\<close>, 0 when there is none.\<close>

definition class_len :: "string list \<Rightarrow> string \<Rightarrow> nat" where
  "class_len cls s = (case find (\<lambda>w. prefix w s) cls of None \<Rightarrow> 0 | Some w \<Rightarrow> length w)"

function strip_front :: "string list \<Rightarrow> string \<Rightarrow> string" where
  "strip_front cls s = (let n = class_len cls s in
     if n = 0 \<or> s = [] then s else strip_front cls (drop n s))"
  by pat_completeness auto
termination by (relation "measure (\<lambda>(_, s). length s)") auto

declare strip_front.simps [simp del]

lemma strip_front_length [simp]: "length (strip_front cls s) \<le> length s"
proof (induction cls s rule: strip_front.induct)
  case (1 cls s)
  then show ?case by (subst strip_front.simps) (auto simp: Let_def intro: order_trans)
qed

lemma strip_front_shorter: "class_len cls s \<noteq> 0 \<Longrightarrow> s \<noteq> [] \<Longrightarrow> length (strip_front cls s) < length s"
  by (subst strip_front.simps)
    (auto simp: Let_def intro!: order.strict_trans1 [OF strip_front_length])

definition py_lstrip :: "string \<Rightarrow> string" where
  "py_lstrip s = strip_front ws_chars s"

definition py_rstrip :: "string \<Rightarrow> string" where
  "py_rstrip s = rev (strip_front (map rev ws_chars) (rev s))"

definition py_strip :: "string \<Rightarrow> string" where
  "py_strip s = py_rstrip (py_lstrip s)"

text \<open>\<open>re.sub(cls, ' ', s)\<close> for a class of single characters, and \<open>re.sub('\s+', ' ', s)\<close>.\<close>

function sub_class :: "string list \<Rightarrow> string \<Rightarrow> string" where
  "sub_class cls [] = []"
| "sub_class cls (c # cs) = (let n = class_len cls (c # cs) in
     if n = 0 then c # sub_class cls cs else CHR 0x20 # sub_class cls (drop n (c # cs)))"
  by pat_completeness auto
termination by (relation "measure (\<lambda>(_, s). length s)") auto

text \<open>\<open>re.sub(cls, '', s)\<close>.\<close>

function drop_class :: "string list \<Rightarrow> string \<Rightarrow> string" where
  "drop_class cls [] = []"
| "drop_class cls (c # cs) = (let n = class_len cls (c # cs) in
     if n = 0 then c # drop_class cls cs else drop_class cls (drop n (c # cs)))"
  by pat_completeness auto
termination by (relation "measure (\<lambda>(_, s). length s)") auto

text \<open>\<open>s.replace(c, rep)\<close> for a single character.\<close>

definition replace_char :: "char \<Rightarrow> string \<Rightarrow> string \<Rightarrow> string" where
  "replace_char c rep s = concat (map (\<lambda>x. if x = c then rep else [x]) s)"

function sub_runs :: "string list \<Rightarrow> string \<Rightarrow> string" where
  "sub_runs cls [] = []"
| "sub_runs cls (c # cs) =
     (if class_len cls (c # cs) = 0 then c # sub_runs cls cs
      else CHR 0x20 # sub_runs cls (strip_front cls (c # cs)))"
  by pat_completeness auto
termination
proof (relation "measure (\<lambda>(_, s). length s)")
  fix cls :: "string list" and c cs
  assume "class_len cls (c # cs) \<noteq> 0"
  then show "((cls, strip_front cls (c # cs)), (cls, c # cs)) \<in> measure (\<lambda>(_, s). length s)"
    using strip_front_shorter [of cls "c # cs"] by simp
qed simp_all

subsection \<open>Alphanumeric runs\<close>

text \<open>The maximal runs of letters and digits of a text, left to right.\<close>

function alnum_runs :: "string \<Rightarrow> string list" where
  "alnum_runs [] = []"
| "alnum_runs (c # cs) = (if is_alnum c
     then (c # takeWhile is_alnum cs) # alnum_runs (dropWhile is_alnum cs) else alnum_runs cs)"
  by pat_completeness auto
termination
  by (relation "measure length") (simp_all add: less_Suc_eq_le length_dropWhile_le)

lemma alnum_runs_alnum: "r \<in> set (alnum_runs s) \<Longrightarrow> r \<noteq> [] \<and> list_all is_alnum r"
proof (induction s rule: alnum_runs.induct)
  case (2 c cs)
  have "list_all is_alnum (takeWhile is_alnum cs)"
    unfolding list_all_iff by (meson set_takeWhileD)
  with 2 show ?case by (cases "is_alnum c") auto
qed simp

subsection \<open>Integers as text\<close>

definition digit_char :: "int \<Rightarrow> char" where
  "digit_char d = char_of (48 + d)"

text \<open>\<open>str(n)\<close> of a non-negative integer.\<close>

function str_nn :: "int \<Rightarrow> string" where
  "str_nn n = (if n < 10 then [digit_char n] else str_nn (n div 10) @ [digit_char (n mod 10)])"
  by pat_completeness auto
termination by (relation "measure nat") auto

declare str_nn.simps [simp del]

definition str_int :: "int \<Rightarrow> string" where
  "str_int i = (if i < 0 then ''-'' @ str_nn (- i) else str_nn i)"

text \<open>\<open>int(s)\<close> on a string of ASCII digits.\<close>

definition digit_val :: "char \<Rightarrow> int" where
  "digit_val c = code c - 48"

definition int_of_digits :: "string \<Rightarrow> int" where
  "int_of_digits s = foldl (\<lambda>a c. 10 * a + digit_val c) 0 s"

lemma code_digit_char: "0 \<le> d \<Longrightarrow> d < 10 \<Longrightarrow> code (digit_char d) = 48 + d"
  by (simp add: digit_char_def code_def)

lemma digit_val_char [simp]: "0 \<le> d \<Longrightarrow> d < 10 \<Longrightarrow> digit_val (digit_char d) = d"
  by (simp add: digit_val_def code_digit_char)

lemma is_digit_char [simp]: "0 \<le> d \<Longrightarrow> d < 10 \<Longrightarrow> is_digit (digit_char d)"
  by (simp add: is_digit_def code_digit_char)

lemma str_nn_digits: "0 \<le> n \<Longrightarrow> list_all is_digit (str_nn n)"
proof (induction n rule: str_nn.induct)
  case (1 n)
  then show ?case by (subst str_nn.simps) auto
qed

lemma str_nn_nonempty [simp]: "str_nn n \<noteq> []"
  by (subst str_nn.simps) auto

lemma int_of_digits_str_nn [simp]: "0 \<le> n \<Longrightarrow> int_of_digits (str_nn n) = n"
proof (induction n rule: str_nn.induct)
  case (1 n)
  then show ?case by (subst str_nn.simps) (auto simp: int_of_digits_def)
qed

lemma str_nn_inject: "0 \<le> m \<Longrightarrow> 0 \<le> n \<Longrightarrow> str_nn m = str_nn n \<longleftrightarrow> m = n"
  by (metis int_of_digits_str_nn)

text \<open>\<open>f"{n:0kd}"\<close>: at least \<open>k\<close> digits.\<close>

definition zpad :: "nat \<Rightarrow> string \<Rightarrow> string" where
  "zpad k s = replicate (k - length s) (CHR 0x30) @ s"

lemma int_of_digits_zeros: "int_of_digits (replicate k (CHR 0x30) @ s) = int_of_digits s"
  by (induction k) (simp_all add: int_of_digits_def digit_val_def code_def)

lemma int_of_digits_zpad [simp]: "int_of_digits (zpad k s) = int_of_digits s"
  by (simp add: zpad_def int_of_digits_zeros)

fun group3 :: "string \<Rightarrow> string" where
  "group3 (a # b # c # d # ds) = a # b # c # CHR 0x2C # group3 (d # ds)"
| "group3 s = s"

text \<open>\<open>f"{n:,}"\<close>: thousands separators.\<close>

definition str_nn_sep :: "int \<Rightarrow> string" where
  "str_nn_sep n = rev (group3 (rev (str_nn n)))"

definition fixed_digits :: "(int \<Rightarrow> string) \<Rightarrow> nat \<Rightarrow> rat \<Rightarrow> string" where
  "fixed_digits whole k x = (let m = rhe (\<bar>x\<bar> * 10 ^ k) in
     (if x < 0 then ''-'' else []) @ whole (m div 10 ^ k) @ ''.'' @ zpad k (str_nn (m mod 10 ^ k)))"

text \<open>\<open>f"{x:.kf}"\<close> and \<open>f"{x:,.kf}"\<close>, correctly rounded from the exact value of the double.\<close>

definition fmt_f :: "nat \<Rightarrow> rat \<Rightarrow> string" where
  "fmt_f k x = fixed_digits str_nn k x"

definition fmt_f_sep :: "nat \<Rightarrow> rat \<Rightarrow> string" where
  "fmt_f_sep k x = fixed_digits str_nn_sep k x"

text \<open>
  \<open>repr\<close> of a string: single quotes unless it contains a single and no double quote; the backslash, the
  quote and the ASCII control characters are escaped.
\<close>

definition hex_char :: "int \<Rightarrow> char" where
  "hex_char d = (if d < 10 then char_of (48 + d) else char_of (87 + d))"

definition repr_char :: "char \<Rightarrow> char \<Rightarrow> string" where
  "repr_char q c = (
     if c = CHR 0x5C \<or> c = q then [CHR 0x5C, c]
     else if c = CHR 0x0A then [CHR 0x5C, CHR ''n'']
     else if c = CHR 0x0D then [CHR 0x5C, CHR ''r'']
     else if c = CHR 0x09 then [CHR 0x5C, CHR ''t'']
     else if code c < 32 \<or> code c = 127
       then [CHR 0x5C, CHR ''x'', hex_char (code c div 16), hex_char (code c mod 16)]
     else [c])"

definition py_repr :: "string \<Rightarrow> string" where
  "py_repr s = (let q = (if CHR 0x27 \<in> set s \<and> CHR 0x22 \<notin> set s then CHR 0x22 else CHR 0x27) in
     [q] @ concat (map (repr_char q) s) @ [q])"

text \<open>\<open>sep.join(xs)\<close>.\<close>

fun py_join :: "string \<Rightarrow> string list \<Rightarrow> string" where
  "py_join sep [] = []"
| "py_join sep [x] = x"
| "py_join sep (x # y # ys) = x @ sep @ py_join sep (y # ys)"

definition str_of_opt :: "string option \<Rightarrow> string" where
  "str_of_opt s = (case s of None \<Rightarrow> [] | Some x \<Rightarrow> x)"

text \<open>The truth value of an optional string: neither \<open>None\<close> nor empty.\<close>

definition truthy :: "string option \<Rightarrow> bool" where
  "truthy s \<longleftrightarrow> s \<noteq> None \<and> s \<noteq> Some []"

lemma truthy_simps [simp, text_simps]: "\<not> truthy None" "truthy (Some x) \<longleftrightarrow> x \<noteq> []"
  by (auto simp: truthy_def)

end
