(* ===== verification/PyDate.thy ===== *)
theory PyDate
  imports PyText
begin

section \<open>Dates\<close>

text \<open>
  A \<open>datetime.date\<close> is its proleptic Gregorian ordinal (\<open>date.toordinal\<close>, 1 is 0001-01-01), so that
  \<open>(a - b).days\<close> is integer subtraction; a naive \<open>datetime\<close> of whole seconds, which is all the loaders
  produce, is the number of seconds on the same scale. \<open>isoformat\<close> is rendered by the usual
  conversion from days to the civil calendar, with years that start in March.
\<close>

type_synonym date = int
type_synonym datetime = int

definition dt_date :: "datetime \<Rightarrow> date" where
  "dt_date t = t div 86400"

text \<open>\<open>abs((a - b).days)\<close>\<close>

definition days_apart :: "date \<Rightarrow> date \<Rightarrow> int" where
  "days_apart a b = \<bar>a - b\<bar>"

definition civil :: "date \<Rightarrow> int \<times> int \<times> int" where
  "civil n = (let z = n + 305; era = z div 146097; doe = z mod 146097;
     yoe = (doe - doe div 1460 + doe div 36524 - doe div 146096) div 365;
     doy = doe - (365 * yoe + yoe div 4 - yoe div 100);
     mp = (5 * doy + 2) div 153;
     d = doy - (153 * mp + 2) div 5 + 1;
     m = (if mp < 10 then mp + 3 else mp - 9)
     in (yoe + era * 400 + (if m \<le> 2 then 1 else 0), m, d))"

definition date_isoformat :: "date \<Rightarrow> string" where
  "date_isoformat n = (case civil n of (y, m, d) \<Rightarrow>
     zpad 4 (str_int y) @ ''-'' @ zpad 2 (str_int m) @ ''-'' @ zpad 2 (str_int d))"

definition datetime_isoformat :: "datetime \<Rightarrow> string" where
  "datetime_isoformat t = (let s = t mod 86400 in date_isoformat (t div 86400) @ ''T'' @
     zpad 2 (str_int (s div 3600)) @ '':'' @ zpad 2 (str_int (s div 60 mod 60)) @ '':'' @
     zpad 2 (str_int (s mod 60)))"

lemma days_apart_le [simp]: "days_apart a b \<le> k \<longleftrightarrow> a \<le> b + k \<and> b \<le> a + k"
  by (auto simp: days_apart_def)

end
