(* ===== verification/Models.thy ===== *)
theory Models
  imports PyDate
begin

section \<open>The records of \<open>engine/models.py\<close>\<close>

text \<open>
  The engine's data model: enumerations as datatypes with their string values, dataclasses as records,
  field by field and in the source's order. Money is an \<^typ>\<open>int\<close> of paise, as in the code. The serialised
  form that reports and proof packets are made of is the datatype \<open>json\<close>, and each \<open>to_dict\<close> of the source is
  a function into it.
\<close>

subsection \<open>Enumerations\<close>

datatype rail = RAZORPAY_SETTLEMENT | OTHER_GATEWAY | DIRECT_UPI | COD_REMITTANCE | UNRELATED | UNKNOWN

fun rail_value :: "rail \<Rightarrow> string" where
  "rail_value RAZORPAY_SETTLEMENT = ''razorpay_settlement''"
| "rail_value OTHER_GATEWAY = ''other_gateway''"
| "rail_value DIRECT_UPI = ''direct_upi''"
| "rail_value COD_REMITTANCE = ''cod_remittance''"
| "rail_value UNRELATED = ''unrelated''"
| "rail_value UNKNOWN = ''UNKNOWN''"

datatype tier = TIER_A | TIER_B | TIER_C | TIER_LLM | TIER_RULE | TIER_NONE

fun tier_value :: "tier \<Rightarrow> string" where
  "tier_value TIER_A = ''A''"
| "tier_value TIER_B = ''B''"
| "tier_value TIER_C = ''C''"
| "tier_value TIER_LLM = ''LLM''"
| "tier_value TIER_RULE = ''rule_derived''"
| "tier_value TIER_NONE = ''none''"

lemma rail_value_inject [simp]: "rail_value r = rail_value s \<longleftrightarrow> r = s"
  by (cases r; cases s) simp_all

lemma tier_value_inject [simp]: "tier_value s = tier_value t \<longleftrightarrow> s = t"
  by (cases s; cases t) simp_all

declare rail_value.simps [simp del] and tier_value.simps [simp del]

subsection \<open>Inputs\<close>

record bank_line =
  ln_key :: string
  ln_value_date :: date
  ln_amount_paise :: int
  ln_narration :: string
  ln_bank_ref :: "string option"
  ln_is_credit :: bool

definition raw_text :: "bank_line \<Rightarrow> string" where
  "raw_text l = py_strip (ln_narration l @ '' '' @ str_of_opt (ln_bank_ref l))"

record recon_row =
  r_entity_id :: string
  r_type :: string
  r_amount_paise :: int
  r_fee_paise :: int
  r_tax_paise :: int
  r_debit_paise :: int
  r_credit_paise :: int
  r_settlement_id :: "string option"
  r_settlement_utr :: "string option"
  r_settled_at :: "datetime option"
  r_created_at :: "datetime option"
  r_on_hold :: bool
  r_dispute_id :: "string option"
  r_order_id :: "string option"
  r_method :: "string option"
  r_description :: "string option"
  r_row_id :: "string option"
  r_authorized_amount_paise :: "int option"
  r_captured_amount_paise :: "int option"

definition net_paise :: "recon_row \<Rightarrow> int" where
  "net_paise r = r_credit_paise r - r_debit_paise r"

record order_entry =
  o_order_id :: "string option"
  o_amount_paise :: int
  o_status :: string
  o_created_at :: "datetime option"

subsection \<open>Outputs\<close>

record evidence_item =
  ev_signal :: string
  ev_detail :: string
  ev_weight :: rat

definition EvidenceItem :: "string \<Rightarrow> string \<Rightarrow> rat \<Rightarrow> evidence_item" where
  "EvidenceItem s d w = \<lparr>ev_signal = s, ev_detail = d, ev_weight = w\<rparr>"

lemma EvidenceItem_sel [simp]:
  "ev_signal (EvidenceItem s d w) = s" "ev_detail (EvidenceItem s d w) = d" "ev_weight (EvidenceItem s d w) = w"
  by (simp_all add: EvidenceItem_def)

text \<open>Nested dictionaries and lists, the form everything is serialised to.\<close>

datatype json = JNull | JBool bool | JInt int | JFloat rat | JStr string
  | JList "json list" | JObj "(string \<times> json) list"

record attribution =
  a_line_key :: string
  a_rail :: string
  a_confidence :: rat
  a_tier :: string
  a_evidence :: "evidence_item list"
  a_abstained :: bool
  a_llm_used :: bool
  a_proof_margin :: "rat option"
  a_competing :: "json option"

text \<open>
  \<open>RailAttribution(line_key, rail, confidence, tier, evidence)\<close> with the defaults of the dataclass, and
  the same with \<open>abstained=True\<close>.
\<close>

definition RailAttribution :: "string \<Rightarrow> string \<Rightarrow> rat \<Rightarrow> string \<Rightarrow> evidence_item list \<Rightarrow> attribution" where
  "RailAttribution k r c t ev = \<lparr>a_line_key = k, a_rail = r, a_confidence = c, a_tier = t,
     a_evidence = ev, a_abstained = False, a_llm_used = False, a_proof_margin = None, a_competing = None\<rparr>"

definition Abstention :: "string \<Rightarrow> rat \<Rightarrow> evidence_item list \<Rightarrow> attribution" where
  "Abstention k c ev = (RailAttribution k (rail_value UNKNOWN) c (tier_value TIER_NONE) ev)
     \<lparr>a_abstained := True\<rparr>"

lemma RailAttribution_sel [simp]:
  "a_line_key (RailAttribution k r c t ev) = k" "a_rail (RailAttribution k r c t ev) = r"
  "a_confidence (RailAttribution k r c t ev) = c" "a_tier (RailAttribution k r c t ev) = t"
  "a_evidence (RailAttribution k r c t ev) = ev" "\<not> a_abstained (RailAttribution k r c t ev)"
  "\<not> a_llm_used (RailAttribution k r c t ev)" "a_proof_margin (RailAttribution k r c t ev) = None"
  "a_competing (RailAttribution k r c t ev) = None"
  by (simp_all add: RailAttribution_def)

lemma Abstention_sel [simp]:
  "a_line_key (Abstention k c ev) = k" "a_rail (Abstention k c ev) = rail_value UNKNOWN"
  "a_confidence (Abstention k c ev) = c" "a_tier (Abstention k c ev) = tier_value TIER_NONE"
  "a_evidence (Abstention k c ev) = ev" "a_abstained (Abstention k c ev)"
  by (simp_all add: Abstention_def)

definition provenance_class :: "attribution \<Rightarrow> string" where
  "provenance_class a = (if \<not> a_abstained a
     then (if a_rail a = ''razorpay_settlement'' then ''razorpay_proven'' else ''non_razorpay'')
     else if a_evidence a \<noteq> [] then ''ambiguous'' else ''unattributed'')"

record reconciliation =
  rc_line_key :: string
  rc_covered_entity_ids :: "(string \<times> string) list"
  rc_covered_net_paise :: int
  rc_credit_amount_paise :: int
  rc_residual_paise :: int
  rc_balanced :: bool
  rc_covered_row_ids :: "string list"

record fee_gst =
  fg_total_recoverable_paise :: int
  fg_by_entity :: "(string \<times> int) list"

record exception_record =
  x_line_key :: string
  x_reason_code :: string
  x_detail :: string
  x_suggested_action :: string
  x_amount_paise :: "int option"
  x_evidence :: "evidence_item list"

subsection \<open>Serialisation\<close>

definition j_opt :: "('a \<Rightarrow> json) \<Rightarrow> 'a option \<Rightarrow> json" where
  "j_opt f x = (case x of None \<Rightarrow> JNull | Some y \<Rightarrow> f y)"

definition evidence_asdict :: "evidence_item \<Rightarrow> json" where
  "evidence_asdict e = JObj [(''signal'', JStr (ev_signal e)), (''detail'', JStr (ev_detail e)),
     (''weight'', JFloat (ev_weight e))]"

definition attribution_to_dict :: "attribution \<Rightarrow> json" where
  "attribution_to_dict a = JObj (
     [(''line_key'', JStr (a_line_key a)), (''rail'', JStr (a_rail a)),
      (''provenance_class'', JStr (provenance_class a)),
      (''confidence'', JFloat (py_round 4 (a_confidence a))), (''tier'', JStr (a_tier a)),
      (''abstained'', JBool (a_abstained a)), (''llm_used'', JBool (a_llm_used a)),
      (''evidence'', JList (map evidence_asdict (a_evidence a)))]
     @ (case a_proof_margin a of None \<Rightarrow> [] | Some m \<Rightarrow> [(''proof_margin'', JFloat (py_round 4 m))])
     @ (case a_competing a of None \<Rightarrow> [] | Some c \<Rightarrow> [(''competing_explanation'', c)]))"

definition pair_list :: "string \<times> string \<Rightarrow> json" where
  "pair_list p = JList [JStr (fst p), JStr (snd p)]"

definition reconciliation_to_dict :: "reconciliation \<Rightarrow> json" where
  "reconciliation_to_dict r = JObj (
     [(''line_key'', JStr (rc_line_key r)),
      (''covered_entity_ids'', JList (map pair_list (rc_covered_entity_ids r))),
      (''covered_net_paise'', JInt (rc_covered_net_paise r)),
      (''credit_amount_paise'', JInt (rc_credit_amount_paise r)),
      (''residual_paise'', JInt (rc_residual_paise r)), (''balanced'', JBool (rc_balanced r))]
     @ (if rc_covered_row_ids r \<noteq> []
        then [(''covered_row_ids'', JList (map JStr (rc_covered_row_ids r)))] else []))"

definition fee_gst_to_dict :: "fee_gst \<Rightarrow> json" where
  "fee_gst_to_dict f = JObj [(''total_recoverable_paise'', JInt (fg_total_recoverable_paise f)),
     (''by_entity'', JList (map (\<lambda>(e, t). JList [JStr e, JInt t]) (fg_by_entity f)))]"

definition exception_to_dict :: "exception_record \<Rightarrow> json" where
  "exception_to_dict x = JObj [(''line_key'', JStr (x_line_key x)),
     (''reason_code'', JStr (x_reason_code x)), (''detail'', JStr (x_detail x)),
     (''suggested_action'', JStr (x_suggested_action x)),
     (''amount_paise'', j_opt JInt (x_amount_paise x)),
     (''evidence'', JList (map evidence_asdict (x_evidence x)))]"

record run_report =
  rr_totals :: json
  rr_attributions :: "attribution list"
  rr_reconciliations :: "reconciliation list"
  rr_fee_gst :: "fee_gst option"
  rr_exceptions :: "exception_record list"
  rr_audit_root :: string
  rr_config :: json
  rr_proof_packets :: "json list"
  rr_recovery_plan :: "json option"
  rr_rejected_matches :: "json list option"
  rr_journal :: "json list option"
  rr_investigations :: "json list option"

definition run_report_to_dict :: "run_report \<Rightarrow> json" where
  "run_report_to_dict r = JObj (
     [(''totals'', rr_totals r),
      (''attributions'', JList (map attribution_to_dict (rr_attributions r))),
      (''reconciliations'', JList (map reconciliation_to_dict (rr_reconciliations r))),
      (''fee_gst'', j_opt fee_gst_to_dict (rr_fee_gst r)),
      (''exceptions'', JList (map exception_to_dict (rr_exceptions r))),
      (''audit_root'', JStr (rr_audit_root r)), (''config'', rr_config r),
      (''proof_packets'', JList (rr_proof_packets r))]
     @ (case rr_recovery_plan r of None \<Rightarrow> [] | Some p \<Rightarrow> [(''recovery_plan'', p)])
     @ (case rr_rejected_matches r of None \<Rightarrow> [] | Some p \<Rightarrow> [(''rejected_matches'', JList p)])
     @ (case rr_journal r of None \<Rightarrow> [] | Some p \<Rightarrow> [(''journal'', JList p)])
     @ (case rr_investigations r of None \<Rightarrow> [] | Some p \<Rightarrow> [(''investigations'', JList p)]))"

subsection \<open>Sample records, for the witnesses of the components\<close>

definition sample_row :: recon_row where
  "sample_row = \<lparr>r_entity_id = ''pay_1'', r_type = ''payment'', r_amount_paise = 100000, r_fee_paise = 2360,
     r_tax_paise = 360, r_debit_paise = 0, r_credit_paise = 97640, r_settlement_id = Some ''setl_1'',
     r_settlement_utr = Some ''1234567890abcdef'', r_settled_at = Some (738886 * 86400), r_created_at = None,
     r_on_hold = False, r_dispute_id = None, r_order_id = Some ''order_1'', r_method = Some ''upi'',
     r_description = None, r_row_id = None, r_authorized_amount_paise = None, r_captured_amount_paise = None\<rparr>"

definition sample_line :: bank_line where
  "sample_line = \<lparr>ln_key = ''k1'', ln_value_date = 738887, ln_amount_paise = 97640,
     ln_narration = ''NEFT 1234567890ABCDEF RAZORPAY'', ln_bank_ref = None, ln_is_credit = True\<rparr>"

definition sample_row2 :: recon_row where
  "sample_row2 = sample_row\<lparr>r_entity_id := ''pay_2'', r_settlement_id := Some ''setl_2'', r_credit_paise := 50000,
     r_settlement_utr := Some ''2234567890abcdef''\<rparr>"

end
