(* ===== verification/Bounded_Subsets.thy ===== *)
theory Bounded_Subsets
  imports Models
begin

section \<open>Bounded subset-sum search (\<open>engine/bounded_subsets.py\<close>)\<close>

text \<open>
  Two searches for sets of settlements whose nets add up to a credit: \<open>find_bounded_subsets\<close> enumerates
  combinations under a budget, \<open>find_legacy_subsets\<close> looks the last term up by amount. Early returns and the
  budget are kept: the loops consume the candidates in the order the code generates them and stop where
  the code stops. The reference definition is \<open>satisfying\<close>, the list of all combinations with the right sum.
  The locale \<open>subset_search\<close> is the contract the attribution and reconciliation code relies on (soundness,
  and completeness up to the result limit); its consequence is that a single result is the only solution.
\<close>

record bounded_subset_result =
  bs_subsets :: "string list list"
  bs_exhausted :: bool

datatype subset_error = Invalid_Bounds | Budgets_Not_Positive | Ids_Not_Unique | Amounts_Not_Positive

definition subset_result :: "string list list \<Rightarrow> bool \<Rightarrow> bounded_subset_result" where
  "subset_result ss e = \<lparr>bs_subsets = ss, bs_exhausted = e\<rparr>"

lemma subset_result_sel [simp]: "bs_subsets (subset_result ss e) = ss" "bs_exhausted (subset_result ss e) = e"
  by (simp_all add: subset_result_def)

subsection \<open>\<open>find_legacy_subsets\<close>\<close>

definition value_to_ids :: "(string \<times> int) list \<Rightarrow> (int, string list) dict" where
  "value_to_ids ordered = foldl (\<lambda>d (i, v). dappend d v i) [] ordered"

definition legacy_pairs :: "(string \<times> int) list \<Rightarrow> int \<Rightarrow> string list list" where
  "legacy_pairs ordered target = concat (map (\<lambda>(i, v).
     map (\<lambda>o2. [i, o2]) (filter (\<lambda>o2. \<not> o2 \<le> i) (dget (value_to_ids ordered) (target - v) []))) ordered)"

fun legacy_triples :: "(int, string list) dict \<Rightarrow> int \<Rightarrow> (string \<times> int) list \<Rightarrow> string list list" where
  "legacy_triples v2i target [] = []"
| "legacy_triples v2i target ((f, fv) # rest) =
     concat (map (\<lambda>(s, sv). let remainder = target - fv - sv in
       if remainder \<le> 0 then []
       else map (\<lambda>t. [f, s, t]) (filter (\<lambda>t. \<not> t \<le> s) (dget v2i remainder []))) rest)
     @ legacy_triples v2i target rest"

fun legacy_loop :: "nat \<Rightarrow> string set list \<Rightarrow> string list list \<Rightarrow> string list list \<Rightarrow> string list list" where
  "legacy_loop maxr seen matches [] = matches"
| "legacy_loop maxr seen matches (c # cs) =
     (if set c \<in> set seen then legacy_loop maxr seen matches cs
      else if length (matches @ [c]) \<ge> maxr then matches @ [c]
      else legacy_loop maxr (seen @ [set c]) (matches @ [c]) cs)"

definition find_legacy_subsets ::
  "(string \<times> int) list \<Rightarrow> int \<Rightarrow> int \<Rightarrow> subset_error + bounded_subset_result" where
  "find_legacy_subsets items target max_results = (
     if target \<le> 0 \<or> max_results < 1 then Inl Invalid_Bounds
     else if \<not> distinct (map fst items) then Inl Ids_Not_Unique
     else if \<exists>x \<in> set items. snd x \<le> 0 then Inl Amounts_Not_Positive
     else Inr (subset_result (legacy_loop (nat max_results) [] []
       (legacy_pairs items target @ legacy_triples (value_to_ids items) target items)) False))"

subsection \<open>\<open>find_bounded_subsets\<close>\<close>

definition subset_sum :: "(string \<times> int) list \<Rightarrow> int" where
  "subset_sum c = sum_list (map snd c)"

definition sums_to :: "int \<Rightarrow> int \<Rightarrow> (string \<times> int) list \<Rightarrow> bool" where
  "sums_to target tol c \<longleftrightarrow> \<not> \<bar>subset_sum c - target\<bar> > tol"

fun bounded_loop :: "int \<Rightarrow> int \<Rightarrow> int \<Rightarrow> nat \<Rightarrow> int \<Rightarrow> string list list \<Rightarrow> (string \<times> int) list list \<Rightarrow>
    bounded_subset_result" where
  "bounded_loop target tol maxc maxr examined matches [] = subset_result matches False"
| "bounded_loop target tol maxc maxr examined matches (c # cs) =
     (if examined + 1 > maxc then subset_result [] True
      else if \<not> sums_to target tol c then bounded_loop target tol maxc maxr (examined + 1) matches cs
      else if length (matches @ [map fst c]) \<ge> maxr then subset_result (matches @ [map fst c]) False
      else bounded_loop target tol maxc maxr (examined + 1) (matches @ [map fst c]) cs)"

text \<open>The combinations in the order the nested loops visit them.\<close>

definition all_combos :: "nat \<Rightarrow> nat \<Rightarrow> 'a list \<Rightarrow> 'a list list" where
  "all_combos lo hi xs = concat (map (\<lambda>k. combos k xs) [lo..<Suc hi])"

definition search_order :: "bool \<Rightarrow> (string \<times> int) list \<Rightarrow> (string \<times> int) list" where
  "search_order sort_items items = (if sort_items then sort_key fst items else items)"

definition find_bounded_subsets ::
  "(string \<times> int) list \<Rightarrow> int \<Rightarrow> int \<Rightarrow> int \<Rightarrow> int \<Rightarrow> int \<Rightarrow> int \<Rightarrow> int \<Rightarrow> bool \<Rightarrow>
   subset_error + bounded_subset_result" where
  "find_bounded_subsets items target tolerance min_terms max_terms max_items max_combinations max_results
     sort_items = (
     if target \<le> 0 \<or> tolerance < 0 \<or> min_terms < 0 \<or> max_terms < min_terms then Inl Invalid_Bounds
     else if max_items < 1 \<or> max_combinations < 1 \<or> max_results < 1 then Inl Budgets_Not_Positive
     else let ordered = search_order sort_items items in
       if int (length ordered) > max_items then Inr (subset_result [] True)
       else if \<not> distinct (map fst ordered) then Inl Ids_Not_Unique
       else if \<exists>x \<in> set ordered. snd x \<le> 0 then Inl Amounts_Not_Positive
       else Inr (bounded_loop target tolerance max_combinations (nat max_results) 0 []
         (all_combos (nat min_terms) (nat max_terms) ordered)))"

subsection \<open>The reference definition\<close>

text \<open>All solutions, in enumeration order, and the same as a predicate on sets of identities.\<close>

definition satisfying :: "int \<Rightarrow> int \<Rightarrow> nat \<Rightarrow> nat \<Rightarrow> (string \<times> int) list \<Rightarrow> string list list" where
  "satisfying target tol lo hi items = map (map fst) (filter (sums_to target tol) (all_combos lo hi items))"

definition solves :: "int \<Rightarrow> int \<Rightarrow> nat \<Rightarrow> nat \<Rightarrow> (string \<times> int) list \<Rightarrow> string set \<Rightarrow> bool" where
  "solves target tol lo hi items S \<longleftrightarrow> S \<subseteq> fst ` set items \<and> lo \<le> card S \<and> card S \<le> hi \<and>
     \<bar>(\<Sum>i \<in> S. the (map_of items i)) - target\<bar> \<le> tol"

definition items_ok :: "(string \<times> int) list \<Rightarrow> bool" where
  "items_ok items \<longleftrightarrow> distinct (map fst items) \<and> (\<forall>x \<in> set items. 0 < snd x)"

lemma set_all_combos: "set (all_combos lo hi xs) = {ys. subseq ys xs \<and> lo \<le> length ys \<and> length ys \<le> hi}"
  by (auto simp: all_combos_def set_combos)

lemma length_combos: "length (combos k xs) = length xs choose k"
  by (induction k xs rule: combos.induct) auto

lemma subset_sum_map_of:
  assumes "distinct (map fst items)" and "subseq c items"
  shows "subset_sum c = (\<Sum>i \<in> set (map fst c). the (map_of items i))"
proof -
  have d: "distinct (map fst c)"
    using assms by (meson subseq_distinct subseq_map)
  have "the (map_of items (fst x)) = snd x" if "x \<in> set c" for x
    using that assms subseq_subset by (metis map_of_is_SomeI option.sel prod.collapse subset_iff)
  then have "map snd c = map (\<lambda>i. the (map_of items i)) (map fst c)" by simp
  then show ?thesis unfolding subset_sum_def using d by (metis sum_list_distinct_conv_sum_set)
qed

lemma satisfying_solves:
  assumes "distinct (map fst items)"
  shows "set ` set (satisfying target tol lo hi items) = {S. solves target tol lo hi items S}"
proof (intro equalityI subsetI)
  fix S assume "S \<in> set ` set (satisfying target tol lo hi items)"
  then obtain c where c: "subseq c items" "lo \<le> length c" "length c \<le> hi" "sums_to target tol c"
    and S: "S = set (map fst c)"
    by (auto simp: satisfying_def set_all_combos)
  have "distinct (map fst c)" using assms c by (meson subseq_distinct subseq_map)
  then have "card S = length c" using S distinct_card by fastforce
  moreover have "S \<subseteq> fst ` set items" using S subseq_subset [OF c(1)] by auto
  ultimately show "S \<in> {S. solves target tol lo hi items S}"
    using c S subset_sum_map_of [OF assms c(1)] by (simp add: solves_def sums_to_def)
next
  fix S assume "S \<in> {S. solves target tol lo hi items S}"
  then have S: "solves target tol lo hi items S" by simp
  define c where "c = filter (\<lambda>x. fst x \<in> S) items"
  have sub: "subseq c items" by (simp add: c_def subseq_filter_left)
  have img: "set (map fst c) = S" using S by (auto simp: c_def solves_def)
  have "distinct (map fst c)" using assms sub by (meson subseq_distinct subseq_map)
  then have "length c = card S" using img by (metis distinct_card length_map)
  then have "c \<in> set (filter (sums_to target tol) (all_combos lo hi items))"
    using S sub img subset_sum_map_of [OF assms sub] by (simp add: set_all_combos sums_to_def solves_def)
  then show "S \<in> set ` set (satisfying target tol lo hi items)"
    using img unfolding satisfying_def by (metis (no_types, lifting) image_eqI list.set_map)
qed

subsection \<open>The loops\<close>

lemma bounded_loop_cases:
  fixes target tol maxc examined :: int and matches :: "string list list" and cs :: "(string \<times> int) list list"
  assumes "length matches < maxr"
  defines "r \<equiv> bounded_loop target tol maxc maxr examined matches cs"
  shows "(r = subset_result [] True \<and> maxc < examined + int (length cs)) \<or>
     r = subset_result (take maxr (matches @ map (map fst) (filter (sums_to target tol) cs))) False"
  using assms(1) unfolding r_def
proof (induction cs arbitrary: examined matches)
  case (Cons c cs)
  show ?case
  proof (cases "examined + 1 > maxc \<or> \<not> sums_to target tol c")
    case True
    then show ?thesis using Cons.IH [of matches "examined + 1"] Cons.prems by (auto simp: algebra_simps)
  next
    case False
    show ?thesis
    proof (cases "length (matches @ [map fst c]) \<ge> maxr")
      case True
      with Cons.prems False have "maxr = Suc (length matches)" by simp
      with False show ?thesis by simp
    next
      case nofull: False
      then show ?thesis
        using False Cons.IH [of "matches @ [map fst c]" "examined + 1"] by (auto simp: algebra_simps)
    qed
  qed
qed simp

lemma legacy_loop_facts:
  fixes cs matches :: "string list list"
  assumes "length matches < maxr" and "distinct (map set matches)" and "set seen = set ` set matches"
  defines "r \<equiv> legacy_loop maxr seen matches cs"
  shows "set r \<subseteq> set matches \<union> set cs" and "distinct (map set r)" and "set matches \<subseteq> set r"
    and "length r < maxr \<Longrightarrow> set ` set cs \<subseteq> set ` set r"
  using assms(1-3) unfolding r_def
proof (induction cs arbitrary: seen matches)
  case (Cons c cs)
  {
    case 1
    then show ?case using Cons.IH(1) [of "matches @ [c]" "seen @ [set c]"] Cons.IH(1) [of matches seen]
      by (auto simp: image_iff)
  next
    case 2
    then show ?case using Cons.IH(2) [of "matches @ [c]" "seen @ [set c]"] Cons.IH(2) [of matches seen]
      by (auto simp: image_iff)
  next
    case 3
    then show ?case using Cons.IH(3) [of "matches @ [c]" "seen @ [set c]"] Cons.IH(3) [of matches seen]
      by (auto simp: image_iff)
  next
    case 4
    show ?case
    proof (cases "set c \<in> set seen")
      case True
      with 4 have "set c \<in> set ` set matches" by simp
      moreover have "set matches \<subseteq> set (legacy_loop maxr seen matches cs)" using 4 Cons.IH(3) by simp
      ultimately show ?thesis using True 4 Cons.IH(4) [where matches = matches and seen = seen] by auto
    next
      case False
      with 4 have nf: "\<not> length (matches @ [c]) \<ge> maxr" by (auto split: if_splits)
      have "distinct (map set (matches @ [c]))" "set (seen @ [set c]) = set ` set (matches @ [c])"
        using 4 False by (auto simp: image_iff)
      then have "set (matches @ [c]) \<subseteq> set (legacy_loop maxr (seen @ [set c]) (matches @ [c]) cs)"
        and "set ` set cs \<subseteq> set ` set (legacy_loop maxr (seen @ [set c]) (matches @ [c]) cs)"
        using nf False 4 Cons.IH(3, 4) [where matches = "matches @ [c]" and seen = "seen @ [set c]"] by auto
      then show ?thesis using nf False by auto
    qed
  }
qed simp_all

lemma dget_value_to_ids [simp]:
  "dget (value_to_ids items) v [] = map fst (filter (\<lambda>x. snd x = v) items)"
proof -
  have "dget (foldl (\<lambda>d (i, v). dappend d v i) d items) v [] =
      dget d v [] @ map fst (filter (\<lambda>x. snd x = v) items)" for d
    by (induction items arbitrary: d) (auto simp: dget_dappend)
  then show ?thesis by (simp add: value_to_ids_def dget_def)
qed

lemma set_legacy_pairs:
  "x \<in> set (legacy_pairs items target) \<longleftrightarrow> (\<exists>y \<in> set items. \<exists>z \<in> set items.
     snd y + snd z = target \<and> fst y < fst z \<and> x = [fst y, fst z])"
proof -
  have "x \<in> set (legacy_pairs items target) \<longleftrightarrow> (\<exists>y \<in> set items. \<exists>z \<in> set items.
     snd z = target - snd y \<and> fst y < fst z \<and> x = [fst y, fst z])"
    unfolding legacy_pairs_def case_prod_beta by (auto simp: not_le)
  also have "\<dots> \<longleftrightarrow> (\<exists>y \<in> set items. \<exists>z \<in> set items.
     snd y + snd z = target \<and> fst y < fst z \<and> x = [fst y, fst z])"
    by (intro bex_cong refl conj_cong) auto
  finally show ?thesis .
qed

lemma subseq_pair_Cons: "subseq [y, z] (x # xs) \<longleftrightarrow> (x = y \<and> z \<in> set xs) \<or> subseq [y, z] xs"
  by (auto simp: subseq_singleton_left dest: subseq_Cons')

lemma set_legacy_triples:
  "x \<in> set (legacy_triples (value_to_ids items) target xs) \<longleftrightarrow> (\<exists>y z. subseq [y, z] xs \<and>
     (\<exists>w \<in> set items. snd y + snd z + snd w = target \<and> 0 < snd w \<and> fst z < fst w \<and>
       x = [fst y, fst z, fst w]))"
proof (induction xs)
  case (Cons y xs)
  have inner: "x \<in> set (if target - snd y - snd z \<le> 0 then [] else map (\<lambda>t. [fst y, fst z, t])
         (filter (\<lambda>t. \<not> t \<le> fst z) (map fst (filter (\<lambda>w. snd w = target - snd y - snd z) items)))) \<longleftrightarrow>
     (\<exists>w \<in> set items. snd w = target - snd y - snd z \<and> 0 < snd w \<and> fst z < fst w \<and>
       x = [fst y, fst z, fst w])" for z
    by (auto simp: not_le)
  have "x \<in> set (concat (map (\<lambda>(s, sv). let remainder = target - snd y - sv in
       if remainder \<le> 0 then [] else map (\<lambda>t. [fst y, s, t])
         (filter (\<lambda>t. \<not> t \<le> s) (dget (value_to_ids items) remainder []))) xs)) \<longleftrightarrow>
     (\<exists>z \<in> set xs. \<exists>w \<in> set items. snd w = target - snd y - snd z \<and> 0 < snd w \<and> fst z < fst w \<and>
       x = [fst y, fst z, fst w])"
    unfolding case_prod_beta Let_def dget_value_to_ids set_concat
    by (simp only: list.set_map image_image UN_iff inner)
  also have "\<dots> \<longleftrightarrow> (\<exists>z \<in> set xs. \<exists>w \<in> set items. snd y + snd z + snd w = target \<and> 0 < snd w \<and>
       fst z < fst w \<and> x = [fst y, fst z, fst w])"
    by (intro bex_cong refl conj_cong) auto
  finally have "x \<in> set (legacy_triples (value_to_ids items) target (y # xs)) \<longleftrightarrow>
      (\<exists>z \<in> set xs. \<exists>w \<in> set items. snd y + snd z + snd w = target \<and> 0 < snd w \<and>
       fst z < fst w \<and> x = [fst y, fst z, fst w]) \<or> x \<in> set (legacy_triples (value_to_ids items) target xs)"
    by (cases y) (simp only: legacy_triples.simps set_append Un_iff fst_conv snd_conv)
  then show ?case unfolding Cons.IH subseq_pair_Cons by blast
qed simp

subsection \<open>The contract of a subset search\<close>

locale subset_search =
  fixes search :: "(string \<times> int) list \<Rightarrow> int \<Rightarrow> subset_error + bounded_subset_result"
    and admissible :: "(string \<times> int) list \<Rightarrow> bool"
    and lo hi :: nat
  assumes returns: "admissible items \<Longrightarrow> 0 < target \<Longrightarrow> \<exists>r. search items target = Inr r"
    and sound: "admissible items \<Longrightarrow> search items target = Inr r \<Longrightarrow> s \<in> set (bs_subsets r) \<Longrightarrow>
      distinct s \<and> solves target 0 lo hi items (set s)"
    and complete: "admissible items \<Longrightarrow> search items target = Inr r \<Longrightarrow> \<not> bs_exhausted r \<Longrightarrow>
      length (bs_subsets r) < 2 \<Longrightarrow> solves target 0 lo hi items S \<Longrightarrow> S \<in> set ` set (bs_subsets r)"
    and separate: "admissible items \<Longrightarrow> search items target = Inr r \<Longrightarrow> distinct (map set (bs_subsets r))"
    and closed: "search items target = Inr r \<Longrightarrow> bs_exhausted r \<Longrightarrow> bs_subsets r = []"
begin

lemma single_unique:
  assumes "admissible items" and "search items target = Inr r" and "bs_subsets r = [s]"
  shows "solves target 0 lo hi items S \<longleftrightarrow> S = set s"
proof -
  have ne: "\<not> bs_exhausted r" using closed [OF assms(2)] assms(3) by auto
  show ?thesis using complete [OF assms(1,2) ne, of S] sound [OF assms(1,2), of s] assms(3) by auto
qed

lemma empty_none:
  assumes "admissible items" and "search items target = Inr r" and "bs_subsets r = []" and "\<not> bs_exhausted r"
  shows "\<not> solves target 0 lo hi items S"
  using complete [OF assms(1,2,4), of S] assms(3) by auto

lemma several_ambiguous:
  assumes "admissible items" and "search items target = Inr r" and "1 < length (bs_subsets r)"
  shows "\<exists>S T. S \<noteq> T \<and> solves target 0 lo hi items S \<and> solves target 0 lo hi items T"
proof -
  from assms(3) obtain s t rest where st: "bs_subsets r = s # t # rest"
    by (cases "bs_subsets r" rule: list.exhaust [case_product list.exhaust]; cases "tl (bs_subsets r)") auto
  then have "set s \<noteq> set t" using separate [OF assms(1,2)] by auto
  then show ?thesis using sound [OF assms(1,2), of s] sound [OF assms(1,2), of t] st by auto
qed

end

lemma distinct_all_combos: "distinct xs \<Longrightarrow> distinct (all_combos lo hi xs)"
proof -
  assume d: "distinct xs"
  have "distinct (concat (map (\<lambda>k. combos k xs) [lo..<n]))" for n
    by (induction n) (auto simp: distinct_combos [OF d] dest!: combos_length)
  then show ?thesis by (simp add: all_combos_def del: upt_Suc)
qed

lemma satisfying_set_distinct:
  assumes "distinct (map fst items)"
  shows "distinct (map set (satisfying target tol lo hi items))"
proof -
  have "c = c'" if "subseq c items" "subseq c' items" "fst ` set c = fst ` set c'" for c c'
  proof -
    have "map fst c = map fst c'"
      using that assms by (metis list.set_map subseq_distinct_conv subseq_map)
    moreover have "inj_on fst (set c \<union> set c')"
      using assms that(1,2) subseq_subset by (metis distinct_map inj_on_subset le_sup_iff)
    ultimately show ?thesis by (simp add: inj_on_map_eq_map)
  qed
  then have "inj_on (\<lambda>c. set (map fst c)) (set (all_combos lo hi items))"
    by (auto simp: inj_on_def set_all_combos)
  then show ?thesis
    using distinct_all_combos [of items] assms
    by (auto simp: satisfying_def distinct_map comp_def intro: inj_on_subset)
qed

text \<open>
  The contract holds for both searches with the constants of \<open>engine/attribute.py\<close> and
  \<open>engine/reconcile.py\<close>; for the amount-indexed one only on candidates in ascending order of identity.
\<close>

definition engine_bounded_search :: "(string \<times> int) list \<Rightarrow> int \<Rightarrow> subset_error + bounded_subset_result" where
  "engine_bounded_search items target = find_bounded_subsets items target 0 1 5 16 100000 2 False"

definition engine_legacy_search :: "(string \<times> int) list \<Rightarrow> int \<Rightarrow> subset_error + bounded_subset_result" where
  "engine_legacy_search items target = find_legacy_subsets items target 2"

definition bounded_pool :: "(string \<times> int) list \<Rightarrow> bool" where
  "bounded_pool items \<longleftrightarrow> items_ok items \<and> length items \<le> 16"

definition ascending_pool :: "(string \<times> int) list \<Rightarrow> bool" where
  "ascending_pool items \<longleftrightarrow> items_ok items \<and> sorted_wrt (<) (map fst items)"

lemma find_bounded_result:
  assumes "items_ok items" and "0 < target" and "0 \<le> tol" and "0 \<le> lo" and "lo \<le> hi" and "0 < maxc" and "0 < maxr"
    and "int (length items) \<le> maxi" and "0 < maxi"
  shows "\<exists>r. find_bounded_subsets items target tol lo hi maxi maxc maxr False = Inr r \<and>
     (r = subset_result [] True \<and> maxc < int (length (all_combos (nat lo) (nat hi) items)) \<or>
      r = subset_result (take (nat maxr) (satisfying target tol (nat lo) (nat hi) items)) False)"
  using assms bounded_loop_cases [of "[]" "nat maxr" target tol maxc 0 "all_combos (nat lo) (nat hi) items"]
  by (auto simp: find_bounded_subsets_def search_order_def items_ok_def satisfying_def not_le)

lemma choose_mono: "n \<le> m \<Longrightarrow> n choose k \<le> m choose k"
proof (induction m)
  case (Suc m)
  show ?case
  proof (cases "n \<le> m")
    case True
    with Suc have "n choose k \<le> m choose k" by simp
    also have "\<dots> \<le> Suc m choose k" by (cases k) auto
    finally show ?thesis .
  next
    case False
    with Suc have "n = Suc m" by simp
    then show ?thesis by simp
  qed
qed simp

lemma all_combos_16: "length items \<le> 16 \<Longrightarrow> length (all_combos 1 5 items) \<le> 6884"
proof -
  assume "length items \<le> 16"
  then have "length items choose k \<le> 16 choose k" for k by (rule choose_mono)
  note le = this [of 1] this [of 2] this [of 3] this [of 4] this [of 5]
  have vals: "(16 :: nat) choose 1 = 16" "(16 :: nat) choose 2 = 120" "(16 :: nat) choose 3 = 560"
    "(16 :: nat) choose 4 = 1820" "(16 :: nat) choose 5 = 4368"
    by (simp_all add: binomial_fact' fact_numeral)
  have "[1..<Suc 5] = [1, 2, 3, 4, 5 :: nat]" by (simp add: upt_rec)
  then show ?thesis
    using le unfolding vals all_combos_def by (simp add: length_combos)
qed

lemma engine_bounded_result:
  assumes "bounded_pool items" and "0 < target"
  shows "engine_bounded_search items target = Inr (subset_result (take 2 (satisfying target 0 1 5 items)) False)"
  using find_bounded_result [of items target 0 1 5 100000 2 16] all_combos_16 [of items] assms
  by (auto simp: bounded_pool_def engine_bounded_search_def)


lemma engine_bounded_InrD:
  "bounded_pool items \<Longrightarrow> engine_bounded_search items target = Inr r \<Longrightarrow>
     0 < target \<and> r = subset_result (take 2 (satisfying target 0 1 5 items)) False"
proof (cases "0 < target")
  case False
  assume "engine_bounded_search items target = Inr r"
  with False show ?thesis by (simp add: engine_bounded_search_def find_bounded_subsets_def)
qed (simp add: engine_bounded_result)

lemma find_bounded_closed:
  assumes "find_bounded_subsets items target tol lo hi maxi maxc maxr srt = Inr r" and "bs_exhausted r"
  shows "bs_subsets r = []"
proof -
  have "bs_exhausted (bounded_loop t tl mc mr e m cs) \<Longrightarrow> bs_subsets (bounded_loop t tl mc mr e m cs) = []"
    for t tl mc mr e m cs
    by (induction cs arbitrary: e m) (auto split: if_splits)
  with assms show ?thesis by (auto simp: find_bounded_subsets_def Let_def split: if_splits)
qed

lemma take_less_length: "length (take n xs) < n \<Longrightarrow> take n xs = xs"
  by (simp add: min_def split: if_splits)

interpretation bounded: subset_search engine_bounded_search bounded_pool 1 5
proof unfold_locales
  fix items target r s
  assume pool: "bounded_pool items"
  then have d: "distinct (map fst items)" by (simp add: bounded_pool_def items_ok_def)
  note sols = satisfying_solves [OF d, of target 0 1 5]
  show "0 < target \<Longrightarrow> \<exists>r. engine_bounded_search items target = Inr r"
    using pool by (simp add: engine_bounded_result)
  assume "engine_bounded_search items target = Inr r"
  with pool have r: "r = subset_result (take 2 (satisfying target 0 1 5 items)) False"
    using engine_bounded_InrD by blast
  show "distinct s \<and> solves target 0 1 5 items (set s)" if "s \<in> set (bs_subsets r)"
  proof -
    from that r have s: "s \<in> set (satisfying target 0 1 5 items)" by (auto dest: in_set_takeD)
    then obtain c where "subseq c items" "s = map fst c" by (auto simp: satisfying_def set_all_combos)
    with d have "distinct s" by (meson subseq_distinct subseq_map)
    with s sols show ?thesis by blast
  qed
  show "S \<in> set ` set (bs_subsets r)" if "length (bs_subsets r) < 2" "solves target 0 1 5 items S" for S
    using that sols take_less_length [of 2 "satisfying target 0 1 5 items"] r by auto
  show "distinct (map set (bs_subsets r))"
    using satisfying_set_distinct [OF d] r by (simp add: distinct_take flip: take_map)
qed (auto simp: engine_bounded_search_def intro: find_bounded_closed)

lemma legacy_facts:
  assumes "engine_legacy_search items target = Inr r"
  defines "cands \<equiv> legacy_pairs items target @ legacy_triples (value_to_ids items) target items"
  shows "0 < target" and "\<not> bs_exhausted r" and "set (bs_subsets r) \<subseteq> set cands"
    and "distinct (map set (bs_subsets r))"
    and "length (bs_subsets r) < 2 \<Longrightarrow> set ` set cands \<subseteq> set ` set (bs_subsets r)"
proof -
  from assms(1) have r: "0 < target" "r = subset_result (legacy_loop 2 [] [] cands) False"
    by (auto simp: engine_legacy_search_def find_legacy_subsets_def cands_def split: if_splits)
  note loop = legacy_loop_facts [of "[]" 2 "[]" cands, simplified]
  show "0 < target" and "\<not> bs_exhausted r" and "set (bs_subsets r) \<subseteq> set cands"
    and "distinct (map set (bs_subsets r))"
    and "length (bs_subsets r) < 2 \<Longrightarrow> set ` set cands \<subseteq> set ` set (bs_subsets r)"
    using r loop by simp_all
qed

lemma list_of_length2: "length l = 2 \<Longrightarrow> \<exists>i j. l = [i, j]"
  by (auto simp: numeral_2_eq_2 length_Suc_conv)

lemma list_of_length3: "length l = 3 \<Longrightarrow> \<exists>i j k. l = [i, j, k]"
  by (auto simp: numeral_3_eq_3 length_Suc_conv)

lemma solves_card2:
  assumes "items_ok items" and "i \<noteq> j"
  shows "solves target 0 2 3 items {i, j} \<longleftrightarrow>
    (\<exists>v w. (i, v) \<in> set items \<and> (j, w) \<in> set items \<and> v + w = target)"
proof -
  have m: "map_of items i = Some v \<longleftrightarrow> (i, v) \<in> set items" for i v
    using assms by (simp add: items_ok_def)
  show ?thesis using assms(2) by (auto simp: solves_def m [symmetric] simp flip: dom_map_of_conv_image_fst)
qed

lemma solves_card3:
  assumes "items_ok items" and "i \<noteq> j" "j \<noteq> k" "i \<noteq> k"
  shows "solves target 0 2 3 items {i, j, k} \<longleftrightarrow> (\<exists>u v w. (i, u) \<in> set items \<and> (j, v) \<in> set items \<and>
    (k, w) \<in> set items \<and> u + v + w = target)"
proof -
  have m: "map_of items i = Some v \<longleftrightarrow> (i, v) \<in> set items" for i v
    using assms by (simp add: items_ok_def)
  show ?thesis using assms(2-) by (auto simp: solves_def m [symmetric] simp flip: dom_map_of_conv_image_fst)
qed

lemma legacy_cands_complete:
  assumes ok: "items_ok items" and sol: "solves target 0 2 3 items S"
  shows "S \<in> set ` set (legacy_pairs items target @ legacy_triples (value_to_ids items) target items)"
proof -
  have fin: "finite S" and c: "card S = 2 \<or> card S = 3" using sol by (auto simp: solves_def intro: finite_subset)
  define l where "l = sorted_list_of_set S"
  have l: "sorted_wrt (<) l" "set l = S" "length l = card S" using fin by (auto simp: l_def strict_sorted_list_of_set)
  from c show ?thesis
  proof
    assume "card S = 2"
    with l(3) obtain i j where "l = [i, j]" using list_of_length2 [of l] by auto
    with l have ij: "S = {i, j}" "i < j" by auto
    then obtain v w where "(i, v) \<in> set items" "(j, w) \<in> set items" "v + w = target"
      using solves_card2 [OF ok, of i j target] sol by auto
    then have "[i, j] \<in> set (legacy_pairs items target)" 
      unfolding set_legacy_pairs using ij(2) by (intro bexI [of _ "(i, v)"] bexI [of _ "(j, w)"]) auto
    then show ?thesis using ij(1) by (intro image_eqI [of _ _ "[i, j]"]) auto
  next
    assume "card S = 3"
    with l(3) obtain i j k where "l = [i, j, k]" using list_of_length3 [of l] by auto
    with l have ijk: "S = {i, j, k}" "i < j" "j < k" "i < k" by auto
    then obtain u v w where m: "(i, u) \<in> set items" "(j, v) \<in> set items" "(k, w) \<in> set items" "u + v + w = target"
      using solves_card3 [OF ok, of i j k target] sol by auto
    have w: "0 < w" using ok m(3) by (auto simp: items_ok_def)
    have "(i, u) \<noteq> (j, v)" using ijk by auto
    then have "subseq [(i, u), (j, v)] items \<or> subseq [(j, v), (i, u)] items"
      using m(1,2) by (induction items) (auto simp: subseq_pair_Cons simp del: subseq_Cons2_iff)
    then have "[i, j, k] \<in> set (legacy_triples (value_to_ids items) target items) \<or>
        [j, i, k] \<in> set (legacy_triples (value_to_ids items) target items)"
    proof
      assume "subseq [(i, u), (j, v)] items"
      then have "[i, j, k] \<in> set (legacy_triples (value_to_ids items) target items)"
        unfolding set_legacy_triples using m w ijk
        by (intro exI [of _ "(i, u)"] exI [of _ "(j, v)"] conjI bexI [of _ "(k, w)"]) auto
      then show ?thesis ..
    next
      assume "subseq [(j, v), (i, u)] items"
      then have "[j, i, k] \<in> set (legacy_triples (value_to_ids items) target items)"
        unfolding set_legacy_triples using m w ijk
        by (intro exI [of _ "(j, v)"] exI [of _ "(i, u)"] conjI bexI [of _ "(k, w)"]) auto
      then show ?thesis ..
    qed
    then show ?thesis
    proof
      assume "[i, j, k] \<in> set (legacy_triples (value_to_ids items) target items)"
      then show ?thesis using ijk(1) by (intro image_eqI [of _ _ "[i, j, k]"]) auto
    next
      assume "[j, i, k] \<in> set (legacy_triples (value_to_ids items) target items)"
      then show ?thesis using ijk(1) by (intro image_eqI [of _ _ "[j, i, k]"]) auto
    qed
  qed
qed

lemma ascending_subseq: "sorted_wrt (<) (map fst items) \<Longrightarrow> subseq [y, z] items \<Longrightarrow> fst y < fst z"
  by (induction items) (auto simp: subseq_pair_Cons simp del: subseq_Cons2_iff)

interpretation legacy: subset_search engine_legacy_search ascending_pool 2 3
proof unfold_locales
  fix items target r s
  assume pool: "ascending_pool items"
  then have ok: "items_ok items" by (simp add: ascending_pool_def)
  show "0 < target \<Longrightarrow> \<exists>r. engine_legacy_search items target = Inr r"
    using ok by (force simp: engine_legacy_search_def find_legacy_subsets_def items_ok_def)
  assume "engine_legacy_search items target = Inr r"
  note facts = legacy_facts [OF this]
  show "distinct (map set (bs_subsets r))" by (rule facts(4))
  show "S \<in> set ` set (bs_subsets r)" if "length (bs_subsets r) < 2" "solves target 0 2 3 items S" for S
    using facts(5) [OF that(1)] legacy_cands_complete [OF ok that(2)] by blast
  show "distinct s \<and> solves target 0 2 3 items (set s)" if "s \<in> set (bs_subsets r)"
  proof -
    from that facts(3) consider "s \<in> set (legacy_pairs items target)"
      | "s \<in> set (legacy_triples (value_to_ids items) target items)" by auto
    then show ?thesis
    proof cases
      case 1
      then obtain y z where yz: "y \<in> set items" "z \<in> set items" "snd y + snd z = target" "fst y < fst z"
        "s = [fst y, fst z]" by (auto simp: set_legacy_pairs)
      then have "solves target 0 2 3 items {fst y, fst z}"
        by (subst solves_card2 [OF ok]) (auto intro: exI [of _ "snd y"] exI [of _ "snd z"])
      with yz show ?thesis by auto
    next
      case 2
      then obtain y z w where t: "subseq [y, z] items" "w \<in> set items" "snd y + snd z + snd w = target"
        "fst z < fst w" "s = [fst y, fst z, fst w]" by (auto simp: set_legacy_triples)
      then have lt: "fst y < fst z" using pool ascending_subseq [of items y z] by (simp add: ascending_pool_def)
      have "y \<in> set items" "z \<in> set items" using subseq_subset [OF t(1)] by auto
      then have "solves target 0 2 3 items {fst y, fst z, fst w}"
        using t lt unfolding solves_card3 [OF ok order.strict_implies_not_eq [OF lt]
          order.strict_implies_not_eq [OF t(4)] order.strict_implies_not_eq [OF less_trans [OF lt t(4)]]]
        by (intro exI [of _ "snd y"] exI [of _ "snd z"] exI [of _ "snd w"]) auto
      with t lt show ?thesis by auto
    qed
  qed
next
  fix items target r
  assume "engine_legacy_search items target = Inr r" and "bs_exhausted r"
  then show "bs_subsets r = []" using legacy_facts(2) by blast
qed

subsection \<open>Properties\<close>

lemma items_ok_sort [simp]: "items_ok (sort_key fst items) \<longleftrightarrow> items_ok items"
  by (auto simp: items_ok_def distinct_map)

lemma find_bounded_sort:
  "find_bounded_subsets items target tol lo hi maxi maxc maxr True =
   find_bounded_subsets (sort_key fst items) target tol lo hi maxi maxc maxr False"
  by (simp add: find_bounded_subsets_def search_order_def)

text \<open>
  C11. On a valid pool within \<open>max_items\<close> the budgeted enumeration returns a value, and that value is either
  the fail-closed one (no subsets, exhausted, and only when there are more combinations than
  \<open>max_combinations\<close>) or exactly the first \<open>max_results\<close> solutions of the reference definition.
\<close>

theorem find_bounded_subsets_refines:
  assumes "items_ok items" and "0 < target" and "0 \<le> tol" and "0 \<le> lo" and "lo \<le> hi" and "0 < maxc" and "0 < maxr"
    and "int (length items) \<le> maxi" and "0 < maxi"
  shows "\<exists>r. find_bounded_subsets items target tol lo hi maxi maxc maxr srt = Inr r \<and>
     (r = subset_result [] True \<and> maxc < int (length (all_combos (nat lo) (nat hi) (search_order srt items))) \<or>
      r = subset_result (take (nat maxr) (satisfying target tol (nat lo) (nat hi) (search_order srt items))) False)"
  using find_bounded_result [of "sort_key fst items" target tol lo hi maxc maxr maxi]
    find_bounded_result [of items target tol lo hi maxc maxr maxi] assms
  by (cases srt) (simp_all add: find_bounded_sort search_order_def)

theorem find_bounded_subsets_refines_witness:
  "\<exists>r. find_bounded_subsets [(''b'', 700), (''a'', 300), (''c'', 500)] 1000 0 1 3 16 100 2 True = Inr r \<and>
     (r = subset_result [] True \<and> 100 < int (length (all_combos 1 3 [(''a'', 300 :: int), (''b'', 700), (''c'', 500)])) \<or>
      r = subset_result [[''a'', ''b'']] False)"
proof -
  have ord: "sort_key fst [(''b'', 700 :: int), (''a'', 300), (''c'', 500)] = [(''a'', 300), (''b'', 700), (''c'', 500)]"
    by code_simp
  have sat: "take 2 (satisfying 1000 0 1 3 [(''a'', 300), (''b'', 700), (''c'', 500)]) = [[''a'', ''b'']]"
    by code_simp
  have ok: "items_ok [(''b'', 700), (''a'', 300), (''c'', 500)]" by (simp add: items_ok_def)
  show ?thesis
    using find_bounded_subsets_refines [OF ok, of 1000 0 1 3 100 2 16 True] by (simp add: search_order_def ord sat [simplified])
qed

text \<open>
  With the constants of the attribution and reconciliation passes (one to five of at most 16 settlements,
  a budget of 100000 combinations, two results) the budget is never reached: the search returns the first
  two solutions, in enumeration order, and is never exhausted.
\<close>

theorem engine_bounded_search_exact:
  assumes "items_ok items" and "length items \<le> 16" and "0 < target"
  shows "engine_bounded_search items target = Inr (subset_result (take 2 (satisfying target 0 1 5 items)) False)"
  using assms by (simp add: engine_bounded_result bounded_pool_def)

theorem engine_bounded_search_exact_witness:
  "engine_bounded_search [(''s3'', 500), (''s1'', 300), (''s2'', 700)] 1000 =
     Inr (subset_result [[''s1'', ''s2'']] False)"
proof -
  have sat: "take 2 (satisfying 1000 0 1 5 [(''s3'', 500), (''s1'', 300), (''s2'', 700)]) = [[''s1'', ''s2'']]"
    by code_simp
  have ok: "items_ok [(''s3'', 500), (''s1'', 300), (''s2'', 700)]" by (simp add: items_ok_def)
  show ?thesis using engine_bounded_search_exact [OF ok, of 1000] sat by simp
qed

text \<open>
  A single result of the small-pool search is the only explanation: a set of one to five settlements of
  the pool adds up to the credit exactly when it is the returned set.
\<close>

theorem bounded_single_is_unique:
  assumes "items_ok items" and "length items \<le> 16"
    and "engine_bounded_search items target = Inr r" and "bs_subsets r = [s]"
  shows "solves target 0 1 5 items S \<longleftrightarrow> S = set s"
  using assms by (intro bounded.single_unique) (simp_all add: bounded_pool_def)

theorem bounded_single_is_unique_witness:
  "solves 1000 0 1 5 [(''s3'', 500), (''s1'', 300), (''s2'', 700)] {''s1'', ''s2''} \<and>
   \<not> solves 1000 0 1 5 [(''s3'', 500), (''s1'', 300), (''s2'', 700)] {''s1'', ''s3''}"
proof -
  have run: "engine_bounded_search [(''s3'', 500), (''s1'', 300), (''s2'', 700)] 1000 =
      Inr (subset_result [[''s1'', ''s2'']] False)"
    by code_simp
  have ok: "items_ok [(''s3'', 500), (''s1'', 300), (''s2'', 700)]" by (simp add: items_ok_def)
  show ?thesis
    using bounded_single_is_unique [OF ok _ run, of "[''s1'', ''s2'']" "{''s1'', ''s2''}"]
      bounded_single_is_unique [OF ok _ run, of "[''s1'', ''s2'']" "{''s1'', ''s3''}"]
    by (simp add: doubleton_eq_iff)
qed

text \<open>
  On a pool in ascending order of identity the amount-indexed search is exact for two and three terms:
  a single result is the only set of two or three settlements with that sum, and no result means there is none.
\<close>

theorem legacy_search_exact:
  assumes "items_ok items" and "sorted_wrt (<) (map fst items)" and "engine_legacy_search items target = Inr r"
  shows "(bs_subsets r = [s] \<longrightarrow> (solves target 0 2 3 items S \<longleftrightarrow> S = set s)) \<and>
    (bs_subsets r = [] \<longrightarrow> \<not> solves target 0 2 3 items S)"
  using assms legacy.single_unique [of items target r s S] legacy.empty_none [of items target r S]
    legacy_facts(2) [OF assms(3)]
  by (simp add: ascending_pool_def)

theorem legacy_search_exact_witness:
  "solves 1500 0 2 3 [(''s1'', 300), (''s2'', 700), (''s3'', 500)] {''s1'', ''s2'', ''s3''}"
proof -
  have run: "engine_legacy_search [(''s1'', 300), (''s2'', 700), (''s3'', 500)] 1500 =
      Inr (subset_result [[''s1'', ''s2'', ''s3'']] False)"
    by code_simp
  have ok: "items_ok [(''s1'', 300), (''s2'', 700), (''s3'', 500)]" by (simp add: items_ok_def)
  have asc: "sorted_wrt (<) (map fst [(''s1'', 300 :: int), (''s2'', 700), (''s3'', 500)])" by code_simp
  show ?thesis
    using legacy_search_exact [OF ok asc run, of "[''s1'', ''s2'', ''s3'']" "{''s1'', ''s2'', ''s3''}"] by simp
qed

text \<open>
  Out of that order the amount-indexed search can use one settlement twice: the identity of the third term
  is only compared with the second, so when the first has the larger identity the lookup may return it again.
  Here 1300 is reported as \<open>z + a + z\<close>, although no set of settlements of the pool has that sum.
\<close>

theorem legacy_search_counts_twice:
  "engine_legacy_search [(''z'', 500), (''a'', 300)] 1300 = Inr (subset_result [[''z'', ''a'', ''z'']] False) \<and>
   \<not> (\<exists>S. solves 1300 0 0 5 [(''z'', 500), (''a'', 300)] S)"
proof
  show "engine_legacy_search [(''z'', 500), (''a'', 300)] 1300 = Inr (subset_result [[''z'', ''a'', ''z'']] False)"
    by code_simp
  have "set (satisfying 1300 0 0 5 [(''z'', 500), (''a'', 300)]) = {}" by code_simp
  then show "\<not> (\<exists>S. solves 1300 0 0 5 [(''z'', 500), (''a'', 300)] S)"
    using satisfying_solves [of "[(''z'', 500), (''a'', 300)]" 1300 0 0 5] by auto
qed

end
