(* ===== verification/Packs.thy ===== *)
theory Packs
  imports Models
begin

section \<open>Narration evidence packs (\<open>engine/packs.py\<close>)\<close>

text \<open>
  The normaliser of bank narrations and the immutable rule pack that turns a narration into evidence.
  \<open>unicodedata.normalize("NFKC", _)\<close> is data of the Unicode standard that the program only calls: it is the
  parameter \<open>nf\<close> of everything that normalises. The registry has one pack, the built-in one; its selection
  (\<open>get_pack\<close>) and its persisted identity (\<open>resolve_pack_provenance\<close>) fail with a \<open>pack_error\<close>.
\<close>

definition invisible_chars :: "string list" where
  "invisible_chars = [[CHR 0xE2, CHR 0x80, CHR 0x8B], [CHR 0xE2, CHR 0x80, CHR 0x8C],
     [CHR 0xE2, CHR 0x80, CHR 0x8D], [CHR 0xE2, CHR 0x80, CHR 0x8E], [CHR 0xE2, CHR 0x80, CHR 0x8F],
     [CHR 0xEF, CHR 0xBB, CHR 0xBF], [CHR 0xE2, CHR 0x81, CHR 0xA0], [CHR 0xC2, CHR 0xAD],
     [CHR 0xE2, CHR 0x80, CHR 0xAA], [CHR 0xE2, CHR 0x80, CHR 0xAB], [CHR 0xE2, CHR 0x80, CHR 0xAC],
     [CHR 0xE2, CHR 0x80, CHR 0xAD], [CHR 0xE2, CHR 0x80, CHR 0xAE]]"

definition normalize_narration :: "(string \<Rightarrow> string) \<Rightarrow> string \<Rightarrow> string" where
  "normalize_narration nf text = (if text = [] then []
     else py_strip (sub_runs ws_chars (sub_class invisible_chars (nf text))))"

subsection \<open>The pack\<close>

record pack =
  p_pack_id :: string
  p_version :: string
  p_schema_version :: string
  p_description :: string
  p_rail_keywords :: "(rail, string list) dict"
  p_decoy_markers :: "string list"
  p_rzp_brand :: "string list"
  p_rzp_context :: "string list"
  p_rzp_ifsc :: string
  p_non_rzp_pattern_weight :: rat
  p_rzp_brand_context_weight :: rat
  p_rzp_brand_weak_weight :: rat
  p_rzp_ifsc_weight :: rat
  p_settlement_ref_weight :: rat

definition narration_low :: "(string \<Rightarrow> string) \<Rightarrow> bank_line \<Rightarrow> string" where
  "narration_low nf line = py_lower (normalize_narration nf (raw_text line))"

definition evaluate_non_rzp_signals ::
  "(string \<Rightarrow> string) \<Rightarrow> pack \<Rightarrow> bank_line \<Rightarrow> (rail, evidence_item list) dict" where
  "evaluate_non_rzp_signals nf p line = (let text = narration_low nf line in
     foldl (\<lambda>out (rail, kws). let hit = find (\<lambda>kw. contains kw text) kws in
       if truthy hit then dappend out rail (EvidenceItem (''narration_pattern:'' @ rail_value rail)
         (''narration contains '' @ py_repr (the hit)) (p_non_rzp_pattern_weight p))
       else out) [] (p_rail_keywords p))"

definition pack_decoy_marker :: "(string \<Rightarrow> string) \<Rightarrow> pack \<Rightarrow> bank_line \<Rightarrow> string option" where
  "pack_decoy_marker nf p line = (let text = narration_low nf line in
     find (\<lambda>marker. contains marker text) (p_decoy_markers p))"

definition evaluate_rzp_narration_signals ::
  "(string \<Rightarrow> string) \<Rightarrow> pack \<Rightarrow> bank_line \<Rightarrow> bool \<Rightarrow> bool \<Rightarrow> evidence_item list" where
  "evaluate_rzp_narration_signals nf p line has_tokens matched_exact_utr = (
     let low = narration_low nf line; decoy = pack_decoy_marker nf p line in
     if truthy decoy then []
     else let has_brand = list_ex (\<lambda>b. contains b low) (p_rzp_brand p);
              has_ifsc = contains (p_rzp_ifsc p) low;
              rzp_identity = (has_brand \<or> has_ifsc);
              has_context = list_ex (\<lambda>c. contains c low) (p_rzp_context p)
       in (if has_brand \<and> has_context
             then [EvidenceItem ''narration_brand_rzp'' ''razorpay brand + settlement context''
                     (p_rzp_brand_context_weight p)]
           else if has_brand
             then [EvidenceItem ''narration_brand_rzp'' ''razorpay brand token (weak)''
                     (p_rzp_brand_weak_weight p)]
           else [])
        @ (if has_ifsc then [EvidenceItem ''ifsc_ratn'' ''RATN0000088 (Razorpay RBL settlement IFSC)''
                               (p_rzp_ifsc_weight p)] else [])
        @ (if rzp_identity \<and> has_tokens \<and> \<not> matched_exact_utr
           then [EvidenceItem ''settlement_ref''
                   ''UTR-shaped transfer reference with a Razorpay identity token''
                   (p_settlement_ref_weight p)] else []))"

definition pack_to_dict :: "pack \<Rightarrow> json" where
  "pack_to_dict p = JObj [(''pack_id'', JStr (p_pack_id p)), (''version'', JStr (p_version p)),
     (''schema_version'', JStr (p_schema_version p)), (''description'', JStr (p_description p))]"

definition DEFAULT_PACK_ID :: string where
  "DEFAULT_PACK_ID = ''in.untangle.narration.default''"

definition DEFAULT_PACK_VERSION :: string where
  "DEFAULT_PACK_VERSION = ''1.0.0''"

definition SUPPORTED_SCHEMA_VERSIONS :: "string list" where
  "SUPPORTED_SCHEMA_VERSIONS = [''1.0.0'']"

definition DEFAULT_NARRATION_PACK :: pack where
  "DEFAULT_NARRATION_PACK = \<lparr>
     p_pack_id = DEFAULT_PACK_ID, p_version = DEFAULT_PACK_VERSION, p_schema_version = ''1.0.0'',
     p_description = ''Built-in default multi-rail narration evidence rules from existing origin/main.'',
     p_rail_keywords = [
       (OTHER_GATEWAY, [''payu'', ''cashfree'', ''ccavenue'', ''cc avenue'', ''easebuzz'',
          ''billdesk'', ''instamojo'', ''infibeam'', ''phonepe payment'']),
       (COD_REMITTANCE, [''cod'', ''shiprocket'', ''delhivery'', ''xpressbees'', ''ecom express'',
          ''shopify commerce'', ''cash on delivery'']),
       (DIRECT_UPI, [''upi settlement'', ''upi merchant'', ''upi/cr'', ''bulk upi cr'',
          ''npci'', ''upi/'', ''@ybl'', ''@okaxis'', ''@paytm'', ''@okhdfcbank'']),
       (UNRELATED, [''personal'', ''gst refund'', ''savings interest'', ''interest credit'',
          ''int.pd'', ''charges'', '' chg'', ''outward chg'', ''vendor refund'',
          ''payouts'', ''amazon seller'', ''salary'', ''loan disbursal'', ''cbic''])],
     p_decoy_markers = [''payouts'', ''vendor refund'', ''@ybl'', ''collect'', ''payout''],
     p_rzp_brand = [''razorpay'', ''rzp''],
     p_rzp_context = [''settlement'', ''settle'', ''razorpay software'', ''razorpayx settlement''],
     p_rzp_ifsc = ''ratn0000088'',
     p_non_rzp_pattern_weight = fl (95 / 100), p_rzp_brand_context_weight = fl (30 / 100),
     p_rzp_brand_weak_weight = fl (15 / 100), p_rzp_ifsc_weight = fl (25 / 100),
     p_settlement_ref_weight = fl (50 / 100)\<rparr>"

definition PACK_REGISTRY :: "(string \<times> string, pack) dict" where
  "PACK_REGISTRY = [((DEFAULT_PACK_ID, DEFAULT_PACK_VERSION), DEFAULT_NARRATION_PACK)]"

subsection \<open>Selection and provenance\<close>

datatype pack_error = Invalid_Provenance_Shape | Provenance_Not_Strings | Unknown_Identity
  | Schema_Mismatch | Description_Mismatch | Malformed_Selector string | Unknown_Pack string string
  | Unsupported_Schema string

definition provenance_keys :: "string list" where
  "provenance_keys = [''pack_id'', ''version'', ''schema_version'', ''description'']"

fun j_str :: "json \<Rightarrow> string option" where
  "j_str (JStr s) = Some s"
| "j_str _ = None"

definition str_field :: "(string \<times> json) list \<Rightarrow> string \<Rightarrow> string option" where
  "str_field kvs k = Option.bind (map_of kvs k) j_str"

fun j_fields :: "json \<Rightarrow> (string \<times> json) list" where
  "j_fields (JObj kvs) = kvs"
| "j_fields _ = []"

text \<open>A JSON object read from disk has one binding per key: the fields are a dictionary.\<close>

definition resolve_pack_provenance :: "json \<Rightarrow> pack_error + pack" where
  "resolve_pack_provenance v = (case v of JObj kvs \<Rightarrow>
     if set (map fst kvs) \<noteq> set provenance_keys then Inl Invalid_Provenance_Shape
     else (case (str_field kvs ''pack_id'', str_field kvs ''version'', str_field kvs ''schema_version'',
                 str_field kvs ''description'') of
       (Some pid, Some ver, Some sv, Some descr) \<Rightarrow>
         (case map_of PACK_REGISTRY (pid, ver) of None \<Rightarrow> Inl Unknown_Identity
          | Some p \<Rightarrow> if sv \<noteq> p_schema_version p then Inl Schema_Mismatch
              else if descr \<noteq> p_description p then Inl Description_Mismatch else Inr p)
       | _ \<Rightarrow> Inl Provenance_Not_Strings)
   | _ \<Rightarrow> Inl Invalid_Provenance_Shape)"

definition parse_pack_selector :: "string option \<Rightarrow> pack_error + string \<times> string" where
  "parse_pack_selector selector = (case selector of None \<Rightarrow> Inr (DEFAULT_PACK_ID, DEFAULT_PACK_VERSION)
   | Some sel \<Rightarrow> if sel = ''default'' then Inr (DEFAULT_PACK_ID, DEFAULT_PACK_VERSION)
       else let s = py_strip sel in
         if s = [] then Inr (DEFAULT_PACK_ID, DEFAULT_PACK_VERSION)
         else if CHR ''@'' \<in> set s then
           (let pid = py_strip (fst (py_partition (CHR ''@'') s));
                ver = py_strip (snd (py_partition (CHR ''@'') s))
            in if pid = [] \<or> ver = [] then Inl (Malformed_Selector sel) else Inr (pid, ver))
         else Inr (s, DEFAULT_PACK_VERSION))"

definition get_pack :: "string option \<Rightarrow> pack_error + pack" where
  "get_pack selector = (case parse_pack_selector selector of Inl e \<Rightarrow> Inl e
   | Inr (pid, ver) \<Rightarrow> (case map_of PACK_REGISTRY (pid, ver) of None \<Rightarrow> Inl (Unknown_Pack pid ver)
       | Some p \<Rightarrow> if p_schema_version p \<notin> set SUPPORTED_SCHEMA_VERSIONS
           then Inl (Unsupported_Schema (p_schema_version p)) else Inr p))"

definition get_default_pack :: pack where
  "get_default_pack = DEFAULT_NARRATION_PACK"

definition pack_or_default :: "pack option \<Rightarrow> pack" where
  "pack_or_default p = (case p of None \<Rightarrow> get_default_pack | Some q \<Rightarrow> q)"

lemma PACK_REGISTRY_iff: "map_of PACK_REGISTRY k = Some p \<longleftrightarrow>
    k = (DEFAULT_PACK_ID, DEFAULT_PACK_VERSION) \<and> p = DEFAULT_NARRATION_PACK"
  by (auto simp: PACK_REGISTRY_def)

lemma default_pack_fields [simp]:
  "p_pack_id DEFAULT_NARRATION_PACK = DEFAULT_PACK_ID" "p_version DEFAULT_NARRATION_PACK = DEFAULT_PACK_VERSION"
  "p_schema_version DEFAULT_NARRATION_PACK = ''1.0.0''"
  by (simp_all add: DEFAULT_NARRATION_PACK_def)

subsection \<open>Evidence of a pack\<close>

lemma non_rzp_multi_ok:
  "multi_ok (\<lambda>rail. rail \<in> fst ` set (p_rail_keywords p))
     (\<lambda>rail e. ev_signal e = ''narration_pattern:'' @ rail_value rail \<and> ev_weight e = p_non_rzp_pattern_weight p)
     (evaluate_non_rzp_signals nf p line)"
  unfolding evaluate_non_rzp_signals_def Let_def
  by (rule foldl_invariant) (auto intro!: multi_ok_dappend, metis fst_conv image_eqI)

lemma dict_ok_non_rzp [simp]: "dict_ok (evaluate_non_rzp_signals nf p line)"
  using non_rzp_multi_ok by (simp add: multi_ok_def)

lemmas non_rzp_signals_shape = multi_okD [OF non_rzp_multi_ok]

lemma rzp_narration_signals_in:
  "e \<in> set (evaluate_rzp_narration_signals nf p line ht mx) \<Longrightarrow>
     ev_signal e \<in> {''narration_brand_rzp'', ''ifsc_ratn'', ''settlement_ref''}"
  by (auto simp: evaluate_rzp_narration_signals_def Let_def split: if_splits)

subsection \<open>Properties\<close>

lemma str_field_Some: "str_field kvs k = Some s \<longleftrightarrow> map_of kvs k = Some (JStr s)"
  by (cases "map_of kvs k"; cases "the (map_of kvs k)") (auto simp: str_field_def)

lemma resolve_pack_provenance_InrD:
  "resolve_pack_provenance (JObj kvs) = Inr p \<longleftrightarrow> set (map fst kvs) = set provenance_keys \<and>
     str_field kvs ''pack_id'' = Some (p_pack_id p) \<and> str_field kvs ''version'' = Some (p_version p) \<and>
     str_field kvs ''schema_version'' = Some (p_schema_version p) \<and>
     str_field kvs ''description'' = Some (p_description p) \<and> p = DEFAULT_NARRATION_PACK"
proof -
  have gen: "(case (a, b, c, d) of (Some pid, Some ver, Some sv, Some descr) \<Rightarrow>
         (case map_of PACK_REGISTRY (pid, ver) of None \<Rightarrow> Inl Unknown_Identity
          | Some p \<Rightarrow> if sv \<noteq> p_schema_version p then Inl Schema_Mismatch
              else if descr \<noteq> p_description p then Inl Description_Mismatch else Inr p)
       | _ \<Rightarrow> Inl Provenance_Not_Strings) = Inr p \<longleftrightarrow>
     a = Some (p_pack_id p) \<and> b = Some (p_version p) \<and> c = Some (p_schema_version p) \<and>
     d = Some (p_description p) \<and> p = DEFAULT_NARRATION_PACK" for a b c d
    by (auto simp: PACK_REGISTRY_iff simp del: default_pack_fields(3) split: option.splits)
      (simp_all add: PACK_REGISTRY_def)
  show ?thesis
  proof (cases "set (map fst kvs) = set provenance_keys")
    case True
    then show ?thesis
      by (simp only: resolve_pack_provenance_def json.case gen not_True_eq_False if_False simp_thms)
  next
    case False
    then show ?thesis by (simp only: resolve_pack_provenance_def json.case if_True simp_thms) simp
  qed
qed

text \<open>
  Persisted pack provenance is canonical: a JSON value resolves to a pack exactly when it is an object
  with the four provenance keys, bound to the very strings that \<open>to_dict\<close> writes for a registered pack. Any
  other shape, type or value is an error, and what \<open>to_dict\<close> wrote resolves to the same pack.
\<close>

theorem resolve_pack_provenance_iff:
  "resolve_pack_provenance (JObj kvs) = Inr p \<longleftrightarrow> set (map fst kvs) = set provenance_keys \<and>
     p = DEFAULT_NARRATION_PACK \<and> (\<forall>k \<in> set provenance_keys. map_of kvs k = map_of (j_fields (pack_to_dict p)) k)"
proof -
  have "(\<forall>k \<in> set provenance_keys. map_of kvs k = map_of (j_fields (pack_to_dict p)) k) \<longleftrightarrow>
     str_field kvs ''pack_id'' = Some (p_pack_id p) \<and> str_field kvs ''version'' = Some (p_version p) \<and>
     str_field kvs ''schema_version'' = Some (p_schema_version p) \<and>
     str_field kvs ''description'' = Some (p_description p)"
    by (simp add: str_field_Some provenance_keys_def pack_to_dict_def)
  then show ?thesis unfolding resolve_pack_provenance_InrD by blast
qed

theorem resolve_pack_provenance_iff_witness:
  "resolve_pack_provenance (pack_to_dict DEFAULT_NARRATION_PACK) = Inr DEFAULT_NARRATION_PACK"
proof -
  have "set (map fst (j_fields (pack_to_dict DEFAULT_NARRATION_PACK))) = set provenance_keys"
    by (simp add: provenance_keys_def pack_to_dict_def)
  moreover have "pack_to_dict DEFAULT_NARRATION_PACK = JObj (j_fields (pack_to_dict DEFAULT_NARRATION_PACK))"
    by (simp add: pack_to_dict_def)
  ultimately show ?thesis
    using resolve_pack_provenance_iff [of "j_fields (pack_to_dict DEFAULT_NARRATION_PACK)"] by metis
qed

end
