(* ===== verification/Evidence.thy ===== *)
theory Evidence
  imports Packs
begin

section \<open>Evidence signals (\<open>engine/evidence.py\<close>)\<close>

text \<open>
  The lookups over the settlement report (\<open>recon_index\<close>), the two regular expressions as scanners, and the
  weighted evidence of a credit line. The scanner of \<open>_UTR\<close> walks the text the way \<open>finditer\<close> does, with the
  look-behind as a flag; it is proved to return exactly the maximal alphanumeric runs of 16 characters that
  start with ten digits.
\<close>

subsection \<open>Regular expressions\<close>

definition utr_match_at :: "string \<Rightarrow> bool" where
  "utr_match_at s \<longleftrightarrow> length s \<ge> 16 \<and> list_all is_digit (take 10 s) \<and>
     list_all is_alnum (take 6 (drop 10 s)) \<and> (case drop 16 s of [] \<Rightarrow> True | c # _ \<Rightarrow> \<not> is_alnum c)"

function utr_finditer :: "bool \<Rightarrow> string \<Rightarrow> string list" where
  "utr_finditer prev [] = []"
| "utr_finditer prev (c # cs) = (if \<not> prev \<and> utr_match_at (c # cs)
     then take 16 (c # cs) # utr_finditer True (drop 16 (c # cs))
     else utr_finditer (is_alnum c) cs)"
  by pat_completeness auto
termination by (relation "measure (\<lambda>(_, s). length s)") auto

function alnum_finditer :: "string \<Rightarrow> string list" where
  "alnum_finditer [] = []"
| "alnum_finditer (c # cs) = (let r = takeWhile is_alnum (c # cs) in
     if length r \<ge> 5 then r # alnum_finditer (drop (length r) (c # cs)) else alnum_finditer cs)"
  by pat_completeness auto
termination by (relation "measure length") auto

definition extract_utr_tokens :: "(string \<Rightarrow> string) \<Rightarrow> string \<Rightarrow> string list" where
  "extract_utr_tokens nf text = utr_finditer False (normalize_narration nf text)"

subsection \<open>\<open>ReconIndex\<close>\<close>

record recon_index =
  ix_settlement_utrs :: "string list"
  ix_utr_to_sid :: "(string, string) dict"
  ix_settlement_net :: "(string, int) dict"
  ix_settlement_date :: "(string, date) dict"
  ix_net_to_settlements :: "(int, string list) dict"
  ix_distinct_nets :: "int list"

definition set_add :: "'a \<Rightarrow> 'a list \<Rightarrow> 'a list" where
  "set_add x xs = (if x \<in> set xs then xs else xs @ [x])"

text \<open>The body of the constructor's loop, on the four collections it fills.\<close>

definition index_row ::
  "string list \<times> (string, string) dict \<times> (string, int) dict \<times> (string, date) dict \<Rightarrow> recon_row \<Rightarrow>
   string list \<times> (string, string) dict \<times> (string, int) dict \<times> (string, date) dict" where
  "index_row st r = (case st of (utrs, u2s, net, sdate) \<Rightarrow>
     let (utrs', u2s') = (if truthy (r_settlement_utr r)
           then let u = py_lower (str_of_opt (r_settlement_utr r)) in
             (set_add u utrs, if truthy (r_settlement_id r) then setdefault u2s u (str_of_opt (r_settlement_id r)) else u2s)
           else (utrs, u2s))
     in if truthy (r_settlement_id r)
        then let sid = str_of_opt (r_settlement_id r) in
          (utrs', u2s', dset net sid (dget net sid 0 + net_paise r),
           case r_settled_at r of None \<Rightarrow> sdate | Some t \<Rightarrow> dset sdate sid (dt_date t))
        else (utrs', u2s', net, sdate))"

definition recon_index_of :: "recon_row list \<Rightarrow> recon_index" where
  "recon_index_of rows = (case foldl index_row ([], [], [], []) rows of (utrs, u2s, net, sdate) \<Rightarrow>
     \<lparr>ix_settlement_utrs = utrs, ix_utr_to_sid = u2s, ix_settlement_net = net, ix_settlement_date = sdate,
      ix_net_to_settlements = foldl (\<lambda>d (sid, n). dappend d n sid) [] net,
      ix_distinct_nets = sort (remdups (filter (\<lambda>n. n > 0) (map snd net)))\<rparr>)"

definition utr_exact :: "recon_index \<Rightarrow> string \<Rightarrow> bool" where
  "utr_exact ix token \<longleftrightarrow> py_lower token \<in> set (ix_settlement_utrs ix)"

definition utr_suffix_match :: "recon_index \<Rightarrow> string \<Rightarrow> string option" where
  "utr_suffix_match ix token = (let t = py_lower token in
     if length t < 6 then None
     else case filter (\<lambda>u. suffix t u \<and> u \<noteq> t) (ix_settlement_utrs ix) of [u] \<Rightarrow> Some u | _ \<Rightarrow> None)"

subsection \<open>Signals\<close>

definition narration_rail_signals ::
  "(string \<Rightarrow> string) \<Rightarrow> pack option \<Rightarrow> bank_line \<Rightarrow> (rail, evidence_item list) dict" where
  "narration_rail_signals nf pack line = evaluate_non_rzp_signals nf (pack_or_default pack) line"

definition has_decoy_marker :: "(string \<Rightarrow> string) \<Rightarrow> pack option \<Rightarrow> bank_line \<Rightarrow> string option" where
  "has_decoy_marker nf pack line = pack_decoy_marker nf (pack_or_default pack) line"

definition DATE_WINDOW_DAYS :: int where
  "DATE_WINDOW_DAYS = 3"

definition date_near :: "date \<Rightarrow> date option list \<Rightarrow> bool" where
  "date_near vd candidates \<longleftrightarrow>
     list_ex (\<lambda>c. case c of None \<Rightarrow> False | Some d \<Rightarrow> days_apart vd d \<le> DATE_WINDOW_DAYS) candidates"

text \<open>
  The loop over the suffix tokens: a corroborated suffix ends it, the first uncorroborated one is kept. The
  result is the pair \<open>(strong, weak)\<close>.
\<close>

fun suffix_scan :: "recon_index \<Rightarrow> bank_line \<Rightarrow> (string \<times> string) option \<Rightarrow> string list \<Rightarrow>
    (string \<times> string \<times> string) option \<times> (string \<times> string) option" where
  "suffix_scan ix line weak [] = (None, weak)"
| "suffix_scan ix line weak (tok # toks) = (
     case utr_suffix_match ix tok of None \<Rightarrow> suffix_scan ix line weak toks
     | Some u \<Rightarrow> if u = [] then suffix_scan ix line weak toks
       else let sid = map_of (ix_utr_to_sid ix) u;
                sdate = (if truthy sid then map_of (ix_settlement_date ix) (the sid) else None);
                snet = (if truthy sid then map_of (ix_settlement_net ix) (the sid) else None);
                date_ok = (case sdate of None \<Rightarrow> False | Some d \<Rightarrow> days_apart (ln_value_date line) d \<le> DATE_WINDOW_DAYS);
                amt_ok = (ln_is_credit line \<and> snet = Some (ln_amount_paise line))
         in if date_ok \<or> amt_ok then (Some (tok, u, if date_ok then ''value-date'' else ''amount''), weak)
            else suffix_scan ix line (if weak = None then Some (tok, u) else weak) toks)"

definition suffix_evidence :: "recon_index \<Rightarrow> bank_line \<Rightarrow> string \<Rightarrow> evidence_item list" where
  "suffix_evidence ix line text = (
     case suffix_scan ix line None (sort (remdups (alnum_finditer text))) of
       (Some (tok, u, how), _) \<Rightarrow> [EvidenceItem ''utr_suffix'' (''token '' @ py_repr tok @
          '' is the unique suffix of settlement_utr '' @ u @ '', corroborated by '' @ how) (fl (5 / 10))]
     | (None, Some (tok, u)) \<Rightarrow> [EvidenceItem ''utr_suffix_weak'' (''token '' @ py_repr tok @
          '' tails settlement_utr '' @ u @ '' but is uncorroborated (date/amount)'') (fl (2 / 10))]
     | (None, None) \<Rightarrow> [])"

definition amount_evidence :: "recon_index \<Rightarrow> bank_line \<Rightarrow> evidence_item list" where
  "amount_evidence ix line = (
     if ln_is_credit line \<and> has_key (ix_net_to_settlements ix) (ln_amount_paise line)
     then let sids = dget (ix_net_to_settlements ix) (ln_amount_paise line) [];
              near = date_near (ln_value_date line) (map (map_of (ix_settlement_date ix)) sids)
       in [EvidenceItem (if length sids = 1 then ''amount_corr'' else ''amount_corr_multi'')
             (''credit equals settlement net for '' @ str_int (int (length sids)) @ '' settlement(s)'' @
              (if near then '' within value-date window'' else []))
             (if near then fl (5 / 10) else fl (3 / 10))]
          @ (if near then [EvidenceItem ''value_date_proximity''
               (''value_date within '' @ str_int DATE_WINDOW_DAYS @ ''d of settled_at'') (fl (2 / 10))] else [])
     else [])"

definition razorpay_signals ::
  "(string \<Rightarrow> string) \<Rightarrow> pack option \<Rightarrow> bank_line \<Rightarrow> recon_index \<Rightarrow> evidence_item list" where
  "razorpay_signals nf pack line ix = (
     let p = pack_or_default pack; text = normalize_narration nf (raw_text line);
         tokens = extract_utr_tokens nf text; matched_exact = find (utr_exact ix) tokens
     in (if truthy matched_exact
         then [EvidenceItem ''utr_exact'' (''UTR '' @ the matched_exact @ '' matches a settlement_utr'') (fl (95 / 100))]
         else suffix_evidence ix line text)
        @ amount_evidence ix line
        @ evaluate_rzp_narration_signals nf p line (tokens \<noteq> []) (truthy matched_exact))"

subsection \<open>The token scanner\<close>

definition utr_shape :: "string \<Rightarrow> bool" where
  "utr_shape r \<longleftrightarrow> length r = 16 \<and> list_all is_digit (take 10 r)"

lemma set_set_add: "set (set_add x s) = insert x (set s)"
  by (auto simp: set_add_def)

lemma digit_alnum: "is_digit c \<Longrightarrow> is_alnum c"
  by (simp add: is_alnum_def)

lemma utr_match_at_nonalnum: "\<not> is_alnum c \<Longrightarrow> \<not> utr_match_at (c # cs)"
  by (auto simp: utr_match_at_def digit_alnum)

lemma utr_finditer_prev: "utr_finditer True s = utr_finditer False (dropWhile is_alnum s)"
proof (induction s)
  case (Cons c cs)
  then show ?case by (cases "is_alnum c") (simp_all add: utr_match_at_nonalnum)
qed simp

lemma takeWhile_length_eq:
  "n \<le> length s \<Longrightarrow> list_all P (take n s) \<Longrightarrow> (case drop n s of [] \<Rightarrow> True | c # _ \<Rightarrow> \<not> P c) \<Longrightarrow>
     takeWhile P s = take n s \<and> dropWhile P s = drop n s"
proof (induction n arbitrary: s)
  case 0
  then show ?case by (cases s) auto
next
  case (Suc n)
  then show ?case by (cases s) auto
qed

lemma utr_match_at_run: "utr_match_at s \<longleftrightarrow> utr_shape (takeWhile is_alnum s)"
proof
  assume m: "utr_match_at s"
  have "list_all is_alnum (take 16 s)"
    using m take_add [of 10 6 s] by (auto simp: utr_match_at_def list_all_iff digit_alnum)
  with m have "takeWhile is_alnum s = take 16 s"
    using takeWhile_length_eq [of 16 s is_alnum] by (auto simp: utr_match_at_def)
  with m show "utr_shape (takeWhile is_alnum s)" by (simp add: utr_match_at_def utr_shape_def min_def)
next
  assume sh: "utr_shape (takeWhile is_alnum s)"
  define r where "r = takeWhile is_alnum s"
  have s: "s = r @ dropWhile is_alnum s" by (simp add: r_def)
  have r: "length r = 16" "list_all is_digit (take 10 r)" "list_all is_alnum r"
    using sh by (auto simp: utr_shape_def r_def list_all_iff dest: set_takeWhileD)
  have "list_all is_alnum (take 6 (drop 10 r))" using r(3) by (auto simp: list_all_iff dest: in_set_takeD in_set_dropD)
  moreover have "case dropWhile is_alnum s of [] \<Rightarrow> True | c # _ \<Rightarrow> \<not> is_alnum c"
    by (auto split: list.split simp: dropWhile_eq_Cons_conv)
  ultimately show "utr_match_at s" using r by (subst s) (simp add: utr_match_at_def)
qed

lemma utr_finditer_runs: "utr_finditer False s = filter utr_shape (alnum_runs s)"
proof (induction s rule: alnum_runs.induct)
  case (2 c cs)
  show ?case
  proof (cases "is_alnum c")
    case True
    note ih = "2.IH"(1) [OF True]
    show ?thesis
    proof (cases "utr_match_at (c # cs)")
      case m: True
      then have sh: "utr_shape (takeWhile is_alnum (c # cs))" by (simp add: utr_match_at_run)
      then have len: "length (takeWhile is_alnum (c # cs)) = 16" by (simp add: utr_shape_def)
      then have "take 16 (c # cs) = takeWhile is_alnum (c # cs)" "drop 16 (c # cs) = dropWhile is_alnum (c # cs)"
        by (metis takeWhile_dropWhile_id append_eq_conv_conj)+
      with m sh True ih show ?thesis
        by (simp add: utr_finditer_prev dropWhile_idem comp_def)
    next
      case m: False
      then have "\<not> utr_shape (c # takeWhile is_alnum cs)" using True utr_match_at_run [of "c # cs"] by simp
      with m True ih show ?thesis by (simp add: utr_finditer_prev)
    qed
  next
    case False
    with "2.IH"(2) show ?thesis by (simp add: utr_match_at_nonalnum)
  qed
qed simp

lemma settlement_index_dicts:
  "dict_ok (ix_settlement_net (recon_index_of rows))" "dict_ok (ix_settlement_date (recon_index_of rows))"
  "dict_ok (ix_utr_to_sid (recon_index_of rows))" "distinct (ix_settlement_utrs (recon_index_of rows))"
proof -
  let ?P = "\<lambda>(utrs, u2s, net, sdate). distinct utrs \<and> dict_ok u2s \<and> dict_ok net \<and> dict_ok sdate"
  have "?P (foldl index_row ([], [], [], []) rows)"
    by (rule foldl_invariant) (auto simp: index_row_def Let_def set_add_def split: option.split prod.split)
  then show "dict_ok (ix_settlement_net (recon_index_of rows))" "dict_ok (ix_settlement_date (recon_index_of rows))"
    "dict_ok (ix_utr_to_sid (recon_index_of rows))" "distinct (ix_settlement_utrs (recon_index_of rows))"
    by (auto simp: recon_index_of_def split: prod.splits)
qed

text \<open>The net of a settlement is the sum over its rows.\<close>

definition rows_of_sid :: "string \<Rightarrow> recon_row list \<Rightarrow> recon_row list" where
  "rows_of_sid sid rows = filter (\<lambda>r. r_settlement_id r = Some sid) rows"

lemma truthy_iff: "truthy x \<longleftrightarrow> (\<exists>y. x = Some y \<and> y \<noteq> [])"
  by (cases x) auto

lemma index_net_fold:
  "map_of (fst (snd (snd (foldl index_row st rows)))) sid =
    (if sid \<noteq> [] \<and> rows_of_sid sid rows \<noteq> []
     then Some (dget (fst (snd (snd st))) sid 0 + sum_list (map net_paise (rows_of_sid sid rows)))
     else map_of (fst (snd (snd st))) sid)"
proof (induction rows arbitrary: st)
  case Nil
  then show ?case by (simp add: rows_of_sid_def)
next
  case (Cons r rows)
  define net where "net = fst (snd (snd st))"
  have net': "fst (snd (snd (index_row st r))) =
      (if truthy (r_settlement_id r)
       then dset net (str_of_opt (r_settlement_id r)) (dget net (str_of_opt (r_settlement_id r)) 0 + net_paise r)
       else net)"
    by (cases st) (simp add: net_def index_row_def Let_def split: prod.split)
  show ?case
    unfolding foldl_Cons Cons.IH net' net_def [symmetric]
    by (cases "r_settlement_id r"; cases "map_of net sid")
      (auto simp: rows_of_sid_def str_of_opt_def dget_def)
qed

lemma settlement_net_sum:
  "map_of (ix_settlement_net (recon_index_of rows)) sid =
    (if sid \<noteq> [] \<and> rows_of_sid sid rows \<noteq> [] then Some (sum_list (map net_paise (rows_of_sid sid rows))) else None)"
  using index_net_fold [of "([], [], [], [])" rows sid]
  by (auto simp: recon_index_of_def dget_def split: prod.splits)

lemma utrs_fold:
  "set (fst (foldl index_row st rows)) = set (fst st) \<union>
     {py_lower u | u r. r \<in> set rows \<and> r_settlement_utr r = Some u \<and> u \<noteq> []}"
proof (induction rows arbitrary: st)
  case (Cons r rows)
  have "set (fst (index_row st r)) = set (fst st) \<union> {py_lower u | u. r_settlement_utr r = Some u \<and> u \<noteq> []}"
    by (cases st; cases "r_settlement_utr r")
      (auto simp: index_row_def Let_def set_add_def str_of_opt_def split: prod.split)
  then show ?case by (auto simp: Cons.IH)
qed simp

lemma settlement_utrs_iff:
  "u \<in> set (ix_settlement_utrs (recon_index_of rows)) \<longleftrightarrow>
     (\<exists>r v. r \<in> set rows \<and> r_settlement_utr r = Some v \<and> v \<noteq> [] \<and> u = py_lower v)"
  using utrs_fold [of "([], [], [], [])" rows] by (auto simp: recon_index_of_def split: prod.splits) blast+

lemma dget_group:
  "dget (foldl (\<lambda>d (sid, n). dappend d n sid) d net) n [] = dget d n [] @ map fst (filter (\<lambda>x. snd x = n) net)"
  by (induction net arbitrary: d) (auto simp: dget_dappend)

lemma net_to_settlements:
  "dget (ix_net_to_settlements (recon_index_of rows)) n [] =
     map fst (filter (\<lambda>x. snd x = n) (ix_settlement_net (recon_index_of rows)))"
  by (auto simp: recon_index_of_def dget_group split: prod.splits) (simp add: dget_def)

definition settlement_net_of :: "recon_row list \<Rightarrow> string \<Rightarrow> int option" where
  "settlement_net_of rows sid = map_of (ix_settlement_net (recon_index_of rows)) sid"

lemma unique_net_iff:
  "length (dget (ix_net_to_settlements (recon_index_of rows)) n []) = 1 \<longleftrightarrow>
     (\<exists>!sid. settlement_net_of rows sid = Some n)"
proof -
  define net where "net = ix_settlement_net (recon_index_of rows)"
  have ok: "dict_ok net" by (simp add: net_def settlement_index_dicts)
  then have "distinct net" by (simp add: dict_ok_def distinct_map)
  then have "length (filter (\<lambda>x. snd x = n) net) = 1 \<longleftrightarrow> (\<exists>!x. x \<in> set net \<and> snd x = n)"
    by (rule length_filter_eq_1_iff_ex1)
  also have "\<dots> \<longleftrightarrow> (\<exists>!sid. (sid, n) \<in> set net)" by auto
  also have "\<dots> \<longleftrightarrow> (\<exists>!sid. settlement_net_of rows sid = Some n)"
    using ok by (simp add: dict_ok_map_of settlement_net_of_def net_def)
  finally show ?thesis by (simp add: net_to_settlements net_def)
qed

subsection \<open>What the signals mean\<close>

lemma suffix_scan_strong:
  "suffix_scan ix line weak toks = (Some (tok, u, how), w) \<Longrightarrow> tok \<in> set toks \<and> utr_suffix_match ix tok = Some u \<and>
     (\<exists>sid. map_of (ix_utr_to_sid ix) u = Some sid \<and>
        ((\<exists>d. map_of (ix_settlement_date ix) sid = Some d \<and> days_apart (ln_value_date line) d \<le> DATE_WINDOW_DAYS) \<or>
         ln_is_credit line \<and> map_of (ix_settlement_net ix) sid = Some (ln_amount_paise line)))"
proof (induction toks arbitrary: weak)
  case (Cons t toks)
  show ?case
  proof (cases "utr_suffix_match ix t")
    case None
    with Cons show ?thesis by auto
  next
    case (Some v)
    show ?thesis
      using Cons Some
      by (cases "map_of (ix_utr_to_sid ix) v")
        (auto simp: Let_def simp del: days_apart_le split: if_splits option.splits)
  qed
qed simp

lemma utr_suffix_match_Some:
  "utr_suffix_match ix tok = Some u \<Longrightarrow> 6 \<le> length tok \<and>
     {v \<in> set (ix_settlement_utrs ix). suffix (py_lower tok) v \<and> v \<noteq> py_lower tok} = {u}"
proof -
  assume "utr_suffix_match ix tok = Some u"
  then have "6 \<le> length tok"
    and "filter (\<lambda>v. suffix (py_lower tok) v \<and> v \<noteq> py_lower tok) (ix_settlement_utrs ix) = [u]"
    by (auto simp: utr_suffix_match_def Let_def split: if_splits list.splits)
  then show ?thesis by (metis list.simps(15) list.set(1) set_filter)
qed

definition tie_genuine :: "(string \<Rightarrow> string) \<Rightarrow> bank_line \<Rightarrow> recon_row list \<Rightarrow> string \<Rightarrow> bool" where
  "tie_genuine nf line rows signal \<longleftrightarrow>
     (signal = ''utr_exact'' \<longrightarrow> (\<exists>tok r u. tok \<in> set (extract_utr_tokens nf (normalize_narration nf (raw_text line))) \<and>
        r \<in> set rows \<and> r_settlement_utr r = Some u \<and> py_lower u = py_lower tok)) \<and>
     (signal = ''amount_corr'' \<longrightarrow> ln_is_credit line \<and>
        (\<exists>!sid. settlement_net_of rows sid = Some (ln_amount_paise line))) \<and>
     (signal = ''utr_suffix'' \<longrightarrow> (\<exists>tok u sid. 6 \<le> length tok \<and>
        {v \<in> set (ix_settlement_utrs (recon_index_of rows)). suffix (py_lower tok) v \<and> v \<noteq> py_lower tok} = {u} \<and>
        map_of (ix_utr_to_sid (recon_index_of rows)) u = Some sid \<and>
        ((\<exists>d. map_of (ix_settlement_date (recon_index_of rows)) sid = Some d \<and>
            days_apart (ln_value_date line) d \<le> DATE_WINDOW_DAYS) \<or>
         ln_is_credit line \<and> settlement_net_of rows sid = Some (ln_amount_paise line))))"

lemma amount_evidence_genuine:
  "e \<in> set (amount_evidence (recon_index_of rows) line) \<Longrightarrow> tie_genuine nf line rows (ev_signal e)"
  using unique_net_iff [of rows "ln_amount_paise line"]
  by (auto simp: amount_evidence_def tie_genuine_def Let_def split: if_splits)

lemma suffix_evidence_genuine:
  "e \<in> set (suffix_evidence (recon_index_of rows) line text) \<Longrightarrow> tie_genuine nf line rows (ev_signal e)"
proof -
  assume e: "e \<in> set (suffix_evidence (recon_index_of rows) line text)"
  obtain s w where sw: "suffix_scan (recon_index_of rows) line None (sort (remdups (alnum_finditer text))) = (s, w)"
    by (cases "suffix_scan (recon_index_of rows) line None (sort (remdups (alnum_finditer text)))")
  show ?thesis
  proof (cases s)
    case None
    with e sw have "ev_signal e = ''utr_suffix_weak''" by (cases w) (auto simp: suffix_evidence_def)
    then show ?thesis by (simp add: tie_genuine_def)
  next
    case (Some t)
    obtain tok u how where t: "t = (tok, u, how)" by (cases t)
    with Some e sw have sig: "ev_signal e = ''utr_suffix''" by (cases w) (auto simp: suffix_evidence_def)
    from sw Some t have "suffix_scan (recon_index_of rows) line None (sort (remdups (alnum_finditer text))) =
        (Some (tok, u, how), w)" by simp
    note strong = suffix_scan_strong [OF this]
    with utr_suffix_match_Some [of "recon_index_of rows" tok u] show ?thesis
      unfolding tie_genuine_def sig settlement_net_of_def by blast
  qed
qed

subsection \<open>Properties\<close>

text \<open>
  \<open>extract_utr_tokens\<close> returns exactly the maximal alphanumeric runs of the normalised text that have 16
  characters and start with ten digits, in order: no token is cut out of a longer run and none is missed.
\<close>

theorem extract_utr_tokens_runs:
  "extract_utr_tokens nf text = filter utr_shape (alnum_runs (normalize_narration nf text))"
  by (simp add: extract_utr_tokens_def utr_finditer_runs)

text \<open>
  Every deciding signal of \<open>razorpay_signals\<close> is a fact about the settlement report: \<open>utr_exact\<close> means a token
  of the narration is a row's \<open>settlement_utr\<close>; \<open>amount_corr\<close> means the line is a credit and exactly one
  settlement has that net; \<open>utr_suffix\<close> means a token of at least six characters is the tail of exactly one
  settlement UTR, whose settlement agrees in date (within three days) or in amount.
\<close>

theorem razorpay_ties_genuine:
  assumes "e \<in> set (razorpay_signals nf pack line (recon_index_of rows))"
  shows "tie_genuine nf line rows (ev_signal e)"
proof -
  define norm where "norm = normalize_narration nf (raw_text line)"
  define m where "m = find (utr_exact (recon_index_of rows)) (extract_utr_tokens nf norm)"
  from assms consider (exact) "truthy m" "ev_signal e = ''utr_exact''"
    | (suffix) "e \<in> set (suffix_evidence (recon_index_of rows) line norm)"
    | (amount) "e \<in> set (amount_evidence (recon_index_of rows) line)"
    | (narration) "ev_signal e \<in> {''narration_brand_rzp'', ''ifsc_ratn'', ''settlement_ref''}"
    by (auto simp: razorpay_signals_def Let_def simp flip: norm_def m_def
        split: if_splits dest: rzp_narration_signals_in)
  then show ?thesis
  proof cases
    case exact
    then obtain tok where "m = Some tok" by (cases m) auto
    then have tok: "tok \<in> set (extract_utr_tokens nf norm)" "utr_exact (recon_index_of rows) tok"
      by (auto simp: m_def find_Some_iff)
    then obtain r u where "r \<in> set rows" "r_settlement_utr r = Some u" "py_lower u = py_lower tok"
      by (auto simp: utr_exact_def settlement_utrs_iff)
    with tok(1) exact(2) show ?thesis unfolding tie_genuine_def norm_def by auto
  next
    case narration
    then show ?thesis by (auto simp: tie_genuine_def)
  qed (auto intro: amount_evidence_genuine suffix_evidence_genuine)
qed

theorem razorpay_ties_genuine_witness:
  "tie_genuine id sample_line [sample_row] ''utr_exact''"
proof -
  have "list_ex (\<lambda>e. ev_signal e = ''utr_exact'') (razorpay_signals id None sample_line (recon_index_of [sample_row]))"
    by code_simp
  then obtain e where "e \<in> set (razorpay_signals id None sample_line (recon_index_of [sample_row]))"
    and "ev_signal e = ''utr_exact''"
    by (auto simp: list_ex_iff)
  then show ?thesis using razorpay_ties_genuine [of e id None sample_line "[sample_row]"] by simp
qed

end
