(* ===== verification/Challenger.thy ===== *)
theory Challenger
  imports Models
begin

section \<open>The adversarial challenger (\<open>engine/challenger.py\<close>)\<close>

text \<open>
  Before a machine Razorpay verdict is accepted, a bounded set of counterfactual explanations is scored with
  the caller's scoring function, the argument \<open>combine\<close>, and the proof margin is the verdict's score less the best
  competing score. The challenger never reads the line or the index, so they are not arguments here.
\<close>

definition UTR_SIGNALS :: "string list" where
  "UTR_SIGNALS = [''utr_exact'', ''utr_suffix'', ''utr_suffix_weak'']"

definition AMOUNT_SIGNALS :: "string list" where
  "AMOUNT_SIGNALS = [''amount_corr'', ''amount_corr_multi'']"

definition ALL_TIE_SIGNALS :: "string list" where
  "ALL_TIE_SIGNALS = UTR_SIGNALS @ AMOUNT_SIGNALS @ [''setsum'', ''split_reconstruction'']"

definition MAX_CHALLENGES :: nat where
  "MAX_CHALLENGES = 16"

text \<open>A \<open>CompetingExplanation\<close> has the fields of its \<open>as_dict\<close>, which rounds the score to six digits.\<close>

record competing =
  ce_operator :: string
  ce_rail :: string
  ce_score :: rat
  ce_detail :: string
  ce_removed_signals :: "string list"

definition CompetingExplanation :: "string \<Rightarrow> string \<Rightarrow> rat \<Rightarrow> string \<Rightarrow> string list \<Rightarrow> competing" where
  "CompetingExplanation opr rail score detail removed = \<lparr>ce_operator = opr, ce_rail = rail, ce_score = score,
     ce_detail = detail, ce_removed_signals = removed\<rparr>"

definition as_dict :: "competing \<Rightarrow> json" where
  "as_dict c = JObj [(''operator'', JStr (ce_operator c)), (''rail'', JStr (ce_rail c)),
     (''score'', JFloat (py_round 6 (ce_score c))), (''detail'', JStr (ce_detail c)),
     (''removed_signals'', JList (map JStr (ce_removed_signals c)))]"

record challenger_result =
  ch_rzp_score :: rat
  ch_competing_score :: rat
  ch_proof_margin :: rat
  ch_strongest :: "competing option"
  ch_challenges_evaluated :: nat
  ch_truncated :: bool
  ch_challenges :: "competing list"

definition without :: "evidence_item list \<Rightarrow> string list \<Rightarrow> evidence_item list" where
  "without evidence dropped = filter (\<lambda>e. ev_signal e \<notin> set dropped) evidence"

definition ablation :: "evidence_item list \<Rightarrow> (evidence_item list \<Rightarrow> rat) \<Rightarrow> string \<Rightarrow> string list \<Rightarrow> string \<Rightarrow>
    competing option" where
  "ablation evidence combine opr dropped detail = (
     let present = filter (\<lambda>s. list_ex (\<lambda>e. ev_signal e = s) evidence) dropped in
     if present = [] then None
     else Some (CompetingExplanation opr (rail_value RAZORPAY_SETTLEMENT) (combine (without evidence dropped))
       detail present))"

definition observed_rails :: "(evidence_item list \<Rightarrow> rat) \<Rightarrow> (rail, evidence_item list) dict \<Rightarrow> competing list" where
  "observed_rails combine non_rzp = concat (map (\<lambda>(rail, items).
     if rail = RAZORPAY_SETTLEMENT \<or> items = [] then []
     else [CompetingExplanation ''observed_competing_rail'' (rail_value rail) (combine items)
             (''distinctive '' @ rail_value rail @ '' narration remains plausible'') []]) non_rzp)"

definition ablation_table :: "bool \<Rightarrow> (string \<times> string list \<times> string) list" where
  "ablation_table has_exact =
     [(''drop_exact_identifier'', UTR_SIGNALS, ''score without any UTR-identifier tie (leans on resemblance)'')]
     @ (if has_exact then [] else [(''drop_suffix'', [''utr_suffix'', ''utr_suffix_weak''],
          ''score without the corroborated UTR suffix'')])
     @ [(''drop_amount_tie'', AMOUNT_SIGNALS, ''score without the amount-to-settlement tie''),
        (''drop_setsum'', [''setsum'', ''split_reconstruction''], ''score without the reconstructed set-sum''),
        (''drop_time_proximity'', [''value_date_proximity''], ''score without settlement-date proximity''),
        (''unlinked_rzp'', ALL_TIE_SIGNALS, ''resemblance only '' @ em_dash @ '' every genuine tie removed'')]"

definition all_challenges :: "evidence_item list \<Rightarrow> (rail, evidence_item list) dict \<Rightarrow>
    (evidence_item list \<Rightarrow> rat) \<Rightarrow> competing list" where
  "all_challenges rzp_evidence non_rzp combine = sort_key (\<lambda>c. (ce_operator c, ce_rail c, ce_detail c))
     (observed_rails combine non_rzp @
      concat (map (\<lambda>(opr, dropped, detail). case ablation rzp_evidence combine opr dropped detail of
          None \<Rightarrow> [] | Some c \<Rightarrow> [c])
        (ablation_table (list_ex (\<lambda>e. ev_signal e = ''utr_exact'') rzp_evidence))))"

definition challenge_razorpay :: "evidence_item list \<Rightarrow> (rail, evidence_item list) dict \<Rightarrow> rat \<Rightarrow>
    (evidence_item list \<Rightarrow> rat) \<Rightarrow> nat \<Rightarrow> challenger_result" where
  "challenge_razorpay rzp_evidence non_rzp rzp_score combine max_challenges = (
     let sorted = all_challenges rzp_evidence non_rzp combine;
         truncated = length sorted > max_challenges;
         challenges = (if truncated then take max_challenges sorted else sorted);
         competing_score = (case map ce_score challenges of [] \<Rightarrow> 0 | s # ss \<Rightarrow> max_by (\<lambda>x. x) s ss);
         strongest = (case challenges of [] \<Rightarrow> None
           | c # cs \<Rightarrow> Some (max_by (\<lambda>c. (ce_score c, ce_operator c, ce_rail c, ce_detail c)) c cs))
     in \<lparr>ch_rzp_score = rzp_score, ch_competing_score = competing_score,
         ch_proof_margin = fl (rzp_score - competing_score), ch_strongest = strongest,
         ch_challenges_evaluated = length challenges, ch_truncated = truncated, ch_challenges = challenges\<rparr>)"

subsection \<open>The margin is the gap to the strongest challenge\<close>

lemma max_by_key_map: "key (max_by key x xs) = max_by (\<lambda>y. y) (key x) (map key xs)"
  by (induction xs arbitrary: x) (auto simp: max_by_def)

lemma lex_max_fst:
  fixes f :: "'a \<Rightarrow> 'b::linorder" and g :: "'a \<Rightarrow> 'c::linorder"
  shows "f (max_by (\<lambda>x. (f x, g x)) x xs) = max_by (\<lambda>y. y) (f x) (map f xs)"
proof -
  let ?m = "max_by (\<lambda>x. (f x, g x)) x xs"
  have in_m: "?m \<in> insert x (set xs)" by (rule max_by_in)
  have "f y \<le> f ?m" if "y \<in> insert x (set xs)" for y
    using max_by_ge [OF that, of "\<lambda>x. (f x, g x)"] by (auto simp: less_eq_prod_def)
  moreover have "max_by (\<lambda>y. y) (f x) (map f xs) \<in> insert (f x) (set (map f xs))" by (rule max_by_in)
  ultimately have "max_by (\<lambda>y. y) (f x) (map f xs) \<le> f ?m" by auto
  moreover have "f ?m \<le> max_by (\<lambda>y. y) (f x) (map f xs)"
    using in_m max_by_ge [of "f ?m" "f x" "map f xs" "\<lambda>y. y"] by auto
  ultimately show ?thesis by simp
qed

lemma challenge_margin:
  assumes r_def: "r = challenge_razorpay ev non_rzp score combine maxc"
  shows "ch_proof_margin r = fl (score - ch_competing_score r)"
    and "ch_competing_score r = (case ch_strongest r of None \<Rightarrow> 0 | Some c \<Rightarrow> ce_score c)"
    and "c \<in> set (ch_challenges r) \<Longrightarrow> ce_score c \<le> ch_competing_score r"
    and "ch_truncated r \<longleftrightarrow> length (all_challenges ev non_rzp combine) > maxc"
proof -
  show "ch_proof_margin r = fl (score - ch_competing_score r)"
    and "ch_truncated r \<longleftrightarrow> length (all_challenges ev non_rzp combine) > maxc"
    by (simp_all add: r_def challenge_razorpay_def Let_def)
  show "ch_competing_score r = (case ch_strongest r of None \<Rightarrow> 0 | Some c \<Rightarrow> ce_score c)"
    using lex_max_fst [of "ce_score :: competing \<Rightarrow> rat" "\<lambda>c. (ce_operator c, ce_rail c, ce_detail c)"]
    by (auto simp: r_def challenge_razorpay_def Let_def split: list.split)
  show "c \<in> set (ch_challenges r) \<Longrightarrow> ce_score c \<le> ch_competing_score r"
    using max_by_ge [of "ce_score c" _ _ "\<lambda>x. x"]
    by (auto simp: r_def challenge_razorpay_def Let_def split: list.split if_splits)
qed

end
