(* ===== verification/Attribute.thy ===== *)
theory Attribute
  imports Evidence Challenger Bounded_Subsets
begin

section \<open>Tiered attribution of one line (\<open>engine/attribute.py\<close>)\<close>

text \<open>
  The combination of evidence into a confidence, the set-sum search of Tier C, the challenger gate and the
  verdict on a single bank line, with every early return of the source. \<open>nf\<close> is the Unicode normalisation,
  \<open>pack\<close> the optional evidence pack, \<open>mt\<close> the margin threshold and \<open>audit\<close> the display-only challenger pass.
  The properties say when a Razorpay verdict can be given at all.
\<close>

definition HARD_RZP_SIGNALS :: "string list" where
  "HARD_RZP_SIGNALS = [''utr_exact'', ''utr_suffix'', ''setsum'']"

definition RZP_TIE_SIGNALS :: "string list" where
  "RZP_TIE_SIGNALS = [''utr_exact'', ''utr_suffix'', ''setsum'', ''amount_corr'']"

definition SETSUM_MAX_CANDIDATES :: nat where
  "SETSUM_MAX_CANDIDATES = 200"

definition SETSUM_EXPANSION_MAX_CANDIDATES :: nat where
  "SETSUM_EXPANSION_MAX_CANDIDATES = 16"

definition SIGNAL_CHANNELS :: "(string, string) dict" where
  "SIGNAL_CHANNELS = [(''utr_exact'', ''identifier''), (''utr_suffix'', ''identifier''),
     (''utr_suffix_weak'', ''identifier''), (''settlement_ref'', ''identifier''),
     (''narration_brand_rzp'', ''narration''), (''ifsc_ratn'', ''narration''),
     (''amount_corr'', ''amount_time''), (''amount_corr_multi'', ''amount_time''),
     (''value_date_proximity'', ''amount_time''), (''setsum'', ''amount_time'')]"

subsection \<open>\<open>_combine\<close>\<close>

definition channel_of :: "string \<Rightarrow> string" where
  "channel_of signal = (case map_of SIGNAL_CHANNELS signal of Some ch \<Rightarrow> ch
     | None \<Rightarrow> if prefix ''narration_pattern:'' signal then ''narration'' else signal)"

definition by_channel :: "evidence_item list \<Rightarrow> (string, rat list) dict" where
  "by_channel items = foldl (\<lambda>d it. dappend d (channel_of (ev_signal it)) (max 0 (min 1 (ev_weight it)))) [] items"

text \<open>The lists of \<open>by_channel\<close> are never empty, so the first equation is not used.\<close>

fun channel_weight :: "rat list \<Rightarrow> rat" where
  "channel_weight [] = 0"
| "channel_weight [w] = w"
| "channel_weight (w # ws) = (let m = max_by (\<lambda>x. x) w ws;
     boost = py_fsum (map (\<lambda>w. fl (w * fl (1 / 10))) (filter (\<lambda>w. w \<noteq> m) (w # ws)))
     in min (fl (98 / 100)) (fl (m + boost)))"

definition combine :: "evidence_item list \<Rightarrow> rat" where
  "combine items = (if items = [] then 0
     else min (fl (99 / 100)) (fl (1 - foldl (\<lambda>acc w. fl (acc * fl (1 - w))) 1
       (map (channel_weight \<circ> snd) (by_channel items)))))"

subsection \<open>\<open>_setsum_evidence\<close>\<close>

definition in_window5 :: "recon_index \<Rightarrow> bank_line \<Rightarrow> string \<Rightarrow> bool" where
  "in_window5 ix line sid \<longleftrightarrow> (case map_of (ix_settlement_date ix) sid of None \<Rightarrow> False
     | Some d \<Rightarrow> days_apart (ln_value_date line) d \<le> 5)"

definition setsum_cands :: "bank_line \<Rightarrow> recon_index \<Rightarrow> (string \<times> int) list" where
  "setsum_cands line ix = filter (\<lambda>(sid, n). \<not> (n \<le> 0 \<or> n \<ge> ln_amount_paise line) \<and> in_window5 ix line sid)
     (ix_settlement_net ix)"

definition setsum_search :: "(string \<times> int) list \<Rightarrow> int \<Rightarrow> subset_error + bounded_subset_result" where
  "setsum_search cands target = (if length cands \<le> SETSUM_EXPANSION_MAX_CANDIDATES
     then engine_bounded_search cands target else engine_legacy_search cands target)"

text \<open>
  The searches raise on malformed pools only; \<open>setsum_search_returns\<close> below shows that the pool built here is
  never malformed, so the \<open>Inl\<close> case is not reached.
\<close>

definition setsum_evidence :: "bank_line \<Rightarrow> recon_index \<Rightarrow> evidence_item list option" where
  "setsum_evidence line ix = (if \<not> ln_is_credit line then None
     else let target = ln_amount_paise line; cands = setsum_cands line ix in
     if cands = [] \<or> length cands > SETSUM_MAX_CANDIDATES then None
     else let singles = map (\<lambda>sid. [sid]) (filter (in_window5 ix line) (dget (ix_net_to_settlements ix) target [])) in
     case setsum_search cands target of Inl _ \<Rightarrow> None
     | Inr search \<Rightarrow> if bs_exhausted search
         then Some [EvidenceItem ''setsum_unenumerable''
           (''bounded set-sum combination budget exceeded while checking '' @ str_int (int (length cands)) @
            '' settlements'') 0]
         else (case singles @ map sort (bs_subsets search) of
            [] \<Rightarrow> None
          | [sub] \<Rightarrow> if length sub = 1 then None
              else Some [EvidenceItem ''setsum'' (''credit equals net sum of '' @ str_int (int (length sub)) @
                '' settlements ('' @ py_join '', '' sub @ '')'') (fl (55 / 100))]
          | several \<Rightarrow> Some [EvidenceItem ''multiple_satisfying_subsets''
              (''ambiguous set-sum: '' @ str_int (int (length several)) @ '' distinct subsets sum to '' @
               str_int target @ '' paise'') 0]))"

subsection \<open>\<open>_finalize_razorpay\<close>\<close>

definition finalize_razorpay ::
  "bank_line \<Rightarrow> evidence_item list \<Rightarrow> (rail, evidence_item list) dict \<Rightarrow> rat \<Rightarrow> tier \<Rightarrow> rat \<Rightarrow> bool \<Rightarrow> attribution" where
  "finalize_razorpay line rzp_ev non_rzp rzp_score tier mt audit = (
     let accept = RailAttribution (ln_key line) (rail_value RAZORPAY_SETTLEMENT) rzp_score (tier_value tier) rzp_ev;
         res = challenge_razorpay rzp_ev non_rzp rzp_score combine MAX_CHALLENGES;
         annotated = accept\<lparr>a_proof_margin := Some (ch_proof_margin res),
           a_competing := map_option as_dict (ch_strongest res)\<rparr>
     in if mt \<le> 0 then (if audit then annotated else accept)
        else if ch_truncated res \<or> ch_proof_margin res < mt
        then (Abstention (ln_key line) rzp_score (rzp_ev @ [EvidenceItem ''proof_margin_low''
               (''proof margin too low ('' @ fmt_f 3 (ch_proof_margin res) @ '' < '' @ fmt_f 3 mt @ '') '' @
                ''under challenger operator '' @
                (case ch_strongest res of None \<Rightarrow> ''none'' | Some c \<Rightarrow> ce_operator c)) 0]))
             \<lparr>a_proof_margin := Some (ch_proof_margin res), a_competing := map_option as_dict (ch_strongest res)\<rparr>
        else annotated)"

subsection \<open>\<open>attribute_line\<close>\<close>

text \<open>
  \<open>max(scores.items(), key=lambda kv: (kv[1][0], kv[0]))\<close>: the highest confidence, ties to the larger name.
\<close>

definition best_score :: "(string \<times> rat \<times> 'a) \<Rightarrow> (string \<times> rat \<times> 'a) list \<Rightarrow> string \<times> rat \<times> 'a" where
  "best_score kv kvs = max_by (\<lambda>kv. (fst (snd kv), fst kv)) kv kvs"

definition attribute_debit :: "bank_line \<Rightarrow> (rail, evidence_item list) dict \<Rightarrow> rat \<Rightarrow> attribution" where
  "attribute_debit line non_rzp threshold = (
     case map (\<lambda>(rail, items). (rail_value rail, combine items, items)) non_rzp of
       [] \<Rightarrow> Abstention (ln_key line) 0 []
     | kv # kvs \<Rightarrow> (case best_score kv kvs of (d_rail, d_conf, d_ev) \<Rightarrow>
         if d_conf < threshold then Abstention (ln_key line) d_conf d_ev
         else RailAttribution (ln_key line) d_rail d_conf (tier_value TIER_B) d_ev))"

text \<open>The scores of all rails and the decision, once the Razorpay evidence is complete.\<close>

definition attribute_scored :: "bank_line \<Rightarrow> (rail, evidence_item list) dict \<Rightarrow> evidence_item list \<Rightarrow> bool \<Rightarrow> tier \<Rightarrow>
    rat \<Rightarrow> rat \<Rightarrow> bool \<Rightarrow> attribution" where
  "attribute_scored line non_rzp rzp_ev rzp_hard tier_used threshold mt audit = (
     let scores = map (\<lambda>(rail, items). (rail_value rail, combine items, items, TIER_B)) non_rzp;
         rzp_score = (if rzp_ev = [] then 0 else combine rzp_ev);
         rzp_score = (if non_rzp \<noteq> [] \<and> \<not> rzp_hard then 0 else rzp_score);
         rzp_score = (if \<not> list_ex (\<lambda>e. ev_signal e \<in> set RZP_TIE_SIGNALS) rzp_ev then 0 else rzp_score);
         scores = (if rzp_score > 0
           then dset scores (rail_value RAZORPAY_SETTLEMENT) (rzp_score, rzp_ev, if rzp_hard then tier_used else TIER_B)
           else scores)
     in case scores of [] \<Rightarrow> Abstention (ln_key line) 0 rzp_ev
        | kv # kvs \<Rightarrow> (case best_score kv kvs of (best_rail, best_conf, best_ev, best_tier) \<Rightarrow>
            if best_conf < threshold then Abstention (ln_key line) best_conf best_ev
            else if best_rail = rail_value RAZORPAY_SETTLEMENT
              then finalize_razorpay line best_ev non_rzp best_conf best_tier mt audit
            else RailAttribution (ln_key line) best_rail best_conf (tier_value TIER_B) best_ev))"

definition has_signal :: "string \<Rightarrow> evidence_item list \<Rightarrow> bool" where
  "has_signal s ev \<longleftrightarrow> list_ex (\<lambda>e. ev_signal e = s) ev"

definition attribute_line :: "(string \<Rightarrow> string) \<Rightarrow> pack option \<Rightarrow> bank_line \<Rightarrow> recon_index \<Rightarrow> rat \<Rightarrow> rat \<Rightarrow> bool \<Rightarrow>
    attribution" where
  "attribute_line nf pack line ix threshold mt audit = (
     let non_rzp = narration_rail_signals nf pack line in
     if \<not> ln_is_credit line then attribute_debit line non_rzp threshold
     else let rzp_ev = razorpay_signals nf pack line ix;
              rzp_hard = list_ex (\<lambda>e. ev_signal e \<in> set HARD_RZP_SIGNALS) rzp_ev
     in if has_signal ''utr_exact'' rzp_ev
        then finalize_razorpay line rzp_ev non_rzp (combine rzp_ev) TIER_A mt audit
        else if rzp_hard then attribute_scored line non_rzp rzp_ev True TIER_B threshold mt audit
        else (case setsum_evidence line ix of
            None \<Rightarrow> attribute_scored line non_rzp rzp_ev False TIER_B threshold mt audit
          | Some setsum \<Rightarrow>
              if has_signal ''setsum_unenumerable'' setsum \<and> non_rzp = []
                then Abstention (ln_key line) 0 (rzp_ev @ setsum)
              else if has_signal ''multiple_satisfying_subsets'' setsum \<and> non_rzp = []
                then Abstention (ln_key line) 0 (rzp_ev @ setsum)
              else if setsum \<noteq> [] \<and> \<not> has_signal ''multiple_satisfying_subsets'' setsum \<and> rzp_ev \<noteq> [] \<and> non_rzp = []
                then attribute_scored line non_rzp (rzp_ev @ setsum) True TIER_C threshold mt audit
              else attribute_scored line non_rzp rzp_ev False TIER_B threshold mt audit))"

subsection \<open>Lemmas\<close>

lemma combine_le: "combine items \<le> fl (99 / 100)"
  by (simp add: combine_def)

lemma finalize_cases:
  assumes f: "f = finalize_razorpay line ev non_rzp score tier mt audit"
  shows "a_line_key f = ln_key line" and "a_confidence f = score"
    and "a_abstained f \<longrightarrow> a_rail f = rail_value UNKNOWN \<and> 0 < mt"
    and "\<not> a_abstained f \<longrightarrow> a_rail f = rail_value RAZORPAY_SETTLEMENT \<and> a_evidence f = ev \<and> a_tier f = tier_value tier"
    and "set ev \<subseteq> set (a_evidence f)"
  by (auto simp: f finalize_razorpay_def Let_def)

lemma finalize_accepts:
  assumes f: "f = finalize_razorpay line ev non_rzp score tier mt audit" and "0 < mt"
  shows "\<not> a_abstained f \<longleftrightarrow> \<not> ch_truncated (challenge_razorpay ev non_rzp score combine MAX_CHALLENGES) \<and>
     mt \<le> ch_proof_margin (challenge_razorpay ev non_rzp score combine MAX_CHALLENGES)"
  using assms(2) by (auto simp: f finalize_razorpay_def Let_def)

lemma best_score_in: "best_score kv kvs \<in> insert kv (set kvs)"
  unfolding best_score_def by (rule max_by_in)

lemma best_score_max: "y \<in> insert kv (set kvs) \<Longrightarrow> fst (snd y) \<le> fst (snd (best_score kv kvs))"
  using max_by_ge [of y kv kvs "\<lambda>kv. (fst (snd kv), fst kv)"]
  by (auto simp: best_score_def less_eq_prod_def)

lemma in_dset: "x \<in> set (dset d k v) \<Longrightarrow> x = (k, v) \<or> x \<in> set d"
  unfolding dset_def by (induction d) (auto split: if_splits)

lemma non_rzp_keys:
  "(rail, items) \<in> set (narration_rail_signals nf pack line) \<Longrightarrow>
     rail \<in> fst ` set (p_rail_keywords (pack_or_default pack)) \<and> items \<noteq> []"
  using non_rzp_signals_shape by (fastforce simp: narration_rail_signals_def)

text \<open>A pack that has no keywords for the Razorpay rail itself, as the built-in one.\<close>

definition no_rzp_keywords :: "pack option \<Rightarrow> bool" where
  "no_rzp_keywords pack \<longleftrightarrow> RAZORPAY_SETTLEMENT \<notin> fst ` set (p_rail_keywords (pack_or_default pack))"

lemma no_rzp_keywords_default: "no_rzp_keywords None"
  by (simp add: no_rzp_keywords_def pack_or_default_def get_default_pack_def DEFAULT_NARRATION_PACK_def)

definition has_tie :: "evidence_item list \<Rightarrow> bool" where
  "has_tie ev \<longleftrightarrow> list_ex (\<lambda>e. ev_signal e \<in> set RZP_TIE_SIGNALS) ev"

lemma has_tie_mono: "has_tie ev \<Longrightarrow> set ev \<subseteq> set ev' \<Longrightarrow> has_tie ev'"
  by (auto simp: has_tie_def list_ex_iff)

text \<open>The verdict of the scoring stage, once for all callers.\<close>

lemma attribute_scored_verdict:
  assumes non: "\<forall>(rail, items) \<in> set non_rzp. rail \<noteq> RAZORPAY_SETTLEMENT"
    and a: "a = attribute_scored line non_rzp ev hard t threshold mt audit" and na: "\<not> a_abstained a"
  shows "threshold \<le> a_confidence a" and "a_rail a = rail_value RAZORPAY_SETTLEMENT \<longrightarrow> has_tie ev \<and> a_evidence a = ev"
proof -
  define base where "base = map (\<lambda>(rail, items). (rail_value rail, combine items, items, TIER_B)) non_rzp"
  define sc where "sc = (if \<not> has_tie ev then 0 else if non_rzp \<noteq> [] \<and> \<not> hard then 0 else if ev = [] then 0 else combine ev)"
  define scores where "scores = (if sc > 0
     then dset base (rail_value RAZORPAY_SETTLEMENT) (sc, ev, if hard then t else TIER_B) else base)"
  have a': "a = (case scores of [] \<Rightarrow> Abstention (ln_key line) 0 ev
        | kv # kvs \<Rightarrow> (case best_score kv kvs of (best_rail, best_conf, best_ev, best_tier) \<Rightarrow>
            if best_conf < threshold then Abstention (ln_key line) best_conf best_ev
            else if best_rail = rail_value RAZORPAY_SETTLEMENT
              then finalize_razorpay line best_ev non_rzp best_conf best_tier mt audit
            else RailAttribution (ln_key line) best_rail best_conf (tier_value TIER_B) best_ev))"
    unfolding a attribute_scored_def Let_def scores_def sc_def base_def has_tie_def by (simp cong: if_cong)
  then obtain kv kvs where sc_eq: "scores = kv # kvs" using na by (cases scores) auto
  obtain r c e ti where b: "best_score kv kvs = (r, c, e, ti)" by (cases "best_score kv kvs")
  have mem: "(r, c, e, ti) \<in> set scores" using best_score_in [of kv kvs] b sc_eq by simp
  have thr: "threshold \<le> c" using a' na b sc_eq by (auto split: if_splits)
  have rz: "sc > 0 \<and> e = ev" if "r = rail_value RAZORPAY_SETTLEMENT"
  proof -
    have "(r, c, e, ti) \<notin> set base" using that non by (auto simp: base_def)
    with mem show ?thesis by (auto simp: scores_def dest: in_dset split: if_splits)
  qed
  have fin: "a = finalize_razorpay line e non_rzp c ti mt audit" if "r = rail_value RAZORPAY_SETTLEMENT"
    using a' b sc_eq thr that by (simp add: not_less)
  have oth: "a = RailAttribution (ln_key line) r c (tier_value TIER_B) e" if "r \<noteq> rail_value RAZORPAY_SETTLEMENT"
    using a' b sc_eq thr that by (simp add: not_less)
  show "threshold \<le> a_confidence a"
    using thr oth finalize_cases(2) [OF fin] by (cases "r = rail_value RAZORPAY_SETTLEMENT") simp_all
  show "a_rail a = rail_value RAZORPAY_SETTLEMENT \<longrightarrow> has_tie ev \<and> a_evidence a = ev"
  proof
    assume ar: "a_rail a = rail_value RAZORPAY_SETTLEMENT"
    with oth have r: "r = rail_value RAZORPAY_SETTLEMENT" by force
    then have "a_evidence a = e" using na finalize_cases(4) [OF fin] by simp
    moreover have "has_tie ev" using rz [OF r] by (auto simp: sc_def split: if_splits)
    ultimately show "has_tie ev \<and> a_evidence a = ev" using rz [OF r] by simp
  qed
qed

lemma setsum_search_returns:
  assumes "dict_ok (ix_settlement_net ix)" and "setsum_cands line ix \<noteq> []"
  shows "\<exists>r. setsum_search (setsum_cands line ix) (ln_amount_paise line) = Inr r"
proof -
  let ?c = "setsum_cands line ix"
  have d: "distinct (map fst ?c)" using assms(1)
    by (simp add: setsum_cands_def dict_ok_def distinct_map_filter)
  have pos: "0 < snd x \<and> snd x < ln_amount_paise line" if "x \<in> set ?c" for x
    using that by (auto simp: setsum_cands_def)
  have ok: "items_ok ?c" using d pos by (auto simp: items_ok_def)
  obtain x where "x \<in> set ?c" using assms(2) by (cases ?c) auto
  then have t: "0 < ln_amount_paise line" using pos [of x] by simp
  show ?thesis
    using bounded.returns [of ?c "ln_amount_paise line"] ok t d pos
    by (auto simp: setsum_search_def bounded_pool_def SETSUM_EXPANSION_MAX_CANDIDATES_def
        engine_legacy_search_def find_legacy_subsets_def) force
qed

text \<open>What each early return of \<open>attribute_line\<close> leaves for a verdict that was not abstained.\<close>

lemma attribute_line_credit:
  assumes credit: "ln_is_credit line" and a: "a = attribute_line nf pack line ix threshold mt audit"
  defines "non \<equiv> narration_rail_signals nf pack line" and "ev \<equiv> razorpay_signals nf pack line ix"
  shows "has_signal ''utr_exact'' ev \<and> a = finalize_razorpay line ev non (combine ev) TIER_A mt audit \<or>
     (\<exists>ev' hard t. a = attribute_scored line non ev' hard t threshold mt audit) \<or> a_abstained a"
proof (cases "setsum_evidence line ix")
  case None
  then show ?thesis
    using credit unfolding a attribute_line_def Let_def non_def [symmetric] ev_def [symmetric] by auto
next
  case (Some ss)
  then have "has_signal ''utr_exact'' ev \<and> a = finalize_razorpay line ev non (combine ev) TIER_A mt audit \<or>
      a = attribute_scored line non ev True TIER_B threshold mt audit \<or>
      a = attribute_scored line non (ev @ ss) True TIER_C threshold mt audit \<or>
      a = attribute_scored line non ev False TIER_B threshold mt audit \<or> a = Abstention (ln_key line) 0 (ev @ ss)"
    using credit unfolding a attribute_line_def Let_def non_def [symmetric] ev_def [symmetric]
    by (simp only: not_True_eq_False if_False option.case split: if_split) blast
  then show ?thesis by force
qed

lemma attribute_line_verdict:
  assumes kw: "no_rzp_keywords pack" and a: "a = attribute_line nf pack line ix threshold mt audit"
    and na: "\<not> a_abstained a"
  shows "a_tier a = tier_value TIER_A \<or> threshold \<le> a_confidence a"
    and "a_rail a = rail_value RAZORPAY_SETTLEMENT \<longrightarrow> ln_is_credit line \<and> has_tie (a_evidence a)"
proof -
  let ?non = "narration_rail_signals nf pack line"
  have non: "\<forall>(rail, items) \<in> set ?non. rail \<noteq> RAZORPAY_SETTLEMENT"
    using kw non_rzp_keys by (fastforce simp: no_rzp_keywords_def)
  let ?ev = "razorpay_signals nf pack line ix"
  have "(a_tier a = tier_value TIER_A \<or> threshold \<le> a_confidence a) \<and>
     (a_rail a = rail_value RAZORPAY_SETTLEMENT \<longrightarrow> ln_is_credit line \<and> has_tie (a_evidence a))"
  proof (cases "ln_is_credit line")
    case False
    then have ad: "a = attribute_debit line ?non threshold" by (simp add: a attribute_line_def)
    define sc where "sc = map (\<lambda>(rail, items). (rail_value rail, combine items, items)) ?non"
    from ad na obtain kv kvs where kv: "sc = kv # kvs" by (cases sc) (auto simp: attribute_debit_def sc_def)
    obtain r c e where b: "best_score kv kvs = (r, c, e)" by (cases "best_score kv kvs")
    with kv have "(r, c, e) \<in> set sc" using best_score_in [of kv kvs] by simp
    with non have "r \<noteq> rail_value RAZORPAY_SETTLEMENT" by (auto simp: sc_def)
    with ad na kv b show ?thesis by (auto simp: attribute_debit_def simp flip: sc_def split: if_splits)
  next
    case credit: True
    have tieA: "has_tie ?ev" if "has_signal ''utr_exact'' ?ev"
      using that by (auto simp: has_tie_def has_signal_def list_ex_iff RZP_TIE_SIGNALS_def)
    from attribute_line_credit [OF credit a] consider (A) "has_signal ''utr_exact'' ?ev"
        "a = finalize_razorpay line ?ev ?non (combine ?ev) TIER_A mt audit"
      | (S) ev hard t where "a = attribute_scored line ?non ev hard t threshold mt audit"
      | (N) "a_abstained a"
      by blast
    then show ?thesis
    proof cases
      case A
      then show ?thesis using na finalize_cases(4) [OF A(2)] tieA credit by simp
    next
      case S
      from attribute_scored_verdict [OF non S na] show ?thesis using credit by auto
    qed (use na in simp)
  qed
  then show "a_tier a = tier_value TIER_A \<or> threshold \<le> a_confidence a"
    and "a_rail a = rail_value RAZORPAY_SETTLEMENT \<longrightarrow> ln_is_credit line \<and> has_tie (a_evidence a)" by auto
qed

subsection \<open>The margin gate\<close>

definition same_verdict :: "attribution \<Rightarrow> attribution \<Rightarrow> bool" where
  "same_verdict a b \<longleftrightarrow> a_line_key a = a_line_key b \<and> a_rail a = a_rail b \<and> a_confidence a = a_confidence b \<and>
     a_tier a = a_tier b \<and> a_evidence a = a_evidence b \<and> a_abstained a = a_abstained b \<and> a_llm_used a = a_llm_used b"

definition demoted :: "rat \<Rightarrow> attribution \<Rightarrow> attribution \<Rightarrow> bool" where
  "demoted mt a b \<longleftrightarrow> 0 < mt \<and> a_abstained a \<and> a_rail a = rail_value UNKNOWN \<and>
     a_rail b = rail_value RAZORPAY_SETTLEMENT \<and> \<not> a_abstained b"

lemma same_verdict_refl [simp]: "same_verdict a a"
  by (simp add: same_verdict_def)

definition gated :: "rat \<Rightarrow> attribution \<Rightarrow> attribution \<Rightarrow> bool" where
  "gated mt a b \<longleftrightarrow> same_verdict a b \<or> demoted mt a b"

lemma gated_intros:
  "gated mt a a"
  "gated mt x x' \<Longrightarrow> gated mt y y' \<Longrightarrow> gated mt (if c then x else y) (if c then x' else y')"
  "gated mt x x' \<Longrightarrow> (\<And>z. gated mt (f z) (f' z)) \<Longrightarrow>
     gated mt (case o2 of None \<Rightarrow> x | Some z \<Rightarrow> f z) (case o2 of None \<Rightarrow> x' | Some z \<Rightarrow> f' z)"
  "gated mt x x' \<Longrightarrow> (\<And>z zs. gated mt (g z zs) (g' z zs)) \<Longrightarrow>
     gated mt (case l of [] \<Rightarrow> x | z # zs \<Rightarrow> g z zs) (case l of [] \<Rightarrow> x' | z # zs \<Rightarrow> g' z zs)"
  "(\<And>u v. gated mt (h u v) (h' u v)) \<Longrightarrow> gated mt (case p of (u, v) \<Rightarrow> h u v) (case p of (u, v) \<Rightarrow> h' u v)"
  by (auto simp: gated_def split: option.split list.split prod.split)

lemma finalize_gate:
  "gated mt (finalize_razorpay line ev non sc t mt audit) (finalize_razorpay line ev non sc t 0 False)"
  by (auto simp: finalize_razorpay_def Let_def gated_def same_verdict_def demoted_def RailAttribution_def)

lemma scored_gate:
  "gated mt (attribute_scored line non ev hard t th mt audit) (attribute_scored line non ev hard t th 0 False)"
  unfolding attribute_scored_def Let_def by (intro gated_intros finalize_gate)

lemma attribute_line_gate:
  "gated mt (attribute_line nf pack line ix th mt audit) (attribute_line nf pack line ix th 0 False)"
  unfolding attribute_line_def Let_def by (intro gated_intros finalize_gate scored_gate)

subsection \<open>Properties\<close>

text \<open>
  C2. The proof gate: with a pack that has no keywords for the Razorpay rail (the built-in one), a line gets a
  Razorpay verdict only if it is a credit and the evidence attached to the verdict contains a signal that ties it
  to the settlement report. Debits, brand words, the IFSC and unlisted references never decide the verdict.
\<close>

theorem proof_gate:
  assumes "no_rzp_keywords pack" and "\<not> a_abstained (attribute_line nf pack line ix threshold mt audit)"
    and "a_rail (attribute_line nf pack line ix threshold mt audit) = rail_value RAZORPAY_SETTLEMENT"
  shows "ln_is_credit line \<and> (\<exists>e \<in> set (a_evidence (attribute_line nf pack line ix threshold mt audit)).
     ev_signal e \<in> {''utr_exact'', ''utr_suffix'', ''setsum'', ''amount_corr''})"
  using attribute_line_verdict(2) [OF assms(1) refl assms(2)] assms(3)
  by (auto simp: has_tie_def list_ex_iff RZP_TIE_SIGNALS_def)

theorem proof_gate_witness:
  "ln_is_credit sample_line \<and>
   (\<exists>e \<in> set (a_evidence (attribute_line id None sample_line (recon_index_of [sample_row]) (fl (85 / 100)) 0 False)).
     ev_signal e \<in> {''utr_exact'', ''utr_suffix'', ''setsum'', ''amount_corr''})"
proof -
  have "\<not> a_abstained (attribute_line id None sample_line (recon_index_of [sample_row]) (fl (85 / 100)) 0 False)"
    and "a_rail (attribute_line id None sample_line (recon_index_of [sample_row]) (fl (85 / 100)) 0 False) =
      rail_value RAZORPAY_SETTLEMENT"
    by code_simp+
  then show ?thesis by (rule proof_gate [OF no_rzp_keywords_default])
qed

text \<open>
  C14. The confidence threshold: a verdict that is not abstained has a confidence of at least the threshold,
  unless it is a Tier A verdict.
\<close>

theorem threshold_gate:
  assumes "no_rzp_keywords pack" and "\<not> a_abstained (attribute_line nf pack line ix threshold mt audit)"
    and "a_tier (attribute_line nf pack line ix threshold mt audit) \<noteq> tier_value TIER_A"
  shows "threshold \<le> a_confidence (attribute_line nf pack line ix threshold mt audit)"
  using attribute_line_verdict(1) [OF assms(1) refl assms(2)] assms(3) by blast

definition sample_gateway_line :: bank_line where
  "sample_gateway_line = sample_line\<lparr>ln_key := ''k2'', ln_narration := ''NEFT CASHFREE PAYMENTS'', ln_amount_paise := 5000\<rparr>"

theorem threshold_gate_witness:
  "fl (85 / 100) \<le> a_confidence (attribute_line id None sample_gateway_line (recon_index_of [sample_row])
     (fl (85 / 100)) 0 False)"
proof -
  have "\<not> a_abstained (attribute_line id None sample_gateway_line (recon_index_of [sample_row]) (fl (85 / 100)) 0 False)"
    and "a_tier (attribute_line id None sample_gateway_line (recon_index_of [sample_row]) (fl (85 / 100)) 0 False) \<noteq>
      tier_value TIER_A"
    by code_simp+
  then show ?thesis by (rule threshold_gate [OF no_rzp_keywords_default])
qed

text \<open>
  A Tier A verdict is not compared with the threshold: under the threshold 1, which every other verdict
  fails because confidences are capped at 0.99, the exact-UTR line is still attributed.
\<close>

theorem tier_a_ignores_threshold:
  "\<not> a_abstained (attribute_line id None sample_line (recon_index_of [sample_row]) 1 0 False) \<and>
   a_confidence (attribute_line id None sample_line (recon_index_of [sample_row]) 1 0 False) < 1"
  by code_simp

text \<open>
  The margin gate and the audit pass can only demote: the verdict with any margin threshold and audit flag
  is the verdict without the gate, except that a Razorpay verdict may have become an abstention when the
  threshold is positive.
\<close>

theorem margin_gate_only_demotes:
  "same_verdict (attribute_line nf pack line ix threshold mt audit) (attribute_line nf pack line ix threshold 0 False) \<or>
   (0 < mt \<and> a_abstained (attribute_line nf pack line ix threshold mt audit) \<and>
    a_rail (attribute_line nf pack line ix threshold 0 False) = rail_value RAZORPAY_SETTLEMENT)"
  using attribute_line_gate [of mt nf pack line ix threshold audit] by (auto simp: gated_def demoted_def)

lemma setsum_evidence_setsumD:
  assumes "setsum_evidence line ix = Some ev" and "has_signal ''setsum'' ev"
  shows "setsum_cands line ix \<noteq> [] \<and>
    (\<exists>r s. setsum_search (setsum_cands line ix) (ln_amount_paise line) = Inr r \<and> bs_subsets r = [s])"
proof -
  define singles where "singles = map (\<lambda>sid. [sid]) (filter (in_window5 ix line)
    (dget (ix_net_to_settlements ix) (ln_amount_paise line) []))"
  from assms obtain r where r: "setsum_search (setsum_cands line ix) (ln_amount_paise line) = Inr r"
    and ne: "setsum_cands line ix \<noteq> []" and nx: "\<not> bs_exhausted r"
    by (auto simp: setsum_evidence_def Let_def has_signal_def split: if_splits sum.splits)
  have "\<exists>sub. singles @ map sort (bs_subsets r) = [sub] \<and> length sub \<noteq> 1"
    using assms r ne nx unfolding setsum_evidence_def Let_def singles_def [symmetric]
    by (auto simp: has_signal_def split: if_splits list.splits)
  then obtain sub where sub: "singles @ map sort (bs_subsets r) = [sub]" "length sub \<noteq> 1" by blast
  have "singles = []" using sub by (cases singles) (auto simp: singles_def)
  with sub(1) have "\<exists>s. bs_subsets r = [s]" by (auto simp: map_eq_Cons_conv)
  with r ne show ?thesis by blast
qed

lemma setsum_cands_ok: "dict_ok (ix_settlement_net ix) \<Longrightarrow> items_ok (setsum_cands line ix)"
  by (auto simp: setsum_cands_def items_ok_def dict_ok_def distinct_map_filter)

text \<open>
  A set-sum tie is unambiguous: when \<open>_setsum_evidence\<close> emits the \<open>setsum\<close> signal for a pool of at most 16
  settlements in the date window, exactly one set of one to five of them has the credit's amount; for a larger
  pool in ascending order of identity, exactly one set of two or three.
\<close>

theorem setsum_evidence_unique:
  assumes "setsum_evidence line (recon_index_of rows) = Some ev" and "has_signal ''setsum'' ev"
  shows "(length (setsum_cands line (recon_index_of rows)) \<le> 16 \<longrightarrow>
      (\<exists>!S. solves (ln_amount_paise line) 0 1 5 (setsum_cands line (recon_index_of rows)) S)) \<and>
    (16 < length (setsum_cands line (recon_index_of rows)) \<and>
      sorted_wrt (<) (map fst (setsum_cands line (recon_index_of rows))) \<longrightarrow>
      (\<exists>!S. solves (ln_amount_paise line) 0 2 3 (setsum_cands line (recon_index_of rows)) S))"
proof -
  let ?c = "setsum_cands line (recon_index_of rows)" and ?t = "ln_amount_paise line"
  have ok: "items_ok ?c" by (simp add: setsum_cands_ok settlement_index_dicts)
  obtain r s where r: "setsum_search ?c ?t = Inr r" "bs_subsets r = [s]"
    using setsum_evidence_setsumD [OF assms] by blast
  show ?thesis
  proof (intro conjI impI)
    assume "length ?c \<le> 16"
    then show "\<exists>!S. solves ?t 0 1 5 ?c S"
      using r ok bounded.single_unique [of ?c ?t r s]
      by (simp add: setsum_search_def SETSUM_EXPANSION_MAX_CANDIDATES_def bounded_pool_def)
  next
    assume "16 < length ?c \<and> sorted_wrt (<) (map fst ?c)"
    then show "\<exists>!S. solves ?t 0 2 3 ?c S"
      using r ok legacy.single_unique [of ?c ?t r s]
      by (simp add: setsum_search_def SETSUM_EXPANSION_MAX_CANDIDATES_def ascending_pool_def)
  qed
qed

definition sample_merged_line :: bank_line where
  "sample_merged_line = sample_line\<lparr>ln_key := ''k3'', ln_narration := ''NEFT RAZORPAY SETTLEMENT'', ln_amount_paise := 147640\<rparr>"

theorem setsum_evidence_unique_witness:
  "\<exists>!S. solves 147640 0 1 5 (setsum_cands sample_merged_line (recon_index_of [sample_row, sample_row2])) S"
proof -
  let ?ix = "recon_index_of [sample_row, sample_row2]"
  have "(case setsum_evidence sample_merged_line ?ix of None \<Rightarrow> False | Some ev \<Rightarrow> has_signal ''setsum'' ev)"
    by code_simp
  then obtain ev where "setsum_evidence sample_merged_line ?ix = Some ev" "has_signal ''setsum'' ev"
    by (auto split: option.splits)
  moreover have "length (setsum_cands sample_merged_line ?ix) \<le> 16" by code_simp
  moreover have "ln_amount_paise sample_merged_line = 147640" by (simp add: sample_merged_line_def)
  ultimately show ?thesis using setsum_evidence_unique by fastforce
qed

end
