(* ===== verification/Splits.thy ===== *)
theory Splits
  imports Attribute
begin

section \<open>Split-settlement reconstruction (\<open>engine/attribute.py\<close>)\<close>

text \<open>
  A settlement paid out in two or three bank credits leaves legs that abstain one by one. \<open>reconstruct_splits\<close>
  lifts them when their amounts add up to one dated settlement net and nothing about the match is ambiguous.
  It is called with one attribution per line; the pairs are \<open>zip lines attrs\<close>.
\<close>

definition SPLIT_MAX_LEGS :: nat where
  "SPLIT_MAX_LEGS = 3"

definition SPLIT_DRIFT_PAISE :: int where
  "SPLIT_DRIFT_PAISE = 100"

definition SPLIT_DATE_WINDOW :: int where
  "SPLIT_DATE_WINDOW = 5"

definition SPLIT_MAX_CANDIDATES :: nat where
  "SPLIT_MAX_CANDIDATES = 60"

definition SPLIT_CONFIDENCE :: rat where
  "SPLIT_CONFIDENCE = fl (9 / 10)"

definition RZP_LEANING_SIGNALS :: "string list" where
  "RZP_LEANING_SIGNALS = [''narration_brand_rzp'', ''ifsc_ratn'', ''settlement_ref'', ''utr_suffix'', ''utr_suffix_weak'']"

definition STRONG_RZP_SIGNALS :: "string list" where
  "STRONG_RZP_SIGNALS = [''ifsc_ratn'', ''utr_suffix'']"

definition amount_sum :: "bank_line list \<Rightarrow> int" where
  "amount_sum combo = sum_list (map ln_amount_paise combo)"

fun sum_subset_loop :: "int \<Rightarrow> int \<Rightarrow> string set list \<Rightarrow> bank_line list list \<Rightarrow> bank_line list list" where
  "sum_subset_loop target tol seen [] = []"
| "sum_subset_loop target tol seen (combo # rest) =
     (if \<bar>amount_sum combo - target\<bar> \<le> tol \<and> set (map ln_key combo) \<notin> set seen
      then combo # sum_subset_loop target tol (seen @ [set (map ln_key combo)]) rest
      else sum_subset_loop target tol seen rest)"

definition all_sum_subsets :: "bank_line list \<Rightarrow> int \<Rightarrow> int \<Rightarrow> nat \<Rightarrow> bank_line list list" where
  "all_sum_subsets items target tol max_legs = sum_subset_loop target tol [] (all_combos 2 max_legs items)"

definition intersects :: "string list \<Rightarrow> string list \<Rightarrow> bool" where
  "intersects xs ys \<longleftrightarrow> list_ex (\<lambda>x. x \<in> set ys) xs"

subsection \<open>Candidates\<close>

definition signals_of :: "(string \<Rightarrow> string) \<Rightarrow> pack option \<Rightarrow> recon_index \<Rightarrow> bank_line \<Rightarrow> string list" where
  "signals_of nf pack ix l = map ev_signal (razorpay_signals nf pack l ix)"

definition split_candidate :: "(string \<Rightarrow> string) \<Rightarrow> pack option \<Rightarrow> recon_index \<Rightarrow> bank_line \<times> attribution \<Rightarrow> bool" where
  "split_candidate nf pack ix la = (case la of (l, a) \<Rightarrow>
     a_abstained a \<and> ln_is_credit l \<and> ln_amount_paise l > 0 \<and> narration_rail_signals nf pack l = [] \<and>
     intersects RZP_LEANING_SIGNALS (signals_of nf pack ix l))"

definition split_candidates ::
  "(string \<Rightarrow> string) \<Rightarrow> pack option \<Rightarrow> recon_index \<Rightarrow> bank_line list \<Rightarrow> attribution list \<Rightarrow> bank_line list" where
  "split_candidates nf pack ix lines attrs = map fst (filter (split_candidate nf pack ix) (zip lines attrs))"

subsection \<open>Phase 1: all matches\<close>

definition eligible :: "recon_index \<Rightarrow> bank_line list \<Rightarrow> string \<Rightarrow> bank_line list" where
  "eligible ix candidates sid = (case (map_of (ix_settlement_net ix) sid, map_of (ix_settlement_date ix) sid) of
     (Some net, Some sdate) \<Rightarrow> if net \<le> 0 then []
        else filter (\<lambda>c. ln_amount_paise c < net \<and> days_apart (ln_value_date c) sdate \<le> SPLIT_DATE_WINDOW) candidates
   | _ \<Rightarrow> [])"

definition settlement_order :: "recon_index \<Rightarrow> string list" where
  "settlement_order ix = sort (map fst (ix_settlement_net ix))"

definition split_matches :: "recon_index \<Rightarrow> bank_line list \<Rightarrow> (string \<times> bank_line list) list" where
  "split_matches ix candidates = concat (map (\<lambda>sid. let elig = eligible ix candidates sid in
     if length elig < 2 \<or> length elig > SPLIT_MAX_CANDIDATES then []
     else map (\<lambda>sub. (sid, sub))
       (all_sum_subsets elig (dget (ix_settlement_net ix) sid 0) SPLIT_DRIFT_PAISE SPLIT_MAX_LEGS))
     (settlement_order ix))"

definition split_poisoned :: "recon_index \<Rightarrow> bank_line list \<Rightarrow> string list" where
  "split_poisoned ix candidates = concat (map (\<lambda>sid. let elig = eligible ix candidates sid in
     if length elig > SPLIT_MAX_CANDIDATES then map ln_key elig else []) (settlement_order ix))"

subsection \<open>Phase 2: conflicts and assignment\<close>

definition split_accepted :: "(string \<Rightarrow> string) \<Rightarrow> pack option \<Rightarrow> recon_index \<Rightarrow> (string \<times> bank_line list) list \<Rightarrow>
    string list \<Rightarrow> (string, string list) dict \<Rightarrow> string \<times> bank_line list \<Rightarrow> bool" where
  "split_accepted nf pack ix matches poisoned sig_by_key m = (case m of (sid, sub) \<Rightarrow>
     count_list (map fst matches) sid = 1 \<and>
     list_all (\<lambda>c. count_list (concat (map (map ln_key \<circ> snd) matches)) (ln_key c) = 1 \<and>
       ln_key c \<notin> set poisoned) sub \<and>
     list_ex (\<lambda>c. intersects STRONG_RZP_SIGNALS (dget sig_by_key (ln_key c) [])) sub)"

definition split_assigned :: "(string \<Rightarrow> string) \<Rightarrow> pack option \<Rightarrow> recon_index \<Rightarrow> bank_line list \<Rightarrow>
    (string, string \<times> nat \<times> int) dict" where
  "split_assigned nf pack ix candidates = (
     let matches = split_matches ix candidates; poisoned = split_poisoned ix candidates;
         sig_by_key = dict_of ln_key (signals_of nf pack ix) candidates
     in foldl (\<lambda>d (sid, sub). if split_accepted nf pack ix matches poisoned sig_by_key (sid, sub)
          then foldl (\<lambda>d c. dset d (ln_key c)
                 (sid, length sub, amount_sum sub - dget (ix_settlement_net ix) sid 0)) d sub
          else d) [] matches)"

definition split_evidence :: "string \<times> nat \<times> int \<Rightarrow> evidence_item list" where
  "split_evidence x = (case x of (sid, k, residual) \<Rightarrow>
     [EvidenceItem ''split_reconstruction'' (''1 of '' @ str_int (int k) @ '' bank legs whose amounts uniquely sum to '' @
        (if residual = 0 then ''exactly'' else ''within '' @ str_int \<bar>residual\<bar> @ '' paise of'') @
        '' the settlement net for '' @ sid) SPLIT_CONFIDENCE])"

definition reconstruct_splits :: "(string \<Rightarrow> string) \<Rightarrow> pack option \<Rightarrow> bank_line list \<Rightarrow> recon_index \<Rightarrow>
    attribution list \<Rightarrow> rat \<Rightarrow> rat \<Rightarrow> bool \<Rightarrow> attribution list" where
  "reconstruct_splits nf pack lines ix attrs threshold mt audit = (
     if SPLIT_CONFIDENCE < threshold then attrs
     else let candidates = split_candidates nf pack ix lines attrs in
       if length candidates < 2 then attrs
       else let assigned = split_assigned nf pack ix candidates in
         if assigned = [] then attrs
         else map (\<lambda>(l, a). case map_of assigned (ln_key l) of None \<Rightarrow> a
           | Some x \<Rightarrow> finalize_razorpay l (split_evidence x) (narration_rail_signals nf pack l)
               SPLIT_CONFIDENCE TIER_C mt audit) (zip lines attrs))"

subsection \<open>Lemmas\<close>

lemma sum_subset_loop_sound:
  "sub \<in> set (sum_subset_loop target tol seen cs) \<Longrightarrow> sub \<in> set cs \<and> \<bar>amount_sum sub - target\<bar> \<le> tol"
  by (induction cs arbitrary: seen) (auto split: if_splits)

lemma sum_subset_loop_complete:
  "sub \<in> set cs \<Longrightarrow> \<bar>amount_sum sub - target\<bar> \<le> tol \<Longrightarrow>
     set (map ln_key sub) \<in> set seen \<union> set (map (set \<circ> map ln_key) (sum_subset_loop target tol seen cs))"
proof (induction cs arbitrary: seen)
  case (Cons c cs)
  then show ?case
    using Cons.IH [of seen] Cons.IH [of "seen @ [set (map ln_key c)]"] by (auto split: if_splits)
qed simp

lemma all_sum_subsets_sound:
  "sub \<in> set (all_sum_subsets items target tol k) \<Longrightarrow>
     subseq sub items \<and> 2 \<le> length sub \<and> length sub \<le> k \<and> \<bar>amount_sum sub - target\<bar> \<le> tol"
  unfolding all_sum_subsets_def by (auto dest!: sum_subset_loop_sound simp: set_all_combos)

lemma eligible_candidates: "set (eligible ix candidates sid) \<subseteq> set candidates"
  by (auto simp: eligible_def split: option.splits if_splits)

lemma split_matches_sound:
  assumes "(sid, sub) \<in> set (split_matches ix candidates)"
  shows "set sub \<subseteq> set candidates" and "2 \<le> length sub" and "length sub \<le> 3"
    and "\<bar>amount_sum sub - dget (ix_settlement_net ix) sid 0\<bar> \<le> 100"
proof -
  have "sub \<in> set (all_sum_subsets (eligible ix candidates sid) (dget (ix_settlement_net ix) sid 0) 100 3)"
    using assms by (auto simp: split_matches_def Let_def SPLIT_DRIFT_PAISE_def SPLIT_MAX_LEGS_def split: if_splits)
  note s = all_sum_subsets_sound [OF this]
  then show "set sub \<subseteq> set candidates" using eligible_candidates subseq_subset by blast
  show "2 \<le> length sub" "length sub \<le> 3" "\<bar>amount_sum sub - dget (ix_settlement_net ix) sid 0\<bar> \<le> 100"
    using s by auto
qed

lemma dset_fold_SomeD:
  "map_of (foldl (\<lambda>d c. dset d (f c) v) d sub) k = Some x \<Longrightarrow> map_of d k = Some x \<or> (x = v \<and> k \<in> f ` set sub)"
proof (induction sub arbitrary: d)
  case (Cons a sub)
  then show ?case using Cons.IH [of "dset d (f a) v"] by (auto split: if_splits)
qed simp

lemma split_assigned_SomeD:
  assumes "map_of (split_assigned nf pack ix candidates) k = Some x"
  shows "\<exists>sid sub. (sid, sub) \<in> set (split_matches ix candidates) \<and>
     split_accepted nf pack ix (split_matches ix candidates) (split_poisoned ix candidates)
       (dict_of ln_key (signals_of nf pack ix) candidates) (sid, sub) \<and> k \<in> ln_key ` set sub \<and>
     x = (sid, length sub, amount_sum sub - dget (ix_settlement_net ix) sid 0)"
proof -
  let ?acc = "split_accepted nf pack ix (split_matches ix candidates) (split_poisoned ix candidates)
       (dict_of ln_key (signals_of nf pack ix) candidates)"
  let ?P = "\<lambda>d. \<forall>k x. map_of d k = Some x \<longrightarrow> (\<exists>sid sub. (sid, sub) \<in> set (split_matches ix candidates) \<and>
     ?acc (sid, sub) \<and> k \<in> ln_key ` set sub \<and>
     x = (sid, length sub, amount_sum sub - dget (ix_settlement_net ix) sid 0))"
  have "?P (split_assigned nf pack ix candidates)"
    unfolding split_assigned_def Let_def
  proof (rule foldl_invariant, simp, goal_cases)
    case (1 d m)
    obtain sid sub where m: "m = (sid, sub)" by (cases m)
    show ?case
    proof (cases "?acc (sid, sub)")
      case True
      have "map_of d k = Some x \<or> (x = (sid, length sub, amount_sum sub - dget (ix_settlement_net ix) sid 0) \<and>
          k \<in> ln_key ` set sub)"
        if "map_of (foldl (\<lambda>d c. dset d (ln_key c)
          (sid, length sub, amount_sum sub - dget (ix_settlement_net ix) sid 0)) d sub) k = Some x" for k x
        using dset_fold_SomeD [OF that] .
      with True 1 m show ?thesis by (simp only: prod.case if_True) blast
    qed (use 1 m in simp)
  qed
  with assms show ?thesis by blast
qed

lemma count_list_one_unique:
  "count_list (map fst xs) k = 1 \<Longrightarrow> (k, a) \<in> set xs \<Longrightarrow> (k, b) \<in> set xs \<Longrightarrow> a = b"
proof (induction xs)
  case (Cons x xs)
  show ?case
  proof (cases "fst x = k")
    case True
    with Cons.prems(1) have "k \<notin> set (map fst xs)" by (simp add: count_list_0_iff)
    with Cons.prems(2,3) show ?thesis by force
  next
    case False
    with Cons show ?thesis by auto
  qed
qed simp

lemma reconstruct_splits_nth:
  assumes "length attrs = length lines" and "i < length lines"
    and "reconstruct_splits nf pack lines ix attrs threshold mt audit ! i \<noteq> attrs ! i"
  shows "threshold \<le> SPLIT_CONFIDENCE \<and>
    (\<exists>x. map_of (split_assigned nf pack ix (split_candidates nf pack ix lines attrs)) (ln_key (lines ! i)) = Some x \<and>
      reconstruct_splits nf pack lines ix attrs threshold mt audit ! i =
        finalize_razorpay (lines ! i) (split_evidence x) (narration_rail_signals nf pack (lines ! i))
          SPLIT_CONFIDENCE TIER_C mt audit)"
  using assms by (auto simp: reconstruct_splits_def Let_def split: if_splits option.splits)

subsection \<open>Groups of legs\<close>

text \<open>
  A group of legs of a settlement, stated without the search: two or three eligible candidates in bank order whose
  amounts add up to the settlement's net within the tolerance.
\<close>

definition leg_group :: "recon_index \<Rightarrow> bank_line list \<Rightarrow> string \<Rightarrow> bank_line list \<Rightarrow> bool" where
  "leg_group ix candidates sid sub \<longleftrightarrow> sid \<in> set (settlement_order ix) \<and> subseq sub (eligible ix candidates sid) \<and>
     2 \<le> length sub \<and> length sub \<le> 3 \<and> \<bar>amount_sum sub - dget (ix_settlement_net ix) sid 0\<bar> \<le> 100"

lemma split_matches_iff:
  "(sid, sub) \<in> set (split_matches ix candidates) \<longleftrightarrow> sid \<in> set (settlement_order ix) \<and>
     2 \<le> length (eligible ix candidates sid) \<and> length (eligible ix candidates sid) \<le> 60 \<and>
     sub \<in> set (all_sum_subsets (eligible ix candidates sid) (dget (ix_settlement_net ix) sid 0) 100 3)"
  by (auto simp: split_matches_def Let_def SPLIT_DRIFT_PAISE_def SPLIT_MAX_LEGS_def SPLIT_MAX_CANDIDATES_def)

lemma split_poisoned_iff:
  "k \<in> set (split_poisoned ix candidates) \<longleftrightarrow>
     (\<exists>sid \<in> set (settlement_order ix). 60 < length (eligible ix candidates sid) \<and> k \<in> ln_key ` set (eligible ix candidates sid))"
  by (auto simp: split_poisoned_def Let_def SPLIT_MAX_CANDIDATES_def)

lemma split_matches_leg_group: "(sid, sub) \<in> set (split_matches ix candidates) \<Longrightarrow> leg_group ix candidates sid sub"
  by (auto simp: split_matches_iff leg_group_def dest: all_sum_subsets_sound)

text \<open>The search misses no group of a settlement it looks at, up to lines with the same keys.\<close>

lemma leg_group_matched:
  assumes "leg_group ix candidates sid sub" "length (eligible ix candidates sid) \<le> 60"
  shows "\<exists>sub'. (sid, sub') \<in> set (split_matches ix candidates) \<and> ln_key ` set sub' = ln_key ` set sub"
proof -
  let ?e = "eligible ix candidates sid" and ?t = "dget (ix_settlement_net ix) sid 0"
  have g: "subseq sub ?e" "2 \<le> length sub" "length sub \<le> 3" "\<bar>amount_sum sub - ?t\<bar> \<le> 100"
    using assms(1) by (simp_all add: leg_group_def)
  have "sub \<in> set (all_combos 2 3 ?e)" using g(1-3) by (simp add: set_all_combos)
  from sum_subset_loop_complete [OF this g(4), of "[]"]
  obtain sub' where "sub' \<in> set (all_sum_subsets ?e ?t 100 3)" "ln_key ` set sub' = ln_key ` set sub"
    by (auto simp: all_sum_subsets_def)
  moreover have "2 \<le> length ?e" using list_emb_length [OF g(1)] g(2) by simp
  ultimately show ?thesis using assms by (auto simp: split_matches_iff leg_group_def)
qed

lemma count_list_concat_one:
  "count_list (concat (map f ms)) k = 1 \<Longrightarrow> m \<in> set ms \<Longrightarrow> m' \<in> set ms \<Longrightarrow> k \<in> set (f m) \<Longrightarrow> k \<in> set (f m') \<Longrightarrow> m = m'"
proof (induction ms)
  case (Cons a ms)
  show ?case
  proof (cases "k \<in> set (f a)")
    case True
    then have "count_list (f a) k \<noteq> 0" by (simp add: count_list_0_iff)
    with Cons.prems(1) have "count_list (concat (map f ms)) k = 0" by simp
    then have "k \<notin> set (concat (map f ms))" by (simp add: count_list_0_iff)
    with Cons.prems show ?thesis by auto
  next
    case False
    then have "count_list (f a) k = 0" by (simp add: count_list_0_iff)
    with Cons False show ?thesis by auto
  qed
qed simp

text \<open>An accepted group meets no other group, and no settlement with too many candidates to search.\<close>

lemma split_accepted_alone:
  assumes m: "(sid, sub) \<in> set (split_matches ix cs)"
    and acc: "split_accepted nf pack ix (split_matches ix cs) (split_poisoned ix cs) sk (sid, sub)"
  shows "leg_group ix cs sid' sub' \<Longrightarrow> sid' = sid \<or> ln_key ` set sub' \<inter> ln_key ` set sub \<noteq> {} \<Longrightarrow>
      sid' = sid \<and> ln_key ` set sub' = ln_key ` set sub"
    and "sid' \<in> set (settlement_order ix) \<Longrightarrow> 60 < length (eligible ix cs sid') \<Longrightarrow>
      ln_key ` set (eligible ix cs sid') \<inter> ln_key ` set sub = {}"
proof -
  have one: "count_list (map fst (split_matches ix cs)) sid = 1"
    using acc by (simp add: split_accepted_def)
  have keys: "count_list (concat (map (map ln_key \<circ> snd) (split_matches ix cs))) k = 1" "k \<notin> set (split_poisoned ix cs)"
    if "k \<in> ln_key ` set sub" for k
    using acc that by (auto simp: split_accepted_def list_all_iff)
  show clean: "ln_key ` set (eligible ix cs sid') \<inter> ln_key ` set sub = {}"
    if "sid' \<in> set (settlement_order ix)" "60 < length (eligible ix cs sid')" for sid'
    using keys(2) that unfolding split_poisoned_iff by blast
  assume g: "leg_group ix cs sid' sub'" and o: "sid' = sid \<or> ln_key ` set sub' \<inter> ln_key ` set sub \<noteq> {}"
  have sub: "set sub' \<subseteq> set (eligible ix cs sid')" "sid' \<in> set (settlement_order ix)"
    using g by (auto simp: leg_group_def dest: subseq_subset)
  have few: "length (eligible ix cs sid') \<le> 60"
  proof (rule ccontr)
    assume "\<not> ?thesis"
    then show False using clean [OF sub(2)] sub(1) o m by (auto simp: split_matches_iff)
  qed
  obtain sub'' where s: "(sid', sub'') \<in> set (split_matches ix cs)" "ln_key ` set sub'' = ln_key ` set sub'"
    using leg_group_matched [OF g few] by blast
  have "(sid', sub'') = (sid, sub)"
    using o
  proof
    assume "sid' = sid"
    then show ?thesis using s(1) count_list_one_unique [OF one _ m] by simp
  next
    assume "ln_key ` set sub' \<inter> ln_key ` set sub \<noteq> {}"
    then obtain k where "k \<in> ln_key ` set sub''" "k \<in> ln_key ` set sub" using s(2) by blast
    then show ?thesis
      using count_list_concat_one [OF keys(1) s(1) m] by simp
  qed
  then show "sid' = sid \<and> ln_key ` set sub' = ln_key ` set sub" using s(2) by simp
qed

subsection \<open>Property\<close>

text \<open>
  C21. Split reconstruction only changes a line whose key is in an unambiguous group of legs: two or three
  abstained credits with a Razorpay signal, eligible for a settlement and adding up to its net within 100 paise, at
  least one of them with a strong signal. Unambiguous means that, up to lines with the same keys, no other group fits
  that settlement, no group of any settlement shares a credit with it, and none of its credits is eligible for a
  settlement with more than 60 eligible credits, whose groups are not searched. The changed verdict carries the fixed
  confidence of a split, which is at least the threshold.
\<close>

theorem split_reconstruction_sound:
  assumes "length attrs = length lines" and "i < length lines"
    and "reconstruct_splits nf pack lines ix attrs threshold mt audit ! i \<noteq> attrs ! i"
  shows "\<exists>sid sub. ln_key (lines ! i) \<in> ln_key ` set sub \<and> set sub \<subseteq> set (split_candidates nf pack ix lines attrs) \<and>
    2 \<le> length sub \<and> length sub \<le> 3 \<and> \<bar>amount_sum sub - dget (ix_settlement_net ix) sid 0\<bar> \<le> 100 \<and>
    (\<exists>c \<in> set sub. \<exists>c' \<in> set (split_candidates nf pack ix lines attrs). ln_key c' = ln_key c \<and>
      intersects STRONG_RZP_SIGNALS (signals_of nf pack ix c')) \<and>
    (\<forall>sub'. (sid, sub') \<in> set (split_matches ix (split_candidates nf pack ix lines attrs)) \<longrightarrow> sub' = sub) \<and>
    leg_group ix (split_candidates nf pack ix lines attrs) sid sub \<and>
    (\<forall>sid' sub'. leg_group ix (split_candidates nf pack ix lines attrs) sid' sub' \<longrightarrow>
       sid' = sid \<or> ln_key ` set sub' \<inter> ln_key ` set sub \<noteq> {} \<longrightarrow>
       sid' = sid \<and> ln_key ` set sub' = ln_key ` set sub) \<and>
    (\<forall>sid' \<in> set (settlement_order ix). 60 < length (eligible ix (split_candidates nf pack ix lines attrs) sid') \<longrightarrow>
       ln_key ` set (eligible ix (split_candidates nf pack ix lines attrs) sid') \<inter> ln_key ` set sub = {}) \<and>
    threshold \<le> a_confidence (reconstruct_splits nf pack lines ix attrs threshold mt audit ! i)"
proof -
  let ?c = "split_candidates nf pack ix lines attrs"
  obtain x where x: "map_of (split_assigned nf pack ix ?c) (ln_key (lines ! i)) = Some x"
    and th: "threshold \<le> SPLIT_CONFIDENCE"
    and out: "reconstruct_splits nf pack lines ix attrs threshold mt audit ! i =
        finalize_razorpay (lines ! i) (split_evidence x) (narration_rail_signals nf pack (lines ! i))
          SPLIT_CONFIDENCE TIER_C mt audit"
    using reconstruct_splits_nth [OF assms] by blast
  obtain sid sub where m: "(sid, sub) \<in> set (split_matches ix ?c)"
    and acc: "split_accepted nf pack ix (split_matches ix ?c) (split_poisoned ix ?c)
       (dict_of ln_key (signals_of nf pack ix) ?c) (sid, sub)"
    and key: "ln_key (lines ! i) \<in> ln_key ` set sub"
    using split_assigned_SomeD [OF x] by blast
  have uniq: "sub' = sub" if "(sid, sub') \<in> set (split_matches ix ?c)" for sub'
    using acc count_list_one_unique [OF _ that m] by (simp add: split_accepted_def)
  obtain c where c: "c \<in> set sub"
    and str: "intersects STRONG_RZP_SIGNALS (dget (dict_of ln_key (signals_of nf pack ix) ?c) (ln_key c) [])"
    using acc by (auto simp: split_accepted_def list_ex_iff)
  have "map_of (dict_of ln_key (signals_of nf pack ix) ?c) (ln_key c) \<noteq> None"
    using c split_matches_sound(1) [OF m] by (auto simp: map_of_dict_of_None)
  then obtain ss where ss: "map_of (dict_of ln_key (signals_of nf pack ix) ?c) (ln_key c) = Some ss" by blast
  with str have "intersects STRONG_RZP_SIGNALS ss" by (simp add: dget_def)
  then obtain c' where c': "c' \<in> set ?c" "ln_key c' = ln_key c" "intersects STRONG_RZP_SIGNALS (signals_of nf pack ix c')"
    using map_of_dict_of_SomeD [OF ss] by blast
  have "a_confidence (reconstruct_splits nf pack lines ix attrs threshold mt audit ! i) = SPLIT_CONFIDENCE"
    unfolding out by (rule finalize_cases(2) [OF refl])
  then have "threshold \<le> a_confidence (reconstruct_splits nf pack lines ix attrs threshold mt audit ! i)" using th by simp
  moreover have "\<exists>c \<in> set sub. \<exists>c' \<in> set ?c. ln_key c' = ln_key c \<and> intersects STRONG_RZP_SIGNALS (signals_of nf pack ix c')"
    using c c' by blast
  moreover have "\<forall>sid' sub'. leg_group ix ?c sid' sub' \<longrightarrow> sid' = sid \<or> ln_key ` set sub' \<inter> ln_key ` set sub \<noteq> {} \<longrightarrow>
      sid' = sid \<and> ln_key ` set sub' = ln_key ` set sub"
    using split_accepted_alone(1) [OF m acc] by blast
  moreover have "\<forall>sid' \<in> set (settlement_order ix). 60 < length (eligible ix ?c sid') \<longrightarrow>
      ln_key ` set (eligible ix ?c sid') \<inter> ln_key ` set sub = {}"
    using split_accepted_alone(2) [OF m acc] by blast
  ultimately show ?thesis
    using key split_matches_sound [OF m] split_matches_leg_group [OF m] uniq by metis
qed

definition sample_legs :: "bank_line list" where
  "sample_legs = [sample_line\<lparr>ln_key := ''l1'', ln_narration := ''NEFT RATN0000088'', ln_amount_paise := 50000\<rparr>,
     sample_line\<lparr>ln_key := ''l2'', ln_narration := ''NEFT RATN0000088'', ln_amount_paise := 47640\<rparr>]"

definition sample_leg_attrs :: "attribution list" where
  "sample_leg_attrs = [Abstention ''l1'' 0 [], Abstention ''l2'' 0 []]"

theorem split_reconstruction_sound_witness:
  "fl (85 / 100) \<le> a_confidence (reconstruct_splits id None sample_legs (recon_index_of [sample_row]) sample_leg_attrs
     (fl (85 / 100)) 0 False ! 0)"
proof -
  have "length sample_leg_attrs = length sample_legs" "0 < length sample_legs"
    by (simp_all add: sample_legs_def sample_leg_attrs_def)
  moreover have "a_abstained (reconstruct_splits id None sample_legs (recon_index_of [sample_row]) sample_leg_attrs
     (fl (85 / 100)) 0 False ! 0) = False"
    by code_simp
  then have "reconstruct_splits id None sample_legs (recon_index_of [sample_row]) sample_leg_attrs
     (fl (85 / 100)) 0 False ! 0 \<noteq> sample_leg_attrs ! 0"
    by (auto simp: sample_leg_attrs_def)
  ultimately show ?thesis using split_reconstruction_sound by blast
qed

end
