(* ===== verification/Rules.thy ===== *)
theory Rules
  imports Models
begin

section \<open>Human-approved rules (\<open>engine/rules.py\<close>)\<close>

text \<open>
  A rule is inert until a human approves it. Identifiers and timestamps come from outside (\<open>uuid4\<close>, the clock)
  and are arguments of \<open>propose_rule\<close> and \<open>approve_rule\<close>. The keyword pattern is a regular expression anchored on
  boundaries; it is modelled by the positions at which the escaped pattern can match.
\<close>

record rule =
  ru_rule_id :: string
  ru_version :: int
  ru_target_rail :: string
  ru_pattern_type :: string
  ru_pattern_value :: string
  ru_created_at :: string
  ru_proposed_by :: string
  ru_approved :: bool
  ru_approved_by :: "string option"
  ru_approved_at :: "string option"
  ru_rationale :: string

datatype rule_error = Empty_Pattern | Invalid_Target_Rail string | Approver_Missing

definition valid_rails :: "string list" where
  "valid_rails = map rail_value [RAZORPAY_SETTLEMENT, OTHER_GATEWAY, DIRECT_UPI, COD_REMITTANCE, UNRELATED]"

definition propose_rule :: "string \<Rightarrow> string \<Rightarrow> string \<Rightarrow> string \<Rightarrow> string \<Rightarrow> string \<Rightarrow> string option \<Rightarrow> int \<Rightarrow> string \<Rightarrow>
    rule_error + rule" where
  "propose_rule fresh_id now target_rail pattern_value pattern_type rationale rule_id version proposed_by = (
     let cleaned = py_lower (py_strip pattern_value) in
     if cleaned = [] then Inl Empty_Pattern
     else if target_rail \<notin> set valid_rails then Inl (Invalid_Target_Rail target_rail)
     else Inr \<lparr>ru_rule_id = (if truthy rule_id then the rule_id else ''rule_'' @ fresh_id), ru_version = version,
       ru_target_rail = target_rail, ru_pattern_type = pattern_type, ru_pattern_value = cleaned, ru_created_at = now,
       ru_proposed_by = proposed_by, ru_approved = False, ru_approved_by = None, ru_approved_at = None,
       ru_rationale = rationale\<rparr>)"

definition approve_rule :: "string \<Rightarrow> rule \<Rightarrow> string \<Rightarrow> rule_error + rule" where
  "approve_rule now r approver = (if approver = [] \<or> py_strip approver = [] then Inl Approver_Missing
     else Inr (r\<lparr>ru_approved := True, ru_approved_by := Some (py_strip approver), ru_approved_at := Some now\<rparr>))"

text \<open>The character class \<open>[\s\-_/]\<close>.\<close>

definition boundary_chars :: "string list" where
  "boundary_chars = ws_chars @ [''-'', ''_'', ''/'']"

definition keyword_at :: "string \<Rightarrow> string \<Rightarrow> nat \<Rightarrow> bool" where
  "keyword_at pattern text i \<longleftrightarrow> (let before = take i text; rest = drop i text; after = drop (length pattern) rest in
     prefix pattern rest \<and>
     (before = [] \<or> list_ex (\<lambda>w. suffix w before) boundary_chars) \<and>
     (after = [] \<or> list_ex (\<lambda>w. prefix w after) boundary_chars))"

definition match_rule :: "bank_line \<Rightarrow> rule \<Rightarrow> bool" where
  "match_rule line r = (
     if \<not> ru_approved r then False
     else let text = py_lower (raw_text line); pattern = py_lower (ru_pattern_value r) in
       if ru_pattern_type r = ''narration_keyword''
         then list_ex (keyword_at pattern text) [0..<Suc (length text)]
       else if ru_pattern_type r = ''bank_ref_prefix''
         then (if truthy (ln_bank_ref line) then prefix pattern (py_lower (the (ln_bank_ref line))) else False)
       else False)"

definition py_list_repr :: "string list \<Rightarrow> string" where
  "py_list_repr xs = ''['' @ py_join '', '' (map py_repr xs) @ '']''"

definition matching_rules :: "rule list \<Rightarrow> bank_line \<Rightarrow> rule list" where
  "matching_rules rules line = sort_key ru_rule_id (filter (match_rule line) (filter ru_approved rules))"

text \<open>The verdict of the rules on one line: none, a conflict, or the first matching rule.\<close>

definition rule_attribution :: "rule list \<Rightarrow> bank_line \<Rightarrow> attribution option" where
  "rule_attribution rules line = (if \<not> ln_is_credit line then None
     else case matching_rules rules line of [] \<Rightarrow> None
     | r # rs \<Rightarrow> let rails = remdups (map ru_target_rail (r # rs)) in
         if length rails > 1
         then Some (Abstention (ln_key line) 0 [EvidenceItem ''rule_conflict''
           (''conflicting approved rules target '' @ py_list_repr (sort rails) @ '': '' @
            py_list_repr (sort (map ru_rule_id (r # rs)))) 0])
         else Some (RailAttribution (ln_key line) (ru_target_rail r) (fl (95 / 100)) (tier_value TIER_RULE)
           [EvidenceItem ''human_approved_rule'' (''Matched rule '' @ ru_rule_id r @ '' (pattern '' @ [CHR 0x27] @
              ru_pattern_value r @ [CHR 0x27] @ '') approved by '' @
              (case ru_approved_by r of None \<Rightarrow> ''None'' | Some b \<Rightarrow> b)) (fl (95 / 100))]))"

definition apply_approved_rules :: "bank_line list \<Rightarrow> rule list \<Rightarrow> (string, attribution) dict" where
  "apply_approved_rules lines rules = (if filter ru_approved rules = [] then []
     else foldl (\<lambda>out line. case rule_attribution rules line of None \<Rightarrow> out
       | Some a \<Rightarrow> dset out (ln_key line) a) [] lines)"

subsection \<open>Lemmas\<close>

lemma matching_rulesD: "r \<in> set (matching_rules rules line) \<Longrightarrow> r \<in> set rules \<and> ru_approved r \<and> match_rule line r"
  by (simp add: matching_rules_def)

lemma rule_attribution_SomeD:
  assumes "rule_attribution rules line = Some a"
  shows "ln_is_credit line" and "a_line_key a = ln_key line"
    and "\<exists>r \<in> set rules. ru_approved r \<and> match_rule line r"
    and "\<not> a_abstained a \<longrightarrow> (\<exists>r \<in> set rules. ru_approved r \<and> match_rule line r \<and> a_rail a = ru_target_rail r) \<and>
      (\<forall>r \<in> set rules. ru_approved r \<and> match_rule line r \<longrightarrow> ru_target_rail r = a_rail a) \<and> a_tier a = tier_value TIER_RULE"
    and "a_abstained a \<longrightarrow> (\<exists>r \<in> set rules. \<exists>s \<in> set rules. ru_approved r \<and> ru_approved s \<and> match_rule line r \<and>
      match_rule line s \<and> ru_target_rail r \<noteq> ru_target_rail s)"
proof -
  from assms show credit: "ln_is_credit line" by (auto simp: rule_attribution_def split: if_splits)
  from assms obtain r rs where m: "matching_rules rules line = r # rs"
    by (auto simp: rule_attribution_def split: if_splits list.splits)
  let ?rails = "remdups (map ru_target_rail (r # rs))"
  have mem: "x \<in> set (r # rs) \<longleftrightarrow> x \<in> set rules \<and> ru_approved x \<and> match_rule line x" for x
    unfolding m [symmetric] by (auto simp: matching_rules_def)
  then show "\<exists>r \<in> set rules. ru_approved r \<and> match_rule line r" by (meson list.set_intros(1))
  have card: "length ?rails > 1 \<longleftrightarrow> (\<exists>x \<in> set (r # rs). \<exists>y \<in> set (r # rs). ru_target_rail x \<noteq> ru_target_rail y)"
    unfolding length_remdups_card_conv
    using card_le_Suc0_iff_eq [of "set (map ru_target_rail (r # rs))"] by (simp only: not_le [symmetric]) auto
  show "a_line_key a = ln_key line"
    using assms credit m by (auto simp: rule_attribution_def Let_def split: if_splits)
  have a: "a_abstained a \<longleftrightarrow> length ?rails > 1" and
    b: "\<not> a_abstained a \<Longrightarrow> a_rail a = ru_target_rail r \<and> a_tier a = tier_value TIER_RULE"
    using assms credit m unfolding rule_attribution_def Let_def by (auto split: if_splits)
  have rmem: "r \<in> set (r # rs)" by simp
  show "\<not> a_abstained a \<longrightarrow> (\<exists>r \<in> set rules. ru_approved r \<and> match_rule line r \<and> a_rail a = ru_target_rail r) \<and>
      (\<forall>r \<in> set rules. ru_approved r \<and> match_rule line r \<longrightarrow> ru_target_rail r = a_rail a) \<and> a_tier a = tier_value TIER_RULE"
    using a b card mem rmem by metis
  show "a_abstained a \<longrightarrow> (\<exists>r \<in> set rules. \<exists>s \<in> set rules. ru_approved r \<and> ru_approved s \<and> match_rule line r \<and>
      match_rule line s \<and> ru_target_rail r \<noteq> ru_target_rail s)"
    using a card mem by blast
qed

lemma apply_rules_SomeD:
  assumes "map_of (apply_approved_rules lines rules) k = Some a"
  shows "\<exists>line \<in> set lines. ln_key line = k \<and> rule_attribution rules line = Some a"
proof -
  let ?P = "\<lambda>d. \<forall>k a. map_of d k = Some a \<longrightarrow> (\<exists>line \<in> set lines. ln_key line = k \<and> rule_attribution rules line = Some a)"
  have "?P (foldl (\<lambda>out line. case rule_attribution rules line of None \<Rightarrow> out
       | Some a \<Rightarrow> dset out (ln_key line) a) [] lines)"
    by (rule foldl_invariant) (auto split: option.splits if_splits)
  with assms show ?thesis by (auto simp: apply_approved_rules_def split: if_splits)
qed

subsection \<open>Properties\<close>

text \<open>
  Rules are inert until approved, conservative and traceable: what \<open>apply_approved_rules\<close> records for a key
  comes from a credit line with that key that an approved rule matches. A verdict names the rail on which all
  matching approved rules agree; when they disagree the record is an abstention, never a pick.
\<close>

theorem rules_only_from_approved:
  assumes "map_of (apply_approved_rules lines rules) k = Some a"
  shows "\<exists>line \<in> set lines. ln_key line = k \<and> ln_is_credit line \<and>
    (\<exists>r \<in> set rules. ru_approved r \<and> match_rule line r) \<and>
    (if a_abstained a
     then \<exists>r \<in> set rules. \<exists>s \<in> set rules. ru_approved r \<and> ru_approved s \<and> match_rule line r \<and> match_rule line s \<and>
       ru_target_rail r \<noteq> ru_target_rail s
     else \<forall>r \<in> set rules. ru_approved r \<and> match_rule line r \<longrightarrow> ru_target_rail r = a_rail a)"
proof -
  obtain line where l: "line \<in> set lines" "ln_key line = k" "rule_attribution rules line = Some a"
    using apply_rules_SomeD [OF assms] by blast
  note f = rule_attribution_SomeD [OF l(3)]
  show ?thesis using l f by (intro bexI [of _ line]) auto
qed

definition sample_rule :: rule where
  "sample_rule = \<lparr>ru_rule_id = ''r1'', ru_version = 1, ru_target_rail = ''cod_remittance'',
     ru_pattern_type = ''narration_keyword'', ru_pattern_value = ''acme'', ru_created_at = ''t'', ru_proposed_by = ''system'',
     ru_approved = True, ru_approved_by = Some ''ops'', ru_approved_at = Some ''t'', ru_rationale = []\<rparr>"

definition rule_line :: bank_line where
  "rule_line = \<lparr>ln_key = ''k'', ln_value_date = 738887, ln_amount_paise = 1000, ln_narration = ''IMPS/ACME REMIT'',
     ln_bank_ref = None, ln_is_credit = True\<rparr>"

theorem rules_only_from_approved_witness:
  "\<exists>line \<in> set [rule_line]. ln_key line = ''k'' \<and> ln_is_credit line \<and> (\<exists>r \<in> set [sample_rule]. ru_approved r \<and> match_rule line r)"
proof -
  have "has_key (apply_approved_rules [rule_line] [sample_rule]) ''k''" by code_simp
  then obtain a where "map_of (apply_approved_rules [rule_line] [sample_rule]) ''k'' = Some a"
    by (auto simp: has_key_def)
  from rules_only_from_approved [OF this] show ?thesis by blast
qed

end
