(* ===== verification/Covered.thy ===== *)
theory Covered
  imports Models
begin

section \<open>Identity of covered rows (\<open>engine/covered.py\<close>)\<close>

text \<open>
  Canonical row ids and their resolution. \<open>id(row)\<close> is the position of the row in the report, so
  \<open>canonical_row_ids\<close> returns the list of ids aligned with the rows. The digest
  \<open>sha256(repr(sig)).hexdigest()[:16]\<close> is the parameter \<open>dig\<close>, a function of the signature; what the code
  relies on is \<open>digest_ok\<close>: 16 characters, and no collision among the signatures of one report.
  The locale \<open>row_resolver\<close> is what the accounting components need of a resolver; \<open>resolve_covered\<close> satisfies it.
\<close>

type_synonym row_sig = "(string \<times> string \<times> int \<times> int \<times> int \<times> int \<times> int) \<times>
  (string option \<times> string option \<times> string option \<times> string option) \<times>
  (bool \<times> string option \<times> string option \<times> string option \<times> string option)"

definition row_signature :: "recon_row \<Rightarrow> row_sig" where
  "row_signature r =
     ((r_type r, r_entity_id r, r_amount_paise r, r_fee_paise r, r_tax_paise r, r_debit_paise r, r_credit_paise r),
      (r_settlement_id r, r_settlement_utr r, map_option datetime_isoformat (r_settled_at r),
       map_option datetime_isoformat (r_created_at r)),
      (r_on_hold r, r_dispute_id r, r_order_id r, r_method r, r_description r))"

definition row_id_of :: "(row_sig \<Rightarrow> string) \<Rightarrow> row_sig \<Rightarrow> nat \<Rightarrow> string" where
  "row_id_of dig sig occ = ''row_'' @ dig sig @ ''_'' @ str_int (int occ)"

fun canonical_ids_from :: "(row_sig \<Rightarrow> string) \<Rightarrow> (row_sig, nat) dict \<Rightarrow> recon_row list \<Rightarrow> string list" where
  "canonical_ids_from dig seen [] = []"
| "canonical_ids_from dig seen (r # rs) = (let sig = row_signature r; occ = dget seen sig 0 in
     row_id_of dig sig occ # canonical_ids_from dig (dset seen sig (occ + 1)) rs)"

definition canonical_row_ids :: "(row_sig \<Rightarrow> string) \<Rightarrow> recon_row list \<Rightarrow> string list" where
  "canonical_row_ids dig rows = canonical_ids_from dig [] rows"

definition rows_by_canonical_id :: "(row_sig \<Rightarrow> string) \<Rightarrow> recon_row list \<Rightarrow> (string, recon_row) dict" where
  "rows_by_canonical_id dig rows = dict_of fst snd (zip (canonical_row_ids dig rows) rows)"

datatype covered_error = Count_Mismatch string | Duplicate_Row_Ids string | Row_Missing string string
  | Identity_Mismatch string string nat

fun resolve_rows :: "string \<Rightarrow> (string, recon_row) dict \<Rightarrow> nat \<Rightarrow> (string \<times> string \<times> string) list \<Rightarrow>
    covered_error + recon_row list" where
  "resolve_rows key by_id pos [] = Inr []"
| "resolve_rows key by_id pos ((rid, expected) # rest) = (case map_of by_id rid of
     None \<Rightarrow> Inl (Row_Missing key rid)
   | Some row \<Rightarrow> if (r_type row, r_entity_id row) \<noteq> expected then Inl (Identity_Mismatch key rid pos)
       else (case resolve_rows key by_id (Suc pos) rest of Inl e \<Rightarrow> Inl e | Inr rows \<Rightarrow> Inr (row # rows)))"

definition resolve_covered_rows_by_id :: "reconciliation \<Rightarrow> (string, recon_row) dict \<Rightarrow> covered_error + recon_row list" where
  "resolve_covered_rows_by_id rec by_id = (let row_ids = rc_covered_row_ids rec in
     if length row_ids \<noteq> length (rc_covered_entity_ids rec) then Inl (Count_Mismatch (rc_line_key rec))
     else if \<not> distinct row_ids then Inl (Duplicate_Row_Ids (rc_line_key rec))
     else resolve_rows (rc_line_key rec) by_id 0 (zip row_ids (rc_covered_entity_ids rec)))"

subsection \<open>Canonical ids\<close>

definition digest_ok :: "(row_sig \<Rightarrow> string) \<Rightarrow> recon_row list \<Rightarrow> bool" where
  "digest_ok dig rows \<longleftrightarrow> inj_on dig (row_signature ` set rows) \<and> (\<forall>r \<in> set rows. length (dig (row_signature r)) = 16)"

lemma str_int_inject: "str_int (int m) = str_int (int n) \<longleftrightarrow> m = n"
  by (simp add: str_int_def str_nn_inject)

lemma row_id_of_inject:
  assumes "length (dig s) = 16" and "length (dig t) = 16"
  shows "row_id_of dig s m = row_id_of dig t n \<longleftrightarrow> dig s = dig t \<and> m = n"
  using assms by (auto simp: row_id_of_def str_int_inject)

lemma length_canonical_ids_from [simp]: "length (canonical_ids_from dig seen rows) = length rows"
  by (induction rows arbitrary: seen) (simp_all add: Let_def)

lemma length_canonical_row_ids [simp]: "length (canonical_row_ids dig rows) = length rows"
  by (simp add: canonical_row_ids_def)

text \<open>The \<open>i\<close>-th id carries the number of earlier rows with the same signature.\<close>

lemma canonical_ids_from_nth:
  "i < length rows \<Longrightarrow> canonical_ids_from dig seen rows ! i =
     row_id_of dig (row_signature (rows ! i))
       (dget seen (row_signature (rows ! i)) 0 + count_list (map row_signature (take i rows)) (row_signature (rows ! i)))"
proof (induction rows arbitrary: seen i)
  case (Cons r rows)
  then show ?case by (cases i) (simp_all add: Let_def)
qed simp

lemma canonical_row_ids_nth:
  "i < length rows \<Longrightarrow> canonical_row_ids dig rows ! i =
     row_id_of dig (row_signature (rows ! i)) (count_list (map row_signature (take i rows)) (row_signature (rows ! i)))"
  by (simp add: canonical_row_ids_def canonical_ids_from_nth dget_def)

lemma count_list_take_less:
  assumes "i < j" "j \<le> length xs" "xs ! i = s"
  shows "count_list (take i xs) s < count_list (take j xs) s"
proof -
  have "count_list (take j xs) s = count_list (take i xs) s + count_list (take (j - i) (drop i xs)) s"
    using assms by (metis add_diff_inverse_nat count_list_append nat_less_le not_less_iff_gr_or_eq take_add)
  moreover have "take (j - i) (drop i xs) = xs ! i # take (j - i - 1) (drop (Suc i) xs)"
    using assms by (cases "j - i") (simp_all add: Cons_nth_drop_Suc [symmetric])
  ultimately show ?thesis using assms by simp
qed

lemma distinct_canonical_row_ids:
  assumes ok: "digest_ok dig rows"
  shows "distinct (canonical_row_ids dig rows)"
proof (rule distinct_conv_nth [THEN iffD2], intro allI impI)
  have main: "canonical_row_ids dig rows ! i \<noteq> canonical_row_ids dig rows ! j" if ij: "i < j" "j < length rows" for i j
  proof
    assume eq: "canonical_row_ids dig rows ! i = canonical_row_ids dig rows ! j"
    let ?s = "\<lambda>k. row_signature (rows ! k)"
    have mem: "rows ! i \<in> set rows" "rows ! j \<in> set rows" using ij by auto
    have len: "length (dig (?s i)) = 16" "length (dig (?s j)) = 16" using ok mem by (auto simp: digest_ok_def)
    have "dig (?s i) = dig (?s j)"
      and occ: "count_list (map row_signature (take i rows)) (?s i) = count_list (map row_signature (take j rows)) (?s j)"
      using eq ij by (simp_all add: canonical_row_ids_nth row_id_of_inject [OF len])
    then have "?s i = ?s j" using ok mem by (auto simp: digest_ok_def inj_on_def)
    moreover have "count_list (take i (map row_signature rows)) (?s i) < count_list (take j (map row_signature rows)) (?s i)"
      using ij by (intro count_list_take_less) simp_all
    ultimately show False using occ by (simp add: take_map)
  qed
  fix i j assume "i < length (canonical_row_ids dig rows)" "j < length (canonical_row_ids dig rows)" "i \<noteq> j"
  then show "canonical_row_ids dig rows ! i \<noteq> canonical_row_ids dig rows ! j"
    using main [of i j] main [of j i] by (metis length_canonical_row_ids nat_neq_iff)
qed

lemma rows_by_canonical_id_nth:
  assumes "digest_ok dig rows" and "i < length rows"
  shows "map_of (rows_by_canonical_id dig rows) (canonical_row_ids dig rows ! i) = Some (rows ! i)"
proof -
  have "distinct (map fst (zip (canonical_row_ids dig rows) rows))"
    using distinct_canonical_row_ids [OF assms(1)] by simp
  moreover have "(canonical_row_ids dig rows ! i, rows ! i) \<in> set (zip (canonical_row_ids dig rows) rows)"
    using assms(2) by (auto simp: set_zip)
  ultimately have "map_of (dict_of fst snd (zip (canonical_row_ids dig rows) rows)) (fst (canonical_row_ids dig rows ! i, rows ! i)) =
      Some (snd (canonical_row_ids dig rows ! i, rows ! i))"
    by (rule map_of_dict_of_distinct)
  then show ?thesis by (simp add: rows_by_canonical_id_def)
qed

subsection \<open>Resolution\<close>

lemma resolve_rows_InrD:
  "resolve_rows key by_id pos xs = Inr rows \<Longrightarrow> length rows = length xs \<and>
     (\<forall>i < length xs. map_of by_id (fst (xs ! i)) = Some (rows ! i) \<and>
        (r_type (rows ! i), r_entity_id (rows ! i)) = snd (xs ! i))"
proof (induction key by_id pos xs arbitrary: rows rule: resolve_rows.induct)
  case (2 key by_id pos rid expected rest)
  from "2.prems" obtain row rows' where row: "map_of by_id rid = Some row" "(r_type row, r_entity_id row) = expected"
    and rest: "resolve_rows key by_id (Suc pos) rest = Inr rows'" and rows: "rows = row # rows'"
    by (auto split: option.splits if_splits sum.splits)
  from "2.IH" [OF row(1) _ rest] row(2) have ih: "length rows' = length rest"
    "\<forall>i < length rest. map_of by_id (fst (rest ! i)) = Some (rows' ! i) \<and>
        (r_type (rows' ! i), r_entity_id (rows' ! i)) = snd (rest ! i)" by auto
  show ?case using ih row rows by (auto simp: nth_Cons split: nat.split)
qed simp

lemma resolve_covered_InrD:
  assumes "resolve_covered_rows_by_id rec by_id = Inr rows"
  shows "distinct (rc_covered_row_ids rec)" and "length rows = length (rc_covered_row_ids rec)"
    and "map (\<lambda>r. (r_type r, r_entity_id r)) rows = rc_covered_entity_ids rec"
    and "map (map_of by_id) (rc_covered_row_ids rec) = map Some rows"
proof -
  from assms have len: "length (rc_covered_row_ids rec) = length (rc_covered_entity_ids rec)"
    and d: "distinct (rc_covered_row_ids rec)"
    and r: "resolve_rows (rc_line_key rec) by_id 0 (zip (rc_covered_row_ids rec) (rc_covered_entity_ids rec)) = Inr rows"
    by (auto simp: resolve_covered_rows_by_id_def Let_def split: if_splits)
  show "distinct (rc_covered_row_ids rec)" by fact
  note f = resolve_rows_InrD [OF r]
  show l: "length rows = length (rc_covered_row_ids rec)" using f len by simp
  show "map (\<lambda>r. (r_type r, r_entity_id r)) rows = rc_covered_entity_ids rec"
    using f len l by (intro nth_equalityI) auto
  show "map (map_of by_id) (rc_covered_row_ids rec) = map Some rows"
    using f len l by (intro nth_equalityI) auto
qed

text \<open>What the accounting components rely on: every covered row exactly once, and the row its id stands for.\<close>

locale row_resolver =
  fixes resolve :: "reconciliation \<Rightarrow> covered_error + recon_row list"
    and known :: "string \<Rightarrow> recon_row option"
  assumes ids_distinct: "resolve rec = Inr rows \<Longrightarrow> distinct (rc_covered_row_ids rec)"
    and ids_known: "resolve rec = Inr rows \<Longrightarrow> map known (rc_covered_row_ids rec) = map Some rows"
    and entities: "resolve rec = Inr rows \<Longrightarrow> map (\<lambda>r. (r_type r, r_entity_id r)) rows = rc_covered_entity_ids rec"
begin

lemma sum_once:
  assumes "resolve rec = Inr rows"
  shows "sum_list (map f rows) = (\<Sum>rid \<in> set (rc_covered_row_ids rec). f (the (known rid)) :: int)"
proof -
  have "map f rows = map (\<lambda>x. f (the x)) (map Some rows)" by simp
  also have "\<dots> = map (\<lambda>rid. f (the (known rid))) (rc_covered_row_ids rec)"
    unfolding ids_known [OF assms, symmetric] by simp
  finally show ?thesis using ids_distinct [OF assms] by (simp add: sum_list_distinct_conv_sum_set)
qed

end

interpretation resolver: row_resolver "\<lambda>rec. resolve_covered_rows_by_id rec by_id" "map_of by_id" for by_id
  by unfold_locales (auto dest: resolve_covered_InrD)

subsection \<open>Independence of the order of the report\<close>

lemma count_list_nth_ex:
  "occ < count_list xs s \<Longrightarrow> \<exists>i < length xs. xs ! i = s \<and> count_list (take i xs) s = occ"
proof (induction xs rule: rev_induct)
  case (snoc x xs)
  show ?case
  proof (cases "occ < count_list xs s")
    case True
    then obtain i where "i < length xs" "xs ! i = s" "count_list (take i xs) s = occ" using snoc.IH by blast
    then show ?thesis by (intro exI [of _ i]) (simp add: nth_append)
  next
    case False
    with snoc.prems have "x = s" "occ = count_list xs s" by (auto split: if_splits)
    then show ?thesis by (intro exI [of _ "length xs"]) simp
  qed
qed simp

lemma canonical_id_sig:
  assumes "digest_ok dig rows"
  shows "map_option row_signature (map_of (rows_by_canonical_id dig rows) rid) = Some s \<longleftrightarrow>
    (\<exists>occ < count_list (map row_signature rows) s. rid = row_id_of dig s occ)"
proof
  assume "map_option row_signature (map_of (rows_by_canonical_id dig rows) rid) = Some s"
  then obtain r where r: "map_of (rows_by_canonical_id dig rows) rid = Some r" "row_signature r = s" by auto
  from map_of_dict_of_SomeD [OF r(1) [unfolded rows_by_canonical_id_def]]
  obtain i where i: "i < length rows" "canonical_row_ids dig rows ! i = rid" "rows ! i = r"
    by (auto simp: set_zip)
  have "count_list (take i (map row_signature rows)) s < count_list (take (length rows) (map row_signature rows)) s"
    using i r by (intro count_list_take_less) auto
  then show "\<exists>occ < count_list (map row_signature rows) s. rid = row_id_of dig s occ"
    using i r canonical_row_ids_nth [OF i(1)] by (auto simp: take_map)
next
  assume "\<exists>occ < count_list (map row_signature rows) s. rid = row_id_of dig s occ"
  then obtain i where i: "i < length rows" "row_signature (rows ! i) = s"
      "rid = row_id_of dig s (count_list (take i (map row_signature rows)) s)"
    using count_list_nth_ex [of _ "map row_signature rows" s] by fastforce
  then have "canonical_row_ids dig rows ! i = rid" by (simp add: canonical_row_ids_nth take_map)
  then show "map_option row_signature (map_of (rows_by_canonical_id dig rows) rid) = Some s"
    using rows_by_canonical_id_nth [OF assms i(1)] i(2) by simp
qed

lemma count_list_mset: "mset xs = mset ys \<Longrightarrow> count_list xs s = count_list ys s"
proof -
  have "count_list zs s = count (mset zs) s" for zs by (induction zs) auto
  then show "mset xs = mset ys \<Longrightarrow> count_list xs s = count_list ys s" by simp
qed

subsection \<open>Properties\<close>

text \<open>
  Canonical ids identify rows: under a digest without collisions on the report's signatures, the ids of one
  report are pairwise different and the inverse map returns, for the id of a row, that very row.
\<close>

theorem canonical_ids_identify_rows:
  assumes "digest_ok dig rows"
  shows "distinct (canonical_row_ids dig rows) \<and>
    (\<forall>i < length rows. map_of (rows_by_canonical_id dig rows) (canonical_row_ids dig rows ! i) = Some (rows ! i))"
  using distinct_canonical_row_ids [OF assms] rows_by_canonical_id_nth [OF assms] by blast

definition sample_digest :: "row_sig \<Rightarrow> string" where
  "sample_digest sig = take 16 (fst (snd (fst sig)) @ replicate 16 (CHR ''0''))"

lemma sample_digest_ok: "digest_ok sample_digest [sample_row, sample_row2]"
proof -
  have "sample_digest (row_signature sample_row) \<noteq> sample_digest (row_signature sample_row2)"
    "length (sample_digest (row_signature sample_row)) = 16" "length (sample_digest (row_signature sample_row2)) = 16"
    by code_simp+
  then show ?thesis by (auto simp: digest_ok_def)
qed

theorem canonical_ids_identify_rows_witness:
  "distinct (canonical_row_ids sample_digest [sample_row, sample_row2]) \<and>
   map_of (rows_by_canonical_id sample_digest [sample_row, sample_row2])
     (canonical_row_ids sample_digest [sample_row, sample_row2] ! 1) = Some sample_row2"
  using canonical_ids_identify_rows [OF sample_digest_ok] by fastforce

text \<open>
  Reordering the report does not rebind an id to a different signature: for two orders of the same rows, an id
  is bound in both or in neither, and to rows that agree on every field of the signature.
\<close>

theorem canonical_ids_order_independent:
  assumes "digest_ok dig rows" and "mset rows' = mset rows"
  shows "map_option row_signature (map_of (rows_by_canonical_id dig rows') rid) =
         map_option row_signature (map_of (rows_by_canonical_id dig rows) rid)"
proof -
  have "set rows' = set rows" using assms(2) by (rule mset_eq_setD)
  then have ok': "digest_ok dig rows'" using assms(1) by (simp add: digest_ok_def)
  have "count_list (map row_signature rows') s = count_list (map row_signature rows) s" for s
    using assms(2) by (intro count_list_mset) simp
  then have "map_option row_signature (map_of (rows_by_canonical_id dig rows') rid) = Some s \<longleftrightarrow>
      map_option row_signature (map_of (rows_by_canonical_id dig rows) rid) = Some s" for s
    by (simp only: canonical_id_sig [OF assms(1)] canonical_id_sig [OF ok'])
  then show ?thesis by (metis option.exhaust)
qed

theorem canonical_ids_order_independent_witness:
  "map_option row_signature (map_of (rows_by_canonical_id sample_digest [sample_row2, sample_row]) ''row_pay_100000000000_0'') =
   map_option row_signature (map_of (rows_by_canonical_id sample_digest [sample_row, sample_row2]) ''row_pay_100000000000_0'')"
  by (rule canonical_ids_order_independent [OF sample_digest_ok]) simp

text \<open>
  C15. The resolver fails closed: it returns rows only when the covered ids are pairwise different, there is one per
  covered entity, each is known, and the row it stands for has the entity recorded at the same position; the
  returned rows are exactly those, in order.
\<close>

theorem resolve_covered_fails_closed:
  assumes "resolve_covered_rows_by_id rec by_id = Inr rows"
  shows "distinct (rc_covered_row_ids rec) \<and> map (map_of by_id) (rc_covered_row_ids rec) = map Some rows \<and>
    map (\<lambda>r. (r_type r, r_entity_id r)) rows = rc_covered_entity_ids rec"
  using resolve_covered_InrD [OF assms] by blast

definition sample_covered :: reconciliation where
  "sample_covered = \<lparr>rc_line_key = ''k1'', rc_covered_entity_ids = [(''payment'', ''pay_1'')], rc_covered_net_paise = 97640,
     rc_credit_amount_paise = 97640, rc_residual_paise = 0, rc_balanced = True,
     rc_covered_row_ids = [''row_pay_100000000000_0'']\<rparr>"

theorem resolve_covered_fails_closed_witness:
  "distinct (rc_covered_row_ids sample_covered) \<and>
   map (map_of (rows_by_canonical_id sample_digest [sample_row, sample_row2])) (rc_covered_row_ids sample_covered) =
     map Some [sample_row]"
proof -
  have "(case resolve_covered_rows_by_id sample_covered (rows_by_canonical_id sample_digest [sample_row, sample_row2])
      of Inl _ \<Rightarrow> False | Inr rows \<Rightarrow> rows = [sample_row])"
    by code_simp
  then have "resolve_covered_rows_by_id sample_covered (rows_by_canonical_id sample_digest [sample_row, sample_row2]) =
      Inr [sample_row]"
    by (auto split: sum.splits)
  from resolve_covered_fails_closed [OF this] show ?thesis by blast
qed

text \<open>
  The captured and authorised amounts are not part of the signature, so two rows that differ only there share
  it and are told apart by position: exchanging them rebinds both ids to the other row's capture evidence.
\<close>

theorem capture_evidence_rebound:
  "row_signature (sample_row\<lparr>r_captured_amount_paise := Some c\<rparr>) = row_signature sample_row \<and>
   map_of (rows_by_canonical_id dig [sample_row\<lparr>r_captured_amount_paise := Some c\<rparr>, sample_row])
     (row_id_of dig (row_signature sample_row) 0) = Some (sample_row\<lparr>r_captured_amount_paise := Some c\<rparr>) \<and>
   map_of (rows_by_canonical_id dig [sample_row, sample_row\<lparr>r_captured_amount_paise := Some c\<rparr>])
     (row_id_of dig (row_signature sample_row) 0) = Some sample_row"
proof -
  have sig: "row_signature (sample_row\<lparr>r_captured_amount_paise := Some c\<rparr>) = row_signature sample_row"
    by (simp add: row_signature_def)
  have ne: "row_id_of dig s (Suc 0) \<noteq> row_id_of dig s 0" for s
    using str_int_inject [of 1 0] by (simp add: row_id_of_def)
  show ?thesis
    using ne ne [symmetric] by (simp add: sig rows_by_canonical_id_def canonical_row_ids_def Let_def dget_def dict_of_def)
qed

end
