(* ===== verification/Reconcile.thy ===== *)
theory Reconcile
  imports Attribute Covered
begin

section \<open>Settlement reconciliation (\<open>engine/reconcile.py\<close>)\<close>

text \<open>
  The settlement-grouped view of the report, the coverage of one credit, and the two passes of \<open>reconcile\<close> with
  their shared state: results, used settlements, resolved lines, and the line sets the index collects. A row is
  kept with its canonical id, so \<open>row_ids[id(r)]\<close> is the first component of the pair.
\<close>

definition DRIFT_TOLERANCE_PAISE :: int where
  "DRIFT_TOLERANCE_PAISE = 100"

record settlement_index =
  si_rows_by_sid :: "(string, (string \<times> recon_row) list) dict"
  si_utr_to_sid :: "(string, string) dict"
  si_net_by_sid :: "(string, int) dict"
  si_date_by_sid :: "(string, date) dict"
  si_net_to_sids :: "(int, string list) dict"
  si_ambiguous_lines :: "string list"
  si_un_enumerable_lines :: "string list"
  si_duplicate_or_split_lines :: "string list"
  si_unbalanced_lines :: "(string, int) dict"
  si_uncredited_sids :: "string list"

definition sindex_row :: "settlement_index \<Rightarrow> string \<times> recon_row \<Rightarrow> settlement_index" where
  "sindex_row si ir = (case ir of (rid, r) \<Rightarrow>
     if \<not> truthy (r_settlement_id r) then si
     else let sid = str_of_opt (r_settlement_id r) in
       si\<lparr>si_rows_by_sid := dappend (si_rows_by_sid si) sid (rid, r),
          si_net_by_sid := dset (si_net_by_sid si) sid (dget (si_net_by_sid si) sid 0 + net_paise r),
          si_utr_to_sid := (if truthy (r_settlement_utr r)
             then setdefault (si_utr_to_sid si) (py_lower (str_of_opt (r_settlement_utr r))) sid else si_utr_to_sid si),
          si_date_by_sid := (case r_settled_at r of None \<Rightarrow> si_date_by_sid si
             | Some t \<Rightarrow> dset (si_date_by_sid si) sid (dt_date t))\<rparr>)"

definition empty_sindex :: settlement_index where
  "empty_sindex = \<lparr>si_rows_by_sid = [], si_utr_to_sid = [], si_net_by_sid = [], si_date_by_sid = [], si_net_to_sids = [],
     si_ambiguous_lines = [], si_un_enumerable_lines = [], si_duplicate_or_split_lines = [], si_unbalanced_lines = [],
     si_uncredited_sids = []\<rparr>"

definition SettlementIndex :: "(row_sig \<Rightarrow> string) \<Rightarrow> recon_row list \<Rightarrow> settlement_index" where
  "SettlementIndex dig rows = (let si = foldl sindex_row empty_sindex (zip (canonical_row_ids dig rows) rows) in
     si\<lparr>si_net_to_sids := foldl (\<lambda>d (sid, n). dappend d n sid) [] (si_net_by_sid si)\<rparr>)"

definition within_window :: "settlement_index \<Rightarrow> string \<Rightarrow> bank_line \<Rightarrow> bool" where
  "within_window si sid line \<longleftrightarrow> (case map_of (si_date_by_sid si) sid of None \<Rightarrow> False
     | Some d \<Rightarrow> days_apart (ln_value_date line) d \<le> 5)"

fun first_sid :: "settlement_index \<Rightarrow> string list \<Rightarrow> string option" where
  "first_sid si [] = None"
| "first_sid si (tok # toks) = (case map_of (si_utr_to_sid si) (py_lower tok) of
     Some sid \<Rightarrow> Some sid | None \<Rightarrow> first_sid si toks)"

definition utr_sid :: "(string \<Rightarrow> string) \<Rightarrow> settlement_index \<Rightarrow> bank_line \<Rightarrow> string option" where
  "utr_sid nf si line = first_sid si (extract_utr_tokens nf (raw_text line))"

subsection \<open>\<open>amount_or_setsum_sids\<close>\<close>

text \<open>Appending a subset unless its frozenset was seen.\<close>

definition add_unseen :: "string list list \<Rightarrow> string list \<Rightarrow> string list list" where
  "add_unseen subsets s = (if list_ex (\<lambda>t. set t = set s) subsets then subsets else subsets @ [s])"

definition coverage_singles :: "settlement_index \<Rightarrow> bank_line \<Rightarrow> string list \<Rightarrow> string list list" where
  "coverage_singles si line used = foldl add_unseen [] (map (\<lambda>sid. [sid])
     (filter (\<lambda>sid. sid \<notin> set used \<and> within_window si sid line) (dget (si_net_to_sids si) (ln_amount_paise line) [])))"

definition coverage_cands :: "settlement_index \<Rightarrow> bank_line \<Rightarrow> string list \<Rightarrow> (string \<times> int) list" where
  "coverage_cands si line used = filter (\<lambda>(sid, n). sid \<notin> set used \<and> 0 < n \<and> n < ln_amount_paise line \<and>
     within_window si sid line) (si_net_by_sid si)"

text \<open>
  The result and the index with the line recorded as ambiguous or not enumerable. The searches cannot raise on
  this pool (\<open>coverage_search_returns\<close>).
\<close>

definition amount_or_setsum_sids :: "settlement_index \<Rightarrow> bank_line \<Rightarrow> string list \<Rightarrow> string list \<times> settlement_index" where
  "amount_or_setsum_sids si line used = (
     let singles = coverage_singles si line used; cands = coverage_cands si line used;
         finish = (\<lambda>subsets. if length subsets > 1
            then ([], si\<lparr>si_ambiguous_lines := set_add (ln_key line) (si_ambiguous_lines si)\<rparr>)
            else case subsets of [s] \<Rightarrow> (s, si) | _ \<Rightarrow> ([], si))
     in if cands \<noteq> [] \<and> length cands \<le> SETSUM_MAX_CANDIDATES
        then (case setsum_search cands (ln_amount_paise line) of Inl _ \<Rightarrow> ([], si)
          | Inr search \<Rightarrow> if bs_exhausted search
              then ([], si\<lparr>si_un_enumerable_lines := set_add (ln_key line) (si_un_enumerable_lines si)\<rparr>)
              else finish (foldl add_unseen singles (bs_subsets search)))
        else finish singles)"

subsection \<open>\<open>_make_result\<close>\<close>

definition covered_rows_of :: "settlement_index \<Rightarrow> string list \<Rightarrow> (string \<times> recon_row) list" where
  "covered_rows_of si sids = concat (map (\<lambda>s. dget (si_rows_by_sid si) s []) sids)"

definition make_result :: "bank_line \<Rightarrow> string list \<Rightarrow> settlement_index \<Rightarrow> reconciliation option" where
  "make_result line sids si = (
     let covered = covered_rows_of si sids; covered_net = sum_list (map (net_paise \<circ> snd) covered);
         residual = ln_amount_paise line - covered_net
     in if \<bar>residual\<bar> > DRIFT_TOLERANCE_PAISE then None
        else Some \<lparr>rc_line_key = ln_key line, rc_covered_entity_ids = map (\<lambda>(_, r). (r_type r, r_entity_id r)) covered,
          rc_covered_net_paise = covered_net, rc_credit_amount_paise = ln_amount_paise line,
          rc_residual_paise = residual, rc_balanced = True, rc_covered_row_ids = map fst covered\<rparr>)"

subsection \<open>\<open>reconcile\<close>\<close>

record rec_state =
  rs_results :: "reconciliation list"
  rs_used :: "string list"
  rs_resolved :: "string list"
  rs_index :: settlement_index

definition rzp_slice :: "(string, bank_line) dict \<Rightarrow> attribution list \<Rightarrow> attribution list" where
  "rzp_slice lines_by_key attributions = filter (\<lambda>a. a_rail a = rail_value RAZORPAY_SETTLEMENT \<and> \<not> a_abstained a \<and>
     has_key lines_by_key (a_line_key a)) attributions"

definition line_of :: "(string, bank_line) dict \<Rightarrow> string \<Rightarrow> bank_line" where
  "line_of lines_by_key k = the (map_of lines_by_key k)"

definition utr_claims :: "(string \<Rightarrow> string) \<Rightarrow> (string, bank_line) dict \<Rightarrow> settlement_index \<Rightarrow> attribution list \<Rightarrow>
    (string, string list) dict" where
  "utr_claims nf lines_by_key si rzp = foldl (\<lambda>d a. case utr_sid nf si (line_of lines_by_key (a_line_key a)) of
     None \<Rightarrow> d | Some sid \<Rightarrow> dappend d sid (a_line_key a)) [] rzp"

definition pass1_step :: "(string, bank_line) dict \<Rightarrow> rec_state \<Rightarrow> string \<times> string list \<Rightarrow> rec_state" where
  "pass1_step lines_by_key st claim = (case claim of (sid, keys) \<Rightarrow>
     if length keys > 1
     then st\<lparr>rs_index := (rs_index st)\<lparr>si_duplicate_or_split_lines :=
            foldl (\<lambda>s k. set_add k s) (si_duplicate_or_split_lines (rs_index st)) keys\<rparr>\<rparr>
     else let line_key = hd keys; line = line_of lines_by_key line_key in
       case make_result line [sid] (rs_index st) of None \<Rightarrow> st
       | Some res \<Rightarrow> st\<lparr>rs_results := rs_results st @ [res], rs_used := set_add sid (rs_used st),
           rs_resolved := set_add line_key (rs_resolved st)\<rparr>)"

definition pass2_step :: "(string, bank_line) dict \<Rightarrow> rec_state \<Rightarrow> attribution \<Rightarrow> rec_state" where
  "pass2_step lines_by_key st a = (
     if a_line_key a \<in> set (rs_resolved st) \<or> a_line_key a \<in> set (si_duplicate_or_split_lines (rs_index st)) then st
     else let line = line_of lines_by_key (a_line_key a) in
       case amount_or_setsum_sids (rs_index st) line (rs_used st) of (sids, si') \<Rightarrow>
         if sids = [] then st\<lparr>rs_index := si'\<rparr>
         else (case make_result line sids si' of None \<Rightarrow> st\<lparr>rs_index := si'\<rparr>
           | Some res \<Rightarrow> st\<lparr>rs_results := rs_results st @ [res], rs_used := foldl (\<lambda>s x. set_add x s) (rs_used st) sids,
               rs_resolved := set_add (a_line_key a) (rs_resolved st), rs_index := si'\<rparr>))"

definition classify_step :: "(string \<Rightarrow> string) \<Rightarrow> (string, bank_line) dict \<Rightarrow> settlement_index \<Rightarrow> string \<Rightarrow> settlement_index" where
  "classify_step nf lines_by_key si u = (let line = line_of lines_by_key u; sid = utr_sid nf si line in
     if truthy sid \<and> has_key (si_rows_by_sid si) (the sid)
     then let covered_net = sum_list (map (net_paise \<circ> snd) (dget (si_rows_by_sid si) (the sid) [])) in
       if ln_amount_paise line < covered_net
       then si\<lparr>si_duplicate_or_split_lines := set_add u (si_duplicate_or_split_lines si)\<rparr>
       else si\<lparr>si_unbalanced_lines := dset (si_unbalanced_lines si) u (ln_amount_paise line - covered_net)\<rparr>
     else si)"

definition passes :: "(string \<Rightarrow> string) \<Rightarrow> (row_sig \<Rightarrow> string) \<Rightarrow> (string, bank_line) dict \<Rightarrow> attribution list \<Rightarrow>
    recon_row list \<Rightarrow> rec_state" where
  "passes nf dig lines_by_key rzp rows = (
     let si = SettlementIndex dig rows;
         st0 = \<lparr>rs_results = [], rs_used = [], rs_resolved = [], rs_index = si\<rparr>;
         st1 = foldl (pass1_step lines_by_key) st0 (utr_claims nf lines_by_key si rzp)
     in foldl (pass2_step lines_by_key) st1 rzp)"

definition index_of :: "string \<Rightarrow> string list \<Rightarrow> nat" where
  "index_of k ks = (case map_of (dict_of snd fst (zip [0..<length ks] ks)) k of None \<Rightarrow> 0 | Some i \<Rightarrow> i)"

definition reconcile :: "(string \<Rightarrow> string) \<Rightarrow> (row_sig \<Rightarrow> string) \<Rightarrow> (string, bank_line) dict \<Rightarrow> attribution list \<Rightarrow>
    recon_row list \<Rightarrow> reconciliation list \<times> string list \<times> settlement_index" where
  "reconcile nf dig lines_by_key attributions rows = (
     let rzp = rzp_slice lines_by_key attributions; st = passes nf dig lines_by_key rzp rows;
         unresolved = map a_line_key (filter (\<lambda>a. a_line_key a \<notin> set (rs_resolved st)) rzp);
         si = foldl (classify_step nf lines_by_key) (rs_index st) unresolved;
         si' = si\<lparr>si_uncredited_sids := filter (\<lambda>s. s \<notin> set (rs_used st)) (map fst (si_rows_by_sid si))\<rparr>
     in (sort_key (\<lambda>r. index_of (rc_line_key r) (map a_line_key rzp)) (rs_results st), unresolved, si'))"

subsection \<open>The index\<close>

definition tagged_rows :: "(row_sig \<Rightarrow> string) \<Rightarrow> recon_row list \<Rightarrow> (string \<times> recon_row) list" where
  "tagged_rows dig rows = zip (canonical_row_ids dig rows) rows"

definition group :: "string \<Rightarrow> (string \<times> recon_row) list \<Rightarrow> (string \<times> recon_row) list" where
  "group sid trs = filter (\<lambda>(_, r). r_settlement_id r = Some sid \<and> sid \<noteq> []) trs"

lemma sindex_fold_rows:
  "dget (si_rows_by_sid (foldl sindex_row si trs)) sid [] = dget (si_rows_by_sid si) sid [] @ group sid trs"
proof (induction trs arbitrary: si)
  case (Cons tr trs)
  obtain rid r where tr: "tr = (rid, r)" by (cases tr)
  have "dget (si_rows_by_sid (sindex_row si tr)) sid [] = dget (si_rows_by_sid si) sid [] @ group sid [tr]"
    by (cases "r_settlement_id r") (auto simp: sindex_row_def tr group_def Let_def dget_dappend str_of_opt_def)
  then show ?case by (simp add: Cons.IH) (simp add: group_def)
qed (simp add: group_def)

lemma sindex_fold_dicts:
  "dict_ok (si_net_by_sid si) \<and> dict_ok (si_rows_by_sid si) \<and> fst ` set (si_net_by_sid si) = fst ` set (si_rows_by_sid si) \<Longrightarrow>
   dict_ok (si_net_by_sid (foldl sindex_row si trs)) \<and> dict_ok (si_rows_by_sid (foldl sindex_row si trs)) \<and>
   fst ` set (si_net_by_sid (foldl sindex_row si trs)) = fst ` set (si_rows_by_sid (foldl sindex_row si trs))"
proof (induction trs arbitrary: si)
  case (Cons tr trs)
  have "dict_ok (si_net_by_sid (sindex_row si tr)) \<and> dict_ok (si_rows_by_sid (sindex_row si tr)) \<and>
      fst ` set (si_net_by_sid (sindex_row si tr)) = fst ` set (si_rows_by_sid (sindex_row si tr))"
    using Cons.prems by (cases tr) (simp add: sindex_row_def Let_def)
  from Cons.IH [OF this] show ?case by simp
qed simp

lemma SettlementIndex_rows:
  "dget (si_rows_by_sid (SettlementIndex dig rows)) sid [] = group sid (tagged_rows dig rows)"
  by (simp add: SettlementIndex_def Let_def sindex_fold_rows tagged_rows_def) (simp add: empty_sindex_def dget_def)

lemma SettlementIndex_dict: "dict_ok (si_net_by_sid (SettlementIndex dig rows))"
  using sindex_fold_dicts [of empty_sindex "zip (canonical_row_ids dig rows) rows"]
  by (simp add: SettlementIndex_def Let_def empty_sindex_def)

lemma group_distinct:
  assumes "distinct (map fst trs)" and "distinct sids"
  shows "distinct (concat (map (\<lambda>s. map fst (group s trs)) sids))"
  using assms(2)
proof (induction sids)
  case (Cons s sids)
  have d: "distinct (map fst (group s trs))" using assms(1) by (simp add: group_def distinct_map_filter)
  have "fst x \<noteq> fst y" if "x \<in> set (group s trs)" "t \<noteq> s" "y \<in> set (group t trs)" for x y t
  proof
    assume eq: "fst x = fst y"
    have "x \<in> set trs" "y \<in> set trs" using that by (auto simp: group_def)
    with eq assms(1) have "x = y" by (metis eq_key_imp_eq_value prod.collapse)
    with that show False by (auto simp: group_def)
  qed
  with Cons d show ?case by fastforce
qed simp

subsection \<open>The coverage of one credit\<close>

text \<open>The part of the index no pass changes.\<close>

definition same_static :: "settlement_index \<Rightarrow> settlement_index \<Rightarrow> bool" where
  "same_static si sj \<longleftrightarrow> si_rows_by_sid si = si_rows_by_sid sj \<and> si_utr_to_sid si = si_utr_to_sid sj \<and>
     si_net_by_sid si = si_net_by_sid sj \<and> si_date_by_sid si = si_date_by_sid sj \<and> si_net_to_sids si = si_net_to_sids sj"

definition orderly :: "settlement_index \<Rightarrow> bool" where
  "orderly si \<longleftrightarrow> length (si_net_by_sid si) \<le> 16 \<or> sorted_wrt (<) (map fst (si_net_by_sid si))"

lemma coverage_cands_facts:
  assumes "dict_ok (si_net_by_sid si)"
  shows "items_ok (coverage_cands si line used)"
    and "coverage_cands si line used \<noteq> [] \<Longrightarrow> 0 < ln_amount_paise line"
    and "fst ` set (coverage_cands si line used) \<inter> set used = {}"
    and "orderly si \<Longrightarrow> bounded_pool (coverage_cands si line used) \<or> ascending_pool (coverage_cands si line used)"
proof -
  show ok: "items_ok (coverage_cands si line used)"
    using assms by (auto simp: items_ok_def coverage_cands_def dict_ok_def distinct_map_filter)
  show "coverage_cands si line used \<noteq> [] \<Longrightarrow> 0 < ln_amount_paise line"
    by (auto simp: coverage_cands_def filter_empty_conv)
  show "fst ` set (coverage_cands si line used) \<inter> set used = {}" by (auto simp: coverage_cands_def)
  have "length (coverage_cands si line used) \<le> length (si_net_by_sid si)" by (simp add: coverage_cands_def)
  moreover have "sorted_wrt (<) (map fst (si_net_by_sid si)) \<Longrightarrow> sorted_wrt (<) (map fst (coverage_cands si line used))"
    by (simp add: coverage_cands_def sorted_wrt_map sorted_wrt_filter)
  ultimately show "orderly si \<Longrightarrow> bounded_pool (coverage_cands si line used) \<or> ascending_pool (coverage_cands si line used)"
    using ok by (auto simp: orderly_def bounded_pool_def ascending_pool_def)
qed

lemma coverage_search_returns:
  assumes "dict_ok (si_net_by_sid si)" and "coverage_cands si line used \<noteq> []"
  shows "\<exists>r. setsum_search (coverage_cands si line used) (ln_amount_paise line) = Inr r"
proof -
  let ?c = "coverage_cands si line used"
  note f = coverage_cands_facts [OF assms(1), of line used]
  have "0 < ln_amount_paise line" using f(2) assms(2) .
  then show ?thesis
    using f(1) bounded.returns [of ?c "ln_amount_paise line"]
    by (auto simp: setsum_search_def SETSUM_EXPANSION_MAX_CANDIDATES_def bounded_pool_def items_ok_def
        engine_legacy_search_def find_legacy_subsets_def not_le)
qed

lemma setsum_search_sound:
  assumes "setsum_search cands target = Inr r" and "bounded_pool cands \<or> ascending_pool cands" and "s \<in> set (bs_subsets r)"
  shows "distinct s \<and> set s \<subseteq> fst ` set cands"
proof (cases "length cands \<le> 16")
  case True
  with assms(2) have "bounded_pool cands" by (auto simp: bounded_pool_def ascending_pool_def)
  with bounded.sound [of cands target r s] assms True show ?thesis
    by (auto simp: setsum_search_def SETSUM_EXPANSION_MAX_CANDIDATES_def solves_def)
next
  case False
  with assms(2) have "ascending_pool cands" by (auto simp: bounded_pool_def)
  with legacy.sound [of cands target r s] assms False show ?thesis
    by (auto simp: setsum_search_def SETSUM_EXPANSION_MAX_CANDIDATES_def solves_def)
qed

lemma set_foldl_add_unseen: "set (foldl add_unseen acc xs) \<subseteq> set acc \<union> set xs"
proof (induction xs arbitrary: acc)
  case (Cons x xs)
  have "set (add_unseen acc x) \<subseteq> insert x (set acc)" by (auto simp: add_unseen_def)
  with Cons.IH [of "add_unseen acc x"] show ?case by auto
qed simp

lemma coverage_singles_sound: "s \<in> set (coverage_singles si line used) \<Longrightarrow> distinct s \<and> set s \<inter> set used = {}"
  using set_foldl_add_unseen [of "[]"] unfolding coverage_singles_def by fastforce

lemma amount_or_setsum_sound:
  assumes "dict_ok (si_net_by_sid si)" and "orderly si" and "amount_or_setsum_sids si line used = (sids, si')"
  shows "distinct sids" and "set sids \<inter> set used = {}" and "same_static si' si"
    and "si_duplicate_or_split_lines si' = si_duplicate_or_split_lines si"
proof -
  let ?c = "coverage_cands si line used"
  note f = coverage_cands_facts [OF assms(1), of line used]
  have good: "distinct s \<and> set s \<inter> set used = {}"
    if "s \<in> set (coverage_singles si line used) \<or>
      (\<exists>r. setsum_search ?c (ln_amount_paise line) = Inr r \<and> s \<in> set (bs_subsets r))" for s
    using that coverage_singles_sound setsum_search_sound [OF _ f(4) [OF assms(2)]] f(3) by blast
  have "sids = [] \<or> sids \<in> set (coverage_singles si line used) \<or>
      (\<exists>r. setsum_search ?c (ln_amount_paise line) = Inr r \<and> sids \<in> set (bs_subsets r))"
    using assms(3) set_foldl_add_unseen unfolding amount_or_setsum_sids_def Let_def
    by (force split: if_splits sum.splits list.splits)
  with good show "distinct sids" and "set sids \<inter> set used = {}" by auto
  show "same_static si' si" and "si_duplicate_or_split_lines si' = si_duplicate_or_split_lines si"
    using assms(3) by (auto simp: amount_or_setsum_sids_def Let_def same_static_def split: if_splits sum.splits list.splits)
qed

subsection \<open>The passes\<close>

lemma make_result_SomeD:
  assumes "make_result line sids si = Some r"
  shows "rc_line_key r = ln_key line" and "rc_credit_amount_paise r = ln_amount_paise line" and "rc_balanced r"
    and "rc_residual_paise r = rc_credit_amount_paise r - rc_covered_net_paise r" and "\<bar>rc_residual_paise r\<bar> \<le> 100"
    and "rc_covered_row_ids r = map fst (covered_rows_of si sids)"
    and "rc_covered_entity_ids r = map (\<lambda>x. (r_type (snd x), r_entity_id (snd x))) (covered_rows_of si sids)"
    and "rc_covered_net_paise r = sum_list (map (\<lambda>x. net_paise (snd x)) (covered_rows_of si sids))"
  using assms by (auto simp: make_result_def Let_def DRIFT_TOLERANCE_PAISE_def comp_def split: if_splits)

text \<open>
  What a result says about the report: it is balanced within the tolerance, and it covers, row by row, the groups of
  its settlements.
\<close>

definition result_ok :: "(row_sig \<Rightarrow> string) \<Rightarrow> recon_row list \<Rightarrow> (string, bank_line) dict \<Rightarrow> reconciliation \<Rightarrow> bool" where
  "result_ok dig rows lbk r \<longleftrightarrow> rc_balanced r \<and> rc_residual_paise r = rc_credit_amount_paise r - rc_covered_net_paise r \<and>
     \<bar>rc_residual_paise r\<bar> \<le> 100 \<and>
     (\<exists>k. map_of lbk k \<noteq> None \<and> rc_line_key r = ln_key (line_of lbk k) \<and> rc_credit_amount_paise r = ln_amount_paise (line_of lbk k)) \<and>
     (\<exists>trs. (\<exists>sids. distinct sids \<and> trs = concat (map (\<lambda>s. group s (tagged_rows dig rows)) sids)) \<and>
        set trs \<subseteq> set (tagged_rows dig rows) \<and> rc_covered_row_ids r = map fst trs \<and>
        rc_covered_entity_ids r = map (\<lambda>x. (r_type (snd x), r_entity_id (snd x))) trs \<and>
        rc_covered_net_paise r = sum_list (map (\<lambda>x. net_paise (snd x)) trs))"

definition rec_inv :: "(row_sig \<Rightarrow> string) \<Rightarrow> recon_row list \<Rightarrow> (string, bank_line) dict \<Rightarrow> rec_state \<Rightarrow> bool" where
  "rec_inv dig rows lbk st \<longleftrightarrow> same_static (rs_index st) (SettlementIndex dig rows) \<and>
     (\<forall>r \<in> set (rs_results st). result_ok dig rows lbk r) \<and>
     distinct (concat (map rc_covered_row_ids (rs_results st))) \<and>
     (\<forall>rid \<in> set (concat (map rc_covered_row_ids (rs_results st))). \<exists>sid \<in> set (rs_used st).
        rid \<in> fst ` set (group sid (tagged_rows dig rows)))"

lemma covered_rows_group:
  "same_static si (SettlementIndex dig rows) \<Longrightarrow>
     covered_rows_of si sids = concat (map (\<lambda>s. group s (tagged_rows dig rows)) sids)"
  by (simp add: covered_rows_of_def same_static_def SettlementIndex_rows)

lemma distinct_tagged: "digest_ok dig rows \<Longrightarrow> distinct (map fst (tagged_rows dig rows))"
  by (simp add: tagged_rows_def distinct_canonical_row_ids)

lemma group_same: "x \<in> set (group s trs) \<Longrightarrow> y \<in> set (group t trs) \<Longrightarrow> distinct (map fst trs) \<Longrightarrow> fst x = fst y \<Longrightarrow> s = t"
proof -
  assume a: "x \<in> set (group s trs)" "y \<in> set (group t trs)" "distinct (map fst trs)" "fst x = fst y"
  have "x \<in> set trs" "y \<in> set trs" using a by (auto simp: group_def)
  with a have "x = y" by (metis eq_key_imp_eq_value prod.collapse)
  with a show "s = t" by (auto simp: group_def)
qed

text \<open>Adding one result whose settlements are new keeps the invariant, in either pass.\<close>

lemma rec_inv_add:
  assumes dig: "digest_ok dig rows" and inv: "rec_inv dig rows lbk st"
    and r: "make_result (line_of lbk k) sids si = Some r" and k: "map_of lbk k \<noteq> None"
    and st: "same_static si (SettlementIndex dig rows)" and d: "distinct sids" and new: "set sids \<inter> set (rs_used st) = {}"
    and st': "rs_results st' = rs_results st @ [r]" "set (rs_used st') = set (rs_used st) \<union> set sids"
      "same_static (rs_index st') (SettlementIndex dig rows)"
  shows "rec_inv dig rows lbk st'"
proof -
  let ?t = "tagged_rows dig rows"
  note f = make_result_SomeD [OF r]
  have cov: "covered_rows_of si sids = concat (map (\<lambda>s. group s ?t) sids)" by (rule covered_rows_group [OF st])
  have ids: "rc_covered_row_ids r = concat (map (\<lambda>s. map fst (group s ?t)) sids)"
    by (simp add: f(6) cov map_concat comp_def)
  have dis: "distinct (rc_covered_row_ids r)"
    unfolding ids by (rule group_distinct [OF distinct_tagged [OF dig] d])
  have ok: "result_ok dig rows lbk r"
    unfolding result_ok_def
  proof (intro conjI f(3-5) exI [of _ k] exI [of _ "concat (map (\<lambda>s. group s ?t) sids)"] exI [of _ sids] d refl k f(1,2))
    show "set (concat (map (\<lambda>s. group s ?t) sids)) \<subseteq> set ?t" by (auto simp: group_def)
  qed (simp_all add: f cov)
  have disj: "rid \<notin> set (rc_covered_row_ids r)" if "rid \<in> set (concat (map rc_covered_row_ids (rs_results st)))" for rid
  proof
    assume "rid \<in> set (rc_covered_row_ids r)"
    then obtain s x where s: "s \<in> set sids" "x \<in> set (group s ?t)" "rid = fst x" by (auto simp: ids)
    have "\<exists>t \<in> set (rs_used st). rid \<in> fst ` set (group t ?t)" using that inv by (simp only: rec_inv_def)
    then obtain t y where t: "t \<in> set (rs_used st)" "y \<in> set (group t ?t)" "rid = fst y" by blast
    have "s = t" using group_same [OF s(2) t(2) distinct_tagged [OF dig]] s t by simp
    with s t new show False by blast
  qed
  show ?thesis
    unfolding rec_inv_def
  proof (intro conjI ballI)
    show "same_static (rs_index st') (SettlementIndex dig rows)" by fact
    show "distinct (concat (map rc_covered_row_ids (rs_results st')))"
      using inv dis disj by (auto simp: st' rec_inv_def)
    fix x assume "x \<in> set (rs_results st')"
    then show "result_ok dig rows lbk x" using inv ok by (auto simp: st' rec_inv_def)
  next
    fix rid assume "rid \<in> set (concat (map rc_covered_row_ids (rs_results st')))"
    then consider "rid \<in> set (concat (map rc_covered_row_ids (rs_results st)))" | "rid \<in> set (rc_covered_row_ids r)"
      by (auto simp: st')
    then show "\<exists>sid \<in> set (rs_used st'). rid \<in> fst ` set (group sid ?t)"
    proof cases
      case 1
      then have "\<exists>t \<in> set (rs_used st). rid \<in> fst ` set (group t ?t)" using inv by (simp only: rec_inv_def)
      then show ?thesis by (auto simp: st')
    next
      case 2
      then show ?thesis by (auto simp: st' ids)
    qed
  qed
qed

lemma set_foldl_set_add: "set (foldl (\<lambda>s x. set_add x s) acc xs) = set acc \<union> set xs"
  by (induction xs arbitrary: acc) (auto simp: set_add_def)

lemma rec_inv_index:
  "rec_inv dig rows lbk st \<Longrightarrow> rs_results st' = rs_results st \<Longrightarrow> rs_used st' = rs_used st \<Longrightarrow>
     same_static (rs_index st') (SettlementIndex dig rows) \<Longrightarrow> rec_inv dig rows lbk st'"
  by (simp add: rec_inv_def)

lemma pass1_step_inv:
  assumes "digest_ok dig rows" and "rec_inv dig rows lbk st" and "sid \<notin> set (rs_used st)"
    and "keys \<noteq> []" and "\<forall>k \<in> set keys. map_of lbk k \<noteq> None"
  shows "rec_inv dig rows lbk (pass1_step lbk st (sid, keys)) \<and>
    set (rs_used (pass1_step lbk st (sid, keys))) \<subseteq> insert sid (set (rs_used st))"
proof -
  have stat: "same_static (rs_index st) (SettlementIndex dig rows)" using assms(2) by (simp add: rec_inv_def)
  show ?thesis
  proof (cases "length keys > 1 \<or> make_result (line_of lbk (hd keys)) [sid] (rs_index st) = None")
    case True
    then have "pass1_step lbk st (sid, keys) = st \<or> (\<exists>d. pass1_step lbk st (sid, keys) =
        st\<lparr>rs_index := (rs_index st)\<lparr>si_duplicate_or_split_lines := d\<rparr>\<rparr>)"
      by (auto simp: pass1_step_def Let_def)
    then show ?thesis using assms(2) stat rec_inv_index [OF assms(2)] by (auto simp: same_static_def)
  next
    case False
    then obtain r where r: "make_result (line_of lbk (hd keys)) [sid] (rs_index st) = Some r" by auto
    with False have eq: "pass1_step lbk st (sid, keys) = st\<lparr>rs_results := rs_results st @ [r],
        rs_used := set_add sid (rs_used st), rs_resolved := set_add (hd keys) (rs_resolved st)\<rparr>"
      by (simp add: pass1_step_def Let_def)
    have "map_of lbk (hd keys) \<noteq> None" using assms(4,5) by simp
    from rec_inv_add [OF assms(1,2) r this stat] assms(3) stat show ?thesis
      unfolding eq by (simp add: set_add_def)
  qed
qed

lemma pass1_inv:
  assumes "digest_ok dig rows"
  shows "rec_inv dig rows lbk st \<Longrightarrow> distinct (map fst cs) \<Longrightarrow> fst ` set cs \<inter> set (rs_used st) = {} \<Longrightarrow>
    \<forall>(sid, keys) \<in> set cs. keys \<noteq> [] \<and> (\<forall>k \<in> set keys. map_of lbk k \<noteq> None) \<Longrightarrow>
    rec_inv dig rows lbk (foldl (pass1_step lbk) st cs)"
proof (induction cs arbitrary: st)
  case (Cons c cs)
  obtain sid keys where c: "c = (sid, keys)" by (cases c)
  have step: "rec_inv dig rows lbk (pass1_step lbk st (sid, keys))"
    "set (rs_used (pass1_step lbk st (sid, keys))) \<subseteq> insert sid (set (rs_used st))"
    using pass1_step_inv [OF assms Cons.prems(1), of sid keys] Cons.prems c by auto
  have "fst ` set cs \<inter> set (rs_used (pass1_step lbk st (sid, keys))) = {}"
    using step(2) Cons.prems(2,3) c by auto
  with Cons.IH [OF step(1)] Cons.prems c show ?case by simp
qed simp

lemma pass2_step_inv:
  assumes dig: "digest_ok dig rows" and ord: "orderly (SettlementIndex dig rows)" and inv: "rec_inv dig rows lbk st"
    and k: "map_of lbk (a_line_key a) \<noteq> None"
  shows "rec_inv dig rows lbk (pass2_step lbk st a)"
proof -
  let ?line = "line_of lbk (a_line_key a)"
  obtain sids si' where q: "amount_or_setsum_sids (rs_index st) ?line (rs_used st) = (sids, si')"
    by (cases "amount_or_setsum_sids (rs_index st) ?line (rs_used st)")
  have stat: "same_static (rs_index st) (SettlementIndex dig rows)" using inv by (simp add: rec_inv_def)
  then have ok: "dict_ok (si_net_by_sid (rs_index st))" "orderly (rs_index st)"
    using SettlementIndex_dict [of dig rows] ord by (auto simp: same_static_def orderly_def)
  note s = amount_or_setsum_sound [OF ok q]
  have stat': "same_static si' (SettlementIndex dig rows)" using s(3) stat by (simp add: same_static_def)
  show ?thesis
  proof (cases "a_line_key a \<in> set (rs_resolved st) \<or> a_line_key a \<in> set (si_duplicate_or_split_lines (rs_index st)) \<or>
      sids = [] \<or> make_result ?line sids si' = None")
    case True
    then have "pass2_step lbk st a = st \<or> pass2_step lbk st a = st\<lparr>rs_index := si'\<rparr>"
      using q by (auto simp: pass2_step_def Let_def)
    then show ?thesis using inv rec_inv_index [OF inv] stat' by auto
  next
    case False
    then obtain r where r: "make_result ?line sids si' = Some r" by auto
    with False q have eq: "pass2_step lbk st a = st\<lparr>rs_results := rs_results st @ [r],
        rs_used := foldl (\<lambda>s x. set_add x s) (rs_used st) sids,
        rs_resolved := set_add (a_line_key a) (rs_resolved st), rs_index := si'\<rparr>"
      by (simp add: pass2_step_def Let_def)
    show ?thesis
      unfolding eq by (rule rec_inv_add [OF dig inv r k stat' s(1,2)]) (simp_all add: set_foldl_set_add stat')
  qed
qed

lemma utr_claims_ok:
  "multi_ok (\<lambda>_. True) (\<lambda>sid k. utr_sid nf si (line_of lbk k) = Some sid \<and> k \<in> a_line_key ` set rzp)
     (utr_claims nf lbk si rzp)"
  unfolding utr_claims_def
  by (rule foldl_invariant) (auto split: option.split intro!: multi_ok_dappend)

lemma rzp_slice_known: "a \<in> set (rzp_slice lbk attrs) \<Longrightarrow> map_of lbk (a_line_key a) \<noteq> None"
  by (simp add: rzp_slice_def has_key_def)

lemma passes_inv:
  assumes dig: "digest_ok dig rows" and ord: "orderly (SettlementIndex dig rows)"
  shows "rec_inv dig rows lbk (passes nf dig lbk (rzp_slice lbk attrs) rows)"
proof -
  let ?si = "SettlementIndex dig rows" and ?rzp = "rzp_slice lbk attrs"
  let ?st0 = "\<lparr>rs_results = [], rs_used = [], rs_resolved = [], rs_index = ?si\<rparr>"
  let ?cs = "utr_claims nf lbk ?si ?rzp"
  note cl = utr_claims_ok [of nf ?si lbk ?rzp]
  have i0: "rec_inv dig rows lbk ?st0" by (simp add: rec_inv_def same_static_def)
  have d: "distinct (map fst ?cs)" using cl by (simp add: multi_ok_def dict_ok_def)
  have ks: "\<forall>(sid, keys) \<in> set ?cs. keys \<noteq> [] \<and> (\<forall>k \<in> set keys. map_of lbk k \<noteq> None)"
    using multi_okD [OF cl] rzp_slice_known by fastforce
  have i1: "rec_inv dig rows lbk (foldl (pass1_step lbk) ?st0 ?cs)"
    by (rule pass1_inv [OF dig i0 d _ ks]) simp
  show ?thesis
    unfolding passes_def Let_def
    by (rule foldl_invariant [where P = "rec_inv dig rows lbk", OF i1]) (rule pass2_step_inv [OF dig ord], assumption, rule rzp_slice_known)
qed

subsection \<open>Lines\<close>

definition lines_ok :: "(string, bank_line) dict \<Rightarrow> bool" where
  "lines_ok lbk \<longleftrightarrow> (\<forall>k l. map_of lbk k = Some l \<longrightarrow> ln_key l = k)"

lemma lines_okD: "lines_ok lbk \<Longrightarrow> map_of lbk k \<noteq> None \<Longrightarrow> ln_key (line_of lbk k) = k"
  by (auto simp: lines_ok_def line_of_def)

definition key_inv :: "rec_state \<Rightarrow> bool" where
  "key_inv st \<longleftrightarrow> set (map rc_line_key (rs_results st)) = set (rs_resolved st) \<and> distinct (map rc_line_key (rs_results st))"

lemma key_inv_add:
  assumes "key_inv st" and "rc_line_key r = k" and "k \<notin> set (rs_resolved st)"
    and "rs_results st' = rs_results st @ [r]" and "rs_resolved st' = set_add k (rs_resolved st)"
  shows "key_inv st'"
proof -
  have "k \<notin> set (map rc_line_key (rs_results st))" using assms(1,3) unfolding key_inv_def by blast
  with assms show ?thesis by (simp add: key_inv_def set_add_def)
qed

lemma pass1_keys:
  assumes "lines_ok lbk"
  shows "key_inv st \<Longrightarrow> \<forall>k \<in> set (rs_resolved st). \<exists>sid \<in> set (rs_used st). f k = Some sid \<Longrightarrow>
    distinct (map fst cs) \<Longrightarrow> fst ` set cs \<inter> set (rs_used st) = {} \<Longrightarrow>
    \<forall>(sid, keys) \<in> set cs. keys \<noteq> [] \<and> (\<forall>k \<in> set keys. map_of lbk k \<noteq> None \<and> f k = Some sid) \<Longrightarrow>
    key_inv (foldl (pass1_step lbk) st cs)"
proof (induction cs arbitrary: st)
  case (Cons c cs)
  obtain sid keys where c: "c = (sid, keys)" by (cases c)
  let ?st = "pass1_step lbk st c"
  have key: "hd keys \<in> set keys" "map_of lbk (hd keys) \<noteq> None" "f (hd keys) = Some sid" using Cons.prems(5) c by auto
  have fresh: "hd keys \<notin> set (rs_resolved st)" using Cons.prems(2,4) key(3) c by auto
  have used: "set (rs_used st) \<subseteq> set (rs_used ?st)" "set (rs_used ?st) \<subseteq> insert sid (set (rs_used st))"
    by (auto simp: pass1_step_def c Let_def set_add_def split: option.splits if_splits)
  have res: "rs_results ?st = rs_results st \<and> rs_resolved ?st = rs_resolved st \<or>
      (\<exists>r. rc_line_key r = hd keys \<and> rs_results ?st = rs_results st @ [r] \<and>
        rs_resolved ?st = set_add (hd keys) (rs_resolved st) \<and> sid \<in> set (rs_used ?st))"
    using make_result_SomeD(1) lines_okD [OF assms key(2)]
    by (auto simp: pass1_step_def c Let_def set_add_def split: option.splits)
  have k1: "key_inv ?st" using res
  proof
    assume "rs_results ?st = rs_results st \<and> rs_resolved ?st = rs_resolved st"
    with Cons.prems(1) show ?thesis by (simp add: key_inv_def)
  qed (use key_inv_add [OF Cons.prems(1) _ fresh] in blast)
  have k2: "\<forall>k \<in> set (rs_resolved ?st). \<exists>sid \<in> set (rs_used ?st). f k = Some sid"
  proof
    fix k assume "k \<in> set (rs_resolved ?st)"
    with res have "k \<in> set (rs_resolved st) \<or> k = hd keys \<and> sid \<in> set (rs_used ?st)"
      by (auto simp: set_add_def split: if_splits)
    then show "\<exists>sid \<in> set (rs_used ?st). f k = Some sid" using Cons.prems(2) used(1) key(3) by blast
  qed
  have "fst ` set cs \<inter> set (rs_used ?st) = {}" using used(2) Cons.prems(3,4) c by auto
  from Cons.IH [OF k1 k2 _ this] Cons.prems c show ?case by simp
qed simp

lemma pass2_step_keys:
  assumes "lines_ok lbk" and "map_of lbk (a_line_key a) \<noteq> None" and "key_inv st"
  shows "key_inv (pass2_step lbk st a)"
proof -
  let ?st = "pass2_step lbk st a"
  have "rs_results ?st = rs_results st \<and> rs_resolved ?st = rs_resolved st \<or>
      (\<exists>r. rc_line_key r = a_line_key a \<and> a_line_key a \<notin> set (rs_resolved st) \<and> rs_results ?st = rs_results st @ [r] \<and>
        rs_resolved ?st = set_add (a_line_key a) (rs_resolved st))"
    using make_result_SomeD(1) lines_okD [OF assms(1,2)]
    by (auto simp: pass2_step_def Let_def split: option.splits prod.splits)
  then show ?thesis
  proof
    assume "rs_results ?st = rs_results st \<and> rs_resolved ?st = rs_resolved st"
    with assms(3) show ?thesis by (simp add: key_inv_def)
  qed (use key_inv_add [OF assms(3)] in blast)
qed

lemma passes_keys:
  assumes "lines_ok lbk"
  shows "key_inv (passes nf dig lbk (rzp_slice lbk attrs) rows)"
proof -
  let ?si = "SettlementIndex dig rows" and ?rzp = "rzp_slice lbk attrs"
  let ?st0 = "\<lparr>rs_results = [], rs_used = [], rs_resolved = [], rs_index = ?si\<rparr>"
  let ?cs = "utr_claims nf lbk ?si ?rzp"
  note cl = utr_claims_ok [of nf ?si lbk ?rzp]
  have d: "distinct (map fst ?cs)" using cl by (simp add: multi_ok_def dict_ok_def)
  have ks: "\<forall>(sid, keys) \<in> set ?cs. keys \<noteq> [] \<and> (\<forall>k \<in> set keys. map_of lbk k \<noteq> None \<and> utr_sid nf ?si (line_of lbk k) = Some sid)"
    using multi_okD [OF cl] rzp_slice_known by fastforce
  have i1: "key_inv (foldl (pass1_step lbk) ?st0 ?cs)"
    by (rule pass1_keys [OF assms _ _ d _ ks]) (simp_all add: key_inv_def)
  show ?thesis
    unfolding passes_def Let_def
    by (rule foldl_invariant [where P = key_inv, OF i1]) (rule pass2_step_keys [OF assms], rule rzp_slice_known)
qed

lemma distinct_concat_perm: "mset xs = mset ys \<Longrightarrow> distinct (concat (map f xs)) = distinct (concat (map f ys))"
proof -
  assume "mset xs = mset ys"
  then have "mset (concat (map f xs)) = mset (concat (map f ys))"
    by (simp add: mset_concat) (metis mset_map sum_mset_sum_list)
  then show ?thesis by (rule mset_eq_imp_distinct_iff)
qed

lemma resolve_rows_complete:
  "\<forall>x \<in> set trs. map_of by_id (fst x) = Some (snd x) \<Longrightarrow>
   resolve_rows key by_id pos (zip (map fst trs) (map (\<lambda>x. (r_type (snd x), r_entity_id (snd x))) trs)) = Inr (map snd trs)"
  by (induction trs arbitrary: pos) auto

lemma tagged_rows_known:
  "digest_ok dig rows \<Longrightarrow> x \<in> set (tagged_rows dig rows) \<Longrightarrow> map_of (rows_by_canonical_id dig rows) (fst x) = Some (snd x)"
  by (auto simp: tagged_rows_def set_zip rows_by_canonical_id_nth)

subsection \<open>The lines the index records\<close>

text \<open>
  The index collects the lines it could not reconcile: before the final classification those of an ambiguous coverage
  and those whose candidates were too many to enumerate, and from the claims those of a duplicate or split credit.
\<close>

definition undecided :: "settlement_index \<Rightarrow> string set" where
  "undecided si = set (si_ambiguous_lines si) \<union> set (si_un_enumerable_lines si) \<union> fst ` set (si_unbalanced_lines si)"

definition flagged_lines :: "settlement_index \<Rightarrow> string set" where
  "flagged_lines si = undecided si \<union> set (si_duplicate_or_split_lines si)"

lemma SettlementIndex_unflagged: "flagged_lines (SettlementIndex dig rows) = {}"
proof -
  have "flagged_lines (foldl sindex_row empty_sindex trs) = {}" for trs
  proof (rule foldl_invariant)
    show "flagged_lines empty_sindex = {}" by (simp add: flagged_lines_def undecided_def empty_sindex_def)
  qed (auto simp: flagged_lines_def undecided_def sindex_row_def Let_def split: prod.split)
  then show ?thesis by (simp add: SettlementIndex_def Let_def flagged_lines_def undecided_def)
qed

lemma amount_or_setsum_flags:
  assumes "amount_or_setsum_sids si line used = (sids, si')"
  shows "sids \<noteq> [] \<Longrightarrow> si' = si" and "undecided si' \<subseteq> insert (ln_key line) (undecided si)"
    and "si_duplicate_or_split_lines si' = si_duplicate_or_split_lines si"
  using assms by (auto simp: amount_or_setsum_sids_def Let_def undecided_def set_add_def split: if_splits sum.splits list.splits)

text \<open>No line is both recorded and resolved, and none comes from outside the slice.\<close>

definition flags_within :: "string set \<Rightarrow> rec_state \<Rightarrow> bool" where
  "flags_within K st \<longleftrightarrow> flagged_lines (rs_index st) \<union> set (rs_resolved st) \<subseteq> K"

definition flags_apart :: "rec_state \<Rightarrow> bool" where
  "flags_apart st \<longleftrightarrow> flagged_lines (rs_index st) \<inter> set (rs_resolved st) = {}"

lemma pass1_step_flags:
  fixes lbk st sid keys
  defines "st' \<equiv> pass1_step lbk st (sid, keys)"
  assumes "keys \<noteq> []"
  shows "undecided (rs_index st') = undecided (rs_index st)"
    and "flagged_lines (rs_index st') = flagged_lines (rs_index st) \<union> set keys \<and> rs_resolved st' = rs_resolved st \<or>
      flagged_lines (rs_index st') = flagged_lines (rs_index st) \<and> set (rs_resolved st') \<subseteq> insert (hd keys) (set (rs_resolved st))"
  unfolding st'_def
  by (auto simp: pass1_step_def Let_def flagged_lines_def undecided_def set_set_add set_foldl_set_add split: option.split)

lemma pass1_flags:
  "flags_within K st \<Longrightarrow> flags_apart st \<Longrightarrow> undecided (rs_index st) = {} \<Longrightarrow>
    \<forall>k \<in> flagged_lines (rs_index st) \<union> set (rs_resolved st). \<exists>sid \<in> D. f k = Some sid \<Longrightarrow>
    distinct (map fst cs) \<Longrightarrow> fst ` set cs \<inter> D = {} \<Longrightarrow>
    \<forall>(sid, keys) \<in> set cs. keys \<noteq> [] \<and> (\<forall>k \<in> set keys. k \<in> K \<and> f k = Some sid) \<Longrightarrow>
    flags_within K (foldl (pass1_step lbk) st cs) \<and> flags_apart (foldl (pass1_step lbk) st cs) \<and>
    undecided (rs_index (foldl (pass1_step lbk) st cs)) = {}"
proof (induction cs arbitrary: st D)
  case (Cons c cs)
  obtain sid keys where c: "c = (sid, keys)" by (cases c)
  let ?st = "pass1_step lbk st (sid, keys)"
  have ks: "keys \<noteq> []" "\<forall>k \<in> set keys. k \<in> K \<and> f k = Some sid" using Cons.prems(7) c by auto
  then have hd: "hd keys \<in> set keys" by simp
  have fresh: "set keys \<inter> (flagged_lines (rs_index st) \<union> set (rs_resolved st)) = {}"
  proof (intro equals0I, elim IntE)
    fix k assume k: "k \<in> set keys" "k \<in> flagged_lines (rs_index st) \<union> set (rs_resolved st)"
    then obtain s where "s \<in> D" "f k = Some s" using Cons.prems(4) by blast
    then have "sid \<in> D" using ks(2) k(1) by simp
    then show False using Cons.prems(6) c by simp
  qed
  note fl = pass1_step_flags [OF ks(1), of lbk st sid]
  have sub: "flagged_lines (rs_index ?st) \<union> set (rs_resolved ?st) \<subseteq> flagged_lines (rs_index st) \<union> set (rs_resolved st) \<union> set keys"
    using fl(2) hd by (elim disjE conjE) auto
  moreover have "set keys \<subseteq> K" using ks(2) by blast
  ultimately have "flags_within K ?st" using Cons.prems(1) unfolding flags_within_def by blast
  moreover have "flags_apart ?st" using fl(2) Cons.prems(2) fresh hd unfolding flags_apart_def
    by (elim disjE conjE) auto
  moreover have "undecided (rs_index ?st) = {}" using fl(1) Cons.prems(3) by simp
  moreover have "\<forall>k \<in> flagged_lines (rs_index ?st) \<union> set (rs_resolved ?st). \<exists>s \<in> insert sid D. f k = Some s"
  proof
    fix k assume "k \<in> flagged_lines (rs_index ?st) \<union> set (rs_resolved ?st)"
    then have "k \<in> flagged_lines (rs_index st) \<union> set (rs_resolved st) \<or> k \<in> set keys" using sub by blast
    then show "\<exists>s \<in> insert sid D. f k = Some s" using Cons.prems(4) ks(2) by blast
  qed
  moreover have "fst ` set cs \<inter> insert sid D = {}" using Cons.prems(5,6) c by auto
  ultimately show ?case using Cons.IH [of ?st "insert sid D"] Cons.prems(5,7) c by simp
qed simp

lemma pass2_step_flags:
  fixes lbk st a
  defines "st' \<equiv> pass2_step lbk st a"
  assumes "ln_key (line_of lbk (a_line_key a)) = a_line_key a"
  shows "undecided (rs_index st') \<subseteq> insert (a_line_key a) (undecided (rs_index st))"
    and "si_duplicate_or_split_lines (rs_index st') = si_duplicate_or_split_lines (rs_index st)"
    and "rs_resolved st' = rs_resolved st \<and> (rs_index st' = rs_index st \<or> a_line_key a \<notin> set (rs_resolved st)) \<or>
      set (rs_resolved st') = insert (a_line_key a) (set (rs_resolved st)) \<and> rs_index st' = rs_index st \<and>
      a_line_key a \<notin> set (si_duplicate_or_split_lines (rs_index st))"
proof -
  obtain sids si' where q: "amount_or_setsum_sids (rs_index st) (line_of lbk (a_line_key a)) (rs_used st) = (sids, si')"
    by (cases "amount_or_setsum_sids (rs_index st) (line_of lbk (a_line_key a)) (rs_used st)")
  note fl = amount_or_setsum_flags [OF q, unfolded assms(2)]
  show "undecided (rs_index st') \<subseteq> insert (a_line_key a) (undecided (rs_index st))"
    and "si_duplicate_or_split_lines (rs_index st') = si_duplicate_or_split_lines (rs_index st)"
    using fl unfolding st'_def by (auto simp: pass2_step_def Let_def q split: option.split)
  show "rs_resolved st' = rs_resolved st \<and> (rs_index st' = rs_index st \<or> a_line_key a \<notin> set (rs_resolved st)) \<or>
      set (rs_resolved st') = insert (a_line_key a) (set (rs_resolved st)) \<and> rs_index st' = rs_index st \<and>
      a_line_key a \<notin> set (si_duplicate_or_split_lines (rs_index st))"
    using fl(1) unfolding st'_def by (auto simp: pass2_step_def Let_def q set_add_def split: option.split)
qed

lemma pass2_step_within:
  assumes "ln_key (line_of lbk (a_line_key a)) = a_line_key a" and "a_line_key a \<in> K" and "flags_within K st"
  shows "flags_within K (pass2_step lbk st a)"
proof -
  note fl = pass2_step_flags [OF assms(1), of st]
  have "set (rs_resolved (pass2_step lbk st a)) \<subseteq> insert (a_line_key a) (set (rs_resolved st))" using fl(3) by auto
  then show ?thesis using assms(2,3) fl(1) unfolding flags_within_def flagged_lines_def fl(2) by blast
qed

lemma pass2_apart:
  "flags_apart st \<Longrightarrow> distinct (map a_line_key as) \<Longrightarrow> undecided (rs_index st) \<inter> a_line_key ` set as = {} \<Longrightarrow>
    \<forall>a \<in> set as. ln_key (line_of lbk (a_line_key a)) = a_line_key a \<Longrightarrow> flags_apart (foldl (pass2_step lbk) st as)"
proof (induction as arbitrary: st)
  case (Cons a as)
  note fl = pass2_step_flags [of lbk a st]
  have key: "ln_key (line_of lbk (a_line_key a)) = a_line_key a" using Cons.prems(4) by simp
  have new: "a_line_key a \<notin> undecided (rs_index st)" "a_line_key a \<notin> a_line_key ` set as" using Cons.prems(2,3) by auto
  have "flags_apart (pass2_step lbk st a)"
    using fl(3) [OF key]
  proof (elim disjE conjE)
    assume r: "rs_resolved (pass2_step lbk st a) = rs_resolved st" "a_line_key a \<notin> set (rs_resolved st)"
    show ?thesis using fl(1) [OF key] Cons.prems(1) r(2) unfolding flags_apart_def flagged_lines_def fl(2) [OF key] r(1) by blast
  qed (use Cons.prems(1) new(1) in \<open>auto simp: flags_apart_def flagged_lines_def\<close>)
  moreover have "undecided (rs_index (pass2_step lbk st a)) \<inter> a_line_key ` set as = {}"
  proof (intro equals0I, elim IntE)
    fix k assume k: "k \<in> undecided (rs_index (pass2_step lbk st a))" "k \<in> a_line_key ` set as"
    then have "k \<noteq> a_line_key a" using new(2) by blast
    then have "k \<in> undecided (rs_index st)" using fl(1) [OF key] k(1) by blast
    then show False using Cons.prems(3) k(2) by auto
  qed
  ultimately show ?case using Cons.IH Cons.prems(2,4) by simp
qed simp

lemma classify_flags: "flagged_lines (foldl (classify_step nf lbk) si us) \<subseteq> flagged_lines si \<union> set us"
proof (induction us arbitrary: si)
  case (Cons u us)
  have "flagged_lines (classify_step nf lbk si u) \<subseteq> insert u (flagged_lines si)"
    by (auto simp: classify_step_def Let_def flagged_lines_def undecided_def set_add_def)
  with Cons.IH [of "classify_step nf lbk si u"] show ?case by auto
qed simp

lemma passes_flags:
  fixes lbk attrs nf dig rows
  defines "rzp \<equiv> rzp_slice lbk attrs"
  assumes "lines_ok lbk"
  shows "flags_within (a_line_key ` set rzp) (passes nf dig lbk rzp rows)"
    and "distinct (map a_line_key rzp) \<Longrightarrow> flags_apart (passes nf dig lbk rzp rows)"
proof -
  let ?si = "SettlementIndex dig rows" and ?K = "a_line_key ` set rzp"
  let ?st0 = "\<lparr>rs_results = [], rs_used = [], rs_resolved = [], rs_index = ?si\<rparr>"
  let ?cs = "utr_claims nf lbk ?si rzp"
  note cl = utr_claims_ok [of nf ?si lbk rzp]
  have d: "distinct (map fst ?cs)" using cl by (simp add: multi_ok_def dict_ok_def)
  have ks: "\<forall>(sid, keys) \<in> set ?cs. keys \<noteq> [] \<and> (\<forall>k \<in> set keys. k \<in> ?K \<and> utr_sid nf ?si (line_of lbk k) = Some sid)"
    using multi_okD [OF cl] by fastforce
  have p1: "flags_within ?K (foldl (pass1_step lbk) ?st0 ?cs) \<and> flags_apart (foldl (pass1_step lbk) ?st0 ?cs) \<and>
      undecided (rs_index (foldl (pass1_step lbk) ?st0 ?cs)) = {}"
    using SettlementIndex_unflagged [of dig rows]
    by (intro pass1_flags [where D = "{}" and f = "\<lambda>k. utr_sid nf ?si (line_of lbk k)"] d ks)
      (simp_all add: flags_within_def flags_apart_def flagged_lines_def)
  have key: "\<forall>a \<in> set rzp. ln_key (line_of lbk (a_line_key a)) = a_line_key a"
    using lines_okD [OF assms(2)] rzp_slice_known unfolding rzp_def by blast
  show "flags_within ?K (passes nf dig lbk rzp rows)"
    unfolding passes_def Let_def
    by (rule foldl_invariant [where P = "flags_within ?K"]) (use p1 key pass2_step_within in auto)
  show "flags_apart (passes nf dig lbk rzp rows)" if "distinct (map a_line_key rzp)"
    unfolding passes_def Let_def using p1 key that by (intro pass2_apart) auto
qed

subsection \<open>Properties\<close>

lemma reconcile_results: "set (fst (reconcile nf dig lbk attrs rows)) = set (rs_results (passes nf dig lbk (rzp_slice lbk attrs) rows))"
  and reconcile_results_mset: "mset (fst (reconcile nf dig lbk attrs rows)) = mset (rs_results (passes nf dig lbk (rzp_slice lbk attrs) rows))"
  by (simp_all add: reconcile_def Let_def)

text \<open>
  C1. No row is counted twice: over all results of a run, the covered row ids are pairwise different. This needs a
  digest without collisions, and a report in which either at most 16 settlements occur or the settlements first
  appear in ascending order of their identifiers.
\<close>

theorem reconcile_counts_rows_once:
  assumes "digest_ok dig rows" and "orderly (SettlementIndex dig rows)"
  shows "distinct (concat (map rc_covered_row_ids (fst (reconcile nf dig lbk attrs rows))))"
  unfolding distinct_concat_perm [OF reconcile_results_mset]
  using passes_inv [OF assms, of lbk nf attrs] by (simp only: rec_inv_def)

definition sample_lines :: "(string, bank_line) dict" where
  "sample_lines = [(''k1'', sample_line)]"

definition sample_attrs :: "attribution list" where
  "sample_attrs = [RailAttribution ''k1'' (rail_value RAZORPAY_SETTLEMENT) (fl (99 / 100)) (tier_value TIER_A) []]"

lemma sample_orderly: "orderly (SettlementIndex sample_digest [sample_row, sample_row2])"
proof -
  have "length (si_net_by_sid (SettlementIndex sample_digest [sample_row, sample_row2])) \<le> 16" by code_simp
  then show ?thesis by (simp add: orderly_def)
qed

theorem reconcile_counts_rows_once_witness:
  "distinct (concat (map rc_covered_row_ids (fst (reconcile id sample_digest sample_lines sample_attrs [sample_row, sample_row2]))))"
  by (rule reconcile_counts_rows_once [OF sample_digest_ok sample_orderly])

text \<open>The strict resolver accepts every result, with the rows of its settlements.\<close>

lemma map_snd_group:
  "map snd (group s (tagged_rows dig rows)) = filter (\<lambda>r. r_settlement_id r = Some s \<and> s \<noteq> []) rows"
proof -
  have "map snd (group s (tagged_rows dig rows)) = filter (\<lambda>r. r_settlement_id r = Some s \<and> s \<noteq> []) (map snd (tagged_rows dig rows))"
    by (simp add: group_def filter_map comp_def case_prod_unfold)
  then show ?thesis by (simp add: tagged_rows_def)
qed

text \<open>The rows of a list of settlements, in the order of the report within each settlement.\<close>

definition settlement_rows :: "string list \<Rightarrow> recon_row list \<Rightarrow> recon_row list" where
  "settlement_rows sids rows = concat (map (\<lambda>s. filter (\<lambda>r. r_settlement_id r = Some s) rows) sids)"

lemma map_snd_groups:
  "map snd (concat (map (\<lambda>s. group s (tagged_rows dig rows)) sids)) = settlement_rows (filter (\<lambda>s. s \<noteq> []) sids) rows"
  by (induction sids) (simp_all add: settlement_rows_def map_snd_group)

lemma result_resolves_rows:
  assumes "digest_ok dig rows" and "orderly (SettlementIndex dig rows)" and "r \<in> set (fst (reconcile nf dig lbk attrs rows))"
  shows "\<exists>sids. distinct sids \<and> [] \<notin> set sids \<and>
       resolve_covered_rows_by_id r (rows_by_canonical_id dig rows) = Inr (settlement_rows sids rows) \<and>
       rc_covered_net_paise r = sum_list (map net_paise (settlement_rows sids rows))"
    and "result_ok dig rows lbk r"
proof -
  note inv = passes_inv [OF assms(1,2), of lbk nf attrs]
  have mem: "r \<in> set (rs_results (passes nf dig lbk (rzp_slice lbk attrs) rows))" using assms(3) by (simp add: reconcile_results)
  with inv show ok: "result_ok dig rows lbk r" by (simp add: rec_inv_def)
  have "distinct (rc_covered_row_ids r)"
    using inv mem unfolding rec_inv_def by (metis (no_types, lifting) distinct_concat_iff in_set_conv_nth length_map nth_map nth_mem)
  from ok obtain trs sids where trs: "set trs \<subseteq> set (tagged_rows dig rows)" "rc_covered_row_ids r = map fst trs"
    "rc_covered_entity_ids r = map (\<lambda>x. (r_type (snd x), r_entity_id (snd x))) trs"
    "rc_covered_net_paise r = sum_list (map (\<lambda>x. net_paise (snd x)) trs)"
    and sids: "distinct sids" "trs = concat (map (\<lambda>s. group s (tagged_rows dig rows)) sids)"
    unfolding result_ok_def by blast
  have known: "\<forall>x \<in> set trs. map_of (rows_by_canonical_id dig rows) (fst x) = Some (snd x)"
    using trs(1) tagged_rows_known [OF assms(1)] by blast
  have snd: "map snd trs = settlement_rows (filter (\<lambda>s. s \<noteq> []) sids) rows"
    unfolding sids(2) by (rule map_snd_groups)
  have "resolve_covered_rows_by_id r (rows_by_canonical_id dig rows) = Inr (map snd trs)"
    using \<open>distinct (rc_covered_row_ids r)\<close> resolve_rows_complete [OF known]
    by (simp add: resolve_covered_rows_by_id_def trs(2,3))
  moreover have "rc_covered_net_paise r = sum_list (map net_paise (map snd trs))" by (simp add: trs(4) comp_def)
  ultimately show "\<exists>sids. distinct sids \<and> [] \<notin> set sids \<and>
       resolve_covered_rows_by_id r (rows_by_canonical_id dig rows) = Inr (settlement_rows sids rows) \<and>
       rc_covered_net_paise r = sum_list (map net_paise (settlement_rows sids rows))"
    unfolding snd using sids(1) by (intro exI [of _ "filter (\<lambda>s. s \<noteq> []) sids"]) simp
qed

lemma settlement_rows_subset: "set (settlement_rows sids rows) \<subseteq> set rows"
  by (auto simp: settlement_rows_def)

lemma result_resolves:
  assumes "digest_ok dig rows" and "orderly (SettlementIndex dig rows)" and "r \<in> set (fst (reconcile nf dig lbk attrs rows))"
  shows "\<exists>covered. resolve_covered_rows_by_id r (rows_by_canonical_id dig rows) = Inr covered \<and>
       set covered \<subseteq> set rows \<and> rc_covered_net_paise r = sum_list (map net_paise covered)"
    and "result_ok dig rows lbk r"
  using result_resolves_rows [OF assms] settlement_rows_subset by blast+

text \<open>
  C10. With a digest without collisions and a report in which either at most 16 settlements occur or the settlements
  first appear in ascending order of their identifiers, every result is accounted for: its residual is the credit less
  the covered net and at most 100 paise in size, its amount is that of the bank line it names, and the strict resolver
  accepts it and returns exactly the rows of some pairwise different settlements, whose nets add up to the covered
  net. So no later stage can fail on it or price it from other rows.
\<close>

theorem reconcile_results_resolve:
  assumes "digest_ok dig rows" and "orderly (SettlementIndex dig rows)" and "r \<in> set (fst (reconcile nf dig lbk attrs rows))"
  shows "rc_balanced r \<and> rc_residual_paise r = rc_credit_amount_paise r - rc_covered_net_paise r \<and> \<bar>rc_residual_paise r\<bar> \<le> 100 \<and>
    (\<exists>k. map_of lbk k \<noteq> None \<and> rc_line_key r = ln_key (line_of lbk k) \<and>
       rc_credit_amount_paise r = ln_amount_paise (line_of lbk k)) \<and>
    (\<exists>sids covered. distinct sids \<and> [] \<notin> set sids \<and> covered = settlement_rows sids rows \<and>
       resolve_covered_rows_by_id r (rows_by_canonical_id dig rows) = Inr covered \<and>
       set covered \<subseteq> set rows \<and> rc_covered_net_paise r = sum_list (map net_paise covered))"
proof -
  have "result_ok dig rows lbk r" by (rule result_resolves_rows(2) [OF assms])
  then show ?thesis
    using result_resolves_rows(1) [OF assms] settlement_rows_subset unfolding result_ok_def by blast
qed

theorem reconcile_results_resolve_witness:
  "\<exists>r sids. fst (reconcile id sample_digest sample_lines sample_attrs [sample_row, sample_row2]) = [r] \<and>
     resolve_covered_rows_by_id r (rows_by_canonical_id sample_digest [sample_row, sample_row2]) =
       Inr (settlement_rows sids [sample_row, sample_row2]) \<and> distinct sids"
proof -
  have "length (fst (reconcile id sample_digest sample_lines sample_attrs [sample_row, sample_row2])) = 1" by code_simp
  then obtain r where r: "fst (reconcile id sample_digest sample_lines sample_attrs [sample_row, sample_row2]) = [r]"
    by (auto simp: length_Suc_conv)
  then have "r \<in> set (fst (reconcile id sample_digest sample_lines sample_attrs [sample_row, sample_row2]))" by simp
  from reconcile_results_resolve [OF sample_digest_ok sample_orderly this] show ?thesis using r by blast
qed

lemma reconcile_unresolved:
  "set (fst (snd (reconcile nf dig lbk attrs rows))) =
     a_line_key ` set (rzp_slice lbk attrs) - set (rs_resolved (passes nf dig lbk (rzp_slice lbk attrs) rows))"
  by (auto simp: reconcile_def Let_def)

lemma reconcile_result_keys:
  assumes "lines_ok lbk"
  shows "distinct (map rc_line_key (fst (reconcile nf dig lbk attrs rows)))"
    and "set (map rc_line_key (fst (reconcile nf dig lbk attrs rows))) =
      set (rs_resolved (passes nf dig lbk (rzp_slice lbk attrs) rows))"
proof -
  let ?st = "passes nf dig lbk (rzp_slice lbk attrs) rows"
  have k: "set (map rc_line_key (rs_results ?st)) = set (rs_resolved ?st)" "distinct (map rc_line_key (rs_results ?st))"
    using passes_keys [OF assms, of nf dig attrs rows] by (simp_all add: key_inv_def)
  have "mset (map rc_line_key (fst (reconcile nf dig lbk attrs rows))) = mset (map rc_line_key (rs_results ?st))"
    using reconcile_results_mset by simp
  then show "distinct (map rc_line_key (fst (reconcile nf dig lbk attrs rows)))"
    and "set (map rc_line_key (fst (reconcile nf dig lbk attrs rows))) = set (rs_resolved ?st)"
    using k mset_eq_imp_distinct_iff mset_eq_setD by blast+
qed

lemma reconcile_flags:
  assumes "lines_ok lbk" and "distinct (map a_line_key (rzp_slice lbk attrs))"
  shows "flagged_lines (snd (snd (reconcile nf dig lbk attrs rows))) \<subseteq> set (fst (snd (reconcile nf dig lbk attrs rows)))"
proof -
  let ?st = "passes nf dig lbk (rzp_slice lbk attrs) rows" and ?un = "fst (snd (reconcile nf dig lbk attrs rows))"
  have "flagged_lines (snd (snd (reconcile nf dig lbk attrs rows))) =
      flagged_lines (foldl (classify_step nf lbk) (rs_index ?st) ?un)"
    by (simp add: reconcile_def Let_def flagged_lines_def undecided_def)
  also have "\<dots> \<subseteq> flagged_lines (rs_index ?st) \<union> set ?un" by (rule classify_flags)
  also have "flagged_lines (rs_index ?st) \<subseteq> set ?un"
    using passes_flags(1) [OF assms(1), of attrs nf dig rows] passes_flags(2) [OF assms, of nf dig rows]
    unfolding reconcile_unresolved flags_within_def flags_apart_def by blast
  finally show ?thesis by blast
qed

text \<open>
  C13. The Razorpay slice is partitioned into the lines with a result and the unresolved ones: no line has two results,
  every result is for a line of the slice, and the unresolved lines are exactly the others. When the line keys of the
  slice are different, every line that the index records as ambiguous, not enumerable, duplicate or split, or
  unbalanced is one of the unresolved lines, so no line is both booked and reported.
\<close>

theorem reconcile_partitions_slice:
  assumes "lines_ok lbk"
  shows "distinct (map rc_line_key (fst (reconcile nf dig lbk attrs rows))) \<and>
    set (map rc_line_key (fst (reconcile nf dig lbk attrs rows))) \<subseteq> a_line_key ` set (rzp_slice lbk attrs) \<and>
    set (fst (snd (reconcile nf dig lbk attrs rows))) =
      a_line_key ` set (rzp_slice lbk attrs) - set (map rc_line_key (fst (reconcile nf dig lbk attrs rows))) \<and>
    (distinct (map a_line_key (rzp_slice lbk attrs)) \<longrightarrow>
      set (si_ambiguous_lines (snd (snd (reconcile nf dig lbk attrs rows)))) \<union>
      set (si_un_enumerable_lines (snd (snd (reconcile nf dig lbk attrs rows)))) \<union>
      set (si_duplicate_or_split_lines (snd (snd (reconcile nf dig lbk attrs rows)))) \<union>
      fst ` set (si_unbalanced_lines (snd (snd (reconcile nf dig lbk attrs rows))))
        \<subseteq> set (fst (snd (reconcile nf dig lbk attrs rows))))"
  using reconcile_result_keys [OF assms, of nf dig attrs rows] passes_flags(1) [OF assms, of attrs nf dig rows]
    reconcile_flags [OF assms, of attrs nf dig rows]
  unfolding reconcile_unresolved flags_within_def flagged_lines_def undecided_def by blast

text \<open>Two credits that both name the settlement: neither is booked, and the index records both.\<close>

definition twice_lines :: "(string, bank_line) dict" where
  "twice_lines = [(''k1'', sample_line), (''k2'', sample_line\<lparr>ln_key := ''k2''\<rparr>)]"

definition twice_attrs :: "attribution list" where
  "twice_attrs = map (\<lambda>k. RailAttribution k (rail_value RAZORPAY_SETTLEMENT) (fl (99 / 100)) (tier_value TIER_A) []) [''k1'', ''k2'']"

theorem reconcile_partitions_slice_witness:
  "rc_line_key ` set (fst (reconcile id sample_digest twice_lines twice_attrs [sample_row])) = {} \<and>
   set (fst (snd (reconcile id sample_digest twice_lines twice_attrs [sample_row]))) = {''k1'', ''k2''} \<and>
   set (si_duplicate_or_split_lines (snd (snd (reconcile id sample_digest twice_lines twice_attrs [sample_row])))) = {''k1'', ''k2''}"
proof -
  have "lines_ok twice_lines" by (simp add: lines_ok_def twice_lines_def sample_line_def)
  note p = reconcile_partitions_slice [OF this, of id sample_digest twice_attrs "[sample_row]"]
  have "fst (reconcile id sample_digest twice_lines twice_attrs [sample_row]) = []" by code_simp
  moreover have "set (si_duplicate_or_split_lines (snd (snd (reconcile id sample_digest twice_lines twice_attrs [sample_row])))) = {''k1'', ''k2''}"
    by code_simp
  moreover have "a_line_key ` set (rzp_slice twice_lines twice_attrs) = {''k1'', ''k2''}" by code_simp
  moreover have "distinct (map a_line_key (rzp_slice twice_lines twice_attrs))" by code_simp
  ultimately show ?thesis using p by simp
qed

text \<open>
  Without that order of settlements the settlement pass books rows twice. In this report the settlement with the larger
  identifier comes first among 17; a credit of twice its net plus another net is reconciled as balanced, the rows of
  the first settlement are covered twice, and the strict resolver of the accounting stages rejects the result.
\<close>

definition unordered_rows :: "recon_row list" where
  "unordered_rows = map (\<lambda>(sid, n). sample_row\<lparr>r_entity_id := sid, r_settlement_id := Some sid, r_settlement_utr := None,
      r_credit_paise := n\<rparr>)
    ([(''z'', 50000), (''a'', 30000)] @ map (\<lambda>c. ([c], 1)) ''bcdefghijklmnop'')"

definition unordered_line :: bank_line where
  "unordered_line = sample_line\<lparr>ln_narration := ''NEFT RAZORPAY'', ln_amount_paise := 130000\<rparr>"

theorem reconcile_books_rows_twice:
  "map rc_covered_row_ids (fst (reconcile id sample_digest [(''k1'', unordered_line)] sample_attrs unordered_rows)) =
     [[''row_z000000000000000_0'', ''row_a000000000000000_0'', ''row_z000000000000000_0'']] \<and>
   map (\<lambda>r. resolve_covered_rows_by_id r (rows_by_canonical_id sample_digest unordered_rows))
     (fst (reconcile id sample_digest [(''k1'', unordered_line)] sample_attrs unordered_rows)) =
     [Inl (Duplicate_Row_Ids ''k1'')]"
  by code_simp

end
