(* ===== verification/FeeGst.thy ===== *)
theory FeeGst
  imports Covered
begin

section \<open>Recoverable fee GST (\<open>engine/feegst.py\<close>)\<close>

text \<open>
  The extraction of the itemised tax over the covered rows. A reconciliation with row ids goes through the strict
  resolver, and its error is the result of the whole extraction; one without uses the lossy
  \<open>(type, entity_id)\<close> lookup, in which the last row of the report with the key wins.
\<close>

definition fee_gst_rows :: "(string, recon_row) dict \<Rightarrow> (string \<times> string, recon_row) dict \<Rightarrow> reconciliation \<Rightarrow>
    covered_error + recon_row option list" where
  "fee_gst_rows by_row_id by_id rec = (if rc_covered_row_ids rec \<noteq> []
     then (case resolve_covered_rows_by_id rec by_row_id of Inl e \<Rightarrow> Inl e | Inr rows \<Rightarrow> Inr (map Some rows))
     else Inr (map (map_of by_id) (rc_covered_entity_ids rec)))"

definition taxed :: "recon_row option list \<Rightarrow> (string \<times> int) list" where
  "taxed rows = concat (map (\<lambda>x. case x of None \<Rightarrow> []
     | Some row \<Rightarrow> if r_tax_paise row \<noteq> 0 then [(r_entity_id row, r_tax_paise row)] else []) rows)"

fun fee_gst_loop :: "(string, recon_row) dict \<Rightarrow> (string \<times> string, recon_row) dict \<Rightarrow> int \<Rightarrow> (string \<times> int) list \<Rightarrow>
    reconciliation list \<Rightarrow> covered_error + fee_gst" where
  "fee_gst_loop by_row_id by_id tot by_entity [] =
     Inr \<lparr>fg_total_recoverable_paise = tot, fg_by_entity = by_entity\<rparr>"
| "fee_gst_loop by_row_id by_id tot by_entity (rec # recs) = (case fee_gst_rows by_row_id by_id rec of Inl e \<Rightarrow> Inl e
     | Inr rows \<Rightarrow> fee_gst_loop by_row_id by_id (tot + sum_list (map snd (taxed rows))) (by_entity @ taxed rows) recs)"

definition fee_gst_of :: "(row_sig \<Rightarrow> string) \<Rightarrow> reconciliation list \<Rightarrow> recon_row list \<Rightarrow> covered_error + fee_gst" where
  "fee_gst_of dig reconciliations rows = fee_gst_loop (rows_by_canonical_id dig rows)
     (dict_of (\<lambda>r. (r_type r, r_entity_id r)) (\<lambda>r. r) rows) 0 [] reconciliations"

lemma taxed_sum_Some: "sum_list (map snd (taxed (map Some rows))) = sum_list (map r_tax_paise rows)"
  by (induction rows) (auto simp: taxed_def)

lemma fee_gst_rows_sum:
  assumes "fee_gst_rows by_row_id by_id rec = Inr rows" and "rc_covered_row_ids rec \<noteq> []"
  shows "sum_list (map snd (taxed rows)) = (\<Sum>rid \<in> set (rc_covered_row_ids rec). r_tax_paise (the (map_of by_row_id rid)))"
proof -
  from assms obtain rs where "resolve_covered_rows_by_id rec by_row_id = Inr rs" and "rows = map Some rs"
    by (auto simp: fee_gst_rows_def split: sum.splits)
  then show ?thesis using resolver.sum_once [of rec by_row_id rs r_tax_paise] by (simp add: taxed_sum_Some)
qed

lemma fee_gst_loop_total:
  "fee_gst_loop a b tot by_entity recs = Inr g \<Longrightarrow> tot = sum_list (map snd by_entity) \<Longrightarrow>
     fg_total_recoverable_paise g = sum_list (map snd (fg_by_entity g))"
proof (induction recs arbitrary: tot by_entity)
  case (Cons rec recs)
  then obtain rows where "fee_gst_rows a b rec = Inr rows" by (auto split: sum.splits)
  with Cons.prems Cons.IH [of "tot + sum_list (map snd (taxed rows))" "by_entity @ taxed rows"] show ?case by simp
qed auto

lemma fee_gst_loop_strict:
  "fee_gst_loop by_row_id by_id tot by_entity recs = Inr g \<Longrightarrow> \<forall>rec \<in> set recs. rc_covered_row_ids rec \<noteq> [] \<Longrightarrow>
     fg_total_recoverable_paise g = tot + sum_list (map (\<lambda>rec. \<Sum>rid \<in> set (rc_covered_row_ids rec).
       r_tax_paise (the (map_of by_row_id rid))) recs)"
proof (induction recs arbitrary: tot by_entity)
  case (Cons rec recs)
  then obtain rows where rows: "fee_gst_rows by_row_id by_id rec = Inr rows" by (auto split: sum.splits)
  with Cons.prems have "rc_covered_row_ids rec \<noteq> []" by simp
  note s = fee_gst_rows_sum [OF rows this]
  from Cons.prems rows Cons.IH [of "tot + sum_list (map snd (taxed rows))" "by_entity @ taxed rows"]
  show ?case by (simp add: s)
qed auto

subsection \<open>Property\<close>

text \<open>
  The recoverable total is itemised: it is the sum of the per-entity list, and when every reconciliation carries
  row ids it is, reconciliation by reconciliation, the tax of each covered row id counted once.
\<close>

theorem fee_gst_itemised:
  assumes "fee_gst_of dig recs rows = Inr g" and "\<forall>rec \<in> set recs. rc_covered_row_ids rec \<noteq> []"
  shows "fg_total_recoverable_paise g = sum_list (map snd (fg_by_entity g)) \<and>
    fg_total_recoverable_paise g = sum_list (map (\<lambda>rec. \<Sum>rid \<in> set (rc_covered_row_ids rec).
       r_tax_paise (the (map_of (rows_by_canonical_id dig rows) rid))) recs)"
  using fee_gst_loop_total [OF assms(1) [unfolded fee_gst_of_def]]
    fee_gst_loop_strict [OF assms(1) [unfolded fee_gst_of_def] assms(2)] by simp

theorem fee_gst_itemised_witness:
  "\<exists>g. fee_gst_of sample_digest [sample_covered] [sample_row, sample_row2] = Inr g \<and>
     fg_total_recoverable_paise g = sum_list (map snd (fg_by_entity g))"
proof -
  have "(case fee_gst_of sample_digest [sample_covered] [sample_row, sample_row2] of Inl _ \<Rightarrow> False | Inr g \<Rightarrow> True)"
    by code_simp
  then obtain g where g: "fee_gst_of sample_digest [sample_covered] [sample_row, sample_row2] = Inr g"
    by (auto split: sum.splits)
  have "\<forall>rec \<in> set [sample_covered]. rc_covered_row_ids rec \<noteq> []" by (simp add: sample_covered_def)
  from fee_gst_itemised [OF g this] g show ?thesis by blast
qed

end
