(* ===== verification/Journal.thy ===== *)
theory Journal
  imports Covered
begin

section \<open>Journal vouchers and the Tally export (\<open>engine/journal.py\<close>)\<close>

text \<open>
  One balanced voucher per reconciled credit, its JSON form and the Tally XML. Amounts are formatted by float
  division and two decimals, as in the source; \<open>paise_of\<close> is the parser of the JSON amounts. The assertion at the
  end of \<open>build_journal_entries\<close> is a branch of the model.
\<close>

definition LEDGER_BANK :: string where "LEDGER_BANK = ''Bank Current A/c''"
definition LEDGER_MDR :: string where "LEDGER_MDR = ''Payment Gateway Charges''"
definition LEDGER_ITC_CGST :: string where "LEDGER_ITC_CGST = ''Input CGST''"
definition LEDGER_ITC_SGST :: string where "LEDGER_ITC_SGST = ''Input SGST''"
definition LEDGER_ITC_IGST :: string where "LEDGER_ITC_IGST = ''Input IGST''"
definition LEDGER_CLEARING :: string where "LEDGER_CLEARING = ''Razorpay Clearing A/c''"
definition LEDGER_ROUNDING :: string where "LEDGER_ROUNDING = ''Bank Charges & Rounding''"

record journal_line =
  jl_ledger :: string
  jl_debit_paise :: int
  jl_credit_paise :: int

record journal_entry =
  je_ref :: string
  je_date :: string
  je_utr :: string
  je_narration :: string
  je_lines :: "journal_line list"

definition debit_line :: "string \<Rightarrow> int \<Rightarrow> journal_line" where
  "debit_line l p = \<lparr>jl_ledger = l, jl_debit_paise = p, jl_credit_paise = 0\<rparr>"

definition credit_line :: "string \<Rightarrow> int \<Rightarrow> journal_line" where
  "credit_line l p = \<lparr>jl_ledger = l, jl_debit_paise = 0, jl_credit_paise = p\<rparr>"

definition total_debit_paise :: "journal_line list \<Rightarrow> int" where
  "total_debit_paise ls = sum_list (map jl_debit_paise ls)"

definition total_credit_paise :: "journal_line list \<Rightarrow> int" where
  "total_credit_paise ls = sum_list (map jl_credit_paise ls)"

definition entry_balanced :: "journal_entry \<Rightarrow> bool" where
  "entry_balanced e \<longleftrightarrow> total_debit_paise (je_lines e) = total_credit_paise (je_lines e)"

definition journal_inr :: "int \<Rightarrow> string" where
  "journal_inr paise = fmt_f 2 (fl (of_int paise / 100))"

definition journal_entry_to_dict :: "journal_entry \<Rightarrow> json" where
  "journal_entry_to_dict e = JObj [(''ref'', JStr (je_ref e)), (''date'', JStr (je_date e)), (''utr'', JStr (je_utr e)),
     (''narration'', JStr (je_narration e)), (''balanced'', JBool (entry_balanced e)),
     (''lines'', JList (map (\<lambda>l. JObj [(''ledger'', JStr (jl_ledger l)),
        (''debit_inr'', JStr (journal_inr (jl_debit_paise l))), (''credit_inr'', JStr (journal_inr (jl_credit_paise l)))])
        (je_lines e)))]"

definition tax_inside_fee :: "recon_row list \<Rightarrow> bool" where
  "tax_inside_fee covered = (
     let pays = filter (\<lambda>r. r_type r = ''payment'' \<and> (r_fee_paise r \<noteq> 0 \<or> r_tax_paise r \<noteq> 0)) covered in
     if pays = [] then True
     else let amt = sum_list (map r_amount_paise pays); fee = sum_list (map r_fee_paise pays);
              tax = sum_list (map r_tax_paise pays); credit = sum_list (map r_credit_paise pays)
       in \<bar>credit - (amt - fee)\<bar> \<le> \<bar>credit - (amt - fee - tax)\<bar>)"

subsection \<open>\<open>build_journal_entries\<close>\<close>

datatype journal_error = Covered_Error covered_error | Unbalanced_Entry string

fun legacy_rows :: "(string \<times> string, recon_row list) dict \<Rightarrow> (string \<times> string, nat) dict \<Rightarrow> (string \<times> string) list \<Rightarrow>
    recon_row list" where
  "legacy_rows by_key seen [] = []"
| "legacy_rows by_key seen (k # ks) = (let bucket = dget by_key k []; n = dget seen k 0 in
     (if n < length bucket then [bucket ! n] else []) @ legacy_rows by_key (dset seen k (n + 1)) ks)"

definition rows_by_key :: "recon_row list \<Rightarrow> (string \<times> string, recon_row list) dict" where
  "rows_by_key rows = foldl (\<lambda>d r. dappend d (r_type r, r_entity_id r) r) [] rows"

definition sorted_ids :: "(recon_row \<Rightarrow> string option) \<Rightarrow> recon_row list \<Rightarrow> string list" where
  "sorted_ids f covered = sort (remdups (map (\<lambda>r. the (f r)) (filter (\<lambda>r. truthy (f r)) covered)))"

definition min_time :: "(recon_row \<Rightarrow> datetime option) \<Rightarrow> recon_row list \<Rightarrow> datetime option" where
  "min_time f covered = (case map (\<lambda>r. the (f r)) (filter (\<lambda>r. f r \<noteq> None) covered) of [] \<Rightarrow> None
     | t # ts \<Rightarrow> Some (foldl min t ts))"

definition voucher_lines :: "int \<Rightarrow> int \<Rightarrow> int \<Rightarrow> int \<Rightarrow> bool \<Rightarrow> journal_line list" where
  "voucher_lines actual_net covered_net mdr itc intra_state = (let drift = actual_net - covered_net in
     [debit_line LEDGER_BANK actual_net]
     @ (if drift > 0 then [credit_line LEDGER_ROUNDING drift]
        else if drift < 0 then [debit_line LEDGER_ROUNDING (- drift)] else [])
     @ (if mdr \<noteq> 0 then [debit_line LEDGER_MDR mdr] else [])
     @ (if itc \<noteq> 0 then (if intra_state
          then [debit_line LEDGER_ITC_CGST (itc div 2), debit_line LEDGER_ITC_SGST (itc - itc div 2)]
          else [debit_line LEDGER_ITC_IGST itc]) else [])
     @ [credit_line LEDGER_CLEARING (covered_net + mdr + itc)])"

definition voucher :: "reconciliation \<Rightarrow> recon_row list \<Rightarrow> bool \<Rightarrow> journal_entry" where
  "voucher rec covered intra_state = (
     let fee_sum = sum_list (map r_fee_paise covered); itc = sum_list (map r_tax_paise covered);
         mdr = (if tax_inside_fee covered then fee_sum - itc else fee_sum);
         covered_net = rc_covered_net_paise rec; actual_net = rc_credit_amount_paise rec;
         gross = covered_net + mdr + itc;
         sids0 = sorted_ids r_settlement_id covered; sids = (if sids0 = [] then [rc_line_key rec] else sids0);
         utrs = sorted_ids r_settlement_utr covered;
         sdate = (case min_time r_settled_at covered of None \<Rightarrow> min_time r_created_at covered | Some t \<Rightarrow> Some t);
         date = (case sdate of None \<Rightarrow> [] | Some t \<Rightarrow> date_isoformat (dt_date t));
         settle_lbl = (if length sids \<le> 3 then py_join '', '' sids
           else py_join '', '' (take 3 sids) @ '' +'' @ str_int (int (length sids - 3)) @ '' more'');
         narration = ''Razorpay settlement(s) '' @ settle_lbl @ '' | UTR '' @
           (if py_join '', '' utrs = [] then ''n/a'' else py_join '', '' utrs) @ '' | gross '' @ journal_inr gross @
           '', MDR '' @ journal_inr mdr @ '', GST-ITC '' @ journal_inr itc @ '', net '' @ journal_inr actual_net
     in \<lparr>je_ref = hd sids, je_date = date, je_utr = (if utrs = [] then [] else hd utrs), je_narration = narration,
         je_lines = voucher_lines actual_net covered_net mdr itc intra_state\<rparr>)"

definition covered_for :: "(row_sig \<Rightarrow> string) \<Rightarrow> recon_row list \<Rightarrow> reconciliation \<Rightarrow> covered_error + recon_row list" where
  "covered_for dig rows rec = (if rc_covered_row_ids rec \<noteq> []
     then resolve_covered_rows_by_id rec (rows_by_canonical_id dig rows)
     else Inr (legacy_rows (rows_by_key rows) [] (rc_covered_entity_ids rec)))"

fun journal_loop :: "(row_sig \<Rightarrow> string) \<Rightarrow> recon_row list \<Rightarrow> bool \<Rightarrow> reconciliation list \<Rightarrow> journal_error + journal_entry list" where
  "journal_loop dig rows intra_state [] = Inr []"
| "journal_loop dig rows intra_state (rec # recs) = (case covered_for dig rows rec of Inl e \<Rightarrow> Inl (Covered_Error e)
     | Inr covered \<Rightarrow> if covered = [] then journal_loop dig rows intra_state recs
         else let entry = voucher rec covered intra_state in
           if \<not> entry_balanced entry then Inl (Unbalanced_Entry (je_ref entry))
           else (case journal_loop dig rows intra_state recs of Inl e \<Rightarrow> Inl e | Inr es \<Rightarrow> Inr (entry # es)))"

definition build_journal_entries :: "(row_sig \<Rightarrow> string) \<Rightarrow> reconciliation list \<Rightarrow> recon_row list \<Rightarrow> bool \<Rightarrow>
    journal_error + journal_entry list" where
  "build_journal_entries dig reconciliations rows intra_state =
     journal_loop dig rows intra_state (sort_key rc_line_key reconciliations)"

definition to_journal_json :: "journal_entry list \<Rightarrow> json list" where
  "to_journal_json entries = map journal_entry_to_dict entries"

subsection \<open>Tally XML\<close>

text \<open>
  The code points that XML 1.0 forbids: control characters other than tab, line feed and carriage return, and the
  two noncharacters at the end of the basic plane. Surrogates have no UTF-8 encoding.
\<close>

definition xml_illegal :: "string list" where
  "xml_illegal = map (\<lambda>n. [char_of n]) ([0..<9] @ [11, 12] @ [14..<32]) @
     [[CHR 0xEF, CHR 0xBF, CHR 0xBE], [CHR 0xEF, CHR 0xBF, CHR 0xBF]]"

definition xml_escape :: "string \<Rightarrow> string" where
  "xml_escape s = replace_char (CHR 0x27) ''&apos;'' (replace_char (CHR 0x22) ''&quot;'' (replace_char (CHR ''>'') ''&gt;''
     (replace_char (CHR ''<'') ''&lt;'' (replace_char (CHR ''&'') ''&amp;'' (drop_class xml_illegal s)))))"

datatype inr_error = Invalid_Inr string

definition inr_shape :: "string \<Rightarrow> bool" where
  "inr_shape t \<longleftrightarrow> (let u = (case t of [] \<Rightarrow> [] | c # cs \<Rightarrow> if c = CHR ''-'' then cs else t);
      rest = dropWhile is_digit u
    in takeWhile is_digit u \<noteq> [] \<and> (rest = [] \<or> hd rest = CHR ''.'' \<and> (length (tl rest) = 1 \<or> length (tl rest) = 2) \<and>
       list_all is_digit (tl rest)))"

definition paise_of :: "string \<Rightarrow> inr_error + int" where
  "paise_of value = (let t = py_strip (if value = [] then ''0'' else value) in
     if \<not> inr_shape t then Inl (Invalid_Inr value)
     else let sign = (if prefix ''-'' t then -1 else 1);
              u = dropWhile (\<lambda>c. c = CHR ''-'') t;
              whole = fst (py_partition (CHR ''.'') u); frac = snd (py_partition (CHR ''.'') u)
       in Inr (sign * (int_of_digits whole * 100 + int_of_digits (take 2 (frac @ ''00'')))))"

definition tally_line :: "journal_line \<Rightarrow> string list" where
  "tally_line l = (let (amt, pos) = (if jl_debit_paise l \<noteq> 0 then (fl (of_int (- jl_debit_paise l) / 100), ''Yes'')
       else (fl (of_int (jl_credit_paise l) / 100), ''No''))
     in [''<ALLLEDGERENTRIES.LIST>'',
         ''<LEDGERNAME>'' @ xml_escape (jl_ledger l) @ ''</LEDGERNAME>'',
         ''<ISDEEMEDPOSITIVE>'' @ pos @ ''</ISDEEMEDPOSITIVE><AMOUNT>'' @ fmt_f 2 amt @ ''</AMOUNT>'',
         ''</ALLLEDGERENTRIES.LIST>''])"

definition quoted :: "string \<Rightarrow> string" where
  "quoted s = [CHR 0x22] @ s @ [CHR 0x22]"

definition tally_voucher :: "journal_entry \<Rightarrow> string list" where
  "tally_voucher e = (let tdate = replace_char (CHR ''-'') [] (je_date e); guid = ''UNTANGLE-RZP-'' @ xml_escape (je_ref e) in
     if tdate = [] then []
     else [''<TALLYMESSAGE xmlns:UDF='' @ quoted ''TallyUDF'' @ ''>'',
       ''<VOUCHER VCHTYPE='' @ quoted ''Journal'' @ '' ACTION='' @ quoted ''Create'' @ '' OBJVIEW='' @
         quoted ''Accounting Voucher View'' @ ''>'',
       ''<GUID>'' @ guid @ ''</GUID><REMOTEID>'' @ guid @ ''</REMOTEID>'',
       ''<VOUCHERTYPENAME>Journal</VOUCHERTYPENAME><DATE>'' @ tdate @ ''</DATE><EFFECTIVEDATE>'' @ tdate @ ''</EFFECTIVEDATE>'',
       ''<VOUCHERNUMBER>'' @ guid @ ''</VOUCHERNUMBER><REFERENCE>'' @ xml_escape (je_utr e) @ ''</REFERENCE>'',
       ''<NARRATION>'' @ xml_escape (je_narration e) @ ''</NARRATION>'']
       @ concat (map tally_line (je_lines e)) @ [''</VOUCHER></TALLYMESSAGE>''])"

definition to_tally_xml :: "journal_entry list \<Rightarrow> string \<Rightarrow> string" where
  "to_tally_xml entries company = py_join [CHR 0x0A] (
     [''<ENVELOPE>'', ''<HEADER><TALLYREQUEST>Import Data</TALLYREQUEST></HEADER>'', ''<BODY><IMPORTDATA>'',
      ''<REQUESTDESC><REPORTNAME>Vouchers</REPORTNAME>'',
      ''<STATICVARIABLES><SVCURRENTCOMPANY>'' @ xml_escape company @ ''</SVCURRENTCOMPANY></STATICVARIABLES>'',
      ''</REQUESTDESC><REQUESTDATA>'']
     @ concat (map tally_voucher entries) @ [''</REQUESTDATA></IMPORTDATA></BODY></ENVELOPE>''])"

subsection \<open>Balance\<close>

lemma voucher_lines_balanced:
  "total_debit_paise (voucher_lines actual covered mdr itc intra) = total_credit_paise (voucher_lines actual covered mdr itc intra)"
  by (simp add: voucher_lines_def total_debit_paise_def total_credit_paise_def debit_line_def credit_line_def Let_def)

lemma voucher_balanced: "entry_balanced (voucher rec covered intra)"
  by (simp add: entry_balanced_def voucher_def Let_def voucher_lines_balanced)

lemma journal_loop_balanced:
  "journal_loop dig rows intra recs = Inr es \<Longrightarrow> e \<in> set es \<Longrightarrow>
    \<exists>rec \<in> set recs. \<exists>covered. covered_for dig rows rec = Inr covered \<and> e = voucher rec covered intra"
  by (induction recs arbitrary: es) (auto simp: voucher_balanced Let_def split: sum.splits if_splits)

lemma journal_loop_error:
  "journal_loop dig rows intra recs = Inl e \<Longrightarrow> \<exists>rec \<in> set recs. \<exists>c. e = Covered_Error c \<and> covered_for dig rows rec = Inl c"
  by (induction recs) (auto simp: voucher_balanced Let_def split: sum.splits if_splits)

subsection \<open>Amounts\<close>

lemma digits_not_punct: "list_all is_digit s \<Longrightarrow> c \<in> set s \<Longrightarrow> c \<noteq> CHR ''.'' \<and> c \<noteq> CHR ''-'' \<and> [c] \<notin> set ws_chars"
  by (auto simp: list_all_iff is_digit_def code_def ws_chars_def)

lemma fl_hundredths:
  assumes "\<bar>p\<bar> < 2 ^ 52"
  shows "rhe (\<bar>fl (of_int p / 100)\<bar> * 10 ^ 2) = \<bar>p\<bar>" and "fl (of_int p / 100) < 0 \<longleftrightarrow> p < 0"
proof -
  let ?x = "of_int \<bar>p\<bar> / 100 :: rat"
  have abs: "\<bar>fl (of_int p / 100)\<bar> = fl ?x"
  proof (cases "p < 0")
    case True
    then have "(of_int p / 100 :: rat) = - ?x" by simp
    then have "fl (of_int p / 100) = - fl ?x" by (simp only: fl_minus)
    then show ?thesis by simp
  qed simp
  have "\<bar>fl ?x * 10 ^ 2 - of_int \<bar>p\<bar>\<bar> = \<bar>fl ?x - ?x\<bar> * 100" by (simp add: abs_if field_simps)
  also have "\<dots> \<le> (\<bar>?x\<bar> * 2 powi (- 53)) * 100" by (intro mult_right_mono fl_error) simp
  also have "\<dots> = of_int \<bar>p\<bar> * 2 powi (- 53)" by simp
  also have "\<dots> < of_int (2 ^ 52) * 2 powi (- 53)"
    using assms by (intro mult_strict_right_mono) (simp_all only: of_int_less_iff, simp)
  also have "\<dots> = (1 / 2 :: rat)" by (simp add: power_int_minus power_int_numeral)
  finally have "\<bar>of_int \<bar>p\<bar> - fl ?x * 10 ^ 2\<bar> < 1 / 2" by (simp only: abs_minus_commute)
  then have "rhe (fl ?x * 10 ^ 2) = \<bar>p\<bar>" by (rule rhe_unique)
  then show "rhe (\<bar>fl (of_int p / 100)\<bar> * 10 ^ 2) = \<bar>p\<bar>" by (simp only: abs)
  show "fl (of_int p / 100) < 0 \<longleftrightarrow> p < 0"
  proof
    assume "p < 0"
    then have "0 < fl ?x" by (intro fl_pos) simp
    moreover have "(of_int p / 100 :: rat) = - ?x" using \<open>p < 0\<close> by simp
    ultimately show "fl (of_int p / 100) < 0" by (simp only: fl_minus neg_less_0_iff_less)
  next
    assume neg: "fl (of_int p / 100) < 0"
    show "p < 0"
    proof (rule ccontr)
      assume "\<not> p < 0"
      then have "(0 :: rat) \<le> of_int p / 100" by simp
      from fl_nonneg [OF this] neg show False by simp
    qed
  qed
qed

lemma journal_inr_text:
  "\<bar>p\<bar> < 2 ^ 52 \<Longrightarrow> journal_inr p = (if p < 0 then ''-'' else []) @ str_nn (\<bar>p\<bar> div 100) @ ''.'' @ zpad 2 (str_nn (\<bar>p\<bar> mod 100))"
  unfolding journal_inr_def fmt_f_def fixed_digits_def Let_def fl_hundredths by (simp only: power2_eq_square) simp

lemma length_str_nn_two: "0 \<le> n \<Longrightarrow> n < 100 \<Longrightarrow> length (zpad 2 (str_nn n)) = 2"
  by (subst str_nn.simps) (auto simp: zpad_def str_nn.simps [of "n div 10"])

lemma zpad_digits: "list_all is_digit s \<Longrightarrow> list_all is_digit (zpad k s)"
  by (auto simp: zpad_def is_digit_def code_def list_all_iff)

lemma strip_front_id: "class_len cls s = 0 \<Longrightarrow> strip_front cls s = s"
  by (subst strip_front.simps) simp

lemma class_len_0: "(\<And>w. w \<in> set cls \<Longrightarrow> w \<noteq> [] \<and> hd w \<noteq> c) \<Longrightarrow> class_len cls (c # s) = 0"
  by (auto simp: class_len_def find_Some_iff prefix_Cons split: option.split) (metis list.sel(1) nth_mem)

lemma ws_heads:
  "w \<in> set ws_chars \<Longrightarrow> w \<noteq> [] \<and> \<not> is_digit (hd w) \<and> hd w \<noteq> CHR ''-''"
  "w \<in> set (map rev ws_chars) \<Longrightarrow> w \<noteq> [] \<and> \<not> is_digit (hd w)"
  by (auto simp: ws_chars_def is_digit_def code_def)

lemma py_strip_id:
  assumes "is_digit c \<or> c = CHR ''-''" and "is_digit d" and "c # s = t @ [d]"
  shows "py_strip (c # s) = c # s"
proof -
  have "class_len ws_chars (c # s) = 0" using assms(1) ws_heads(1) by (intro class_len_0) auto
  then have l: "py_lstrip (c # s) = c # s" by (simp add: py_lstrip_def strip_front_id)
  have "class_len (map rev ws_chars) (d # rev t) = 0" using assms(2) ws_heads(2) by (intro class_len_0) blast
  then have "strip_front (map rev ws_chars) (rev (c # s)) = rev (c # s)" using assms(3) by (simp add: strip_front_id)
  then show ?thesis by (simp add: py_strip_def l py_rstrip_def)
qed

lemma takeWhile_digits: "list_all is_digit a \<Longrightarrow> \<not> is_digit c \<Longrightarrow> takeWhile is_digit (a @ c # b) = a \<and> dropWhile is_digit (a @ c # b) = c # b"
  by (induction a) auto

lemma partition_dot: "list_all is_digit a \<Longrightarrow> py_partition (CHR ''.'') (a @ CHR ''.'' # b) = (a, b)"
proof -
  assume a: "list_all is_digit a"
  have "takeWhile (\<lambda>x. x \<noteq> CHR ''.'') (a @ CHR ''.'' # b) = a \<and> dropWhile (\<lambda>x. x \<noteq> CHR ''.'') (a @ CHR ''.'' # b) = CHR ''.'' # b"
    using a by (induction a) (auto simp: is_digit_def code_def)
  then show ?thesis by (simp add: py_partition_def)
qed

lemma paise_of_text:
  assumes a: "list_all is_digit a" "a \<noteq> []" and b: "list_all is_digit b" "length b = 2"
  shows "paise_of ((if neg then ''-'' else []) @ a @ ''.'' @ b) =
    Inr ((if neg then -1 else 1) * (int_of_digits a * 100 + int_of_digits b))"
proof -
  let ?t = "(if neg then ''-'' else []) @ a @ ''.'' @ b"
  obtain c s where cs: "?t = c # s" "is_digit c \<or> c = CHR ''-''" using a by (cases neg; cases a) auto
  obtain b' d where bd: "b = b' @ [d]" "is_digit d" using b by (cases b rule: rev_cases) auto
  have strip: "py_strip ?t = ?t" using py_strip_id [OF cs(2) bd(2), of s "(if neg then ''-'' else []) @ a @ ''.'' @ b'"] cs(1) bd(1) by simp
  obtain h a' where h: "a = h # a'" "is_digit h" using a by (cases a) auto
  have hm: "h \<noteq> CHR ''-''" using h(2) by (auto simp: is_digit_def code_def)
  have nd: "\<not> is_digit (CHR ''.'')" by (simp add: is_digit_def code_def)
  have shape: "inr_shape ?t"
    using takeWhile_digits [OF a(1) nd, of b] a b hm h by (cases neg) (auto simp: inr_shape_def Let_def)
  have drop: "dropWhile (\<lambda>c. c = CHR ''-'') ?t = a @ CHR ''.'' # b" using hm h by (cases neg) simp_all
  have "?t \<noteq> []" using cs by simp
  then show ?thesis
    unfolding paise_of_def Let_def if_not_P [OF \<open>?t \<noteq> []\<close>] strip drop partition_dot [OF a(1)] fst_conv snd_conv
    using shape b hm h by (cases neg) simp_all
qed

subsection \<open>Properties\<close>

text \<open>
  C12. Every voucher balances: whatever the reconciliations, the debits and credits of each emitted entry are
  equal, so the assertion of the source cannot fail; the only error is a covered row the resolver rejects.
\<close>

theorem journal_vouchers_balance:
  "(case build_journal_entries dig recs rows intra of
      Inr es \<Rightarrow> list_all entry_balanced es
    | Inl e \<Rightarrow> \<exists>rec \<in> set recs. \<exists>c. e = Covered_Error c \<and> resolve_covered_rows_by_id rec (rows_by_canonical_id dig rows) = Inl c)"
proof (cases "build_journal_entries dig recs rows intra")
  case (Inr es)
  then show ?thesis
    using journal_loop_balanced [of dig rows intra "sort_key rc_line_key recs" es]
    by (force simp: build_journal_entries_def list_all_iff voucher_balanced)
next
  case (Inl e)
  then show ?thesis
    using journal_loop_error [of dig rows intra "sort_key rc_line_key recs" e]
    by (auto simp: build_journal_entries_def covered_for_def split: if_splits)
qed

text \<open>
  Amounts survive the JSON form: below \<open>2 ^ 52\<close> paise (about 45 trillion rupees) the float division and the
  two-decimal rendering of \<open>_inr\<close> lose nothing, and the parser of the Tally exporter returns the same paise.
\<close>

theorem journal_inr_roundtrip:
  assumes "\<bar>p\<bar> < 2 ^ 52"
  shows "paise_of (journal_inr p) = Inr p"
proof -
  have "paise_of (journal_inr p) = Inr ((if p < 0 then -1 else 1) * (int_of_digits (str_nn (\<bar>p\<bar> div 100)) * 100 +
      int_of_digits (zpad 2 (str_nn (\<bar>p\<bar> mod 100)))))"
    unfolding journal_inr_text [OF assms]
    by (rule paise_of_text) (simp_all add: str_nn_digits zpad_digits length_str_nn_two)
  then show ?thesis by simp
qed

theorem journal_inr_roundtrip_witness: "paise_of (journal_inr (- 123456789)) = Inr (- 123456789)"
  by (rule journal_inr_roundtrip) simp

lemma set_replace_char: "x \<in> set (replace_char c rep s) \<Longrightarrow> x \<in> set rep \<or> (x \<in> set s \<and> x \<noteq> c)"
  by (auto simp: replace_char_def split: if_splits)

text \<open>
  Text that reaches the Tally file is inert markup: an escaped string contains no angle bracket and no quote.
\<close>

theorem xml_escape_inert:
  "set (xml_escape s) \<inter> {CHR ''<'', CHR ''>'', CHR 0x22, CHR 0x27} = {}"
  unfolding xml_escape_def by (auto dest!: set_replace_char)

end
