(* ===== verification/Exceptions.thy ===== *)
theory Exceptions
  imports Models
begin

section \<open>The exception list (\<open>engine/exceptions.py\<close>)\<close>

text \<open>
  Every credit that was not attributed, or attributed to Razorpay and not reconciled, becomes one exception with a
  reason code. The cascade of the source is \<open>classify\<close>, which returns the reason, the detail and the action; the
  second loop, which copies the signed amount of the line, is \<open>attach_amount\<close>.
\<close>

definition RZP_SIGNAL_PREFIXES :: "string list" where
  "RZP_SIGNAL_PREFIXES = [''utr'', ''amount_corr'', ''narration_brand'', ''ifsc'', ''settlement'', ''setsum'']"

definition inr_sep :: "int \<Rightarrow> string" where
  "inr_sep paise = rupee @ fmt_f_sep 2 (fl (of_int paise / 100))"

definition amount_str :: "bank_line option \<Rightarrow> string" where
  "amount_str line = (case line of None \<Rightarrow> ''unknown amount''
     | Some l \<Rightarrow> inr_sep (ln_amount_paise l) @ '' on '' @ date_isoformat (ln_value_date l))"

definition plus_minus :: string where
  "plus_minus = [CHR 0xC2, CHR 0xB1]"

definition detail_of :: "string \<Rightarrow> evidence_item list \<Rightarrow> string" where
  "detail_of signal ev = (case find (\<lambda>e. ev_signal e = signal) ev of None \<Rightarrow> [] | Some e \<Rightarrow> ev_detail e)"

definition carries :: "string \<Rightarrow> evidence_item list \<Rightarrow> bool" where
  "carries signal ev \<longleftrightarrow> list_ex (\<lambda>e. ev_signal e = signal) ev"

definition classify_abstained :: "string \<Rightarrow> attribution \<Rightarrow> string \<times> string \<times> string" where
  "classify_abstained amt a = (
     if carries ''rule_conflict'' (a_evidence a) then (''rule_conflict'',
        amt @ '': contradictory approved rules target different rails ('' @ detail_of ''rule_conflict'' (a_evidence a) @
        '') '' @ em_dash @ '' abstained rather than force a pick.'',
        ''Human review: two approved rules disagree on this line'' @ [CHR 0x27] @ ''s rail. Retire or '' @
        ''correct one of the conflicting rules; do NOT add another narration pattern.'')
     else if carries ''multiple_satisfying_subsets'' (a_evidence a) then (''multiple_satisfying_subsets'',
        amt @ '': ambiguous set-sum '' @ em_dash @ '' multiple distinct settlement subsets sum to this amount.'',
        ''Human review: multiple distinct settlement combinations match this amount; verify manually before booking.'')
     else if list_ex (\<lambda>e. list_ex (\<lambda>p. prefix p (ev_signal e)) RZP_SIGNAL_PREFIXES) (a_evidence a) then (''razorpay_uncertain'',
        amt @ '': partial Razorpay signal but below the confidence '' @ ''threshold ('' @ fmt_f 2 (a_confidence a) @ '').'',
        ''Human review: likely Razorpay but not provable '' @ em_dash @ '' confirm against the '' @ ''settlement report before booking.'')
     else (''unattributed_ambiguous'', amt @ '': no distinctive rail signal in the narration.'',
        ''Human review: assign the rail manually; consider adding its narration '' @ ''pattern to the rules.''))"

definition classify_unresolved :: "string \<Rightarrow> string list \<Rightarrow> string list \<Rightarrow> (string, int) dict \<Rightarrow> attribution \<Rightarrow>
    string \<times> string \<times> string" where
  "classify_unresolved amt ambiguous duplicate_or_split unbalanced a = (
     if a_line_key a \<in> set ambiguous then (''multiple_satisfying_subsets'',
        amt @ '': attributed Razorpay, but multiple distinct settlement subsets satisfy this amount.'',
        ''Human review: ambiguous set-sum in settlement report; match against the settlement report by hand.'')
     else if a_line_key a \<in> set duplicate_or_split then (''partial_or_duplicate_settlement'',
        amt @ '': settlement is split across multiple bank credits or partially credited (FR-016). Will not net together to force balance.'',
        ''Human review: partial or duplicate settlement; verify per-leg bank credits against settlement report.'')
     else (case map_of unbalanced (a_line_key a) of Some res \<Rightarrow> (''unbalanced_residual'',
        amt @ '': unbalanced reconciliation '' @ em_dash @ '' candidate settlement net differs by '' @ inr_sep \<bar>res\<bar> @
        ''. No balancing entry forced.'',
        ''Human review: inspect residual discrepancy between bank statement and settlement report.'')
     | None \<Rightarrow> if carries ''split_reconstruction'' (a_evidence a) then (''reconstructed_split_leg'',
        amt @ '': reconstructed split-settlement leg '' @ em_dash @ '' '' @ detail_of ''split_reconstruction'' (a_evidence a) @
        ''. Attributed Razorpay because its group is the unique subset that sums to a real settlement net (within '' @
        plus_minus @ rupee @ ''1 labelled rounding drift); per-leg entity-level reconciliation is pending.'',
        ''Human review: confirm the leg group against the settlement report '' @ em_dash @
        '' the group sum matches the settlement net as stated in the evidence above.'')
     else (''razorpay_coverage_not_found'',
        amt @ '': attributed Razorpay, but no exact settlement coverage was found within bounds.'',
        ''Human review: likely a split leg, partial settlement, or carry-forward '' @ em_dash @
        '' match against the settlement report by hand.'')))"

definition needs_review :: "string list \<Rightarrow> attribution \<Rightarrow> bool" where
  "needs_review unresolved a \<longleftrightarrow> a_abstained a \<or> a_rail a = rail_value UNKNOWN \<or> a_line_key a \<in> set unresolved"

definition exception_for :: "string list \<Rightarrow> (string, bank_line) dict \<Rightarrow> string list \<Rightarrow> string list \<Rightarrow> (string, int) dict \<Rightarrow>
    attribution \<Rightarrow> exception_record list" where
  "exception_for unresolved lines_by_key ambiguous duplicate_or_split unbalanced a = (
     let amt = amount_str (map_of lines_by_key (a_line_key a));
         mk = (\<lambda>(reason, detail, action). \<lparr>x_line_key = a_line_key a, x_reason_code = reason, x_detail = detail,
            x_suggested_action = action, x_amount_paise = None, x_evidence = a_evidence a\<rparr>)
     in if a_abstained a \<or> a_rail a = rail_value UNKNOWN then [mk (classify_abstained amt a)]
        else if a_line_key a \<in> set unresolved
          then [mk (classify_unresolved amt ambiguous duplicate_or_split unbalanced a)]
        else [])"

definition attach_amount :: "(string, bank_line) dict \<Rightarrow> exception_record \<Rightarrow> exception_record" where
  "attach_amount lines_by_key x = (case map_of lines_by_key (x_line_key x) of None \<Rightarrow> x
     | Some l \<Rightarrow> x\<lparr>x_amount_paise := Some (ln_amount_paise l)\<rparr>)"

definition build_exceptions :: "attribution list \<Rightarrow> string list \<Rightarrow> (string, bank_line) dict \<Rightarrow> string list \<Rightarrow> string list \<Rightarrow>
    (string, int) dict \<Rightarrow> exception_record list" where
  "build_exceptions attributions unresolved lines_by_key ambiguous duplicate_or_split unbalanced =
     map (attach_amount lines_by_key)
       (concat (map (exception_for unresolved lines_by_key ambiguous duplicate_or_split unbalanced) attributions))"

definition exception_reasons :: "string list" where
  "exception_reasons = [''rule_conflict'', ''multiple_satisfying_subsets'', ''razorpay_uncertain'', ''unattributed_ambiguous'',
     ''partial_or_duplicate_settlement'', ''unbalanced_residual'', ''reconstructed_split_leg'', ''razorpay_coverage_not_found'']"

lemma attach_amount_sel [simp]:
  "x_line_key (attach_amount lbk x) = x_line_key x" "x_evidence (attach_amount lbk x) = x_evidence x"
  "x_reason_code (attach_amount lbk x) = x_reason_code x"
  by (simp_all add: attach_amount_def split: option.split)

lemma exception_for_keys:
  "map x_line_key (exception_for un lbk amb dup unb a) = (if needs_review un a then [a_line_key a] else [])"
  by (simp add: exception_for_def needs_review_def Let_def case_prod_beta)

lemma classify_reasons:
  "fst (classify_abstained amt a) \<in> set exception_reasons" "fst (classify_unresolved amt amb dup unb a) \<in> set exception_reasons"
  by (simp_all add: classify_abstained_def classify_unresolved_def exception_reasons_def split: option.split)

subsection \<open>Property\<close>

text \<open>
  Nothing is dropped and nothing is invented: the exceptions are, in order, exactly one for each attribution
  that abstained, is unknown, or is an unresolved Razorpay line; each has a reason of the taxonomy and carries the
  signed amount of its bank line when the line is known.
\<close>

theorem exceptions_cover_unresolved:
  "map x_line_key (build_exceptions attrs un lbk amb dup unb) = map a_line_key (filter (needs_review un) attrs) \<and>
   list_all (\<lambda>x. x_reason_code x \<in> set exception_reasons \<and>
     x_amount_paise x = map_option ln_amount_paise (map_of lbk (x_line_key x))) (build_exceptions attrs un lbk amb dup unb)"
proof
  show "map x_line_key (build_exceptions attrs un lbk amb dup unb) = map a_line_key (filter (needs_review un) attrs)"
    unfolding build_exceptions_def by (induction attrs) (simp_all add: exception_for_keys comp_def)
  have "x_reason_code x \<in> set exception_reasons \<and> x_amount_paise x = None"
    if "x \<in> set (exception_for un lbk amb dup unb a)" for x a
    using that classify_reasons by (auto simp: exception_for_def Let_def case_prod_beta split: if_splits)
  then show "list_all (\<lambda>x. x_reason_code x \<in> set exception_reasons \<and>
     x_amount_paise x = map_option ln_amount_paise (map_of lbk (x_line_key x))) (build_exceptions attrs un lbk amb dup unb)"
    by (auto simp: build_exceptions_def list_all_iff attach_amount_def split: option.split)
qed

end
