(* ===== verification/Ledger.thy ===== *)
theory Ledger
  imports Models
begin

section \<open>Order-ledger cross-check (\<open>engine/ledger.py\<close>)\<close>

text \<open>
  The comparison of the merchant's order ledger with the balanced slice. The Python sets it iterates over are lists
  without repetitions here; every list that leaves the function is sorted, so their order is not observable.
\<close>

definition PAID_STATUSES :: "string list" where
  "PAID_STATUSES = [''paid'', ''captured'', ''settled'', ''success'', ''completed'']"

definition REFUND_STATUSES :: "string list" where
  "REFUND_STATUSES = [''refunded'', ''reversed'', ''chargeback'', ''disputed'', ''partially_refunded'']"

definition LEDGER_DRIFT_PAISE :: int where
  "LEDGER_DRIFT_PAISE = 100"

definition EXAMPLES :: nat where
  "EXAMPLES = 10"

definition ledger_inr :: "int \<Rightarrow> string" where
  "ledger_inr paise = (if paise < 0 then ''-'' else []) @ rupee @ str_nn_sep (\<bar>paise\<bar> div 100) @ ''.'' @
     zpad 2 (str_int (\<bar>paise\<bar> mod 100))"

definition norm_status :: "string \<Rightarrow> string" where
  "norm_status s = py_lower (py_strip s)"

definition is_paid :: "string \<Rightarrow> bool" where
  "is_paid s \<longleftrightarrow> norm_status s \<in> set PAID_STATUSES"

definition is_refund :: "string \<Rightarrow> bool" where
  "is_refund s \<longleftrightarrow> norm_status s \<in> set REFUND_STATUSES"

definition ellipsis :: string where
  "ellipsis = [CHR 0xE2, CHR 0x80, CHR 0xA6]"

definition examples :: "string list \<Rightarrow> string" where
  "examples order_ids = (let ordered = sort order_ids in py_join '', '' (take EXAMPLES ordered) @
     (if length ordered \<le> EXAMPLES then []
      else '' '' @ ellipsis @ '' (+'' @ str_int (int (length ordered - EXAMPLES)) @ '' more)''))"

definition ledger_evidence :: "string \<Rightarrow> string list \<Rightarrow> evidence_item list \<Rightarrow> evidence_item list" where
  "ledger_evidence signal order_ids extra = (let ids = sort order_ids in
     [EvidenceItem signal (''examples: '' @ examples ids) 0, EvidenceItem (signal @ ''_all'') (py_join '';'' ids) 0] @ extra)"

subsection \<open>The settled slice\<close>

definition rows_by_te :: "recon_row list \<Rightarrow> (string \<times> string, recon_row list) dict" where
  "rows_by_te rows = foldl (\<lambda>d r. dappend d (r_type r, r_entity_id r) r) [] rows"

definition covered_keys :: "reconciliation list \<Rightarrow> (string \<times> string) list" where
  "covered_keys recs = remdups (concat (map rc_covered_entity_ids (filter rc_balanced recs)))"

text \<open>A key that names exactly one row of the report; a repeated key is left out.\<close>

definition ledger_covered_rows :: "reconciliation list \<Rightarrow> recon_row list \<Rightarrow> recon_row list" where
  "ledger_covered_rows recs rows = concat (map (\<lambda>k. case map_of (rows_by_te rows) k of Some [r] \<Rightarrow> [r] | _ \<Rightarrow> []) (covered_keys recs))"

definition settled_payments :: "recon_row list \<Rightarrow> recon_row list" where
  "settled_payments covered = filter (\<lambda>r. truthy (r_order_id r) \<and> r_type r = ''payment'') covered"

definition settled_order_ids :: "recon_row list \<Rightarrow> string list" where
  "settled_order_ids covered = remdups (map (\<lambda>r. the (r_order_id r)) (settled_payments covered))"

definition settled_payment_amount :: "recon_row list \<Rightarrow> string \<Rightarrow> int" where
  "settled_payment_amount covered oid = sum_list (map r_amount_paise (filter (\<lambda>r. r_order_id r = Some oid) (settled_payments covered)))"

definition covered_refund_order_ids :: "recon_row list \<Rightarrow> string list" where
  "covered_refund_order_ids covered = remdups (map (\<lambda>r. the (r_order_id r)) (filter (\<lambda>r. truthy (r_order_id r) \<and>
     (r_type r = ''refund'' \<or> truthy (r_dispute_id r)) \<and> the (r_order_id r) \<in> set (settled_order_ids covered)) covered))"

definition ledger_by_order :: "order_entry list \<Rightarrow> (string, order_entry list) dict" where
  "ledger_by_order ledger = foldl (\<lambda>d e. if truthy (o_order_id e) then dappend d (the (o_order_id e)) e else d) [] ledger"

subsection \<open>The discrepancies\<close>

record ledger_classes =
  lc_missing :: "string list"
  lc_status :: "string list"
  lc_amount :: "string list"
  lc_duplicates :: "string list"
  lc_refund_unbooked :: "string list"

definition ledger_classify :: "order_entry list \<Rightarrow> reconciliation list \<Rightarrow> recon_row list \<Rightarrow> ledger_classes" where
  "ledger_classify ledger recs rows = (
     let covered = ledger_covered_rows recs rows; settled = settled_order_ids covered;
         refunds = covered_refund_order_ids covered; book = ledger_by_order ledger;
         single = (\<lambda>oid. case dget book oid [] of [row] \<Rightarrow> Some row | _ \<Rightarrow> None)
     in \<lparr>lc_missing = filter (\<lambda>oid. dget book oid [] = []) settled,
         lc_status = filter (\<lambda>oid. case single oid of None \<Rightarrow> False
           | Some row \<Rightarrow> \<not> (is_paid (o_status row) \<or> is_refund (o_status row) \<and> oid \<in> set refunds)) settled,
         lc_amount = filter (\<lambda>oid. case single oid of None \<Rightarrow> False
           | Some row \<Rightarrow> \<bar>o_amount_paise row - settled_payment_amount covered oid\<bar> > LEDGER_DRIFT_PAISE) settled,
         lc_duplicates = map fst (filter (\<lambda>(oid, es). length es > 1 \<and> oid \<in> set settled) book),
         lc_refund_unbooked = filter (\<lambda>oid. case single oid of None \<Rightarrow> False
           | Some row \<Rightarrow> is_paid (o_status row) \<and> \<not> is_refund (o_status row)) refunds\<rparr>)"

definition num :: "'a list \<Rightarrow> string" where
  "num xs = str_int (int (length xs))"

definition ledger_exception :: "string \<Rightarrow> string \<Rightarrow> string \<Rightarrow> string \<Rightarrow> evidence_item list \<Rightarrow> exception_record" where
  "ledger_exception key reason detail action ev = \<lparr>x_line_key = key, x_reason_code = reason, x_detail = detail,
     x_suggested_action = action, x_amount_paise = None, x_evidence = ev\<rparr>"

definition mismatch_exception :: "ledger_classes \<Rightarrow> exception_record list" where
  "mismatch_exception c = (
     let bits = (if lc_missing c \<noteq> [] then [num (lc_missing c) @ '' settled orders are missing from your ledger''] else [])
           @ (if lc_status c \<noteq> [] then [num (lc_status c) @ '' have a status contradicting a settled payment''] else [])
           @ (if lc_amount c \<noteq> [] then [num (lc_amount c) @ '' disagree on amount beyond '' @ [CHR 0xC2, CHR 0xB1] @ rupee @ ''1''] else []);
         affected = remdups (lc_missing c @ lc_status c @ lc_amount c)
     in if bits = [] then []
        else [ledger_exception ''ledger:mismatch'' ''ledger_mismatch''
          (num affected @ '' settled orders don'' @ [CHR 0x27] @ ''t match your ledger '' @ em_dash @ '' '' @ py_join ''; '' bits @ ''.'')
          ''Reconcile these orders in your ledger against the settlement report so the books match.''
          (ledger_evidence ''mismatched_orders'' affected
            [EvidenceItem ''missing_from_ledger'' (py_join '';'' (sort (lc_missing c))) 0,
             EvidenceItem ''status_conflicts'' (py_join '';'' (sort (lc_status c))) 0,
             EvidenceItem ''amount_conflicts'' (py_join '';'' (sort (lc_amount c))) 0])])"

definition reconcile_ledger :: "order_entry list \<Rightarrow> reconciliation list \<Rightarrow> recon_row list \<Rightarrow> exception_record list" where
  "reconcile_ledger ledger recs rows = (if ledger = [] then []
     else let c = ledger_classify ledger recs rows in
       mismatch_exception c
       @ (if lc_duplicates c \<noteq> [] then [ledger_exception ''ledger:duplicate_order_booking'' ''duplicate_order_booking''
            (num (lc_duplicates c) @ '' Razorpay-attributed order ids are booked more than once in your ledger.'')
            ''De-duplicate these orders in your ledger; the same order is recorded multiple times.''
            (ledger_evidence ''duplicate_orders'' (lc_duplicates c) [])] else [])
       @ (if lc_refund_unbooked c \<noteq> [] then [ledger_exception ''ledger:refund_not_reflected'' ''refund_not_reflected''
            (num (lc_refund_unbooked c) @ '' settled orders have a Razorpay refund or dispute your ledger still marks paid.'')
            (''Record the refunds/disputes against these orders so revenue isn'' @ [CHR 0x27] @ ''t overstated.'')
            (ledger_evidence ''unbooked_refunds'' (lc_refund_unbooked c) [])] else []))"

subsection \<open>Lemmas\<close>

definition bookings :: "order_entry list \<Rightarrow> string \<Rightarrow> order_entry list" where
  "bookings ledger oid = filter (\<lambda>e. o_order_id e = Some oid \<and> oid \<noteq> []) ledger"

lemma dget_ledger_by_order: "dget (ledger_by_order ledger) oid [] = bookings ledger oid"
proof -
  have "dget (foldl (\<lambda>d e. if truthy (o_order_id e) then dappend d (the (o_order_id e)) e else d) d ledger) oid [] =
      dget d oid [] @ bookings ledger oid" for d
    by (induction ledger arbitrary: d) (auto simp: bookings_def dget_dappend truthy_def)
  from this [of "[]"] show ?thesis by (simp add: ledger_by_order_def dget_def)
qed

lemma ledger_by_order_ok: "multi_ok (\<lambda>_. True) (\<lambda>_ _. True) (ledger_by_order ledger)"
  unfolding ledger_by_order_def by (rule foldl_invariant) (auto intro!: multi_ok_dappend)

lemma group_te: "dget (rows_by_te rows) k [] = filter (\<lambda>r. (r_type r, r_entity_id r) = k) rows"
proof -
  have "dget (foldl (\<lambda>d r. dappend d (r_type r, r_entity_id r) r) d rows) k [] =
      dget d k [] @ filter (\<lambda>r. (r_type r, r_entity_id r) = k) rows" for d
    by (induction rows arbitrary: d) (auto simp: dget_dappend)
  from this [of "[]"] show ?thesis by (simp add: rows_by_te_def dget_def)
qed

lemma ledger_covered_rowsD:
  assumes "r \<in> set (ledger_covered_rows recs rows)"
  shows "filter (\<lambda>x. (r_type x, r_entity_id x) = (r_type r, r_entity_id r)) rows = [r]"
    and "\<exists>rec \<in> set recs. rc_balanced rec \<and> (r_type r, r_entity_id r) \<in> set (rc_covered_entity_ids rec)"
proof -
  from assms obtain k where k: "k \<in> set (covered_keys recs)" "map_of (rows_by_te rows) k = Some [r]"
    by (auto simp: ledger_covered_rows_def split: option.splits list.splits)
  then have f: "filter (\<lambda>x. (r_type x, r_entity_id x) = k) rows = [r]"
    using group_te [of rows k] by (simp add: dget_def)
  then have "r \<in> set (filter (\<lambda>x. (r_type x, r_entity_id x) = k) rows)" by simp
  then have kr: "k = (r_type r, r_entity_id r)" by auto
  show "filter (\<lambda>x. (r_type x, r_entity_id x) = (r_type r, r_entity_id r)) rows = [r]" using f kr by simp
  show "\<exists>rec \<in> set recs. rc_balanced rec \<and> (r_type r, r_entity_id r) \<in> set (rc_covered_entity_ids rec)"
    using k(1) kr by (auto simp: covered_keys_def)
qed

lemma ledger_covered_rows_iff:
  "r \<in> set (ledger_covered_rows recs rows) \<longleftrightarrow>
     filter (\<lambda>x. (r_type x, r_entity_id x) = (r_type r, r_entity_id r)) rows = [r] \<and>
     (\<exists>rec \<in> set recs. rc_balanced rec \<and> (r_type r, r_entity_id r) \<in> set (rc_covered_entity_ids rec))"
proof
  assume "r \<in> set (ledger_covered_rows recs rows)"
  then show "filter (\<lambda>x. (r_type x, r_entity_id x) = (r_type r, r_entity_id r)) rows = [r] \<and>
     (\<exists>rec \<in> set recs. rc_balanced rec \<and> (r_type r, r_entity_id r) \<in> set (rc_covered_entity_ids rec))"
    using ledger_covered_rowsD by blast
next
  assume a: "filter (\<lambda>x. (r_type x, r_entity_id x) = (r_type r, r_entity_id r)) rows = [r] \<and>
     (\<exists>rec \<in> set recs. rc_balanced rec \<and> (r_type r, r_entity_id r) \<in> set (rc_covered_entity_ids rec))"
  then have "dget (rows_by_te rows) (r_type r, r_entity_id r) [] = [r]" by (simp add: group_te)
  then have m: "map_of (rows_by_te rows) (r_type r, r_entity_id r) = Some [r]"
    by (simp add: dget_def split: option.splits)
  from a have "(r_type r, r_entity_id r) \<in> set (covered_keys recs)" by (auto simp: covered_keys_def)
  then show "r \<in> set (ledger_covered_rows recs rows)"
    unfolding ledger_covered_rows_def by (auto simp: m intro!: bexI)
qed

text \<open>What the cross-check is about, stated without its intermediate lists: an order is settled when some payment row of
  it is the only row with its key and a balanced reconciliation covers that key.\<close>

definition row_settled :: "reconciliation list \<Rightarrow> recon_row list \<Rightarrow> recon_row \<Rightarrow> bool" where
  "row_settled recs rows r \<longleftrightarrow> filter (\<lambda>x. (r_type x, r_entity_id x) = (r_type r, r_entity_id r)) rows = [r] \<and>
     (\<exists>rec \<in> set recs. rc_balanced rec \<and> (r_type r, r_entity_id r) \<in> set (rc_covered_entity_ids rec))"

definition order_settled :: "reconciliation list \<Rightarrow> recon_row list \<Rightarrow> string \<Rightarrow> bool" where
  "order_settled recs rows oid \<longleftrightarrow> oid \<noteq> [] \<and>
     (\<exists>r \<in> set rows. row_settled recs rows r \<and> r_type r = ''payment'' \<and> r_order_id r = Some oid)"

definition order_refunded :: "reconciliation list \<Rightarrow> recon_row list \<Rightarrow> string \<Rightarrow> bool" where
  "order_refunded recs rows oid \<longleftrightarrow> order_settled recs rows oid \<and>
     (\<exists>r \<in> set rows. row_settled recs rows r \<and> r_order_id r = Some oid \<and> (r_type r = ''refund'' \<or> truthy (r_dispute_id r)))"

lemma row_settled_iff: "row_settled recs rows r \<longleftrightarrow> r \<in> set (ledger_covered_rows recs rows)"
  by (simp add: row_settled_def ledger_covered_rows_iff)

lemma covered_row_in: "r \<in> set (ledger_covered_rows recs rows) \<Longrightarrow> r \<in> set rows"
proof -
  assume "r \<in> set (ledger_covered_rows recs rows)"
  then have "r \<in> set (filter (\<lambda>x. (r_type x, r_entity_id x) = (r_type r, r_entity_id r)) rows)"
    using ledger_covered_rowsD(1) [of r recs rows] by simp
  then show "r \<in> set rows" by simp
qed

lemma settled_order_ids_iff:
  "oid \<in> set (settled_order_ids covered) \<longleftrightarrow> oid \<noteq> [] \<and> (\<exists>r \<in> set covered. r_type r = ''payment'' \<and> r_order_id r = Some oid)"
  by (force simp: settled_order_ids_def settled_payments_def truthy_def split: option.splits)

lemma covered_refund_order_ids_iff:
  "oid \<in> set (covered_refund_order_ids covered) \<longleftrightarrow> oid \<in> set (settled_order_ids covered) \<and>
     (\<exists>r \<in> set covered. r_order_id r = Some oid \<and> (r_type r = ''refund'' \<or> truthy (r_dispute_id r)))"
proof -
  have "oid \<in> set (settled_order_ids covered) \<Longrightarrow> oid \<noteq> []" by (simp add: settled_order_ids_iff)
  then show ?thesis by (force simp: covered_refund_order_ids_def truthy_def split: option.splits)
qed

lemma order_settled_iff:
  "order_settled recs rows oid \<longleftrightarrow> oid \<in> set (settled_order_ids (ledger_covered_rows recs rows))"
  unfolding order_settled_def settled_order_ids_iff row_settled_iff by (meson covered_row_in)

lemma order_refunded_iff:
  "order_refunded recs rows oid \<longleftrightarrow> oid \<in> set (covered_refund_order_ids (ledger_covered_rows recs rows))"
  unfolding order_refunded_def covered_refund_order_ids_iff order_settled_iff row_settled_iff by (meson covered_row_in)

lemma singleton_cases: "(case xs of [x] \<Rightarrow> Some x | _ \<Rightarrow> None) = Some y \<longleftrightarrow> xs = [y]"
  by (auto split: list.splits)

lemma singleton_test: "(case (case xs of [x] \<Rightarrow> Some x | _ \<Rightarrow> None) of None \<Rightarrow> False | Some y \<Rightarrow> P y) \<longleftrightarrow> (\<exists>y. xs = [y] \<and> P y)"
  by (auto split: list.splits)

lemma ledger_book_entry: "(oid, es) \<in> set (ledger_by_order ledger) \<Longrightarrow> es = bookings ledger oid"
proof -
  assume m: "(oid, es) \<in> set (ledger_by_order ledger)"
  have "distinct (map fst (ledger_by_order ledger))" using ledger_by_order_ok [of ledger] by (simp add: multi_ok_def dict_ok_def)
  with m have "dget (ledger_by_order ledger) oid [] = es" by (simp add: dget_def)
  then show ?thesis by (simp add: dget_ledger_by_order)
qed

lemma ledger_book_mem:
  assumes "bookings ledger oid \<noteq> []"
  shows "(oid, bookings ledger oid) \<in> set (ledger_by_order ledger)"
  using assms dget_ledger_by_order [of ledger oid] by (auto simp: dget_def split: option.splits dest: map_of_SomeD)

lemma lc_duplicates_iff:
  "oid \<in> set (lc_duplicates (ledger_classify ledger recs rows)) \<longleftrightarrow>
     order_settled recs rows oid \<and> length (bookings ledger oid) > 1"
proof -
  have "oid \<in> set (lc_duplicates (ledger_classify ledger recs rows)) \<longleftrightarrow>
      order_settled recs rows oid \<and> (\<exists>es. (oid, es) \<in> set (ledger_by_order ledger) \<and> length es > 1)"
    by (force simp: ledger_classify_def Let_def order_settled_iff)
  also have "(\<exists>es. (oid, es) \<in> set (ledger_by_order ledger) \<and> length es > 1) \<longleftrightarrow> length (bookings ledger oid) > 1"
  proof
    assume "length (bookings ledger oid) > 1"
    then show "\<exists>es. (oid, es) \<in> set (ledger_by_order ledger) \<and> length es > 1"
      by (intro exI [of _ "bookings ledger oid"] conjI ledger_book_mem) auto
  qed (auto dest: ledger_book_entry)
  finally show ?thesis .
qed

text \<open>The five discrepancy lists of the ledger cross-check are exactly the ones its contract describes, over orders
  whose payment provably arrived: an order is missing when the ledger never books it, in conflict on status or amount
  (beyond one rupee) or an unrecorded refund only when it is booked exactly once, and a duplicate exactly when it is
  booked more than once; and at most three summary exceptions leave the function.\<close>

theorem ledger_classes_exact:
  "(oid \<in> set (lc_missing (ledger_classify ledger recs rows)) \<longleftrightarrow> order_settled recs rows oid \<and> bookings ledger oid = []) \<and>
   (oid \<in> set (lc_status (ledger_classify ledger recs rows)) \<longleftrightarrow> order_settled recs rows oid \<and>
      (\<exists>b. bookings ledger oid = [b] \<and> \<not> is_paid (o_status b) \<and> \<not> (is_refund (o_status b) \<and> order_refunded recs rows oid))) \<and>
   (oid \<in> set (lc_amount (ledger_classify ledger recs rows)) \<longleftrightarrow> order_settled recs rows oid \<and>
      (\<exists>b. bookings ledger oid = [b] \<and>
         \<bar>o_amount_paise b - settled_payment_amount (ledger_covered_rows recs rows) oid\<bar> > 100)) \<and>
   (oid \<in> set (lc_duplicates (ledger_classify ledger recs rows)) \<longleftrightarrow>
      order_settled recs rows oid \<and> length (bookings ledger oid) > 1) \<and>
   (oid \<in> set (lc_refund_unbooked (ledger_classify ledger recs rows)) \<longleftrightarrow> order_refunded recs rows oid \<and>
      (\<exists>b. bookings ledger oid = [b] \<and> is_paid (o_status b) \<and> \<not> is_refund (o_status b))) \<and>
   length (reconcile_ledger ledger recs rows) \<le> 3"
proof (intro conjI)
  let ?c = "ledger_classify ledger recs rows"
  show "oid \<in> set (lc_missing ?c) \<longleftrightarrow> order_settled recs rows oid \<and> bookings ledger oid = []"
    by (simp add: ledger_classify_def Let_def dget_ledger_by_order order_settled_iff conj_commute)
  show "oid \<in> set (lc_status ?c) \<longleftrightarrow> order_settled recs rows oid \<and>
      (\<exists>b. bookings ledger oid = [b] \<and> \<not> is_paid (o_status b) \<and> \<not> (is_refund (o_status b) \<and> order_refunded recs rows oid))"
    by (simp add: ledger_classify_def Let_def dget_ledger_by_order order_settled_iff order_refunded_iff singleton_test)
  show "oid \<in> set (lc_amount ?c) \<longleftrightarrow> order_settled recs rows oid \<and> (\<exists>b. bookings ledger oid = [b] \<and>
      \<bar>o_amount_paise b - settled_payment_amount (ledger_covered_rows recs rows) oid\<bar> > 100)"
    by (simp add: ledger_classify_def Let_def dget_ledger_by_order order_settled_iff singleton_test LEDGER_DRIFT_PAISE_def)
  show "oid \<in> set (lc_duplicates ?c) \<longleftrightarrow> order_settled recs rows oid \<and> length (bookings ledger oid) > 1"
    by (rule lc_duplicates_iff)
  show "oid \<in> set (lc_refund_unbooked ?c) \<longleftrightarrow> order_refunded recs rows oid \<and>
      (\<exists>b. bookings ledger oid = [b] \<and> is_paid (o_status b) \<and> \<not> is_refund (o_status b))"
    by (simp add: ledger_classify_def Let_def dget_ledger_by_order order_refunded_iff singleton_test)
  show "length (reconcile_ledger ledger recs rows) \<le> 3"
    by (simp add: reconcile_ledger_def mismatch_exception_def Let_def)
qed

end
