(* ===== verification/SolverGraph.thy ===== *)
theory SolverGraph
  imports Splits "HOL-Library.Multiset"
begin

section \<open>The candidate graph of the global solver (\<open>engine/solver.py\<close>)\<close>

text \<open>
  \<open>build_candidate_graph\<close>: the edges a credit may be assigned by (abstention, a narration rail, a settlement it is
  tied to, a split of a settlement over two or three credits), the indices over them and the connected components
  of the credits that compete. Sets of strings are lists without repetitions; the one set whose iteration order
  reaches the result, \<open>_STRONG_RZP_SIGNALS\<close> in the evidence of a split, is iterated in an order \<open>so\<close> that is an
  argument, because Python does not fix it.
\<close>

record solver_node =
  sn_node_id :: string
  sn_kind :: string
  sn_amount_paise :: int
  sn_value_date :: "date option"
  sn_metadata :: "(string, string option) dict"

type_synonym cost = "int \<times> int \<times> int \<times> rat \<times> rat"

record candidate =
  ca_assignment_id :: string
  ca_credit_keys :: "string list"
  ca_target_id :: string
  ca_rail :: string
  ca_tier :: string
  ca_confidence :: rat
  ca_evidence :: "evidence_item list"
  ca_residual_paise :: int
  ca_cost :: cost
  ca_is_split :: bool

record assignment_graph =
  ag_credits :: "(string, solver_node) dict"
  ag_settlements :: "(string, solver_node) dict"
  ag_candidates :: "candidate list"
  ag_by_credit :: "(string, candidate list) dict"
  ag_by_settlement :: "(string, candidate list) dict"
  ag_components :: "string list list"
  ag_un_enumerable :: "string list"

definition MAX_SPLIT_COMBINATIONS :: int where
  "MAX_SPLIT_COMBINATIONS = 50000"

definition MAX_BRANCH_STEPS :: nat where
  "MAX_BRANCH_STEPS = 10000"

definition DEFAULT_THRESHOLD :: rat where
  "DEFAULT_THRESHOLD = fl (55 / 100)"

subsection \<open>Nodes\<close>

definition solver_credit :: "bank_line \<Rightarrow> bool" where
  "solver_credit l \<longleftrightarrow> ln_is_credit l \<and> ln_amount_paise l > 0"

definition credit_nodes :: "bank_line list \<Rightarrow> (string, solver_node) dict" where
  "credit_nodes lines = dict_of ln_key (\<lambda>l. \<lparr>sn_node_id = ln_key l, sn_kind = ''credit'', sn_amount_paise = ln_amount_paise l,
     sn_value_date = Some (ln_value_date l),
     sn_metadata = [(''narration'', Some (ln_narration l)), (''bank_ref'', ln_bank_ref l)]\<rparr>) (filter solver_credit lines)"

definition settlement_nodes :: "recon_index \<Rightarrow> (string, solver_node) dict" where
  "settlement_nodes ix = dict_of fst (\<lambda>(sid, net). \<lparr>sn_node_id = sid, sn_kind = ''settlement'', sn_amount_paise = net,
     sn_value_date = map_of (ix_settlement_date ix) sid, sn_metadata = []\<rparr>) (sort (ix_settlement_net ix))"

subsection \<open>Edges of one credit\<close>

definition abstain_edge :: "bank_line \<Rightarrow> candidate" where
  "abstain_edge l = \<lparr>ca_assignment_id = ln_key l @ ''->abstain'', ca_credit_keys = [ln_key l], ca_target_id = ''abstain'',
     ca_rail = rail_value UNKNOWN, ca_tier = tier_value TIER_B, ca_confidence = 0, ca_evidence = [], ca_residual_paise = 0,
     ca_cost = (0, ln_amount_paise l, 0, 0, 2), ca_is_split = False\<rparr>"

definition below :: "rat \<Rightarrow> rat option \<Rightarrow> bool" where
  "below score threshold \<longleftrightarrow> (case threshold of None \<Rightarrow> False | Some t \<Rightarrow> score < t)"

definition rail_edge :: "rat option \<Rightarrow> bank_line \<Rightarrow> rail \<times> evidence_item list \<Rightarrow> candidate list" where
  "rail_edge threshold l ri = (case ri of (rail, items) \<Rightarrow> let score = combine items; name = rail_value rail in
     if below score threshold then []
     else if score > 0
       then [\<lparr>ca_assignment_id = ln_key l @ ''->rail:'' @ name, ca_credit_keys = [ln_key l], ca_target_id = ''rail:'' @ name,
          ca_rail = name, ca_tier = tier_value TIER_B, ca_confidence = py_round 4 score, ca_evidence = items,
          ca_residual_paise = 0, ca_cost = (0, 0, 0, - py_round 4 score, 1 / 2), ca_is_split = False\<rparr>]
     else [])"

definition rail_edges :: "(string \<Rightarrow> string) \<Rightarrow> pack option \<Rightarrow> rat option \<Rightarrow> bank_line \<Rightarrow> candidate list" where
  "rail_edges nf pack threshold l =
     concat (map (rail_edge threshold l) (sort_key (rail_value \<circ> fst) (narration_rail_signals nf pack l)))"

text \<open>\<open>re.search\<close> of \<open>settlement_utr\s+([a-z0-9]+)\<close>, ignoring case: the group at the first match.\<close>

fun utr_in_detail :: "string \<Rightarrow> string option" where
  "utr_in_detail [] = None"
| "utr_in_detail (c # cs) = (let rest = drop 14 (c # cs); body = py_lstrip rest in
     if prefix ''settlement_utr'' (py_lower (c # cs)) \<and> length body < length rest \<and> takeWhile is_alnum body \<noteq> []
     then Some (takeWhile is_alnum body) else utr_in_detail cs)"

definition sid_list :: "string option \<Rightarrow> string list" where
  "sid_list sid = (if truthy sid then [the sid] else [])"

definition suffix_sids :: "recon_index \<Rightarrow> evidence_item list \<Rightarrow> string list" where
  "suffix_sids ix ev = concat (map (\<lambda>e. if ev_signal e = ''utr_suffix''
     then (case utr_in_detail (ev_detail e) of None \<Rightarrow> [] | Some u \<Rightarrow> sid_list (map_of (ix_utr_to_sid ix) (py_lower u)))
     else []) ev)"

definition exact_sids :: "(string \<Rightarrow> string) \<Rightarrow> recon_index \<Rightarrow> bank_line \<Rightarrow> string list" where
  "exact_sids nf ix l = (
     let tokens = extract_utr_tokens nf (ln_narration l) @ (if truthy (ln_bank_ref l) then [py_strip (the (ln_bank_ref l))] else [])
     in concat (map (\<lambda>tok. if utr_exact ix tok then sid_list (map_of (ix_utr_to_sid ix) (py_lower tok)) else []) tokens))"

definition amount_sids :: "recon_index \<Rightarrow> bank_line \<Rightarrow> string list" where
  "amount_sids ix l = filter (\<lambda>sid. case map_of (ix_settlement_date ix) sid of None \<Rightarrow> False
     | Some d \<Rightarrow> days_apart (ln_value_date l) d \<le> SPLIT_DATE_WINDOW) (dget (ix_net_to_settlements ix) (ln_amount_paise l) [])"

definition matched_sids :: "(string \<Rightarrow> string) \<Rightarrow> recon_index \<Rightarrow> bank_line \<Rightarrow> evidence_item list \<Rightarrow> string list" where
  "matched_sids nf ix l ev = sort (remdups ((if has_signal ''utr_exact'' ev then exact_sids nf ix l else [])
     @ suffix_sids ix ev @ (if has_signal ''amount_corr'' ev then amount_sids ix l else [])))"

definition settlement_edge :: "recon_index \<Rightarrow> bank_line \<Rightarrow> evidence_item list \<Rightarrow> bool \<Rightarrow> rat \<Rightarrow> string \<Rightarrow> candidate" where
  "settlement_edge ix l ev is_exact conf sid = (
     let residual = ln_amount_paise l - dget (ix_settlement_net ix) sid (ln_amount_paise l) in
     \<lparr>ca_assignment_id = ln_key l @ ''->'' @ sid, ca_credit_keys = [ln_key l], ca_target_id = sid,
      ca_rail = rail_value RAZORPAY_SETTLEMENT, ca_tier = tier_value (if is_exact then TIER_A else TIER_B),
      ca_confidence = py_round 4 conf, ca_evidence = ev, ca_residual_paise = residual,
      ca_cost = (0, 0, \<bar>residual\<bar>, - py_round 4 conf, if is_exact then 0 else 1), ca_is_split = False\<rparr>)"

definition settlement_edges :: "(string \<Rightarrow> string) \<Rightarrow> pack option \<Rightarrow> recon_index \<Rightarrow> rat option \<Rightarrow> bank_line \<Rightarrow> candidate list" where
  "settlement_edges nf pack ix threshold l = (
     let ev = razorpay_signals nf pack l ix in
     if \<not> list_ex (\<lambda>e. ev_signal e \<in> set RZP_TIE_SIGNALS) ev then []
     else let is_exact = has_signal ''utr_exact'' ev; conf = (if is_exact then fl (95 / 100) else combine ev) in
       if (case threshold of None \<Rightarrow> False | Some t \<Rightarrow> t > DEFAULT_THRESHOLD \<and> conf < t) then []
       else map (settlement_edge ix l ev is_exact conf) (matched_sids nf ix l ev))"

definition single_edges :: "(string \<Rightarrow> string) \<Rightarrow> pack option \<Rightarrow> recon_index \<Rightarrow> rat option \<Rightarrow> bank_line \<Rightarrow> candidate list" where
  "single_edges nf pack ix threshold l = (if solver_credit l
     then abstain_edge l # rail_edges nf pack threshold l @ settlement_edges nf pack ix threshold l else [])"

subsection \<open>Split edges\<close>

definition split_lines :: "(string \<Rightarrow> string) \<Rightarrow> pack option \<Rightarrow> recon_index \<Rightarrow> bank_line list \<Rightarrow> bank_line list" where
  "split_lines nf pack ix lines = filter (\<lambda>l. solver_credit l \<and> narration_rail_signals nf pack l = [] \<and>
     ''utr_exact'' \<notin> set (signals_of nf pack ix l)) lines"

definition tied_sids_by_key :: "(string \<Rightarrow> string) \<Rightarrow> pack option \<Rightarrow> recon_index \<Rightarrow> bank_line list \<Rightarrow> (string, string list) dict" where
  "tied_sids_by_key nf pack ix lines = foldl (\<lambda>d l. foldl (\<lambda>d sid. dset d (ln_key l) (set_add sid (dget d (ln_key l) [])))
     d (suffix_sids ix (razorpay_signals nf pack l ix))) [] (split_lines nf pack ix lines)"

definition split_pool :: "(string \<Rightarrow> string) \<Rightarrow> pack option \<Rightarrow> recon_index \<Rightarrow> bank_line list \<Rightarrow> bank_line list" where
  "split_pool nf pack ix lines = filter (\<lambda>l. intersects RZP_LEANING_SIGNALS (signals_of nf pack ix l)) (split_lines nf pack ix lines)"

definition solver_eligible :: "recon_index \<Rightarrow> (string, string list) dict \<Rightarrow> bank_line list \<Rightarrow> string \<Rightarrow> bank_line list" where
  "solver_eligible ix tied pool sid = (case (map_of (ix_settlement_net ix) sid, map_of (ix_settlement_date ix) sid) of
     (Some net, Some sdate) \<Rightarrow> if net \<le> 0 then []
        else filter (\<lambda>c. ln_amount_paise c < net \<and> days_apart (ln_value_date c) sdate \<le> SPLIT_DATE_WINDOW \<and>
          (dget tied (ln_key c) [] = [] \<or> sid \<in> set (dget tied (ln_key c) []))) pool
   | _ \<Rightarrow> [])"

definition split_combinations :: "int \<Rightarrow> int" where
  "split_combinations n = (n * (n - 1)) div 2 + (n * (n - 1) * (n - 2)) div 6"

definition leg_evidence :: "(string \<Rightarrow> string) \<Rightarrow> pack option \<Rightarrow> recon_index \<Rightarrow> string list \<Rightarrow> (string, string list) dict \<Rightarrow>
    evidence_item list \<Rightarrow> bank_line \<Rightarrow> evidence_item list" where
  "leg_evidence nf pack ix so sig_by_key ev c = foldl (\<lambda>ev sig. if sig \<in> set (dget sig_by_key (ln_key c) [])
     then foldl (\<lambda>ev item. if ev_signal item = sig \<and> item \<notin> set ev then ev @ [item] else ev) ev (razorpay_signals nf pack c ix)
     else ev) ev so"

definition balance_evidence :: "nat \<Rightarrow> string \<Rightarrow> evidence_item" where
  "balance_evidence n sid = EvidenceItem ''split_reconstruction'' (''1 of '' @ str_int (int n) @
     '' bank legs whose amounts uniquely sum to balance the settlement net for '' @ sid) SPLIT_CONFIDENCE"

definition split_edge :: "(string \<Rightarrow> string) \<Rightarrow> pack option \<Rightarrow> recon_index \<Rightarrow> string list \<Rightarrow> (string, string list) dict \<Rightarrow>
    string \<Rightarrow> int \<Rightarrow> bank_line list \<Rightarrow> candidate" where
  "split_edge nf pack ix so sig_by_key sid net sub = (
     let sub_keys = sort (map ln_key sub); residual = amount_sum sub - net in
     \<lparr>ca_assignment_id = ''split:'' @ sid @ '':'' @ py_join ''+'' sub_keys, ca_credit_keys = sub_keys, ca_target_id = sid,
      ca_rail = rail_value RAZORPAY_SETTLEMENT, ca_tier = tier_value TIER_C, ca_confidence = SPLIT_CONFIDENCE,
      ca_evidence = foldl (leg_evidence nf pack ix so sig_by_key) [balance_evidence (length sub) sid] sub,
      ca_residual_paise = residual, ca_cost = (0, 0, \<bar>residual\<bar>, - SPLIT_CONFIDENCE, 3 / 2), ca_is_split = True\<rparr>)"

text \<open>One settlement: an oversized pool poisons its credits, otherwise every provable subset with a strong signal whose
  legs are not poisoned so far becomes an edge.\<close>

definition split_step :: "(string \<Rightarrow> string) \<Rightarrow> pack option \<Rightarrow> recon_index \<Rightarrow> string list \<Rightarrow> nat \<Rightarrow> int \<Rightarrow> (string, string list) dict \<Rightarrow>
    (string, string list) dict \<Rightarrow> bank_line list \<Rightarrow> string list \<times> candidate list \<Rightarrow> string \<Rightarrow> string list \<times> candidate list" where
  "split_step nf pack ix so max_candidates max_combinations tied sig_by_key pool st sid = (case st of (poisoned, cands) \<Rightarrow>
     let elig = solver_eligible ix tied pool sid; n = length elig; net = dget (ix_settlement_net ix) sid 0 in
     if n < 2 then (poisoned, cands)
     else if n > max_candidates \<or> split_combinations (int n) > max_combinations
       then (foldl (\<lambda>s c. set_add (ln_key c) s) poisoned elig, cands)
     else (poisoned, cands @ map (split_edge nf pack ix so sig_by_key sid net)
       (filter (\<lambda>sub. list_ex (\<lambda>c. intersects STRONG_RZP_SIGNALS (dget sig_by_key (ln_key c) [])) sub \<and>
           \<not> list_ex (\<lambda>c. ln_key c \<in> set poisoned) sub)
         (all_sum_subsets elig net SPLIT_DRIFT_PAISE SPLIT_MAX_LEGS))))"

definition split_edges :: "(string \<Rightarrow> string) \<Rightarrow> pack option \<Rightarrow> recon_index \<Rightarrow> string list \<Rightarrow> nat \<Rightarrow> int \<Rightarrow> rat option \<Rightarrow>
    bank_line list \<Rightarrow> string list \<times> candidate list" where
  "split_edges nf pack ix so max_candidates max_combinations threshold lines = (
     if below SPLIT_CONFIDENCE threshold then ([], [])
     else let pool = split_pool nf pack ix lines in
       foldl (split_step nf pack ix so max_candidates max_combinations (tied_sids_by_key nf pack ix lines)
         (dict_of ln_key (signals_of nf pack ix) pool) pool) ([], []) (settlement_order ix))"

subsection \<open>Indices and components\<close>

definition index_by_credit :: "candidate list \<Rightarrow> (string, candidate list) dict" where
  "index_by_credit cands = foldl (\<lambda>d c. foldl (\<lambda>d k. dappend d k c) d (ca_credit_keys c)) [] cands"

definition index_by_settlement :: "(string, solver_node) dict \<Rightarrow> candidate list \<Rightarrow> (string, candidate list) dict" where
  "index_by_settlement settlements cands =
     foldl (\<lambda>d c. if has_key settlements (ca_target_id c) then dappend d (ca_target_id c) c else d) [] cands"

definition add_edge :: "(string, string list) dict \<Rightarrow> string \<Rightarrow> string \<Rightarrow> (string, string list) dict" where
  "add_edge adj x y = (let adj' = dset adj x (set_add y (dget adj x [])) in dset adj' y (set_add x (dget adj' y [])))"

fun link_all :: "(string, string list) dict \<Rightarrow> string list \<Rightarrow> (string, string list) dict" where
  "link_all adj [] = adj"
| "link_all adj (k # ks) = link_all (foldl (\<lambda>a j. add_edge a k j) adj ks) ks"

definition adjacency :: "(string, solver_node) dict \<Rightarrow> (string, candidate list) dict \<Rightarrow> (string, string list) dict" where
  "adjacency credits by_settlement = foldl (\<lambda>adj (sid, cs). link_all adj (sort (remdups (concat (map ca_credit_keys cs)))))
     (map (\<lambda>(k, _). (k, [])) credits) by_settlement"

definition fresh :: "(string, string list) dict \<Rightarrow> string list \<Rightarrow> string \<Rightarrow> string list" where
  "fresh adj visited k = remdups (filter (\<lambda>n. n \<notin> set visited) (sort (dget adj k [])))"

function bfs :: "(string, string list) dict \<Rightarrow> string list \<Rightarrow> string list \<Rightarrow> string list \<Rightarrow> string list \<times> string list" where
  "bfs adj visited [] cm = (cm, visited)"
| "bfs adj visited (k # queue) cm =
     bfs adj (visited @ fresh adj visited k) (queue @ fresh adj visited k) (cm @ [k])"
  by pat_completeness auto

definition reach_set :: "(string, string list) dict \<Rightarrow> string set" where
  "reach_set adj = (\<Union>(k, ns) \<in> set adj. set ns)"

lemma fresh_props:
  "distinct (fresh adj visited k)" "set (fresh adj visited k) = set (dget adj k []) - set visited"
  by (auto simp: fresh_def)

lemma dget_reach: "set (dget adj k []) \<subseteq> reach_set adj"
proof (cases "map_of adj k")
  case (Some ns)
  then have "(k, ns) \<in> set adj" by (rule map_of_SomeD)
  with Some show ?thesis by (auto simp: dget_def reach_set_def intro!: bexI [of _ "(k, ns)"])
qed (simp add: dget_def)

lemma finite_reach [simp]: "finite (reach_set adj)"
  by (auto simp: reach_set_def)

lemma fresh_decreases:
  "2 * card (reach_set adj - set (visited @ fresh adj visited k)) + length (fresh adj visited k) \<le> 2 * card (reach_set adj - set visited)"
proof -
  let ?f = "set (fresh adj visited k)"
  have sub: "?f \<subseteq> reach_set adj - set visited" using dget_reach [of adj k] by (auto simp: fresh_props)
  have "reach_set adj - set (visited @ fresh adj visited k) = (reach_set adj - set visited) - ?f" by auto
  then have "card (reach_set adj - set (visited @ fresh adj visited k)) = card (reach_set adj - set visited) - card ?f"
    using sub by (simp add: card_Diff_subset)
  moreover have "card ?f = length (fresh adj visited k)" by (rule distinct_card [OF fresh_props(1)])
  moreover have "card ?f \<le> card (reach_set adj - set visited)" by (rule card_mono) (use sub in auto)
  ultimately show ?thesis by simp
qed

termination bfs
proof (relation "measure (\<lambda>(adj, visited, queue, cm). 2 * card (reach_set adj - set visited) + length queue)")
  fix adj visited k queue cm
  show "((adj, visited @ fresh adj visited k, queue @ fresh adj visited k, cm @ [k]), adj, visited, k # queue, cm)
      \<in> measure (\<lambda>(adj, visited, queue, cm). 2 * card (reach_set adj - set visited) + length queue)"
    using fresh_decreases [of adj visited k] by simp
qed simp

definition component_step :: "(string, string list) dict \<Rightarrow> string list \<times> string list list \<Rightarrow> string \<Rightarrow> string list \<times> string list list" where
  "component_step adj st k = (case st of (visited, comps) \<Rightarrow> if k \<in> set visited then (visited, comps)
     else (case bfs adj (visited @ [k]) [k] [] of (cm, visited') \<Rightarrow> (visited', comps @ [sort cm])))"

definition solver_components :: "(string, solver_node) dict \<Rightarrow> (string, string list) dict \<Rightarrow> string list list" where
  "solver_components credits adj = sort_key (\<lambda>c. (length c, hd c))
     (snd (foldl (component_step adj) ([], []) (sort (map fst credits))))"

subsection \<open>\<open>build_candidate_graph\<close>\<close>

definition graph_candidates :: "(string \<Rightarrow> string) \<Rightarrow> pack option \<Rightarrow> recon_index \<Rightarrow> string list \<Rightarrow> nat \<Rightarrow> int \<Rightarrow> rat option \<Rightarrow>
    bank_line list \<Rightarrow> candidate list" where
  "graph_candidates nf pack ix so max_candidates max_combinations threshold lines = (
     case split_edges nf pack ix so max_candidates max_combinations threshold lines of (poisoned, splits) \<Rightarrow>
       sort_key (\<lambda>c. (ca_credit_keys c, ca_target_id c, ca_assignment_id c))
         (filter (\<lambda>c. \<not> (ca_is_split c \<and> list_ex (\<lambda>k. k \<in> set poisoned) (ca_credit_keys c)))
           (concat (map (single_edges nf pack ix threshold) lines) @ splits)))"

definition build_candidate_graph :: "(string \<Rightarrow> string) \<Rightarrow> pack option \<Rightarrow> recon_index \<Rightarrow> string list \<Rightarrow> nat \<Rightarrow> int \<Rightarrow> rat option \<Rightarrow>
    bank_line list \<Rightarrow> assignment_graph" where
  "build_candidate_graph nf pack ix so max_candidates max_combinations threshold lines = (
     let credits = credit_nodes lines; settlements = settlement_nodes ix;
         cands = graph_candidates nf pack ix so max_candidates max_combinations threshold lines;
         by_settlement = index_by_settlement settlements cands
     in \<lparr>ag_credits = credits, ag_settlements = settlements, ag_candidates = cands, ag_by_credit = index_by_credit cands,
         ag_by_settlement = by_settlement, ag_components = solver_components credits (adjacency credits by_settlement),
         ag_un_enumerable = fst (split_edges nf pack ix so max_candidates max_combinations threshold lines)\<rparr>)"

subsection \<open>Where the edges come from\<close>

definition split_proven :: "(string \<Rightarrow> string) \<Rightarrow> pack option \<Rightarrow> recon_index \<Rightarrow> bank_line list \<Rightarrow> candidate \<Rightarrow> bool" where
  "split_proven nf pack ix lines c \<longleftrightarrow> (\<exists>sub. set sub \<subseteq> set (split_pool nf pack ix lines) \<and> 2 \<le> length sub \<and> length sub \<le> 3 \<and>
     ca_credit_keys c = sort (map ln_key sub) \<and> has_key (ix_settlement_net ix) (ca_target_id c) \<and>
     \<bar>amount_sum sub - dget (ix_settlement_net ix) (ca_target_id c) 0\<bar> \<le> 100 \<and>
     (\<exists>l \<in> set sub. \<exists>l' \<in> set (split_pool nf pack ix lines). ln_key l' = ln_key l \<and>
        intersects STRONG_RZP_SIGNALS (signals_of nf pack ix l')))"

lemma solver_eligible_pool: "set (solver_eligible ix tied pool sid) \<subseteq> set pool"
  by (auto simp: solver_eligible_def split: option.splits)

lemma split_edge_sel [simp]:
  "ca_credit_keys (split_edge nf pack ix so sig sid net sub) = sort (map ln_key sub)"
  "ca_target_id (split_edge nf pack ix so sig sid net sub) = sid"
  "ca_rail (split_edge nf pack ix so sig sid net sub) = rail_value RAZORPAY_SETTLEMENT"
  "ca_is_split (split_edge nf pack ix so sig sid net sub)"
  "ca_cost (split_edge nf pack ix so sig sid net sub) = (0, 0, \<bar>amount_sum sub - net\<bar>, - SPLIT_CONFIDENCE, 3 / 2)"
  by (simp_all add: split_edge_def Let_def)

lemma settlement_edge_sel [simp]:
  "ca_credit_keys (settlement_edge ix l ev ex conf sid) = [ln_key l]"
  "ca_target_id (settlement_edge ix l ev ex conf sid) = sid"
  "ca_rail (settlement_edge ix l ev ex conf sid) = rail_value RAZORPAY_SETTLEMENT"
  "\<not> ca_is_split (settlement_edge ix l ev ex conf sid)"
  "ca_evidence (settlement_edge ix l ev ex conf sid) = ev"
  by (simp_all add: settlement_edge_def Let_def)

lemma abstain_edge_sel [simp]:
  "ca_credit_keys (abstain_edge l) = [ln_key l]" "ca_target_id (abstain_edge l) = ''abstain''"
  "ca_rail (abstain_edge l) = rail_value UNKNOWN" "\<not> ca_is_split (abstain_edge l)"
  by (simp_all add: abstain_edge_def)

lemma rail_edgesD:
  assumes "c \<in> set (rail_edges nf pack th l)"
  shows "ca_credit_keys c = [ln_key l]" "\<not> ca_is_split c" "ca_target_id c = ''rail:'' @ ca_rail c"
    and "\<exists>rail. rail \<in> fst ` set (narration_rail_signals nf pack l) \<and> ca_rail c = rail_value rail"
    and "fst (ca_cost c) = 0" "fst (snd (ca_cost c)) = 0"
  using assms by (force simp: rail_edges_def rail_edge_def Let_def split: if_splits)+

lemma dict_of_strong:
  assumes "list_ex (\<lambda>c. intersects STRONG_RZP_SIGNALS (dget (dict_of ln_key f pool) (ln_key c) [])) sub"
  shows "\<exists>l \<in> set sub. \<exists>l' \<in> set pool. ln_key l' = ln_key l \<and> intersects STRONG_RZP_SIGNALS (f l')"
proof -
  from assms obtain l where l: "l \<in> set sub" "intersects STRONG_RZP_SIGNALS (dget (dict_of ln_key f pool) (ln_key l) [])"
    by (auto simp: list_ex_iff)
  then obtain v where "map_of (dict_of ln_key f pool) (ln_key l) = Some v" "intersects STRONG_RZP_SIGNALS v"
    by (cases "map_of (dict_of ln_key f pool) (ln_key l)") (auto simp: dget_def intersects_def list_ex_iff)
  with l(1) show ?thesis using map_of_dict_of_SomeD [of ln_key f pool "ln_key l" v] by auto
qed

lemma split_edges_proven:
  assumes "c \<in> set (snd (split_edges nf pack ix so mc mb th lines))"
  shows "split_proven nf pack ix lines c \<and> ca_is_split c \<and> ca_rail c = rail_value RAZORPAY_SETTLEMENT \<and>
    fst (ca_cost c) = 0 \<and> fst (snd (ca_cost c)) = 0"
proof -
  let ?pool = "split_pool nf pack ix lines"
  let ?sig = "dict_of ln_key (signals_of nf pack ix) ?pool"
  let ?P = "\<lambda>c. split_proven nf pack ix lines c \<and> ca_is_split c \<and> ca_rail c = rail_value RAZORPAY_SETTLEMENT \<and>
    fst (ca_cost c) = 0 \<and> fst (snd (ca_cost c)) = 0"
  have edge: "?P (split_edge nf pack ix so ?sig sid (dget (ix_settlement_net ix) sid 0) sub)"
    if sid: "sid \<in> set (settlement_order ix)" and sub: "sub \<in> set (all_sum_subsets (solver_eligible ix tied ?pool sid)
      (dget (ix_settlement_net ix) sid 0) SPLIT_DRIFT_PAISE SPLIT_MAX_LEGS)"
      and st: "list_ex (\<lambda>c. intersects STRONG_RZP_SIGNALS (dget ?sig (ln_key c) [])) sub" for sid sub tied
  proof -
    note s = all_sum_subsets_sound [OF sub]
    then have "set sub \<subseteq> set ?pool" using subseq_subset solver_eligible_pool by fast
    then show ?thesis
      using s dict_of_strong [OF st] sid unfolding split_proven_def
      by (auto intro!: exI [of _ sub] simp: settlement_order_def has_key_iff SPLIT_DRIFT_PAISE_def SPLIT_MAX_LEGS_def)
  qed
  have "\<forall>c \<in> set (snd (foldl (split_step nf pack ix so mc mb tied ?sig ?pool) ([], []) (settlement_order ix))). ?P c" for tied
  proof (rule foldl_invariant [where P = "\<lambda>st. \<forall>c \<in> set (snd st). ?P c"], simp, goal_cases)
    case (1 st sid)
    obtain p cs where st: "st = (p, cs)" by (cases st)
    have "set (snd (split_step nf pack ix so mc mb tied ?sig ?pool st sid)) \<subseteq> set cs \<union>
        split_edge nf pack ix so ?sig sid (dget (ix_settlement_net ix) sid 0) `
          {sub \<in> set (all_sum_subsets (solver_eligible ix tied ?pool sid) (dget (ix_settlement_net ix) sid 0) SPLIT_DRIFT_PAISE SPLIT_MAX_LEGS).
             list_ex (\<lambda>c. intersects STRONG_RZP_SIGNALS (dget ?sig (ln_key c) [])) sub}"
      by (auto simp: split_step_def st Let_def)
    with 1 edge st show ?case by (auto dest!: subsetD)
  qed
  with assms show ?thesis by (auto simp: split_edges_def Let_def split: if_splits)
qed

lemma settlement_edgesD:
  assumes "c \<in> set (settlement_edges nf pack ix th l)"
  obtains sid ex conf where "c = settlement_edge ix l (razorpay_signals nf pack l ix) ex conf sid"
    and "sid \<in> set (matched_sids nf ix l (razorpay_signals nf pack l ix))"
    and "list_ex (\<lambda>e. ev_signal e \<in> set RZP_TIE_SIGNALS) (razorpay_signals nf pack l ix)"
  using assms by (auto simp: settlement_edges_def Let_def split: if_splits)

lemma graph_candidates_cases:
  assumes "c \<in> set (graph_candidates nf pack ix so mc mb th lines)"
  obtains (abstain) l where "l \<in> set lines" "solver_credit l" "c = abstain_edge l"
  | (rail) l where "l \<in> set lines" "solver_credit l" "c \<in> set (rail_edges nf pack th l)"
  | (settlement) l where "l \<in> set lines" "solver_credit l" "c \<in> set (settlement_edges nf pack ix th l)"
  | (split) "c \<in> set (snd (split_edges nf pack ix so mc mb th lines))"
proof -
  from assms have "(\<exists>l \<in> set lines. c \<in> set (single_edges nf pack ix th l)) \<or> c \<in> set (snd (split_edges nf pack ix so mc mb th lines))"
    by (cases "split_edges nf pack ix so mc mb th lines") (auto simp: graph_candidates_def)
  then show thesis using that by (auto simp: single_edges_def split: if_splits)
qed

lemma split_pool_credit: "l \<in> set (split_pool nf pack ix lines) \<Longrightarrow> l \<in> set lines \<and> solver_credit l"
  by (auto simp: split_pool_def split_lines_def)

lemma graph_candidates_keys:
  assumes "c \<in> set (graph_candidates nf pack ix so mc mb th lines)"
  shows "ca_credit_keys c \<noteq> [] \<and> set (ca_credit_keys c) \<subseteq> ln_key ` set (filter solver_credit lines) \<and>
    fst (ca_cost c) \<ge> 0 \<and> fst (snd (ca_cost c)) \<ge> 0"
  using assms
proof (cases rule: graph_candidates_cases)
  case split
  from split_edges_proven [OF this] obtain sub where sub: "set sub \<subseteq> set (split_pool nf pack ix lines)" "2 \<le> length sub"
    "ca_credit_keys c = sort (map ln_key sub)" "fst (ca_cost c) = 0" "fst (snd (ca_cost c)) = 0"
    by (auto simp: split_proven_def)
  have "ca_credit_keys c \<noteq> []"
  proof
    assume "ca_credit_keys c = []"
    then have "length (sort (map ln_key sub)) = 0" using sub(3) by (metis list.size(3))
    then show False using sub(2) by simp
  qed
  moreover have "set (ca_credit_keys c) \<subseteq> ln_key ` set (filter solver_credit lines)"
    using sub(1) split_pool_credit unfolding sub(3) by fastforce
  ultimately show ?thesis using sub by auto
next
  case (settlement l)
  then show ?thesis by (auto elim!: settlement_edgesD simp: settlement_edge_def Let_def)
next
  case (rail l)
  then show ?thesis using rail_edgesD [OF rail(3)] by auto
qed (auto simp: abstain_edge_def solver_credit_def)

subsection \<open>The interface of the search\<close>

definition cost_ok :: "cost \<Rightarrow> bool" where
  "cost_ok t \<longleftrightarrow> fst t \<ge> 0 \<and> fst (snd t) \<ge> 0"

text \<open>What the search relies on, whichever way the graph was built: the index by credit is complete and sound, and the
  first two tiers of every cost are not negative.\<close>

locale assignment_problem =
  fixes g :: assignment_graph
  assumes indexed: "c \<in> set (dget (ag_by_credit g) k []) \<longleftrightarrow> c \<in> set (ag_candidates g) \<and> k \<in> set (ca_credit_keys c)"
    and cost_nonneg: "c \<in> set (ag_candidates g) \<Longrightarrow> cost_ok (ca_cost c)"

lemma dget_append_keys:
  "dget (foldl (\<lambda>d k. dappend d k c) d ks) k [] = dget d k [] @ replicate (count_list ks k) c"
  by (induction ks arbitrary: d) (auto simp: dget_dappend replicate_app_Cons_same)

lemma dget_index_by_credit:
  "dget (index_by_credit cands) k [] = concat (map (\<lambda>c. replicate (count_list (ca_credit_keys c) k) c) cands)"
proof -
  have "dget (foldl (\<lambda>d c. foldl (\<lambda>d k. dappend d k c) d (ca_credit_keys c)) d cands) k [] =
      dget d k [] @ concat (map (\<lambda>c. replicate (count_list (ca_credit_keys c) k) c) cands)" for d
    by (induction cands arbitrary: d) (auto simp: dget_append_keys)
  from this [of "[]"] show ?thesis by (simp add: index_by_credit_def dget_def)
qed

lemma index_by_credit_iff: "c \<in> set (dget (index_by_credit cands) k []) \<longleftrightarrow> c \<in> set cands \<and> k \<in> set (ca_credit_keys c)"
  by (auto simp: dget_index_by_credit count_list_0_iff)

interpretation built: assignment_problem "build_candidate_graph nf pack ix so mc mb th lines"
  for nf pack ix so mc mb th lines
proof
  fix c k
  show "c \<in> set (dget (ag_by_credit (build_candidate_graph nf pack ix so mc mb th lines)) k []) \<longleftrightarrow>
      c \<in> set (ag_candidates (build_candidate_graph nf pack ix so mc mb th lines)) \<and> k \<in> set (ca_credit_keys c)"
    by (simp add: build_candidate_graph_def Let_def index_by_credit_iff)
next
  fix c
  assume "c \<in> set (ag_candidates (build_candidate_graph nf pack ix so mc mb th lines))"
  then show "cost_ok (ca_cost c)"
    using graph_candidates_keys [of c nf pack ix so mc mb th lines] by (simp add: build_candidate_graph_def Let_def cost_ok_def)
qed

subsection \<open>Components\<close>

declare set_set_add [simp]

lemma add_edge_nbrs: "set (dget (add_edge adj x y) z []) = set (dget adj z []) \<union> (if z = x then {y} else {}) \<union> (if z = y then {x} else {})"
  by (auto simp: add_edge_def Let_def)

lemma add_edges_nbrs:
  "set (dget (foldl (\<lambda>a j. add_edge a k j) adj ks) z []) = set (dget adj z []) \<union> (if z = k then set ks else {}) \<union> (if z \<in> set ks then {k} else {})"
  by (induction ks arbitrary: adj) (auto simp: add_edge_nbrs)

lemma link_all_nbrs:
  "distinct ks \<Longrightarrow> set (dget (link_all adj ks) z []) = set (dget adj z []) \<union> {y \<in> set ks. z \<in> set ks \<and> y \<noteq> z}"
  by (induction ks arbitrary: adj) (auto simp: add_edges_nbrs)

definition group_keys :: "candidate list \<Rightarrow> string set" where
  "group_keys cs = (\<Union>c \<in> set cs. set (ca_credit_keys c))"

lemma adjacency_nbrs:
  "set (dget (adjacency credits bs) z []) = {y. y \<noteq> z \<and> (\<exists>(sid, cs) \<in> set bs. y \<in> group_keys cs \<and> z \<in> group_keys cs)}"
proof -
  have "set (dget (foldl (\<lambda>adj (sid, cs). link_all adj (sort (remdups (concat (map ca_credit_keys cs))))) adj bs) z []) =
      set (dget adj z []) \<union> {y. y \<noteq> z \<and> (\<exists>(sid, cs) \<in> set bs. y \<in> group_keys cs \<and> z \<in> group_keys cs)}" for adj
  proof (induction bs arbitrary: adj)
    case (Cons b bs)
    obtain sid cs where b: "b = (sid, cs)" by (cases b)
    have "set (dget (link_all adj (sort (remdups (concat (map ca_credit_keys cs))))) z []) =
        set (dget adj z []) \<union> {y. y \<noteq> z \<and> y \<in> group_keys cs \<and> z \<in> group_keys cs}"
      by (auto simp: link_all_nbrs group_keys_def)
    then show ?case by (auto simp: b Cons.IH)
  qed simp
  moreover have "dget (map (\<lambda>(k, _). (k, [] :: string list)) credits) z [] = []"
    by (induction credits) (auto simp: dget_def)
  ultimately show ?thesis by (simp add: adjacency_def)
qed

lemma bfs_result:
  "bfs adj V Q C = (C', V') \<Longrightarrow> set C \<union> set Q \<subseteq> set V \<Longrightarrow> distinct (C @ Q) \<Longrightarrow>
     distinct C' \<and> set V \<subseteq> set V' \<and> set C' = set C \<union> set Q \<union> (set V' - set V) \<and>
     (\<forall>x \<in> set C' - set C. set (dget adj x []) \<subseteq> set V') \<and> set V' \<subseteq> set V \<union> (\<Union>x. set (dget adj x []))"
proof (induction adj V Q C rule: bfs.induct)
  case (2 adj V k Q C)
  let ?f = "fresh adj V k"
  have f: "distinct ?f" "set ?f = set (dget adj k []) - set V" by (rule fresh_props)+
  have d: "distinct ((C @ [k]) @ Q @ ?f)" using 2(4) 2(3) f by auto
  have sub: "set (C @ [k]) \<union> set (Q @ ?f) \<subseteq> set (V @ ?f)" using 2(3) by auto
  have b: "bfs adj (V @ ?f) (Q @ ?f) (C @ [k]) = (C', V')" using 2(2) by simp
  note IH = 2(1) [OF b sub d]
  have fr: "set ?f \<subseteq> (\<Union>x. set (dget adj x []))" using f(2) by blast
  have "set (dget adj k []) \<subseteq> set V'" using IH f(2) by auto
  moreover have "set C' = set C \<union> set (k # Q) \<union> (set V' - set V)" using IH 2(3) f(2) by auto
  ultimately show ?case using IH fr by auto
qed auto

text \<open>The state of the outer loop: what was visited is the union of the components so far, which are closed.\<close>

definition comps_ok :: "(string, string list) dict \<Rightarrow> string set \<Rightarrow> string list \<times> string list list \<Rightarrow> bool" where
  "comps_ok adj K st \<longleftrightarrow> (case st of (V, comps) \<Rightarrow> set V = set (concat comps) \<and> set V \<subseteq> K \<and> distinct (concat comps) \<and>
     [] \<notin> set comps \<and> (\<forall>cm \<in> set comps. \<forall>x \<in> set cm. set (dget adj x []) \<subseteq> set cm))"

lemma component_step_ok:
  assumes ok: "comps_ok adj K st" and k: "k \<in> K" and reach: "\<And>x. set (dget adj x []) \<subseteq> K"
    and sym: "\<And>x y. y \<in> set (dget adj x []) \<Longrightarrow> x \<in> set (dget adj y [])"
  shows "comps_ok adj K (component_step adj st k) \<and> set (fst st) \<union> {k} \<subseteq> set (fst (component_step adj st k))"
proof -
  obtain V comps where st: "st = (V, comps)" by (cases st)
  show ?thesis
  proof (cases "k \<in> set V")
    case True
    then show ?thesis using ok st by (simp add: component_step_def)
  next
    case False
    obtain C V' where b: "bfs adj (V @ [k]) [k] [] = (C, V')" by (cases "bfs adj (V @ [k]) [k] []")
    have r: "distinct C" "set (V @ [k]) \<subseteq> set V'" "set C = {k} \<union> (set V' - set (V @ [k]))"
      "\<And>x. x \<in> set C \<Longrightarrow> set (dget adj x []) \<subseteq> set V'" "set V' \<subseteq> set (V @ [k]) \<union> (\<Union>x. set (dget adj x []))"
      using bfs_result [OF b] by auto
    have V: "set V = set (concat comps)" "set V \<subseteq> K" "distinct (concat comps)" "[] \<notin> set comps"
      and cl: "\<And>cm x. cm \<in> set comps \<Longrightarrow> x \<in> set cm \<Longrightarrow> set (dget adj x []) \<subseteq> set cm"
      using ok st by (auto simp: comps_ok_def)
    have CV: "set C \<inter> set V = {}" "set V' = set V \<union> set C" using r False by auto
    have "set (dget adj x []) \<subseteq> set C" if x: "x \<in> set C" for x
    proof
      fix y assume y: "y \<in> set (dget adj x [])"
      show "y \<in> set C"
      proof (rule ccontr)
        assume "y \<notin> set C"
        then have "y \<in> set V" using r(4) [OF x] y CV(2) by auto
        then obtain cm where "cm \<in> set comps" "y \<in> set cm" using V(1) by auto
        then have "x \<in> set V" using cl [of cm y] sym [OF y] V(1) by auto
        then show False using CV(1) x by auto
      qed
    qed
    moreover have "sort C \<noteq> []"
    proof
      assume "sort C = []"
      then have "set (sort C) = {}" by (simp only: list.set)
      then show False using r(3) by simp
    qed
    moreover have "set V' \<subseteq> K" using r(5) V(2) k reach by (auto dest!: subsetD)
    ultimately show ?thesis
      using False b V cl CV r(1,2) by (auto simp: st component_step_def comps_ok_def)
  qed
qed

lemma solver_components_ok:
  assumes reach: "\<And>x. set (dget adj x []) \<subseteq> set (map fst credits)"
    and sym: "\<And>x y. y \<in> set (dget adj x []) \<Longrightarrow> x \<in> set (dget adj y [])"
  shows "distinct (concat (solver_components credits adj)) \<and> set (concat (solver_components credits adj)) = set (map fst credits) \<and>
    [] \<notin> set (solver_components credits adj) \<and>
    (\<forall>cm \<in> set (solver_components credits adj). \<forall>x \<in> set cm. set (dget adj x []) \<subseteq> set cm)"
proof -
  let ?K = "set (map fst credits)"
  let ?st = "foldl (component_step adj) ([], []) (sort (map fst credits))"
  have "comps_ok adj ?K (foldl (component_step adj) st ks) \<and> set (fst st) \<union> set ks \<subseteq> set (fst (foldl (component_step adj) st ks))"
    if "comps_ok adj ?K st" "set ks \<subseteq> ?K" for st ks
    using that
  proof (induction ks arbitrary: st)
    case (Cons k ks)
    from Cons.prems have k: "k \<in> ?K" by simp
    note s = component_step_ok [OF Cons.prems(1) k reach sym]
    with Cons.IH [of "component_step adj st k"] Cons.prems(2) show ?case by auto
  qed simp
  from this [of "([], [])" "sort (map fst credits)"]
  have ok: "comps_ok adj ?K ?st" "?K \<subseteq> set (fst ?st)" by (auto simp: comps_ok_def)
  have m: "mset (solver_components credits adj) = mset (snd ?st)" by (simp add: solver_components_def)
  then have set_eq: "set (solver_components credits adj) = set (snd ?st)" by (rule mset_eq_setD)
  have "mset (concat (solver_components credits adj)) = mset (concat (snd ?st))"
    unfolding mset_concat using m by (metis mset_map sum_mset_sum_list)
  then have "distinct (concat (solver_components credits adj)) = distinct (concat (snd ?st))" by (rule mset_eq_imp_distinct_iff)
  then show ?thesis
    using ok set_eq by (auto simp: comps_ok_def split: prod.splits)
qed

lemma dget_nonempty_mem: "dget d k [] \<noteq> [] \<Longrightarrow> (k, dget d k []) \<in> set d"
  by (auto simp: dget_def split: option.splits dest: map_of_SomeD)

lemma dget_index_by_settlement:
  "dget (index_by_settlement ss cands) sid [] = filter (\<lambda>c. ca_target_id c = sid \<and> has_key ss sid) cands"
proof -
  have "dget (foldl (\<lambda>d c. if has_key ss (ca_target_id c) then dappend d (ca_target_id c) c else d) d cands) sid [] =
      dget d sid [] @ filter (\<lambda>c. ca_target_id c = sid \<and> has_key ss sid) cands" for d
    by (induction cands arbitrary: d) (auto simp: dget_dappend)
  from this [of "[]"] show ?thesis by (simp add: index_by_settlement_def dget_def)
qed

lemma index_by_settlement_ok: "multi_ok (\<lambda>_. True) (\<lambda>_ c. c \<in> set cands) (index_by_settlement ss cands)"
  unfolding index_by_settlement_def
  by (rule foldl_invariant [where P = "multi_ok (\<lambda>_. True) (\<lambda>_ c. c \<in> set cands)"]) (auto intro!: multi_ok_dappend)

lemma has_key_settlement_nodes: "has_key (settlement_nodes ix) sid \<longleftrightarrow> has_key (ix_settlement_net ix) sid"
proof -
  have "map_of (settlement_nodes ix) sid = None \<longleftrightarrow> sid \<notin> fst ` set (ix_settlement_net ix)"
    unfolding settlement_nodes_def map_of_dict_of_None by simp
  then show ?thesis by (simp add: has_key_def map_of_eq_None_iff)
qed

lemma keys_credit_nodes: "set (map fst (credit_nodes lines)) = ln_key ` set (filter solver_credit lines)"
proof -
  have "k \<in> fst ` set (credit_nodes lines) \<longleftrightarrow> k \<in> ln_key ` set (filter solver_credit lines)" for k
    using map_of_dict_of_None [of ln_key _ "filter solver_credit lines" k] unfolding credit_nodes_def map_of_eq_None_iff by blast
  then show ?thesis by auto
qed

abbreviation graph_index :: "(string \<Rightarrow> string) \<Rightarrow> pack option \<Rightarrow> recon_index \<Rightarrow> string list \<Rightarrow> nat \<Rightarrow> int \<Rightarrow> rat option \<Rightarrow>
    bank_line list \<Rightarrow> (string, candidate list) dict" where
  "graph_index nf pack ix so mc mb th lines \<equiv> index_by_settlement (settlement_nodes ix) (graph_candidates nf pack ix so mc mb th lines)"

abbreviation graph_adj :: "(string \<Rightarrow> string) \<Rightarrow> pack option \<Rightarrow> recon_index \<Rightarrow> string list \<Rightarrow> nat \<Rightarrow> int \<Rightarrow> rat option \<Rightarrow>
    bank_line list \<Rightarrow> (string, string list) dict" where
  "graph_adj nf pack ix so mc mb th lines \<equiv> adjacency (credit_nodes lines) (graph_index nf pack ix so mc mb th lines)"

lemma build_sel [simp]:
  "ag_credits (build_candidate_graph nf pack ix so mc mb th lines) = credit_nodes lines"
  "ag_settlements (build_candidate_graph nf pack ix so mc mb th lines) = settlement_nodes ix"
  "ag_candidates (build_candidate_graph nf pack ix so mc mb th lines) = graph_candidates nf pack ix so mc mb th lines"
  "ag_by_credit (build_candidate_graph nf pack ix so mc mb th lines) = index_by_credit (graph_candidates nf pack ix so mc mb th lines)"
  "ag_components (build_candidate_graph nf pack ix so mc mb th lines) =
     solver_components (credit_nodes lines) (graph_adj nf pack ix so mc mb th lines)"
  by (simp_all add: build_candidate_graph_def Let_def)

lemma graph_neighbours:
  assumes "c \<in> set (graph_candidates nf pack ix so mc mb th lines)" "d \<in> set (graph_candidates nf pack ix so mc mb th lines)"
    and "ca_target_id c = ca_target_id d" "has_key (settlement_nodes ix) (ca_target_id c)"
    and "x \<in> set (ca_credit_keys c)" "y \<in> set (ca_credit_keys d)" "y \<noteq> x"
  shows "y \<in> set (dget (graph_adj nf pack ix so mc mb th lines) x [])"
proof -
  let ?bs = "graph_index nf pack ix so mc mb th lines"
  let ?cs = "filter (\<lambda>c. ca_target_id c = ca_target_id d \<and> has_key (settlement_nodes ix) (ca_target_id d))
    (graph_candidates nf pack ix so mc mb th lines)"
  have m: "c \<in> set ?cs" "d \<in> set ?cs" using assms by auto
  have e: "dget ?bs (ca_target_id d) [] = ?cs" by (rule dget_index_by_settlement)
  have "?cs \<noteq> []" using m(1) by (metis list.set(1) empty_iff)
  then have "(ca_target_id d, ?cs) \<in> set ?bs" using dget_nonempty_mem [of ?bs "ca_target_id d"] unfolding e by blast
  with m assms show ?thesis
    unfolding adjacency_nbrs group_keys_def by (auto intro!: bexI [of _ "(ca_target_id d, ?cs)"])
qed

lemma several_keys_settlement:
  assumes "c \<in> set (graph_candidates nf pack ix so mc mb th lines)"
  shows "has_key (settlement_nodes ix) (ca_target_id c) \<or> (\<exists>k. ca_credit_keys c = [k])"
  using assms
proof (cases rule: graph_candidates_cases)
  case split
  then show ?thesis using split_edges_proven [OF split] by (auto simp: split_proven_def has_key_settlement_nodes)
qed (auto elim!: settlement_edgesD dest: rail_edgesD(1))

lemma graph_components_ok:
  "distinct (concat (ag_components (build_candidate_graph nf pack ix so mc mb th lines)))"
  "set (concat (ag_components (build_candidate_graph nf pack ix so mc mb th lines))) = ln_key ` set (filter solver_credit lines)"
  "cm \<in> set (ag_components (build_candidate_graph nf pack ix so mc mb th lines)) \<Longrightarrow> x \<in> set cm \<Longrightarrow>
     set (dget (graph_adj nf pack ix so mc mb th lines) x []) \<subseteq> set cm"
proof -
  let ?adj = "graph_adj nf pack ix so mc mb th lines" and ?cands = "graph_candidates nf pack ix so mc mb th lines"
  have sym: "x \<in> set (dget ?adj y [])" if "y \<in> set (dget ?adj x [])" for x y
    using that by (force simp: adjacency_nbrs)
  have bs: "cs \<noteq> [] \<and> set cs \<subseteq> set ?cands" if "(sid, cs) \<in> set (graph_index nf pack ix so mc mb th lines)" for sid cs
    using multi_okD [OF index_by_settlement_ok that] by auto
  have "set (dget ?adj x []) \<subseteq> set (map fst (credit_nodes lines))" for x
    unfolding keys_credit_nodes adjacency_nbrs group_keys_def
    using bs graph_candidates_keys [of _ nf pack ix so mc mb th lines] by fastforce
  note ok = solver_components_ok [of ?adj "credit_nodes lines", OF this sym]
  then show "distinct (concat (ag_components (build_candidate_graph nf pack ix so mc mb th lines)))"
    "set (concat (ag_components (build_candidate_graph nf pack ix so mc mb th lines))) = ln_key ` set (filter solver_credit lines)"
    "cm \<in> set (ag_components (build_candidate_graph nf pack ix so mc mb th lines)) \<Longrightarrow> x \<in> set cm \<Longrightarrow> set (dget ?adj x []) \<subseteq> set cm"
    unfolding build_sel keys_credit_nodes by blast+
qed

lemma component_closed:
  assumes cm: "cm \<in> set (ag_components (build_candidate_graph nf pack ix so mc mb th lines))"
    and c: "c \<in> set (graph_candidates nf pack ix so mc mb th lines)" and d: "d \<in> set (graph_candidates nf pack ix so mc mb th lines)"
    and s: "c = d \<or> ca_target_id c = ca_target_id d \<and> has_key (settlement_nodes ix) (ca_target_id c)"
    and x: "x \<in> set (ca_credit_keys c)" "x \<in> set cm" and y: "y \<in> set (ca_credit_keys d)"
  shows "y \<in> set cm"
proof (cases "y = x \<or> \<not> has_key (settlement_nodes ix) (ca_target_id c)")
  case True
  then show ?thesis using several_keys_settlement [OF c] s x y by auto
next
  case False
  then have "y \<in> set (dget (graph_adj nf pack ix so mc mb th lines) x [])" using graph_neighbours [OF c d _ _ x(1) y] s by auto
  then show ?thesis using graph_components_ok(3) [OF cm x(2)] by blast
qed

text \<open>
  The components partition the problem: every credit of the graph is in exactly one component, every edge stays
  inside one component, and so do all edges that compete for one settlement. Solving the components one by one
  therefore decides the whole period.
\<close>

theorem graph_components_partition:
  "distinct (concat (ag_components (build_candidate_graph nf pack ix so mc mb th lines))) \<and>
   set (concat (ag_components (build_candidate_graph nf pack ix so mc mb th lines))) = {ln_key l | l. l \<in> set lines \<and> solver_credit l} \<and>
   (\<nexists>cm c d. cm \<in> set (ag_components (build_candidate_graph nf pack ix so mc mb th lines)) \<and>
      c \<in> set (ag_candidates (build_candidate_graph nf pack ix so mc mb th lines)) \<and>
      d \<in> set (ag_candidates (build_candidate_graph nf pack ix so mc mb th lines)) \<and>
      (c = d \<or> ca_target_id c = ca_target_id d \<and> has_key (ag_settlements (build_candidate_graph nf pack ix so mc mb th lines)) (ca_target_id c)) \<and>
      set (ca_credit_keys c) \<inter> set cm \<noteq> {} \<and> set (ca_credit_keys d) - set cm \<noteq> {})"
proof (intro conjI)
  show "distinct (concat (ag_components (build_candidate_graph nf pack ix so mc mb th lines)))" by (rule graph_components_ok)
  show "set (concat (ag_components (build_candidate_graph nf pack ix so mc mb th lines))) = {ln_key l | l. l \<in> set lines \<and> solver_credit l}"
    unfolding graph_components_ok by auto
qed (use component_closed [of _ nf pack ix so mc mb th lines] in \<open>unfold build_sel(2,3), blast\<close>)

end
