(* ===== verification/SolverSearch.thy ===== *)
theory SolverSearch
  imports SolverGraph "HOL-Library.Multiset"
begin

section \<open>Branch and bound over one component (\<open>engine/solver.py\<close>)\<close>

text \<open>
  \<open>_solve_component\<close>. The nested function \<open>search\<close> updates four variables of its enclosing call; they are the fields
  of \<open>search_state\<close>. It counts its calls and gives up after \<open>max_steps\<close> of them, so the recursion depth is bounded by
  the budget: \<open>search\<close> recurses on \<open>Suc max_steps\<close> units of fuel, the clause without fuel does what the source does on
  the call that exceeds the budget, and \<open>search_fuel\<close> shows that more fuel changes nothing. A set of credits is a
  sorted list, so that \<open>min\<close> is its head.
\<close>

definition add_costs :: "cost \<Rightarrow> cost \<Rightarrow> cost" where
  "add_costs a b = (case a of (a0, a1, a2, a3, a4) \<Rightarrow> case b of (b0, b1, b2, b3, b4) \<Rightarrow>
     (a0 + b0, a1 + b1, a2 + b2, py_round 4 (fl (a3 + b3)), py_round 4 (fl (a4 + b4))))"

definition zero_cost :: cost where
  "zero_cost = (0, 0, 0, 0, 0)"

definition no_solution_cost :: cost where
  "no_solution_cost = (999, 999999999, 999999999, 0, 999)"

fun head2 :: "cost \<Rightarrow> int \<times> int" where
  "head2 (a0, a1, _) = (a0, a1)"

record search_state =
  ss_best :: "(cost \<times> candidate list) option"
  ss_steps :: nat
  ss_exceeded :: bool

definition is_settlement :: "assignment_graph \<Rightarrow> string \<Rightarrow> bool" where
  "is_settlement g t \<longleftrightarrow> has_key (ag_settlements g) t"

definition allowed :: "assignment_graph \<Rightarrow> string list \<Rightarrow> string list \<Rightarrow> string list \<Rightarrow> string list \<Rightarrow> candidate \<Rightarrow> bool" where
  "allowed g excluded consumed unassigned used c \<longleftrightarrow> ca_assignment_id c \<notin> set excluded \<and>
     list_all (\<lambda>k. k \<in> set unassigned) (ca_credit_keys c) \<and>
     (\<not> is_settlement g (ca_target_id c) \<or> ca_target_id c \<notin> set consumed \<and> ca_target_id c \<notin> set used)"

definition valid_cands :: "assignment_graph \<Rightarrow> string list \<Rightarrow> string list \<Rightarrow> string list \<Rightarrow> string list \<Rightarrow> candidate list" where
  "valid_cands g excluded consumed unassigned used =
     sort_key (\<lambda>c. (ca_cost c, ca_credit_keys c, ca_target_id c, ca_assignment_id c))
       (filter (allowed g excluded consumed unassigned used) (dget (ag_by_credit g) (hd unassigned) []))"

definition remaining :: "string list \<Rightarrow> candidate \<Rightarrow> string list" where
  "remaining unassigned c = filter (\<lambda>k. k \<notin> set (ca_credit_keys c)) unassigned"

definition consume :: "assignment_graph \<Rightarrow> string list \<Rightarrow> candidate \<Rightarrow> string list" where
  "consume g used c = (if is_settlement g (ca_target_id c) then set_add (ca_target_id c) used else used)"

definition pruned :: "(cost \<times> candidate list) option \<Rightarrow> cost \<Rightarrow> bool" where
  "pruned best t \<longleftrightarrow> (case best of None \<Rightarrow> False | Some (b, _) \<Rightarrow> head2 t > head2 b)"

definition take_better :: "(cost \<times> candidate list) option \<Rightarrow> cost \<Rightarrow> candidate list \<Rightarrow> (cost \<times> candidate list) option" where
  "take_better best t chosen = (case best of None \<Rightarrow> Some (t, chosen) | Some (b, a) \<Rightarrow> if t < b then Some (t, chosen) else Some (b, a))"

fun search :: "assignment_graph \<Rightarrow> string list \<Rightarrow> string list \<Rightarrow> nat \<Rightarrow> nat \<Rightarrow> string list \<Rightarrow> string list \<Rightarrow> candidate list \<Rightarrow> cost \<Rightarrow>
    search_state \<Rightarrow> search_state" where
  "search g ex gc max_steps 0 U used chosen t st = st\<lparr>ss_steps := Suc (ss_steps st), ss_exceeded := True\<rparr>"
| "search g ex gc max_steps (Suc fuel) U used chosen t st = (
     let st = st\<lparr>ss_steps := Suc (ss_steps st)\<rparr> in
     if ss_steps st > max_steps then st\<lparr>ss_exceeded := True\<rparr>
     else if U = [] then st\<lparr>ss_best := take_better (ss_best st) t chosen\<rparr>
     else foldl (\<lambda>st c. if ss_exceeded st then st
         else if pruned (ss_best st) (add_costs t (ca_cost c)) then st
         else search g ex gc max_steps fuel (remaining U c) (consume g used c) (chosen @ [c]) (add_costs t (ca_cost c)) st)
       st (valid_cands g ex gc U used))"

definition total_cost :: "cost \<Rightarrow> candidate list \<Rightarrow> cost" where
  "total_cost t cs = foldl (\<lambda>t c. add_costs t (ca_cost c)) t cs"

definition default_chosen :: "assignment_graph \<Rightarrow> string list \<Rightarrow> string list \<Rightarrow> candidate list" where
  "default_chosen g ex U = concat (map (\<lambda>k. filter (\<lambda>c. ca_target_id c = ''abstain'' \<and> ca_assignment_id c \<notin> set ex)
     (dget (ag_by_credit g) k [])) U)"

definition solve_component :: "assignment_graph \<Rightarrow> string list \<Rightarrow> string list \<Rightarrow> string list \<Rightarrow> nat \<Rightarrow> candidate list \<times> cost \<times> bool" where
  "solve_component g cm gc ex max_steps = (
     let U = sort cm; default = default_chosen g ex U; full = (length default = length U);
         default_cost = (if full then total_cost zero_cost default else zero_cost);
         st = search g ex gc max_steps (Suc max_steps) U [] [] zero_cost
           \<lparr>ss_best = if full then Some (default_cost, default) else None, ss_steps = 0, ss_exceeded = False\<rparr>
     in if ss_exceeded st then (default, default_cost, True)
        else case ss_best st of None \<Rightarrow> ([], no_solution_cost, False) | Some (b, a) \<Rightarrow> (a, b, False))"

subsection \<open>Fuel\<close>

abbreviation search_step :: "assignment_graph \<Rightarrow> string list \<Rightarrow> string list \<Rightarrow> nat \<Rightarrow> nat \<Rightarrow> string list \<Rightarrow> string list \<Rightarrow> candidate list \<Rightarrow>
    cost \<Rightarrow> search_state \<Rightarrow> candidate \<Rightarrow> search_state" where
  "search_step g ex gc mx n U used chosen t \<equiv> (\<lambda>st c. if ss_exceeded st then st
     else if pruned (ss_best st) (add_costs t (ca_cost c)) then st
     else search g ex gc mx n (remaining U c) (consume g used c) (chosen @ [c]) (add_costs t (ca_cost c)) st)"

lemma search_steps_mono: "ss_steps st \<le> ss_steps (search g ex gc mx n U used chosen t st)"
proof (induction n arbitrary: U used chosen t st)
  case (Suc n)
  have step: "ss_steps s \<le> ss_steps (search_step g ex gc mx n U used chosen t s c)" for s c
    using Suc.IH by simp
  have "ss_steps s \<le> ss_steps (foldl (search_step g ex gc mx n U used chosen t) s cs)" for s cs
  proof (induction cs arbitrary: s)
    case (Cons c cs)
    then show ?case unfolding foldl_Cons using step order_trans by blast
  qed simp
  from order_trans [OF _ this] show ?case by (simp add: Let_def)
qed simp

lemma search_fuel: "Suc mx \<le> n + ss_steps st \<Longrightarrow> search g ex gc mx (Suc n) U used chosen t st = search g ex gc mx n U used chosen t st"
proof (induction n arbitrary: U used chosen t st)
  case 0
  then show ?case by simp
next
  case (Suc n)
  have loop: "foldl (search_step g ex gc mx (Suc n) U used chosen t) s cs = foldl (search_step g ex gc mx n U used chosen t) s cs"
    if "Suc mx \<le> n + ss_steps s" for s cs
    using that
  proof (induction cs arbitrary: s)
    case (Cons c cs)
    have eq: "search_step g ex gc mx (Suc n) U used chosen t s c = search_step g ex gc mx n U used chosen t s c"
      using Suc.IH [OF Cons.prems] by simp
    have "ss_steps s \<le> ss_steps (search_step g ex gc mx n U used chosen t s c)" by (simp add: search_steps_mono)
    then have "Suc mx \<le> n + ss_steps (search_step g ex gc mx n U used chosen t s c)" using Cons.prems by linarith
    from Cons.IH [OF this] eq show ?case by (simp only: foldl_Cons)
  qed simp
  have "Suc mx \<le> n + ss_steps (st\<lparr>ss_steps := Suc (ss_steps st)\<rparr>)" using Suc.prems by simp
  from loop [OF this] show ?case by (subst (1 2) search.simps(2)) (simp only: Let_def)
qed

subsection \<open>What a search has to find\<close>

text \<open>A legal sequence of choices from a state: always for the smallest open credit, respecting every constraint.\<close>

fun legal :: "assignment_graph \<Rightarrow> string list \<Rightarrow> string list \<Rightarrow> string list \<Rightarrow> string list \<Rightarrow> candidate list \<Rightarrow> bool" where
  "legal g ex gc U used [] \<longleftrightarrow> U = []"
| "legal g ex gc U used (c # cs) \<longleftrightarrow> U \<noteq> [] \<and> c \<in> set (valid_cands g ex gc U used) \<and>
     legal g ex gc (remaining U c) (consume g used c) cs"

definition outcomes :: "assignment_graph \<Rightarrow> string list \<Rightarrow> string list \<Rightarrow> string list \<Rightarrow> string list \<Rightarrow> candidate list \<Rightarrow> cost \<Rightarrow>
    (cost \<times> candidate list) set" where
  "outcomes g ex gc U used chosen t = {(total_cost t cs, chosen @ cs) | cs. legal g ex gc U used cs}"

definition best_of :: "(cost \<times> candidate list) option \<Rightarrow> (cost \<times> candidate list) set \<Rightarrow> (cost \<times> candidate list) option \<Rightarrow> bool" where
  "best_of b A b' \<longleftrightarrow> (b' = b \<or> b' \<in> Some ` A) \<and> (\<forall>x \<in> A \<union> set_option b. \<exists>y. b' = Some y \<and> fst y \<le> fst x)"

lemma best_of_refl: "(\<And>x. x \<in> A \<Longrightarrow> \<exists>y. b = Some y \<and> fst y \<le> fst x) \<Longrightarrow> best_of b A b"
  by (auto simp: best_of_def)

lemma best_of_trans:
  assumes "best_of b A b1" and "best_of b1 B b2"
  shows "best_of b (A \<union> B) b2"
proof -
  have "\<exists>y. b2 = Some y \<and> fst y \<le> fst x" if "x \<in> A \<union> set_option b" for x
  proof -
    from that assms(1) obtain y where "b1 = Some y" "fst y \<le> fst x" unfolding best_of_def by blast
    moreover with assms(2) obtain z where "b2 = Some z" "fst z \<le> fst y" unfolding best_of_def by fastforce
    ultimately show ?thesis by auto
  qed
  with assms show ?thesis unfolding best_of_def by blast
qed

lemma best_of_leaf: "best_of b {(t, a)} (take_better b t a)"
  by (cases b) (auto simp: best_of_def take_better_def simp del: split_paired_Ex split_paired_All)

lemma outcomes_Nil: "outcomes g ex gc [] used chosen t = {(t, chosen)}"
proof -
  have "legal g ex gc [] used cs \<longleftrightarrow> cs = []" for cs by (cases cs) auto
  then show ?thesis by (auto simp: outcomes_def total_cost_def)
qed

lemma outcomes_Cons:
  assumes "U \<noteq> []"
  shows "outcomes g ex gc U used chosen t = (\<Union>c \<in> set (valid_cands g ex gc U used).
    outcomes g ex gc (remaining U c) (consume g used c) (chosen @ [c]) (add_costs t (ca_cost c)))"
    (is "?A = ?B")
proof
  show "?A \<subseteq> ?B"
  proof
    fix x assume "x \<in> ?A"
    then obtain cs where x: "x = (total_cost t cs, chosen @ cs)" "legal g ex gc U used cs" by (auto simp: outcomes_def)
    with assms obtain c ds where "cs = c # ds" by (cases cs) auto
    with x show "x \<in> ?B" by (auto simp: outcomes_def total_cost_def intro!: bexI [of _ c])
  qed
  show "?B \<subseteq> ?A"
  proof
    fix x assume "x \<in> ?B"
    then obtain c cs where "c \<in> set (valid_cands g ex gc U used)" "legal g ex gc (remaining U c) (consume g used c) cs"
      "x = (total_cost (add_costs t (ca_cost c)) cs, (chosen @ [c]) @ cs)" by (auto simp: outcomes_def)
    with assms show "x \<in> ?A" by (auto simp: outcomes_def total_cost_def intro!: exI [of _ "c # cs"])
  qed
qed

subsection \<open>Pruning is sound\<close>

lemma head2_add: "cost_ok b \<Longrightarrow> head2 a \<le> head2 (add_costs a b)"
  by (cases a; cases b) (auto simp: add_costs_def cost_ok_def less_eq_prod_def)

lemma head2_total: "(\<And>c. c \<in> set cs \<Longrightarrow> cost_ok (ca_cost c)) \<Longrightarrow> head2 t \<le> head2 (total_cost t cs)"
proof (induction cs arbitrary: t)
  case (Cons c cs)
  have "head2 t \<le> head2 (add_costs t (ca_cost c))" using Cons.prems by (intro head2_add) simp
  also have "\<dots> \<le> head2 (total_cost (add_costs t (ca_cost c)) cs)" by (rule Cons.IH) (simp add: Cons.prems)
  finally show ?case by (simp add: total_cost_def)
qed (simp add: total_cost_def)

lemma head2_less: "head2 a < head2 b \<Longrightarrow> a \<le> b"
  by (cases a; cases b) (auto simp: less_prod_def less_eq_prod_def split: if_splits)

context assignment_problem
begin

lemma valid_cands_iff:
  "c \<in> set (valid_cands g ex gc U used) \<longleftrightarrow> c \<in> set (ag_candidates g) \<and> hd U \<in> set (ca_credit_keys c) \<and> allowed g ex gc U used c"
  by (auto simp: valid_cands_def indexed)

lemma legal_candidates: "legal g ex gc U used cs \<Longrightarrow> set cs \<subseteq> set (ag_candidates g)"
  by (induction cs arbitrary: U used) (auto simp: valid_cands_iff)

lemma legal_costs: "legal g ex gc U used cs \<Longrightarrow> head2 t \<le> head2 (total_cost t cs)"
  by (rule head2_total) (use legal_candidates cost_nonneg in blast)

lemma pruned_sound:
  assumes "pruned b t" and "x \<in> outcomes g ex gc U used chosen t"
  shows "\<exists>y. b = Some y \<and> fst y \<le> fst x"
proof -
  from assms(1) obtain c a where b: "b = Some (c, a)" "head2 c < head2 t" by (auto simp: pruned_def split: option.splits)
  from assms(2) obtain cs where x: "x = (total_cost t cs, chosen @ cs)" "legal g ex gc U used cs" by (auto simp: outcomes_def)
  have "head2 c < head2 (total_cost t cs)" by (rule less_le_trans [OF b(2) legal_costs [OF x(2)]])
  then show ?thesis using b(1) x(1) head2_less by auto
qed

lemma search_step_best:
  assumes IH: "\<And>U used chosen t st. ss_exceeded (search g ex gc mx n U used chosen t st) \<or>
      best_of (ss_best st) (outcomes g ex gc U used chosen t) (ss_best (search g ex gc mx n U used chosen t st))"
  shows "ss_exceeded (search_step g ex gc mx n U used chosen t st c) \<or>
    best_of (ss_best st) (outcomes g ex gc (remaining U c) (consume g used c) (chosen @ [c]) (add_costs t (ca_cost c)))
      (ss_best (search_step g ex gc mx n U used chosen t st c))"
proof (cases "ss_exceeded st \<or> pruned (ss_best st) (add_costs t (ca_cost c))")
  case True
  then show ?thesis by (auto intro: best_of_refl pruned_sound)
next
  case False
  then show ?thesis using IH by simp
qed

lemma search_loop_best:
  assumes IH: "\<And>U used chosen t st. ss_exceeded (search g ex gc mx n U used chosen t st) \<or>
      best_of (ss_best st) (outcomes g ex gc U used chosen t) (ss_best (search g ex gc mx n U used chosen t st))"
  shows "ss_exceeded (foldl (search_step g ex gc mx n U used chosen t) st cs) \<or>
    best_of (ss_best st) (\<Union>c \<in> set cs. outcomes g ex gc (remaining U c) (consume g used c) (chosen @ [c]) (add_costs t (ca_cost c)))
      (ss_best (foldl (search_step g ex gc mx n U used chosen t) st cs))"
proof (induction cs arbitrary: st)
  case Nil
  have "best_of (ss_best st) {} (ss_best st)" by (rule best_of_refl) simp
  then show ?case by simp
next
  case (Cons c cs)
  have sticky: "ss_exceeded s \<Longrightarrow> ss_exceeded (foldl (search_step g ex gc mx n U used chosen t) s cs)" for s cs
    by (induction cs) auto
  let ?s = "search_step g ex gc mx n U used chosen t st c"
  show ?case
  proof (cases "ss_exceeded (foldl (search_step g ex gc mx n U used chosen t) ?s cs)")
    case True
    then show ?thesis unfolding foldl_Cons by blast
  next
    case False
    then have ne: "\<not> ss_exceeded ?s" using sticky by blast
    have 1: "best_of (ss_best st) (outcomes g ex gc (remaining U c) (consume g used c) (chosen @ [c]) (add_costs t (ca_cost c))) (ss_best ?s)"
      using search_step_best [OF IH, where U = U and used = used and chosen = chosen and t = t and st = st and c = c] ne by blast
    have 2: "best_of (ss_best ?s) (\<Union>c \<in> set cs. outcomes g ex gc (remaining U c) (consume g used c) (chosen @ [c]) (add_costs t (ca_cost c)))
        (ss_best (foldl (search_step g ex gc mx n U used chosen t) ?s cs))"
      using Cons.IH [of ?s] False by blast
    show ?thesis unfolding foldl_Cons using best_of_trans [OF 1 2] by simp
  qed
qed

lemma search_best:
  "ss_exceeded (search g ex gc mx n U used chosen t st) \<or>
   best_of (ss_best st) (outcomes g ex gc U used chosen t) (ss_best (search g ex gc mx n U used chosen t st))"
proof (induction n arbitrary: U used chosen t st)
  case (Suc n)
  let ?st = "st\<lparr>ss_steps := Suc (ss_steps st)\<rparr>"
  show ?case
  proof (cases "ss_steps ?st > mx")
    case True
    then show ?thesis by simp
  next
    case False
    show ?thesis
    proof (cases "U = []")
      case True
      with False show ?thesis by (simp add: outcomes_Nil best_of_leaf)
    next
      case ne: False
      have "search g ex gc mx (Suc n) U used chosen t st =
          foldl (search_step g ex gc mx n U used chosen t) ?st (valid_cands g ex gc U used)"
        using False ne by (subst search.simps(2)) (simp only: Let_def if_False)
      then show ?thesis
        using search_loop_best [OF Suc.IH, where U = U and used = used and chosen = chosen and t = t and st = ?st and cs = "valid_cands g ex gc U used"]
        by (simp add: outcomes_Cons [OF ne])
    qed
  qed
qed simp

end

subsection \<open>Assignments of a component\<close>

text \<open>
  The specification: a list of candidates that covers the credits \<open>U\<close> exactly once, uses no settlement twice and none
  of the settlements already consumed, and none of the excluded assignments.
\<close>

definition compatible :: "assignment_graph \<Rightarrow> candidate \<Rightarrow> candidate \<Rightarrow> bool" where
  "compatible g c d \<longleftrightarrow> set (ca_credit_keys c) \<inter> set (ca_credit_keys d) = {} \<and>
     (is_settlement g (ca_target_id c) \<longrightarrow> ca_target_id c \<noteq> ca_target_id d)"

definition usable :: "assignment_graph \<Rightarrow> string list \<Rightarrow> string list \<Rightarrow> string list \<Rightarrow> candidate \<Rightarrow> bool" where
  "usable g ex gc used c \<longleftrightarrow> c \<in> set (ag_candidates g) \<and> ca_credit_keys c \<noteq> [] \<and> ca_assignment_id c \<notin> set ex \<and>
     (is_settlement g (ca_target_id c) \<longrightarrow> ca_target_id c \<notin> set gc \<and> ca_target_id c \<notin> set used)"

definition cover :: "assignment_graph \<Rightarrow> string list \<Rightarrow> string list \<Rightarrow> string list \<Rightarrow> string list \<Rightarrow> candidate list \<Rightarrow> bool" where
  "cover g ex gc U used A \<longleftrightarrow> list_all (usable g ex gc used) A \<and>
     (\<Union>c \<in> set A. set (ca_credit_keys c)) = set U \<and> sorted_wrt (compatible g) A"

definition abstain_sinks :: "assignment_graph \<Rightarrow> string list \<Rightarrow> bool" where
  "abstain_sinks g U \<longleftrightarrow> \<not> is_settlement g ''abstain'' \<and> list_all (\<lambda>k.
     case filter (\<lambda>c. ca_target_id c = ''abstain'') (dget (ag_by_credit g) k []) of [c] \<Rightarrow> ca_credit_keys c = [k] | _ \<Rightarrow> False) U"

lemma compatible_sym: "compatible g c d \<Longrightarrow> compatible g d c"
  by (auto simp: compatible_def)

lemma sorted_wrt_move: "sorted_wrt (compatible g) (xs @ c # ys) \<longleftrightarrow> sorted_wrt (compatible g) (c # xs @ ys)"
  by (auto simp: sorted_wrt_append intro: compatible_sym)

lemma set_consume: "set (consume g used c) = (if is_settlement g (ca_target_id c) then insert (ca_target_id c) (set used) else set used)"
  by (auto simp: consume_def set_add_def)

lemma set_remaining: "set (remaining U c) = set U - set (ca_credit_keys c)"
  by (auto simp: remaining_def)

lemma cover_Cons:
  "cover g ex gc U used (c # A) \<longleftrightarrow> usable g ex gc used c \<and> set (ca_credit_keys c) \<subseteq> set U \<and>
     cover g ex gc (remaining U c) (consume g used c) A"
proof
  assume l: "cover g ex gc U used (c # A)"
  then have comp: "\<And>d. d \<in> set A \<Longrightarrow> compatible g c d" and us: "\<And>d. d \<in> set A \<Longrightarrow> usable g ex gc used d"
    and un: "set (ca_credit_keys c) \<union> (\<Union>d \<in> set A. set (ca_credit_keys d)) = set U"
    by (auto simp: cover_def list_all_iff)
  have "usable g ex gc (consume g used c) d" if "d \<in> set A" for d
    using comp [OF that] us [OF that] unfolding usable_def compatible_def set_consume by auto
  moreover have "(\<Union>d \<in> set A. set (ca_credit_keys d)) = set U - set (ca_credit_keys c)"
    using un comp unfolding compatible_def by blast
  ultimately show "usable g ex gc used c \<and> set (ca_credit_keys c) \<subseteq> set U \<and> cover g ex gc (remaining U c) (consume g used c) A"
    using l un by (auto simp: cover_def list_all_iff set_remaining)
next
  assume r: "usable g ex gc used c \<and> set (ca_credit_keys c) \<subseteq> set U \<and> cover g ex gc (remaining U c) (consume g used c) A"
  then have us: "\<And>d. d \<in> set A \<Longrightarrow> usable g ex gc (consume g used c) d"
    and un: "(\<Union>d \<in> set A. set (ca_credit_keys d)) = set U - set (ca_credit_keys c)"
    by (auto simp: cover_def list_all_iff set_remaining)
  have "usable g ex gc used d" if "d \<in> set A" for d
    using us [OF that] unfolding usable_def set_consume by (auto split: if_splits)
  moreover have "compatible g c d" if "d \<in> set A" for d
    using us [OF that] un that unfolding usable_def set_consume compatible_def by (auto split: if_splits)
  ultimately show "cover g ex gc U used (c # A)" using r un by (auto simp: cover_def list_all_iff)
qed

lemma cover_Nil: "cover g ex gc U used [] \<longleftrightarrow> U = []"
  by (auto simp: cover_def)

lemma cover_move: "cover g ex gc U used (xs @ c # ys) \<longleftrightarrow> cover g ex gc U used (c # xs @ ys)"
  unfolding cover_def sorted_wrt_move by auto

lemma cover_set: "set U = set V \<Longrightarrow> cover g ex gc U used A = cover g ex gc V used A"
  by (simp add: cover_def)

context assignment_problem
begin

lemma legal_cover: "legal g ex gc U used cs \<Longrightarrow> cover g ex gc U used cs"
proof (induction cs arbitrary: U used)
  case (Cons c cs)
  then have "usable g ex gc used c \<and> set (ca_credit_keys c) \<subseteq> set U"
    by (auto simp: valid_cands_iff allowed_def usable_def list_all_iff)
  with Cons show ?case by (simp add: cover_Cons)
qed (simp add: cover_Nil)

lemma cover_legal: "cover g ex gc U used A \<Longrightarrow> \<exists>cs. mset cs = mset A \<and> legal g ex gc U used cs"
proof (induction "length A" arbitrary: A U used)
  case 0
  then show ?case by (auto simp: cover_Nil)
next
  case (Suc n)
  from Suc.hyps(2) obtain d D where d: "A = d # D" by (cases A) auto
  then have ne: "U \<noteq> []" using Suc.prems by (auto simp: cover_Cons usable_def)
  then have "hd U \<in> set U" by simp
  then obtain c where c: "c \<in> set A" "hd U \<in> set (ca_credit_keys c)" using Suc.prems by (auto simp: cover_def)
  then obtain xs ys where A: "A = xs @ c # ys" by (meson split_list)
  have cv: "usable g ex gc used c" "set (ca_credit_keys c) \<subseteq> set U" "cover g ex gc (remaining U c) (consume g used c) (xs @ ys)"
    using Suc.prems unfolding A cover_move cover_Cons by blast+
  obtain cs where cs: "mset cs = mset (xs @ ys)" "legal g ex gc (remaining U c) (consume g used c) cs"
    using Suc.hyps(1) [OF _ cv(3)] Suc.hyps(2) A by auto
  have "c \<in> set (valid_cands g ex gc U used)"
    using cv(1,2) c(2) unfolding valid_cands_iff usable_def allowed_def list_all_iff by blast
  with cs ne have "legal g ex gc U used (c # cs)" by simp
  moreover have "mset (c # cs) = mset A" using cs(1) A by simp
  ultimately show ?case by blast
qed

lemma default_legal:
  "abstain_sinks g U \<Longrightarrow> distinct U \<Longrightarrow> length (default_chosen g ex U) = length U \<Longrightarrow> legal g ex gc U used (default_chosen g ex U)"
proof (induction U)
  case (Cons k U)
  let ?f = "\<lambda>k. filter (\<lambda>c. ca_target_id c = ''abstain'' \<and> ca_assignment_id c \<notin> set ex) (dget (ag_by_credit g) k [])"
  have le: "length (?f k) \<le> 1" if "abstain_sinks g [k]" for k
    using that length_filter_le [of "\<lambda>c. ca_assignment_id c \<notin> set ex" "filter (\<lambda>c. ca_target_id c = ''abstain'') (dget (ag_by_credit g) k [])"]
    by (auto simp: abstain_sinks_def conj_commute split: list.splits)
  have "length (default_chosen g ex V) \<le> length V" if "abstain_sinks g V" for V
    using that
  proof (induction V)
    case (Cons v V)
    then have "abstain_sinks g [v]" "abstain_sinks g V" by (auto simp: abstain_sinks_def)
    with Cons.IH le [of v] show ?case by (simp add: default_chosen_def)
  qed (simp add: default_chosen_def)
  moreover have s: "abstain_sinks g [k]" "abstain_sinks g U" using Cons.prems(1) by (auto simp: abstain_sinks_def)
  ultimately have len: "length (?f k) = 1" "length (default_chosen g ex U) = length U"
    using Cons.prems(3) le [OF s(1)] by (fastforce simp: default_chosen_def)+
  then obtain c where c: "?f k = [c]" by (auto simp: length_Suc_conv)
  then have cm: "c \<in> set (dget (ag_by_credit g) k [])" "ca_target_id c = ''abstain''" "ca_assignment_id c \<notin> set ex"
    by (auto dest!: arg_cong [where f = set])
  obtain x where x: "filter (\<lambda>c. ca_target_id c = ''abstain'') (dget (ag_by_credit g) k []) = [x]" "ca_credit_keys x = [k]"
    using s(1) by (auto simp: abstain_sinks_def split: list.splits)
  have "c \<in> set (filter (\<lambda>c. ca_target_id c = ''abstain'') (dget (ag_by_credit g) k []))" using cm by simp
  then have "c = x" unfolding x(1) by simp
  with x(2) have "ca_credit_keys c = [k]" by simp
  moreover have "\<not> is_settlement g ''abstain''" using s(1) by (simp add: abstain_sinks_def)
  ultimately have "c \<in> set (valid_cands g ex gc (k # U) used)" "remaining (k # U) c = U" "consume g used c = used"
    using cm Cons.prems(2) by (auto simp: valid_cands_iff indexed allowed_def remaining_def consume_def intro!: filter_True)
  moreover have "default_chosen g ex (k # U) = c # default_chosen g ex U" using c by (simp add: default_chosen_def)
  ultimately show ?case using Cons.IH [OF s(2)] Cons.prems(2) len(2) by simp
qed (simp add: default_chosen_def)

lemma component_search:
  assumes "solve_component g cm gc ex mx = (A, b, False)"
  obtains best where "best_of (if length (default_chosen g ex (sort cm)) = length cm
      then Some (total_cost zero_cost (default_chosen g ex (sort cm)), default_chosen g ex (sort cm)) else None)
      (outcomes g ex gc (sort cm) [] [] zero_cost) best"
    and "(A, b) = (case best of None \<Rightarrow> ([], no_solution_cost) | Some (b, a) \<Rightarrow> (a, b))"
proof -
  define d where "d = default_chosen g ex (sort cm)"
  define init where "init = \<lparr>ss_best = if length d = length (sort cm)
     then Some (if length d = length (sort cm) then total_cost zero_cost d else zero_cost, d) else None, ss_steps = 0, ss_exceeded = False\<rparr>"
  define st where "st = search g ex gc mx (Suc mx) (sort cm) [] [] zero_cost init"
  have sc: "solve_component g cm gc ex mx = (if ss_exceeded st then (d, if length d = length (sort cm) then total_cost zero_cost d else zero_cost, True)
      else case ss_best st of None \<Rightarrow> ([], no_solution_cost, False) | Some (b, a) \<Rightarrow> (a, b, False))"
    unfolding solve_component_def Let_def st_def init_def d_def by (rule refl)
  then have ne: "\<not> ss_exceeded st" using assms by auto
  then have "best_of (ss_best init) (outcomes g ex gc (sort cm) [] [] zero_cost) (ss_best st)"
    using search_best unfolding st_def by blast
  moreover have "ss_best init = (if length d = length cm then Some (total_cost zero_cost d, d) else None)" by (simp add: init_def)
  moreover have "(A, b) = (case ss_best st of None \<Rightarrow> ([], no_solution_cost) | Some (b, a) \<Rightarrow> (a, b))"
    using sc ne assms by (auto split: option.splits)
  ultimately show thesis using that unfolding d_def by auto
qed

lemma component_optimal:
  assumes "solve_component g cm gc ex mx = (A, b, False)" and "cover g ex gc cm [] A'"
  shows "\<exists>A''. mset A'' = mset A' \<and> b \<le> total_cost zero_cost A''"
proof -
  have "cover g ex gc (sort cm) [] A'" using assms(2) cover_set [of cm "sort cm"] by simp
  then obtain cs where cs: "mset cs = mset A'" "legal g ex gc (sort cm) [] cs" using cover_legal by blast
  then have o: "(total_cost zero_cost cs, cs) \<in> outcomes g ex gc (sort cm) [] [] zero_cost" by (auto simp: outcomes_def)
  obtain best init where bo: "best_of init (outcomes g ex gc (sort cm) [] [] zero_cost) best"
    and r: "(A, b) = (case best of None \<Rightarrow> ([], no_solution_cost) | Some (b, a) \<Rightarrow> (a, b))"
    using component_search [OF assms(1)] by metis
  obtain y where y: "best = Some y" "fst y \<le> fst (total_cost zero_cost cs, cs)" using bo o unfolding best_of_def by blast
  then have "b \<le> total_cost zero_cost cs" using r by (cases y) simp
  with cs(1) show ?thesis by blast
qed

lemma component_sound:
  assumes "solve_component g cm gc ex mx = (A, b, False)" and "abstain_sinks g cm" and "distinct cm"
  shows "(cover g ex gc cm [] A \<and> b = total_cost zero_cost A) \<or>
    (A = [] \<and> b = no_solution_cost \<and> length (default_chosen g ex (sort cm)) \<noteq> length cm)"
proof -
  let ?d = "default_chosen g ex (sort cm)"
  obtain best where bo: "best_of (if length ?d = length cm then Some (total_cost zero_cost ?d, ?d) else None)
      (outcomes g ex gc (sort cm) [] [] zero_cost) best"
    and r: "(A, b) = (case best of None \<Rightarrow> ([], no_solution_cost) | Some (b, a) \<Rightarrow> (a, b))"
    using component_search [OF assms(1)] by metis
  have sinks: "abstain_sinks g (sort cm)" using assms(2) by (simp add: abstain_sinks_def list_all_iff)
  have leg: "cover g ex gc cm [] A" if "legal g ex gc (sort cm) [] A" for A
    using legal_cover [OF that] cover_set [of cm "sort cm"] by simp
  show ?thesis
  proof (cases best)
    case None
    with bo have "length ?d \<noteq> length cm" unfolding best_of_def by (auto split: if_splits)
    with r None show ?thesis by simp
  next
    case (Some y)
    with r have y: "y = (b, A)" by (cases y) simp
    have "(length ?d = length cm \<and> b = total_cost zero_cost ?d \<and> A = ?d) \<or> (b, A) \<in> outcomes g ex gc (sort cm) [] [] zero_cost"
      using bo Some y unfolding best_of_def by (auto split: if_splits)
    then show ?thesis
    proof
      assume "length ?d = length cm \<and> b = total_cost zero_cost ?d \<and> A = ?d"
      then show ?thesis using default_legal [OF sinks, of ex gc "[]"] assms(3) leg by simp
    next
      assume "(b, A) \<in> outcomes g ex gc (sort cm) [] [] zero_cost"
      then show ?thesis using leg by (auto simp: outcomes_def)
    qed
  qed
qed

end

end
