(* ===== verification/Solver.thy ===== *)
theory Solver
  imports SolverSearch
begin

section \<open>The global solver (\<open>engine/solver.py\<close>)\<close>

text \<open>
  \<open>solve_assignment\<close> solves the components in order, marks the credits for which an equally good alternative exists
  as contested, and turns the chosen assignments into one verdict per credit with the rejected matches beside it.
  \<open>run_global_solver\<close> merges the verdicts with the per-line attributions.
\<close>

record rejected =
  rj_credit_keys :: "string list"
  rj_candidate_id :: string
  rj_target_id :: string
  rj_rail :: string
  rj_violated_constraint :: string
  rj_detail :: string

record verdict =
  v_line_key :: string
  v_rail :: string
  v_target_id :: string
  v_confidence :: rat
  v_tier :: string
  v_evidence :: "evidence_item list"
  v_abstained :: bool
  v_residual_paise :: int
  v_covered_split_keys :: "string list"
  v_competing :: "(rat \<times> json) option"
  v_rejected :: "rejected list"

record solver_result =
  sr_verdicts :: "(string, verdict) dict"
  sr_consumed :: "string list"
  sr_objective_cost :: cost
  sr_rejected_matches :: "rejected list"
  sr_is_optimal :: bool
  sr_note :: "string option"

record solve_state =
  so_chosen :: "candidate list"
  so_consumed :: "string list"
  so_contested :: "(string, rat \<times> json) dict"
  so_optimal :: bool
  so_notes :: "string list"

subsection \<open>Competing global assignments\<close>

fun head3 :: "cost \<Rightarrow> int \<times> int \<times> int" where
  "head3 (a0, a1, a2, _) = (a0, a1, a2)"

fun tier4 :: "cost \<Rightarrow> rat" where
  "tier4 (a0, a1, a2, a3, a4) = a3"

definition explanation_part :: "candidate \<Rightarrow> json" where
  "explanation_part c = JObj [(''assignment_id'', JStr (ca_assignment_id c)), (''target_id'', JStr (ca_target_id c)),
     (''rail'', JStr (ca_rail c)), (''confidence'', JFloat (ca_confidence c))]"

text \<open>The dictionary kept for a contested credit, beside its \<open>objective_gap\<close>.\<close>

definition contested_entry :: "candidate \<Rightarrow> candidate \<Rightarrow> rat \<Rightarrow> rat \<Rightarrow> rat \<times> json" where
  "contested_entry c_star c_alt gap mt = (gap, JObj [(''chosen'', explanation_part c_star), (''competing'', explanation_part c_alt),
     (''objective_gap'', JFloat gap), (''margin_threshold'', JFloat mt),
     (''detail'', JStr (''Competing global assignment exists with objective gap '' @ fmt_f 4 gap @ '' <= '' @ fmt_f 4 mt))])"

definition by_credit_of :: "candidate list \<Rightarrow> (string, candidate) dict" where
  "by_credit_of cs = foldl (\<lambda>d c. foldl (\<lambda>d k. dset d k c) d (ca_credit_keys c)) [] cs"

definition contest_step :: "assignment_graph \<Rightarrow> string list \<Rightarrow> string list \<Rightarrow> rat \<Rightarrow> nat \<Rightarrow> cost \<Rightarrow> (string, rat \<times> json) dict \<Rightarrow> candidate \<Rightarrow>
    (string, rat \<times> json) dict" where
  "contest_step g cm consumed mt mx best_cost contested c_star = (
     if ca_target_id c_star = ''abstain'' \<or> ca_rail c_star = rail_value UNKNOWN then contested
     else case solve_component g cm consumed [ca_assignment_id c_star] mx of (alt, alt_cost, _) \<Rightarrow>
       if alt \<noteq> [] \<and> head3 alt_cost = head3 best_cost
       then let gap = py_round 4 (fl (tier4 alt_cost - tier4 best_cost)) in
         if gap \<le> mt then foldl (\<lambda>d k. dset d k (contested_entry c_star (dget (by_credit_of alt) k c_star) gap mt)) contested (ca_credit_keys c_star)
         else contested
       else contested)"

definition all_contested :: "(string, rat \<times> json) dict \<Rightarrow> candidate \<Rightarrow> bool" where
  "all_contested contested c \<longleftrightarrow> list_all (has_key contested) (ca_credit_keys c)"

definition consume_chosen :: "assignment_graph \<Rightarrow> (string, rat \<times> json) dict \<Rightarrow> string list \<Rightarrow> candidate list \<Rightarrow> string list" where
  "consume_chosen g contested consumed A = foldl (\<lambda>s c. if is_settlement g (ca_target_id c) \<and> \<not> all_contested contested c
     then set_add (ca_target_id c) s else s) consumed A"

definition solve_step :: "assignment_graph \<Rightarrow> rat \<Rightarrow> nat \<Rightarrow> solve_state \<Rightarrow> string list \<Rightarrow> solve_state" where
  "solve_step g mt mx st cm = (case solve_component g cm (so_consumed st) [] mx of (A, best_cost, timed_out) \<Rightarrow>
     let contested = (if mt > 0 \<and> A \<noteq> [] then foldl (contest_step g cm (so_consumed st) mt mx best_cost) (so_contested st) A
           else so_contested st)
     in \<lparr>so_chosen = so_chosen st @ A, so_consumed = consume_chosen g contested (so_consumed st) A, so_contested = contested,
         so_optimal = so_optimal st \<and> \<not> timed_out,
         so_notes = so_notes st @ (if timed_out then [''Component branch-and-bound step limit exceeded ('' @ str_int (int mx) @
           '' steps); failed-closed to abstention''] else [])\<rparr>)"

definition solve_components :: "assignment_graph \<Rightarrow> rat \<Rightarrow> nat \<Rightarrow> solve_state" where
  "solve_components g mt mx = foldl (solve_step g mt mx) \<lparr>so_chosen = [], so_consumed = [], so_contested = [],
     so_optimal = (ag_un_enumerable g = []),
     so_notes = (if ag_un_enumerable g = [] then [] else [''Oversized candidate pool marked un-enumerable (abstain)''])\<rparr>
     (ag_components g)"

subsection \<open>Objective, rejected matches and verdicts\<close>

definition objective_cost :: "candidate list \<Rightarrow> cost" where
  "objective_cost A = (sum_list (map (\<lambda>c. case ca_cost c of (a0, _) \<Rightarrow> a0) A), sum_list (map (\<lambda>c. case ca_cost c of (_, a1, _) \<Rightarrow> a1) A),
     sum_list (map (\<lambda>c. case ca_cost c of (_, _, a2, _) \<Rightarrow> a2) A), py_round 4 (py_fsum (map (tier4 \<circ> ca_cost) A)),
     py_round 4 (py_fsum (map (\<lambda>c. case ca_cost c of (_, _, _, _, a4) \<Rightarrow> a4) A)))"

definition py_tuple_repr :: "string list \<Rightarrow> string" where
  "py_tuple_repr xs = ''('' @ py_join '', '' (map py_repr xs) @ (if length xs = 1 then '','' else []) @ '')''"

definition rejection :: "assignment_graph \<Rightarrow> solve_state \<Rightarrow> candidate \<Rightarrow> rejected list" where
  "rejection g st cand = (
     let chosen_ids = map ca_assignment_id (so_chosen st);
         chosen_by_target = dict_of ca_target_id id (filter (\<lambda>c. is_settlement g (ca_target_id c)) (so_chosen st));
         rej = (\<lambda>constraint detail. \<lparr>rj_credit_keys = ca_credit_keys cand, rj_candidate_id = ca_assignment_id cand,
            rj_target_id = ca_target_id cand, rj_rail = ca_rail cand, rj_violated_constraint = constraint, rj_detail = detail\<rparr>)
     in if ca_assignment_id cand \<in> set chosen_ids then []
        else if ca_target_id cand = ''abstain'' then []
        else if is_settlement g (ca_target_id cand) \<and> ca_target_id cand \<in> set (so_consumed st)
          then [rej ''settlement_already_consumed'' (''Settlement '' @ ca_target_id cand @
            '' was consumed by globally consistent assignment for credit(s) '' @
            py_tuple_repr (case map_of chosen_by_target (ca_target_id cand) of None \<Rightarrow> [] | Some w \<Rightarrow> ca_credit_keys w))]
        else [rej ''suboptimal_objective'' (''Candidate '' @ ca_assignment_id cand @
            '' rejected in favor of globally higher-ranked assignment'')])"

definition rejected_matches :: "assignment_graph \<Rightarrow> solve_state \<Rightarrow> rejected list" where
  "rejected_matches g st = sort_key (\<lambda>r. (rj_candidate_id r, rj_credit_keys r)) (concat (map (rejection g st) (ag_candidates g)))"

definition abstain_verdict :: "string \<Rightarrow> (rat \<times> json) option \<Rightarrow> rejected list \<Rightarrow> verdict" where
  "abstain_verdict k competing rejected = \<lparr>v_line_key = k, v_rail = rail_value UNKNOWN, v_target_id = ''abstain'', v_confidence = 0,
     v_tier = tier_value TIER_B, v_evidence = [], v_abstained = True, v_residual_paise = 0, v_covered_split_keys = [],
     v_competing = competing, v_rejected = rejected\<rparr>"

definition verdict_of :: "solve_state \<Rightarrow> rejected list \<Rightarrow> string \<Rightarrow> verdict" where
  "verdict_of st rejected k = (
     let k_rejected = filter (\<lambda>r. k \<in> set (rj_credit_keys r)) rejected in
     case map_of (so_contested st) k of Some e \<Rightarrow> abstain_verdict k (Some e) k_rejected
     | None \<Rightarrow> (case map_of (by_credit_of (so_chosen st)) k of None \<Rightarrow> abstain_verdict k None k_rejected
       | Some c \<Rightarrow> if ca_target_id c = ''abstain'' \<or> ca_rail c = rail_value UNKNOWN then abstain_verdict k None k_rejected
         else if ca_rail c = rail_value RAZORPAY_SETTLEMENT
           then \<lparr>v_line_key = k, v_rail = rail_value RAZORPAY_SETTLEMENT, v_target_id = ca_target_id c,
              v_confidence = ca_confidence c, v_tier = ca_tier c, v_evidence = ca_evidence c, v_abstained = False,
              v_residual_paise = ca_residual_paise c, v_covered_split_keys = (if ca_is_split c then ca_credit_keys c else []),
              v_competing = None, v_rejected = k_rejected\<rparr>
         else \<lparr>v_line_key = k, v_rail = ca_rail c, v_target_id = ca_target_id c, v_confidence = ca_confidence c,
              v_tier = ca_tier c, v_evidence = ca_evidence c, v_abstained = False, v_residual_paise = 0,
              v_covered_split_keys = [], v_competing = None, v_rejected = k_rejected\<rparr>))"

definition solve_assignment :: "assignment_graph \<Rightarrow> rat \<Rightarrow> nat \<Rightarrow> solver_result" where
  "solve_assignment g mt mx = (
     if ag_credits g = [] then \<lparr>sr_verdicts = [], sr_consumed = [], sr_objective_cost = zero_cost, sr_rejected_matches = [],
       sr_is_optimal = True, sr_note = None\<rparr>
     else let st = solve_components g mt mx; rejected = rejected_matches g st
       in \<lparr>sr_verdicts = map (\<lambda>k. (k, verdict_of st rejected k)) (sort (map fst (ag_credits g))), sr_consumed = so_consumed st,
           sr_objective_cost = objective_cost (so_chosen st), sr_rejected_matches = rejected, sr_is_optimal = so_optimal st,
           sr_note = (if so_notes st = [] then None else Some (py_join ''; '' (so_notes st)))\<rparr>)"

subsection \<open>\<open>run_global_solver\<close>\<close>

definition merge_verdict :: "attribution option \<Rightarrow> verdict \<Rightarrow> string \<Rightarrow> attribution" where
  "merge_verdict orig v k = (
     let ev = (if v_evidence v \<noteq> [] then v_evidence v else case orig of None \<Rightarrow> [] | Some a \<Rightarrow> a_evidence a) in
     if v_abstained v
     then (case orig of
         None \<Rightarrow> (RailAttribution k (rail_value UNKNOWN) 0 (tier_value TIER_B) [])\<lparr>a_abstained := True\<rparr>
       | Some a \<Rightarrow> (case v_competing v of
           Some (gap, e) \<Rightarrow> (RailAttribution k (rail_value UNKNOWN) (a_confidence a) (a_tier a) (a_evidence a))
             \<lparr>a_abstained := True, a_llm_used := a_llm_used a, a_proof_margin := Some gap, a_competing := Some e\<rparr>
         | None \<Rightarrow> (RailAttribution k (rail_value UNKNOWN) 0 (tier_value TIER_B) (a_evidence a))
             \<lparr>a_abstained := True, a_llm_used := a_llm_used a\<rparr>))
     else if v_rail v = rail_value RAZORPAY_SETTLEMENT
       then if v_covered_split_keys v \<noteq> []
         then RailAttribution k (rail_value RAZORPAY_SETTLEMENT) (v_confidence v) (tier_value TIER_C)
           [balance_evidence (length (v_covered_split_keys v)) (v_target_id v)]
         else RailAttribution k (rail_value RAZORPAY_SETTLEMENT) (v_confidence v)
           (tier_value (if list_ex (\<lambda>e. ev_signal e = ''utr_exact'') ev then TIER_A else TIER_B)) ev
     else RailAttribution k (v_rail v) (v_confidence v) (v_tier v) ev)"

definition run_global_solver :: "(string \<Rightarrow> string) \<Rightarrow> pack option \<Rightarrow> string list \<Rightarrow> bank_line list \<Rightarrow> recon_index \<Rightarrow> attribution list \<Rightarrow>
    rat \<Rightarrow> rat \<Rightarrow> nat \<Rightarrow> int \<Rightarrow> attribution list \<times> solver_result" where
  "run_global_solver nf pack so lines ix base threshold mt max_candidates max_combinations = (
     let g = build_candidate_graph nf pack ix so max_candidates max_combinations (Some threshold) lines;
         result = solve_assignment g mt MAX_BRANCH_STEPS; base_by_key = dict_of a_line_key id base
     in (concat (map (\<lambda>l. case map_of (sr_verdicts result) (ln_key l) of
           None \<Rightarrow> (case map_of base_by_key (ln_key l) of None \<Rightarrow> [] | Some a \<Rightarrow> [a])
         | Some v \<Rightarrow> [merge_verdict (map_of base_by_key (ln_key l)) v (ln_key l)]) lines), result))"

subsection \<open>Every credit has its abstention edge\<close>

lemma utr_to_sid_row:
  assumes "map_of (ix_utr_to_sid (recon_index_of rows)) u = Some sid"
  shows "\<exists>r \<in> set rows. r_settlement_id r = Some sid"
proof -
  let ?P = "\<lambda>st. \<forall>u sid. map_of (fst (snd st)) u = Some sid \<longrightarrow> (\<exists>r \<in> set rows. r_settlement_id r = Some sid)"
  have "?P (foldl index_row ([], [], [], []) rows)"
  proof (rule foldl_invariant [where P = ?P], simp, goal_cases)
    case (1 st r)
    obtain utrs u2s net sd where st: "st = (utrs, u2s, net, sd)" by (metis prod_cases4)
    show ?case
      using 1 unfolding st
      by (cases "r_settlement_id r"; cases "r_settlement_utr r")
        (auto simp: index_row_def Let_def str_of_opt_def setdefault_def truthy_iff split: if_splits option.splits)
  qed
  with assms show ?thesis by (auto simp: recon_index_of_def split: prod.splits)
qed

lemma settlement_key_row: "has_key (ix_settlement_net (recon_index_of rows)) sid \<Longrightarrow> \<exists>r \<in> set rows. r_settlement_id r = Some sid"
  by (auto simp: has_key_def settlement_net_sum rows_of_sid_def filter_empty_conv split: if_splits)

lemma matched_sids_row:
  assumes "sid \<in> set (matched_sids nf (recon_index_of rows) l ev)"
  shows "\<exists>r \<in> set rows. r_settlement_id r = Some sid"
proof -
  have "sid \<in> set (sid_list (map_of (ix_utr_to_sid (recon_index_of rows)) u)) \<Longrightarrow> ?thesis" for u
    by (cases "map_of (ix_utr_to_sid (recon_index_of rows)) u") (auto simp: sid_list_def dest: utr_to_sid_row split: if_splits)
  moreover have "sid \<in> set (amount_sids (recon_index_of rows) l) \<Longrightarrow> ?thesis"
    by (force simp: amount_sids_def net_to_settlements has_key_iff intro!: settlement_key_row)
  ultimately show ?thesis
    using assms by (auto simp: matched_sids_def exact_sids_def suffix_sids_def Let_def split: if_splits option.splits)
qed

lemma filter_replicates:
  "filter P (concat (map (\<lambda>c. replicate (n c) c) cs)) = concat (map (\<lambda>c. replicate (n c) c) (filter P cs))"
  by (induction cs) auto

lemma filter_distinct_key: "distinct (map f xs) \<Longrightarrow> x \<in> set xs \<Longrightarrow> filter (\<lambda>y. f y = f x) xs = [x]"
proof (induction xs)
  case (Cons a xs)
  show ?case
  proof (cases "x = a")
    case True
    with Cons.prems(1) have "filter (\<lambda>y. f y = f x) xs = []" by (simp add: filter_empty_conv image_iff eq_commute)
    with True show ?thesis by simp
  next
    case False
    with Cons show ?thesis by (auto simp: rev_image_eqI)
  qed
qed simp

definition no_abstain_sid :: "recon_row list \<Rightarrow> bool" where
  "no_abstain_sid rows \<longleftrightarrow> Some ''abstain'' \<notin> set (map r_settlement_id rows)"

lemma settlement_target_not_abstain:
  assumes "no_abstain_sid rows" and "c \<in> set (settlement_edges nf pack (recon_index_of rows) th l)"
  shows "ca_target_id c \<noteq> ''abstain''"
  using assms(2)
proof (rule settlement_edgesD)
  fix sid ex conf
  assume "c = settlement_edge (recon_index_of rows) l (razorpay_signals nf pack l (recon_index_of rows)) ex conf sid"
    and "sid \<in> set (matched_sids nf (recon_index_of rows) l (razorpay_signals nf pack l (recon_index_of rows)))"
  then show "ca_target_id c \<noteq> ''abstain''"
    using matched_sids_row assms(1) by (force simp: no_abstain_sid_def)
qed

lemma split_target_not_abstain:
  assumes "no_abstain_sid rows" and "c \<in> set (snd (split_edges nf pack (recon_index_of rows) so mc mb th lines))"
  shows "ca_target_id c \<noteq> ''abstain''"
  using split_edges_proven [OF assms(2)] settlement_key_row assms(1) by (force simp: split_proven_def no_abstain_sid_def)

lemma single_edges_abstain:
  assumes "no_abstain_sid rows"
  shows "filter (\<lambda>c. ca_target_id c = ''abstain'') (single_edges nf pack (recon_index_of rows) th l) =
    (if solver_credit l then [abstain_edge l] else [])"
  using settlement_target_not_abstain [OF assms] rail_edgesD(3)
  by (force simp: single_edges_def filter_empty_conv)

lemma abstain_candidates:
  assumes "no_abstain_sid rows"
  shows "filter (\<lambda>c. ca_target_id c = ''abstain'') (graph_candidates nf pack (recon_index_of rows) so mc mb th lines) =
    sort_key (\<lambda>c. (ca_credit_keys c, ca_target_id c, ca_assignment_id c)) (map abstain_edge (filter solver_credit lines))"
proof -
  let ?ix = "recon_index_of rows"
  obtain poisoned splits where se: "split_edges nf pack ?ix so mc mb th lines = (poisoned, splits)"
    by (cases "split_edges nf pack ?ix so mc mb th lines")
  let ?keep = "\<lambda>c. \<not> (ca_is_split c \<and> list_ex (\<lambda>k. k \<in> set poisoned) (ca_credit_keys c))"
  have "filter (\<lambda>c. ca_target_id c = ''abstain'') (concat (map (single_edges nf pack ?ix th) lines)) = map abstain_edge (filter solver_credit lines)"
    by (induction lines) (simp_all add: single_edges_abstain [OF assms])
  moreover have "filter (\<lambda>c. ca_target_id c = ''abstain'') splits = []"
    using split_target_not_abstain [OF assms, of _ nf pack so mc mb th lines] se by (simp add: filter_empty_conv)
  ultimately have a: "filter (\<lambda>c. ca_target_id c = ''abstain'') (concat (map (single_edges nf pack ?ix th) lines) @ splits) =
      map abstain_edge (filter solver_credit lines)" by simp
  have "filter (\<lambda>c. ca_target_id c = ''abstain'') (filter ?keep (concat (map (single_edges nf pack ?ix th) lines) @ splits)) =
      filter ?keep (filter (\<lambda>c. ca_target_id c = ''abstain'') (concat (map (single_edges nf pack ?ix th) lines) @ splits))"
    by (simp only: filter_filter conj_commute)
  also have "\<dots> = map abstain_edge (filter solver_credit lines)" unfolding a by (auto intro!: filter_True)
  finally show ?thesis unfolding graph_candidates_def se prod.case filter_sort by simp
qed

lemma concat_single_keys:
  "(\<And>c. c \<in> set cs \<Longrightarrow> \<exists>k. ca_credit_keys c = [k]) \<Longrightarrow>
     concat (map (\<lambda>c. replicate (count_list (ca_credit_keys c) k) c) cs) = filter (\<lambda>c. ca_credit_keys c = [k]) cs"
proof (induction cs)
  case (Cons c cs)
  then obtain j where "ca_credit_keys c = [j]" by (meson list.set_intros(1))
  with Cons show ?case by simp
qed simp

lemma graph_abstain_sinks:
  assumes "no_abstain_sid rows" and "distinct (map ln_key lines)" and "set U \<subseteq> ln_key ` set (filter solver_credit lines)"
  shows "abstain_sinks (build_candidate_graph nf pack (recon_index_of rows) so mc mb th lines) U"
proof -
  let ?key = "\<lambda>c. (ca_credit_keys c, ca_target_id c, ca_assignment_id c)" and ?L = "filter solver_credit lines"
  have "filter (\<lambda>c. ca_target_id c = ''abstain'')
      (dget (index_by_credit (graph_candidates nf pack (recon_index_of rows) so mc mb th lines)) (ln_key l) []) = [abstain_edge l]"
    if "l \<in> set ?L" for l
  proof -
    have "concat (map (\<lambda>c. replicate (count_list (ca_credit_keys c) (ln_key l)) c) (sort_key ?key (map abstain_edge ?L))) =
        filter (\<lambda>c. ca_credit_keys c = [ln_key l]) (sort_key ?key (map abstain_edge ?L))"
      by (rule concat_single_keys) auto
    also have "\<dots> = sort_key ?key (map abstain_edge (filter (\<lambda>m. ln_key m = ln_key l) ?L))"
      by (simp add: filter_sort filter_map comp_def del: filter_filter)
    also have "filter (\<lambda>m. ln_key m = ln_key l) ?L = [l]"
      by (rule filter_distinct_key [OF _ that]) (simp add: assms(2) distinct_map_filter)
    finally show ?thesis by (simp add: dget_index_by_credit filter_replicates abstain_candidates [OF assms(1)])
  qed
  moreover have "\<not> has_key (ix_settlement_net (recon_index_of rows)) ''abstain''"
    using settlement_key_row assms(1) by (force simp: no_abstain_sid_def)
  ultimately show ?thesis
    using assms(3) by (auto simp: abstain_sinks_def list_all_iff is_settlement_def has_key_settlement_nodes dest!: subsetD)
qed

subsection \<open>A settlement is consumed once\<close>

lemma default_full: "abstain_sinks g U \<Longrightarrow> length (default_chosen g [] U) = length U"
proof (induction U)
  case (Cons k U)
  then have "length (default_chosen g [] U) = length U" by (simp add: abstain_sinks_def)
  moreover have "length (filter (\<lambda>c. ca_target_id c = ''abstain'') (dget (ag_by_credit g) k [])) = 1"
    using Cons.prems by (auto simp: abstain_sinks_def split: list.splits)
  ultimately show ?case by (simp add: default_chosen_def)
qed (simp add: default_chosen_def)

lemma default_chosen_abstain: "c \<in> set (default_chosen g ex U) \<Longrightarrow> ca_target_id c = ''abstain''"
  by (auto simp: default_chosen_def)

lemma sorted_wrt_compatible:
  "sorted_wrt (compatible g) A \<Longrightarrow> c \<in> set A \<Longrightarrow> d \<in> set A \<Longrightarrow> is_settlement g (ca_target_id c) \<Longrightarrow>
     ca_target_id c = ca_target_id d \<Longrightarrow> c = d"
  by (induction A) (auto simp: compatible_def)

context assignment_problem
begin

lemma solve_component_settlements:
  assumes "solve_component g cm gc [] mx = (A, b, timed_out)" and "abstain_sinks g cm" and "distinct cm"
  shows "(\<forall>c \<in> set A. is_settlement g (ca_target_id c) \<longrightarrow> ca_target_id c \<notin> set gc) \<and>
    (\<forall>c \<in> set A. \<forall>d \<in> set A. is_settlement g (ca_target_id c) \<longrightarrow> ca_target_id c = ca_target_id d \<longrightarrow> c = d)"
proof (cases timed_out)
  case True
  then have "A = default_chosen g [] (sort cm)"
    using assms(1) by (auto simp: solve_component_def Let_def simp del: search.simps split: if_splits option.splits)
  moreover have "\<not> is_settlement g ''abstain''" using assms(2) by (simp add: abstain_sinks_def)
  ultimately show ?thesis using default_chosen_abstain [of _ g "[]" "sort cm"] by auto
next
  case False
  then have "cover g [] gc cm [] A \<or> A = []" using component_sound [of cm gc "[]" mx A b] assms by auto
  then show ?thesis
    using sorted_wrt_compatible [of g A] by (auto simp: cover_def list_all_iff usable_def)
qed

end

lemma has_key_dset [simp]: "has_key (dset d k v) j \<longleftrightarrow> j = k \<or> has_key d j"
  by (auto simp: has_key_def)

lemma has_key_dset_fold: "has_key (foldl (\<lambda>d k. dset d k (f k)) d ks) j \<longleftrightarrow> has_key d j \<or> j \<in> set ks"
  by (induction ks arbitrary: d) auto

lemma contest_step_keys: "has_key d k \<Longrightarrow> has_key (contest_step g cm gc mt mx b d c) k"
  by (auto simp: contest_step_def Let_def has_key_dset_fold split: prod.splits)

lemma contest_fold_keys: "has_key d k \<Longrightarrow> has_key (foldl (contest_step g cm gc mt mx b) d A) k"
  by (induction A arbitrary: d) (auto intro: contest_step_keys)

lemma set_consume_chosen:
  "set (consume_chosen g contested consumed A) = set consumed \<union>
     ca_target_id ` {c \<in> set A. is_settlement g (ca_target_id c) \<and> \<not> all_contested contested c}"
  unfolding consume_chosen_def by (induction A arbitrary: consumed) auto

definition open_settlement :: "assignment_graph \<Rightarrow> solve_state \<Rightarrow> candidate \<Rightarrow> bool" where
  "open_settlement g st c \<longleftrightarrow> c \<in> set (so_chosen st) \<and> is_settlement g (ca_target_id c) \<and> \<not> all_contested (so_contested st) c"

definition once_inv :: "assignment_graph \<Rightarrow> solve_state \<Rightarrow> bool" where
  "once_inv g st \<longleftrightarrow> (\<forall>c. open_settlement g st c \<longrightarrow> ca_target_id c \<in> set (so_consumed st)) \<and>
     (\<forall>c d. open_settlement g st c \<and> open_settlement g st d \<and> ca_target_id c = ca_target_id d \<longrightarrow> c = d)"

context assignment_problem
begin

lemma solve_step_once:
  assumes "once_inv g st" and "abstain_sinks g cm" and "distinct cm"
  shows "once_inv g (solve_step g mt mx st cm)"
proof -
  obtain A b timed_out where sc: "solve_component g cm (so_consumed st) [] mx = (A, b, timed_out)"
    by (cases "solve_component g cm (so_consumed st) [] mx") auto
  let ?st = "solve_step g mt mx st cm"
  note new = solve_component_settlements [OF sc assms(2,3)]
  have ch: "so_chosen ?st = so_chosen st @ A"
    and cons: "so_consumed ?st = consume_chosen g (so_contested ?st) (so_consumed st) A"
    and cont: "\<And>k. has_key (so_contested st) k \<Longrightarrow> has_key (so_contested ?st) k"
    by (auto simp: solve_step_def sc Let_def contest_fold_keys)
  have old: "open_settlement g st c" if "open_settlement g ?st c" "c \<in> set (so_chosen st)" for c
    using that cont by (auto simp: open_settlement_def all_contested_def list_all_iff)
  have one: "ca_target_id c \<in> set (so_consumed ?st)" if c: "open_settlement g ?st c" for c
    using c old [OF c] assms(1) unfolding cons set_consume_chosen
    by (auto simp: ch once_inv_def open_settlement_def [of g ?st])
  have fresh: "ca_target_id c \<noteq> ca_target_id d" if "open_settlement g ?st c" "c \<in> set (so_chosen st)" "d \<in> set A" for c d
    using old [OF that(1,2)] that(3) assms(1) new unfolding once_inv_def open_settlement_def by metis
  have "c = d" if cd: "open_settlement g ?st c" "open_settlement g ?st d" "ca_target_id c = ca_target_id d" for c d
  proof -
    have "c \<in> set (so_chosen st) \<or> c \<in> set A" "d \<in> set (so_chosen st) \<or> d \<in> set A"
      using cd(1,2) by (auto simp: open_settlement_def ch)
    then show ?thesis
      using fresh [OF cd(1)] fresh [OF cd(2)] old [OF cd(1)] old [OF cd(2)] cd assms(1) new
      unfolding once_inv_def open_settlement_def by metis
  qed
  with one show ?thesis by (auto simp: once_inv_def)
qed

lemma solve_components_once:
  assumes "\<And>cm. cm \<in> set (ag_components g) \<Longrightarrow> abstain_sinks g cm \<and> distinct cm"
  shows "once_inv g (solve_components g mt mx)"
  unfolding solve_components_def
proof (rule foldl_invariant [where P = "once_inv g"])
  fix st cm
  assume "once_inv g st" and "cm \<in> set (ag_components g)"
  then show "once_inv g (solve_step g mt mx st cm)" using assms solve_step_once by blast
qed (simp add: once_inv_def open_settlement_def)

end

lemma by_credit_of_SomeD:
  assumes "map_of (by_credit_of cs) k = Some c"
  shows "c \<in> set cs \<and> k \<in> set (ca_credit_keys c)"
proof -
  let ?P = "\<lambda>d. \<forall>k c. map_of d k = Some c \<longrightarrow> c \<in> set cs \<and> k \<in> set (ca_credit_keys c)"
  have "?P (by_credit_of cs)"
    unfolding by_credit_of_def
  proof (rule foldl_invariant [where P = ?P])
    fix d c
    assume P: "?P d" and c: "c \<in> set cs"
    show "?P (foldl (\<lambda>d k. dset d k c) d (ca_credit_keys c))"
    proof (intro allI impI)
      fix k x
      assume "map_of (foldl (\<lambda>d k. dset d k c) d (ca_credit_keys c)) k = Some x"
      from dset_fold_SomeD [where f = "\<lambda>k. k", OF this] show "x \<in> set cs \<and> k \<in> set (ca_credit_keys x)"
        using P c by auto
    qed
  qed simp
  with assms show ?thesis by blast
qed

lemma verdict_of_settled:
  assumes "\<not> v_abstained (verdict_of st rej k)"
  obtains c where "c \<in> set (so_chosen st)" "k \<in> set (ca_credit_keys c)" "\<not> all_contested (so_contested st) c"
    "v_target_id (verdict_of st rej k) = ca_target_id c" "v_rail (verdict_of st rej k) = ca_rail c"
    "v_evidence (verdict_of st rej k) = ca_evidence c" "ca_rail c \<noteq> rail_value UNKNOWN" "ca_target_id c \<noteq> ''abstain''"
    "v_covered_split_keys (verdict_of st rej k) = (if ca_rail c = rail_value RAZORPAY_SETTLEMENT \<and> ca_is_split c then ca_credit_keys c else [])"
proof -
  have nc: "map_of (so_contested st) k = None"
    using assms by (auto simp: verdict_of_def abstain_verdict_def Let_def split: option.splits)
  obtain c where c: "map_of (by_credit_of (so_chosen st)) k = Some c"
    using assms nc by (auto simp: verdict_of_def abstain_verdict_def Let_def split: option.splits)
  note m = by_credit_of_SomeD [OF c]
  have "\<not> all_contested (so_contested st) c"
    unfolding all_contested_def list_all_iff has_key_def using m nc by (auto simp del: not_None_eq)
  moreover have nu: "ca_target_id c \<noteq> ''abstain''" "ca_rail c \<noteq> rail_value UNKNOWN"
    using assms nc c by (auto simp: verdict_of_def abstain_verdict_def Let_def)
  ultimately show thesis
    using that [of c] m nc c by (auto simp: verdict_of_def Let_def)
qed

lemma solve_step_chosen_candidates:
  "set (so_chosen (solve_step g mt mx st cm)) = set (so_chosen st) \<union> set (fst (solve_component g cm (so_consumed st) [] mx))"
  by (auto simp: solve_step_def Let_def split: prod.splits)

context assignment_problem
begin

lemma solve_component_candidates:
  assumes "solve_component g cm gc [] mx = (A, b, timed_out)" and "abstain_sinks g cm" and "distinct cm"
  shows "set A \<subseteq> set (ag_candidates g)"
proof (cases timed_out)
  case True
  then have "A = default_chosen g [] (sort cm)"
    using assms(1) by (auto simp: solve_component_def Let_def simp del: search.simps split: if_splits option.splits)
  then show ?thesis by (auto simp: default_chosen_def indexed)
next
  case False
  then have "cover g [] gc cm [] A \<or> A = []" using component_sound [of cm gc "[]" mx A b] assms by auto
  then show ?thesis by (auto simp: cover_def list_all_iff usable_def)
qed

lemma solve_components_candidates:
  assumes "\<And>cm. cm \<in> set (ag_components g) \<Longrightarrow> abstain_sinks g cm \<and> distinct cm"
  shows "set (so_chosen (solve_components g mt mx)) \<subseteq> set (ag_candidates g)"
  unfolding solve_components_def
proof (rule foldl_invariant [where P = "\<lambda>st. set (so_chosen st) \<subseteq> set (ag_candidates g)"])
  fix st :: solve_state and cm
  assume st: "set (so_chosen st) \<subseteq> set (ag_candidates g)" and "cm \<in> set (ag_components g)"
  then have "set (fst (solve_component g cm (so_consumed st) [] mx)) \<subseteq> set (ag_candidates g)"
    using assms solve_component_candidates by (metis prod.collapse)
  with st show "set (so_chosen (solve_step g mt mx st cm)) \<subseteq> set (ag_candidates g)"
    by (auto simp: solve_step_chosen_candidates)
qed simp

end

subsection \<open>The solver on a period\<close>

text \<open>The assumptions about a period: line keys are unique, and no settlement is called \<open>abstain\<close>, the name of the sink.\<close>

definition period_ok :: "bank_line list \<Rightarrow> recon_row list \<Rightarrow> bool" where
  "period_ok lines rows \<longleftrightarrow> distinct (map ln_key lines) \<and> no_abstain_sid rows"

abbreviation period_graph :: "(string \<Rightarrow> string) \<Rightarrow> pack option \<Rightarrow> recon_row list \<Rightarrow> string list \<Rightarrow> nat \<Rightarrow> int \<Rightarrow> rat option \<Rightarrow>
    bank_line list \<Rightarrow> assignment_graph" where
  "period_graph nf pack rows so mc mb th lines \<equiv> build_candidate_graph nf pack (recon_index_of rows) so mc mb th lines"

lemma period_components:
  assumes "period_ok lines rows" and "cm \<in> set (ag_components (period_graph nf pack rows so mc mb th lines))"
  shows "abstain_sinks (period_graph nf pack rows so mc mb th lines) cm \<and> distinct cm"
proof
  have sub: "set cm \<subseteq> ln_key ` set (filter solver_credit lines)"
    using assms(2) graph_components_ok(2) [of nf pack "recon_index_of rows" so mc mb th lines] by (auto simp del: build_sel)
  show "abstain_sinks (period_graph nf pack rows so mc mb th lines) cm"
    using assms(1) by (intro graph_abstain_sinks sub) (simp_all add: period_ok_def)
  show "distinct cm"
    using assms(2) graph_components_ok(1) [of nf pack "recon_index_of rows" so mc mb th lines] by (meson distinct_concat_iff)
qed

lemma single_key_unless_split:
  assumes "c \<in> set (graph_candidates nf pack ix so mc mb th lines)"
  shows "(\<exists>k. ca_credit_keys c = [k]) \<or> ca_is_split c \<and> ca_rail c = rail_value RAZORPAY_SETTLEMENT \<and> split_proven nf pack ix lines c"
  using assms
proof (cases rule: graph_candidates_cases)
  case split
  then show ?thesis using split_edges_proven by blast
qed (auto elim!: settlement_edgesD dest: rail_edgesD(1))

text \<open>
  C3. The search of one component is exact: on the graph of a period, unless the step budget runs out, the chosen
  assignments cover every credit of the component exactly once with pairwise different settlements that were still
  free, their cost is the sum the search reports, and no other cover of the component, in the order in which the
  search would add it up, is cheaper in the five-tier lexicographic objective. The pruning loses nothing.
\<close>

theorem solver_component_optimal:
  assumes "period_ok lines rows" and "cm \<in> set (ag_components (period_graph nf pack rows so mc mb th lines))"
    and "solve_component (period_graph nf pack rows so mc mb th lines) cm consumed [] mx = (A, b, False)"
  shows "cover (period_graph nf pack rows so mc mb th lines) [] consumed cm [] A \<and> b = total_cost zero_cost A \<and>
    (\<forall>A'. cover (period_graph nf pack rows so mc mb th lines) [] consumed cm [] A' \<longrightarrow>
       (\<exists>A''. mset A'' = mset A' \<and> b \<le> total_cost zero_cost A''))"
proof -
  note ok = period_components [OF assms(1,2)]
  have "length (default_chosen (period_graph nf pack rows so mc mb th lines) [] (sort cm)) = length cm"
    using default_full [of _ "sort cm"] ok by (simp add: abstain_sinks_def list_all_iff)
  then show ?thesis
    using built.component_sound [OF assms(3)] built.component_optimal [OF assms(3)] ok by blast
qed

text \<open>
  C4. A settlement is consumed once: two accepted verdicts with the same settlement belong to the same credit, or to
  the same split, which names both as its legs.
\<close>

theorem solver_settlement_once:
  assumes "period_ok lines rows"
    and "(k, v) \<in> set (sr_verdicts (solve_assignment (period_graph nf pack rows so mc mb th lines) mt mx))" "\<not> v_abstained v"
    and "(k', v') \<in> set (sr_verdicts (solve_assignment (period_graph nf pack rows so mc mb th lines) mt mx))" "\<not> v_abstained v'"
    and "v_target_id v = v_target_id v'" and "is_settlement (period_graph nf pack rows so mc mb th lines) (v_target_id v)"
  shows "k = k' \<or> v_covered_split_keys v = v_covered_split_keys v' \<and> {k, k'} \<subseteq> set (v_covered_split_keys v)"
proof -
  let ?g = "period_graph nf pack rows so mc mb th lines"
  let ?st = "solve_components ?g mt mx" and ?rej = "rejected_matches ?g (solve_components ?g mt mx)"
  have v: "v = verdict_of ?st ?rej k" and v': "v' = verdict_of ?st ?rej k'"
    using assms(2,4) by (auto simp: solve_assignment_def Let_def split: if_splits)
  obtain c where c: "c \<in> set (so_chosen ?st)" "k \<in> set (ca_credit_keys c)" "\<not> all_contested (so_contested ?st) c"
    "v_target_id v = ca_target_id c"
    "v_covered_split_keys v = (if ca_rail c = rail_value RAZORPAY_SETTLEMENT \<and> ca_is_split c then ca_credit_keys c else [])"
    using verdict_of_settled [of ?st ?rej k] assms(3) unfolding v by metis
  obtain d where d: "d \<in> set (so_chosen ?st)" "k' \<in> set (ca_credit_keys d)" "\<not> all_contested (so_contested ?st) d"
    "v_target_id v' = ca_target_id d"
    "v_covered_split_keys v' = (if ca_rail d = rail_value RAZORPAY_SETTLEMENT \<and> ca_is_split d then ca_credit_keys d else [])"
    using verdict_of_settled [of ?st ?rej k'] assms(5) unfolding v' by metis
  have "once_inv ?g ?st" by (rule built.solve_components_once) (rule period_components [OF assms(1)])
  moreover have "open_settlement ?g ?st c" "open_settlement ?g ?st d"
    using c d assms(6,7) by (auto simp: open_settlement_def)
  ultimately have cd: "c = d" using c(4) d(4) assms(6) unfolding once_inv_def by metis
  have "c \<in> set (ag_candidates ?g)"
    using built.solve_components_candidates [of nf pack "recon_index_of rows" so mc mb th lines mt mx] period_components [OF assms(1)] c(1) by blast
  then show ?thesis
    using single_key_unless_split [of c nf pack "recon_index_of rows" so mc mb th lines] c d cd by auto
qed

definition short_line :: bank_line where
  "short_line = sample_line\<lparr>ln_narration := ''x''\<rparr>"

definition sample_period :: "assignment_graph" where
  "sample_period = build_candidate_graph id None (recon_index_of [sample_row]) STRONG_RZP_SIGNALS SPLIT_MAX_CANDIDATES
     MAX_SPLIT_COMBINATIONS (Some DEFAULT_THRESHOLD) [short_line]"

definition sample_edge :: candidate where
  "sample_edge = \<lparr>ca_assignment_id = ''k1->setl_1'', ca_credit_keys = [''k1''], ca_target_id = ''setl_1'',
     ca_rail = ''razorpay_settlement'', ca_tier = ''B'', ca_confidence = fl (52 / 100),
     ca_evidence = [EvidenceItem ''amount_corr'' ''credit equals settlement net for 1 settlement(s) within value-date window'' (1 / 2),
       EvidenceItem ''value_date_proximity'' ''value_date within 3d of settled_at'' (fl (2 / 10))],
     ca_residual_paise = 0, ca_cost = (0, 0, 0, - fl (52 / 100), 1), ca_is_split = False\<rparr>"

definition sample_graph :: assignment_graph where
  "sample_graph = \<lparr>ag_credits = [(''k1'', \<lparr>sn_node_id = ''k1'', sn_kind = ''credit'', sn_amount_paise = 97640,
       sn_value_date = Some 738887, sn_metadata = [(''narration'', Some ''x''), (''bank_ref'', None)]\<rparr>)],
     ag_settlements = [(''setl_1'', \<lparr>sn_node_id = ''setl_1'', sn_kind = ''settlement'', sn_amount_paise = 97640,
       sn_value_date = Some 738886, sn_metadata = []\<rparr>)],
     ag_candidates = [abstain_edge short_line, sample_edge], ag_by_credit = [(''k1'', [abstain_edge short_line, sample_edge])],
     ag_by_settlement = [(''setl_1'', [sample_edge])], ag_components = [[''k1'']], ag_un_enumerable = []\<rparr>"

lemma sample_period_eval: "sample_period = sample_graph"
  by code_simp

lemma sample_period_ok: "period_ok [short_line] [sample_row]"
  by (simp add: period_ok_def no_abstain_sid_def sample_row_def)

theorem solver_component_optimal_witness:
  "fst (snd (solve_component sample_period [''k1''] [] [] 100)) = (0, 0, 0, - fl (52 / 100), 1) \<and>
   cover sample_period [] [] [''k1''] [] (fst (solve_component sample_period [''k1''] [] [] 100))"
proof -
  have c: "[''k1''] \<in> set (ag_components sample_period)" unfolding sample_period_eval by code_simp
  have t: "\<not> snd (snd (solve_component sample_period [''k1''] [] [] 100))" unfolding sample_period_eval by code_simp
  have b: "fst (snd (solve_component sample_period [''k1''] [] [] 100)) = (0, 0, 0, - fl (52 / 100), 1)"
    unfolding sample_period_eval by code_simp
  obtain A b t where sc: "solve_component sample_period [''k1''] [] [] 100 = (A, b, t)"
    by (cases "solve_component sample_period [''k1''] [] [] 100") auto
  with t have sf: "solve_component sample_period [''k1''] [] [] 100 = (A, b, False)" by simp
  from solver_component_optimal [OF sample_period_ok c [unfolded sample_period_def] sf [unfolded sample_period_def]] b sc
  show ?thesis by (simp add: sample_period_def)
qed

theorem solver_settlement_once_witness:
  "map (\<lambda>(k, v). (k, v_target_id v)) (sr_verdicts (solve_assignment sample_period 0 100)) = [(''k1'', ''setl_1'')] \<and>
   (\<exists>v. (''k1'', v) \<in> set (sr_verdicts (solve_assignment sample_period 0 100)) \<and> \<not> v_abstained v \<and>
      (''k1'' = ''k1'' \<or> v_covered_split_keys v = v_covered_split_keys v \<and> {''k1'', ''k1''} \<subseteq> set (v_covered_split_keys v)))"
proof -
  have m: "map (\<lambda>(k, v). (k, v_target_id v)) (sr_verdicts (solve_assignment sample_period 0 100)) = [(''k1'', ''setl_1'')]"
    unfolding sample_period_eval by code_simp
  have a: "map (\<lambda>(k, v). v_abstained v) (sr_verdicts (solve_assignment sample_period 0 100)) = [False]"
    unfolding sample_period_eval by code_simp
  have s: "is_settlement sample_period ''setl_1''" unfolding sample_period_eval by code_simp
  obtain w where w: "sr_verdicts (solve_assignment sample_period 0 100) = [(''k1'', w)]" "v_target_id w = ''setl_1''" using m by auto
  have w': "(''k1'', w) \<in> set (sr_verdicts (solve_assignment sample_period 0 100))" "\<not> v_abstained w" "is_settlement sample_period (v_target_id w)"
    using w a s by simp_all
  note solver_settlement_once [OF sample_period_ok w'(1) [unfolded sample_period_def] w'(2) w'(1) [unfolded sample_period_def] w'(2) refl
    w'(3) [unfolded sample_period_def]]
  with m w' show ?thesis by blast
qed

lemma map_of_map_pair: "map_of (map (\<lambda>k. (k, f k)) ks) k = (if k \<in> set ks then Some (f k) else None)"
  by (induction ks) auto

lemma merge_verdict_key: "a_line_key (merge_verdict orig v k) = k"
  by (auto simp: merge_verdict_def Let_def split: option.splits)

lemma merge_verdict_accepted:
  assumes "\<not> a_abstained (merge_verdict orig v k)"
  shows "\<not> v_abstained v" and "a_rail (merge_verdict orig v k) = v_rail v"
    and "v_rail v = rail_value RAZORPAY_SETTLEMENT \<Longrightarrow> v_covered_split_keys v \<noteq> [] \<Longrightarrow>
      a_evidence (merge_verdict orig v k) = [balance_evidence (length (v_covered_split_keys v)) (v_target_id v)]"
    and "v_covered_split_keys v = [] \<Longrightarrow> v_evidence v \<noteq> [] \<Longrightarrow> a_evidence (merge_verdict orig v k) = v_evidence v"
  using assms by (auto simp: merge_verdict_def Let_def split: option.splits if_splits)

lemma run_global_solver_line:
  assumes "distinct (map ln_key lines)" and "l \<in> set lines" and "solver_credit l"
    and "a \<in> set (fst (run_global_solver nf pack so lines ix base th mt mc mb))" and "a_line_key a = ln_key l"
  shows "\<exists>orig rej. a = merge_verdict orig
    (verdict_of (solve_components (build_candidate_graph nf pack ix so mc mb (Some th) lines) mt MAX_BRANCH_STEPS) rej (ln_key l)) (ln_key l)"
proof -
  let ?g = "build_candidate_graph nf pack ix so mc mb (Some th) lines"
  let ?r = "solve_assignment ?g mt MAX_BRANCH_STEPS" and ?b = "dict_of a_line_key id base"
  have k: "ln_key l \<in> set (map fst (credit_nodes lines))" unfolding keys_credit_nodes using assms(2,3) by auto
  then have ne: "ag_credits ?g \<noteq> []" by auto
  have v: "map_of (sr_verdicts ?r) (ln_key l) = Some (verdict_of (solve_components ?g mt MAX_BRANCH_STEPS)
      (rejected_matches ?g (solve_components ?g mt MAX_BRANCH_STEPS)) (ln_key l))"
    using ne k by (simp add: solve_assignment_def Let_def map_of_map_pair)
  from assms(4) obtain m where m: "m \<in> set lines" and am: "a \<in> set (case map_of (sr_verdicts ?r) (ln_key m) of
      None \<Rightarrow> (case map_of ?b (ln_key m) of None \<Rightarrow> [] | Some a \<Rightarrow> [a]) | Some v \<Rightarrow> [merge_verdict (map_of ?b (ln_key m)) v (ln_key m)])"
    by (auto simp: run_global_solver_def Let_def)
  have "a_line_key a = ln_key m"
  proof (cases "map_of (sr_verdicts ?r) (ln_key m)")
    case None
    with am have "map_of ?b (ln_key m) = Some a" by (auto split: option.splits)
    then show ?thesis using map_of_dict_of_SomeD [of a_line_key id base "ln_key m" a] by auto
  next
    case (Some v)
    with am show ?thesis by (simp add: merge_verdict_key)
  qed
  with assms(5) have "ln_key m = ln_key l" by simp
  with am v show ?thesis by auto
qed

text \<open>
  C5. The proof gate survives the global solver: with a pack that has no keywords for the Razorpay rail, an accepted
  Razorpay verdict for a credit carries the signals of a line with that key, one of which ties it to the settlement
  report, or the credit is a leg of a provable split: two or three credits with a Razorpay signal, one of them strong,
  whose amounts add up to the settlement's net within 100 paise.
\<close>

theorem solver_proof_gate:
  assumes "period_ok lines rows" and "no_rzp_keywords pack" and "l \<in> set lines" and "solver_credit l"
    and "a \<in> set (fst (run_global_solver nf pack so lines (recon_index_of rows) base th mt mc mb))" and "a_line_key a = ln_key l"
    and "a_rail a = rail_value RAZORPAY_SETTLEMENT" and "\<not> a_abstained a"
  shows "(a_evidence a = razorpay_signals nf pack l (recon_index_of rows) \<and>
      (\<exists>e \<in> set (a_evidence a). ev_signal e \<in> {''utr_exact'', ''utr_suffix'', ''setsum'', ''amount_corr''})) \<or>
    (\<exists>c. split_proven nf pack (recon_index_of rows) lines c \<and> ln_key l \<in> set (ca_credit_keys c) \<and>
      a_evidence a = [balance_evidence (length (ca_credit_keys c)) (ca_target_id c)])"
proof -
  let ?ix = "recon_index_of rows"
  let ?g = "period_graph nf pack rows so mc mb (Some th) lines"
  let ?st = "solve_components ?g mt MAX_BRANCH_STEPS"
  have dk: "l' = l" if "l' \<in> set lines" "ln_key l' = ln_key l" for l'
    using assms(1,3) that by (auto simp: period_ok_def distinct_map inj_on_def)
  obtain orig rej where a: "a = merge_verdict orig (verdict_of ?st rej (ln_key l)) (ln_key l)"
    using run_global_solver_line [OF _ assms(3-6)] assms(1) by (auto simp: period_ok_def)
  note na = assms(8) [unfolded a]
  note acc = merge_verdict_accepted [OF na]
  obtain c where c: "c \<in> set (so_chosen ?st)" "ln_key l \<in> set (ca_credit_keys c)"
    "v_target_id (verdict_of ?st rej (ln_key l)) = ca_target_id c" "v_rail (verdict_of ?st rej (ln_key l)) = ca_rail c"
    "v_evidence (verdict_of ?st rej (ln_key l)) = ca_evidence c"
    "v_covered_split_keys (verdict_of ?st rej (ln_key l)) =
       (if ca_rail c = rail_value RAZORPAY_SETTLEMENT \<and> ca_is_split c then ca_credit_keys c else [])"
    using verdict_of_settled [OF acc(1)] by metis
  have rz: "ca_rail c = rail_value RAZORPAY_SETTLEMENT" using acc(2) assms(7) c(4) a by simp
  have "c \<in> set (ag_candidates ?g)"
    using built.solve_components_candidates [of nf pack ?ix so mc mb "Some th" lines mt MAX_BRANCH_STEPS]
      period_components [OF assms(1)] c(1) by blast
  then have "c \<in> set (graph_candidates nf pack ?ix so mc mb (Some th) lines)" by simp
  then show ?thesis
  proof (cases rule: graph_candidates_cases)
    case (abstain m)
    then show ?thesis using rz by simp
  next
    case (rail m)
    then show ?thesis
      using rail_edgesD(4) [OF rail(3)] rz assms(2) non_rzp_keys [of _ _ nf pack m] by (fastforce simp: no_rzp_keywords_def)
  next
    case (settlement m)
    from settlement(3) obtain sid ex conf where e: "c = settlement_edge ?ix m (razorpay_signals nf pack m ?ix) ex conf sid"
      and tie: "list_ex (\<lambda>e. ev_signal e \<in> set RZP_TIE_SIGNALS) (razorpay_signals nf pack m ?ix)"
      by (rule settlement_edgesD)
    have "m = l" using dk [OF settlement(1)] c(2) e by simp
    moreover have "razorpay_signals nf pack m ?ix \<noteq> []" using tie by auto
    ultimately have "a_evidence a = razorpay_signals nf pack l ?ix" using acc(4) c e a by simp
    then show ?thesis using tie \<open>m = l\<close> by (auto simp: list_ex_iff RZP_TIE_SIGNALS_def)
  next
    case split
    note sp = split_edges_proven [OF split]
    have "ca_credit_keys c \<noteq> []" using c(2) by auto
    then have "a_evidence a = [balance_evidence (length (ca_credit_keys c)) (ca_target_id c)]"
      using acc(3) c(3,4,6) sp a by simp
    with sp c(2) show ?thesis by blast
  qed
qed

theorem solver_proof_gate_witness:
  "\<exists>a \<in> set (fst (run_global_solver id None STRONG_RZP_SIGNALS [short_line] (recon_index_of [sample_row]) [] DEFAULT_THRESHOLD 0
       SPLIT_MAX_CANDIDATES MAX_SPLIT_COMBINATIONS)). \<exists>e \<in> set (a_evidence a).
     ev_signal e \<in> {''utr_exact'', ''utr_suffix'', ''setsum'', ''amount_corr'', ''split_reconstruction''}"
proof -
  let ?r = "run_global_solver id None STRONG_RZP_SIGNALS [short_line] (recon_index_of [sample_row]) [] DEFAULT_THRESHOLD 0
    SPLIT_MAX_CANDIDATES MAX_SPLIT_COMBINATIONS"
  have r: "map (\<lambda>a. (a_line_key a, a_rail a, a_abstained a)) (fst ?r) = [(''k1'', rail_value RAZORPAY_SETTLEMENT, False)]"
    unfolding run_global_solver_def sample_period_def [symmetric] sample_period_eval by code_simp
  then obtain a where a: "fst ?r = [a]" "a_line_key a = ln_key short_line" "a_rail a = rail_value RAZORPAY_SETTLEMENT" "\<not> a_abstained a"
    by (auto simp: short_line_def sample_line_def)
  have "short_line \<in> set [short_line]" "solver_credit short_line" "a \<in> set (fst ?r)"
    using a(1) by (simp_all add: solver_credit_def short_line_def sample_line_def)
  from solver_proof_gate [OF sample_period_ok no_rzp_keywords_default this a(2-4)] a(1) show ?thesis
    by (auto simp: balance_evidence_def)
qed

text \<open>
  At the default threshold the solver accepts what the per-line pass abstains from: the settlement edges of a
  credit are compared with the threshold only when it was raised above the default, so a lone amount match of
  confidence 0.52 is accepted under the threshold 0.55.
\<close>

theorem solver_below_threshold:
  "map (\<lambda>a. (a_rail a, a_confidence a, a_abstained a)) (fst (run_global_solver id None STRONG_RZP_SIGNALS [short_line]
     (recon_index_of [sample_row]) [] DEFAULT_THRESHOLD 0 SPLIT_MAX_CANDIDATES MAX_SPLIT_COMBINATIONS)) =
     [(rail_value RAZORPAY_SETTLEMENT, fl (52 / 100), False)] \<and>
   fl (52 / 100) < DEFAULT_THRESHOLD \<and>
   a_abstained (attribute_line id None short_line (recon_index_of [sample_row]) DEFAULT_THRESHOLD 0 False)"
proof (intro conjI)
  show "map (\<lambda>a. (a_rail a, a_confidence a, a_abstained a)) (fst (run_global_solver id None STRONG_RZP_SIGNALS [short_line]
     (recon_index_of [sample_row]) [] DEFAULT_THRESHOLD 0 SPLIT_MAX_CANDIDATES MAX_SPLIT_COMBINATIONS)) =
     [(rail_value RAZORPAY_SETTLEMENT, fl (52 / 100), False)]"
    unfolding run_global_solver_def sample_period_def [symmetric] sample_period_eval by code_simp
qed code_simp+

definition crossed_line :: bank_line where
  "crossed_line = sample_line\<lparr>ln_narration := ''1234567890ABCDEF'', ln_amount_paise := 50000\<rparr>"

definition crossed_edge :: "string \<Rightarrow> int \<Rightarrow> candidate" where
  "crossed_edge sid residual = \<lparr>ca_assignment_id = ''k1->'' @ sid, ca_credit_keys = [''k1''], ca_target_id = sid,
     ca_rail = ''razorpay_settlement'', ca_tier = ''A'', ca_confidence = fl (95 / 100),
     ca_evidence = [EvidenceItem ''utr_exact'' ''UTR 1234567890ABCDEF matches a settlement_utr'' (fl (95 / 100)),
       EvidenceItem ''amount_corr'' ''credit equals settlement net for 1 settlement(s) within value-date window'' (1 / 2),
       EvidenceItem ''value_date_proximity'' ''value_date within 3d of settled_at'' (fl (2 / 10))],
     ca_residual_paise = residual, ca_cost = (0, 0, \<bar>residual\<bar>, - fl (95 / 100), 0), ca_is_split = False\<rparr>"

definition crossed_candidates :: "candidate list" where
  "crossed_candidates = [abstain_edge crossed_line, crossed_edge ''setl_1'' (- 47640), crossed_edge ''setl_2'' 0]"

lemma crossed_signals:
  "razorpay_signals id None crossed_line (recon_index_of [sample_row, sample_row2]) = ca_evidence (crossed_edge [] 0)"
  by code_simp

lemma crossed_no_rail: "narration_rail_signals id None crossed_line = []"
  by code_simp

lemma crossed_candidates:
  "graph_candidates id None (recon_index_of [sample_row, sample_row2]) STRONG_RZP_SIGNALS
    SPLIT_MAX_CANDIDATES MAX_SPLIT_COMBINATIONS (Some DEFAULT_THRESHOLD) [crossed_line] = crossed_candidates"
  unfolding graph_candidates_def split_edges_def tied_sids_by_key_def split_pool_def split_lines_def single_edges_def rail_edges_def
    settlement_edges_def signals_of_def list.map filter.simps Let_def crossed_signals crossed_no_rail
  by code_simp

text \<open>
  An exact identifier does not bind its settlement: the credit carries the UTR of \<open>setl_1\<close> and its amount is the net
  of \<open>setl_2\<close>. The amount match becomes an edge of the same tier and confidence as the UTR match, its evidence names
  the UTR of the other settlement, and it is the cheaper edge, so the search prefers it.
\<close>

theorem solver_exact_utr_overridden:
  "map_of (ix_utr_to_sid (recon_index_of [sample_row, sample_row2])) ''1234567890abcdef'' = Some ''setl_1'' \<and>
   graph_candidates id None (recon_index_of [sample_row, sample_row2]) STRONG_RZP_SIGNALS SPLIT_MAX_CANDIDATES
     MAX_SPLIT_COMBINATIONS (Some DEFAULT_THRESHOLD) [crossed_line] =
     [abstain_edge crossed_line, crossed_edge ''setl_1'' (- 47640), crossed_edge ''setl_2'' 0] \<and>
   ca_tier (crossed_edge ''setl_2'' 0) = tier_value TIER_A \<and>
   ca_cost (crossed_edge ''setl_2'' 0) < ca_cost (crossed_edge ''setl_1'' (- 47640)) \<and>
   ca_cost (crossed_edge ''setl_2'' 0) < ca_cost (abstain_edge crossed_line)"
proof (intro conjI)
  show "map_of (ix_utr_to_sid (recon_index_of [sample_row, sample_row2])) ''1234567890abcdef'' = Some ''setl_1''" by code_simp
  show "graph_candidates id None (recon_index_of [sample_row, sample_row2]) STRONG_RZP_SIGNALS SPLIT_MAX_CANDIDATES
     MAX_SPLIT_COMBINATIONS (Some DEFAULT_THRESHOLD) [crossed_line] =
     [abstain_edge crossed_line, crossed_edge ''setl_1'' (- 47640), crossed_edge ''setl_2'' 0]"
    by (rule crossed_candidates [unfolded crossed_candidates_def])
qed (simp_all add: crossed_edge_def abstain_edge_def crossed_line_def sample_line_def tier_value.simps less_prod_def)

end
