(* ===== verification/Pipeline.thy ===== *)
theory Pipeline
  imports Solver Rules
begin

section \<open>The attribution pipeline (\<open>attribute_all\<close> of \<open>engine/attribute.py\<close>)\<close>

text \<open>
  Per-line attribution, then either the global solver or the split reconstruction, then the approved merchant rules.
  The optional output dictionary of the source is the second component of the result.
\<close>

definition is_rule_conflict :: "attribution \<Rightarrow> bool" where
  "is_rule_conflict ra \<longleftrightarrow> list_ex (\<lambda>e. ev_signal e = ''rule_conflict'') (a_evidence ra)"

definition merge_rule :: "(string, attribution) dict \<Rightarrow> attribution \<Rightarrow> attribution" where
  "merge_rule rule_attrs a = (case map_of rule_attrs (a_line_key a) of None \<Rightarrow> a
     | Some ra \<Rightarrow> if is_rule_conflict ra then (if a_tier a = tier_value TIER_A then a else ra)
         else if a_abstained a then ra else a)"

definition attribute_base :: "(string \<Rightarrow> string) \<Rightarrow> pack option \<Rightarrow> string list \<Rightarrow> bank_line list \<Rightarrow> recon_index \<Rightarrow> rat \<Rightarrow> rat \<Rightarrow> bool \<Rightarrow> bool \<Rightarrow>
    attribution list \<times> solver_result option" where
  "attribute_base nf pack so lines ix threshold mt global_solver audit = (
     let base = map (\<lambda>l. attribute_line nf pack l ix threshold mt audit) lines in
     if global_solver
     then case run_global_solver nf pack so lines ix base threshold mt SPLIT_MAX_CANDIDATES MAX_SPLIT_COMBINATIONS of
         (base', result) \<Rightarrow> (base', Some result)
     else (reconstruct_splits nf pack lines ix base threshold mt audit, None))"

definition attribute_all :: "(string \<Rightarrow> string) \<Rightarrow> pack option \<Rightarrow> string list \<Rightarrow> bank_line list \<Rightarrow> recon_index \<Rightarrow> rat \<Rightarrow> rule list \<Rightarrow> rat \<Rightarrow>
    bool \<Rightarrow> bool \<Rightarrow> attribution list \<times> solver_result option" where
  "attribute_all nf pack so lines ix threshold rules mt global_solver audit = (
     case attribute_base nf pack so lines ix threshold mt global_solver audit of (base, result) \<Rightarrow>
       if rules = [] then (base, result)
       else let rule_attrs = apply_approved_rules lines rules in
         if rule_attrs = [] then (base, result) else (map (merge_rule rule_attrs) base, result))"

subsection \<open>Lemmas\<close>

lemma merge_rule_Nil [simp]: "merge_rule [] a = a"
  by (simp add: merge_rule_def)

lemma attribute_all_merge:
  "fst (attribute_all nf pack so lines ix th rules mt gs audit) =
     map (merge_rule (apply_approved_rules lines rules)) (fst (attribute_base nf pack so lines ix th mt gs audit))"
  by (cases "attribute_base nf pack so lines ix th mt gs audit")
    (auto simp: attribute_all_def Let_def apply_approved_rules_def map_idI)

lemma rule_conflict_iff:
  assumes "rule_attribution rules line = Some ra"
  shows "is_rule_conflict ra \<longleftrightarrow> a_abstained ra"
  using assms by (auto simp: rule_attribution_def is_rule_conflict_def Let_def split: if_splits list.splits)

lemma finalize_key [simp]: "a_line_key (finalize_razorpay l ev non c t mt audit) = ln_key l"
  by (auto simp: finalize_razorpay_def Let_def split: option.splits)

lemma attribute_scored_key [simp]: "a_line_key (attribute_scored l non ev hard t th mt audit) = ln_key l"
  by (auto simp: attribute_scored_def Let_def split: list.splits prod.splits)

lemma attribute_line_key [simp]: "a_line_key (attribute_line nf pack l ix th mt audit) = ln_key l"
  by (auto simp: attribute_line_def attribute_debit_def Let_def split: option.splits list.splits prod.splits)

lemma reconstruct_splits_keys:
  assumes "map a_line_key attrs = map ln_key lines"
  shows "map a_line_key (reconstruct_splits nf pack lines ix attrs th mt audit) = map ln_key lines"
proof -
  have len: "length attrs = length lines" using assms by (metis length_map)
  have "a_line_key (snd x) = ln_key (fst x)" if "x \<in> set (zip lines attrs)" for x
    using that assms len by (auto simp: set_zip) (metis nth_map)
  then have "map a_line_key (map (\<lambda>(l, a). case map_of d (ln_key l) of None \<Rightarrow> a
      | Some x \<Rightarrow> finalize_razorpay l (split_evidence x) (narration_rail_signals nf pack l) SPLIT_CONFIDENCE TIER_C mt audit)
      (zip lines attrs)) = map (ln_key \<circ> fst) (zip lines attrs)" for d
    by (fastforce split: option.splits)
  moreover have "map (ln_key \<circ> fst) (zip lines attrs) = map ln_key lines"
    using len by (metis map_fst_zip map_map)
  ultimately show ?thesis using assms by (simp add: reconstruct_splits_def Let_def)
qed

lemma merge_rule_key: "a_line_key (merge_rule (apply_approved_rules lines rules) a) = a_line_key a"
proof (cases "map_of (apply_approved_rules lines rules) (a_line_key a)")
  case (Some ra)
  then have "a_line_key ra = a_line_key a" using apply_rules_SomeD [OF Some] rule_attribution_SomeD(2) by fastforce
  with Some show ?thesis by (simp add: merge_rule_def)
qed (simp add: merge_rule_def)

lemma run_global_solver_keys:
  assumes "map a_line_key base = map ln_key lines"
  shows "map a_line_key (fst (run_global_solver nf pack so lines ix base th mt mc mb)) = map ln_key lines"
proof -
  let ?b = "dict_of a_line_key id base"
  have b: "\<exists>a. map_of ?b (ln_key l) = Some a \<and> a_line_key a = ln_key l" if "l \<in> set lines" for l
  proof -
    have "ln_key l \<in> a_line_key ` set base" using assms that by (metis image_eqI set_map)
    then obtain a where "map_of ?b (ln_key l) = Some a"
      using map_of_dict_of_None [of a_line_key id base "ln_key l"] by (cases "map_of ?b (ln_key l)") auto
    then show ?thesis using map_of_dict_of_SomeD [of a_line_key id base "ln_key l" a] by auto
  qed
  have one: "map a_line_key (case map_of vs (ln_key l) of None \<Rightarrow> (case map_of ?b (ln_key l) of None \<Rightarrow> [] | Some a \<Rightarrow> [a])
      | Some v \<Rightarrow> [merge_verdict (map_of ?b (ln_key l)) v (ln_key l)]) = [ln_key l]" if "l \<in> set lines" for l vs
    using b [OF that] by (auto simp: merge_verdict_key split: option.splits)
  have concat_keys: "map a_line_key (concat (map f ls)) = map ln_key ls" if "\<And>l. l \<in> set ls \<Longrightarrow> map a_line_key (f l) = [ln_key l]" for f ls
    using that by (induction ls) auto
  show ?thesis unfolding run_global_solver_def Let_def fst_conv by (rule concat_keys) (rule one)
qed

subsection \<open>Properties\<close>

text \<open>
  Every bank line gets exactly one attribution, in the order of the statement, whichever passes run and whatever
  the rules.
\<close>

theorem attribute_all_one_per_line:
  "map a_line_key (fst (attribute_all nf pack so lines ix threshold rules mt global_solver audit)) = map ln_key lines"
proof -
  let ?base = "map (\<lambda>l. attribute_line nf pack l ix threshold mt audit) lines"
  have b: "map a_line_key ?base = map ln_key lines" by simp
  have "map a_line_key (fst (attribute_base nf pack so lines ix threshold mt global_solver audit)) = map ln_key lines"
    using run_global_solver_keys [OF b, of nf pack so ix threshold mt SPLIT_MAX_CANDIDATES MAX_SPLIT_COMBINATIONS]
      reconstruct_splits_keys [OF b, of nf pack ix threshold mt audit]
    by (simp add: attribute_base_def Let_def split_beta)
  moreover have "a_line_key \<circ> merge_rule (apply_approved_rules lines rules) = a_line_key" by (auto simp: merge_rule_key)
  ultimately show ?thesis by (simp add: attribute_all_merge)
qed

text \<open>
  Rules change little: compared with the verdicts before them, an attribution stays as it was, or an abstention
  becomes the unanimous verdict of the approved rules that match a line with that key, or a verdict that is not
  Tier A becomes an abstention because such rules contradict each other. A rule never replaces one rail by another.
\<close>

theorem rules_merge_conservative:
  "list_all2 (\<lambda>a a'. a' = a \<or> (\<exists>line \<in> set lines. rule_attribution rules line = Some a' \<and> ln_key line = a_line_key a \<and>
       (if a_abstained a' then a_tier a \<noteq> tier_value TIER_A \<and>
          (\<exists>r s. {r, s} \<subseteq> set (matching_rules rules line) \<and> ru_target_rail r \<noteq> ru_target_rail s)
        else a_abstained a \<and> a_rail a' \<in> set (map ru_target_rail (matching_rules rules line)))))
     (fst (attribute_base nf pack so lines ix threshold mt global_solver audit))
     (fst (attribute_all nf pack so lines ix threshold rules mt global_solver audit))"
proof -
  have "merge_rule (apply_approved_rules lines rules) a = a \<or> (\<exists>line \<in> set lines.
      rule_attribution rules line = Some (merge_rule (apply_approved_rules lines rules) a) \<and> ln_key line = a_line_key a \<and>
      (if a_abstained (merge_rule (apply_approved_rules lines rules) a)
       then a_tier a \<noteq> tier_value TIER_A \<and> (\<exists>r s. {r, s} \<subseteq> set (matching_rules rules line) \<and> ru_target_rail r \<noteq> ru_target_rail s)
       else a_abstained a \<and> a_rail (merge_rule (apply_approved_rules lines rules) a) \<in> set (map ru_target_rail (matching_rules rules line))))"
    (is "?m = a \<or> _") for a
  proof (cases "?m = a")
    case False
    then obtain ra where ra: "map_of (apply_approved_rules lines rules) (a_line_key a) = Some ra" "?m = ra"
      and c: "if is_rule_conflict ra then a_tier a \<noteq> tier_value TIER_A else a_abstained a"
      by (auto simp: merge_rule_def split: option.splits if_splits)
    obtain line where l: "line \<in> set lines" "ln_key line = a_line_key a" "rule_attribution rules line = Some ra"
      using apply_rules_SomeD [OF ra(1)] by blast
    note f = rule_attribution_SomeD [OF l(3)] rule_conflict_iff [OF l(3)]
    have "\<exists>r s. {r, s} \<subseteq> set (matching_rules rules line) \<and> ru_target_rail r \<noteq> ru_target_rail s" if "a_abstained ra"
      using f(5) that by (fastforce simp: matching_rules_def)
    moreover have "a_rail ra \<in> set (map ru_target_rail (matching_rules rules line))" if "\<not> a_abstained ra"
      using f(4) that by (auto simp: matching_rules_def)
    ultimately show ?thesis using l ra c f(6) by (auto intro!: bexI [of _ line])
  qed simp
  then show ?thesis unfolding attribute_all_merge list_all2_map2 by (simp add: list_all2_same)
qed

end
