(* ===== verification/Config.thy ===== *)
theory Config
  imports Packs SolverGraph
begin

section \<open>Configuration and the abstention threshold\<close>

text \<open>
  \<open>engine/config.py\<close> and \<open>engine/abstain.py\<close>. The lines of the \<open>.env\<close> file and the process
  environment are arguments. The threshold may be any Python value, so it is a value of the datatype
  \<open>pyvalue\<close>: the code rejects everything but numbers in [0, 1]. Configuration errors are values of
  \<open>config_error\<close>, one per raise.
\<close>

definition KEY_ENV :: "(string, string) dict" where
  "KEY_ENV = [(''openrouter'', ''OPENROUTER_API_KEY''), (''gemini'', ''GEMINI_API_KEY''),
     (''groq'', ''GROQ_API_KEY''), (''cerebras'', ''CEREBRAS_API_KEY'')]"

datatype config_error =
    No_Provider | Unknown_Provider string | No_Key string | No_Model
  | Threshold_Type | Threshold_Range | Bad_Pack pack_error

definition strip_char :: "char \<Rightarrow> string \<Rightarrow> string" where
  "strip_char c s = rev (dropWhile (\<lambda>x. x = c) (rev (dropWhile (\<lambda>x. x = c) s)))"

definition dotenv_line :: "(string, string) dict \<Rightarrow> string \<Rightarrow> (string, string) dict" where
  "dotenv_line env raw =
    (let line = py_strip raw
     in if line = '''' \<or> prefix ''#'' line \<or> \<not> contains ''='' line then env
        else let (k, v) = py_partition CHR ''='' line
             in dset env (py_strip k) (strip_char CHR 0x27 (strip_char CHR 0x22 (py_strip v))))"

definition load_dotenv :: "string list option \<Rightarrow> (string, string) dict" where
  "load_dotenv file = (case file of None \<Rightarrow> [] | Some lines \<Rightarrow> foldl dotenv_line [] lines)"

definition dict_merge :: "('k, 'v) dict \<Rightarrow> ('k, 'v) dict \<Rightarrow> ('k, 'v) dict" where
  "dict_merge a b = foldl (\<lambda>d (k, v). dset d k v) a b"

datatype pyvalue = VNone | VBool bool | VInt int | VFloat rat | VNaN | VInf bool | VOther

record config =
  use_ai :: bool
  provider :: "string option"
  model :: "string option"
  api_key :: "string option"
  threshold :: rat
  seed :: int
  global_solver :: bool
  evidence_pack_selector :: "string option"
  evidence_pack :: "pack option"

definition provider_or_none :: "config \<Rightarrow> string option" where
  "provider_or_none c = (if use_ai c then provider c else Some ''none'')"

text \<open>Python's \<open>a or b\<close> on optional text.\<close>

definition py_or :: "string option \<Rightarrow> string option \<Rightarrow> string option" where
  "py_or a b = (if truthy a then a else b)"

definition check_ai ::
  "(string, string) dict \<Rightarrow> string option \<Rightarrow> string option \<Rightarrow> config_error + string" where
  "check_ai env prov mdl =
    (if \<not> truthy prov then Inl No_Provider
     else case map_of KEY_ENV (the prov) of
       None \<Rightarrow> Inl (Unknown_Provider (the prov))
     | Some env_key \<Rightarrow>
         if \<not> truthy (map_of env env_key) then Inl (No_Key env_key)
         else if \<not> truthy mdl then Inl No_Model
         else Inr (the (map_of env env_key)))"

definition check_threshold :: "pyvalue \<Rightarrow> config_error + rat" where
  "check_threshold v = (case v of
     VInt n \<Rightarrow> if 0 \<le> n \<and> n \<le> 1 then Inr (of_int n) else Inl Threshold_Range
   | VFloat x \<Rightarrow> if 0 \<le> x \<and> x \<le> 1 then Inr x else Inl Threshold_Range
   | VNaN \<Rightarrow> Inl Threshold_Range
   | VInf _ \<Rightarrow> Inl Threshold_Range
   | _ \<Rightarrow> Inl Threshold_Type)"

definition build_config ::
  "string list option \<Rightarrow> (string, string) dict \<Rightarrow> bool \<Rightarrow> string option \<Rightarrow> string option \<Rightarrow> pyvalue
   \<Rightarrow> int \<Rightarrow> bool \<Rightarrow> string option \<Rightarrow> config_error + config" where
  "build_config dotenv environ no_ai prov mdl thr sd gs pack_arg =
    (let ai = (\<not> no_ai);
         env = dict_merge (load_dotenv dotenv) environ;
         resolved_provider = py_or prov (map_of env ''LLM_PROVIDER'');
         resolved_model = py_or mdl (map_of env ''LLM_MODEL'')
     in case (if ai then map_sum id Some (check_ai env resolved_provider resolved_model)
              else Inr None) of
          Inl e \<Rightarrow> Inl e
        | Inr key \<Rightarrow>
            (case check_threshold (if thr = VNone then VFloat DEFAULT_THRESHOLD else thr) of
               Inl e \<Rightarrow> Inl e
             | Inr t \<Rightarrow>
                 let selector = py_or (py_or pack_arg (map_of env ''EVIDENCE_PACK''))
                                  (Some DEFAULT_PACK_ID)
                 in case get_pack selector of
                      Inl e \<Rightarrow> Inl (Bad_Pack e)
                    | Inr p \<Rightarrow> Inr \<lparr>use_ai = ai,
                        provider = (if ai then resolved_provider else None),
                        model = (if ai then resolved_model else None), api_key = key,
                        threshold = t, seed = sd, global_solver = gs,
                        evidence_pack_selector = selector, evidence_pack = Some p\<rparr>))"

subsection \<open>The cost model of \<open>abstain.py\<close>\<close>

definition DEFAULT_COST_WRONG :: rat where
  "DEFAULT_COST_WRONG = 20"

definition DEFAULT_COST_REVIEW :: rat where
  "DEFAULT_COST_REVIEW = 1"

definition required_precision :: "rat \<Rightarrow> rat \<Rightarrow> rat" where
  "required_precision cost_wrong cost_review =
    (if cost_wrong \<le> 0 then 0 else max 0 (fl (1 - fl (cost_review / cost_wrong))))"

record curve_point =
  cp_threshold :: rat
  cp_coverage :: rat

datatype curve_error = ZeroDivisionError

definition coverage_curve :: "rat list \<Rightarrow> int \<Rightarrow> int option \<Rightarrow> curve_error + curve_point list" where
  "coverage_curve confidences steps tot =
    (let n0 = (case tot of Some t \<Rightarrow> t | None \<Rightarrow> int (length confidences));
         n = (if n0 = 0 then 1 else n0)
     in if steps = 0 then Inl ZeroDivisionError
        else Inr (map (\<lambda>i. let tau = fl (of_int i / of_int steps);
                               covered = length (filter (\<lambda>c. tau \<le> c) confidences)
                           in \<lparr>cp_threshold = py_round 4 tau,
                               cp_coverage = py_round 4 (fl (of_nat covered / of_int n))\<rparr>)
                    [0..steps]))"

subsection \<open>What a configuration guarantees\<close>

lemma check_threshold_Inr: "check_threshold v = Inr t \<Longrightarrow> 0 \<le> t \<and> t \<le> 1"
  by (auto simp: check_threshold_def split: pyvalue.split_asm if_split_asm)

lemma check_ai_Inr:
  "check_ai env prov mdl = Inr key \<Longrightarrow> truthy prov \<and> truthy mdl \<and> key \<noteq> ''''
     \<and> (\<exists>name. map_of KEY_ENV (the prov) = Some name \<and> map_of env name = Some key)"
  by (auto simp: check_ai_def truthy_def split: if_split_asm option.split_asm)

lemma map_of_dict_merge: "map_of (dict_merge a b) k =
    (case map_of (rev b) k of Some v \<Rightarrow> Some v | None \<Rightarrow> map_of a k)"
  by (induction b rule: rev_induct) (auto simp: dict_merge_def split: option.split)

lemma map_sum_Some: "map_sum id Some x = Inr y \<longleftrightarrow> (\<exists>z. x = Inr z \<and> y = Some z)"
  by (cases x) auto

lemma get_pack_Inr: "get_pack sel = Inr p \<Longrightarrow> p = DEFAULT_NARRATION_PACK"
  by (auto simp: get_pack_def PACK_REGISTRY_iff split: sum.split_asm option.split_asm if_split_asm)

lemma KEY_ENV_known: "map_of KEY_ENV k = Some v \<Longrightarrow> k \<in> {''openrouter'', ''gemini'', ''groq'', ''cerebras''}"
  by (auto simp: KEY_ENV_def split: if_split_asm)

lemma build_config_threshold_error:
  assumes "check_threshold (if thr = VNone then VFloat DEFAULT_THRESHOLD else thr) = Inl e"
  shows "\<exists>e'. build_config dotenv environ no_ai prov mdl thr sd gs pk = Inl e'"
  unfolding build_config_def Let_def assms by (auto split: sum.split)

text \<open>
  C20. Every configuration that is built carries a threshold in [0, 1] and a registered evidence
  pack; with AI it has a known provider, a model and the non-empty key of that provider, and
  without AI none of the three. A threshold that is not a number (a boolean, text) or is NaN,
  infinite or out of range builds no configuration at all.
\<close>

theorem config_threshold_in_range:
  "(build_config dotenv environ no_ai prov mdl thr sd gs pk = Inr cfg \<longrightarrow>
      0 \<le> threshold cfg \<and> threshold cfg \<le> 1 \<and> evidence_pack cfg = Some DEFAULT_NARRATION_PACK
      \<and> (if no_ai then provider cfg = None \<and> model cfg = None \<and> api_key cfg = None
         else truthy (provider cfg) \<and> truthy (model cfg) \<and> truthy (api_key cfg)
              \<and> the (provider cfg) \<in> {''openrouter'', ''gemini'', ''groq'', ''cerebras''}))
   \<and> (thr \<in> {VBool b, VOther, VNaN, VInf b} \<or> (\<exists>n. thr = VInt n \<and> (n < 0 \<or> 1 < n))
        \<or> (\<exists>x. thr = VFloat x \<and> (x < 0 \<or> 1 < x))
      \<longrightarrow> (\<exists>e. build_config dotenv environ no_ai prov mdl thr sd gs pk = Inl e))"
proof (rule conjI; rule impI)
  assume "build_config dotenv environ no_ai prov mdl thr sd gs pk = Inr cfg"
  then show "0 \<le> threshold cfg \<and> threshold cfg \<le> 1 \<and> evidence_pack cfg = Some DEFAULT_NARRATION_PACK
      \<and> (if no_ai then provider cfg = None \<and> model cfg = None \<and> api_key cfg = None
         else truthy (provider cfg) \<and> truthy (model cfg) \<and> truthy (api_key cfg)
              \<and> the (provider cfg) \<in> {''openrouter'', ''gemini'', ''groq'', ''cerebras''})"
    unfolding build_config_def Let_def
    by (cases no_ai)
       (auto simp: map_sum_Some split: sum.split_asm
         dest!: check_threshold_Inr check_ai_Inr get_pack_Inr KEY_ENV_known)
next
  assume "thr \<in> {VBool b, VOther, VNaN, VInf b} \<or> (\<exists>n. thr = VInt n \<and> (n < 0 \<or> 1 < n))
        \<or> (\<exists>x. thr = VFloat x \<and> (x < 0 \<or> 1 < x))"
  then have "\<exists>e. check_threshold (if thr = VNone then VFloat DEFAULT_THRESHOLD else thr) = Inl e"
    by (auto simp: check_threshold_def)
  then show "\<exists>e. build_config dotenv environ no_ai prov mdl thr sd gs pk = Inl e"
    using build_config_threshold_error by blast
qed

lemma default_selector: "get_pack (Some ''default'') = Inr DEFAULT_NARRATION_PACK"
  by (simp add: get_pack_def parse_pack_selector_def PACK_REGISTRY_def SUPPORTED_SCHEMA_VERSIONS_def)

theorem config_threshold_in_range_witness:
  "\<exists>cfg. build_config None [] True None None (VFloat (1/2)) 0 False (Some ''default'') = Inr cfg
     \<and> 0 \<le> threshold cfg \<and> threshold cfg \<le> 1
     \<and> (\<exists>e. build_config None [] True None None VNaN 0 False (Some ''default'') = Inl e)"
proof -
  obtain cfg where
    "build_config None [] True None None (VFloat (1/2)) 0 False (Some ''default'') = Inr cfg"
    by (simp add: build_config_def check_threshold_def py_or_def default_selector Let_def)
  then show ?thesis
    using config_threshold_in_range [of None "[]" True None None "VFloat (1/2)" 0 False "Some ''default''"]
      config_threshold_in_range [of None "[]" True None None VNaN 0 False "Some ''default''"]
    by blast
qed

subsection \<open>Coverage curves\<close>

lemma sorted_map_upto:
  assumes "\<And>i j. a \<le> i \<Longrightarrow> i \<le> j \<Longrightarrow> j \<le> b \<Longrightarrow> f i \<le> f j"
  shows "sorted (map f [a..b])"
  using sorted_wrt_mono_rel [of "[a..b]" "(\<le>)" "\<lambda>i j. f i \<le> f j"] assms
  by (simp add: sorted_wrt_map)

lemma sorted_rev_map_upto:
  assumes "\<And>i j. a \<le> i \<Longrightarrow> i \<le> j \<Longrightarrow> j \<le> b \<Longrightarrow> f j \<le> f i"
  shows "sorted (rev (map f [a..b]))"
  using sorted_wrt_mono_rel [of "[a..b]" "(\<le>)" "\<lambda>i j. f j \<le> f i"] assms
  by (simp add: sorted_wrt_rev sorted_wrt_map)

lemma py_round_1 [simp]: "py_round k 1 = 1"
proof -
  have "rhe (10 ^ k) = 10 ^ k"
    using rhe_of_int [of "10 ^ k"] by simp
  then show ?thesis
    by (simp add: py_round_def)
qed

lemma py_round_0 [simp]: "py_round k 0 = 0"
  by (simp add: py_round_def)

lemma filter_length_antimono:
  "(\<And>x. P x \<Longrightarrow> Q x) \<Longrightarrow> length (filter P xs) \<le> length (filter Q xs)"
  by (induction xs) auto

text \<open>
  Along a coverage curve the thresholds never fall and the coverage never rises, and when the
  denominator is the number of all lines of the batch, every coverage lies between 0 and 1.
\<close>

lemma coverage_curve_antitone:
  assumes "0 < steps" "int (length confidences) \<le> n" "0 < n"
  shows "\<exists>pts. coverage_curve confidences steps (Some n) = Inr pts \<and> length pts = nat (steps + 1)
    \<and> sorted (map cp_threshold pts) \<and> sorted (rev (map cp_coverage pts))
    \<and> (\<forall>p \<in> set pts. 0 \<le> cp_coverage p \<and> cp_coverage p \<le> 1)"
proof -
  let ?tau = "\<lambda>i. fl (of_int i / of_int steps)"
  let ?cov = "\<lambda>i. length (filter (\<lambda>c. ?tau i \<le> c) confidences)"
  let ?y = "\<lambda>i. py_round 4 (fl (of_nat (?cov i) / of_int n))"
  let ?pts = "map (\<lambda>i. \<lparr>cp_threshold = py_round 4 (?tau i), cp_coverage = ?y i\<rparr>) [0..steps]"
  have tau: "?tau i \<le> ?tau j" if "i \<le> j" for i j
    using that assms(1) by (intro fl_mono divide_right_mono) simp_all
  have "sorted (map (\<lambda>i. py_round 4 (?tau i)) [0..steps])"
    by (rule sorted_map_upto) (intro py_round_mono tau)
  moreover have "sorted (rev (map ?y [0..steps]))"
  proof (rule sorted_rev_map_upto)
    fix i j :: int assume "i \<le> j"
    then have "?cov j \<le> ?cov i"
      using tau [of i j] by (intro filter_length_antimono) (rule order_trans)
    then show "?y j \<le> ?y i"
      using assms(3) by (intro py_round_mono fl_mono divide_right_mono) simp_all
  qed
  moreover have bounds: "0 \<le> ?y i \<and> ?y i \<le> 1" for i
  proof -
    have "of_nat (?cov i) / of_int n \<le> (1 :: rat)"
    proof -
      have "int (?cov i) \<le> n"
        using assms(2) length_filter_le [of "\<lambda>c. ?tau i \<le> c" confidences] by linarith
      then have "of_int (int (?cov i)) \<le> (of_int n :: rat)"
        by (simp only: of_int_le_iff)
      then show ?thesis
        using assms(3) by (simp add: divide_le_eq)
    qed
    then have "fl (of_nat (?cov i) / of_int n) \<le> 1"
      by (rule fl_le_1)
    moreover have "0 \<le> fl (of_nat (?cov i) / of_int n)"
      using assms(3) by simp
    ultimately show ?thesis
      using py_round_mono [of 0 "fl (of_nat (?cov i) / of_int n)" 4]
        py_round_mono [of "fl (of_nat (?cov i) / of_int n)" 1 4] by simp
  qed
  moreover have "coverage_curve confidences steps (Some n) = Inr ?pts"
    using assms by (simp add: coverage_curve_def Let_def)
  ultimately show ?thesis
    by (intro exI [of _ ?pts]) (simp add: comp_def)
qed

end
