(* ===== verification/AuditChain.thy ===== *)
theory AuditChain
  imports Models PyText
begin

section \<open>The hash-chained audit ledger\<close>

text \<open>
  \<open>engine/audit.py\<close>. An entry is a JSON object; its hash covers the previous hash and the canonical
  JSON text of its body. SHA-256 (\<open>digest\<close>, as hexadecimal text), \<open>json.dumps\<close> with sorted keys
  (\<open>dumps\<close>) and \<open>json.loads\<close> (\<open>loads\<close>) are arguments; what is used of them is said where it is used:
  digests have 64 characters and loading a dumped entry gives the entry back. The file is the list
  of its lines.
\<close>

definition GENESIS :: string where
  "GENESIS = replicate 64 CHR ''0''"

definition entry_hash :: "(string \<Rightarrow> string) \<Rightarrow> (json \<Rightarrow> string) \<Rightarrow> string \<Rightarrow> (string, json) dict \<Rightarrow> string" where
  "entry_hash digest dumps prev body = digest (prev @ ''|'' @ dumps (JObj body))"

record audit_ledger =
  al_entries :: "(string, json) dict list"
  al_head :: string

definition empty_ledger :: audit_ledger where
  "empty_ledger = \<lparr>al_entries = [], al_head = GENESIS\<rparr>"

definition root :: "audit_ledger \<Rightarrow> string" where
  "root l = al_head l"

definition append_entry ::
  "(string \<Rightarrow> string) \<Rightarrow> (json \<Rightarrow> string) \<Rightarrow> string \<Rightarrow> json \<Rightarrow> audit_ledger \<Rightarrow> audit_ledger" where
  "append_entry digest dumps event payload l =
    (let body = [(''seq'', JInt (int (length (al_entries l)))), (''event'', JStr event),
                 (''payload'', payload), (''prev'', JStr (al_head l))];
         h = entry_hash digest dumps (al_head l) body
     in \<lparr>al_entries = al_entries l @ [dset body ''hash'' (JStr h)], al_head = h\<rparr>)"

definition write_ledger :: "(json \<Rightarrow> string) \<Rightarrow> audit_ledger \<Rightarrow> string list" where
  "write_ledger dumps l = map (\<lambda>e. dumps (JObj e) @ [CHR 0x0A]) (al_entries l)"

datatype audit_error = KeyError | TypeError | JSONDecodeError

fun verify_from ::
  "(string \<Rightarrow> string) \<Rightarrow> (json \<Rightarrow> string) \<Rightarrow> (string \<Rightarrow> audit_error + json) \<Rightarrow> string \<Rightarrow> string list
   \<Rightarrow> audit_error + bool" where
  "verify_from digest dumps loads prev [] = Inr True"
| "verify_from digest dumps loads prev (raw # raws) =
    (let line = py_strip raw
     in if line = [] then verify_from digest dumps loads prev raws
        else case loads line of
          Inl e \<Rightarrow> Inl e
        | Inr (JObj entry) \<Rightarrow>
            (case map_of entry ''hash'' of
               None \<Rightarrow> Inl KeyError
             | Some stored \<Rightarrow>
                 let e = AList.delete ''hash'' entry
                 in if map_of e ''prev'' \<noteq> Some (JStr prev) then Inr False
                    else if JStr (entry_hash digest dumps prev e) \<noteq> stored then Inr False
                    else verify_from digest dumps loads (entry_hash digest dumps prev e) raws)
        | Inr _ \<Rightarrow> Inl TypeError)"

definition verify ::
  "(string \<Rightarrow> string) \<Rightarrow> (json \<Rightarrow> string) \<Rightarrow> (string \<Rightarrow> audit_error + json) \<Rightarrow> string list
   \<Rightarrow> audit_error + bool" where
  "verify digest dumps loads lines = verify_from digest dumps loads GENESIS lines"

subsection \<open>A written ledger verifies\<close>

text \<open>The entries of a ledger that was built by appending, from a given head.\<close>

fun chained :: "(string \<Rightarrow> string) \<Rightarrow> (json \<Rightarrow> string) \<Rightarrow> string \<Rightarrow> (string, json) dict list \<Rightarrow> string \<Rightarrow> bool"
where
  "chained digest dumps prev [] hd' \<longleftrightarrow> hd' = prev"
| "chained digest dumps prev (e # es) hd' \<longleftrightarrow> (\<exists>body.
     map_of body ''prev'' = Some (JStr prev) \<and> ''hash'' \<notin> fst ` set body
     \<and> e = body @ [(''hash'', JStr (entry_hash digest dumps prev body))]
     \<and> chained digest dumps (entry_hash digest dumps prev body) es hd')"

lemma chained_snoc:
  "chained digest dumps prev es hd1 \<Longrightarrow> map_of body ''prev'' = Some (JStr hd1) \<Longrightarrow>
     ''hash'' \<notin> fst ` set body \<Longrightarrow>
     chained digest dumps prev (es @ [body @ [(''hash'', JStr (entry_hash digest dumps hd1 body))]])
       (entry_hash digest dumps hd1 body)"
  by (induction es arbitrary: prev) fastforce+

definition ledger_of ::
  "(string \<Rightarrow> string) \<Rightarrow> (json \<Rightarrow> string) \<Rightarrow> (string \<times> json) list \<Rightarrow> audit_ledger" where
  "ledger_of digest dumps events =
    foldl (\<lambda>l (event, payload). append_entry digest dumps event payload l) empty_ledger events"

lemma append_chained:
  assumes "chained digest dumps GENESIS (al_entries l) (al_head l)"
  shows "chained digest dumps GENESIS (al_entries (append_entry digest dumps ev p l))
    (al_head (append_entry digest dumps ev p l))"
proof -
  let ?body = "[(''seq'', JInt (int (length (al_entries l)))), (''event'', JStr ev), (''payload'', p),
    (''prev'', JStr (al_head l))]"
  have "dset ?body ''hash'' x = ?body @ [(''hash'', x)]" for x
    by (simp add: dset_def)
  then show ?thesis
    using chained_snoc [OF assms, of ?body] by (simp add: append_entry_def Let_def)
qed

lemma ledger_chained:
  "chained digest dumps GENESIS (al_entries (ledger_of digest dumps evs)) (al_head (ledger_of digest dumps evs))"
  unfolding ledger_of_def
  by (rule foldl_invariant [where P = "\<lambda>l. chained digest dumps GENESIS (al_entries l) (al_head l)"])
     (auto simp: empty_ledger_def intro: append_chained)

lemma verify_chained:
  assumes "chained digest dumps prev es hd'"
    "\<And>e. e \<in> set es \<Longrightarrow> py_strip (dumps (JObj e) @ [CHR 0x0A]) \<noteq> []
       \<and> loads (py_strip (dumps (JObj e) @ [CHR 0x0A])) = Inr (JObj e)"
  shows "verify_from digest dumps loads prev (map (\<lambda>e. dumps (JObj e) @ [CHR 0x0A]) es) = Inr True"
  using assms
proof (induction es arbitrary: prev)
  case (Cons e es)
  from Cons.prems(1) obtain body where body: "map_of body ''prev'' = Some (JStr prev)"
    "''hash'' \<notin> fst ` set body" "e = body @ [(''hash'', JStr (entry_hash digest dumps prev body))]"
    "chained digest dumps (entry_hash digest dumps prev body) es hd'"
    by auto
  have "AList.delete ''hash'' e = body"
    using body(2) by (force simp: body(3) AList.delete_eq filter_id_conv)
  moreover have "map_of e ''hash'' = Some (JStr (entry_hash digest dumps prev body))"
  proof -
    have "map_of body ''hash'' = None"
      using body(2) by (simp add: map_of_eq_None_iff)
    then show ?thesis
      by (simp add: body(3) map_add_def)
  qed
  ultimately show ?case
    using Cons.IH [OF body(4)] Cons.prems(2) body(1) by simp
qed simp

text \<open>
  A ledger that was built by appending events verifies after it is written, for every digest
  function, provided loading a dumped entry of it gives the entry back.
\<close>

theorem audit_write_verify:
  assumes "\<forall>e \<in> set (al_entries (ledger_of digest dumps events)).
     py_strip (dumps (JObj e) @ [CHR 0x0A]) \<noteq> []
     \<and> loads (py_strip (dumps (JObj e) @ [CHR 0x0A])) = Inr (JObj e)"
  shows "verify digest dumps loads (write_ledger dumps (ledger_of digest dumps events)) = Inr True"
  using verify_chained [OF ledger_chained] assms by (simp add: verify_def write_ledger_def)

definition demo_dumps :: "json \<Rightarrow> string" where
  "demo_dumps v = (case v of
     JObj e \<Rightarrow> if has_key e ''hash'' then ''entry'' else ''body'' | _ \<Rightarrow> ''other'')"

definition demo_digest :: "string \<Rightarrow> string" where
  "demo_digest s = replicate 63 CHR ''0'' @ [if s = GENESIS @ ''|body'' then CHR ''1'' else CHR ''2'']"

definition demo_loads :: "string \<Rightarrow> audit_error + json" where
  "demo_loads s = (if s = ''entry'' then
     Inr (JObj (hd (al_entries (ledger_of demo_digest demo_dumps [(''run'', JNull)]))))
     else Inl JSONDecodeError)"

theorem audit_write_verify_witness:
  "verify demo_digest demo_dumps demo_loads
     (write_ledger demo_dumps (ledger_of demo_digest demo_dumps [(''run'', JNull)])) = Inr True"
proof -
  obtain e where e: "al_entries (ledger_of demo_digest demo_dumps [(''run'', JNull)]) = [e]"
    "has_key e ''hash''"
    by (simp add: ledger_of_def append_entry_def empty_ledger_def Let_def has_key_def)
  have strip: "py_strip (''entry'' @ [CHR 0x0A]) = ''entry''"
    by code_simp
  show ?thesis
    by (rule audit_write_verify) (use strip in \<open>simp add: e demo_dumps_def demo_loads_def\<close>)
qed

subsection \<open>Tampering\<close>

text \<open>The body texts a file hashes, and the hash its last entry stores.\<close>

definition parsed :: "(string \<Rightarrow> audit_error + json) \<Rightarrow> string list \<Rightarrow> (string, json) dict list" where
  "parsed loads lines =
    List.map_filter (\<lambda>raw. case loads (py_strip raw) of Inr (JObj e) \<Rightarrow> Some e | _ \<Rightarrow> None)
      (filter (\<lambda>raw. py_strip raw \<noteq> []) lines)"

definition body_texts :: "(json \<Rightarrow> string) \<Rightarrow> (string \<Rightarrow> audit_error + json) \<Rightarrow> string list \<Rightarrow> string list" where
  "body_texts dumps loads lines =
    map (\<lambda>e. dumps (JObj (AList.delete ''hash'' e))) (parsed loads lines)"

definition stored_head :: "(string \<Rightarrow> audit_error + json) \<Rightarrow> string list \<Rightarrow> json option" where
  "stored_head loads lines =
    foldl (\<lambda>_ e. map_of e ''hash'') (Some (JStr GENESIS)) (parsed loads lines)"

fun hashed :: "(string \<Rightarrow> string) \<Rightarrow> string \<Rightarrow> string list \<Rightarrow> string list" where
  "hashed digest prev [] = []"
| "hashed digest prev (t # ts) = (prev @ ''|'' @ t) # hashed digest (digest (prev @ ''|'' @ t)) ts"

definition head_of :: "(string \<Rightarrow> string) \<Rightarrow> string \<Rightarrow> string list \<Rightarrow> string" where
  "head_of digest prev ts = foldl (\<lambda>p t. digest (p @ ''|'' @ t)) prev ts"

lemma verify_stored_head:
  "verify_from digest dumps loads prev lines = Inr True \<Longrightarrow>
   foldl (\<lambda>_ e. map_of e ''hash'') (Some (JStr prev)) (parsed loads lines)
     = Some (JStr (head_of digest prev (body_texts dumps loads lines)))"
proof (induction lines arbitrary: prev)
  case (Cons raw raws)
  show ?case
  proof (cases "py_strip raw = []")
    case True
    then show ?thesis
      using Cons by (simp add: parsed_def body_texts_def)
  next
    case False
    obtain entry where entry: "loads (py_strip raw) = Inr (JObj entry)"
      using Cons.prems False by (auto simp: Let_def split: sum.split_asm json.split_asm)
    let ?e = "AList.delete ''hash'' entry"
    have stored: "map_of entry ''hash'' = Some (JStr (entry_hash digest dumps prev ?e))"
      and rest: "verify_from digest dumps loads (entry_hash digest dumps prev ?e) raws = Inr True"
      using Cons.prems False entry by (auto simp: Let_def split: option.split_asm if_split_asm)
    have "parsed loads (raw # raws) = entry # parsed loads raws"
      using False entry by (simp add: parsed_def map_filter_simps)
    then show ?thesis
      using Cons.IH [OF rest] stored by (simp add: body_texts_def head_of_def entry_hash_def)
  qed
qed (simp add: parsed_def body_texts_def head_of_def map_filter_simps)

lemma head_of_snoc: "head_of digest p (ts @ [t]) = digest (head_of digest p ts @ ''|'' @ t)"
  by (simp add: head_of_def)

lemma hashed_snoc: "hashed digest p (ts @ [t]) = hashed digest p ts @ [head_of digest p ts @ ''|'' @ t]"
  by (induction ts arbitrary: p) (simp_all add: head_of_def)

lemma length_hashed [simp]: "length (hashed digest p ts) = length ts"
  by (induction ts arbitrary: p) simp_all

lemma head_of_length:
  "(\<And>x. length (digest x) = 64) \<Longrightarrow> length p = 64 \<Longrightarrow> length (head_of digest p ts) = 64"
  by (induction ts rule: rev_induct) (simp_all add: head_of_snoc, simp add: head_of_def)

lemma same_head:
  assumes digest: "\<And>x. length (digest x) = 64" and p: "length p = 64"
  shows "length ts = length ts' \<Longrightarrow> head_of digest p ts = head_of digest p ts' \<Longrightarrow>
    ts = ts' \<or> (\<exists>(x, y) \<in> set (zip (hashed digest p ts) (hashed digest p ts')).
      x \<noteq> y \<and> digest x = digest y)"
proof (induction ts arbitrary: ts' rule: rev_induct)
  case (snoc t ts)
  then obtain us u where ts': "ts' = us @ [u]" and len: "length ts = length us"
    by (metis length_append_singleton length_0_conv nat.distinct(1) rev_exhaust diff_Suc_1
        list.size(3) Zero_not_Suc add_left_cancel)
  let ?x = "head_of digest p ts @ ''|'' @ t" and ?y = "head_of digest p us @ ''|'' @ u"
  have same: "digest ?x = digest ?y"
    using snoc.prems(2) by (simp add: ts' head_of_snoc)
  have pairs: "set (zip (hashed digest p (ts @ [t])) (hashed digest p ts'))
      = set (zip (hashed digest p ts) (hashed digest p us)) \<union> {(?x, ?y)}"
    using len by (simp add: ts' hashed_snoc)
  show ?case
  proof (cases "?x = ?y")
    case False
    then show ?thesis
      using same unfolding pairs by blast
  next
    case True
    then have "head_of digest p ts = head_of digest p us" "t = u"
      using head_of_length [OF digest p] by (auto simp: append_eq_append_conv)
    then show ?thesis
      using snoc.IH [OF len] unfolding pairs by (auto simp: ts')
  qed
qed simp

text \<open>
  C9. Tamper evidence. Two files that both verify, have as many entries and end in the same stored
  hash hash the same body texts in the same order, unless two texts that were actually hashed for
  entries of the same position are a collision of the digest.
\<close>

theorem audit_tamper_evident:
  assumes "\<forall>x. length (digest x) = 64"
    "verify digest dumps loads f = Inr True" "verify digest dumps loads f' = Inr True"
    "length (parsed loads f) = length (parsed loads f')" "stored_head loads f = stored_head loads f'"
  shows "body_texts dumps loads f = body_texts dumps loads f'
    \<or> (\<exists>(x, y) \<in> set (zip (hashed digest GENESIS (body_texts dumps loads f))
                          (hashed digest GENESIS (body_texts dumps loads f'))).
         x \<noteq> y \<and> digest x = digest y)"
proof (rule same_head)
  show "head_of digest GENESIS (body_texts dumps loads f)
      = head_of digest GENESIS (body_texts dumps loads f')"
    using verify_stored_head [OF assms(2) [unfolded verify_def]]
      verify_stored_head [OF assms(3) [unfolded verify_def]] assms(5)
    by (simp add: stored_head_def)
qed (use assms(1,4) in \<open>simp_all add: GENESIS_def body_texts_def\<close>)

theorem audit_tamper_evident_witness:
  "body_texts demo_dumps demo_loads [''entry''] = body_texts demo_dumps demo_loads ['' entry'']
    \<or> (\<exists>(x, y) \<in> set (zip (hashed demo_digest GENESIS (body_texts demo_dumps demo_loads [''entry'']))
                          (hashed demo_digest GENESIS (body_texts demo_dumps demo_loads ['' entry'']))).
         x \<noteq> y \<and> demo_digest x = demo_digest y)"
proof -
  have "verify demo_digest demo_dumps demo_loads [''entry''] = Inr True"
    "verify demo_digest demo_dumps demo_loads ['' entry''] = Inr True"
    "length (parsed demo_loads [''entry'']) = length (parsed demo_loads ['' entry''])"
    "stored_head demo_loads [''entry''] = stored_head demo_loads ['' entry'']"
    by code_simp+
  moreover have "\<forall>x. length (demo_digest x) = 64"
    by (simp add: demo_digest_def)
  ultimately show ?thesis
    by (intro audit_tamper_evident) simp_all
qed

end
