(* ===== verification/Tenant.thy ===== *)
theory Tenant
  imports Prelude
begin

section \<open>Roles, tenant contexts and the capability matrix\<close>

text \<open>
  \<open>persistence/context.py\<close> and \<open>auth/permissions.py\<close>: the five roles, the immutable tenant context
  with its run permissions, and the capability matrix. Both modules keep their permissions as
  tables from names to role sets; the tables are dictionaries here and the checks look them up the
  way the code does, unknown names included. A \<open>StrEnum\<close> member is also a \<open>str\<close>, so the permission
  checks always convert their role from its text.
\<close>

datatype role = OWNER | ADMIN | OPERATOR | REVIEWER | AUDITOR

definition all_roles :: "role list" where
  "all_roles = [OWNER, ADMIN, OPERATOR, REVIEWER, AUDITOR]"

primrec role_value :: "role \<Rightarrow> string" where
  "role_value OWNER = ''owner''"
| "role_value ADMIN = ''admin''"
| "role_value OPERATOR = ''operator''"
| "role_value REVIEWER = ''reviewer''"
| "role_value AUDITOR = ''auditor''"

text \<open>\<open>Role(text)\<close>: the member with that value, \<open>None\<close> for the \<open>ValueError\<close>.\<close>

definition role_of :: "string \<Rightarrow> role option" where
  "role_of s = find (\<lambda>r. role_value r = s) all_roles"

definition RUN_PERMISSIONS :: "(string, role list) dict" where
  "RUN_PERMISSIONS =
    [(''create'', [OWNER, ADMIN, OPERATOR]), (''complete'', [OWNER, ADMIN, OPERATOR]),
     (''fail'', [OWNER, ADMIN, OPERATOR]), (''cancel'', [OWNER, ADMIN, OPERATOR]),
     (''delete'', [OWNER, ADMIN]), (''legal_hold'', [OWNER, ADMIN])]"

datatype context_error = TenantContextError | PermissionError

record tenant_context =
  c_organisation_id :: int
  c_principal_id :: int
  c_role :: role
  c_request_id :: string

text \<open>The constructor with the range checks of \<open>__post_init__\<close>; the type checks hold by typing.\<close>

definition mk_tenant_context ::
  "int \<Rightarrow> int \<Rightarrow> role \<Rightarrow> string \<Rightarrow> context_error + tenant_context" where
  "mk_tenant_context org pid r req =
    (if org \<le> 0 then Inl TenantContextError
     else if pid \<le> 0 then Inl TenantContextError
     else Inr \<lparr>c_organisation_id = org, c_principal_id = pid, c_role = r,
               c_request_id = req\<rparr>)"

definition has_role :: "tenant_context \<Rightarrow> role list \<Rightarrow> bool" where
  "has_role c allowed \<longleftrightarrow> c_role c \<in> set allowed"

definition can_mutate_run :: "tenant_context \<Rightarrow> string \<Rightarrow> context_error + bool" where
  "can_mutate_run c act =
    (case map_of RUN_PERMISSIONS act of
       None \<Rightarrow> Inl TenantContextError
     | Some allowed \<Rightarrow> Inr (c_role c \<in> set allowed))"

definition require_run_mutation :: "tenant_context \<Rightarrow> string \<Rightarrow> context_error + unit" where
  "require_run_mutation c act =
    (case can_mutate_run c act of
       Inl e \<Rightarrow> Inl e
     | Inr ok \<Rightarrow> if ok then Inr () else Inl PermissionError)"

datatype action =
    ORG_UPDATE | ORG_DELETE
  | MEMBERSHIP_LIST | MEMBERSHIP_MUTATE | INVITATION_CREATE | INVITATION_REVOKE | INVITATION_LIST
  | RUN_CREATE | RUN_ABORT | RUN_DELETE | RUN_VIEW
  | INVESTIGATION_RESOLVE | CERTIFICATE_ISSUE | AUDIT_VIEW

definition CAPABILITY_POLICY_ID :: string where
  "CAPABILITY_POLICY_ID = ''untangle.authorization.capability-matrix''"

definition CAPABILITY_POLICY_VERSION :: string where
  "CAPABILITY_POLICY_VERSION = ''1.0.0''"

definition CAPABILITY_POLICY_SOURCE :: string where
  "CAPABILITY_POLICY_SOURCE = ''auth/permissions.py''"

definition permission_policy_metadata :: "(string, string) dict" where
  "permission_policy_metadata =
    [(''permission_policy_id'', CAPABILITY_POLICY_ID),
     (''permission_policy_version'', CAPABILITY_POLICY_VERSION),
     (''permission_policy_source'', CAPABILITY_POLICY_SOURCE)]"

definition CAPABILITY_MATRIX :: "(action, role list) dict" where
  "CAPABILITY_MATRIX =
    [(ORG_UPDATE, [OWNER]), (ORG_DELETE, [OWNER]),
     (MEMBERSHIP_LIST, [OWNER, ADMIN]), (MEMBERSHIP_MUTATE, [OWNER, ADMIN]),
     (INVITATION_CREATE, [OWNER, ADMIN]), (INVITATION_REVOKE, [OWNER, ADMIN]),
     (INVITATION_LIST, [OWNER, ADMIN]),
     (RUN_CREATE, [OWNER, ADMIN, OPERATOR]), (RUN_ABORT, [OWNER, ADMIN, OPERATOR]),
     (RUN_DELETE, [OWNER, ADMIN]),
     (RUN_VIEW, [OWNER, ADMIN, OPERATOR, REVIEWER, AUDITOR]),
     (INVESTIGATION_RESOLVE, [OWNER, ADMIN, OPERATOR, REVIEWER]),
     (CERTIFICATE_ISSUE, [OWNER, ADMIN, REVIEWER]),
     (AUDIT_VIEW, [OWNER, ADMIN, OPERATOR, REVIEWER, AUDITOR])]"

definition check_permission :: "string \<Rightarrow> action \<Rightarrow> bool" where
  "check_permission role act =
    (case role_of role of
       None \<Rightarrow> False
     | Some r \<Rightarrow> r \<in> set (dget CAPABILITY_MATRIX act []))"

definition require_permission ::
  "string option \<Rightarrow> action \<Rightarrow> (action \<times> string option) + unit" where
  "require_permission role act =
    (case role of
       None \<Rightarrow> Inl (act, role)
     | Some s \<Rightarrow> if check_permission s act then Inr () else Inl (act, role))"

definition can_manage_target_role :: "string \<Rightarrow> string \<Rightarrow> bool" where
  "can_manage_target_role actor target =
    (case role_of actor of
       None \<Rightarrow> False
     | Some a \<Rightarrow> (case role_of target of
         None \<Rightarrow> False
       | Some t \<Rightarrow>
           if a = OWNER then True
           else if a = ADMIN then t \<noteq> OWNER
           else False))"

subsection \<open>Facts\<close>

lemma role_of_value [simp]: "role_of (role_value r) = Some r"
  by (cases r) (simp_all add: role_of_def all_roles_def)

lemma role_of_Some_iff: "role_of s = Some r \<longleftrightarrow> s = role_value r"
proof
  assume "role_of s = Some r"
  then show "s = role_value r"
    by (auto simp: role_of_def find_Some_iff)
qed simp

lemma role_value_inject [simp]: "role_value r = role_value r' \<longleftrightarrow> r = r'"
  by (metis option.inject role_of_value)

lemma check_permission_iff:
  "check_permission s act \<longleftrightarrow> s \<in> role_value ` set (dget CAPABILITY_MATRIX act [])"
  by (cases "role_of s") (auto simp: check_permission_def role_of_Some_iff)

lemma require_run_mutation_Inr [simp]:
  "require_run_mutation c act = Inr u \<longleftrightarrow>
     (\<exists>allowed. map_of RUN_PERMISSIONS act = Some allowed \<and> c_role c \<in> set allowed)"
  by (auto simp: require_run_mutation_def can_mutate_run_def split: option.splits)

text \<open>
  Separation of duties. Whatever text is given as a role: whoever may issue certificates may
  start or abort runs only as an owner or an admin, organisation changes are for owners, an auditor
  has exactly the two viewing capabilities, every capability that changes memberships comes with
  the right to manage every role but the owner's, and a role manager below the owner never manages
  an owner. The two permission tables of the code agree on who may create, cancel and delete runs.
\<close>

theorem permissions_separate_duties:
  "(check_permission s CERTIFICATE_ISSUE \<and> check_permission s RUN_CREATE
      \<longleftrightarrow> s \<in> {''owner'', ''admin''})
   \<and> (check_permission s ORG_UPDATE \<longleftrightarrow> s = ''owner'')
   \<and> (check_permission s ORG_DELETE \<longleftrightarrow> s = ''owner'')
   \<and> {act. check_permission ''auditor'' act} = {RUN_VIEW, AUDIT_VIEW}
   \<and> (check_permission s MEMBERSHIP_MUTATE \<longleftrightarrow> can_manage_target_role s ''auditor'')
   \<and> (can_manage_target_role s ''owner'' \<longleftrightarrow> s = ''owner'')
   \<and> (can_mutate_run c ''create'' = Inr (check_permission (role_value (c_role c)) RUN_CREATE))
   \<and> (can_mutate_run c ''cancel'' = Inr (check_permission (role_value (c_role c)) RUN_ABORT))
   \<and> (can_mutate_run c ''delete'' = Inr (check_permission (role_value (c_role c)) RUN_DELETE))"
proof -
  have aud: "check_permission ''auditor'' act \<longleftrightarrow> act \<in> {RUN_VIEW, AUDIT_VIEW}" for act
    by (cases act) (simp_all add: check_permission_def role_of_def all_roles_def dget_def
        CAPABILITY_MATRIX_def)
  have cert: "check_permission s CERTIFICATE_ISSUE \<and> check_permission s RUN_CREATE
      \<longleftrightarrow> s \<in> {''owner'', ''admin''}"
    by (auto simp: check_permission_iff dget_def CAPABILITY_MATRIX_def)
  have org: "(check_permission s ORG_UPDATE \<longleftrightarrow> s = ''owner'')
      \<and> (check_permission s ORG_DELETE \<longleftrightarrow> s = ''owner'')"
    by (auto simp: check_permission_iff dget_def CAPABILITY_MATRIX_def)
  have auditor: "role_of ''auditor'' = Some AUDITOR" and owner: "role_of ''owner'' = Some OWNER"
    by (simp_all add: role_of_Some_iff)
  have actor: "can_manage_target_role s t \<longleftrightarrow>
      (s = ''owner'' \<or> s = ''admin'' \<and> role_of t \<noteq> Some OWNER) \<and> role_of t \<noteq> None" for t
  proof (cases "role_of s")
    case None
    then have "s \<noteq> ''owner''" "s \<noteq> ''admin''"
      by (auto simp: role_of_def all_roles_def)
    then show ?thesis
      by (simp add: can_manage_target_role_def None)
  next
    case (Some r)
    then have s: "s = role_value r"
      by (simp add: role_of_Some_iff)
    show ?thesis
      unfolding can_manage_target_role_def Some unfolding s
      by (cases r; cases "role_of t") simp_all
  qed
  have manage: "(check_permission s MEMBERSHIP_MUTATE \<longleftrightarrow> can_manage_target_role s ''auditor'')
      \<and> (can_manage_target_role s ''owner'' \<longleftrightarrow> s = ''owner'')"
    by (auto simp: actor check_permission_iff auditor owner dget_def CAPABILITY_MATRIX_def)
  show ?thesis
    using aud cert org manage
    by (cases "c_role c") (auto simp: can_mutate_run_def RUN_PERMISSIONS_def check_permission_iff
        dget_def CAPABILITY_MATRIX_def)
qed

end
