(* ===== verification/Store.thy ===== *)
theory Store
  imports Tenant
begin

section \<open>The tenant database: rows, constraints, transactions\<close>

text \<open>
  The tables of \<open>persistence/models.py\<close> that the run and job repositories read and write, with
  their CHECK constraints, and the statements the repositories use on them: a guarded UPDATE, the
  insertion with retry on public id collisions of \<open>persistence/uow.py\<close>, the tenant-scoped select of
  \<open>repositories/base.py\<close> and the audit events of \<open>repositories/audit.py\<close>. A timestamp column is an
  instant in microseconds, a table the list of its rows; columns that no modelled operation reads
  or writes are left out, as are column widths. An operation is one transaction: it returns an
  exception (\<open>Inl\<close>, after which the session rolls back and the database is the one before) or its
  result with the new database. Clocks, generated public ids and attempt tokens are arguments.
\<close>

datatype db_error =
    IntegrityError | PublicIdCollisionError | RuntimeError | ValueError | IndexError
  | RecordNotFoundError | InvalidRunStateError | RunUnderLegalHoldError
  | JobFencingError | IdempotencyCollisionError
  | Denied context_error | UndefinedColumn string

datatype run_status = RInitiated | RRunning | RCompleted | RFailed | RAborted

record run_row =
  r_id :: int
  r_public_id :: string
  r_organisation_id :: int
  r_created_by_principal_id :: int
  r_status :: run_status
  r_reconciliation_hash :: "string option"
  r_bank_statement_hash :: "string option"
  r_recon_report_hash :: "string option"
  r_order_ledger_hash :: "string option"
  r_evidence_pack_id :: "string option"
  r_evidence_pack_version :: "string option"
  r_config_json :: string
  r_error_code :: "string option"
  r_error_summary :: "string option"
  r_started_at :: int
  r_completed_at :: "int option"
  r_failed_at :: "int option"
  r_is_deleted :: bool
  r_deleted_at :: "int option"
  r_reporting_period_start :: "int option"
  r_reporting_period_end :: "int option"
  r_legal_hold :: bool
  r_created_at :: int
  r_updated_at :: int

definition hex_hash_check :: "nat \<Rightarrow> string option \<Rightarrow> bool" where
  "hex_hash_check n h = (case h of None \<Rightarrow> True
     | Some s \<Rightarrow> length s = n \<and> list_all (\<lambda>c. c \<in> set ''0123456789abcdef'') s)"

text \<open>SQL's \<open>x >= y\<close> on a nullable left side, as a CHECK of a row with both sides set.\<close>

definition not_before :: "int option \<Rightarrow> int \<Rightarrow> bool" where
  "not_before x y = (case x of None \<Rightarrow> False | Some t \<Rightarrow> y \<le> t)"

definition run_checks :: "run_row \<Rightarrow> bool" where
  "run_checks r \<longleftrightarrow>
     (case r_status r of
        RInitiated \<Rightarrow> r_completed_at r = None \<and> r_failed_at r = None \<and> r_error_code r = None
      | RRunning \<Rightarrow> r_completed_at r = None \<and> r_failed_at r = None \<and> r_error_code r = None
      | RCompleted \<Rightarrow> not_before (r_completed_at r) (r_started_at r) \<and> r_failed_at r = None
                     \<and> r_error_code r = None
      | RFailed \<Rightarrow> not_before (r_failed_at r) (r_started_at r) \<and> r_completed_at r = None
                  \<and> r_error_code r \<noteq> None
      | RAborted \<Rightarrow> not_before (r_failed_at r) (r_started_at r) \<and> r_completed_at r = None)
     \<and> (r_is_deleted r \<longleftrightarrow> r_deleted_at r \<noteq> None)
     \<and> hex_hash_check 64 (r_reconciliation_hash r)
     \<and> (case (r_reporting_period_start r, r_reporting_period_end r) of
          (None, None) \<Rightarrow> True | (Some a, Some b) \<Rightarrow> a \<le> b | _ \<Rightarrow> False)"

datatype job_status = JQueued | JRunning | JCompleted | JFailed | JCancelled

record job_row =
  j_id :: int
  j_public_id :: string
  j_organisation_id :: int
  j_run_id :: int
  j_created_by_principal_id :: int
  j_status :: job_status
  j_stage :: string
  j_worker_id :: "string option"
  j_attempt_token :: "string option"
  j_lease_generation :: int
  j_attempt_count :: int
  j_max_attempts :: int
  j_lease_expires_at :: "int option"
  j_last_heartbeat_at :: "int option"
  j_scheduled_at :: int
  j_started_at :: "int option"
  j_completed_at :: "int option"
  j_failed_at :: "int option"
  j_error_code :: "string option"
  j_error_summary :: "string option"
  j_is_cancelled :: bool
  j_cancelled_at :: "int option"
  j_cancelled_by_principal_id :: "int option"
  j_created_at :: int
  j_updated_at :: int

definition job_stages :: "string list" where
  "job_stages = [''queued'', ''ingesting'', ''attributing'', ''reconciling'', ''investigating'',
                 ''persisting'', ''completed'']"

definition started_before :: "int option \<Rightarrow> int option \<Rightarrow> bool" where
  "started_before s x = (case s of None \<Rightarrow> False | Some t \<Rightarrow> not_before x t)"

definition job_checks :: "job_row \<Rightarrow> bool" where
  "job_checks j \<longleftrightarrow>
     j_stage j \<in> set job_stages
     \<and> (case j_status j of
          JQueued \<Rightarrow> j_started_at j = None \<and> j_completed_at j = None \<and> j_failed_at j = None
                    \<and> j_attempt_token j = None
        | JRunning \<Rightarrow> j_started_at j \<noteq> None \<and> j_completed_at j = None \<and> j_failed_at j = None
                     \<and> j_attempt_token j \<noteq> None \<and> j_lease_expires_at j \<noteq> None
        | JCompleted \<Rightarrow> started_before (j_started_at j) (j_completed_at j)
                       \<and> j_failed_at j = None \<and> j_error_code j = None
        | JFailed \<Rightarrow> started_before (j_started_at j) (j_failed_at j)
                    \<and> j_completed_at j = None \<and> j_error_code j \<noteq> None
        | JCancelled \<Rightarrow> j_cancelled_at j \<noteq> None \<and> j_completed_at j = None)
     \<and> 0 \<le> j_attempt_count j \<and> j_attempt_count j \<le> j_max_attempts j
     \<and> 0 \<le> j_lease_generation j"

record membership_row =
  m_organisation_id :: int
  m_principal_id :: int
  m_role_code :: string
  m_status :: string

text \<open>The columns of \<open>organisation_memberships\<close>, as created and extended by the migrations.\<close>

definition membership_columns :: "string list" where
  "membership_columns = [''id'', ''public_id'', ''organisation_id'', ''principal_id'', ''role_code'',
     ''status'', ''created_at'', ''updated_at'', ''auth_version'']"

datatype event_metadata = NoMetadata | DeletedAt int | LegalHold bool

record audit_row =
  e_public_id :: string
  e_organisation_id :: int
  e_actor_principal_id :: int
  e_event_type :: string
  e_subject_type :: string
  e_subject_public_id :: string
  e_request_id :: "string option"
  e_metadata :: event_metadata

definition audit_checks :: "audit_row \<Rightarrow> bool" where
  "audit_checks e \<longleftrightarrow>
     e_event_type e \<in> {''run.initiated'', ''run.completed'', ''run.failed'', ''certificate.issued'',
       ''membership.assigned'', ''organisation.deactivated'', ''organisation.created'',
       ''organisation.switched'', ''invitation.created'', ''invitation.accepted'',
       ''invitation.revoked'', ''membership.role_changed'', ''membership.suspended'',
       ''membership.reactivated'', ''run.deleted'', ''run.purged'', ''run.legal_hold_placed'',
       ''run.legal_hold_released''}
     \<and> e_subject_type e \<in> {''reconciliation_run'', ''certificate'', ''organisation_membership'',
       ''organisation'', ''organisation_invitation''}"

record idempotency_row =
  i_organisation_id :: int
  i_idempotency_key :: string
  i_request_hash :: string
  i_job_id :: int
  i_run_id :: int
  i_response_status_code :: int
  i_response_json :: string
  i_created_at :: int
  i_expires_at :: int

record db =
  runs :: "run_row list"
  jobs :: "job_row list"
  memberships :: "membership_row list"
  audit_events :: "audit_row list"
  idempotency_records :: "idempotency_row list"

subsection \<open>Exceptions and statements\<close>

definition attempt :: "'e + 'a \<Rightarrow> ('a \<Rightarrow> 'e + 'b) \<Rightarrow> 'e + 'b" where
  "attempt x f = (case x of Inl e \<Rightarrow> Inl e | Inr a \<Rightarrow> f a)"

definition require :: "tenant_context \<Rightarrow> string \<Rightarrow> db_error + unit" where
  "require c act = (case require_run_mutation c act of Inl e \<Rightarrow> Inl (Denied e) | Inr u \<Rightarrow> Inr u)"

text \<open>\<open>UPDATE .. SET f WHERE P\<close>: a row that would break a CHECK constraint fails the statement.\<close>

definition update_where ::
  "('r \<Rightarrow> bool) \<Rightarrow> ('r \<Rightarrow> bool) \<Rightarrow> ('r \<Rightarrow> 'r) \<Rightarrow> 'r list \<Rightarrow> db_error + 'r list" where
  "update_where chk P f rows =
    (if list_all (\<lambda>r. P r \<longrightarrow> chk (f r)) rows
     then Inr (map (\<lambda>r. if P r then f r else r) rows)
     else Inl IntegrityError)"

definition rowcount :: "('r \<Rightarrow> bool) \<Rightarrow> 'r list \<Rightarrow> nat" where
  "rowcount P rows = length (filter P rows)"

definition fresh_id :: "int list \<Rightarrow> int" where
  "fresh_id ids = 1 + foldr max ids 0"

text \<open>
  The insertion loop: CHECK constraints fail at once, a public id that is in use is retried with
  the next generated one, a missing foreign key fails at once.
\<close>

fun insert_attempts ::
  "('r \<Rightarrow> bool) \<Rightarrow> (string \<Rightarrow> bool) \<Rightarrow> ('r \<Rightarrow> bool) \<Rightarrow> (string \<Rightarrow> 'r) \<Rightarrow> string list \<Rightarrow> db_error + 'r"
where
  "insert_attempts chk taken fk mk [] = Inl RuntimeError"
| "insert_attempts chk taken fk mk (pid # pids) =
    (if \<not> chk (mk pid) then Inl IntegrityError
     else if taken pid then
       (if pids = [] then Inl PublicIdCollisionError else insert_attempts chk taken fk mk pids)
     else if \<not> fk (mk pid) then Inl IntegrityError
     else Inr (mk pid))"

definition insert_with_public_id_retry ::
  "('r \<Rightarrow> bool) \<Rightarrow> (string \<Rightarrow> bool) \<Rightarrow> ('r \<Rightarrow> bool) \<Rightarrow> (string \<Rightarrow> 'r) \<Rightarrow> (nat \<Rightarrow> string) \<Rightarrow> db_error + 'r"
where
  "insert_with_public_id_retry chk taken fk mk gen =
    insert_attempts chk taken fk mk (map gen [0..<3])"

definition scoped_runs :: "tenant_context \<Rightarrow> db \<Rightarrow> run_row list" where
  "scoped_runs c d =
    filter (\<lambda>r. r_organisation_id r = c_organisation_id c \<and> \<not> r_is_deleted r) (runs d)"

definition scoped_jobs :: "tenant_context \<Rightarrow> db \<Rightarrow> job_row list" where
  "scoped_jobs c d = filter (\<lambda>j. j_organisation_id j = c_organisation_id c) (jobs d)"

definition audit_action :: "(string, string) dict" where
  "audit_action = [(''run.initiated'', ''create''), (''run.completed'', ''complete''),
     (''run.failed'', ''fail''), (''certificate.issued'', ''complete''),
     (''organisation.deactivated'', ''delete''), (''membership.assigned'', ''delete''),
     (''run.deleted'', ''delete''), (''run.purged'', ''delete''),
     (''run.legal_hold_placed'', ''legal_hold''), (''run.legal_hold_released'', ''legal_hold''),
     (''job.cancelled'', ''cancel'')]"

definition append_audit_event ::
  "(nat \<Rightarrow> string) \<Rightarrow> tenant_context \<Rightarrow> string \<Rightarrow> string \<Rightarrow> string \<Rightarrow> event_metadata \<Rightarrow> string option
   \<Rightarrow> db \<Rightarrow> db_error + db" where
  "append_audit_event gen c event_type subject_type subject meta request_id d =
    (case map_of audit_action event_type of
       None \<Rightarrow> Inl ValueError
     | Some act \<Rightarrow>
         attempt (require c act) (\<lambda>_.
           let req = (case request_id of None \<Rightarrow> c_request_id c | Some q \<Rightarrow> q)
           in attempt (insert_with_public_id_retry audit_checks
                (\<lambda>pid. pid \<in> set (map e_public_id (audit_events d))) (\<lambda>_. True)
                (\<lambda>pid. \<lparr>e_public_id = pid, e_organisation_id = c_organisation_id c,
                   e_actor_principal_id = c_principal_id c, e_event_type = event_type,
                   e_subject_type = subject_type, e_subject_public_id = subject,
                   e_request_id = (if req = '''' then None else Some req), e_metadata = meta\<rparr>) gen)
             (\<lambda>e. Inr (d\<lparr>audit_events := audit_events d @ [e]\<rparr>))))"

subsection \<open>Traces of a labelled step relation\<close>

inductive trace :: "('s \<Rightarrow> 'e \<Rightarrow> 's \<Rightarrow> bool) \<Rightarrow> 's \<Rightarrow> 'e list \<Rightarrow> 's \<Rightarrow> bool" for step where
  trace_Nil: "trace step s [] s"
| trace_Cons: "step s e s1 \<Longrightarrow> trace step s1 es s2 \<Longrightarrow> trace step s (e # es) s2"

inductive_simps trace_Nil_iff [simp]: "trace step s [] s2"
inductive_simps trace_Cons_iff: "trace step s (e # es) s2"

lemma trace_invariant:
  assumes "trace step s es s'" "I s" "\<And>s e s'. step s e s' \<Longrightarrow> I s \<Longrightarrow> I s'"
  shows "I s'"
  using assms(1,2) by induction (use assms(3) in blast)+

lemma trace_append: "trace step s es s1 \<Longrightarrow> trace step s1 es' s2 \<Longrightarrow> trace step s (es @ es') s2"
  by (induction rule: trace.induct) (auto intro: trace_Cons)

subsection \<open>Facts about statements\<close>

named_theorems store_simps "unfolding of statements that returned"

lemma attempt_Inr [store_simps]: "attempt x f = Inr b \<longleftrightarrow> (\<exists>a. x = Inr a \<and> f a = Inr b)"
  by (cases x) (simp_all add: attempt_def)

lemma attemptE:
  assumes "attempt x f = Inr b"
  obtains a where "x = Inr a" "f a = Inr b"
  using assms by (auto simp: attempt_Inr)

lemma attempt_simps [simp]: "attempt (Inl e) f = Inl e" "attempt (Inr a) f = f a"
  by (simp_all add: attempt_def)

lemma require_Inr [store_simps]:
  "require c act = Inr u \<longleftrightarrow>
     (\<exists>allowed. map_of RUN_PERMISSIONS act = Some allowed \<and> c_role c \<in> set allowed)"
  by (auto simp: require_def require_run_mutation_def can_mutate_run_def split: option.splits)

lemma update_where_Inr [store_simps]:
  "update_where chk P f rows = Inr rows' \<longleftrightarrow>
     (\<forall>r \<in> set rows. P r \<longrightarrow> chk (f r)) \<and> rows' = map (\<lambda>r. if P r then f r else r) rows"
  by (auto simp: update_where_def list_all_iff)

lemma rowcount_0 [simp]: "rowcount P rows = 0 \<longleftrightarrow> (\<forall>r \<in> set rows. \<not> P r)"
  by (auto simp: rowcount_def filter_empty_conv)

lemma fresh_id_greater: "i \<in> set ids \<Longrightarrow> i < fresh_id ids"
proof -
  have "i \<in> set ids \<Longrightarrow> i \<le> foldr max ids 0"
    by (induction ids) auto
  then show "i \<in> set ids \<Longrightarrow> i < fresh_id ids"
    by (simp add: fresh_id_def)
qed

lemma fresh_id_notin [simp]: "fresh_id ids \<notin> set ids"
  using fresh_id_greater by blast

lemma insert_attempts_InrD:
  "insert_attempts chk taken fk mk pids = Inr r \<Longrightarrow>
     \<exists>pid \<in> set pids. r = mk pid \<and> chk r \<and> \<not> taken pid \<and> fk r"
  by (induction chk taken fk mk pids rule: insert_attempts.induct) (auto split: if_splits)

lemma insert_with_public_id_retry_InrD:
  "insert_with_public_id_retry chk taken fk mk gen = Inr r \<Longrightarrow>
     \<exists>pid. r = mk pid \<and> chk r \<and> \<not> taken pid \<and> fk r"
  unfolding insert_with_public_id_retry_def by (blast dest: insert_attempts_InrD)

lemma append_audit_event_InrD:
  "append_audit_event gen c ty sty subj meta req d = Inr d' \<Longrightarrow>
     \<exists>e. d' = d\<lparr>audit_events := audit_events d @ [e]\<rparr> \<and> e_organisation_id e = c_organisation_id c"
  by (auto simp: append_audit_event_def store_simps Let_def split: option.splits
      dest!: insert_with_public_id_retry_InrD)

lemma map_if_id: "(\<And>r. r \<in> set rows \<Longrightarrow> \<not> P r) \<Longrightarrow> map (\<lambda>r. if P r then f r else r) rows = rows"
  by (induction rows) auto

end
