(* ===== verification/Runs.thy ===== *)
theory Runs
  imports Store
begin

section \<open>Run lifecycle and cursor pagination\<close>

text \<open>
  \<open>persistence/repositories/run.py\<close>: creation, completion, failure, soft deletion and legal holds of
  reconciliation runs, each in the tenant scope of its context, and the cursor-paginated listings
  of runs (and, with the same code, of jobs). \<open>SELECT .. FOR UPDATE\<close> inside one transaction is a
  lookup here. A cursor is the pair of creation time and id that its opaque text encodes.
\<close>

subsection \<open>Pagination\<close>

definition order_desc :: "('r \<Rightarrow> int \<times> int) \<Rightarrow> 'r list \<Rightarrow> 'r list" where
  "order_desc key rows = rev (sort_key key rows)"

definition after_cursor :: "('r \<Rightarrow> int \<times> int) \<Rightarrow> (int \<times> int) option \<Rightarrow> 'r list \<Rightarrow> 'r list" where
  "after_cursor key cur rows = (case cur of
     None \<Rightarrow> rows
   | Some (dt, i) \<Rightarrow> filter (\<lambda>r. fst (key r) < dt \<or> fst (key r) = dt \<and> snd (key r) < i) rows)"

definition list_page ::
  "('r \<Rightarrow> int \<times> int) \<Rightarrow> nat \<Rightarrow> (int \<times> int) option \<Rightarrow> 'r list
   \<Rightarrow> db_error + ('r list \<times> (int \<times> int) option)" where
  "list_page key lim cur rows =
    (let found = take (lim + 1) (order_desc key (after_cursor key cur rows))
     in if lim < length found then
          (let page = take lim found
           in if page = [] then Inl IndexError else Inr (page, Some (key (last page))))
        else Inr (found, None))"

subsection \<open>Run operations\<close>

definition create_run ::
  "(nat \<Rightarrow> string) \<Rightarrow> tenant_context \<Rightarrow> string \<Rightarrow> int \<Rightarrow> db \<Rightarrow> db_error + (run_row \<times> db)" where
  "create_run gen c config_json now d =
    attempt (require c ''create'') (\<lambda>_.
    attempt (insert_with_public_id_retry run_checks
        (\<lambda>pid. pid \<in> set (map r_public_id (runs d))) (\<lambda>_. True)
        (\<lambda>pid. \<lparr>r_id = fresh_id (map r_id (runs d)), r_public_id = pid,
           r_organisation_id = c_organisation_id c,
           r_created_by_principal_id = c_principal_id c, r_status = RInitiated,
           r_reconciliation_hash = None, r_bank_statement_hash = None,
           r_recon_report_hash = None, r_order_ledger_hash = None,
           r_evidence_pack_id = None, r_evidence_pack_version = None,
           r_config_json = config_json, r_error_code = None, r_error_summary = None,
           r_started_at = now, r_completed_at = None, r_failed_at = None,
           r_is_deleted = False, r_deleted_at = None,
           r_reporting_period_start = None, r_reporting_period_end = None,
           r_legal_hold = False, r_created_at = now, r_updated_at = now\<rparr>) gen)
      (\<lambda>r. Inr (r, d\<lparr>runs := runs d @ [r]\<rparr>)))"

definition get_run_by_id :: "tenant_context \<Rightarrow> int \<Rightarrow> db \<Rightarrow> run_row option" where
  "get_run_by_id c i d = find (\<lambda>r. r_id r = i) (scoped_runs c d)"

definition get_run_by_public_id :: "tenant_context \<Rightarrow> string \<Rightarrow> db \<Rightarrow> run_row option" where
  "get_run_by_public_id c pid d = find (\<lambda>r. r_public_id r = pid) (scoped_runs c d)"

definition list_runs :: "tenant_context \<Rightarrow> nat \<Rightarrow> nat \<Rightarrow> db \<Rightarrow> run_row list" where
  "list_runs c lim off d = take lim (drop off (sort_key (\<lambda>r. - r_started_at r) (scoped_runs c d)))"

definition list_runs_cursor ::
  "tenant_context \<Rightarrow> nat \<Rightarrow> (int \<times> int) option \<Rightarrow> db
   \<Rightarrow> db_error + (run_row list \<times> (int \<times> int) option)" where
  "list_runs_cursor c lim cur d =
    list_page (\<lambda>r. (r_created_at r, r_id r)) lim cur
      (filter (\<lambda>r. \<not> r_is_deleted r) (scoped_runs c d))"

definition lock_run_for_update ::
  "tenant_context \<Rightarrow> int option \<Rightarrow> string option \<Rightarrow> db \<Rightarrow> db_error + run_row option" where
  "lock_run_for_update c run_id public_id d =
    (case run_id of
       Some i \<Rightarrow> Inr (find (\<lambda>r. r_id r = i) (scoped_runs c d))
     | None \<Rightarrow> (case public_id of
         Some pid \<Rightarrow> Inr (find (\<lambda>r. r_public_id r = pid) (scoped_runs c d))
       | None \<Rightarrow> Inl ValueError))"

text \<open>The flush of a loaded row; \<open>onupdate\<close> sets its \<open>updated_at\<close>.\<close>

definition save_run :: "int \<Rightarrow> run_row \<Rightarrow> db \<Rightarrow> db_error + db" where
  "save_run now r d =
    attempt (update_where run_checks (\<lambda>x. r_id x = r_id r) (\<lambda>_. r\<lparr>r_updated_at := now\<rparr>) (runs d))
      (\<lambda>rs. Inr (d\<lparr>runs := rs\<rparr>))"

record run_hashes =
  h_reconciliation_hash :: "string option"
  h_bank_statement_hash :: "string option"
  h_recon_report_hash :: "string option"
  h_order_ledger_hash :: "string option"
  h_evidence_pack_id :: "string option"
  h_evidence_pack_version :: "string option"

definition given :: "'a option \<Rightarrow> 'a option \<Rightarrow> 'a option" where
  "given new old = (if new \<noteq> None then new else old)"

definition complete_run ::
  "tenant_context \<Rightarrow> int \<Rightarrow> run_hashes \<Rightarrow> int \<Rightarrow> db \<Rightarrow> db_error + db" where
  "complete_run c run_id h now d =
    attempt (require c ''complete'') (\<lambda>_.
    attempt (lock_run_for_update c (Some run_id) None d) (\<lambda>found.
      case found of
        None \<Rightarrow> Inl RecordNotFoundError
      | Some r \<Rightarrow>
          if r_status r = RCompleted then Inr d
          else if r_status r \<in> {RFailed, RAborted} then Inl InvalidRunStateError
          else save_run now (r\<lparr>r_status := RCompleted, r_completed_at := Some now,
                 r_reconciliation_hash := given (h_reconciliation_hash h) (r_reconciliation_hash r),
                 r_bank_statement_hash := given (h_bank_statement_hash h) (r_bank_statement_hash r),
                 r_recon_report_hash := given (h_recon_report_hash h) (r_recon_report_hash r),
                 r_order_ledger_hash := given (h_order_ledger_hash h) (r_order_ledger_hash r),
                 r_evidence_pack_id := given (h_evidence_pack_id h) (r_evidence_pack_id r),
                 r_evidence_pack_version :=
                   given (h_evidence_pack_version h) (r_evidence_pack_version r)\<rparr>) d))"

definition fail_run ::
  "tenant_context \<Rightarrow> int \<Rightarrow> string \<Rightarrow> string \<Rightarrow> int \<Rightarrow> db \<Rightarrow> db_error + db" where
  "fail_run c run_id error_code error_summary now d =
    attempt (require c ''fail'') (\<lambda>_.
    attempt (lock_run_for_update c (Some run_id) None d) (\<lambda>found.
      case found of
        None \<Rightarrow> Inl RecordNotFoundError
      | Some r \<Rightarrow>
          if r_status r = RCompleted then Inr d
          else save_run now (r\<lparr>r_status := RFailed, r_failed_at := Some now,
                 r_error_code := Some (take 64 error_code),
                 r_error_summary := Some (take 255 error_summary)\<rparr>) d))"

definition soft_delete_run ::
  "(nat \<Rightarrow> string) \<Rightarrow> tenant_context \<Rightarrow> string \<Rightarrow> int \<Rightarrow> db \<Rightarrow> db_error + (bool \<times> db)" where
  "soft_delete_run gen c public_id now d =
    attempt (require c ''delete'') (\<lambda>_.
    attempt (lock_run_for_update c None (Some public_id) d) (\<lambda>found.
      case found of
        None \<Rightarrow> Inr (False, d)
      | Some r \<Rightarrow>
          if r_is_deleted r then Inr (False, d)
          else if r_legal_hold r then Inl RunUnderLegalHoldError
          else attempt (save_run now (r\<lparr>r_is_deleted := True, r_deleted_at := Some now\<rparr>) d) (\<lambda>d1.
            attempt (append_audit_event gen c ''run.deleted'' ''reconciliation_run''
                       (r_public_id r) (DeletedAt now) None d1) (\<lambda>d2.
              Inr (True, d2)))))"

definition set_run_legal_hold ::
  "(nat \<Rightarrow> string) \<Rightarrow> tenant_context \<Rightarrow> string \<Rightarrow> bool \<Rightarrow> int \<Rightarrow> db \<Rightarrow> db_error + db" where
  "set_run_legal_hold gen c public_id hold now d =
    attempt (require c ''legal_hold'') (\<lambda>_.
    attempt (lock_run_for_update c None (Some public_id) d) (\<lambda>found.
      case found of
        None \<Rightarrow> Inl RecordNotFoundError
      | Some r \<Rightarrow>
          if r_is_deleted r then Inl RecordNotFoundError
          else attempt (save_run now (r\<lparr>r_legal_hold := hold\<rparr>) d) (\<lambda>d1.
            append_audit_event gen c
              (if hold then ''run.legal_hold_placed'' else ''run.legal_hold_released'')
              ''reconciliation_run'' (r_public_id r) (LegalHold hold) None d1)))"

text \<open>A client that follows the cursors from page to page, for at most the given number of pages.\<close>

primrec follow_pages ::
  "nat \<Rightarrow> ((int \<times> int) option \<Rightarrow> db_error + ('r list \<times> (int \<times> int) option))
   \<Rightarrow> (int \<times> int) option \<Rightarrow> 'r list option" where
  "follow_pages 0 page cur = None"
| "follow_pages (Suc n) page cur = (case page cur of
     Inl _ \<Rightarrow> None
   | Inr (rows, None) \<Rightarrow> Some rows
   | Inr (rows, Some nxt) \<Rightarrow> map_option (\<lambda>rest. rows @ rest) (follow_pages n page (Some nxt)))"

subsection \<open>Pages enumerate a listing\<close>

lemma after_cursor_Some: "after_cursor key (Some k) rows = filter (\<lambda>r. key r < k) rows"
  by (cases k) (auto simp: after_cursor_def less_prod_def' intro!: filter_cong)

lemma order_desc_filter: "order_desc key (filter P rows) = filter P (order_desc key rows)"
  by (simp add: order_desc_def filter_sort flip: rev_filter)

lemma order_desc_strict:
  assumes "distinct (map key rows)"
  shows "sorted_wrt (\<lambda>r r'. key r' < key r) (order_desc key rows)"
proof -
  have "sorted (map key (sort_key key rows))" "distinct (map key (sort_key key rows))"
    using assms by (auto simp: distinct_map)
  then have "sorted_wrt (<) (map key (sort_key key rows))"
    by (simp add: strict_sorted_iff)
  then show ?thesis
    by (simp add: order_desc_def sorted_wrt_rev sorted_wrt_map)
qed

lemma filter_after_last:
  assumes "sorted_wrt (\<lambda>r r'. key r' < (key r :: int \<times> int)) S" "0 < k" "k \<le> length S"
  shows "filter (\<lambda>r. key r < key (last (take k S))) S = drop k S"
proof -
  obtain as a bs where S: "S = as @ a # bs" and as: "length as = k - 1"
    using assms(2,3) by (metis Suc_pred' id_take_nth_drop length_take less_eq_Suc_le min.absorb2
        diff_le_self le_trans)
  have "last (take k S) = a" "drop k S = bs"
    using as assms(2) by (simp_all add: S)
  moreover have "filter (\<lambda>r. key r < key a) as = []"
    using assms(1) by (auto simp: S sorted_wrt_append filter_empty_conv dest: order.asym)
  moreover have "filter (\<lambda>r. key r < key a) bs = bs"
    using assms(1) by (simp add: S sorted_wrt_append filter_id_conv)
  ultimately show ?thesis
    by (simp add: S)
qed

lemma follow_pages_from:
  assumes strict: "sorted_wrt (\<lambda>r r'. key r' < key r) (order_desc key rows)" and lim: "0 < lim"
  shows "order_desc key (after_cursor key cur rows) = drop k (order_desc key rows) \<Longrightarrow>
    length rows - k < n \<Longrightarrow>
    follow_pages n (\<lambda>c. list_page key lim c rows) cur = Some (drop k (order_desc key rows))"
proof (induction n arbitrary: cur k)
  case (Suc n)
  let ?S = "order_desc key rows"
  have len: "length ?S = length rows"
    by (simp add: order_desc_def)
  show ?case
  proof (cases "lim < length rows - k")
    case False
    then show ?thesis
      using len by (simp add: list_page_def Suc.prems(1) Let_def)
  next
    case True
    let ?page = "take lim (drop k ?S)"
    have lst: "last ?page = last (take (k + lim) ?S)"
      using True lim len by (simp add: take_drop last_drop add.commute)
    have "list_page key lim cur rows = Inr (?page, Some (key (last ?page)))"
      using True lim len by (simp add: list_page_def Suc.prems(1) Let_def)
    moreover have "order_desc key (after_cursor key (Some (key (last ?page))) rows)
        = drop (k + lim) ?S"
      unfolding after_cursor_Some order_desc_filter lst
      using strict lim True len by (intro filter_after_last) auto
    then have "follow_pages n (\<lambda>c. list_page key lim c rows) (Some (key (last ?page)))
        = Some (drop (k + lim) ?S)"
      using Suc.prems(2) True lim by (intro Suc.IH) auto
    ultimately show ?thesis
      by simp (metis append_take_drop_id drop_drop add.commute)
  qed
qed simp

lemma follow_pages_complete:
  assumes "distinct (map key rows)" "0 < lim" "length rows < n"
  shows "follow_pages n (\<lambda>c. list_page key lim c rows) None = Some (order_desc key rows)"
  using follow_pages_from [OF order_desc_strict [OF assms(1)] assms(2), where k = 0 and cur = None]
    assms(3) by (simp add: after_cursor_def)

end
