(* ===== verification/Jobs.thy ===== *)
theory Jobs
  imports Runs
begin

section \<open>Job queue: leases, fencing, retries\<close>

text \<open>
  \<open>persistence/repositories/job.py\<close> with the PostgreSQL functions of migration
  \<open>0003_reconciliation_jobs_and_storage.py\<close>: every worker operation exists twice, as a SQL function
  and as the SQLite emulation in Python, and the dialect is an argument here. The database clock
  and Python's clock are one argument \<open>now\<close>; the rows that \<open>SKIP LOCKED\<close> passes over because
  another transaction holds them are the argument \<open>locked\<close>; among rows scheduled at the same time
  the first of the table is taken.
\<close>

datatype dialect = Postgres | Sqlite

subsection \<open>Tenant operations\<close>

definition create_reconciliation_job ::
  "(nat \<Rightarrow> string) \<Rightarrow> tenant_context \<Rightarrow> int \<Rightarrow> int \<Rightarrow> int \<Rightarrow> db \<Rightarrow> db_error + (job_row \<times> db)" where
  "create_reconciliation_job gen c run_id max_attempts now d =
    attempt (require c ''create'') (\<lambda>_.
    attempt (insert_with_public_id_retry job_checks
        (\<lambda>pid. pid \<in> set (map j_public_id (jobs d)))
        (\<lambda>j. list_ex (\<lambda>r. r_organisation_id r = j_organisation_id j \<and> r_id r = j_run_id j) (runs d))
        (\<lambda>pid. \<lparr>j_id = fresh_id (map j_id (jobs d)), j_public_id = pid,
           j_organisation_id = c_organisation_id c, j_run_id = run_id,
           j_created_by_principal_id = c_principal_id c,
           j_status = JQueued, j_stage = ''queued'', j_worker_id = None, j_attempt_token = None,
           j_lease_generation = 0, j_attempt_count = 0, j_max_attempts = max_attempts,
           j_lease_expires_at = None, j_last_heartbeat_at = None, j_scheduled_at = now,
           j_started_at = None, j_completed_at = None, j_failed_at = None,
           j_error_code = None, j_error_summary = None,
           j_is_cancelled = False, j_cancelled_at = None, j_cancelled_by_principal_id = None,
           j_created_at = now, j_updated_at = now\<rparr>) gen)
      (\<lambda>j. Inr (j, d\<lparr>jobs := jobs d @ [j]\<rparr>)))"

definition get_job_by_id :: "tenant_context \<Rightarrow> int \<Rightarrow> db \<Rightarrow> job_row option" where
  "get_job_by_id c i d = find (\<lambda>j. j_id j = i) (scoped_jobs c d)"

definition get_job_by_public_id :: "tenant_context \<Rightarrow> string \<Rightarrow> db \<Rightarrow> job_row option" where
  "get_job_by_public_id c pid d = find (\<lambda>j. j_public_id j = pid) (scoped_jobs c d)"

definition get_job_by_run_id :: "tenant_context \<Rightarrow> int \<Rightarrow> db \<Rightarrow> job_row option" where
  "get_job_by_run_id c i d = find (\<lambda>j. j_run_id j = i) (scoped_jobs c d)"

definition list_jobs ::
  "tenant_context \<Rightarrow> nat \<Rightarrow> (int \<times> int) option \<Rightarrow> db
   \<Rightarrow> db_error + (job_row list \<times> (int \<times> int) option)" where
  "list_jobs c lim cur d =
    list_page (\<lambda>j. (j_created_at j, j_id j)) lim cur (scoped_jobs c d)"

definition update_jobs :: "(job_row \<Rightarrow> bool) \<Rightarrow> (job_row \<Rightarrow> job_row) \<Rightarrow> db \<Rightarrow> db_error + db" where
  "update_jobs P f d =
    attempt (update_where job_checks P f (jobs d)) (\<lambda>js. Inr (d\<lparr>jobs := js\<rparr>))"

text \<open>What a failed or cancelled job does to its run, when the run is in one of the given states.\<close>

definition stop_run ::
  "run_status set \<Rightarrow> string \<Rightarrow> string \<Rightarrow> int \<Rightarrow> run_row option \<Rightarrow> db \<Rightarrow> db_error + db" where
  "stop_run sts error_code error_summary now found d =
    (case found of
       None \<Rightarrow> Inr d
     | Some r \<Rightarrow>
         if r_status r \<in> sts then
           save_run now (r\<lparr>r_status := RFailed, r_error_code := Some error_code,
             r_error_summary := Some error_summary, r_failed_at := Some now\<rparr>) d
         else Inr d)"

definition request_job_cancellation ::
  "tenant_context \<Rightarrow> string \<Rightarrow> int \<Rightarrow> db \<Rightarrow> db_error + db" where
  "request_job_cancellation c public_id now d =
    attempt (require c ''cancel'') (\<lambda>_.
      case get_job_by_public_id c public_id d of
        None \<Rightarrow> Inl RecordNotFoundError
      | Some job \<Rightarrow>
          if j_status job \<in> {JCompleted, JFailed, JCancelled} then Inr d
          else
            let mark = (\<lambda>j. j\<lparr>j_is_cancelled := True, j_cancelled_at := Some now,
                           j_cancelled_by_principal_id := Some (c_principal_id c),
                           j_updated_at := now\<rparr>)
            in if j_status job = JQueued then
                 attempt (update_jobs (\<lambda>j. j_id j = j_id job)
                     (\<lambda>j. (mark j)\<lparr>j_status := JCancelled, j_stage := ''completed''\<rparr>) d) (\<lambda>d1.
                   stop_run {RInitiated} ''job_cancelled''
                     ''Reconciliation job was cancelled by user before execution'' now
                     (get_run_by_id c (j_run_id job) d) d1)
               else update_jobs (\<lambda>j. j_id j = j_id job) mark d)"

text \<open>The fence of every worker statement.\<close>

definition fenced :: "int \<Rightarrow> string \<Rightarrow> int \<Rightarrow> job_row \<Rightarrow> bool" where
  "fenced job_id token gen j \<longleftrightarrow>
     j_id j = job_id \<and> j_attempt_token j = Some token \<and> j_lease_generation j = gen"

definition fenced_running :: "int \<Rightarrow> string \<Rightarrow> int \<Rightarrow> job_row \<Rightarrow> bool" where
  "fenced_running job_id token gen j \<longleftrightarrow> fenced job_id token gen j \<and> j_status j = JRunning"

definition complete_job_fenced ::
  "tenant_context \<Rightarrow> int \<Rightarrow> string \<Rightarrow> int \<Rightarrow> int \<Rightarrow> db \<Rightarrow> db_error + db" where
  "complete_job_fenced c job_id token gen now d =
    (let P = (\<lambda>j. fenced_running job_id token gen j \<and> j_organisation_id j = c_organisation_id c)
     in attempt (update_jobs P (\<lambda>j. j\<lparr>j_status := JCompleted, j_stage := ''completed'',
                    j_completed_at := Some now, j_updated_at := now\<rparr>) d) (\<lambda>d1.
          if rowcount P (jobs d) = 0 then Inl JobFencingError else Inr d1))"

subsection \<open>Claiming\<close>

record claimed_job =
  k_job_id :: int
  k_organisation_id :: int
  k_run_id :: int
  k_attempt_token :: string
  k_lease_generation :: int

definition expired :: "int \<Rightarrow> job_row \<Rightarrow> bool" where
  "expired now j = (case j_lease_expires_at j of None \<Rightarrow> False | Some t \<Rightarrow> t < now)"

definition oldest :: "job_row list \<Rightarrow> job_row option" where
  "oldest js = (case js of [] \<Rightarrow> None | j # js \<Rightarrow> Some (max_by (\<lambda>j. - j_scheduled_at j) j js))"

definition lease_end :: "int \<Rightarrow> int \<Rightarrow> int" where
  "lease_end now seconds = now + seconds * 1000000"

definition claim_update :: "string \<Rightarrow> string \<Rightarrow> int \<Rightarrow> int \<Rightarrow> job_row \<Rightarrow> job_row" where
  "claim_update worker token seconds now j =
    j\<lparr>j_status := JRunning, j_stage := ''ingesting'', j_worker_id := Some worker,
      j_attempt_token := Some token, j_lease_generation := j_lease_generation j + 1,
      j_attempt_count := j_attempt_count j + 1,
      j_started_at := (case j_started_at j of None \<Rightarrow> Some now | Some t \<Rightarrow> Some t),
      j_last_heartbeat_at := Some now, j_lease_expires_at := Some (lease_end now seconds),
      j_updated_at := now\<rparr>"

definition eligible_postgres :: "int list \<Rightarrow> int \<Rightarrow> job_row \<Rightarrow> bool" where
  "eligible_postgres locked now j \<longleftrightarrow>
     (j_status j = JQueued \<or> j_status j = JRunning \<and> expired now j)
     \<and> j_attempt_count j < j_max_attempts j \<and> \<not> j_is_cancelled j \<and> j_id j \<notin> set locked"

definition eligible_sqlite :: "int \<Rightarrow> job_row \<Rightarrow> bool" where
  "eligible_sqlite now j \<longleftrightarrow>
     (j_status j = JQueued
      \<or> j_status j = JRunning \<and> expired now j \<and> j_attempt_count j < j_max_attempts j)
     \<and> \<not> j_is_cancelled j"

definition claim_row ::
  "string \<Rightarrow> string \<Rightarrow> int \<Rightarrow> int \<Rightarrow> job_row option \<Rightarrow> db \<Rightarrow> db_error + (claimed_job option \<times> db)"
where
  "claim_row worker token seconds now found d =
    (case found of
       None \<Rightarrow> Inr (None, d)
     | Some job \<Rightarrow>
         attempt (update_jobs (\<lambda>j. j_id j = j_id job) (claim_update worker token seconds now) d)
           (\<lambda>d1. Inr (Some \<lparr>k_job_id = j_id job, k_organisation_id = j_organisation_id job,
                       k_run_id = j_run_id job, k_attempt_token = token,
                       k_lease_generation = j_lease_generation job + 1\<rparr>, d1)))"

definition fn_job_claim_next ::
  "int list \<Rightarrow> string \<Rightarrow> int \<Rightarrow> string \<Rightarrow> int \<Rightarrow> db \<Rightarrow> db_error + (claimed_job option \<times> db)" where
  "fn_job_claim_next locked worker seconds token now d =
    claim_row worker token seconds now (oldest (filter (eligible_postgres locked now) (jobs d))) d"

definition claim_next_job ::
  "dialect \<Rightarrow> int list \<Rightarrow> string \<Rightarrow> int \<Rightarrow> string \<Rightarrow> int \<Rightarrow> db \<Rightarrow> db_error + (claimed_job option \<times> db)"
where
  "claim_next_job dia locked worker seconds token now d = (case dia of
     Postgres \<Rightarrow> fn_job_claim_next locked worker seconds token now d
   | Sqlite \<Rightarrow>
       claim_row worker token seconds now (oldest (filter (eligible_sqlite now) (jobs d))) d)"

subsection \<open>Operations of a lease holder\<close>

definition fenced_update ::
  "(job_row \<Rightarrow> bool) \<Rightarrow> (job_row \<Rightarrow> job_row) \<Rightarrow> db \<Rightarrow> db_error + (bool \<times> db)" where
  "fenced_update P f d = attempt (update_jobs P f d) (\<lambda>d1. Inr (0 < rowcount P (jobs d), d1))"

definition heartbeat_update :: "int \<Rightarrow> int \<Rightarrow> job_row \<Rightarrow> job_row" where
  "heartbeat_update seconds now j =
    j\<lparr>j_last_heartbeat_at := Some now, j_lease_expires_at := Some (lease_end now seconds),
      j_updated_at := now\<rparr>"

definition fn_job_heartbeat ::
  "int \<Rightarrow> string \<Rightarrow> int \<Rightarrow> int \<Rightarrow> int \<Rightarrow> db \<Rightarrow> db_error + (bool \<times> db)" where
  "fn_job_heartbeat job_id token gen seconds now d =
    fenced_update (fenced_running job_id token gen) (heartbeat_update seconds now) d"

definition heartbeat_job ::
  "dialect \<Rightarrow> int \<Rightarrow> string \<Rightarrow> string \<Rightarrow> int \<Rightarrow> int \<Rightarrow> int \<Rightarrow> db \<Rightarrow> db_error + (bool \<times> db)" where
  "heartbeat_job dia job_id worker token gen seconds now d = (case dia of
     Postgres \<Rightarrow> fn_job_heartbeat job_id token gen seconds now d
   | Sqlite \<Rightarrow> fenced_update
       (\<lambda>j. fenced_running job_id token gen j \<and> j_worker_id j = Some worker)
       (heartbeat_update seconds now) d)"

definition fn_job_check_cancellation :: "int \<Rightarrow> string \<Rightarrow> int \<Rightarrow> db \<Rightarrow> bool" where
  "fn_job_check_cancellation job_id token gen d =
    (case find (fenced_running job_id token gen) (jobs d) of
       None \<Rightarrow> False | Some j \<Rightarrow> j_is_cancelled j)"

definition check_job_cancellation :: "dialect \<Rightarrow> int \<Rightarrow> string \<Rightarrow> int \<Rightarrow> db \<Rightarrow> bool" where
  "check_job_cancellation dia job_id token gen d = (case dia of
     Postgres \<Rightarrow> fn_job_check_cancellation job_id token gen d
   | Sqlite \<Rightarrow> (case find (fenced job_id token gen) (jobs d) of
       None \<Rightarrow> False | Some j \<Rightarrow> j_is_cancelled j))"

definition fn_job_transition_stage ::
  "int \<Rightarrow> string \<Rightarrow> int \<Rightarrow> string \<Rightarrow> int \<Rightarrow> db \<Rightarrow> db_error + (bool \<times> db)" where
  "fn_job_transition_stage job_id token gen stage now d =
    fenced_update (fenced_running job_id token gen)
      (\<lambda>j. j\<lparr>j_stage := stage, j_updated_at := now\<rparr>) d"

definition transition_job_stage ::
  "dialect \<Rightarrow> int \<Rightarrow> string \<Rightarrow> string \<Rightarrow> int \<Rightarrow> string \<Rightarrow> int \<Rightarrow> db \<Rightarrow> db_error + (bool \<times> db)" where
  "transition_job_stage dia job_id worker token gen stage now d = (case dia of
     Postgres \<Rightarrow> fn_job_transition_stage job_id token gen stage now d
   | Sqlite \<Rightarrow> fenced_update
       (\<lambda>j. fenced_running job_id token gen j \<and> j_worker_id j = Some worker)
       (\<lambda>j. j\<lparr>j_stage := stage, j_updated_at := now\<rparr>) d)"

definition requeue_update :: "int \<Rightarrow> job_row \<Rightarrow> job_row" where
  "requeue_update now j =
    j\<lparr>j_status := JQueued, j_failed_at := None, j_attempt_token := None, j_worker_id := None,
      j_lease_expires_at := None, j_started_at := None, j_completed_at := None,
      j_error_code := None, j_error_summary := None, j_stage := ''queued'', j_updated_at := now\<rparr>"

definition fn_job_fail ::
  "int \<Rightarrow> string \<Rightarrow> int \<Rightarrow> string \<Rightarrow> string \<Rightarrow> bool \<Rightarrow> int \<Rightarrow> db \<Rightarrow> db_error + (bool \<times> db)" where
  "fn_job_fail job_id token gen error_code error_summary retryable now d =
    fenced_update (fenced_running job_id token gen)
      (\<lambda>j. if retryable \<and> j_attempt_count j < j_max_attempts j then requeue_update now j
           else j\<lparr>j_status := JFailed, j_failed_at := Some now, j_error_code := Some error_code,
                  j_error_summary := Some error_summary, j_stage := ''completed'',
                  j_updated_at := now\<rparr>) d"

record fail_result =
  is_permanent_failure :: bool
  new_status :: string
  new_attempt_count :: int

definition stale_result :: fail_result where
  "stale_result =
    \<lparr>is_permanent_failure = False, new_status = ''stale'', new_attempt_count = 0\<rparr>"

definition fail_job ::
  "dialect \<Rightarrow> int \<Rightarrow> string \<Rightarrow> int \<Rightarrow> string \<Rightarrow> string \<Rightarrow> bool \<Rightarrow> int \<Rightarrow> db
   \<Rightarrow> db_error + (fail_result \<times> db)" where
  "fail_job dia job_id token gen error_code error_summary retryable now d = (case dia of
     Postgres \<Rightarrow>
       attempt (fn_job_fail job_id token gen error_code (take 255 error_summary) retryable now d)
         (\<lambda>(res, d1). Inr (\<lparr>is_permanent_failure = res,
            new_status = (if res then ''failed'' else ''stale''), new_attempt_count = 0\<rparr>, d1))
   | Sqlite \<Rightarrow> (case find (\<lambda>j. j_id j = job_id) (jobs d) of
       None \<Rightarrow> Inr (stale_result, d)
     | Some job \<Rightarrow>
         if j_attempt_token job \<noteq> Some token \<or> j_lease_generation job \<noteq> gen
         then Inr (stale_result, d)
         else let is_perm = (\<not> retryable \<or> j_max_attempts job \<le> j_attempt_count job) in
           if is_perm then
             attempt (update_jobs (\<lambda>j. j_id j = j_id job)
                 (\<lambda>j. j\<lparr>j_status := JFailed, j_failed_at := Some now,
                        j_error_code := Some error_code,
                        j_error_summary := Some (take 255 error_summary),
                        j_stage := ''completed'', j_updated_at := now\<rparr>) d) (\<lambda>d1.
             attempt (stop_run {RInitiated, RRunning} error_code (take 255 error_summary) now
                 (find (\<lambda>r. r_id r = j_run_id job) (runs d)) d1) (\<lambda>d2.
               Inr (\<lparr>is_permanent_failure = True, new_status = ''failed'',
                      new_attempt_count = j_attempt_count job\<rparr>, d2)))
           else
             attempt (update_jobs (\<lambda>j. j_id j = j_id job) (requeue_update now) d) (\<lambda>d1.
               Inr (\<lparr>is_permanent_failure = False, new_status = ''queued'',
                      new_attempt_count = j_attempt_count job\<rparr>, d1))))"

definition fn_job_cancel_ack ::
  "int \<Rightarrow> string \<Rightarrow> int \<Rightarrow> int \<Rightarrow> db \<Rightarrow> db_error + (bool \<times> db)" where
  "fn_job_cancel_ack job_id token gen now d =
    fenced_update (fenced_running job_id token gen)
      (\<lambda>j. j\<lparr>j_status := JCancelled,
             j_cancelled_at := (case j_cancelled_at j of None \<Rightarrow> Some now | Some t \<Rightarrow> Some t),
             j_updated_at := now\<rparr>) d"

definition cancel_ack_job ::
  "dialect \<Rightarrow> int \<Rightarrow> string \<Rightarrow> int \<Rightarrow> int \<Rightarrow> db \<Rightarrow> db_error + (bool \<times> db)" where
  "cancel_ack_job dia job_id token gen now d = (case dia of
     Postgres \<Rightarrow> fn_job_cancel_ack job_id token gen now d
   | Sqlite \<Rightarrow> (case find (\<lambda>j. j_id j = job_id) (jobs d) of
       None \<Rightarrow> Inr (False, d)
     | Some job \<Rightarrow>
         if j_attempt_token job \<noteq> Some token \<or> j_lease_generation job \<noteq> gen
         then Inr (False, d)
         else
           attempt (update_jobs (\<lambda>j. j_id j = j_id job)
               (\<lambda>j. j\<lparr>j_status := JCancelled, j_stage := ''completed'', j_updated_at := now\<rparr>) d)
             (\<lambda>d1.
           attempt (stop_run {RInitiated, RRunning} ''job_cancelled''
               ''Reconciliation job was cancelled'' now
               (find (\<lambda>r. r_id r = j_run_id job) (runs d)) d1) (\<lambda>d2.
             Inr (True, d2)))))"

text \<open>
  The PostgreSQL function joins \<open>roles\<close> on \<open>m.role_id\<close>; PL/pgSQL resolves the column when the
  statement first runs, that is, when the fence has found the job.
\<close>

definition fn_job_revalidate_creator :: "int \<Rightarrow> string \<Rightarrow> int \<Rightarrow> db \<Rightarrow> db_error + bool" where
  "fn_job_revalidate_creator job_id token gen d =
    (case find (fenced_running job_id token gen) (jobs d) of
       None \<Rightarrow> Inr False
     | Some j \<Rightarrow>
         if ''role_id'' \<notin> set membership_columns then Inl (UndefinedColumn ''role_id'')
         else Inr (list_ex (\<lambda>m. m_organisation_id m = j_organisation_id j
                      \<and> m_principal_id m = j_created_by_principal_id j
                      \<and> m_status m = ''active''
                      \<and> m_role_code m \<in> {''owner'', ''admin'', ''operator''}) (memberships d)))"

definition revalidate_job_creator ::
  "dialect \<Rightarrow> int \<Rightarrow> string \<Rightarrow> int \<Rightarrow> db \<Rightarrow> db_error + bool" where
  "revalidate_job_creator dia job_id token gen d = (case dia of
     Postgres \<Rightarrow> fn_job_revalidate_creator job_id token gen d
   | Sqlite \<Rightarrow> (case find (\<lambda>j. j_id j = job_id) (jobs d) of
       None \<Rightarrow> Inr False
     | Some j \<Rightarrow>
         if j_attempt_token j \<noteq> Some token \<or> j_lease_generation j \<noteq> gen then Inr False
         else Inr (list_ex (\<lambda>m. m_organisation_id m = j_organisation_id j
                      \<and> m_principal_id m = j_created_by_principal_id j
                      \<and> m_status m = ''active'') (memberships d))))"

definition fn_job_complete ::
  "int \<Rightarrow> string \<Rightarrow> int \<Rightarrow> int \<Rightarrow> db \<Rightarrow> db_error + (bool \<times> db)" where
  "fn_job_complete job_id token gen now d =
    fenced_update (fenced_running job_id token gen)
      (\<lambda>j. j\<lparr>j_status := JCompleted, j_stage := ''completed'', j_completed_at := Some now,
             j_updated_at := now\<rparr>) d"

end
