(* ===== verification/JobSafety.thy ===== *)
theory JobSafety
  imports Jobs
begin

section \<open>The store as a state machine\<close>

text \<open>
  Every repository operation as a step of the tenant database, labelled with who made it: a tenant
  (its organisation), a claim (its result) or the holder of a lease (job, token, generation). The
  relations below say how a row may change; every operation is shown to change rows only so, and
  the properties of the queue follow by induction on steps. The service enqueues jobs with the
  default three attempts.
\<close>

datatype store_event =
    ByTenant int
  | Claimed "claimed_job option"
  | Held int string int

inductive store_step :: "dialect \<Rightarrow> db \<Rightarrow> store_event \<Rightarrow> db \<Rightarrow> bool" for dia where
  step_create_run: "create_run gen c cfg now d = Inr (r, d')
     \<Longrightarrow> store_step dia d (ByTenant (c_organisation_id c)) d'"
| step_complete_run: "complete_run c i h now d = Inr d'
     \<Longrightarrow> store_step dia d (ByTenant (c_organisation_id c)) d'"
| step_fail_run: "fail_run c i code summary now d = Inr d'
     \<Longrightarrow> store_step dia d (ByTenant (c_organisation_id c)) d'"
| step_delete_run: "soft_delete_run gen c pid now d = Inr (b, d')
     \<Longrightarrow> store_step dia d (ByTenant (c_organisation_id c)) d'"
| step_legal_hold: "set_run_legal_hold gen c pid hold now d = Inr d'
     \<Longrightarrow> store_step dia d (ByTenant (c_organisation_id c)) d'"
| step_create_job: "create_reconciliation_job gen c i 3 now d = Inr (j, d')
     \<Longrightarrow> store_step dia d (ByTenant (c_organisation_id c)) d'"
| step_cancel_job: "request_job_cancellation c pid now d = Inr d'
     \<Longrightarrow> store_step dia d (ByTenant (c_organisation_id c)) d'"
| step_claim: "claim_next_job dia locked w secs tok now d = Inr (k, d')
     \<Longrightarrow> store_step dia d (Claimed k) d'"
| step_heartbeat: "heartbeat_job dia i w tok g secs now d = Inr (b, d')
     \<Longrightarrow> store_step dia d (Held i tok g) d'"
| step_transition: "transition_job_stage dia i w tok g stage now d = Inr (b, d')
     \<Longrightarrow> store_step dia d (Held i tok g) d'"
| step_fail_job: "fail_job dia i tok g code summary retry now d = Inr (res, d')
     \<Longrightarrow> store_step dia d (Held i tok g) d'"
| step_cancel_ack: "cancel_ack_job dia i tok g now d = Inr (b, d')
     \<Longrightarrow> store_step dia d (Held i tok g) d'"
| step_complete_job: "complete_job_fenced c i tok g now d = Inr d'
     \<Longrightarrow> store_step dia d (Held i tok g) d'"
| step_fn_complete: "fn_job_complete i tok g now d = Inr (b, d')
     \<Longrightarrow> store_step dia d (Held i tok g) d'"

inductive_cases held_stepE: "store_step dia d (Held i tok g) d'"
inductive_cases claim_stepE: "store_step dia d (Claimed k) d'"
inductive_cases tenant_stepE: "store_step dia d (ByTenant org) d'"

subsection \<open>How rows change\<close>

definition run_kept :: "run_row \<Rightarrow> run_row \<Rightarrow> bool" where
  "run_kept r r' \<longleftrightarrow>
     r_id r' = r_id r \<and> r_public_id r' = r_public_id r
     \<and> r_organisation_id r' = r_organisation_id r \<and> run_checks r'
     \<and> (r_status r = RCompleted \<longrightarrow>
          r' = r\<lparr>r_is_deleted := r_is_deleted r', r_deleted_at := r_deleted_at r',
                 r_legal_hold := r_legal_hold r', r_updated_at := r_updated_at r'\<rparr>)
     \<and> (r_status r \<in> {RFailed, RAborted} \<longrightarrow> r_status r' \<in> {RFailed, r_status r})
     \<and> (r_is_deleted r \<longrightarrow> r_is_deleted r')
     \<and> (r_is_deleted r' \<and> \<not> r_is_deleted r \<longrightarrow> \<not> r_legal_hold r)"

definition job_same :: "job_row \<Rightarrow> job_row \<Rightarrow> bool" where
  "job_same j j' \<longleftrightarrow>
     j_id j' = j_id j \<and> j_public_id j' = j_public_id j \<and> j_organisation_id j' = j_organisation_id j
     \<and> j_run_id j' = j_run_id j \<and> j_max_attempts j' = j_max_attempts j"

definition job_kept :: "job_row \<Rightarrow> job_row \<Rightarrow> bool" where
  "job_kept j j' \<longleftrightarrow>
     job_same j j' \<and> job_checks j' \<and> j_lease_generation j' = j_lease_generation j
     \<and> j_attempt_count j' = j_attempt_count j
     \<and> (j_status j' = JQueued \<longrightarrow> j_status j = JQueued \<or> j_attempt_count j < j_max_attempts j)"

definition job_claimed :: "claimed_job \<Rightarrow> job_row \<Rightarrow> job_row \<Rightarrow> bool" where
  "job_claimed k j j' \<longleftrightarrow>
     job_same j j' \<and> job_checks j' \<and> j_id j = k_job_id k
     \<and> j_organisation_id j = k_organisation_id k \<and> j_run_id j = k_run_id k
     \<and> j_status j \<in> {JQueued, JRunning} \<and> \<not> j_is_cancelled j
     \<and> j_status j' = JRunning \<and> j_attempt_token j' = Some (k_attempt_token k)
     \<and> j_lease_generation j' = j_lease_generation j + 1
     \<and> j_lease_generation j' = k_lease_generation k
     \<and> j_attempt_count j' = j_attempt_count j + 1"

text \<open>A table after a statement: its rows, some of them changed, and perhaps new rows.\<close>

definition grows :: "('r \<Rightarrow> 'r \<Rightarrow> bool) \<Rightarrow> ('r \<Rightarrow> bool) \<Rightarrow> ('r \<Rightarrow> int) \<Rightarrow> 'r list \<Rightarrow> 'r list \<Rightarrow> bool" where
  "grows K N key xs ys \<longleftrightarrow> (\<exists>old new. ys = old @ new \<and> list_all2 (\<lambda>x y. y = x \<or> K x y) xs old
     \<and> (\<forall>y \<in> set new. N y \<and> key y \<notin> key ` set xs) \<and> distinct (map key new))"

definition change ::
  "(run_row \<Rightarrow> run_row \<Rightarrow> bool) \<Rightarrow> (run_row \<Rightarrow> bool) \<Rightarrow> (job_row \<Rightarrow> job_row \<Rightarrow> bool) \<Rightarrow> (job_row \<Rightarrow> bool)
   \<Rightarrow> db \<Rightarrow> db \<Rightarrow> bool" where
  "change R NR J NJ d d' \<longleftrightarrow> grows R NR r_id (runs d) (runs d') \<and> grows J NJ j_id (jobs d) (jobs d')"

definition store_ok :: "db \<Rightarrow> bool" where
  "store_ok d \<longleftrightarrow>
     distinct (map r_id (runs d)) \<and> distinct (map j_id (jobs d))
     \<and> (\<forall>r \<in> set (runs d). run_checks r)
     \<and> (\<forall>j \<in> set (jobs d). job_checks j \<and> j_lease_generation j = j_attempt_count j
          \<and> (j_status j = JQueued \<longrightarrow> j_attempt_count j < j_max_attempts j)
          \<and> (\<exists>r \<in> set (runs d). r_id r = j_run_id j \<and> r_organisation_id r = j_organisation_id j))"

lemma growsI:
  assumes "list_all2 (\<lambda>x y. y = x \<or> K x y) xs old" "\<forall>y \<in> set new. N y \<and> key y \<notin> key ` set xs"
    "distinct (map key new)"
  shows "grows K N key xs (old @ new)"
  using assms unfolding grows_def by blast

lemma growsE:
  assumes "grows K N key xs ys"
  obtains old new where "ys = old @ new" "list_all2 (\<lambda>x y. y = x \<or> K x y) xs old"
    "\<And>y. y \<in> set new \<Longrightarrow> N y \<and> key y \<notin> key ` set xs" "distinct (map key new)"
  using assms unfolding grows_def by blast

lemma grows_refl [simp, intro]: "grows K N key xs xs"
  using growsI [of K xs xs "[]"] by (simp add: list_all2_same)

lemma grows_map:
  assumes "\<And>x. x \<in> set xs \<Longrightarrow> P x \<Longrightarrow> K x (f x)"
  shows "grows K N key xs (map (\<lambda>x. if P x then f x else x) xs)"
  using growsI [of K xs "map (\<lambda>x. if P x then f x else x) xs" "[]"] assms
  by (simp add: list_all2_map2 list_all2_same)

lemma grows_snoc: "N y \<Longrightarrow> key y \<notin> key ` set xs \<Longrightarrow> grows K N key xs (xs @ [y])"
  by (rule growsI) (simp_all add: list_all2_same)

lemma grows_mono:
  assumes "grows K N key xs ys" "\<And>x y. x \<in> set xs \<Longrightarrow> K x y \<Longrightarrow> K' x y" "\<And>y. N y \<Longrightarrow> N' y"
  shows "grows K' N' key xs ys"
proof -
  obtain old new where ys: "ys = old @ new" "list_all2 (\<lambda>x y. y = x \<or> K x y) xs old"
    "\<And>y. y \<in> set new \<Longrightarrow> N y \<and> key y \<notin> key ` set xs" "distinct (map key new)"
    using growsE [OF assms(1)] by blast
  have "list_all2 (\<lambda>x y. y = x \<or> K' x y) xs old"
    by (rule list.rel_mono_strong [OF ys(2)]) (use assms(2) in blast)
  then show ?thesis
    using ys assms(3) by (simp add: growsI)
qed

lemma grows_old:
  assumes "grows K N key xs ys" "x \<in> set xs"
  shows "\<exists>y \<in> set ys. y = x \<or> K x y"
  using assms by (elim growsE) (fastforce simp: list_all2_conv_all_nth in_set_conv_nth)

lemma grows_new:
  assumes "grows K N key xs ys" "y \<in> set ys"
  shows "(\<exists>x \<in> set xs. y = x \<or> K x y) \<or> N y \<and> key y \<notin> key ` set xs"
proof -
  obtain old new where ys: "ys = old @ new" "list_all2 (\<lambda>x y. y = x \<or> K x y) xs old"
    "\<And>y. y \<in> set new \<Longrightarrow> N y \<and> key y \<notin> key ` set xs"
    using growsE [OF assms(1)] by blast
  show ?thesis
  proof (cases "y \<in> set old")
    case True
    then obtain i where i: "i < length old" "y = old ! i"
      by (auto simp: in_set_conv_nth)
    then have "xs ! i \<in> set xs" "y = xs ! i \<or> K (xs ! i) y"
      using list_all2_nthD2 [OF ys(2), of i] list_all2_lengthD [OF ys(2)] by auto
    then show ?thesis
      by blast
  next
    case False
    then have "y \<in> set new"
      using ys(1) assms(2) by simp
    then show ?thesis
      using ys(3) by blast
  qed
qed

lemma grows_keys:
  assumes "grows K N key xs ys" "\<And>x y. K x y \<Longrightarrow> key y = key x"
  shows "\<exists>new. map key ys = map key xs @ new \<and> distinct new \<and> set new \<inter> key ` set xs = {}"
proof -
  obtain old new where ys: "ys = old @ new" "list_all2 (\<lambda>x y. y = x \<or> K x y) xs old"
    "\<forall>y \<in> set new. key y \<notin> key ` set xs" "distinct (map key new)"
    using assms(1) by (auto simp: grows_def)
  have "map key old = map key xs"
    using ys(2) assms(2) by (induction rule: list_all2_induct) auto
  with ys show ?thesis
    by auto
qed

lemma grows_distinct:
  assumes "grows K N key xs ys" "\<And>x y. K x y \<Longrightarrow> key y = key x" "distinct (map key xs)"
  shows "distinct (map key ys)"
  using grows_keys [OF assms(1,2)] assms(3) by (auto simp del: set_map simp flip: set_map)

subsection \<open>Run operations change runs of their tenant\<close>

definition run_by :: "int \<Rightarrow> run_row \<Rightarrow> run_row \<Rightarrow> bool" where
  "run_by org r r' \<longleftrightarrow> r_organisation_id r = org \<and> run_kept r r'"

definition job_by :: "int \<Rightarrow> job_row \<Rightarrow> job_row \<Rightarrow> bool" where
  "job_by org j j' \<longleftrightarrow>
     j_organisation_id j = org \<and> job_kept j j' \<and> j_status j \<in> {JQueued, JRunning}
     \<and> j_status j' = (if j_status j = JRunning then JRunning else JCancelled)
     \<and> j_is_cancelled j' \<and> j_attempt_token j' = j_attempt_token j"

definition new_run :: "int \<Rightarrow> run_row \<Rightarrow> bool" where
  "new_run org r \<longleftrightarrow> r_organisation_id r = org \<and> run_checks r \<and> r_status r = RInitiated"

definition new_job :: "db \<Rightarrow> int \<Rightarrow> job_row \<Rightarrow> bool" where
  "new_job d org j \<longleftrightarrow> j_organisation_id j = org \<and> job_checks j \<and> j_status j = JQueued
     \<and> j_lease_generation j = 0 \<and> j_attempt_count j = 0 \<and> j_max_attempts j = 3
     \<and> (\<exists>r \<in> set (runs d). r_id r = j_run_id j \<and> r_organisation_id r = j_organisation_id j)"

lemma change_refl [simp, intro]: "change R NR J NJ d d"
  by (simp add: change_def)

lemma distinct_key_eq: "distinct (map key xs) \<Longrightarrow> x \<in> set xs \<Longrightarrow> y \<in> set xs \<Longrightarrow> key x = key y \<Longrightarrow> x = y"
  by (auto simp: distinct_map dest: inj_onD)

lemma scoped_run_found:
  assumes "find P (scoped_runs c d) = Some r"
  shows "r \<in> set (runs d)" "r_organisation_id r = c_organisation_id c" "\<not> r_is_deleted r"
  using assms by (auto simp: find_Some_iff scoped_runs_def dest!: nth_mem)

lemma find_mem: "find P xs = Some x \<Longrightarrow> x \<in> set xs \<and> P x"
  by (auto simp: find_Some_iff)

lemma lock_run_found:
  "lock_run_for_update c i p d = Inr (Some r) \<Longrightarrow>
     r \<in> set (runs d) \<and> r_organisation_id r = c_organisation_id c \<and> \<not> r_is_deleted r"
  by (auto simp: lock_run_for_update_def dest: scoped_run_found split: option.splits)

text \<open>A loaded run written back: only that row changes, and its CHECK constraints hold.\<close>

lemma save_run_change:
  assumes "save_run now r' d = Inr d'" "distinct (map r_id (runs d))" "r \<in> set (runs d)"
    "r_id r' = r_id r" "run_checks (r'\<lparr>r_updated_at := now\<rparr>) \<Longrightarrow> K r (r'\<lparr>r_updated_at := now\<rparr>)"
  shows "change K NR J NJ d d'"
proof -
  have d': "d' = d\<lparr>runs := map (\<lambda>x. if r_id x = r_id r' then r'\<lparr>r_updated_at := now\<rparr> else x) (runs d)\<rparr>"
    and chk: "\<forall>x \<in> set (runs d). r_id x = r_id r' \<longrightarrow> run_checks (r'\<lparr>r_updated_at := now\<rparr>)"
    using assms(1) by (auto simp: save_run_def store_simps)
  have "grows K NR r_id (runs d) (runs d')"
    unfolding d' using assms(3-5) chk distinct_key_eq [OF assms(2)]
    by simp (rule grows_map, metis)
  then show ?thesis
    by (simp add: change_def d')
qed

lemma save_run_by:
  assumes "save_run now r' d = Inr d'" "distinct (map r_id (runs d))" "r \<in> set (runs d)"
    "r_organisation_id r = org" "r_id r' = r_id r"
    "run_checks (r'\<lparr>r_updated_at := now\<rparr>) \<Longrightarrow> run_kept r (r'\<lparr>r_updated_at := now\<rparr>)"
  shows "change (run_by org) NR J NJ d d'"
  by (rule save_run_change [OF assms(1-3,5)]) (use assms(4,6) in \<open>simp add: run_by_def\<close>)

lemma create_run_change:
  assumes "create_run gen c cfg now d = Inr (r, d')"
  shows "change R (new_run (c_organisation_id c)) J NJ d d'"
proof -
  have d': "d' = d\<lparr>runs := runs d @ [r]\<rparr>" and r: "r_id r = fresh_id (map r_id (runs d))"
    "r_organisation_id r = c_organisation_id c" "r_status r = RInitiated" "run_checks r"
    using assms by (auto simp: create_run_def store_simps dest!: insert_with_public_id_retry_InrD)
  have "r_id r \<notin> r_id ` set (runs d)"
    using fresh_id_notin [of "map r_id (runs d)"] r(1) by simp
  then show ?thesis
    by (simp add: change_def d' grows_snoc new_run_def r)
qed

lemma complete_run_change:
  assumes "complete_run c i h now d = Inr d'" "distinct (map r_id (runs d))"
  shows "change (run_by (c_organisation_id c)) NR J NJ d d'"
  using assms
  unfolding complete_run_def
  by (elim attemptE) (auto split: option.split_asm if_split_asm dest!: lock_run_found
      intro!: save_run_by simp: run_kept_def)

lemma fail_run_change:
  assumes "fail_run c i code summary now d = Inr d'" "distinct (map r_id (runs d))"
  shows "change (run_by (c_organisation_id c)) NR J NJ d d'"
  using assms
  unfolding fail_run_def
  by (elim attemptE) (auto split: option.split_asm if_split_asm dest!: lock_run_found
      intro!: save_run_by simp: run_kept_def)

lemma change_audit [simp]: "change R NR J NJ d (d1\<lparr>audit_events := es\<rparr>) = change R NR J NJ d d1"
  by (simp add: change_def)

lemma soft_delete_run_change:
  assumes "soft_delete_run gen c pid now d = Inr (b, d')" "distinct (map r_id (runs d))"
  shows "change (run_by (c_organisation_id c)) NR J NJ d d'"
proof -
  have "change (run_by (c_organisation_id c)) NR J NJ d d1"
    if "save_run now (r\<lparr>r_is_deleted := True, r_deleted_at := Some now\<rparr>) d = Inr d1"
      "r \<in> set (runs d)" "r_organisation_id r = c_organisation_id c" "\<not> r_legal_hold r"
    for r d1
    by (rule save_run_by [OF that(1) assms(2) that(2,3)])
       (use that in \<open>auto simp: run_kept_def\<close>)
  then show ?thesis
    using assms(1) unfolding soft_delete_run_def
    by (elim attemptE) (auto split: option.split_asm if_split_asm elim!: attemptE
        dest!: lock_run_found append_audit_event_InrD)
qed

lemma set_run_legal_hold_change:
  assumes "set_run_legal_hold gen c pid hold now d = Inr d'" "distinct (map r_id (runs d))"
  shows "change (run_by (c_organisation_id c)) NR J NJ d d'"
proof -
  have "change (run_by (c_organisation_id c)) NR J NJ d d1"
    if "save_run now (r\<lparr>r_legal_hold := hold\<rparr>) d = Inr d1"
      "r \<in> set (runs d)" "r_organisation_id r = c_organisation_id c"
    for r d1
    by (rule save_run_by [OF that(1) assms(2) that(2,3)])
       (use that in \<open>auto simp: run_kept_def\<close>)
  then show ?thesis
    using assms(1) unfolding set_run_legal_hold_def
    by (elim attemptE) (auto split: option.split_asm if_split_asm elim!: attemptE
        dest!: lock_run_found append_audit_event_InrD)
qed

lemma create_job_change:
  assumes "create_reconciliation_job gen c i 3 now d = Inr (j, d')"
  shows "change R NR J (new_job d (c_organisation_id c)) d d'"
proof -
  have d': "d' = d\<lparr>jobs := jobs d @ [j]\<rparr>" and id: "j_id j = fresh_id (map j_id (jobs d))"
    and new: "new_job d (c_organisation_id c) j"
    using assms
    by (auto simp: create_reconciliation_job_def store_simps new_job_def list_ex_iff
        dest!: insert_with_public_id_retry_InrD)
  have "j_id j \<notin> j_id ` set (jobs d)"
    using fresh_id_notin [of "map j_id (jobs d)"] id by simp
  then show ?thesis
    by (simp add: change_def d' grows_snoc new)
qed

subsection \<open>Job operations\<close>

lemma update_jobs_change:
  assumes "update_jobs P f d = Inr d'"
    "\<And>j. j \<in> set (jobs d) \<Longrightarrow> P j \<Longrightarrow> job_checks (f j) \<Longrightarrow> K j (f j)"
  shows "runs d' = runs d \<and> grows K NJ j_id (jobs d) (jobs d')"
  using assms unfolding update_jobs_def
  by (elim attemptE) (auto simp: store_simps intro!: grows_map)

lemma stop_run_change:
  assumes "stop_run sts code summary now found d = Inr d'" "distinct (map r_id (runs d))"
    "\<And>r. found = Some r \<Longrightarrow> r \<in> set (runs d) \<and> Q r" "sts \<subseteq> {RInitiated, RRunning}"
  shows "jobs d' = jobs d \<and>
    grows (\<lambda>r r'. Q r \<and> r_status r \<in> {RInitiated, RRunning} \<and> run_kept r r') NR r_id (runs d) (runs d')"
proof (cases "\<exists>r. found = Some r \<and> r_status r \<in> sts")
  case True
  then obtain r where r: "found = Some r" "r_status r \<in> sts"
    by blast
  have save: "save_run now (r\<lparr>r_status := RFailed, r_error_code := Some code,
      r_error_summary := Some summary, r_failed_at := Some now\<rparr>) d = Inr d'"
    using assms(1) r by (simp add: stop_run_def)
  have "change (\<lambda>r r'. Q r \<and> r_status r \<in> {RInitiated, RRunning} \<and> run_kept r r') NR
      (\<lambda>_ _. False) (\<lambda>_. False) d d'"
    by (rule save_run_change [OF save assms(2), where r = r])
       (use assms r in \<open>auto simp: run_kept_def\<close>)
  moreover have "jobs d' = jobs d"
    using assms(1) r by (auto simp: stop_run_def save_run_def elim!: attemptE)
  ultimately show ?thesis
    by (simp add: change_def)
next
  case False
  then show ?thesis
    using assms(1) by (auto simp: stop_run_def split: option.split_asm)
qed

lemma request_job_cancellation_change:
  assumes "request_job_cancellation c pid now d = Inr d'" "store_ok d"
  shows "change (run_by (c_organisation_id c)) NR (job_by (c_organisation_id c)) NJ d d'"
proof -
  have distinct: "distinct (map r_id (runs d))" "distinct (map j_id (jobs d))"
    using assms(2) by (simp_all add: store_ok_def)
  let ?mark = "\<lambda>j. j\<lparr>j_is_cancelled := True, j_cancelled_at := Some now,
    j_cancelled_by_principal_id := Some (c_principal_id c), j_updated_at := now\<rparr>"
  obtain job where job: "get_job_by_public_id c pid d = Some job"
    and cases: "d' = d \<or>
      j_status job = JQueued \<and> (\<exists>d1. update_jobs (\<lambda>j. j_id j = j_id job)
          (\<lambda>j. (?mark j)\<lparr>j_status := JCancelled, j_stage := ''completed''\<rparr>) d = Inr d1
        \<and> stop_run {RInitiated} ''job_cancelled''
            ''Reconciliation job was cancelled by user before execution'' now
            (get_run_by_id c (j_run_id job) d) d1 = Inr d')
      \<or> j_status job = JRunning \<and> update_jobs (\<lambda>j. j_id j = j_id job) ?mark d = Inr d'"
    using assms(1) unfolding request_job_cancellation_def Let_def
    by (elim attemptE) (cases "get_job_by_public_id c pid d",
        auto split: if_split_asm elim!: attemptE intro: job_status.exhaust)
  have mem: "job \<in> set (jobs d)" "j_organisation_id job = c_organisation_id c"
    using job by (auto simp: get_job_by_public_id_def scoped_jobs_def dest!: find_mem)
  have only: "j = job" if "j \<in> set (jobs d)" "j_id j = j_id job" for j
    using distinct_key_eq [OF distinct(2) that(1) mem(1) that(2)] .
  from cases consider "d' = d"
    | d1 where "j_status job = JQueued" "update_jobs (\<lambda>j. j_id j = j_id job)
          (\<lambda>j. (?mark j)\<lparr>j_status := JCancelled, j_stage := ''completed''\<rparr>) d = Inr d1"
        "stop_run {RInitiated} ''job_cancelled''
            ''Reconciliation job was cancelled by user before execution'' now
            (get_run_by_id c (j_run_id job) d) d1 = Inr d'"
    | "j_status job = JRunning" "update_jobs (\<lambda>j. j_id j = j_id job) ?mark d = Inr d'"
    by blast
  then show ?thesis
  proof cases
    case (2 d1)
    have jobs: "runs d1 = runs d \<and>
        grows (job_by (c_organisation_id c)) NJ j_id (jobs d) (jobs d1)"
      by (rule update_jobs_change [OF 2(2)])
         (auto dest!: only simp: job_by_def job_kept_def job_same_def mem 2(1))
    have "jobs d' = jobs d1 \<and>
        grows (\<lambda>r r'. r_organisation_id r = c_organisation_id c
          \<and> r_status r \<in> {RInitiated, RRunning} \<and> run_kept r r') NR r_id (runs d1) (runs d')"
      using jobs distinct(1)
      by (intro stop_run_change [OF 2(3)]) (auto simp: get_run_by_id_def dest: scoped_run_found)
    then show ?thesis
      using jobs by (auto simp: change_def run_by_def elim!: grows_mono)
  next
    case 3
    have "runs d' = runs d \<and> grows (job_by (c_organisation_id c)) NJ j_id (jobs d) (jobs d')"
      by (rule update_jobs_change [OF 3(2)])
         (auto dest!: only simp: job_by_def job_kept_def job_same_def mem 3(1))
    then show ?thesis
      by (simp add: change_def)
  qed simp
qed

lemmas tenant_changes = create_run_change complete_run_change fail_run_change
  soft_delete_run_change set_run_legal_hold_change create_job_change
  request_job_cancellation_change

lemma tenant_step_change:
  assumes "store_step dia d (ByTenant org) d'" "store_ok d"
  shows "change (run_by org) (new_run org) (job_by org) (new_job d org) d d'"
proof -
  have "distinct (map r_id (runs d))"
    using assms(2) by (simp add: store_ok_def)
  with assms show ?thesis
    by (elim tenant_stepE) (simp_all add: tenant_changes)
qed

text \<open>A claim changes the row it returns, and nothing when it returns no job.\<close>

lemma oldest_SomeD:
  assumes "oldest js = Some j"
  shows "j \<in> set js" "j' \<in> set js \<Longrightarrow> j_scheduled_at j \<le> j_scheduled_at j'"
proof -
  obtain x xs where js: "js = x # xs" and j: "j = max_by (\<lambda>j. - j_scheduled_at j) x xs"
    using assms by (cases js) (auto simp: oldest_def)
  show "j \<in> set js"
    using max_by_in [of "\<lambda>j. - j_scheduled_at j" x xs] by (simp add: js j)
  show "j_scheduled_at j \<le> j_scheduled_at j'" if "j' \<in> set js"
    using max_by_ge [of j' x xs "\<lambda>j. - j_scheduled_at j"] that by (simp add: js j)
qed

lemma oldest_None [simp]: "oldest js = None \<longleftrightarrow> js = []"
  by (cases js) (simp_all add: oldest_def)

lemma claim_row_None: "claim_row w tok secs now found d = Inr (None, d') \<longleftrightarrow> found = None \<and> d' = d"
  by (auto simp: claim_row_def store_simps split: option.split)

lemma claim_row_SomeD:
  assumes "claim_row w tok secs now found d = Inr (Some k, d')"
  obtains job where "found = Some job"
    "update_jobs (\<lambda>j. j_id j = j_id job) (claim_update w tok secs now) d = Inr d'"
    "k = \<lparr>k_job_id = j_id job, k_organisation_id = j_organisation_id job, k_run_id = j_run_id job,
          k_attempt_token = tok, k_lease_generation = j_lease_generation job + 1\<rparr>"
  using assms unfolding claim_row_def by (auto split: option.split_asm elim!: attemptE)

lemma claim_row_change:
  assumes "claim_row w tok secs now (oldest (filter E (jobs d))) d = Inr (Some k, d')" "store_ok d"
    "\<And>j. E j \<Longrightarrow> j_status j \<in> {JQueued, JRunning} \<and> \<not> j_is_cancelled j"
  shows "change R NR (job_claimed k) NJ d d'"
proof -
  obtain job where job: "oldest (filter E (jobs d)) = Some job"
    and upd: "update_jobs (\<lambda>j. j_id j = j_id job) (claim_update w tok secs now) d = Inr d'"
    and k: "k = \<lparr>k_job_id = j_id job, k_organisation_id = j_organisation_id job,
      k_run_id = j_run_id job, k_attempt_token = tok,
      k_lease_generation = j_lease_generation job + 1\<rparr>"
    using claim_row_SomeD [OF assms(1)] by blast
  have mem: "job \<in> set (jobs d)" "E job"
    using oldest_SomeD(1) [OF job] by simp_all
  have only: "j = job" if "j \<in> set (jobs d)" "j_id j = j_id job" for j
    using assms(2) distinct_key_eq [OF _ that(1) mem(1) that(2)] by (simp add: store_ok_def)
  have "runs d' = runs d \<and> grows (job_claimed k) NJ j_id (jobs d) (jobs d')"
    using assms(3) [OF mem(2)]
    by (intro update_jobs_change [OF upd])
       (auto dest!: only simp: job_claimed_def job_same_def claim_update_def k)
  then show ?thesis
    by (simp add: change_def)
qed

lemma claim_step_change:
  assumes "store_step dia d (Claimed (Some k)) d'" "store_ok d"
  shows "change R NR (job_claimed k) NJ d d'"
  using assms
  by (elim claim_stepE)
     (auto simp: claim_next_job_def fn_job_claim_next_def eligible_postgres_def eligible_sqlite_def
       split: dialect.split_asm elim!: claim_row_change)

lemma claim_step_None: "store_step dia d (Claimed None) d' \<Longrightarrow> d' = d"
  by (elim claim_stepE)
     (auto simp: claim_next_job_def fn_job_claim_next_def claim_row_None split: dialect.split_asm)

subsection \<open>Operations of a lease holder\<close>

definition job_held :: "dialect \<Rightarrow> int \<Rightarrow> string \<Rightarrow> int \<Rightarrow> job_row \<Rightarrow> job_row \<Rightarrow> bool" where
  "job_held dia i tok g j j' \<longleftrightarrow>
     fenced i tok g j \<and> job_kept j j' \<and> (dia = Postgres \<longrightarrow> j_status j = JRunning)"

definition run_held :: "dialect \<Rightarrow> db \<Rightarrow> int \<Rightarrow> string \<Rightarrow> int \<Rightarrow> run_row \<Rightarrow> run_row \<Rightarrow> bool" where
  "run_held dia d i tok g r r' \<longleftrightarrow>
     dia = Sqlite \<and> (\<exists>j \<in> set (jobs d). fenced i tok g j \<and> j_run_id j = r_id r)
     \<and> r_status r \<in> {RInitiated, RRunning} \<and> run_kept r r'"

lemma update_running_change:
  assumes "update_jobs P f d = Inr d'" "\<And>j. P j \<Longrightarrow> fenced_running i tok g j"
    "\<And>j. fenced_running i tok g j \<Longrightarrow> job_checks (f j) \<Longrightarrow> job_kept j (f j)"
  shows "change R NR (job_held dia i tok g) NJ d d'"
proof -
  have "runs d' = runs d \<and> grows (job_held dia i tok g) NJ j_id (jobs d) (jobs d')"
    by (rule update_jobs_change [OF assms(1)])
       (use assms(2,3) in \<open>auto simp: job_held_def fenced_running_def\<close>)
  then show ?thesis
    by (simp add: change_def)
qed

lemma fenced_update_change:
  assumes "fenced_update P f d = Inr (b, d')" "\<And>j. P j \<Longrightarrow> fenced_running i tok g j"
    "\<And>j. fenced_running i tok g j \<Longrightarrow> job_checks (f j) \<Longrightarrow> job_kept j (f j)"
  shows "change R NR (job_held dia i tok g) NJ d d'"
  using assms(1) unfolding fenced_update_def
  by (elim attemptE) (auto intro: update_running_change [OF _ assms(2,3)])

lemma sqlite_update_change:
  assumes "update_jobs (\<lambda>j. j_id j = j_id job) f d = Inr d1" "store_ok d"
    "find (\<lambda>j. j_id j = i) (jobs d) = Some job" "j_attempt_token job = Some tok"
    "j_lease_generation job = g" "job_checks (f job) \<Longrightarrow> job_kept job (f job)"
  shows "runs d1 = runs d \<and> grows (job_held Sqlite i tok g) NJ j_id (jobs d) (jobs d1)"
proof -
  have mem: "job \<in> set (jobs d)" "j_id job = i"
    using find_mem [OF assms(3)] by simp_all
  have only: "j = job" if "j \<in> set (jobs d)" "j_id j = j_id job" for j
    using assms(2) distinct_key_eq [OF _ that(1) mem(1) that(2)] by (simp add: store_ok_def)
  show ?thesis
    using assms(4-6) mem(2)
    by (intro update_jobs_change [OF assms(1)]) (auto dest!: only simp: job_held_def fenced_def)
qed

lemma sqlite_stop_change:
  assumes jobs: "runs d1 = runs d \<and> grows (job_held Sqlite i tok g) NJ j_id (jobs d) (jobs d1)"
    and stop: "stop_run {RInitiated, RRunning} code summary now
      (find (\<lambda>r. r_id r = j_run_id job) (runs d)) d1 = Inr d2"
    and job: "find (\<lambda>j. j_id j = i) (jobs d) = Some job" "j_attempt_token job = Some tok"
      "j_lease_generation job = g" and ok: "store_ok d"
  shows "change (run_held Sqlite d i tok g) NR (job_held Sqlite i tok g) NJ d d2"
proof -
  have "jobs d2 = jobs d1 \<and> grows (\<lambda>r r'. r_id r = j_run_id job
      \<and> r_status r \<in> {RInitiated, RRunning} \<and> run_kept r r') NR r_id (runs d1) (runs d2)"
    using jobs ok
    by (intro stop_run_change [OF stop]) (auto simp: store_ok_def dest: find_mem)
  moreover have "job \<in> set (jobs d)" "fenced i tok g job"
    using find_mem [OF job(1)] job(2,3) by (simp_all add: fenced_def)
  ultimately show ?thesis
    using jobs by (auto simp: change_def run_held_def elim!: grows_mono)
qed

lemma heartbeat_change:
  assumes "heartbeat_job dia i w tok g secs now d = Inr (b, d')"
  shows "change R NR (job_held dia i tok g) NJ d d'"
  using assms
  by (cases dia) (auto simp: heartbeat_job_def fn_job_heartbeat_def elim!: fenced_update_change,
      auto simp: job_kept_def job_same_def heartbeat_update_def fenced_running_def)

lemma transition_change:
  assumes "transition_job_stage dia i w tok g stage now d = Inr (b, d')"
  shows "change R NR (job_held dia i tok g) NJ d d'"
  using assms
  by (cases dia) (auto simp: transition_job_stage_def fn_job_transition_stage_def
      elim!: fenced_update_change, auto simp: job_kept_def job_same_def fenced_running_def)

lemma complete_job_change:
  assumes "complete_job_fenced c i tok g now d = Inr d'"
  shows "change R NR (job_held dia i tok g) NJ d d'"
  using assms unfolding complete_job_fenced_def Let_def
  by (elim attemptE) (auto split: if_split_asm elim!: update_running_change,
      auto simp: job_kept_def job_same_def)

lemma fn_complete_change:
  assumes "fn_job_complete i tok g now d = Inr (b, d')"
  shows "change R NR (job_held dia i tok g) NJ d d'"
  using assms unfolding fn_job_complete_def
  by (rule fenced_update_change) (auto simp: job_kept_def job_same_def)

lemma fail_job_change:
  assumes "fail_job dia i tok g code summary retry now d = Inr (res, d')" "store_ok d"
  shows "change (run_held dia d i tok g) NR (job_held dia i tok g) NJ d d'"
proof (cases dia)
  case Postgres
  with assms(1) obtain b where
    "fn_job_fail i tok g code (take 255 summary) retry now d = Inr (b, d')"
    by (auto simp: fail_job_def elim!: attemptE)
  then show ?thesis
    unfolding fn_job_fail_def
    by (rule fenced_update_change)
       (auto simp: job_kept_def job_same_def requeue_update_def split: if_splits)
next
  case Sqlite
  show ?thesis
  proof (cases "find (\<lambda>j. j_id j = i) (jobs d)")
    case None
    then show ?thesis
      using assms(1) by (simp add: fail_job_def Sqlite)
  next
    case (Some job)
    show ?thesis
    proof (cases "j_attempt_token job = Some tok \<and> j_lease_generation job = g")
      case False
      then show ?thesis
        using assms(1) Some by (simp add: fail_job_def Sqlite)
    next
      case True
      let ?perm = "\<lambda>j. j\<lparr>j_status := JFailed, j_failed_at := Some now, j_error_code := Some code,
        j_error_summary := Some (take 255 summary), j_stage := ''completed'', j_updated_at := now\<rparr>"
      show ?thesis
      proof (cases "\<not> retry \<or> j_max_attempts job \<le> j_attempt_count job")
        case perm: True
        then obtain d1 where upd: "update_jobs (\<lambda>j. j_id j = j_id job) ?perm d = Inr d1"
          and stop: "stop_run {RInitiated, RRunning} code (take 255 summary) now
            (find (\<lambda>r. r_id r = j_run_id job) (runs d)) d1 = Inr d'"
          using assms(1) Some True by (auto simp: fail_job_def Sqlite Let_def elim!: attemptE)
        have "runs d1 = runs d \<and> grows (job_held Sqlite i tok g) NJ j_id (jobs d) (jobs d1)"
          by (rule sqlite_update_change [OF upd assms(2) Some])
             (use True in \<open>simp_all add: job_kept_def job_same_def\<close>)
        from sqlite_stop_change [OF this stop Some _ _ assms(2)] True show ?thesis
          by (simp add: Sqlite)
      next
        case retry: False
        then have upd: "update_jobs (\<lambda>j. j_id j = j_id job) (requeue_update now) d = Inr d'"
          using assms(1) Some True by (auto simp: fail_job_def Sqlite Let_def elim!: attemptE)
        have "runs d' = runs d \<and> grows (job_held Sqlite i tok g) NJ j_id (jobs d) (jobs d')"
          by (rule sqlite_update_change [OF upd assms(2) Some])
             (use True retry in \<open>simp_all add: job_kept_def job_same_def requeue_update_def\<close>)
        then show ?thesis
          by (simp add: change_def Sqlite)
      qed
    qed
  qed
qed

lemma cancel_ack_change:
  assumes "cancel_ack_job dia i tok g now d = Inr (b, d')" "store_ok d"
  shows "change (run_held dia d i tok g) NR (job_held dia i tok g) NJ d d'"
proof (cases dia)
  case Postgres
  then show ?thesis
    using assms(1)
    by (auto simp: cancel_ack_job_def fn_job_cancel_ack_def elim!: fenced_update_change)
       (auto simp: job_kept_def job_same_def)
next
  case Sqlite
  show ?thesis
  proof (cases "\<exists>job. find (\<lambda>j. j_id j = i) (jobs d) = Some job
      \<and> j_attempt_token job = Some tok \<and> j_lease_generation job = g")
    case False
    then show ?thesis
      using assms(1) by (auto simp: cancel_ack_job_def Sqlite split: option.split_asm if_split_asm)
  next
    case True
    then obtain job where job: "find (\<lambda>j. j_id j = i) (jobs d) = Some job"
      "j_attempt_token job = Some tok" "j_lease_generation job = g"
      by blast
    let ?f = "\<lambda>j. j\<lparr>j_status := JCancelled, j_stage := ''completed'', j_updated_at := now\<rparr>"
    obtain d1 where upd: "update_jobs (\<lambda>j. j_id j = j_id job) ?f d = Inr d1"
      and stop: "stop_run {RInitiated, RRunning} ''job_cancelled''
        ''Reconciliation job was cancelled'' now
        (find (\<lambda>r. r_id r = j_run_id job) (runs d)) d1 = Inr d'"
      using assms(1) job by (auto simp: cancel_ack_job_def Sqlite elim!: attemptE)
    have "runs d1 = runs d \<and> grows (job_held Sqlite i tok g) NJ j_id (jobs d) (jobs d1)"
      by (rule sqlite_update_change [OF upd assms(2) job])
         (simp add: job_kept_def job_same_def)
    from sqlite_stop_change [OF this stop job assms(2)] show ?thesis
      by (simp add: Sqlite)
  qed
qed

lemma held_step_change:
  assumes "store_step dia d (Held i tok g) d'" "store_ok d"
  shows "change (run_held dia d i tok g) NR (job_held dia i tok g) NJ d d'"
  using assms
  by (elim held_stepE)
     (simp_all add: heartbeat_change transition_change complete_job_change fn_complete_change
       fail_job_change cancel_ack_change)

end
