(* ===== verification/JobQueue.thy ===== *)
theory JobQueue
  imports JobSafety
begin

section \<open>Properties of the job queue\<close>

text \<open>
  What the run and job repositories guarantee over any sequence of operations of tenants, workers
  and former workers, on both dialects. The contract of a store that hands out fenced leases is the
  locale \<open>leased_store\<close>; its consequences (a superseded lease is inert for ever, a job is claimed a
  bounded number of times) are proved there once, and the interpretation discharges its laws for
  the step relation of the repositories.
\<close>

fun claims :: "int \<Rightarrow> store_event list \<Rightarrow> nat" where
  "claims i [] = 0"
| "claims i (Claimed (Some k) # es) = (if k_job_id k = i then Suc (claims i es) else claims i es)"
| "claims i (e # es) = claims i es"

fun is_claim :: "int \<Rightarrow> store_event \<Rightarrow> bool" where
  "is_claim i (Claimed (Some k)) \<longleftrightarrow> k_job_id k = i"
| "is_claim i e \<longleftrightarrow> False"

lemma is_claim_iff: "is_claim i e \<longleftrightarrow> (\<exists>k. e = Claimed (Some k) \<and> k_job_id k = i)"
  by (cases "(i, e)" rule: is_claim.cases) auto

lemma claims_Cons: "claims i (e # es) = (if is_claim i e then 1 else 0) + claims i es"
  by (cases "(i, e # es)" rule: claims.cases) auto

locale leased_store =
  fixes step :: "'s \<Rightarrow> store_event \<Rightarrow> 's \<Rightarrow> bool"
    and ok :: "'s \<Rightarrow> bool"
    and generation :: "'s \<Rightarrow> int \<Rightarrow> int option"
    and bound :: "'s \<Rightarrow> int \<Rightarrow> int option"
  assumes ok_step: "step s e s' \<Longrightarrow> ok s \<Longrightarrow> ok s'"
    and generation_step: "step s e s' \<Longrightarrow> ok s \<Longrightarrow> generation s i = Some g \<Longrightarrow>
      \<exists>g'. generation s' i = Some g' \<and> g \<le> g'"
    and generation_claim: "step s (Claimed (Some k)) s' \<Longrightarrow> ok s \<Longrightarrow>
      generation s (k_job_id k) = Some (k_lease_generation k - 1)
      \<and> generation s' (k_job_id k) = Some (k_lease_generation k)"
    and held_fenced: "step s (Held i tok g) s' \<Longrightarrow> ok s \<Longrightarrow> generation s i \<noteq> Some g \<Longrightarrow> s' = s"
    and bound_step: "step s e s' \<Longrightarrow> ok s \<Longrightarrow> bound s i = Some m \<Longrightarrow> bound s' i = Some m"
    and within_bound: "ok s \<Longrightarrow> generation s i = Some g \<Longrightarrow> bound s i = Some m \<Longrightarrow> g \<le> m"
begin

lemma ok_trace: "trace step s es s' \<Longrightarrow> ok s \<Longrightarrow> ok s'"
  by (erule trace_invariant) (blast intro: ok_step)+

lemma generation_trace:
  "trace step s es s' \<Longrightarrow> ok s \<Longrightarrow> generation s i = Some g \<Longrightarrow>
     \<exists>g'. generation s' i = Some g' \<and> g \<le> g'"
proof (induction arbitrary: g rule: trace.induct)
  case (trace_Cons s e s1 es s2)
  obtain g1 where "generation s1 i = Some g1" "g \<le> g1"
    using generation_step [OF trace_Cons(1,4,5)] by blast
  with trace_Cons.IH [OF ok_step [OF trace_Cons(1,4)]] show ?case
    by fastforce
qed simp

lemma superseded_inert:
  assumes "ok s0" "step s0 (Claimed (Some k)) s1" "trace step s1 es s2"
    "step s2 (Claimed (Some k')) s3" "k_job_id k' = k_job_id k" "trace step s3 es' s4"
    "step s4 (Held (k_job_id k) tok (k_lease_generation k)) s5"
  shows "s5 = s4"
proof -
  have ok: "ok s1" "ok s2" "ok s3" "ok s4"
    using assms ok_step ok_trace by blast+
  have "k_lease_generation k \<le> k_lease_generation k' - 1"
    using generation_trace [OF assms(3) ok(1)] generation_claim [OF assms(2,1)]
      generation_claim [OF assms(4) ok(2)] assms(5) by fastforce
  moreover obtain g where "generation s4 (k_job_id k) = Some g" "k_lease_generation k' \<le> g"
    using generation_trace [OF assms(6) ok(3)] generation_claim [OF assms(4) ok(2)] assms(5)
    by fastforce
  ultimately show ?thesis
    using held_fenced [OF assms(7) ok(4)] by simp
qed

lemma claims_trace:
  "trace step s es s' \<Longrightarrow> ok s \<Longrightarrow> generation s i = Some g \<Longrightarrow>
     \<exists>g'. generation s' i = Some g' \<and> g + int (claims i es) \<le> g'"
proof (induction arbitrary: g rule: trace.induct)
  case (trace_Cons s e s1 es s2)
  obtain g1 where g1: "generation s1 i = Some g1" "g + (if is_claim i e then 1 else 0) \<le> g1"
  proof (cases "is_claim i e")
    case True
    then show ?thesis
      using generation_claim [OF _ trace_Cons(4)] trace_Cons(1,5) that
      by (fastforce simp: is_claim_iff)
  next
    case False
    then show ?thesis
      using generation_step [OF trace_Cons(1,4,5)] that by fastforce
  qed
  obtain g' where "generation s2 i = Some g'" "g1 + int (claims i es) \<le> g'"
    using trace_Cons.IH [OF ok_step [OF trace_Cons(1,4)] g1(1)] by blast
  then show ?case
    using g1(2) by (simp add: claims_Cons split: if_split_asm)
qed simp

lemma claims_bounded:
  assumes "ok s" "trace step s es s'" "generation s i = Some g" "bound s i = Some m"
  shows "int (claims i es) \<le> m - g"
proof -
  have "bound s' i = Some m"
    using assms(2,1,4) by (induction rule: trace.induct) (auto intro: bound_step ok_step)
  then show ?thesis
    using claims_trace [OF assms(2,1,3)] within_bound [OF ok_trace [OF assms(2,1)]] by fastforce
qed

end

subsection \<open>The repositories keep their invariant\<close>

definition job_grown :: "job_row \<Rightarrow> job_row \<Rightarrow> bool" where
  "job_grown j j' \<longleftrightarrow>
     job_same j j' \<and> job_checks j' \<and> j_lease_generation j \<le> j_lease_generation j'
     \<and> j_lease_generation j' - j_attempt_count j' = j_lease_generation j - j_attempt_count j
     \<and> (j_status j' = JQueued \<longrightarrow>
          j_attempt_count j' = j_attempt_count j
          \<and> (j_status j = JQueued \<or> j_attempt_count j < j_max_attempts j))"

lemma job_grownI:
  "job_by org j j' \<Longrightarrow> job_grown j j'" "job_held dia i tok g j j' \<Longrightarrow> job_grown j j'"
  "job_claimed k j j' \<Longrightarrow> job_grown j j'"
  by (auto simp: job_by_def job_held_def job_claimed_def job_kept_def job_grown_def)

lemma change_mono:
  assumes "change R NR J NJ d d'" "\<And>r r'. R r r' \<Longrightarrow> R' r r'" "\<And>r. NR r \<Longrightarrow> NR' r"
    "\<And>j j'. J j j' \<Longrightarrow> J' j j'" "\<And>j. NJ j \<Longrightarrow> NJ' j"
  shows "change R' NR' J' NJ' d d'"
proof -
  have "grows R' NR' r_id (runs d) (runs d')" "grows J' NJ' j_id (jobs d) (jobs d')"
    using assms(1) unfolding change_def
    by (auto elim!: grows_mono intro: assms(2-5))
  then show ?thesis
    by (simp add: change_def)
qed

lemma step_change:
  assumes "store_step dia d e d'" "store_ok d"
  shows "change run_kept run_checks job_grown (\<lambda>j. \<exists>org. new_job d org j) d d'"
proof (cases e)
  case (ByTenant org)
  show ?thesis
    by (rule change_mono [OF tenant_step_change [OF assms [unfolded ByTenant]]])
       (auto simp: run_by_def new_run_def intro: job_grownI)
next
  case (Claimed k)
  show ?thesis
  proof (cases k)
    case None
    then show ?thesis
      using claim_step_None assms(1) Claimed by blast
  next
    case (Some k)
    show ?thesis
      by (rule change_mono [OF claim_step_change [OF assms [unfolded Claimed Some],
            where R = run_kept and NR = run_checks and NJ = "\<lambda>_. False"]])
         (auto intro: job_grownI)
  qed
next
  case (Held i tok g)
  show ?thesis
    by (rule change_mono [OF held_step_change [OF assms [unfolded Held],
          where NR = run_checks and NJ = "\<lambda>_. False"]])
       (auto simp: run_held_def intro: job_grownI)
qed

definition generation :: "db \<Rightarrow> int \<Rightarrow> int option" where
  "generation d i = map_option j_lease_generation (find (\<lambda>j. j_id j = i) (jobs d))"

definition attempts_allowed :: "db \<Rightarrow> int \<Rightarrow> int option" where
  "attempts_allowed d i = map_option j_max_attempts (find (\<lambda>j. j_id j = i) (jobs d))"

lemma find_unique:
  assumes "distinct (map key xs)" "x \<in> set xs"
  shows "find (\<lambda>y. key y = key x) xs = Some x"
  using assms by (induction xs) (auto simp: image_iff)

lemma store_ok_find:
  "store_ok d \<Longrightarrow> j \<in> set (jobs d) \<Longrightarrow> find (\<lambda>x. j_id x = j_id j) (jobs d) = Some j"
  by (rule find_unique) (simp_all add: store_ok_def)

lemma step_store_ok:
  assumes "store_step dia d e d'" "store_ok d"
  shows "store_ok d'"
proof -
  have runs: "grows run_kept run_checks r_id (runs d) (runs d')"
    and jobs: "grows job_grown (\<lambda>j. \<exists>org. new_job d org j) j_id (jobs d) (jobs d')"
    using step_change [OF assms] by (simp_all add: change_def)
  have "distinct (map r_id (runs d'))" "distinct (map j_id (jobs d'))"
    using grows_distinct [OF runs] grows_distinct [OF jobs] assms(2)
    by (auto simp: store_ok_def run_kept_def job_grown_def job_same_def)
  moreover have "run_checks r'" if "r' \<in> set (runs d')" for r'
    using grows_new [OF runs that] assms(2) by (auto simp: store_ok_def run_kept_def)
  moreover have fk: "\<exists>r' \<in> set (runs d'). r_id r' = r_id r \<and> r_organisation_id r' = r_organisation_id r"
    if "r \<in> set (runs d)" for r
    using grows_old [OF runs that] by (auto simp: run_kept_def)
  moreover have "job_checks j' \<and> j_lease_generation j' = j_attempt_count j'
      \<and> (j_status j' = JQueued \<longrightarrow> j_attempt_count j' < j_max_attempts j')
      \<and> (\<exists>r \<in> set (runs d). r_id r = j_run_id j' \<and> r_organisation_id r = j_organisation_id j')"
    if mem: "j' \<in> set (jobs d')" for j'
  proof -
    consider "j' \<in> set (jobs d)" | j where "j \<in> set (jobs d)" "job_grown j j'"
      | org where "new_job d org j'"
      using grows_new [OF jobs mem] by blast
    then show ?thesis
    proof cases
      case 1
      then show ?thesis
        using assms(2) by (simp add: store_ok_def)
    next
      case (2 j)
      then show ?thesis
        using assms(2) by (auto simp: store_ok_def job_grown_def job_same_def)
    next
      case (3 org)
      then show ?thesis
        by (auto simp: new_job_def)
    qed
  qed
  ultimately show ?thesis
    unfolding store_ok_def by (metis fk)
qed

lemma step_job:
  assumes "store_step dia d e d'" "store_ok d" "j \<in> set (jobs d)"
  obtains j' where "j' \<in> set (jobs d')" "j' = j \<or> job_grown j j'"
  using grows_old [OF _ assms(3)] step_change [OF assms(1,2)] unfolding change_def by blast

text \<open>Worker operations touch no other table.\<close>

definition frame :: "db \<Rightarrow> db \<Rightarrow> bool" where
  "frame d d' \<longleftrightarrow> d' = d\<lparr>runs := runs d', jobs := jobs d'\<rparr>"

lemma frame_refl [simp]: "frame d d"
  by (simp add: frame_def)

lemma frame_trans: "frame d d1 \<Longrightarrow> frame d1 d2 \<Longrightarrow> frame d d2"
  by (cases d; cases d1; cases d2) (simp add: frame_def)

lemma update_jobs_frame: "update_jobs P f d = Inr d' \<Longrightarrow> frame d d'"
  by (auto simp: update_jobs_def frame_def elim!: attemptE)

lemma stop_run_frame: "stop_run sts code summary now found d = Inr d' \<Longrightarrow> frame d d'"
  by (auto simp: stop_run_def save_run_def frame_def elim!: attemptE split: option.split_asm if_split_asm)

lemma fenced_update_frame: "fenced_update P f d = Inr (b, d') \<Longrightarrow> frame d d'"
  by (auto simp: fenced_update_def elim!: attemptE dest: update_jobs_frame)

lemmas frames = frame_refl update_jobs_frame stop_run_frame fenced_update_frame

lemma fail_job_frame: "fail_job dia i tok g code summary retry now d = Inr (res, d') \<Longrightarrow> frame d d'"
  unfolding fail_job_def fn_job_fail_def Let_def
  by (auto split: dialect.split_asm option.split_asm if_split_asm elim!: attemptE
      dest!: frames(2-4) intro: frame_trans)

lemma cancel_ack_frame: "cancel_ack_job dia i tok g now d = Inr (b, d') \<Longrightarrow> frame d d'"
  unfolding cancel_ack_job_def fn_job_cancel_ack_def
  by (auto split: dialect.split_asm option.split_asm if_split_asm elim!: attemptE
      dest!: frames(2-4) intro: frame_trans)

lemma complete_job_frame: "complete_job_fenced c i tok g now d = Inr d' \<Longrightarrow> frame d d'"
  unfolding complete_job_fenced_def Let_def
  by (auto split: if_split_asm elim!: attemptE dest!: frames(2-4))

lemma held_step_frame: "store_step dia d (Held i tok g) d' \<Longrightarrow> frame d d'"
  by (elim held_stepE)
     (auto simp: heartbeat_job_def fn_job_heartbeat_def transition_job_stage_def
       fn_job_transition_stage_def fn_job_complete_def split: dialect.split_asm
       intro: fail_job_frame cancel_ack_frame complete_job_frame fenced_update_frame)

lemma grows_unchanged:
  assumes "grows K (\<lambda>_. False) key xs ys" "\<And>x y. x \<in> set xs \<Longrightarrow> \<not> K x y"
  shows "ys = xs"
proof -
  obtain old where "ys = old" "list_all2 (\<lambda>x y. y = x \<or> K x y) xs old"
    using growsE [OF assms(1)] by (metis append_Nil2 list.set_intros(1) neq_Nil_conv)
  then have "list_all2 (\<lambda>x y. y = x) xs ys"
    using assms(2) by (auto elim: list.rel_mono_strong)
  then show ?thesis
    by (simp add: list_all2_conv_all_nth nth_equalityI)
qed

lemma held_step_inert:
  assumes "store_step dia d (Held i tok g) d'" "store_ok d" "generation d i \<noteq> Some g"
  shows "d' = d"
proof -
  have unfenced: "\<not> fenced i tok g j" if "j \<in> set (jobs d)" for j
    using store_ok_find [OF assms(2) that] assms(3) by (auto simp: generation_def fenced_def)
  have "change (run_held dia d i tok g) (\<lambda>_. False) (job_held dia i tok g) (\<lambda>_. False) d d'"
    using held_step_change [OF assms(1,2)] .
  then have "runs d' = runs d" "jobs d' = jobs d"
    unfolding change_def using unfenced
    by (auto intro!: grows_unchanged simp: run_held_def job_held_def)
  then show ?thesis
    using held_step_frame [OF assms(1)] by (simp add: frame_def)
qed

lemma claim_row_generation:
  assumes "claim_row w tok secs now (oldest (filter E (jobs d))) d = Inr (Some k, d')" "store_ok d"
  shows "generation d (k_job_id k) = Some (k_lease_generation k - 1)
    \<and> generation d' (k_job_id k) = Some (k_lease_generation k)"
proof -
  obtain job where job: "oldest (filter E (jobs d)) = Some job"
    and upd: "update_jobs (\<lambda>j. j_id j = j_id job) (claim_update w tok secs now) d = Inr d'"
    and k: "k = \<lparr>k_job_id = j_id job, k_organisation_id = j_organisation_id job,
      k_run_id = j_run_id job, k_attempt_token = tok,
      k_lease_generation = j_lease_generation job + 1\<rparr>"
    using claim_row_SomeD [OF assms(1)] by blast
  have mem: "job \<in> set (jobs d)"
    using oldest_SomeD(1) [OF job] by simp
  have "jobs d' = map (\<lambda>j. if j_id j = j_id job then claim_update w tok secs now j else j) (jobs d)"
    using upd by (auto simp: update_jobs_def update_where_Inr elim!: attemptE)
  moreover have "find (\<lambda>j. j_id j = j_id job) (map (\<lambda>j. if j_id j = j_id job
      then claim_update w tok secs now j else j) js) =
      map_option (claim_update w tok secs now) (find (\<lambda>j. j_id j = j_id job) js)" for js
    by (induction js) (auto simp: claim_update_def)
  ultimately show ?thesis
    using store_ok_find [OF assms(2) mem] by (simp add: generation_def k claim_update_def)
qed

lemma claim_step_generation:
  assumes "store_step dia d (Claimed (Some k)) d'" "store_ok d"
  shows "generation d (k_job_id k) = Some (k_lease_generation k - 1)
    \<and> generation d' (k_job_id k) = Some (k_lease_generation k)"
  using assms
  by (elim claim_stepE)
     (auto simp: claim_next_job_def fn_job_claim_next_def split: dialect.split_asm
       dest: claim_row_generation)

lemma generation_SomeD:
  assumes "generation d i = Some g"
  obtains j where "j \<in> set (jobs d)" "j_id j = i" "j_lease_generation j = g"
    "attempts_allowed d i = Some (j_max_attempts j)"
  using assms by (auto simp: generation_def attempts_allowed_def dest: find_mem)

lemma generation_eq:
  assumes "store_ok d" "j \<in> set (jobs d)"
  shows "generation d (j_id j) = Some (j_lease_generation j)"
    "attempts_allowed d (j_id j) = Some (j_max_attempts j)"
  using store_ok_find [OF assms] by (simp_all add: generation_def attempts_allowed_def)

lemma step_generation:
  assumes "store_step dia d e d'" "store_ok d" "generation d i = Some g"
  shows "\<exists>g'. generation d' i = Some g' \<and> g \<le> g'"
    "attempts_allowed d i = Some m \<Longrightarrow> attempts_allowed d' i = Some m"
proof -
  obtain j where j: "j \<in> set (jobs d)" "j_id j = i" "j_lease_generation j = g"
    and m: "attempts_allowed d i = Some (j_max_attempts j)"
    using generation_SomeD [OF assms(3)] by blast
  obtain j' where j': "j' \<in> set (jobs d')" "j' = j \<or> job_grown j j'"
    using step_job [OF assms(1,2) j(1)] .
  note ok' = generation_eq [OF step_store_ok [OF assms(1,2)] j'(1)]
  show "\<exists>g'. generation d' i = Some g' \<and> g \<le> g'"
    using ok' j' j by (auto simp: job_grown_def job_same_def)
  show "attempts_allowed d i = Some m \<Longrightarrow> attempts_allowed d' i = Some m"
    using ok' j' j m by (auto simp: job_grown_def job_same_def)
qed

interpretation queue: leased_store "store_step dia" store_ok generation attempts_allowed for dia
proof
  fix d e d' i m
  assume "store_step dia d e d'" "store_ok d" "attempts_allowed d i = Some m"
  moreover from this have "\<exists>g. generation d i = Some g"
    by (auto simp: attempts_allowed_def generation_def)
  ultimately show "attempts_allowed d' i = Some m"
    using step_generation(2) by blast
next
  fix d i g m
  assume ok: "store_ok d" and "generation d i = Some g" "attempts_allowed d i = Some m"
  then obtain j where "j \<in> set (jobs d)" "j_lease_generation j = g" "j_max_attempts j = m"
    using generation_SomeD by (metis option.inject)
  then show "g \<le> m"
    using ok by (auto simp: store_ok_def job_checks_def)
qed (use step_store_ok step_generation(1) claim_step_generation held_step_inert in blast)+

subsection \<open>A worked queue\<close>

text \<open>
  One organisation, one run with its job, claimed by a first worker at time 0 and, its lease of 60
  seconds expired, by a second one.
\<close>

definition demo_ctx :: tenant_context where
  "demo_ctx = \<lparr>c_organisation_id = 1, c_principal_id = 7, c_role = OPERATOR, c_request_id = ''''\<rparr>"

definition demo_member :: membership_row where
  "demo_member = \<lparr>m_organisation_id = 1, m_principal_id = 7, m_role_code = ''operator'',
     m_status = ''active''\<rparr>"

definition demo_empty :: db where
  "demo_empty = \<lparr>runs = [], jobs = [], memberships = [demo_member], audit_events = [],
     idempotency_records = []\<rparr>"

definition demo_run :: run_row where
  "demo_run = \<lparr>r_id = 1, r_public_id = ''run_a'', r_organisation_id = 1,
     r_created_by_principal_id = 7, r_status = RInitiated, r_reconciliation_hash = None,
     r_bank_statement_hash = None, r_recon_report_hash = None, r_order_ledger_hash = None,
     r_evidence_pack_id = None, r_evidence_pack_version = None, r_config_json = ''{}'',
     r_error_code = None, r_error_summary = None, r_started_at = 0, r_completed_at = None,
     r_failed_at = None, r_is_deleted = False, r_deleted_at = None,
     r_reporting_period_start = None, r_reporting_period_end = None, r_legal_hold = False,
     r_created_at = 0, r_updated_at = 0\<rparr>"

definition demo_job :: job_row where
  "demo_job = \<lparr>j_id = 1, j_public_id = ''job_a'', j_organisation_id = 1, j_run_id = 1,
     j_created_by_principal_id = 7, j_status = JQueued, j_stage = ''queued'', j_worker_id = None,
     j_attempt_token = None, j_lease_generation = 0, j_attempt_count = 0, j_max_attempts = 3,
     j_lease_expires_at = None, j_last_heartbeat_at = None, j_scheduled_at = 0,
     j_started_at = None, j_completed_at = None, j_failed_at = None, j_error_code = None,
     j_error_summary = None, j_is_cancelled = False, j_cancelled_at = None,
     j_cancelled_by_principal_id = None, j_created_at = 0, j_updated_at = 0\<rparr>"

definition demo_queued :: db where
  "demo_queued = demo_empty\<lparr>runs := [demo_run], jobs := [demo_job]\<rparr>"

definition demo_held :: db where
  "demo_held = demo_queued\<lparr>jobs := [claim_update ''w1'' ''tok1'' 60 0 demo_job]\<rparr>"

definition demo_taken :: db where
  "demo_taken = demo_queued\<lparr>jobs := [claim_update ''w2'' ''tok2'' 60 70000000
     (claim_update ''w1'' ''tok1'' 60 0 demo_job)]\<rparr>"

definition demo_claim :: "string \<Rightarrow> int \<Rightarrow> claimed_job" where
  "demo_claim tok g = \<lparr>k_job_id = 1, k_organisation_id = 1, k_run_id = 1, k_attempt_token = tok,
     k_lease_generation = g\<rparr>"

lemmas demo_defs = demo_ctx_def demo_member_def demo_empty_def demo_run_def demo_job_def
  demo_queued_def demo_held_def demo_taken_def demo_claim_def

lemma demo_create_run:
  "create_run (\<lambda>_. ''run_a'') demo_ctx ''{}'' 0 demo_empty
   = Inr (demo_run, demo_empty\<lparr>runs := [demo_run]\<rparr>)"
  by code_simp

lemma demo_create_job:
  "create_reconciliation_job (\<lambda>_. ''job_a'') demo_ctx 1 3 0 (demo_empty\<lparr>runs := [demo_run]\<rparr>)
   = Inr (demo_job, demo_queued)"
  by code_simp

lemma demo_first_claim:
  "claim_next_job Postgres [] ''w1'' 60 ''tok1'' 0 demo_queued = Inr (Some (demo_claim ''tok1'' 1), demo_held)"
  "claim_next_job Sqlite [] ''w1'' 60 ''tok1'' 0 demo_queued = Inr (Some (demo_claim ''tok1'' 1), demo_held)"
  by code_simp+

lemma demo_second_claim:
  "claim_next_job Postgres [] ''w2'' 60 ''tok2'' 70000000 demo_held
   = Inr (Some (demo_claim ''tok2'' 2), demo_taken)"
  by code_simp

lemma demo_created:
  "trace (store_step dia) demo_empty [ByTenant 1, ByTenant 1] demo_queued"
  using step_create_run [OF demo_create_run] step_create_job [OF demo_create_job]
  by (auto simp: trace_Cons_iff demo_ctx_def)

lemma empty_store_ok: "runs d = [] \<Longrightarrow> jobs d = [] \<Longrightarrow> store_ok d"
  by (simp add: store_ok_def)

lemma demo_ok: "store_ok demo_queued" "store_ok demo_held" "store_ok demo_taken"
proof -
  show q: "store_ok demo_queued"
    by (rule queue.ok_trace [OF demo_created [where dia = Postgres]])
       (simp add: empty_store_ok demo_empty_def)
  show h: "store_ok demo_held"
    by (rule step_store_ok [OF step_claim [OF demo_first_claim(1)] q])
  show "store_ok demo_taken"
    by (rule step_store_ok [OF step_claim [OF demo_second_claim] h])
qed

subsection \<open>Properties\<close>

text \<open>
  C7. The invariant of the queue. From a store without runs and jobs, any sequence of operations of
  tenants, workers and former workers, on either dialect, keeps primary keys unique and every CHECK
  constraint true, counts an attempt for each lease generation, leaves no queued job without an
  attempt, and keeps every job attached to a run of its own organisation.
\<close>

theorem store_invariant:
  assumes "runs d0 = []" "jobs d0 = []" "trace (store_step dia) d0 es d"
  shows "distinct (map r_id (runs d)) \<and> distinct (map j_id (jobs d))
    \<and> (\<forall>r \<in> set (runs d). run_checks r)
    \<and> (\<forall>j \<in> set (jobs d). job_checks j \<and> j_lease_generation j = j_attempt_count j
         \<and> (j_status j = JQueued \<longrightarrow> j_attempt_count j < j_max_attempts j)
         \<and> (\<exists>r \<in> set (runs d). r_id r = j_run_id j \<and> r_organisation_id r = j_organisation_id j))"
  using queue.ok_trace [OF assms(3) empty_store_ok [OF assms(1,2)]] unfolding store_ok_def .

theorem store_invariant_witness:
  "distinct (map j_id (jobs demo_queued)) \<and> job_checks demo_job
   \<and> j_lease_generation demo_job = j_attempt_count demo_job"
  using store_invariant [OF _ _ demo_created [where dia = Postgres]]
  by (simp add: demo_defs)

text \<open>
  C6. Fencing. Once a job that was claimed has been claimed again, no operation that carries the
  first lease (heartbeat, stage change, completion, failure, cancellation acknowledgement, with any
  token) changes the database any more, whatever happens in between or afterwards, on either
  dialect.
\<close>

theorem superseded_lease_inert:
  assumes "store_ok d0" "store_step dia d0 (Claimed (Some k)) d1" "trace (store_step dia) d1 es d2"
    "store_step dia d2 (Claimed (Some k')) d3" "k_job_id k' = k_job_id k"
    "trace (store_step dia) d3 es' d4"
    "store_step dia d4 (Held (k_job_id k) tok (k_lease_generation k)) d5"
  shows "d5 = d4"
  using assms by (rule queue.superseded_inert)

lemma demo_stale_fail:
  "\<exists>res d'. fail_job Postgres 1 ''tok1'' 1 ''E'' ''late'' True 80000000 demo_taken = Inr (res, d')"
  by (simp add: fail_job_def fn_job_fail_def fenced_update_def update_jobs_def update_where_def
      fenced_running_def fenced_def demo_taken_def demo_queued_def demo_empty_def claim_update_def)

theorem superseded_lease_inert_witness:
  "\<exists>res. fail_job Postgres 1 ''tok1'' 1 ''E'' ''late'' True 80000000 demo_taken
     = Inr (res, demo_taken)"
proof -
  obtain res d' where "fail_job Postgres 1 ''tok1'' 1 ''E'' ''late'' True 80000000 demo_taken
      = Inr (res, d')"
    using demo_stale_fail by blast
  moreover have "d' = demo_taken"
    by (rule superseded_lease_inert [OF demo_ok(1) step_claim [OF demo_first_claim(1)] trace_Nil
          step_claim [OF demo_second_claim] _ trace_Nil])
       (use step_fail_job [OF calculation] in \<open>simp_all add: demo_claim_def\<close>)
  ultimately show ?thesis
    by blast
qed

text \<open>
  C16. Retries end. In any sequence of operations from a consistent store, a job is claimed at most
  as often as its attempts allow: its maximum less the attempts already counted.
\<close>

theorem claims_end:
  assumes "store_ok d" "trace (store_step dia) d es d'" "j \<in> set (jobs d)"
  shows "int (claims (j_id j) es) \<le> j_max_attempts j - j_attempt_count j"
proof -
  have "j_lease_generation j = j_attempt_count j"
    using assms(1,3) by (simp add: store_ok_def)
  then show ?thesis
    using queue.claims_bounded [OF assms(1,2) generation_eq [OF assms(1,3)]] by simp
qed

theorem claims_end_witness:
  "int (claims 1 [Claimed (Some (demo_claim ''tok1'' 1)), Claimed (Some (demo_claim ''tok2'' 2))])
     \<le> 3 - 0"
proof -
  have "trace (store_step Postgres) demo_queued
      [Claimed (Some (demo_claim ''tok1'' 1)), Claimed (Some (demo_claim ''tok2'' 2))] demo_taken"
    using step_claim [OF demo_first_claim(1)] step_claim [OF demo_second_claim]
    by (auto simp: trace_Cons_iff)
  from claims_end [OF demo_ok(1) this, of demo_job] show ?thesis
    by (simp add: demo_queued_def demo_job_def)
qed

lemma claim_dialects:
  assumes "store_ok d"
  shows "claim_next_job Sqlite locked w secs tok now d = claim_next_job Postgres [] w secs tok now d"
proof -
  have "eligible_sqlite now j = eligible_postgres [] now j" if "j \<in> set (jobs d)" for j
    using assms that by (auto simp: eligible_sqlite_def eligible_postgres_def store_ok_def)
  then have "filter (eligible_sqlite now) (jobs d) = filter (eligible_postgres [] now) (jobs d)"
    by (rule filter_cong [OF refl])
  then show ?thesis
    by (simp add: claim_next_job_def fn_job_claim_next_def)
qed

text \<open>
  C17. The SQLite emulation of the claim query omits the attempt limit for queued jobs; on every
  consistent store it nevertheless picks the same job and leaves the same database as the
  PostgreSQL function does when no row is locked.
\<close>

theorem claim_dialects_agree:
  assumes "store_ok d"
  shows "claim_next_job Sqlite locked w secs tok now d = claim_next_job Postgres [] w secs tok now d"
  using assms by (rule claim_dialects)

theorem claim_dialects_agree_witness:
  "claim_next_job Sqlite [] ''w2'' 60 ''tok2'' 70000000 demo_held
   = Inr (Some (demo_claim ''tok2'' 2), demo_taken)"
  using claim_dialects_agree [OF demo_ok(2)] demo_second_claim by simp

end
