(* ===== verification/JobOutcomes.thy ===== *)
theory JobOutcomes
  imports JobQueue
begin

section \<open>Outcomes of runs and jobs\<close>

text \<open>
  Where jobs and runs can end up: final states, protected runs, tenant isolation, and which jobs
  make progress. The proofs read off the change relations of the previous theories.
\<close>

subsection \<open>Final jobs\<close>

definition final :: "job_row \<Rightarrow> bool" where
  "final j \<longleftrightarrow> j_status j \<in> {JCompleted, JFailed, JCancelled}"

lemma postgres_step_final:
  assumes "store_step Postgres d e d'" "store_ok d" "j \<in> set (jobs d)" "final j"
  shows "j \<in> set (jobs d')"
proof -
  have keep: "j \<in> set (jobs d')"
    if "change R NR J NJ d d'" "\<And>j'. \<not> J j j'" for R NR J NJ
    using grows_old [OF _ assms(3)] that unfolding change_def by blast
  show ?thesis
  proof (cases e)
    case (ByTenant org)
    show ?thesis
      by (rule keep [OF tenant_step_change [OF assms(1,2) [unfolded ByTenant]]])
         (use assms(4) in \<open>auto simp: job_by_def final_def\<close>)
  next
    case (Claimed k)
    show ?thesis
    proof (cases k)
      case None
      then show ?thesis
        using assms(1,3) Claimed claim_step_None by blast
    next
      case (Some k)
      show ?thesis
        by (rule keep [OF claim_step_change [OF assms(1,2) [unfolded Claimed Some]]])
           (use assms(4) in \<open>auto simp: job_claimed_def final_def\<close>)
    qed
  next
    case (Held i tok g)
    show ?thesis
      by (rule keep [OF held_step_change [OF assms(1,2) [unfolded Held]]])
         (use assms(4) in \<open>auto simp: job_held_def final_def\<close>)
  qed
qed

text \<open>
  On PostgreSQL the final states are final: a completed, failed or cancelled job row is never
  changed again by any sequence of operations.
\<close>

theorem postgres_final_jobs_unchanged:
  assumes "store_ok d" "trace (store_step Postgres) d es d'" "j \<in> set (jobs d)"
    "j_status j \<in> {JCompleted, JFailed, JCancelled}"
  shows "j \<in> set (jobs d')"
  using assms(2,1,3)
proof (induction rule: trace.induct)
  case (trace_Cons s e s1 es s2)
  then show ?case
    using postgres_step_final step_store_ok assms(4) by (metis final_def)
qed simp

definition demo_done_job :: job_row where
  "demo_done_job = (claim_update ''w1'' ''tok1'' 60 0 demo_job)\<lparr>j_status := JCompleted,
     j_stage := ''completed'', j_completed_at := Some 5, j_updated_at := 5\<rparr>"

definition demo_done :: db where
  "demo_done = demo_held\<lparr>jobs := [demo_done_job]\<rparr>"

lemma demo_complete: "complete_job_fenced demo_ctx 1 ''tok1'' 1 5 demo_held = Inr demo_done"
  by code_simp

lemma demo_done_ok: "store_ok demo_done"
  by (rule step_store_ok [OF step_complete_job [OF demo_complete, where dia = Postgres] demo_ok(2)])

theorem postgres_final_jobs_unchanged_witness:
  "\<exists>res d'. fail_job Postgres 1 ''tok1'' 1 ''EXECUTION_FAILURE'' ''late'' True 6 demo_done = Inr (res, d')
     \<and> demo_done_job \<in> set (jobs d')"
proof -
  have "\<exists>res d'. fail_job Postgres 1 ''tok1'' 1 ''EXECUTION_FAILURE'' ''late'' True 6 demo_done
      = Inr (res, d')"
    by (simp add: fail_job_def fn_job_fail_def fenced_update_def update_jobs_def update_where_def
        fenced_running_def demo_done_def demo_done_job_def demo_held_def demo_queued_def
        demo_empty_def)
  then obtain res d' where fail: "fail_job Postgres 1 ''tok1'' 1 ''EXECUTION_FAILURE'' ''late'' True 6
      demo_done = Inr (res, d')"
    by blast
  have "trace (store_step Postgres) demo_done [Held 1 ''tok1'' 1] d'"
    using step_fail_job [OF fail] by (simp add: trace_Cons_iff)
  from postgres_final_jobs_unchanged [OF demo_done_ok this, of demo_done_job] fail show ?thesis
    by (simp add: demo_done_def demo_done_job_def)
qed

text \<open>
  The SQLite emulation does not check the status: a worker that reports a retryable error after
  its completion was committed puts the completed job back into the queue.
\<close>

theorem sqlite_reopens_completed_job:
  "complete_job_fenced demo_ctx 1 ''tok1'' 1 5 demo_held = Inr demo_done
   \<and> map j_status (jobs demo_done) = [JCompleted]
   \<and> (\<exists>res d'. fail_job Sqlite 1 ''tok1'' 1 ''EXECUTION_FAILURE'' ''late'' True 6 demo_done
        = Inr (res, d') \<and> map j_status (jobs d') = [JQueued])"
proof -
  have "fail_job Sqlite 1 ''tok1'' 1 ''EXECUTION_FAILURE'' ''late'' True 6 demo_done
      = Inr (\<lparr>is_permanent_failure = False, new_status = ''queued'', new_attempt_count = 1\<rparr>,
             demo_done\<lparr>jobs := [requeue_update 6 demo_done_job]\<rparr>)"
    by code_simp
  moreover have "j_status (requeue_update 6 demo_done_job) = JQueued"
    by (simp add: requeue_update_def)
  ultimately show ?thesis
    by (simp add: demo_complete demo_done_def demo_done_job_def)
qed

subsection \<open>Protected runs\<close>

text \<open>
  C19. No operation of a tenant or worker, on either dialect, changes what a completed run recorded:
  only its deletion, legal-hold and update marks may differ. A failed or aborted run never becomes
  completed, and a run on legal hold is not deleted; a deleted run stays deleted.
\<close>

theorem runs_protected:
  assumes "store_ok d" "store_step dia d e d'" "r \<in> set (runs d)"
  shows "\<exists>r' \<in> set (runs d'). r_id r' = r_id r \<and> r_organisation_id r' = r_organisation_id r
    \<and> (r_status r = RCompleted \<longrightarrow>
         r' = r\<lparr>r_is_deleted := r_is_deleted r', r_deleted_at := r_deleted_at r',
                r_legal_hold := r_legal_hold r', r_updated_at := r_updated_at r'\<rparr>)
    \<and> (r_status r \<in> {RFailed, RAborted} \<longrightarrow> r_status r' \<noteq> RCompleted)
    \<and> (r_legal_hold r \<and> \<not> r_is_deleted r \<longrightarrow> \<not> r_is_deleted r')
    \<and> (r_is_deleted r \<longrightarrow> r_is_deleted r')"
proof -
  obtain r' where r': "r' \<in> set (runs d')" "r' = r \<or> run_kept r r'"
    using grows_old [OF _ assms(3)] step_change [OF assms(2,1)] unfolding change_def by blast
  show ?thesis
  proof (rule bexI [OF _ r'(1)], cases "r' = r")
    case False
    then have "run_kept r r'"
      using r'(2) by blast
    then show "r_id r' = r_id r \<and> r_organisation_id r' = r_organisation_id r
      \<and> (r_status r = RCompleted \<longrightarrow>
           r' = r\<lparr>r_is_deleted := r_is_deleted r', r_deleted_at := r_deleted_at r',
                  r_legal_hold := r_legal_hold r', r_updated_at := r_updated_at r'\<rparr>)
      \<and> (r_status r \<in> {RFailed, RAborted} \<longrightarrow> r_status r' \<noteq> RCompleted)
      \<and> (r_legal_hold r \<and> \<not> r_is_deleted r \<longrightarrow> \<not> r_is_deleted r')
      \<and> (r_is_deleted r \<longrightarrow> r_is_deleted r')"
      unfolding run_kept_def by (elim conjE, intro conjI) (assumption | blast | force)+
  qed auto
qed

definition demo_closed :: db where
  "demo_closed = demo_queued\<lparr>runs := [demo_run\<lparr>r_status := RCompleted, r_completed_at := Some 5,
     r_updated_at := 5\<rparr>]\<rparr>"

definition no_hashes :: run_hashes where
  "no_hashes = \<lparr>h_reconciliation_hash = None, h_bank_statement_hash = None,
     h_recon_report_hash = None, h_order_ledger_hash = None, h_evidence_pack_id = None,
     h_evidence_pack_version = None\<rparr>"

lemma demo_closes: "complete_run demo_ctx 1 no_hashes 5 demo_queued = Inr demo_closed"
  by code_simp

lemma demo_closed_fail: "fail_run demo_ctx 1 ''E'' ''late'' 6 demo_closed = Inr demo_closed"
  by code_simp

lemma demo_closed_ok: "store_ok demo_closed"
  by (rule step_store_ok [OF step_complete_run [OF demo_closes, where dia = Postgres] demo_ok(1)])

theorem runs_protected_witness:
  "\<exists>r' \<in> set (runs demo_closed). r_id r' = 1 \<and> r_completed_at r' = Some 5"
proof -
  have mem: "demo_run\<lparr>r_status := RCompleted, r_completed_at := Some 5, r_updated_at := 5\<rparr>
      \<in> set (runs demo_closed)"
    by (simp add: demo_closed_def)
  obtain r' where r': "r' \<in> set (runs demo_closed)" "r_id r' = 1"
    "r' = demo_run\<lparr>r_status := RCompleted, r_completed_at := Some 5, r_updated_at := r_updated_at r',
       r_is_deleted := r_is_deleted r', r_deleted_at := r_deleted_at r',
       r_legal_hold := r_legal_hold r'\<rparr>"
    using runs_protected [OF demo_closed_ok step_fail_run [OF demo_closed_fail, where dia = Sqlite] mem]
    by (auto simp: demo_run_def)
  have "r_completed_at r' = Some 5"
    by (subst r'(3)) simp
  with r'(1,2) show ?thesis
    by blast
qed

subsection \<open>Tenant isolation\<close>

definition tenant_view :: "int \<Rightarrow> db \<Rightarrow> run_row list \<times> job_row list \<times> audit_row list" where
  "tenant_view org d =
    (filter (\<lambda>r. r_organisation_id r = org) (runs d),
     filter (\<lambda>j. j_organisation_id j = org) (jobs d),
     filter (\<lambda>e. e_organisation_id e = org) (audit_events d))"

lemma grows_filter:
  assumes "grows K N key xs ys" "\<And>x y. x \<in> set xs \<Longrightarrow> K x y \<Longrightarrow> \<not> P x \<and> \<not> P y" "\<And>y. N y \<Longrightarrow> \<not> P y"
  shows "filter P ys = filter P xs"
proof -
  obtain old new where ys: "ys = old @ new" "list_all2 (\<lambda>x y. y = x \<or> K x y) xs old"
    "\<And>y. y \<in> set new \<Longrightarrow> N y \<and> key y \<notin> key ` set xs"
    using growsE [OF assms(1)] by blast
  have "filter P old = filter P xs"
    using ys(2) assms(2) by (induction rule: list_all2_induct) auto
  moreover have "filter P new = []"
    using ys(3) assms(3) by (auto simp: filter_empty_conv)
  ultimately show ?thesis
    by (simp add: ys(1))
qed

lemma frame_audit: "frame d d' \<Longrightarrow> audit_events d' = audit_events d"
  by (cases d; cases d') (simp add: frame_def)

lemma audit_frame:
  assumes "store_step dia d (ByTenant org) d'"
  shows "\<exists>es. audit_events d' = audit_events d @ es \<and> (\<forall>e \<in> set es. e_organisation_id e = org)"
proof -
  have save: "audit_events d1 = audit_events d" if "save_run now r d = Inr d1" for now r d1
    using that by (auto simp: save_run_def elim!: attemptE)
  have upd: "audit_events d1 = audit_events d" if "update_jobs P f d = Inr d1" for P f d1
    using update_jobs_frame [OF that] by (rule frame_audit)
  have stop: "audit_events d2 = audit_events d1"
    if "stop_run sts code summary now found d1 = Inr d2" for sts code summary now found d1 d2
    using stop_run_frame [OF that] by (rule frame_audit)
  have delete: ?thesis if "soft_delete_run gen c pid now d = Inr (b, d')" "org = c_organisation_id c"
    for gen c pid now b
    using that unfolding soft_delete_run_def
    by (auto split: option.split_asm if_split_asm elim!: attemptE dest!: append_audit_event_InrD save)
  have hold: ?thesis
    if "set_run_legal_hold gen c pid hold now d = Inr d'" "org = c_organisation_id c"
    for gen c pid hold now
    using that unfolding set_run_legal_hold_def
    by (auto split: option.split_asm if_split_asm elim!: attemptE dest!: append_audit_event_InrD save)
  have cancel: ?thesis if "request_job_cancellation c pid now d = Inr d'" for c pid now
    using that unfolding request_job_cancellation_def Let_def
    by (auto split: option.split_asm if_split_asm elim!: attemptE dest!: upd stop)
  have complete: ?thesis if "complete_run c i h now d = Inr d'" for c i h now
    using that unfolding complete_run_def
    by (auto split: option.split_asm if_split_asm elim!: attemptE dest!: save)
  have fail: ?thesis if "fail_run c i code summary now d = Inr d'" for c i code summary now
    using that unfolding fail_run_def
    by (auto split: option.split_asm if_split_asm elim!: attemptE dest!: save)
  have create: ?thesis if "create_run gen c cfg now d = Inr (r, d')" for gen c cfg now r
    using that unfolding create_run_def by (auto elim!: attemptE)
  have enqueue: ?thesis if "create_reconciliation_job gen c i m now d = Inr (j, d')"
    for gen c i m now j
    using that unfolding create_reconciliation_job_def by (auto elim!: attemptE)
  from assms show ?thesis
    by (rule tenant_stepE)
       (erule create complete fail enqueue cancel | (erule delete hold, assumption))+
qed

text \<open>
  C8. Tenant isolation. An operation in the context of one organisation leaves every run, job and
  audit event of every other organisation as it is, on either dialect.
\<close>

theorem tenants_isolated:
  assumes "store_ok d" "store_step dia d (ByTenant org) d'" "other \<noteq> org"
  shows "tenant_view other d' = tenant_view other d"
proof -
  have change: "change (run_by org) (new_run org) (job_by org) (new_job d org) d d'"
    by (rule tenant_step_change [OF assms(2,1)])
  have "filter (\<lambda>r. r_organisation_id r = other) (runs d')
      = filter (\<lambda>r. r_organisation_id r = other) (runs d)"
    using change assms(3) unfolding change_def
    by (intro grows_filter [of "run_by org" "new_run org" r_id])
       (auto simp: run_by_def run_kept_def new_run_def)
  moreover have "filter (\<lambda>j. j_organisation_id j = other) (jobs d')
      = filter (\<lambda>j. j_organisation_id j = other) (jobs d)"
    using change assms(3) unfolding change_def
    by (intro grows_filter [of "job_by org" "new_job d org" j_id])
       (auto simp: job_by_def job_kept_def job_same_def new_job_def)
  moreover have "filter (\<lambda>e. e_organisation_id e = other) (audit_events d')
      = filter (\<lambda>e. e_organisation_id e = other) (audit_events d)"
    using audit_frame [OF assms(2)] assms(3) by (auto simp: filter_empty_conv)
  ultimately show ?thesis
    by (simp add: tenant_view_def)
qed

theorem tenants_isolated_witness:
  "tenant_view 2 demo_closed = tenant_view 2 demo_queued"
  using tenants_isolated [OF demo_ok(1) step_complete_run [OF demo_closes, where dia = Sqlite], of 2]
  by (simp add: demo_ctx_def)

subsection \<open>Progress\<close>

text \<open>The jobs a claim may take: queued or with an expired lease, not cancelled, attempts left.\<close>

definition claimable :: "int \<Rightarrow> job_row \<Rightarrow> bool" where
  "claimable now j \<longleftrightarrow>
     (j_status j = JQueued \<or> j_status j = JRunning \<and> expired now j)
     \<and> j_attempt_count j < j_max_attempts j \<and> \<not> j_is_cancelled j"

lemma claim_update_checks:
  assumes "job_checks j" "j_status j \<in> {JQueued, JRunning}" "j_attempt_count j < j_max_attempts j"
  shows "job_checks (claim_update w tok secs now j)"
  using assms by (auto simp: job_checks_def claim_update_def job_stages_def split: option.split)

text \<open>
  C18. Progress and order. On a consistent store with no locked rows a claim never raises; it
  returns no job exactly when none is claimable, and otherwise a claimable one such that none is
  scheduled earlier.
\<close>

theorem claim_progress:
  assumes "store_ok d"
  shows "\<exists>k d'. claim_next_job dia [] w secs tok now d = Inr (k, d')
    \<and> (k = None \<longleftrightarrow> (\<forall>j \<in> set (jobs d). \<not> claimable now j))
    \<and> (\<forall>k'. k = Some k' \<longrightarrow> (\<exists>j \<in> set (jobs d). j_id j = k_job_id k' \<and> claimable now j
         \<and> (\<forall>i \<in> set (jobs d). claimable now i \<longrightarrow> j_scheduled_at j \<le> j_scheduled_at i)))"
proof -
  have elig: "eligible_postgres [] now = claimable now"
    by (simp add: fun_eq_iff eligible_postgres_def claimable_def)
  have "claim_next_job dia [] w secs tok now d = claim_next_job Postgres [] w secs tok now d"
    using claim_dialects [OF assms] by (cases dia) simp_all
  then have claim: "claim_next_job dia [] w secs tok now d
      = claim_row w tok secs now (oldest (filter (claimable now) (jobs d))) d"
    by (simp add: claim_next_job_def fn_job_claim_next_def elig)
  show ?thesis
  proof (cases "oldest (filter (claimable now) (jobs d))")
    case None
    then have "\<forall>j \<in> set (jobs d). \<not> claimable now j"
      by (simp add: filter_empty_conv)
    then show ?thesis
      unfolding claim None claim_row_def by simp
  next
    case (Some job)
    then have job: "job \<in> set (jobs d)" "claimable now job"
      and first: "\<And>i. i \<in> set (jobs d) \<Longrightarrow> claimable now i \<Longrightarrow> j_scheduled_at job \<le> j_scheduled_at i"
      using oldest_SomeD [OF Some] by auto
    have "\<forall>j \<in> set (jobs d). j_id j = j_id job \<longrightarrow> job_checks (claim_update w tok secs now j)"
      using assms job distinct_key_eq [of j_id "jobs d"]
      by (auto simp: store_ok_def claimable_def intro!: claim_update_checks)
    then obtain d' where "update_jobs (\<lambda>j. j_id j = j_id job) (claim_update w tok secs now) d = Inr d'"
      by (auto simp: update_jobs_def update_where_def list_all_iff)
    then have "claim_next_job dia [] w secs tok now d
        = Inr (Some \<lparr>k_job_id = j_id job, k_organisation_id = j_organisation_id job,
             k_run_id = j_run_id job, k_attempt_token = tok,
             k_lease_generation = j_lease_generation job + 1\<rparr>, d')"
      by (simp add: claim Some claim_row_def)
    then show ?thesis
      by (intro exI conjI, assumption) (use job first in auto)
  qed
qed

theorem claim_progress_witness:
  "\<exists>k d'. claim_next_job Sqlite [] ''w1'' 60 ''tok1'' 0 demo_queued = Inr (Some k, d')"
proof -
  have "demo_job \<in> set (jobs demo_queued)" "claimable 0 demo_job"
    by (simp_all add: demo_queued_def claimable_def demo_job_def)
  then show ?thesis
    using claim_progress [OF demo_ok(1), of Sqlite "''w1''" 60 "''tok1''" 0] by auto
qed

text \<open>
  A job whose worker disappeared: it is running and has no attempt left or is cancelled. \<open>abandoned\<close>
  fixes its lease.
\<close>

definition abandoned :: "int \<Rightarrow> int \<Rightarrow> job_row \<Rightarrow> bool" where
  "abandoned i g j \<longleftrightarrow> j_id j = i \<and> j_lease_generation j = g \<and> j_status j = JRunning
     \<and> (j_is_cancelled j \<or> j_attempt_count j = j_max_attempts j)"

lemma abandoned_step:
  assumes "store_step dia d e d'" "store_ok d" "j \<in> set (jobs d)" "abandoned i g j"
    "\<And>tok. e \<noteq> Held i tok g"
  shows "\<exists>j' \<in> set (jobs d'). abandoned i g j'"
proof -
  have keep: "\<exists>j' \<in> set (jobs d'). abandoned i g j'"
    if "change R NR J NJ d d'" "\<And>j'. J j j' \<Longrightarrow> abandoned i g j'" for R NR J NJ
    using grows_old [OF _ assms(3)] that assms(4) unfolding change_def by blast
  show ?thesis
  proof (cases e)
    case (ByTenant org)
    show ?thesis
      by (rule keep [OF tenant_step_change [OF assms(1,2) [unfolded ByTenant]]])
         (use assms(4) in \<open>auto simp: job_by_def job_kept_def job_same_def abandoned_def\<close>)
  next
    case (Claimed k)
    show ?thesis
    proof (cases k)
      case None
      then show ?thesis
        using assms(1,3,4) Claimed claim_step_None by blast
    next
      case (Some k)
      show ?thesis
        by (rule keep [OF claim_step_change [OF assms(1,2) [unfolded Claimed Some]]])
           (use assms(4) in \<open>auto simp: job_claimed_def job_same_def abandoned_def job_checks_def\<close>)
    qed
  next
    case (Held i' tok g')
    show ?thesis
      by (rule keep [OF held_step_change [OF assms(1,2) [unfolded Held]]])
         (use assms(4,5) Held in \<open>auto simp: job_held_def fenced_def abandoned_def\<close>)
  qed
qed

text \<open>
  Nothing reaps an abandoned job. A running job that is cancelled or on its last attempt stays
  running for ever unless an operation carrying its own lease arrives: no claim takes it over when
  the lease expires, and neither a cancellation request nor any other operation ends it.
\<close>

theorem abandoned_job_stuck:
  assumes "store_ok d" "trace (store_step dia) d es d'" "j \<in> set (jobs d)" "j_status j = JRunning"
    "j_is_cancelled j \<or> j_attempt_count j = j_max_attempts j"
    "\<forall>tok. Held (j_id j) tok (j_lease_generation j) \<notin> set es"
  shows "\<exists>j' \<in> set (jobs d'). j_id j' = j_id j \<and> j_status j' = JRunning"
proof -
  let ?i = "j_id j" and ?g = "j_lease_generation j"
  have "\<exists>j' \<in> set (jobs d'). abandoned ?i ?g j'"
    if "\<exists>j' \<in> set (jobs d). abandoned ?i ?g j'"
    using assms(2,1,6) that
  proof (induction rule: trace.induct)
    case (trace_Cons s e s1 es s2)
    then have "\<exists>j' \<in> set (jobs s1). abandoned ?i ?g j'"
      using abandoned_step [OF trace_Cons(1)] by (metis list.set_intros(1))
    with trace_Cons step_store_ok show ?case
      by simp
  qed
  moreover have "abandoned ?i ?g j"
    using assms(4,5) by (simp add: abandoned_def)
  ultimately show ?thesis
    using assms(3) by (auto simp: abandoned_def)
qed

definition demo_cancelled :: db where
  "demo_cancelled = demo_held\<lparr>jobs := [(claim_update ''w1'' ''tok1'' 60 0 demo_job)\<lparr>
     j_is_cancelled := True, j_cancelled_at := Some 9, j_cancelled_by_principal_id := Some 7,
     j_updated_at := 9\<rparr>]\<rparr>"

lemma demo_cancels: "request_job_cancellation demo_ctx ''job_a'' 9 demo_held = Inr demo_cancelled"
  by code_simp

lemma demo_cancelled_claim:
  "claim_next_job Postgres [] ''w2'' 60 ''tok2'' 70000000 demo_cancelled = Inr (None, demo_cancelled)"
  by code_simp

theorem abandoned_job_stuck_witness:
  "\<exists>j' \<in> set (jobs demo_cancelled). j_id j' = 1 \<and> j_status j' = JRunning"
proof -
  have ok: "store_ok demo_cancelled"
    by (rule step_store_ok [OF step_cancel_job [OF demo_cancels, where dia = Postgres] demo_ok(2)])
  have "trace (store_step Postgres) demo_cancelled [Claimed None] demo_cancelled"
    using step_claim [OF demo_cancelled_claim] by (simp add: trace_Cons_iff)
  from abandoned_job_stuck [OF ok this, of "hd (jobs demo_cancelled)"] show ?thesis
    by (simp add: demo_cancelled_def claim_update_def demo_job_def)
qed

subsection \<open>Listings\<close>

lemma scoped_keys_distinct:
  "store_ok d \<Longrightarrow> distinct (map (\<lambda>j. (j_created_at j, j_id j)) (scoped_jobs c d))"
  "store_ok d \<Longrightarrow> distinct (map (\<lambda>r. (r_created_at r, r_id r))
     (filter (\<lambda>r. \<not> r_is_deleted r) (scoped_runs c d)))"
  by (auto simp: store_ok_def distinct_map scoped_jobs_def scoped_runs_def intro!: inj_onI
      dest: inj_onD)

text \<open>
  Pagination. Following the cursors of a listing with any positive page size ends within one
  more page than there are rows, and the pages together are exactly the jobs (and the undeleted
  runs) of the organisation, each once, newest first by creation time and id.
\<close>

theorem pages_enumerate_listing:
  assumes "store_ok d" "0 < lim"
  shows "follow_pages (length (scoped_jobs c d) + 1) (\<lambda>cur. list_jobs c lim cur d) None
      = Some (rev (sort_key (\<lambda>j. (j_created_at j, j_id j)) (scoped_jobs c d)))
    \<and> follow_pages (length (scoped_runs c d) + 1) (\<lambda>cur. list_runs_cursor c lim cur d) None
      = Some (rev (sort_key (\<lambda>r. (r_created_at r, r_id r)) (scoped_runs c d)))"
proof -
  have undeleted: "filter (\<lambda>r. \<not> r_is_deleted r) (scoped_runs c d) = scoped_runs c d"
    by (simp add: scoped_runs_def)
  show ?thesis
    using follow_pages_complete [OF scoped_keys_distinct(1) [OF assms(1), of c] assms(2) less_add_one]
      follow_pages_complete [OF scoped_keys_distinct(2) [OF assms(1), of c] assms(2) less_add_one]
    unfolding list_jobs_def list_runs_cursor_def order_desc_def undeleted by (rule conjI)
qed

theorem pages_enumerate_listing_witness:
  "follow_pages 2 (\<lambda>cur. list_jobs demo_ctx 1 cur demo_queued) None = Some [demo_job]"
  using pages_enumerate_listing [OF demo_ok(1), of 1 demo_ctx]
  by (simp add: scoped_jobs_def demo_queued_def demo_ctx_def demo_job_def numeral_2_eq_2)

subsection \<open>Dialect differences\<close>

text \<open>
  The PostgreSQL check of a job's creator joins on a column that no migration creates: it raises for
  every holder of a running lease, whatever the memberships are.
\<close>

lemma postgres_revalidation_fails:
  assumes "j \<in> set (jobs d)" "fenced_running i tok g j"
  shows "revalidate_job_creator Postgres i tok g d = Inl (UndefinedColumn ''role_id'')"
proof -
  have "find (fenced_running i tok g) (jobs d) \<noteq> None"
    using assms by (auto simp: find_None_iff)
  then show ?thesis
    by (auto simp: revalidate_job_creator_def fn_job_revalidate_creator_def membership_columns_def)
qed

text \<open>
  The PostgreSQL functions leave the run alone when its job fails or is cancelled; the emulation
  fails the run of a job that failed for good.
\<close>

lemma postgres_failed_job_keeps_run:
  "fail_job Postgres i tok g code summary retry now d = Inr (res, d') \<Longrightarrow> runs d' = runs d"
  "cancel_ack_job Postgres i tok g now d = Inr (b, d') \<Longrightarrow> runs d' = runs d"
  by (auto simp: fail_job_def fn_job_fail_def cancel_ack_job_def fn_job_cancel_ack_def
      fenced_update_def update_jobs_def elim!: attemptE)

lemma sqlite_failed_job_fails_run:
  "map r_status (runs (snd (projr (fail_job Sqlite 1 ''tok1'' 1 ''E'' ''bad'' False 6 demo_held))))
   = [RFailed]"
  by code_simp

end
