(* ===== verification/Idempotency.thy ===== *)
theory Idempotency
  imports JobOutcomes
begin

section \<open>Idempotency records\<close>

text \<open>
  \<open>persistence/repositories/idempotency.py\<close>: the request digest and the tenant-scoped table of
  replayable responses. SHA-256 and the JSON text of the extra parameters are arguments. Another
  request that won the race for a key shows up as its committed row: the insertion then fails on the
  unique constraint and the winner is replayed or reported as a collision.
\<close>

definition compute_request_hash ::
  "(char list \<Rightarrow> char list) \<Rightarrow> (char list \<Rightarrow> string) \<Rightarrow> char list \<Rightarrow> char list \<Rightarrow> char list
   \<Rightarrow> string option \<Rightarrow> string" where
  "compute_request_hash digest hexdigest bank recon ledger params =
    hexdigest (''BANK:'' @ digest bank @ ''RECON:'' @ digest recon @ ''LEDGER:'' @ digest ledger
      @ (case params of None \<Rightarrow> [] | Some p \<Rightarrow> ''PARAMS:'' @ p))"

definition check_key :: "string \<Rightarrow> db_error + unit" where
  "check_key key = (if key = '''' then Inl ValueError
     else if 64 < length key then Inl ValueError else Inr ())"

definition scoped_record :: "tenant_context \<Rightarrow> string \<Rightarrow> db \<Rightarrow> idempotency_row option" where
  "scoped_record c key d = find (\<lambda>r. i_organisation_id r = c_organisation_id c
     \<and> i_idempotency_key r = key) (idempotency_records d)"

definition get_idempotency_record ::
  "tenant_context \<Rightarrow> string \<Rightarrow> int \<Rightarrow> db \<Rightarrow> db_error + idempotency_row option" where
  "get_idempotency_record c key now d =
    attempt (check_key key) (\<lambda>_.
      case scoped_record c key d of
        None \<Rightarrow> Inr None
      | Some rec \<Rightarrow> if i_expires_at rec < now then Inr None else Inr (Some rec))"

definition idempotency_checks :: "idempotency_row \<Rightarrow> bool" where
  "idempotency_checks r \<longleftrightarrow> hex_hash_check 64 (Some (i_request_hash r))"

definition idempotency_fk :: "db \<Rightarrow> idempotency_row \<Rightarrow> bool" where
  "idempotency_fk d r \<longleftrightarrow>
     list_ex (\<lambda>j. j_id j = i_job_id r) (jobs d) \<and> list_ex (\<lambda>x. r_id x = i_run_id r) (runs d)"

text \<open>Expired keys are reusable: the old row is deleted in the same transaction.\<close>

definition drop_expired :: "tenant_context \<Rightarrow> string \<Rightarrow> int \<Rightarrow> db \<Rightarrow> db" where
  "drop_expired c key now d =
    (case scoped_record c key d of
       None \<Rightarrow> d
     | Some old \<Rightarrow>
         if i_expires_at old < now
         then d\<lparr>idempotency_records := remove1 old (idempotency_records d)\<rparr> else d)"

definition save_idempotency_record ::
  "tenant_context \<Rightarrow> string \<Rightarrow> string \<Rightarrow> int \<Rightarrow> int \<Rightarrow> int \<Rightarrow> string \<Rightarrow> int \<Rightarrow> int \<Rightarrow> db
   \<Rightarrow> db_error + (idempotency_row \<times> db)" where
  "save_idempotency_record c key hash job_id run_id code response ttl_hours now d =
    attempt (check_key key) (\<lambda>_.
      if ttl_hours \<le> 0 then Inl ValueError
      else
        let d1 = drop_expired c key now d;
            rec = \<lparr>i_organisation_id = c_organisation_id c, i_idempotency_key = key,
                   i_request_hash = hash, i_job_id = job_id, i_run_id = run_id,
                   i_response_status_code = code, i_response_json = response,
                   i_created_at = now, i_expires_at = now + ttl_hours * 3600000000\<rparr>
        in if idempotency_checks rec \<and> scoped_record c key d1 = None \<and> idempotency_fk d1 rec
           then Inr (rec, d1\<lparr>idempotency_records := idempotency_records d1 @ [rec]\<rparr>)
           else (case scoped_record c key d1 of
               Some winner \<Rightarrow>
                 if i_request_hash winner \<noteq> hash then Inl IdempotencyCollisionError
                 else Inr (winner, d1)
             | None \<Rightarrow> Inl IntegrityError))"

definition keys_unique :: "db \<Rightarrow> bool" where
  "keys_unique d \<longleftrightarrow>
     distinct (map (\<lambda>r. (i_organisation_id r, i_idempotency_key r)) (idempotency_records d))"

subsection \<open>Replay\<close>

lemma scoped_record_SomeD:
  "scoped_record c key d = Some r \<Longrightarrow> r \<in> set (idempotency_records d)
     \<and> i_organisation_id r = c_organisation_id c \<and> i_idempotency_key r = key"
  unfolding scoped_record_def by (drule find_mem) simp

lemma scoped_record_None:
  "scoped_record c key d = None \<longleftrightarrow> (\<forall>r \<in> set (idempotency_records d).
     \<not> (i_organisation_id r = c_organisation_id c \<and> i_idempotency_key r = key))"
  by (auto simp: scoped_record_def find_None_iff)

lemma scoped_record_unique:
  assumes "keys_unique d" "r \<in> set (idempotency_records d)"
    "i_organisation_id r = c_organisation_id c" "i_idempotency_key r = key"
  shows "scoped_record c key d = Some r"
  using find_unique [of "\<lambda>r. (i_organisation_id r, i_idempotency_key r)" "idempotency_records d" r]
    assms by (simp add: scoped_record_def keys_unique_def)

lemma keys_unique_drop: "keys_unique d \<Longrightarrow> keys_unique (drop_expired c key now d)"
  by (auto simp: keys_unique_def drop_expired_def distinct_map split: option.split
      elim: inj_on_subset)

lemma drop_expired_record:
  assumes "keys_unique d"
  shows "scoped_record c key (drop_expired c key now d) =
    (case scoped_record c key d of
       None \<Rightarrow> None | Some old \<Rightarrow> if i_expires_at old < now then None else Some old)"
proof (cases "scoped_record c key d")
  case (Some old)
  have "scoped_record c key (d\<lparr>idempotency_records := remove1 old (idempotency_records d)\<rparr>) = None"
  proof -
    have "distinct (idempotency_records d)"
      using assms by (simp add: keys_unique_def distinct_map)
    moreover have "r = old" if "r \<in> set (idempotency_records d)"
      "i_organisation_id r = c_organisation_id c" "i_idempotency_key r = key" for r
      using scoped_record_unique [OF assms that] Some by simp
    ultimately show ?thesis
      by (auto simp: scoped_record_None)
  qed
  then show ?thesis
    using Some by (simp add: drop_expired_def)
qed (simp add: drop_expired_def)

text \<open>What a successful save leaves in the table.\<close>

lemma save_idempotency_saved:
  assumes "save_idempotency_record c key hash job_id run_id code response ttl now d = Inr (r, d')"
    "keys_unique d"
  shows "keys_unique d'" "scoped_record c key d' = Some r" "i_request_hash r = hash"
    "check_key key = Inr ()"
proof -
  let ?d1 = "drop_expired c key now d"
  have key: "check_key key = Inr ()"
    using assms(1) by (auto simp: save_idempotency_record_def elim!: attemptE)
  have u: "keys_unique ?d1"
    by (rule keys_unique_drop [OF assms(2)])
  consider (insert) "scoped_record c key ?d1 = None"
      "d' = ?d1\<lparr>idempotency_records := idempotency_records ?d1 @ [r]\<rparr>"
      "i_organisation_id r = c_organisation_id c" "i_idempotency_key r = key" "i_request_hash r = hash"
    | (winner) "scoped_record c key ?d1 = Some r" "i_request_hash r = hash" "d' = ?d1"
    using assms(1) unfolding save_idempotency_record_def Let_def
    by (elim attemptE) (auto split: option.split_asm if_split_asm)
  then have "keys_unique d' \<and> scoped_record c key d' = Some r \<and> i_request_hash r = hash"
  proof cases
    case insert
    have "keys_unique d'"
      using u insert by (auto simp: keys_unique_def scoped_record_None)
    moreover have "scoped_record c key d' = Some r"
      by (rule scoped_record_unique [OF calculation]) (simp_all add: insert)
    ultimately show ?thesis
      by (simp add: insert)
  qed (use u in simp)
  with key show "keys_unique d'" "scoped_record c key d' = Some r" "i_request_hash r = hash"
    "check_key key = Inr ()"
    by simp_all
qed

text \<open>
  Replay. After a successful save under a key, and until that record expires, reading the key
  returns the record, saving again under it with the same request digest returns the same record
  and changes nothing, and saving with another digest is a collision; keys stay unique per
  organisation. A record that has expired is not returned.
\<close>

theorem idempotency_replay:
  assumes "keys_unique d"
    "save_idempotency_record c key hash job_id run_id code response ttl now d = Inr (r, d')"
  shows "keys_unique d'
    \<and> get_idempotency_record c key t d' = Inr (if i_expires_at r < t then None else Some r)
    \<and> (t \<le> i_expires_at r \<longrightarrow> 0 < ttl' \<longrightarrow>
        save_idempotency_record c key hash' job_id' run_id' code' response' ttl' t d'
        = (if hash' = hash then Inr (r, d') else Inl IdempotencyCollisionError))"
proof -
  note saved = save_idempotency_saved [OF assms(2,1)]
  have again: "scoped_record c key (drop_expired c key t d') = Some r" "drop_expired c key t d' = d'"
    if "t \<le> i_expires_at r"
    using that saved by (simp_all add: drop_expired_record) (simp add: drop_expired_def)
  then show ?thesis
    using saved by (auto simp: get_idempotency_record_def save_idempotency_record_def Let_def)
qed

definition demo_hash :: string where
  "demo_hash = replicate 64 CHR ''a''"

definition demo_record :: idempotency_row where
  "demo_record = \<lparr>i_organisation_id = 1, i_idempotency_key = ''k1'', i_request_hash = demo_hash,
     i_job_id = 1, i_run_id = 1, i_response_status_code = 202, i_response_json = ''{}'',
     i_created_at = 0, i_expires_at = 86400000000\<rparr>"

lemma demo_saved:
  "save_idempotency_record demo_ctx ''k1'' demo_hash 1 1 202 ''{}'' 24 0 demo_queued
   = Inr (demo_record, demo_queued\<lparr>idempotency_records := [demo_record]\<rparr>)"
  by code_simp

theorem idempotency_replay_witness:
  "get_idempotency_record demo_ctx ''k1'' 5 (demo_queued\<lparr>idempotency_records := [demo_record]\<rparr>)
     = Inr (Some demo_record)
   \<and> save_idempotency_record demo_ctx ''k1'' demo_hash 2 2 202 ''{}'' 24 5
       (demo_queued\<lparr>idempotency_records := [demo_record]\<rparr>)
     = Inr (demo_record, demo_queued\<lparr>idempotency_records := [demo_record]\<rparr>)"
proof -
  have "keys_unique demo_queued"
    by (simp add: keys_unique_def demo_queued_def demo_empty_def)
  from idempotency_replay [OF this demo_saved, of 5 24 demo_hash 2 2 202 "''{}''"] show ?thesis
    by (simp add: demo_record_def)
qed

end
