(* ===== verification/Recovery.thy ===== *)
theory Recovery
  imports Splits Exceptions
begin

section \<open>Recovery plans (\<open>engine/recovery.py\<close>)\<close>

text \<open>
  The ranked plan of next actions for unresolved credits: the blocking reason of a line, competing
  hypotheses, the action each reason asks for, the grouping of actions (export windows that overlap
  are merged) and the capped ranking. Dates of the plan are ISO texts, compared as texts, as in the
  source. \<open>resolve_delta\<close> is modelled on the reports the engine serialises, whose entries have the
  fields it asks for.
\<close>

definition BLOCKING_BRAND_NO_TIE :: string where "BLOCKING_BRAND_NO_TIE = ''brand_no_tie''"
definition BLOCKING_WEAK_UTR_SUFFIX :: string where "BLOCKING_WEAK_UTR_SUFFIX = ''weak_utr_suffix''"
definition BLOCKING_AMBIGUOUS_SETSUM :: string where "BLOCKING_AMBIGUOUS_SETSUM = ''ambiguous_setsum''"
definition BLOCKING_UNKNOWN_SENDER :: string where "BLOCKING_UNKNOWN_SENDER = ''unknown_sender''"
definition BLOCKING_RECON_FAILURE :: string where "BLOCKING_RECON_FAILURE = ''recon_failure''"
definition BLOCKING_RULE_CONFLICT :: string where "BLOCKING_RULE_CONFLICT = ''rule_conflict''"

definition ACTION_EXPORT_SETTLEMENT_REPORT :: string where
  "ACTION_EXPORT_SETTLEMENT_REPORT = ''export_settlement_report''"
definition ACTION_CONFIRM_UTR_WITH_BANK :: string where
  "ACTION_CONFIRM_UTR_WITH_BANK = ''confirm_utr_with_bank''"
definition ACTION_PROVIDE_SETTLEMENT_IDS :: string where
  "ACTION_PROVIDE_SETTLEMENT_IDS = ''provide_settlement_ids''"
definition ACTION_CLASSIFY_COUNTERPARTY :: string where
  "ACTION_CLASSIFY_COUNTERPARTY = ''classify_counterparty''"

lemmas action_names = ACTION_EXPORT_SETTLEMENT_REPORT_def ACTION_CONFIRM_UTR_WITH_BANK_def
  ACTION_PROVIDE_SETTLEMENT_IDS_def ACTION_CLASSIFY_COUNTERPARTY_def

definition ACTION_COSTS :: "(string, rat) dict" where
  "ACTION_COSTS = [(ACTION_EXPORT_SETTLEMENT_REPORT, 1), (ACTION_CONFIRM_UTR_WITH_BANK, 2),
     (ACTION_PROVIDE_SETTLEMENT_IDS, 3 / 2), (ACTION_CLASSIFY_COUNTERPARTY, 1 / 2)]"

definition RECON_FAILURE_CODES :: "string list" where
  "RECON_FAILURE_CODES = [''partial_or_duplicate_settlement'', ''unbalanced_residual'',
     ''reconstructed_split_leg'', ''razorpay_coverage_not_found'']"

record hypothesis =
  hy_line_key :: string
  hy_rail :: string
  hy_weight :: rat
  hy_blocking_reason :: string

definition hypothesis_to_dict :: "hypothesis \<Rightarrow> json" where
  "hypothesis_to_dict h = JObj [(''line_key'', JStr (hy_line_key h)), (''rail'', JStr (hy_rail h)),
     (''weight'', JFloat (py_round 4 (hy_weight h))),
     (''blocking_reason'', JStr (hy_blocking_reason h))]"

record recovery_action =
  ra_action_type :: string
  ra_params :: "(string, json) dict"
  ra_resolves :: "string list"
  ra_recoverable_paise :: int
  ra_cost :: rat
  ra_gain_per_cost :: rat
  ra_debit_exposure_paise :: int

definition json_text :: "json option \<Rightarrow> string" where
  "json_text v = (case v of Some (JStr s) \<Rightarrow> s | _ \<Rightarrow> [])"

definition py_capitalize :: "string \<Rightarrow> string" where
  "py_capitalize s = (case s of [] \<Rightarrow> [] | c # cs \<Rightarrow> upper_char c # py_lower cs)"

definition ra_description :: "recovery_action \<Rightarrow> string" where
  "ra_description a =
    (let inr_str = inr_sep (ra_recoverable_paise a);
         debit_str = inr_sep (ra_debit_exposure_paise a);
         n_items = length (ra_resolves a);
         item_plural = (if n_items = 1 then str_int (int n_items) @ '' item''
                        else str_int (int n_items) @ '' items'');
         target = ''across '' @ item_plural
           @ (if ra_debit_exposure_paise a \<noteq> 0
              then '' (including '' @ debit_str @ '' debit exposure; not recoverable cash)'' else []);
         tail = '' '' @ em_dash @ '' up to '' @ inr_str @ '' recoverable '' @ target @ '' if confirmed'';
         dt = json_text (map_of (ra_params a) ''date'');
         dt_str = (if dt \<noteq> [] then '' for '' @ dt else [])
     in if ra_recoverable_paise a = 0 \<and> ra_debit_exposure_paise a \<noteq> 0 then
          py_capitalize (replace_char CHR ''_'' '' '' (ra_action_type a)) @ '' '' @ em_dash
            @ '' review '' @ debit_str @ '' debit exposure across '' @ item_plural
            @ ''; not recoverable cash''
        else if ra_action_type a = ACTION_EXPORT_SETTLEMENT_REPORT then
          (let d_from = json_text (map_of (ra_params a) ''date_from'');
               d_to = json_text (map_of (ra_params a) ''date_to'');
               window = (if d_from \<noteq> [] \<and> d_to \<noteq> [] then '' ('' @ d_from @ '' to '' @ d_to @ '')'' else [])
           in ''Export Razorpay settlement report'' @ window @ tail)
        else if ra_action_type a = ACTION_CONFIRM_UTR_WITH_BANK then
          ''Confirm UTR with bank'' @ dt_str @ tail
        else if ra_action_type a = ACTION_PROVIDE_SETTLEMENT_IDS then
          ''Provide settlement IDs'' @ dt_str @ tail
        else if ra_action_type a = ACTION_CLASSIFY_COUNTERPARTY then
          ''Classify counterparty'' @ dt_str @ tail
        else ''Action '' @ ra_action_type a @ tail)"

definition action_to_dict :: "recovery_action \<Rightarrow> json" where
  "action_to_dict a = JObj [(''action_type'', JStr (ra_action_type a)),
     (''params'', JObj (ra_params a)), (''resolves'', JList (map JStr (ra_resolves a))),
     (''recoverable_paise'', JInt (ra_recoverable_paise a)),
     (''debit_exposure_paise'', JInt (ra_debit_exposure_paise a)), (''cost'', JFloat (ra_cost a)),
     (''gain_per_cost'', JFloat (py_round 4 (ra_gain_per_cost a))),
     (''description'', JStr (ra_description a))]"

record recovery_plan =
  rp_actions :: "recovery_action list"
  rp_unresolved_count :: nat
  rp_unresolved_paise :: int
  rp_recoverable_if_actioned_paise :: int
  rp_unresolved_credit_paise :: int
  rp_unresolved_debit_paise :: int
  rp_note :: "string option"

definition plan_to_dict :: "recovery_plan \<Rightarrow> json" where
  "plan_to_dict p = JObj (
     [(''actions'', JList (map action_to_dict (rp_actions p))),
      (''unresolved_count'', JInt (int (rp_unresolved_count p))),
      (''unresolved_paise'', JInt (rp_unresolved_paise p)),
      (''recoverable_if_actioned_paise'', JInt (rp_recoverable_if_actioned_paise p)),
      (''unresolved_credit_paise'', JInt (rp_unresolved_credit_paise p)),
      (''unresolved_debit_paise'', JInt (rp_unresolved_debit_paise p))]
     @ (if truthy (rp_note p) then [(''note'', JStr (the (rp_note p)))] else []))"

subsection \<open>Diagnosis\<close>

definition rzp_prefixed :: "string \<Rightarrow> bool" where
  "rzp_prefixed s \<longleftrightarrow> list_ex (\<lambda>p. prefix p s) RZP_SIGNAL_PREFIXES"

definition has_reason :: "exception_record option \<Rightarrow> string \<Rightarrow> bool" where
  "has_reason x rsn \<longleftrightarrow> (case x of None \<Rightarrow> False | Some e \<Rightarrow> x_reason_code e = rsn)"

definition derive_blocking_reason ::
  "(string \<Rightarrow> string) \<Rightarrow> pack option \<Rightarrow> bank_line \<Rightarrow> attribution \<Rightarrow> recon_index
   \<Rightarrow> exception_record option \<Rightarrow> string" where
  "derive_blocking_reason nf pack line a ix x =
    (if has_reason x ''rule_conflict'' \<or> carries ''rule_conflict'' (a_evidence a)
     then BLOCKING_RULE_CONFLICT
     else if has_reason x ''multiple_satisfying_subsets''
             \<or> carries ''multiple_satisfying_subsets'' (a_evidence a)
     then BLOCKING_AMBIGUOUS_SETSUM
     else if list_ex (has_reason x) RECON_FAILURE_CODES then BLOCKING_RECON_FAILURE
     else let sigs = map ev_signal (razorpay_signals nf pack line ix)
                @ map ev_signal (filter (\<lambda>e. rzp_prefixed (ev_signal e)
                    \<or> ev_signal e \<in> {''split_reconstruction'', ''utr_suffix_weak''}) (a_evidence a))
          in if ''utr_suffix_weak'' \<in> set sigs
                \<and> \<not> list_ex (\<lambda>s. s \<in> {''utr_exact'', ''utr_suffix''}) sigs
             then BLOCKING_WEAK_UTR_SUFFIX
             else if list_ex (\<lambda>s. s \<in> {''narration_brand_rzp'', ''settlement_ref'', ''ifsc_ratn''}) sigs
                \<or> has_reason x ''razorpay_uncertain''
                \<or> list_ex (\<lambda>e. rzp_prefixed (ev_signal e)) (a_evidence a)
             then BLOCKING_BRAND_NO_TIE
             else BLOCKING_UNKNOWN_SENDER)"

definition mk_hypothesis :: "bank_line \<Rightarrow> string \<Rightarrow> rat \<Rightarrow> string \<Rightarrow> hypothesis" where
  "mk_hypothesis line rail w blocking =
    \<lparr>hy_line_key = ln_key line, hy_rail = rail, hy_weight = w, hy_blocking_reason = blocking\<rparr>"

definition rzp_items :: "evidence_item list \<Rightarrow> evidence_item list \<Rightarrow> evidence_item list" where
  "rzp_items rzp_ev evidence =
    foldl (\<lambda>items e. if e \<notin> set items
        \<and> (rzp_prefixed (ev_signal e)
           \<or> ev_signal e \<in> {''multiple_satisfying_subsets'', ''split_reconstruction''})
      then items @ [e] else items) rzp_ev evidence"

definition diagnose ::
  "(string \<Rightarrow> string) \<Rightarrow> pack option \<Rightarrow> bank_line \<Rightarrow> attribution \<Rightarrow> recon_index
   \<Rightarrow> exception_record option \<Rightarrow> hypothesis list" where
  "diagnose nf pack line a ix x =
    (let blocking = derive_blocking_reason nf pack line a ix x;
         razorpay =
           (if a_rail a = rail_value RAZORPAY_SETTLEMENT then
              [mk_hypothesis line (rail_value RAZORPAY_SETTLEMENT) (py_round 4 (a_confidence a)) blocking]
            else let items = rzp_items (razorpay_signals nf pack line ix) (a_evidence a);
                     w = combine items
                 in if items \<noteq> [] \<and> w > 0
                    then [mk_hypothesis line (rail_value RAZORPAY_SETTLEMENT) (py_round 4 w) blocking]
                    else []);
         competing = concat (map (\<lambda>(rail, items).
             if items \<noteq> [] \<and> combine items > 0
             then [mk_hypothesis line (rail_value rail) (py_round 4 (combine items)) blocking] else [])
             (narration_rail_signals nf pack line));
         hs = razorpay @ competing;
         hs = (if a_rail a \<notin> {rail_value UNKNOWN, rail_value RAZORPAY_SETTLEMENT}
                  \<and> \<not> list_ex (\<lambda>h. hy_rail h = a_rail a) hs
               then hs @ [mk_hypothesis line (a_rail a) (py_round 4 (a_confidence a)) blocking] else hs);
         hs = (if hs = [] then [mk_hypothesis line (rail_value UNKNOWN) 0 blocking] else hs)
     in sort_key (\<lambda>h. (- hy_weight h, hy_rail h)) hs)"

subsection \<open>Actions\<close>

definition export_params :: "bank_line \<Rightarrow> (string, json) dict" where
  "export_params line =
    [(''date_from'', JStr (date_isoformat (ln_value_date line - SPLIT_DATE_WINDOW))),
     (''date_to'', JStr (date_isoformat (ln_value_date line + SPLIT_DATE_WINDOW)))]"

definition line_params :: "bank_line \<Rightarrow> (string, json) dict" where
  "line_params line = [(''date'', JStr (date_isoformat (ln_value_date line))),
     (''amount_paise'', JInt (ln_amount_paise line))]"

definition map_blocking_to_action :: "bank_line \<Rightarrow> string \<Rightarrow> string \<times> (string, json) dict \<times> rat" where
  "map_blocking_to_action line blocking =
    (let act = (\<lambda>ty ps. (ty, ps, dget ACTION_COSTS ty 0))
     in if blocking = BLOCKING_BRAND_NO_TIE then
          act ACTION_EXPORT_SETTLEMENT_REPORT (export_params line)
        else if blocking = BLOCKING_WEAK_UTR_SUFFIX then
          act ACTION_CONFIRM_UTR_WITH_BANK (line_params line)
        else if blocking = BLOCKING_AMBIGUOUS_SETSUM then
          act ACTION_PROVIDE_SETTLEMENT_IDS (line_params line)
        else if blocking \<in> {BLOCKING_UNKNOWN_SENDER, BLOCKING_RULE_CONFLICT} then
          act ACTION_CLASSIFY_COUNTERPARTY (line_params line
            @ (if truthy (ln_bank_ref line) then [(''bank_ref'', JStr (the (ln_bank_ref line)))] else []))
        else if blocking = BLOCKING_RECON_FAILURE then
          act ACTION_EXPORT_SETTLEMENT_REPORT (export_params line)
        else act ACTION_CLASSIFY_COUNTERPARTY (line_params line))"

record export_item =
  xi_date_from :: string
  xi_date_to :: string
  xi_cost :: rat
  xi_keys :: "string list"
  xi_amounts :: "int list"

record action_group =
  ag_action_type :: string
  ag_params :: "(string, json) dict"
  ag_cost :: rat
  ag_keys :: "string list"
  ag_amounts :: "int list"

type_synonym group_key = "string \<times> (string \<times> json) list"

definition unresolved_line ::
  "(string, exception_record) dict \<Rightarrow> (string, attribution) dict \<Rightarrow> bank_line \<Rightarrow> bool" where
  "unresolved_line excs attrs line \<longleftrightarrow>
     has_key excs (ln_key line)
     \<or> (case map_of attrs (ln_key line) of
          None \<Rightarrow> False | Some a \<Rightarrow> a_abstained a \<or> a_rail a = rail_value UNKNOWN)"

definition unresolved_lines ::
  "(string, exception_record) dict \<Rightarrow> (string, attribution) dict \<Rightarrow> bank_line list \<Rightarrow> bank_line list"
where
  "unresolved_lines excs attrs lines =
    fst (foldl (\<lambda>(acc, seen) line.
        if unresolved_line excs attrs line \<and> ln_key line \<notin> set seen
        then (acc @ [line], ln_key line # seen) else (acc, seen)) ([], []) lines)"

definition add_to_group ::
  "string \<Rightarrow> (string, json) dict \<Rightarrow> rat \<Rightarrow> bank_line \<Rightarrow> (group_key, action_group) dict
   \<Rightarrow> (group_key, action_group) dict" where
  "add_to_group ty ps cost line groups =
    (let g_key = (ty, sort_key fst ps);
         g = (case map_of groups g_key of
                Some g \<Rightarrow> g
              | None \<Rightarrow> \<lparr>ag_action_type = ty, ag_params = ps, ag_cost = cost, ag_keys = [],
                         ag_amounts = []\<rparr>)
     in dset groups g_key (g\<lparr>ag_keys := ag_keys g @ [ln_key line],
                             ag_amounts := ag_amounts g @ [ln_amount_paise line]\<rparr>))"

definition plan_step ::
  "(string \<Rightarrow> string) \<Rightarrow> pack option \<Rightarrow> recon_index \<Rightarrow> (string, attribution) dict
   \<Rightarrow> (string, exception_record) dict \<Rightarrow> export_item list \<times> (group_key, action_group) dict
   \<Rightarrow> bank_line \<Rightarrow> export_item list \<times> (group_key, action_group) dict" where
  "plan_step nf pack ix attrs excs st line =
    (let a = dget attrs (ln_key line) (Abstention (ln_key line) 0 []);
         blocking = derive_blocking_reason nf pack line a ix (map_of excs (ln_key line));
         (ty, ps, cost) = map_blocking_to_action line blocking
     in if ty = ACTION_EXPORT_SETTLEMENT_REPORT then
          (fst st @ [\<lparr>xi_date_from = json_text (map_of ps ''date_from''),
                      xi_date_to = json_text (map_of ps ''date_to''), xi_cost = cost,
                      xi_keys = [ln_key line], xi_amounts = [ln_amount_paise line]\<rparr>], snd st)
        else (fst st, add_to_group ty ps cost line (snd st)))"

definition merge_export :: "export_item list \<Rightarrow> export_item \<Rightarrow> export_item list" where
  "merge_export merged item =
    (if merged = [] then [item]
     else let l = last merged
          in if xi_date_from item \<le> xi_date_to l then
               butlast merged @ [l\<lparr>xi_date_to := (if xi_date_to l < xi_date_to item
                                                  then xi_date_to item else xi_date_to l),
                                   xi_keys := xi_keys l @ xi_keys item,
                                   xi_amounts := xi_amounts l @ xi_amounts item\<rparr>]
             else merged @ [item])"

definition merge_exports :: "export_item list \<Rightarrow> export_item list" where
  "merge_exports items =
    foldl merge_export [] (sort_key (\<lambda>x. (xi_date_from x, xi_date_to x)) items)"

definition credit_sum :: "int list \<Rightarrow> int" where
  "credit_sum xs = sum_list (map (\<lambda>x. max 0 x) xs)"

definition debit_sum :: "int list \<Rightarrow> int" where
  "debit_sum xs = sum_list (map (\<lambda>x. max 0 (- x)) xs)"

definition mk_action ::
  "string \<Rightarrow> (string, json) dict \<Rightarrow> string list \<Rightarrow> int list \<Rightarrow> rat \<Rightarrow> recovery_action" where
  "mk_action ty ps keys amounts cost =
    \<lparr>ra_action_type = ty, ra_params = ps, ra_resolves = sort (remdups keys),
     ra_recoverable_paise = credit_sum amounts, ra_cost = cost,
     ra_gain_per_cost = (if cost > 0 then fl (fl (of_int (credit_sum amounts)) / cost) else 0),
     ra_debit_exposure_paise = debit_sum amounts\<rparr>"

definition action_of_export :: "export_item \<Rightarrow> recovery_action" where
  "action_of_export x = mk_action ACTION_EXPORT_SETTLEMENT_REPORT
     [(''date_from'', JStr (xi_date_from x)), (''date_to'', JStr (xi_date_to x))]
     (xi_keys x) (xi_amounts x) (xi_cost x)"

definition action_of_group :: "action_group \<Rightarrow> recovery_action" where
  "action_of_group g =
    mk_action (ag_action_type g) (ag_params g) (ag_keys g) (ag_amounts g) (ag_cost g)"

definition rank_key :: "recovery_action \<Rightarrow> rat \<times> int \<times> string \<times> string list" where
  "rank_key a = (- ra_gain_per_cost a, - ra_recoverable_paise a, ra_action_type a, ra_resolves a)"

definition all_actions ::
  "(string \<Rightarrow> string) \<Rightarrow> pack option \<Rightarrow> recon_index \<Rightarrow> (string, attribution) dict
   \<Rightarrow> (string, exception_record) dict \<Rightarrow> bank_line list \<Rightarrow> recovery_action list" where
  "all_actions nf pack ix attrs excs unresolved =
    (let (exports, groups) = foldl (plan_step nf pack ix attrs excs) ([], []) unresolved
     in sort_key rank_key (map action_of_export (merge_exports exports)
          @ map (action_of_group \<circ> snd) groups))"

definition build_recovery_plan ::
  "(string \<Rightarrow> string) \<Rightarrow> pack option \<Rightarrow> nat \<Rightarrow> bank_line list \<Rightarrow> attribution list \<Rightarrow> recon_index
   \<Rightarrow> exception_record list \<Rightarrow> recovery_plan" where
  "build_recovery_plan nf pack max_actions lines attributions ix exceptions =
    (let lines_by_key = dict_of ln_key id lines;
         attrs = dict_of a_line_key id attributions;
         excs = dict_of x_line_key id exceptions;
         unresolved = unresolved_lines excs attrs lines;
         amounts = map ln_amount_paise unresolved
     in if unresolved = [] then
          \<lparr>rp_actions = [], rp_unresolved_count = 0, rp_unresolved_paise = 0,
           rp_recoverable_if_actioned_paise = 0, rp_unresolved_credit_paise = 0,
           rp_unresolved_debit_paise = 0, rp_note = None\<rparr>
        else
          let actions0 = all_actions nf pack ix attrs excs unresolved;
              capped = (max_actions < length actions0);
              actions = (if capped then take max_actions actions0 else actions0);
              keys = remdups (concat (map ra_resolves actions))
          in \<lparr>rp_actions = actions, rp_unresolved_count = length unresolved,
              rp_unresolved_paise = sum_list amounts,
              rp_recoverable_if_actioned_paise = sum_list (map (\<lambda>k. case map_of lines_by_key k of
                 None \<Rightarrow> 0 | Some l \<Rightarrow> max 0 (ln_amount_paise l)) keys),
              rp_unresolved_credit_paise = credit_sum amounts,
              rp_unresolved_debit_paise = debit_sum amounts,
              rp_note = (if capped then Some (''Plan capped at top '' @ str_int (int max_actions)
                 @ '' actions (of '' @ str_int (int (length actions0))
                 @ '' available) ranked by expected impact per cost.'') else None)\<rparr>)"

subsection \<open>Progress between two reports\<close>

record delta =
  de_newly_resolved :: "string list"
  de_newly_reconciled :: "string list"
  de_recovered_paise :: int

definition total_of :: "json \<Rightarrow> int" where
  "total_of v = (case v of JObj kvs \<Rightarrow> (case map_of kvs ''reconciled_paise'' of Some (JInt n) \<Rightarrow> n | _ \<Rightarrow> 0) | _ \<Rightarrow> 0)"

definition resolve_delta :: "run_report \<Rightarrow> run_report \<Rightarrow> delta" where
  "resolve_delta before after =
    (let before_attrs = dict_of a_line_key id (rr_attributions before);
         after_attrs = dict_of a_line_key id (rr_attributions after);
         before_unresolved = map fst (filter (\<lambda>(k, a). a_abstained a \<or> a_rail a = rail_value UNKNOWN)
           before_attrs);
         after_resolved = map fst (filter (\<lambda>(k, a). \<not> a_abstained a
           \<and> a_rail a \<notin> {[], rail_value UNKNOWN}) after_attrs);
         newly_attributed = filter (\<lambda>k. k \<in> set after_resolved) before_unresolved;
         before_reconciled = map rc_line_key (rr_reconciliations before);
         after_reconciled = map rc_line_key (rr_reconciliations after);
         newly_reconciled = sort (remdups (filter (\<lambda>k. k \<notin> set before_reconciled) after_reconciled));
         newly_resolved = sort (remdups (newly_attributed @ newly_reconciled));
         after_amounts = dict_of rc_line_key rc_credit_amount_paise (rr_reconciliations after);
         amounts = foldl (\<lambda>d r. if has_key d (rc_line_key r) then d
                                else dset d (rc_line_key r) (rc_credit_amount_paise r))
                     after_amounts (rr_reconciliations before);
         recovered = sum_list (map (\<lambda>k. dget amounts k 0) newly_resolved);
         before_tot = total_of (rr_totals before); after_tot = total_of (rr_totals after)
     in \<lparr>de_newly_resolved = newly_resolved, de_newly_reconciled = newly_reconciled,
         de_recovered_paise = (if recovered = 0 \<and> newly_reconciled \<noteq> [] \<and> before_tot < after_tot
           then after_tot - before_tot else recovered)\<rparr>)"

subsection \<open>Entries of groups\<close>

text \<open>
  The keys and amounts a group collects, as pairs. Grouping and merging only distribute the pairs of
  the unresolved lines.
\<close>

definition export_entries :: "export_item \<Rightarrow> (string \<times> int) list" where
  "export_entries x = zip (xi_keys x) (xi_amounts x)"

definition group_entries :: "action_group \<Rightarrow> (string \<times> int) list" where
  "group_entries g = zip (ag_keys g) (ag_amounts g)"

definition line_entry :: "bank_line \<Rightarrow> string \<times> int" where
  "line_entry l = (ln_key l, ln_amount_paise l)"

definition export_ok :: "export_item \<Rightarrow> bool" where
  "export_ok x \<longleftrightarrow> length (xi_keys x) = length (xi_amounts x)"

definition group_ok :: "action_group \<Rightarrow> bool" where
  "group_ok g \<longleftrightarrow> length (ag_keys g) = length (ag_amounts g)"

definition plan_entries :: "export_item list \<times> (group_key, action_group) dict \<Rightarrow> (string \<times> int) list" where
  "plan_entries st = concat (map export_entries (fst st)) @ concat (map (group_entries \<circ> snd) (snd st))"

definition plan_ok :: "export_item list \<times> (group_key, action_group) dict \<Rightarrow> bool" where
  "plan_ok st \<longleftrightarrow> (\<forall>x \<in> set (fst st). export_ok x) \<and> (\<forall>g \<in> snd ` set (snd st). group_ok g)"

lemma mset_concat_update:
  assumes "\<And>g. g = init \<or> g \<in> snd ` set d \<Longrightarrow> mset (f (upd g)) = mset (f g) + X" "f init = []"
  shows "mset (concat (map (f \<circ> snd) (dset d k (upd (case map_of d k of Some g \<Rightarrow> g | None \<Rightarrow> init)))))
    = mset (concat (map (f \<circ> snd) d)) + X"
  using assms
proof (induction d)
  case (Cons p d)
  have "mset (concat (map (f \<circ> snd) (dset d k (upd (case map_of d k of Some g \<Rightarrow> g | None \<Rightarrow> init)))))
      = mset (concat (map (f \<circ> snd) d)) + X"
    using Cons.prems by (intro Cons.IH) auto
  then show ?case
    using Cons.prems(1) [of "snd p"] by (cases p) (simp add: dset_def comp_def)
qed (simp add: dset_def)

lemma dset_values: "v \<in> snd ` set (dset d k w) \<Longrightarrow> v = w \<or> v \<in> snd ` set d"
  unfolding dset_def by (induction d) (auto split: if_splits)

lemma map_of_values: "map_of d k = Some v \<Longrightarrow> v \<in> snd ` set d"
  by (force dest: map_of_SomeD)

lemma add_to_group_entries:
  assumes "\<forall>g \<in> snd ` set gs. group_ok g"
  shows "mset (concat (map (group_entries \<circ> snd) (add_to_group ty ps cost line gs)))
      = mset (concat (map (group_entries \<circ> snd) gs)) + {#line_entry line#}"
    "\<forall>g \<in> snd ` set (add_to_group ty ps cost line gs). group_ok g"
proof -
  let ?init = "\<lparr>ag_action_type = ty, ag_params = ps, ag_cost = cost, ag_keys = [], ag_amounts = []\<rparr>"
  let ?upd = "\<lambda>g. g\<lparr>ag_keys := ag_keys g @ [ln_key line], ag_amounts := ag_amounts g @ [ln_amount_paise line]\<rparr>"
  have ok: "group_ok g" if "g = ?init \<or> g \<in> snd ` set gs" for g
    using that assms by (auto simp: group_ok_def)
  have eq: "add_to_group ty ps cost line gs = dset gs (ty, sort_key fst ps)
      (?upd (case map_of gs (ty, sort_key fst ps) of Some g \<Rightarrow> g | None \<Rightarrow> ?init))"
    by (simp add: add_to_group_def Let_def)
  show "mset (concat (map (group_entries \<circ> snd) (add_to_group ty ps cost line gs)))
      = mset (concat (map (group_entries \<circ> snd) gs)) + {#line_entry line#}"
    unfolding eq
    by (rule mset_concat_update)
       (use ok in \<open>auto simp: group_entries_def group_ok_def line_entry_def\<close>)
  have new: "group_ok (?upd (case map_of gs (ty, sort_key fst ps) of Some g \<Rightarrow> g | None \<Rightarrow> ?init))"
  proof (cases "map_of gs (ty, sort_key fst ps)")
    case (Some g)
    then have "group_ok g"
      using assms map_of_values [OF Some] by blast
    then show ?thesis
      by (simp add: Some group_ok_def)
  qed (simp add: group_ok_def)
  show "\<forall>g \<in> snd ` set (add_to_group ty ps cost line gs). group_ok g"
  proof
    fix g assume "g \<in> snd ` set (add_to_group ty ps cost line gs)"
    from dset_values [OF this [unfolded eq]] show "group_ok g"
      using new bspec [OF assms] by metis
  qed
qed

lemma plan_step_entries:
  assumes "plan_ok st"
  shows "mset (plan_entries (plan_step nf pack ix attrs excs st line)) = mset (plan_entries st) + {#line_entry line#}"
    "plan_ok (plan_step nf pack ix attrs excs st line)"
proof -
  obtain ty ps cost where act: "map_blocking_to_action line (derive_blocking_reason nf pack line
      (dget attrs (ln_key line) (Abstention (ln_key line) 0 [])) ix (map_of excs (ln_key line)))
      = (ty, ps, cost)"
    by (cases "map_blocking_to_action line (derive_blocking_reason nf pack line
      (dget attrs (ln_key line) (Abstention (ln_key line) 0 [])) ix (map_of excs (ln_key line)))") auto
  have groups: "\<forall>g \<in> snd ` set (snd st). group_ok g"
    using assms by (simp add: plan_ok_def)
  note add = add_to_group_entries [OF groups, of ty ps cost line]
  show "mset (plan_entries (plan_step nf pack ix attrs excs st line)) = mset (plan_entries st) + {#line_entry line#}"
    using add(1) by (simp add: plan_step_def act plan_entries_def export_entries_def line_entry_def)
  show "plan_ok (plan_step nf pack ix attrs excs st line)"
    using add(2) assms by (auto simp: plan_step_def act plan_ok_def export_ok_def)
qed

lemma plan_fold_entries:
  "plan_ok st \<Longrightarrow> plan_ok (foldl (plan_step nf pack ix attrs excs) st ls)
     \<and> mset (plan_entries (foldl (plan_step nf pack ix attrs excs) st ls))
       = mset (plan_entries st) + mset (map line_entry ls)"
  by (induction ls arbitrary: st) (simp_all add: plan_step_entries)

lemma merge_export_entries:
  assumes "\<forall>x \<in> set merged. export_ok x" "export_ok item"
  shows "mset (concat (map export_entries (merge_export merged item)))
      = mset (concat (map export_entries merged)) + mset (export_entries item)"
    "\<forall>x \<in> set (merge_export merged item). export_ok x"
proof -
  have "(\<forall>x \<in> set (merge_export merged item). export_ok x) \<and>
      mset (concat (map export_entries (merge_export merged item)))
      = mset (concat (map export_entries merged)) + mset (export_entries item)"
  proof (cases merged rule: rev_cases)
    case (snoc ms l)
    then show ?thesis
      using assms by (auto simp: merge_export_def Let_def export_entries_def export_ok_def)
  qed (use assms in \<open>simp add: merge_export_def\<close>)
  then show "mset (concat (map export_entries (merge_export merged item)))
      = mset (concat (map export_entries merged)) + mset (export_entries item)"
    "\<forall>x \<in> set (merge_export merged item). export_ok x"
    by simp_all
qed

lemma merge_fold_entries:
  "\<forall>x \<in> set merged. export_ok x \<Longrightarrow> \<forall>x \<in> set items. export_ok x \<Longrightarrow>
     (\<forall>x \<in> set (foldl merge_export merged items). export_ok x) \<and>
     mset (concat (map export_entries (foldl merge_export merged items)))
     = mset (concat (map export_entries merged)) + mset (concat (map export_entries items))"
proof (induction items arbitrary: merged)
  case (Cons item items)
  have item: "export_ok item" and rest: "\<forall>x \<in> set items. export_ok x"
    using Cons.prems(2) by simp_all
  show ?case
    using Cons.IH [OF merge_export_entries(2) [OF Cons.prems(1) item] rest]
      merge_export_entries(1) [OF Cons.prems(1) item] by simp
qed simp

lemma merge_exports_entries:
  assumes "\<forall>x \<in> set items. export_ok x"
  shows "\<forall>x \<in> set (merge_exports items). export_ok x"
    "mset (concat (map export_entries (merge_exports items))) = mset (concat (map export_entries items))"
proof -
  let ?s = "sort_key (\<lambda>x. (xi_date_from x, xi_date_to x)) items"
  have "mset (concat (map export_entries ?s)) = mset (concat (map export_entries items))"
    by (simp add: mset_concat flip: sum_mset_sum_list)
  then show "\<forall>x \<in> set (merge_exports items). export_ok x"
    "mset (concat (map export_entries (merge_exports items))) = mset (concat (map export_entries items))"
    using merge_fold_entries [of "[]" ?s] assms by (simp_all add: merge_exports_def)
qed

subsection \<open>The plan\<close>

lemma unresolved_lines_filter:
  assumes "distinct (map ln_key lines)"
  shows "unresolved_lines excs attrs lines = filter (unresolved_line excs attrs) lines"
proof -
  have "distinct (map ln_key ls) \<Longrightarrow> set seen \<inter> ln_key ` set ls = {} \<Longrightarrow>
      fst (foldl (\<lambda>(acc, seen) line. if unresolved_line excs attrs line \<and> ln_key line \<notin> set seen
        then (acc @ [line], ln_key line # seen) else (acc, seen)) (acc, seen) ls)
      = acc @ filter (unresolved_line excs attrs) ls" for acc seen ls
    by (induction ls arbitrary: acc seen) auto
  from this [of lines "[]" "[]"] assms show ?thesis
    by (simp add: unresolved_lines_def)
qed

definition describes :: "recovery_action \<Rightarrow> (string \<times> int) list \<Rightarrow> bool" where
  "describes a es \<longleftrightarrow> ra_resolves a = sort (remdups (map fst es))
     \<and> ra_recoverable_paise a = credit_sum (map snd es)"

lemma describes_export: "export_ok x \<Longrightarrow> describes (action_of_export x) (export_entries x)"
  by (simp add: describes_def action_of_export_def mk_action_def export_entries_def export_ok_def)

lemma describes_group: "group_ok g \<Longrightarrow> describes (action_of_group g) (group_entries g)"
  by (simp add: describes_def action_of_group_def mk_action_def group_entries_def group_ok_def)

text \<open>The actions distribute the entries of the unresolved lines among them.\<close>

lemma all_actions_describe:
  obtains ess where "list_all2 describes (all_actions nf pack ix attrs excs unresolved) ess"
    "mset (concat ess) = mset (map line_entry unresolved)"
proof -
  let ?st = "foldl (plan_step nf pack ix attrs excs) ([], []) unresolved"
  let ?raw = "map action_of_export (merge_exports (fst ?st)) @ map (action_of_group \<circ> snd) (snd ?st)"
  let ?ess = "map export_entries (merge_exports (fst ?st)) @ map (group_entries \<circ> snd) (snd ?st)"
  have ok: "plan_ok ?st" and entries: "mset (plan_entries ?st) = mset (map line_entry unresolved)"
    using plan_fold_entries [of "([], [])" nf pack ix attrs excs unresolved]
    by (simp_all add: plan_ok_def plan_entries_def)
  note merged = merge_exports_entries [of "fst ?st"]
  have sum: "mset (concat ?ess) = mset (map line_entry unresolved)"
    using entries merged(2) ok by (simp add: plan_entries_def plan_ok_def)
  have raw: "list_all2 describes ?raw ?ess"
    using merged(1) ok
    by (intro list_all2_appendI)
       (auto simp: list_all2_map1 list_all2_map2 list_all2_same plan_ok_def
         intro: describes_export describes_group)
  have "mset (all_actions nf pack ix attrs excs unresolved) = mset ?raw"
    by (simp add: all_actions_def case_prod_beta)
  then obtain ess where ess: "list_all2 describes (all_actions nf pack ix attrs excs unresolved) ess"
    "mset ess = mset ?ess"
    using list_all2_reorder_left_invariance [OF raw] by metis
  have "mset (concat ess) = mset (concat ?ess)"
    unfolding mset_concat sum_mset_sum_list [symmetric] mset_map ess(2) ..
  then show thesis
    using that ess(1) sum by metis
qed

lemma credit_sum_append [simp]: "credit_sum (xs @ ys) = credit_sum xs + credit_sum ys"
  by (simp add: credit_sum_def)

lemma credit_sum_nonneg [simp]: "0 \<le> credit_sum xs"
  unfolding credit_sum_def by (rule sum_list_nonneg) auto

lemma credit_minus_debit: "credit_sum xs - debit_sum xs = sum_list xs"
  by (induction xs) (auto simp: credit_sum_def debit_sum_def)

lemma credit_sum_mset: "mset xs = mset ys \<Longrightarrow> credit_sum xs = credit_sum ys"
  unfolding credit_sum_def by (metis mset_map sum_mset_sum_list)

lemma describes_sum:
  "list_all2 describes as ess \<Longrightarrow> distinct (map fst (concat ess)) \<Longrightarrow>
     mset (concat (map ra_resolves as)) = mset (map fst (concat ess))
     \<and> sum_list (map ra_recoverable_paise as) = credit_sum (map snd (concat ess))"
  by (induction rule: list_all2_induct)
     (auto simp: describes_def distinct_remdups_id credit_sum_def)

lemma describes_value:
  assumes lines: "distinct (map ln_key lines)" and desc: "list_all2 describes as ess"
    and entries: "set (concat ess) \<subseteq> line_entry ` set lines" and dist: "distinct (map fst (concat ess))"
  shows "sum_list (map (\<lambda>k. case map_of (dict_of ln_key id lines) k of
      None \<Rightarrow> 0 | Some l \<Rightarrow> max 0 (ln_amount_paise l)) (remdups (concat (map ra_resolves as))))
    = sum_list (map ra_recoverable_paise as)"
proof -
  let ?f = "\<lambda>k. case map_of (dict_of ln_key id lines) k of None \<Rightarrow> 0 | Some l \<Rightarrow> max 0 (ln_amount_paise l)"
  note desc = describes_sum [OF desc dist]
  have val: "?f (fst e) = max 0 (snd e)" if e: "e \<in> set (concat ess)" for e
  proof -
    obtain l where "l \<in> set lines" "e = line_entry l"
      using entries e by blast
    then show ?thesis
      using map_of_dict_of_distinct [OF lines, of l id] by (simp add: line_entry_def)
  qed
  have "distinct (concat (map ra_resolves as))"
    using desc dist by (metis distinct_count_atmost_1 set_mset_mset mset_eq_imp_distinct_iff)
  then have "sum_list (map ?f (remdups (concat (map ra_resolves as))))
      = sum_mset (image_mset ?f (mset (concat (map ra_resolves as))))"
    by (simp add: distinct_remdups_id flip: sum_mset_sum_list)
  also have "\<dots> = sum_list (map (\<lambda>e. ?f (fst e)) (concat ess))"
    using desc by (simp add: image_mset.compositionality comp_def flip: sum_mset_sum_list)
  also have "\<dots> = sum_list (map (\<lambda>e. max 0 (snd e)) (concat ess))"
    using val by (intro arg_cong [where f = sum_list] map_cong refl)
  finally show ?thesis
    using desc by (simp add: credit_sum_def comp_def)
qed

text \<open>The actions of a plan, capped or not, and the entries they describe.\<close>

lemma plan_actions:
  fixes nf pack n lines attributions ix exceptions
  defines "plan \<equiv> build_recovery_plan nf pack n lines attributions ix exceptions"
    and "unresolved \<equiv> filter (unresolved_line (dict_of x_line_key id exceptions)
           (dict_of a_line_key id attributions)) lines"
  assumes keys: "distinct (map ln_key lines)"
  obtains ess rest where "list_all2 describes (rp_actions plan) ess"
    "mset (concat ess @ rest) = mset (map line_entry unresolved)" "rp_note plan = None \<Longrightarrow> rest = []"
    "sorted (map rank_key (rp_actions plan))" "length (rp_actions plan) \<le> n"
proof -
  let ?acts = "all_actions nf pack ix (dict_of a_line_key id attributions)
    (dict_of x_line_key id exceptions) unresolved"
  have unres: "unresolved_lines (dict_of x_line_key id exceptions) (dict_of a_line_key id attributions)
      lines = unresolved"
    using unresolved_lines_filter [OF keys] by (simp add: unresolved_def)
  obtain ess where ess: "list_all2 describes ?acts ess"
    "mset (concat ess) = mset (map line_entry unresolved)"
    using all_actions_describe by blast
  have sorted: "sorted (map rank_key ?acts)"
    by (simp add: all_actions_def case_prod_beta)
  show thesis
  proof (cases "unresolved = []")
    case True
    then show ?thesis
      using that [of "[]" "[]"] unres by (simp add: plan_def build_recovery_plan_def)
  next
    case False
    let ?m = "if n < length ?acts then n else length ?acts"
    have acts: "rp_actions plan = take ?m ?acts" "rp_note plan = None \<longleftrightarrow> length ?acts \<le> n"
      using False unres by (simp_all add: plan_def build_recovery_plan_def Let_def)
    have len: "length ess = length ?acts"
      using list_all2_lengthD [OF ess(1)] by simp
    show ?thesis
    proof (rule that)
      show "list_all2 describes (rp_actions plan) (take ?m ess)"
        unfolding acts(1) by (rule list_all2_takeI [OF ess(1)])
      show "mset (concat (take ?m ess) @ concat (drop ?m ess)) = mset (map line_entry unresolved)"
        using ess(2) by (metis append_take_drop_id concat_append)
      show "rp_note plan = None \<Longrightarrow> concat (drop ?m ess) = []"
        using acts(2) len by simp
      show "sorted (map rank_key (rp_actions plan))"
        unfolding acts(1) take_map [symmetric] by (rule sorted_wrt_take [OF sorted])
      show "length (rp_actions plan) \<le> n"
        by (simp add: acts(1))
    qed
  qed
qed

lemma plan_totals:
  assumes "distinct (map ln_key lines)"
  shows "rp_unresolved_credit_paise (build_recovery_plan nf pack n lines attributions ix exceptions)
      = credit_sum (map ln_amount_paise (filter (unresolved_line (dict_of x_line_key id exceptions)
           (dict_of a_line_key id attributions)) lines))"
    "rp_unresolved_debit_paise (build_recovery_plan nf pack n lines attributions ix exceptions)
      = debit_sum (map ln_amount_paise (filter (unresolved_line (dict_of x_line_key id exceptions)
           (dict_of a_line_key id attributions)) lines))"
    "rp_unresolved_paise (build_recovery_plan nf pack n lines attributions ix exceptions)
      = sum_list (map ln_amount_paise (filter (unresolved_line (dict_of x_line_key id exceptions)
           (dict_of a_line_key id attributions)) lines))"
    "rp_recoverable_if_actioned_paise (build_recovery_plan nf pack n lines attributions ix exceptions)
      = sum_list (map (\<lambda>k. case map_of (dict_of ln_key id lines) k of
          None \<Rightarrow> 0 | Some l \<Rightarrow> max 0 (ln_amount_paise l))
        (remdups (concat (map ra_resolves
          (rp_actions (build_recovery_plan nf pack n lines attributions ix exceptions))))))"
  using unresolved_lines_filter [OF assms]
  by (simp_all add: build_recovery_plan_def Let_def credit_sum_def debit_sum_def)

text \<open>
  C22. The plan counts every credit once. With distinct line keys: no line is in two actions, every
  action concerns unresolved lines, the plan's recoverable amount is the sum over its actions and at
  most the unresolved credits, credits less debits are the net of the unresolved lines, the actions
  are ranked and at most as many as asked for, and when the plan is not capped its actions cover every unresolved line and all
  unresolved credits.
\<close>

theorem recovery_plan_counts_once:
  fixes nf pack n lines attributions ix exceptions
  defines "plan \<equiv> build_recovery_plan nf pack n lines attributions ix exceptions"
    and "unresolved \<equiv> filter (unresolved_line (dict_of x_line_key id exceptions)
           (dict_of a_line_key id attributions)) lines"
  assumes keys: "distinct (map ln_key lines)"
  shows "distinct (concat (map ra_resolves (rp_actions plan)))
    \<and> set (concat (map ra_resolves (rp_actions plan))) \<subseteq> ln_key ` set unresolved
    \<and> rp_recoverable_if_actioned_paise plan = sum_list (map ra_recoverable_paise (rp_actions plan))
    \<and> rp_recoverable_if_actioned_paise plan \<le> rp_unresolved_credit_paise plan
    \<and> rp_unresolved_credit_paise plan - rp_unresolved_debit_paise plan = rp_unresolved_paise plan
    \<and> rp_unresolved_paise plan = sum_list (map ln_amount_paise unresolved)
    \<and> sorted (map rank_key (rp_actions plan)) \<and> length (rp_actions plan) \<le> n
    \<and> (rp_note plan = None \<longrightarrow>
         set (concat (map ra_resolves (rp_actions plan))) = ln_key ` set unresolved
         \<and> rp_recoverable_if_actioned_paise plan = rp_unresolved_credit_paise plan)"
proof -
  obtain ess rest where ess: "list_all2 describes (rp_actions plan) ess"
    "mset (concat ess @ rest) = mset (map line_entry unresolved)" "rp_note plan = None \<Longrightarrow> rest = []"
    and ranked: "sorted (map rank_key (rp_actions plan))" "length (rp_actions plan) \<le> n"
    using plan_actions [OF keys] unfolding plan_def unresolved_def by metis
  have all_keys: "mset (map fst (concat ess) @ map fst rest) = mset (map ln_key unresolved)"
    using arg_cong [OF ess(2), of "image_mset fst"] by (simp add: line_entry_def image_mset.compositionality comp_def)
  have "distinct (map ln_key unresolved)"
    using keys by (simp add: unresolved_def distinct_map inj_on_def)
  then have dist: "distinct (map fst (concat ess))"
    using mset_eq_imp_distinct_iff [OF all_keys] by simp
  have entries: "set (concat ess) \<subseteq> line_entry ` set lines"
    using mset_eq_setD [OF ess(2)] by (auto simp: unresolved_def)
  note sums = describes_sum [OF ess(1) dist]
  have amounts: "mset (map snd (concat ess) @ map snd rest) = mset (map ln_amount_paise unresolved)"
    using arg_cong [OF ess(2), of "image_mset snd"] by (simp add: line_entry_def image_mset.compositionality comp_def)
  have credit: "rp_unresolved_credit_paise plan = credit_sum (map snd (concat ess)) + credit_sum (map snd rest)"
    using credit_sum_mset [OF amounts] plan_totals(1) [OF keys] by (simp add: plan_def unresolved_def)
  have recover: "rp_recoverable_if_actioned_paise plan = sum_list (map ra_recoverable_paise (rp_actions plan))"
    using describes_value [OF keys ess(1) entries dist] plan_totals(4) [OF keys] by (simp add: plan_def)
  have resolves: "set (concat (map ra_resolves (rp_actions plan))) = set (map fst (concat ess))"
    "distinct (concat (map ra_resolves (rp_actions plan)))"
    using sums dist mset_eq_setD mset_eq_imp_distinct_iff by blast+
  have covered: "set (map fst (concat ess)) \<union> set (map fst rest) = ln_key ` set unresolved"
    using mset_eq_setD [OF all_keys] by simp
  have net: "rp_unresolved_credit_paise plan - rp_unresolved_debit_paise plan = rp_unresolved_paise plan"
    "rp_unresolved_paise plan = sum_list (map ln_amount_paise unresolved)"
    unfolding plan_def unresolved_def plan_totals [OF keys] by (simp_all only: credit_minus_debit)
  have le: "rp_recoverable_if_actioned_paise plan \<le> rp_unresolved_credit_paise plan"
    unfolding recover credit conjunct2 [OF sums] by simp
  have uncapped: "set (concat (map ra_resolves (rp_actions plan))) = ln_key ` set unresolved
      \<and> rp_recoverable_if_actioned_paise plan = rp_unresolved_credit_paise plan"
    if "rp_note plan = None"
    using covered resolves(1) ess(3) [OF that] sums unfolding recover credit
    by (simp add: credit_sum_def)
  show ?thesis
    using resolves covered recover le net ranked uncapped by blast
qed

theorem recovery_plan_counts_once_witness:
  "distinct (concat (map ra_resolves (rp_actions (build_recovery_plan id None 5 [sample_line]
      [Abstention ''k1'' 0 []] (recon_index_of [sample_row]) []))))
    \<and> rp_recoverable_if_actioned_paise (build_recovery_plan id None 5 [sample_line]
        [Abstention ''k1'' 0 []] (recon_index_of [sample_row]) []) \<le> 97640
    \<and> rp_unresolved_paise (build_recovery_plan id None 5 [sample_line]
        [Abstention ''k1'' 0 []] (recon_index_of [sample_row]) []) = 97640"
proof -
  let ?plan = "build_recovery_plan id None 5 [sample_line] [Abstention ''k1'' 0 []] (recon_index_of [sample_row]) []"
  have "filter (unresolved_line (dict_of x_line_key id []) (dict_of a_line_key id [Abstention ''k1'' 0 []]))
      [sample_line] = [sample_line]"
    by (simp add: unresolved_line_def dict_of_def dset_def sample_line_def)
  then have "rp_unresolved_credit_paise ?plan = 97640" "rp_unresolved_paise ?plan = 97640"
    by (simp_all only: plan_totals distinct_singleton list.map) (simp_all add: credit_sum_def sample_line_def)
  then show ?thesis
    using recovery_plan_counts_once [of "[sample_line]" id None 5 "[Abstention ''k1'' 0 []]"
      "recon_index_of [sample_row]" "[]"] by simp
qed

end
