(* ===== verification/PyRepr.thy ===== *)
theory PyRepr
  imports Models
begin

section \<open>Floats, lists and dictionaries as text\<close>

text \<open>
  \<open>repr\<close> of a float is the shortest decimal that reads back as the same double, and of those the
  closest to it; \<open>shortest\<close> tries one to seventeen digits. \<open>py_str\<close> is \<open>str\<close> of a decoded JSON value:
  the text itself for a string, \<open>repr\<close> for everything else.
\<close>

fun small_expo :: "nat \<Rightarrow> rat \<Rightarrow> int" where
  "small_expo 0 x = 0"
| "small_expo (Suc k) x = (if 1 \<le> x then 0 else small_expo k (10 * x) - 1)"

text \<open>The power of ten of the leading digit of a positive number; 400 steps reach the least double.\<close>

definition dec_expo :: "rat \<Rightarrow> int" where
  "dec_expo x = (if 1 \<le> x then int (length (str_nn \<lfloor>x\<rfloor>)) - 1 else small_expo 400 x)"

definition pow10 :: "int \<Rightarrow> rat" where
  "pow10 k = (if 0 \<le> k then 10 ^ nat k else 1 / 10 ^ nat (- k))"

fun shortest :: "nat \<Rightarrow> nat \<Rightarrow> rat \<Rightarrow> int \<Rightarrow> int \<times> int" where
  "shortest 0 n x p = (\<lfloor>x / pow10 (p - 16)\<rfloor>, p - 16)"
| "shortest (Suc k) n x p =
    (let u = pow10 (p - int n + 1); lo = \<lfloor>x / u\<rfloor>;
         ok = filter (\<lambda>d. fl (of_int d * u) = x) [lo, lo + 1]
     in case ok of
          [] \<Rightarrow> shortest k (Suc n) x p
        | [d] \<Rightarrow> (d, p - int n + 1)
        | _ \<Rightarrow> (rhe (x / u), p - int n + 1))"

definition exp_text :: "int \<Rightarrow> string" where
  "exp_text e = ''e'' @ (if e < 0 then ''-'' else ''+'') @ zpad 2 (str_nn \<bar>e\<bar>)"

definition float_repr :: "rat \<Rightarrow> string" where
  "float_repr x =
    (if x = 0 then ''0.0''
     else case shortest 17 1 \<bar>x\<bar> (dec_expo \<bar>x\<bar>) of (d, q) \<Rightarrow>
       let p = q + int (length (str_nn d)) - 1;
           ds = rev (dropWhile (\<lambda>c. c = CHR ''0'') (rev (str_nn d))); n = int (length ds)
       in (if x < 0 then ''-'' else []) @
          (if p < -4 \<or> 16 \<le> p
           then take 1 ds @ (if n = 1 then [] else ''.'' @ drop 1 ds) @ exp_text p
           else if p < 0 then ''0.'' @ replicate (nat (- p - 1)) (CHR ''0'') @ ds
           else if n \<le> p + 1 then ds @ replicate (nat (p + 1 - n)) (CHR ''0'') @ ''.0''
           else take (nat (p + 1)) ds @ ''.'' @ drop (nat (p + 1)) ds))"

fun json_repr :: "json \<Rightarrow> string" where
  "json_repr JNull = ''None''"
| "json_repr (JBool b) = (if b then ''True'' else ''False'')"
| "json_repr (JInt i) = str_int i"
| "json_repr (JFloat x) = float_repr x"
| "json_repr (JStr s) = py_repr s"
| "json_repr (JList js) = ''['' @ py_join '', '' (map json_repr js) @ '']''"
| "json_repr (JObj kvs) = ''{'' @ py_join '', '' (map (\<lambda>(k, v). py_repr k @ '': '' @ json_repr v) kvs) @ ''}''"

definition py_str :: "json \<Rightarrow> string" where
  "py_str j = (case j of JStr s \<Rightarrow> s | _ \<Rightarrow> json_repr j)"

text \<open>The truth value of a decoded JSON value.\<close>

definition json_truthy :: "json \<Rightarrow> bool" where
  "json_truthy j = (case j of JNull \<Rightarrow> False | JBool b \<Rightarrow> b | JInt i \<Rightarrow> i \<noteq> 0 | JFloat x \<Rightarrow> x \<noteq> 0
     | JStr s \<Rightarrow> s \<noteq> [] | JList js \<Rightarrow> js \<noteq> [] | JObj kvs \<Rightarrow> kvs \<noteq> [])"

text \<open>\<open>d.get(k)\<close> of a decoded object, \<open>None\<close> when the key is absent.\<close>

definition jget :: "(string \<times> json) list \<Rightarrow> string \<Rightarrow> json" where
  "jget d k = (case map_of d k of None \<Rightarrow> JNull | Some v \<Rightarrow> v)"

end
