(* ===== verification/PyInput.thy ===== *)
theory PyInput
  imports PyDate
begin

section \<open>Reading text: UTF-8, integers, decimals and dates\<close>

text \<open>
  What the loaders use of Python's library: \<open>bytes.decode\<close>, \<open>int(str)\<close>, the part of the \<open>decimal\<close>
  module behind \<open>(Decimal(raw) * 100).quantize(Decimal("1"), rounding=ROUND_HALF_UP)\<close> with the
  default context (28 digits, exponents up to 999999, \<open>InvalidOperation\<close> and \<open>Overflow\<close> trapped),
  \<open>datetime.strptime\<close> for numeric day, month and year fields, and \<open>date.fromisoformat\<close>. Digits are
  the ASCII ones.
\<close>

subsection \<open>UTF-8\<close>

definition utf8_cont :: "char \<Rightarrow> bool" where
  "utf8_cont c \<longleftrightarrow> 128 \<le> code c \<and> code c < 192"

text \<open>
  The bytes that the strict decoder accepts: no overlong forms, no surrogates, nothing above
  \<open>U+10FFFF\<close>. As texts are represented by their encoding, decoding is this test and, for
  \<open>utf-8-sig\<close>, the removal of one leading byte order mark.
\<close>

fun utf8_ok :: "string \<Rightarrow> bool" where
  "utf8_ok [] = True"
| "utf8_ok (a # s) =
    (if code a < 128 then utf8_ok s
     else if 194 \<le> code a \<and> code a < 224 then
       (case s of b # t \<Rightarrow> utf8_cont b \<and> utf8_ok t | [] \<Rightarrow> False)
     else if 224 \<le> code a \<and> code a < 240 then
       (case s of b # c # t \<Rightarrow> utf8_cont b \<and> utf8_cont c
            \<and> (code a = 224 \<longrightarrow> 160 \<le> code b) \<and> (code a = 237 \<longrightarrow> code b < 160) \<and> utf8_ok t
        | _ \<Rightarrow> False)
     else if 240 \<le> code a \<and> code a < 245 then
       (case s of b # c # d # t \<Rightarrow> utf8_cont b \<and> utf8_cont c \<and> utf8_cont d
            \<and> (code a = 240 \<longrightarrow> 144 \<le> code b) \<and> (code a = 244 \<longrightarrow> code b < 144) \<and> utf8_ok t
        | _ \<Rightarrow> False)
     else False)"

definition BOM :: string where
  "BOM = [CHR 0xEF, CHR 0xBB, CHR 0xBF]"

definition decode_utf8 :: "string \<Rightarrow> string option" where
  "decode_utf8 bs = (if utf8_ok bs then Some bs else None)"

definition decode_utf8_sig :: "string \<Rightarrow> string option" where
  "decode_utf8_sig bs = decode_utf8 (if prefix BOM bs then drop 3 bs else bs)"

text \<open>The number of characters of a text.\<close>

definition text_len :: "string \<Rightarrow> int" where
  "text_len s = int (length (filter (\<lambda>c. \<not> utf8_cont c) s))"

subsection \<open>Integers\<close>

text \<open>Digits with single underscores between them.\<close>

fun grouped_digits :: "string \<Rightarrow> bool" where
  "grouped_digits [] = False"
| "grouped_digits [c] = is_digit c"
| "grouped_digits (c # d # s) = (is_digit c \<and>
     (if d = CHR ''_'' then grouped_digits s else grouped_digits (d # s)))"

definition drop_char :: "char \<Rightarrow> string \<Rightarrow> string" where
  "drop_char c s = filter (\<lambda>x. x \<noteq> c) s"

definition split_sign :: "string \<Rightarrow> bool \<times> string" where
  "split_sign s = (case s of [] \<Rightarrow> (False, [])
     | c # cs \<Rightarrow> if c = CHR ''-'' then (True, cs) else if c = CHR ''+'' then (False, cs) else (False, s))"

text \<open>
  \<open>int(s)\<close>, which also refuses more than 4300 digits; \<open>None\<close> is \<open>ValueError\<close>. In a pure ASCII text the
  information separators are not whitespace for it, unlike for \<open>str.strip\<close>.
\<close>

definition int_strip :: "string \<Rightarrow> string" where
  "int_strip s = (if list_all (\<lambda>c. code c < 128) s
     then (let ws = [[CHR 0x09], [CHR 0x0A], [CHR 0x0B], [CHR 0x0C], [CHR 0x0D], [CHR 0x20]]
           in rev (strip_front ws (rev (strip_front ws s))))
     else py_strip s)"

definition py_int :: "string \<Rightarrow> int option" where
  "py_int s = (case split_sign (int_strip s) of (neg, body) \<Rightarrow>
     let ds = drop_char (CHR ''_'') body in
     if grouped_digits body \<and> length ds \<le> 4300
     then Some (if neg then - int_of_digits ds else int_of_digits ds) else None)"

subsection \<open>Decimals\<close>

datatype decimal = Dec bool int int | Dec_Inf bool | Dec_NaN | Dec_sNaN
datatype dec_error = Dec_Invalid | Dec_Value | Dec_Overflow

definition ndigits :: "int \<Rightarrow> int" where
  "ndigits c = (if c = 0 then 1 else int (length (str_nn c)))"

definition dec_exp :: "string \<Rightarrow> int option" where
  "dec_exp s = (case s of [] \<Rightarrow> Some 0
     | c # cs \<Rightarrow> if lower_char c = CHR ''e'' then
         (case split_sign cs of (neg, ds) \<Rightarrow> if ds \<noteq> [] \<and> list_all is_digit ds
            then Some (if neg then - int_of_digits ds else int_of_digits ds) else None)
       else None)"

text \<open>
  \<open>Decimal(s)\<close>: surrounding whitespace and all underscores are dropped. The conversion is exact, so
  that exponents the widest context cannot hold are an \<open>InvalidOperation\<close>, like every other text
  that is not a number.
\<close>

definition dec_finite :: "bool \<Rightarrow> string \<Rightarrow> decimal option" where
  "dec_finite neg s =
    (let ip = takeWhile is_digit s; r = dropWhile is_digit s;
         dot = (r \<noteq> [] \<and> hd r = CHR ''.'');
         fp = (if dot then takeWhile is_digit (tl r) else []);
         rest = (if dot then dropWhile is_digit (tl r) else r);
         c = int_of_digits (ip @ fp)
     in if ip @ fp = [] then None
        else case dec_exp rest of None \<Rightarrow> None
        | Some ex \<Rightarrow> (let e = ex - int (length fp) in
            if e < -1999999999999999997 \<or> 999999999999999999 < (if c = 0 then e else e + ndigits c - 1)
            then None else Some (Dec neg c e)))"

definition dec_of_text :: "string \<Rightarrow> decimal option" where
  "dec_of_text raw = (case split_sign (drop_char (CHR ''_'') (py_strip raw)) of (neg, s) \<Rightarrow>
     let l = py_lower s in
     if l = ''inf'' \<or> l = ''infinity'' then Some (Dec_Inf neg)
     else if prefix ''nan'' l then (if list_all is_digit (drop 3 l) then Some Dec_NaN else None)
     else if prefix ''snan'' l then (if list_all is_digit (drop 4 l) then Some Dec_sNaN else None)
     else dec_finite neg s)"

text \<open>
  The coefficient and exponent of the product with 100, rounded half-even to 28 digits, and the
  integer the quantisation gives: half up, \<open>InvalidOperation\<close> when it has more than 28 digits.
  \<open>adj\<close> is the exponent of the leading digit. A value below one tenth rounds to zero, and so do the
  subnormal products.
\<close>

definition dec_round :: "int \<Rightarrow> int \<Rightarrow> int \<times> int" where
  "dec_round c e = (let k = ndigits c - 28 in
     if k \<le> 0 then (c, e) else (rhe_quot c (10 ^ nat k), e + k))"

definition half_up :: "int \<Rightarrow> nat \<Rightarrow> int" where
  "half_up c k = (2 * c + 10 ^ k) div (2 * 10 ^ k)"

definition quantize_int :: "int \<Rightarrow> int \<Rightarrow> dec_error + int" where
  "quantize_int c e = (let adj = e + ndigits c - 1 in
     if c = 0 then Inr 0
     else if 28 \<le> adj then Inl Dec_Invalid
     else if adj < -1 then Inr 0
     else Inr (if 0 \<le> e then c * 10 ^ nat e else half_up c (nat (- e))))"

definition dec_paise :: "decimal \<Rightarrow> dec_error + int" where
  "dec_paise d = (case d of
     Dec_Inf _ \<Rightarrow> Inl Dec_Invalid | Dec_sNaN \<Rightarrow> Inl Dec_Invalid | Dec_NaN \<Rightarrow> Inl Dec_Value
   | Dec neg c e \<Rightarrow> (case dec_round c (e + 2) of (c', e') \<Rightarrow>
       if c' \<noteq> 0 \<and> 999999 < e' + ndigits c' - 1 then Inl Dec_Overflow
       else map_sum id (\<lambda>v. if neg then - v else v) (quantize_int c' e')))"

subsection \<open>Dates\<close>

definition is_leap :: "int \<Rightarrow> bool" where
  "is_leap y \<longleftrightarrow> y mod 4 = 0 \<and> (y mod 100 \<noteq> 0 \<or> y mod 400 = 0)"

definition days_in_month :: "int \<Rightarrow> int \<Rightarrow> int" where
  "days_in_month y m = (if m = 2 then (if is_leap y then 29 else 28)
     else if m \<in> {4, 6, 9, 11} then 30 else 31)"

definition days_before_year :: "int \<Rightarrow> int" where
  "days_before_year y = (y - 1) * 365 + (y - 1) div 4 - (y - 1) div 100 + (y - 1) div 400"

definition days_before_month :: "int \<Rightarrow> int \<Rightarrow> int" where
  "days_before_month y m = sum_list (map (days_in_month y) [1..m - 1])"

definition ymd_ordinal :: "int \<Rightarrow> int \<Rightarrow> int \<Rightarrow> date" where
  "ymd_ordinal y m d = days_before_year y + days_before_month y m + d"

definition valid_ymd :: "int \<Rightarrow> int \<Rightarrow> int \<Rightarrow> bool" where
  "valid_ymd y m d \<longleftrightarrow> 1 \<le> y \<and> y \<le> 9999 \<and> 1 \<le> m \<and> m \<le> 12 \<and> 1 \<le> d \<and> d \<le> days_in_month y m"

definition py_date :: "int \<Rightarrow> int \<Rightarrow> int \<Rightarrow> date option" where
  "py_date y m d = (if valid_ymd y m d then Some (ymd_ordinal y m d) else None)"

text \<open>The fields of \<open>strptime\<close>: \<open>%d\<close> (also with a leading space), \<open>%m\<close>, \<open>%Y\<close> and \<open>%y\<close>.\<close>

definition field_d :: "string \<Rightarrow> int option" where
  "field_d s = (let t = (if s \<noteq> [] \<and> hd s = CHR 0x20 then tl s else s) in
     if list_all is_digit t \<and> (length t = 1 \<or> length t = 2 \<and> t = s) \<and> 1 \<le> int_of_digits t
        \<and> int_of_digits t \<le> 31 then Some (int_of_digits t) else None)"

definition field_m :: "string \<Rightarrow> int option" where
  "field_m s = (if list_all is_digit s \<and> (length s = 1 \<or> length s = 2) \<and> 1 \<le> int_of_digits s
     \<and> int_of_digits s \<le> 12 then Some (int_of_digits s) else None)"

definition field_Y :: "string \<Rightarrow> int option" where
  "field_Y s = (if list_all is_digit s \<and> length s = 4 then Some (int_of_digits s) else None)"

definition field_y :: "string \<Rightarrow> int option" where
  "field_y s = (if list_all is_digit s \<and> length s = 2
     then Some (if int_of_digits s \<le> 68 then 2000 + int_of_digits s else 1900 + int_of_digits s) else None)"

text \<open>\<open>strptime(raw, "%d<sep>%m<sep>%Y").date()\<close>, the year field as an argument.\<close>

definition strptime_dmy :: "char \<Rightarrow> (string \<Rightarrow> int option) \<Rightarrow> string \<Rightarrow> date option" where
  "strptime_dmy sep year raw =
    (case py_partition sep raw of (d, r) \<Rightarrow> case py_partition sep r of (m, y) \<Rightarrow>
       (case (field_d d, field_m m, year y) of
          (Some d', Some m', Some y') \<Rightarrow> py_date y' m' d' | _ \<Rightarrow> None))"

text \<open>Exactly \<open>n\<close> digits at the front of a text.\<close>

definition digits_at :: "nat \<Rightarrow> string \<Rightarrow> (int \<times> string) option" where
  "digits_at n s = (if length (take n s) = n \<and> list_all is_digit (take n s)
     then Some (int_of_digits (take n s), drop n s) else None)"

definition iso_week1_monday :: "int \<Rightarrow> int" where
  "iso_week1_monday y = (let first = ymd_ordinal y 1 1; wd = (first + 6) mod 7 in
     if 3 < wd then first - wd + 7 else first - wd)"

definition iso_week_date :: "int \<Rightarrow> int \<Rightarrow> int \<Rightarrow> date option" where
  "iso_week_date y w d = (let wd = (ymd_ordinal y 1 1 + 6) mod 7;
       n = iso_week1_monday y + (w - 1) * 7 + d - 1 in
     if 1 \<le> y \<and> 1 \<le> w \<and> (w \<le> 52 \<or> w = 53 \<and> (wd = 3 \<or> wd = 2 \<and> is_leap y)) \<and> 1 \<le> d \<and> d \<le> 7
        \<and> 1 \<le> n \<and> n \<le> 3652059 then Some n else None)"

text \<open>
  \<open>date.fromisoformat\<close>: calendar dates \<open>YYYY-MM-DD\<close> and \<open>YYYYMMDD\<close>, week dates \<open>YYYY-Www[-D]\<close> and
  \<open>YYYYWww[D]\<close>.
\<close>

definition iso_rest :: "bool \<Rightarrow> int \<Rightarrow> string \<Rightarrow> date option" where
  "iso_rest sep y s =
    (if s \<noteq> [] \<and> hd s = CHR ''W'' then
       (case digits_at 2 (tl s) of None \<Rightarrow> None
        | Some (w, r) \<Rightarrow> if r = [] then iso_week_date y w 1
          else if sep \<and> hd r \<noteq> CHR ''-'' then None
          else (case digits_at 1 (if sep then tl r else r) of
             Some (d, []) \<Rightarrow> iso_week_date y w d | _ \<Rightarrow> None))
     else (case digits_at 2 s of None \<Rightarrow> None
        | Some (m, r) \<Rightarrow> if sep \<and> (r = [] \<or> hd r \<noteq> CHR ''-'') then None
          else (case digits_at 2 (if sep then tl r else r) of
             Some (d, []) \<Rightarrow> py_date y m d | _ \<Rightarrow> None)))"

definition date_fromisoformat :: "string \<Rightarrow> date option" where
  "date_fromisoformat s = (case digits_at 4 s of None \<Rightarrow> None
     | Some (y, r) \<Rightarrow> if r \<noteq> [] \<and> hd r = CHR ''-'' then iso_rest True y (tl r) else iso_rest False y r)"

text \<open>
  \<open>datetime.strptime(raw, "%Y-%m-%d %H:%M:%S")\<close>, where the blank of the format stands for any run of
  whitespace, and the same with \<open>T\<close>, matched without regard to case. Seconds are those of a
  \<open>datetime\<close>: the leap seconds the format admits are refused by the constructor.
\<close>

definition field_upto :: "int \<Rightarrow> string \<Rightarrow> int option" where
  "field_upto hi s = (if list_all is_digit s \<and> (length s = 1 \<or> length s = 2) \<and> int_of_digits s \<le> hi
     then Some (int_of_digits s) else None)"

definition strptime_hms :: "string \<Rightarrow> int option" where
  "strptime_hms s = (case py_partition (CHR '':'') s of (h, r) \<Rightarrow> case py_partition (CHR '':'') r of (m, sec) \<Rightarrow>
     (case (field_upto 23 h, field_upto 59 m, field_upto 59 sec) of
        (Some h', Some m', Some s') \<Rightarrow> Some (h' * 3600 + m' * 60 + s') | _ \<Rightarrow> None))"

definition strip_blank :: "string \<Rightarrow> string option" where
  "strip_blank s = (if class_len ws_chars s = 0 \<or> s = [] then None else Some (py_lstrip s))"

definition strip_T :: "string \<Rightarrow> string option" where
  "strip_T s = (case s of [] \<Rightarrow> None | c # cs \<Rightarrow> if c = CHR ''T'' \<or> c = CHR ''t'' then Some cs else None)"

definition strptime_iso :: "(string \<Rightarrow> string option) \<Rightarrow> string \<Rightarrow> datetime option" where
  "strptime_iso sep raw =
    (case py_partition (CHR ''-'') raw of (y, r) \<Rightarrow> case py_partition (CHR ''-'') r of (m, rest) \<Rightarrow>
       let d = (if rest \<noteq> [] \<and> hd rest = CHR 0x20 then take 2 rest else takeWhile is_digit rest)
       in (case (field_Y y, field_m m, field_d d, sep (drop (length d) rest)) of
             (Some y', Some m', Some d', Some t) \<Rightarrow>
               (case (py_date y' m' d', strptime_hms t) of
                  (Some n, Some s) \<Rightarrow> Some (n * 86400 + s) | _ \<Rightarrow> None)
           | _ \<Rightarrow> None))"

subsection \<open>Facts about stripping and signs\<close>

definition prefix_free :: "string list \<Rightarrow> bool" where
  "prefix_free cls \<longleftrightarrow> [] \<notin> set cls \<and> (\<forall>u \<in> set cls. \<forall>v \<in> set cls. prefix u v \<longrightarrow> u = v)"

lemma prefix_free_ws: "prefix_free ws_chars"
  unfolding prefix_free_def ws_chars_def by simp

lemma class_len_append:
  assumes "prefix_free cls" "w \<in> set cls"
  shows "class_len cls (w @ x) = length w"
proof -
  have uniq: "v = w" if "v \<in> set cls" "prefix v (w @ x)" for v
    using that assms prefix_same_cases [of v "w @ x" w] by (auto simp: prefix_free_def)
  obtain v where "find (\<lambda>w'. prefix w' (w @ x)) cls = Some v"
    using assms(2) by (metis append_prefixD find_None_iff not_None_eq prefix_order.refl prefixI)
  moreover from this have "v = w"
    by (intro uniq) (auto simp: find_Some_iff)
  ultimately show ?thesis
    by (simp add: class_len_def)
qed

lemma strip_front_concat:
  "prefix_free cls \<Longrightarrow> set ws \<subseteq> set cls \<Longrightarrow> strip_front cls (concat ws @ x) = strip_front cls x"
proof (induction ws)
  case (Cons w ws)
  have "w \<noteq> []" using Cons.prems by (auto simp: prefix_free_def)
  then show ?case
    using Cons class_len_append [of cls w "concat ws @ x"]
    by (subst strip_front.simps) (simp add: Let_def)
qed simp

lemma strip_front_decomp: "\<exists>ws. set ws \<subseteq> set cls \<and> s = concat ws @ strip_front cls s"
proof (induction cls s rule: strip_front.induct)
  case (1 cls s)
  show ?case
  proof (cases "class_len cls s = 0 \<or> s = []")
    case True
    then show ?thesis
      by (subst strip_front.simps) (auto simp: Let_def intro: exI [of _ "[]"])
  next
    case False
    then obtain w where w: "w \<in> set cls" "prefix w s" "class_len cls s = length w"
      by (auto simp: class_len_def find_Some_iff split: option.split_asm) (metis nth_mem)
    obtain ws where "set ws \<subseteq> set cls" "drop (length w) s = concat ws @ strip_front cls (drop (length w) s)"
      using "1.IH" [OF refl] False w(3) by auto
    moreover have "s = w @ drop (length w) s"
      using w(2) by (auto simp: prefix_def)
    moreover have "strip_front cls s = strip_front cls (drop (length w) s)"
      using False w(3) by (subst strip_front.simps) (simp add: Let_def)
    ultimately show ?thesis
      using w(1) by (intro exI [of _ "w # ws"]) auto
  qed
qed

lemma strip_front_plain: "class_len cls s = 0 \<Longrightarrow> strip_front cls s = s"
  by (subst strip_front.simps) simp

text \<open>A leading minus sign survives every stripping, and stripping reveals no other one.\<close>

lemma class_len_minus: "class_len ws_chars (CHR ''-'' # s) = 0"
  by (simp add: class_len_def ws_chars_def)

lemma py_rstrip_prefix: "prefix (py_rstrip s) s"
proof -
  obtain ws where "rev s = concat ws @ strip_front (map rev ws_chars) (rev s)"
    using strip_front_decomp by blast
  then have "s = py_rstrip s @ rev (concat ws)"
    unfolding py_rstrip_def by (metis rev_append rev_rev_ident)
  then show ?thesis by (metis prefixI)
qed

lemma minus_after_strip:
  assumes "prefix ''-'' (py_strip (drop_char c (py_strip s)))"
    and "c \<noteq> CHR ''-''" "\<forall>w \<in> set ws_chars. c \<notin> set w"
  shows "prefix ''-'' (py_lstrip (drop_char c s))"
proof -
  let ?t = "drop_char c (py_strip s)"
  obtain r where lead: "py_lstrip ?t = CHR ''-'' # r"
    using prefix_order.trans [OF assms(1) [unfolded py_strip_def [of ?t]] py_rstrip_prefix]
    by (auto simp: prefix_def)
  obtain vs where vs: "set vs \<subseteq> set ws_chars" "?t = concat vs @ CHR ''-'' # r"
    using strip_front_decomp [of ws_chars ?t] lead by (auto simp: py_lstrip_def)
  obtain ws where ws: "set ws \<subseteq> set ws_chars" "s = concat ws @ py_lstrip s"
    using strip_front_decomp [of ws_chars s] by (auto simp: py_lstrip_def)
  obtain tl_part where tl_part: "py_lstrip s = py_strip s @ tl_part"
    using py_rstrip_prefix [of "py_lstrip s"] by (auto simp: py_strip_def prefix_def)
  have "drop_char c (concat ws) = concat ws"
    using ws(1) assms(3) by (auto simp: drop_char_def filter_id_conv)
  then have "drop_char c s = concat ws @ ?t @ drop_char c tl_part"
    by (subst ws(2)) (simp add: drop_char_def tl_part)
  then have "drop_char c s = concat (ws @ vs) @ CHR ''-'' # r @ drop_char c tl_part"
    by (simp add: vs(2))
  then show ?thesis
    using strip_front_concat [OF prefix_free_ws, of "ws @ vs"] ws(1) vs(1)
    by (simp add: py_lstrip_def strip_front_plain class_len_minus)
qed

lemma int_of_digits_nonneg: "list_all is_digit s \<Longrightarrow> 0 \<le> int_of_digits s"
  by (induction s rule: rev_induct) (auto simp: int_of_digits_def is_digit_def digit_val_def)

lemma dec_of_text_sign:
  assumes "dec_of_text raw = Some (Dec neg c e)"
  shows "0 \<le> c \<and> (neg \<longrightarrow> prefix ''-'' (drop_char (CHR ''_'') (py_strip raw)))"
proof -
  obtain neg' s where s: "split_sign (drop_char (CHR ''_'') (py_strip raw)) = (neg', s)" by fastforce
  then have "dec_finite neg' s = Some (Dec neg c e)"
    using assms by (auto simp: dec_of_text_def Let_def split: if_split_asm)
  then have fin: "neg' = neg" "\<exists>u v. c = int_of_digits (takeWhile is_digit u @ takeWhile is_digit v)"
    by (auto simp: dec_finite_def Let_def split: if_split_asm option.split_asm)
       (metis append_Nil2 takeWhile.simps(1))+
  have digits: "list_all is_digit (takeWhile is_digit x)" for x
    by (auto simp: list_all_iff dest: set_takeWhileD)
  show ?thesis
    using fin s digits int_of_digits_nonneg
    by (auto simp: split_sign_def split: list.split_asm if_split_asm)
qed

lemma dec_paise_nonneg:
  assumes "dec_paise (Dec False c e) = Inr v" "0 \<le> c"
  shows "0 \<le> v"
proof -
  obtain c' e' where r: "dec_round c (e + 2) = (c', e')" by fastforce
  have "0 \<le> c'"
    using r assms(2)
    by (auto simp: dec_round_def Let_def rhe_quot_def pos_imp_zdiv_nonneg_iff add_nonneg_nonneg
        split: if_split_asm)
  moreover have "quantize_int c' e' = Inr v"
    using assms(1) by (auto simp: dec_paise_def r map_sum_def split: if_split_asm sum.split_asm)
  ultimately show ?thesis
    by (auto simp: quantize_int_def half_up_def Let_def pos_imp_zdiv_nonneg_iff split: if_split_asm)
qed

end
