(* ===== verification/PyCsv.thy ===== *)
theory PyCsv
  imports PyInput
begin

section \<open>The CSV reader\<close>

text \<open>
  \<open>csv.reader\<close> with the default dialect, as the state machine of the library: one transition per
  character and one for the end of every line of the source, which is how a quoted field spans lines.
  The records come with the value of \<open>line_num\<close> after they were read. The reader is lazy: the error
  that stops it, if any, is reported after the records before it.
\<close>

datatype csv_state = START_RECORD | START_FIELD | IN_FIELD | IN_QUOTED_FIELD
  | QUOTE_IN_QUOTED_FIELD | EAT_CRNL

datatype csv_error = Field_Limit | Stray_Newline

record csv_parser =
  cs_state :: csv_state
  cs_field :: string
  cs_fields :: "string list"

definition csv_init :: csv_parser where
  "csv_init = \<lparr>cs_state = START_RECORD, cs_field = [], cs_fields = []\<rparr>"

definition FIELD_LIMIT :: int where
  "FIELD_LIMIT = 131072"

abbreviation LF :: char where "LF \<equiv> CHR 0x0A"
abbreviation CR :: char where "CR \<equiv> CHR 0x0D"
abbreviation COMMA :: char where "COMMA \<equiv> CHR 0x2C"
abbreviation QUOTE :: char where "QUOTE \<equiv> CHR 0x22"

text \<open>A field holds at most \<open>FIELD_LIMIT\<close> characters; the later bytes of a character are not counted.\<close>

definition add_char :: "char \<Rightarrow> csv_state \<Rightarrow> csv_parser \<Rightarrow> csv_error + csv_parser" where
  "add_char c st p = (if \<not> utf8_cont c \<and> FIELD_LIMIT \<le> text_len (cs_field p) then Inl Field_Limit
     else Inr (p\<lparr>cs_field := cs_field p @ [c], cs_state := st\<rparr>))"

definition save_field :: "csv_state \<Rightarrow> csv_parser \<Rightarrow> csv_error + csv_parser" where
  "save_field st p = Inr (p\<lparr>cs_fields := cs_fields p @ [cs_field p], cs_field := [], cs_state := st\<rparr>)"

definition is_newline :: "char \<Rightarrow> bool" where
  "is_newline c \<longleftrightarrow> c = LF \<or> c = CR"

definition at_field_start :: "char \<Rightarrow> csv_parser \<Rightarrow> csv_error + csv_parser" where
  "at_field_start c p =
    (if is_newline c then save_field EAT_CRNL p
     else if c = QUOTE then Inr (p\<lparr>cs_state := IN_QUOTED_FIELD\<rparr>)
     else if c = COMMA then save_field START_FIELD p
     else add_char c IN_FIELD p)"

definition process_char :: "csv_parser \<Rightarrow> char \<Rightarrow> csv_error + csv_parser" where
  "process_char p c = (case cs_state p of
     START_RECORD \<Rightarrow> if is_newline c then Inr (p\<lparr>cs_state := EAT_CRNL\<rparr>) else at_field_start c p
   | START_FIELD \<Rightarrow> at_field_start c p
   | IN_FIELD \<Rightarrow> if is_newline c then save_field EAT_CRNL p
       else if c = COMMA then save_field START_FIELD p else add_char c IN_FIELD p
   | IN_QUOTED_FIELD \<Rightarrow> if c = QUOTE then Inr (p\<lparr>cs_state := QUOTE_IN_QUOTED_FIELD\<rparr>)
       else add_char c IN_QUOTED_FIELD p
   | QUOTE_IN_QUOTED_FIELD \<Rightarrow> if c = QUOTE then add_char c IN_QUOTED_FIELD p
       else if c = COMMA then save_field START_FIELD p
       else if is_newline c then save_field EAT_CRNL p else add_char c IN_FIELD p
   | EAT_CRNL \<Rightarrow> if is_newline c then Inr p else Inl Stray_Newline)"

definition process_eol :: "csv_parser \<Rightarrow> csv_parser" where
  "process_eol p = (case cs_state p of
     START_RECORD \<Rightarrow> p | IN_QUOTED_FIELD \<Rightarrow> p | EAT_CRNL \<Rightarrow> p\<lparr>cs_state := START_RECORD\<rparr>
   | _ \<Rightarrow> p\<lparr>cs_fields := cs_fields p @ [cs_field p], cs_field := [], cs_state := START_RECORD\<rparr>)"

fun feed :: "csv_parser \<Rightarrow> string \<Rightarrow> csv_error + csv_parser" where
  "feed p [] = Inr p"
| "feed p (c # cs) = (case process_char p c of Inl e \<Rightarrow> Inl e | Inr q \<Rightarrow> feed q cs)"

type_synonym csv_stream = "(string list \<times> nat) list \<times> csv_error option"

fun csv_rows :: "csv_parser \<Rightarrow> nat \<Rightarrow> string list \<Rightarrow> csv_stream" where
  "csv_rows p n [] = (if cs_field p \<noteq> [] \<or> cs_state p = IN_QUOTED_FIELD
     then ([(cs_fields p @ [cs_field p], n)], None) else ([], None))"
| "csv_rows p n (l # ls) = (case feed p l of Inl e \<Rightarrow> ([], Some e)
   | Inr q \<Rightarrow> (let q = process_eol q in
       if cs_state q = START_RECORD
       then (case csv_rows csv_init (Suc n) ls of (rows, e) \<Rightarrow> ((cs_fields q, Suc n) # rows, e))
       else csv_rows q (Suc n) ls))"

text \<open>The lines of \<open>io.StringIO(text, newline="")\<close>, with their terminators.\<close>

fun text_lines :: "string \<Rightarrow> string \<Rightarrow> string list" where
  "text_lines acc [] = (if acc = [] then [] else [acc])"
| "text_lines acc [c] = [acc @ [c]]"
| "text_lines acc (c # d # s) =
    (if c = LF then (acc @ [c]) # text_lines [] (d # s)
     else if c = CR then (if d = LF then (acc @ [c, d]) # text_lines [] s
                          else (acc @ [c]) # text_lines [] (d # s))
     else text_lines (acc @ [c]) (d # s))"

definition csv_reader :: "string \<Rightarrow> csv_stream" where
  "csv_reader text = csv_rows csv_init 0 (text_lines [] text)"

end
