(* ===== verification/BankAdapters.thy ===== *)
theory BankAdapters
  imports PyCsv Models
begin

section \<open>Bank statements: \<open>engine/bank_adapters.py\<close>\<close>

text \<open>
  The generic CSV adapter and the dispatcher. A statement is a text; \<open>csv_reader\<close> gives its records,
  each with the line number it ends on. The adapter is a record of its identifier, its header test and
  its row parser, so that the dispatcher takes any list of adapters. \<open>hexdigest\<close>, the parameter of the
  line key, is \<open>hashlib.sha256(...).hexdigest()\<close>. Every \<open>raise InputError\<close> is a constructor of
  \<open>input_error\<close>; \<open>Uncaught_Overflow\<close> is the \<open>decimal.Overflow\<close> that no handler catches.
\<close>

datatype input_error =
    Bad_Amount string string | Contradicting_Marker string string string | Negative_Amount string string
  | Bad_Date string string | Header_Columns | Duplicate_Columns "string list"
  | Missing_Columns "string list" | Column_Count nat nat nat | Not_Exactly_One nat
  | No_Data_Rows string | Unsupported_Schema string | Ambiguous_Schema "string list"
  | No_Adapters string | Empty_Statement string | No_Header_Row | Csv_Failure csv_error
  | Not_Utf8 string | Uncaught_Overflow

record provenance =
  pv_adapter_id :: string
  pv_adapter_version :: string
  pv_source_label :: string
  pv_warnings :: "string list"

record load_result =
  lr_lines :: "bank_line list"
  lr_provenance :: provenance

subsection \<open>Cells\<close>

definition line_key :: "(string \<Rightarrow> string) \<Rightarrow> string \<Rightarrow> int \<Rightarrow> string \<Rightarrow> string option \<Rightarrow> string" where
  "line_key hexdigest value_date amount_paise narration bank_ref =
     ''k_'' @ take 16 (hexdigest (value_date @ ''|'' @ str_int amount_paise @ ''|'' @ py_strip narration
        @ ''|'' @ py_strip (str_of_opt bank_ref)))"

definition rupees_to_paise :: "string \<Rightarrow> string \<Rightarrow> input_error + int" where
  "rupees_to_paise raw ctx =
    (let raw = drop_char COMMA (py_strip raw)
     in if raw = [] then Inr 0
        else case dec_of_text raw of
          None \<Rightarrow> Inl (Bad_Amount raw ctx)
        | Some d \<Rightarrow> (case dec_paise d of
            Inr v \<Rightarrow> Inr v | Inl Dec_Overflow \<Rightarrow> Inl Uncaught_Overflow | Inl _ \<Rightarrow> Inl (Bad_Amount raw ctx)))"

definition MARKER_COLUMN :: "(string, string) dict" where
  "MARKER_COLUMN = [(''CR'', ''credit''), (''DR'', ''debit'')]"

text \<open>The first marker the text ends with, and the text without it.\<close>

definition strip_marker :: "string \<Rightarrow> string \<Rightarrow> string \<Rightarrow> input_error + string" where
  "strip_marker txt column ctx =
    (case find (\<lambda>m. suffix ('' '' @ m) (py_upper txt)) [''CR'', ''DR''] of
       None \<Rightarrow> Inr txt
     | Some m \<Rightarrow> if map_of MARKER_COLUMN m \<noteq> Some column then Inl (Contradicting_Marker ctx m column)
         else Inr (py_rstrip (take (length txt - length m - 1) txt)))"

definition parse_direction_amount :: "string \<Rightarrow> string \<Rightarrow> string \<Rightarrow> input_error + int" where
  "parse_direction_amount raw column ctx =
    (case strip_marker (py_strip raw) column ctx of
       Inl e \<Rightarrow> Inl e
     | Inr txt \<Rightarrow> if prefix ''-'' (py_lstrip (drop_char COMMA txt)) then Inl (Negative_Amount ctx raw)
         else rupees_to_paise txt ctx)"

definition parse_date :: "string \<Rightarrow> string \<Rightarrow> input_error + date" where
  "parse_date raw ctx =
    (let raw = py_strip raw in
     case List.map_filter (\<lambda>f. f raw)
       [strptime_dmy (CHR ''/'') field_Y, strptime_dmy (CHR ''-'') field_Y, strptime_dmy (CHR ''/'') field_y,
        strptime_dmy (CHR ''-'') field_y, strptime_dmy (CHR ''.'') field_Y, date_fromisoformat] of
       [] \<Rightarrow> Inl (Bad_Date ctx raw) | d # _ \<Rightarrow> Inr d)"

subsection \<open>The generic CSV adapter\<close>

definition BANK_REQUIRED :: "string list" where
  "BANK_REQUIRED = [''value_date'', ''narration'', ''credit'', ''debit'']"

definition BANK_ALIASES :: "(string, string) dict" where
  "BANK_ALIASES =
    [(''value date'', ''value_date''), (''value dt'', ''value_date''), (''date'', ''value_date''),
     (''narration'', ''narration''), (''description'', ''narration''), (''particulars'', ''narration''),
     (''chq./ref.no.'', ''ref_no''), (''chq/ref no'', ''ref_no''), (''ref no'', ''ref_no''),
     (''reference'', ''ref_no''), (''deposit amt.'', ''credit''), (''deposit amount'', ''credit''),
     (''credit'', ''credit''), (''withdrawal amt.'', ''debit''), (''withdrawal amount'', ''debit''),
     (''debit'', ''debit'')]"

definition clean_header_token :: "string \<Rightarrow> string" where
  "clean_header_token h = py_lower (py_strip (strip_front [BOM] h))"

definition mapped_header :: "string list \<Rightarrow> string list" where
  "mapped_header header = map (\<lambda>h. let c = clean_header_token h in dget BANK_ALIASES c c) header"

definition nonblank :: "string list \<Rightarrow> bool" where
  "nonblank row \<longleftrightarrow> list_ex (\<lambda>x. py_strip x \<noteq> []) row"

definition generic_detect :: "string list \<Rightarrow> bool" where
  "generic_detect headers \<longleftrightarrow> headers \<noteq> [] \<and> nonblank headers
     \<and> list_all (\<lambda>c. c \<in> set (mapped_header headers)) BANK_REQUIRED"

definition ref_column :: "string list \<Rightarrow> string option" where
  "ref_column mapped = (if ''ref_no'' \<in> set mapped then Some ''ref_no''
     else if ''bank_ref'' \<in> set mapped then Some ''bank_ref'' else None)"

definition row_ctx :: "nat \<Rightarrow> string" where
  "row_ctx n = ''row '' @ str_int (int n)"

text \<open>One data row: \<open>None\<close> skips a blank row.\<close>

definition parse_row ::
  "(string \<Rightarrow> string) \<Rightarrow> string list \<Rightarrow> nat \<Rightarrow> string list \<Rightarrow> input_error + bank_line option" where
  "parse_row hexdigest mapped start_line row =
    (if \<not> nonblank row then Inr None
     else if length row \<noteq> length mapped then Inl (Column_Count start_line (length mapped) (length row))
     else
       let cell = (\<lambda>col. py_strip (str_of_opt (map_of (zip mapped row) col)));
           narration = cell ''narration''; credit_raw = cell ''credit''; debit_raw = cell ''debit'';
           is_credit = (credit_raw \<noteq> [])
       in if (credit_raw \<noteq> []) = (debit_raw \<noteq> []) then Inl (Not_Exactly_One start_line)
          else case (if is_credit then parse_direction_amount credit_raw ''credit'' (row_ctx start_line)
                     else map_sum id uminus (parse_direction_amount debit_raw ''debit'' (row_ctx start_line))) of
            Inl e \<Rightarrow> Inl e
          | Inr amount \<Rightarrow>
              let bank_ref = map_option cell (ref_column mapped)
              in (case parse_date (cell ''value_date'') (''Bank statement '' @ row_ctx start_line) of
                   Inl e \<Rightarrow> Inl e
                 | Inr d \<Rightarrow> Inr (Some
                     \<lparr>ln_key = line_key hexdigest (date_isoformat d) amount narration bank_ref,
                      ln_value_date = d, ln_amount_paise = amount, ln_narration = narration,
                      ln_bank_ref = (if truthy bank_ref then bank_ref else None),
                      ln_is_credit = is_credit\<rparr>)))"

text \<open>
  The loop over the records, starting behind the header that ended on line \<open>end_line\<close>. A CSV error
  comes after the records before it.
\<close>

fun parse_data ::
  "(string \<Rightarrow> string) \<Rightarrow> string list \<Rightarrow> nat \<Rightarrow> csv_stream \<Rightarrow> input_error + bank_line list" where
  "parse_data hexdigest mapped end_line ([], Some e) = Inl (Csv_Failure e)"
| "parse_data hexdigest mapped end_line ([], None) = Inr []"
| "parse_data hexdigest mapped end_line ((row, line_num) # rows, err) =
    (case parse_row hexdigest mapped (Suc end_line) row of
       Inl e \<Rightarrow> Inl e
     | Inr l \<Rightarrow> (case parse_data hexdigest mapped line_num (rows, err) of
         Inl e \<Rightarrow> Inl e
       | Inr ls \<Rightarrow> Inr (case l of None \<Rightarrow> ls | Some x \<Rightarrow> x # ls)))"

text \<open>Repeated keys get their occurrence number as a suffix.\<close>

definition count_keys :: "bank_line list \<Rightarrow> (string, int) dict" where
  "count_keys lines = foldl (\<lambda>seen l. dset seen (ln_key l) (dget seen (ln_key l) 0 + 1)) [] lines"

fun number_keys :: "(string, int) dict \<Rightarrow> (string, int) dict \<Rightarrow> bank_line list \<Rightarrow> bank_line list" where
  "number_keys seen counters [] = []"
| "number_keys seen counters (l # ls) =
    (if 1 < dget seen (ln_key l) 0 then
       let n = dget counters (ln_key l) 0 + 1
       in l\<lparr>ln_key := ln_key l @ ''#'' @ str_int n\<rparr> # number_keys seen (dset counters (ln_key l) n) ls
     else l # number_keys seen counters ls)"

definition disambiguate :: "bank_line list \<Rightarrow> bank_line list" where
  "disambiguate lines = (let seen = count_keys lines in
     if list_ex (\<lambda>(k, c). 1 < c) seen then number_keys seen [] lines else lines)"

definition generic_parse_rows ::
  "(string \<Rightarrow> string) \<Rightarrow> string list \<Rightarrow> csv_stream \<Rightarrow> string \<Rightarrow> nat \<Rightarrow> input_error + load_result" where
  "generic_parse_rows hexdigest header rows source header_end_line =
    (let mapped = mapped_header header;
         missing = filter (\<lambda>c. c \<notin> set mapped) BANK_REQUIRED
     in if ''value_date'' \<notin> set mapped \<or> ''narration'' \<notin> set mapped then Inl Header_Columns
        else if \<not> distinct mapped then
          Inl (Duplicate_Columns (sort (remdups (filter (\<lambda>c. 1 < count_list mapped c) mapped))))
        else if missing \<noteq> [] then Inl (Missing_Columns (sort missing))
        else case parse_data hexdigest mapped header_end_line rows of
          Inl e \<Rightarrow> Inl e
        | Inr [] \<Rightarrow> Inl (No_Data_Rows source)
        | Inr lines \<Rightarrow> Inr \<lparr>lr_lines = disambiguate lines, lr_provenance =
            \<lparr>pv_adapter_id = ''generic_csv'', pv_adapter_version = ''1.0.0'',
             pv_source_label = source, pv_warnings = []\<rparr>\<rparr>)"

subsection \<open>The dispatcher\<close>

record adapter =
  ad_id :: string
  ad_version :: string
  ad_detect :: "string list \<Rightarrow> bool"
  ad_parse_rows :: "string list \<Rightarrow> csv_stream \<Rightarrow> string \<Rightarrow> nat \<Rightarrow> input_error + load_result"

definition generic_adapter :: "(string \<Rightarrow> string) \<Rightarrow> adapter" where
  "generic_adapter hexdigest = \<lparr>ad_id = ''generic_csv'', ad_version = ''1.0.0'',
     ad_detect = generic_detect, ad_parse_rows = generic_parse_rows hexdigest\<rparr>"

definition DEFAULT_BANK_ADAPTERS :: "(string \<Rightarrow> string) \<Rightarrow> adapter list" where
  "DEFAULT_BANK_ADAPTERS hexdigest = [generic_adapter hexdigest]"

definition find_adapter :: "adapter list \<Rightarrow> string \<Rightarrow> string list \<Rightarrow> input_error + adapter" where
  "find_adapter adapters source headers =
    (case filter (\<lambda>a. ad_detect a headers) adapters of
       [] \<Rightarrow> Inl (Unsupported_Schema source)
     | [a] \<Rightarrow> Inr a
     | as \<Rightarrow> Inl (Ambiguous_Schema (sort (map ad_id as))))"

fun dispatch :: "adapter list \<Rightarrow> string \<Rightarrow> bool \<Rightarrow> csv_stream \<Rightarrow> input_error + load_result" where
  "dispatch adapters source saw ([], Some e) = Inl (Csv_Failure e)"
| "dispatch adapters source saw ([], None) =
     Inl (if saw then No_Header_Row else Empty_Statement source)"
| "dispatch adapters source saw ((row, line_num) # rows, err) =
    (if \<not> nonblank row then dispatch adapters source saw (rows, err)
     else case filter (\<lambda>a. ad_detect a row) adapters of
       [] \<Rightarrow> dispatch adapters source True (rows, err)
     | [a] \<Rightarrow> ad_parse_rows a row (rows, err) source line_num
     | as \<Rightarrow> Inl (Ambiguous_Schema (sort (map ad_id as))))"

definition parse_bank_statement :: "adapter list \<Rightarrow> string \<Rightarrow> string \<Rightarrow> input_error + load_result" where
  "parse_bank_statement adapters source txt =
    (if adapters = [] then Inl (No_Adapters source)
     else dispatch adapters source False (csv_reader txt))"

definition generic_parse :: "(string \<Rightarrow> string) \<Rightarrow> string \<Rightarrow> string \<Rightarrow> input_error + load_result" where
  "generic_parse hexdigest source txt = parse_bank_statement [generic_adapter hexdigest] source txt"

text \<open>\<open>load_bank_bytes_result\<close> and \<open>load_bank_bytes\<close> of \<open>engine/ingest.py\<close>.\<close>

definition load_bank_bytes_result ::
  "adapter list \<Rightarrow> string \<Rightarrow> string \<Rightarrow> input_error + load_result" where
  "load_bank_bytes_result adapters source content =
    (case decode_utf8_sig content of None \<Rightarrow> Inl (Not_Utf8 source)
     | Some txt \<Rightarrow> parse_bank_statement adapters source txt)"

definition load_bank_bytes :: "(string \<Rightarrow> string) \<Rightarrow> string \<Rightarrow> string \<Rightarrow> input_error + bank_line list" where
  "load_bank_bytes hexdigest source content =
     map_sum id lr_lines (load_bank_bytes_result (DEFAULT_BANK_ADAPTERS hexdigest) source content)"

subsection \<open>Line keys\<close>

lemma dget_count_keys: "dget (count_keys lines) k 0 = int (count_list (map ln_key lines) k)"
  by (induction lines rule: rev_induct) (auto simp: count_keys_def dget_def)

lemma count_keys_ok: "dict_ok (count_keys lines)"
  unfolding count_keys_def by (rule dict_ok_fold) simp_all

lemma str_int_inject_nonneg: "0 \<le> m \<Longrightarrow> 0 \<le> n \<Longrightarrow> str_int m = str_int n \<longleftrightarrow> m = n"
  by (simp add: str_int_def str_nn_inject)

lemma append_sep_inject:
  assumes "x \<notin> set a" "x \<notin> set b" and "a @ x # s = b @ x # t"
  shows "a = b \<and> s = t"
proof -
  have "takeWhile (\<lambda>y. y \<noteq> x) (u @ x # v) = u" "dropWhile (\<lambda>y. y \<noteq> x) (u @ x # v) = x # v"
    if "x \<notin> set u" for u v
    using that by (induction u) auto
  then show ?thesis
    by (metis assms list.inject)
qed

text \<open>A renumbered line keeps everything but its key, which gets an unused number above the counter.\<close>

definition renumbered :: "(string, int) dict \<Rightarrow> (string, int) dict \<Rightarrow> bank_line \<Rightarrow> bank_line \<Rightarrow> bool" where
  "renumbered seen counters l l' \<longleftrightarrow>
     (if dget seen (ln_key l) 0 \<le> 1 then l' = l
      else \<exists>n > dget counters (ln_key l) 0. l' = l\<lparr>ln_key := ln_key l @ ''#'' @ str_int n\<rparr>)"

lemma renumbered_mono:
  "renumbered seen (dset counters k (dget counters k 0 + 1)) l l' \<Longrightarrow> renumbered seen counters l l'"
  by (force simp: renumbered_def split: if_split_asm)

lemma list_all2_memD: "list_all2 P xs ys \<Longrightarrow> y \<in> set ys \<Longrightarrow> \<exists>x \<in> set xs. P x y"
  by (induction rule: list_all2_induct) auto

lemma number_keys_lines: "list_all2 (renumbered seen counters) lines (number_keys seen counters lines)"
proof (induction seen counters lines rule: number_keys.induct)
  case (2 seen counters l ls)
  show ?case
  proof (cases "1 < dget seen (ln_key l) 0")
    case True
    have "list_all2 (renumbered seen counters) ls
        (number_keys seen (dset counters (ln_key l) (dget counters (ln_key l) 0 + 1)) ls)"
      by (rule list_all2_mono [OF 2(1) [OF True refl]]) (rule renumbered_mono)
    moreover have "renumbered seen counters l
        (l\<lparr>ln_key := ln_key l @ ''#'' @ str_int (dget counters (ln_key l) 0 + 1)\<rparr>)"
      unfolding renumbered_def using True by (auto intro!: exI [of _ "dget counters (ln_key l) 0 + 1"])
    ultimately show ?thesis
      using True by (simp add: Let_def)
  next
    case False
    then show ?thesis
      using 2(2) by (simp add: renumbered_def)
  qed
qed simp

lemma number_keys_distinct:
  assumes "\<forall>l \<in> set lines. CHR ''#'' \<notin> set (ln_key l)"
    and "\<forall>k. dget seen k 0 \<le> 1 \<longrightarrow> count_list (map ln_key lines) k \<le> 1" and "\<forall>k. 0 \<le> dget counters k 0"
  shows "distinct (map ln_key (number_keys seen counters lines))"
  using assms
proof (induction seen counters lines rule: number_keys.induct)
  case (2 seen counters l ls)
  let ?n = "dget counters (ln_key l) 0 + 1"
  let ?c = "if 1 < dget seen (ln_key l) 0 then dset counters (ln_key l) ?n else counters"
  let ?l = "if 1 < dget seen (ln_key l) 0 then l\<lparr>ln_key := ln_key l @ ''#'' @ str_int ?n\<rparr> else l"
  have rest: "\<forall>k. dget seen k 0 \<le> 1 \<longrightarrow> count_list (map ln_key ls) k \<le> 1"
    "\<forall>l \<in> set ls. CHR ''#'' \<notin> set (ln_key l)" "\<forall>k. 0 \<le> dget ?c k 0"
    using "2.prems" by (auto split: if_split_asm)
  have dist: "distinct (map ln_key (number_keys seen ?c ls))"
    using 2(1) [OF _ refl rest(2,1)] 2(2) [OF _ rest(2,1)] rest(3) by (auto split: if_split_asm)
  have "ln_key ?l \<noteq> ln_key l'" if "l' \<in> set (number_keys seen ?c ls)" for l'
  proof -
    obtain x where x: "x \<in> set ls" "renumbered seen ?c x l'"
      using list_all2_memD [OF number_keys_lines \<open>l' \<in> _\<close>] by blast
    have hash: "CHR ''#'' \<notin> set (ln_key x)" "CHR ''#'' \<notin> set (ln_key l)"
      using x(1) "2.prems"(1) by auto
    show ?thesis
    proof (cases "dget seen (ln_key x) 0 \<le> 1")
      case True
      then have "count_list (map ln_key (l # ls)) (ln_key x) \<le> 1"
        using "2.prems"(2) by blast
      moreover have "1 \<le> count_list (map ln_key ls) (ln_key x)"
        using x(1) by (metis count_list_0_iff image_eqI less_one linorder_not_le set_map)
      ultimately have "ln_key l \<noteq> ln_key x"
        by auto
      then show ?thesis
        using x(2) True hash by (auto simp: renumbered_def) (metis in_set_conv_decomp)
    next
      case False
      then obtain n where n: "dget ?c (ln_key x) 0 < n" "ln_key l' = ln_key x @ ''#'' @ str_int n"
        using x(2) by (auto simp: renumbered_def)
      show ?thesis
      proof
        assume eq: "ln_key ?l = ln_key l'"
        then have "1 < dget seen (ln_key l) 0"
          using n(2) hash(2) by (auto split: if_split_asm)
        then have "ln_key l = ln_key x \<and> str_int ?n = str_int n"
          using eq n(2) append_sep_inject [OF hash(2,1)] by simp
        then show False
          using n(1) \<open>1 < dget seen (ln_key l) 0\<close> "2.prems"(3) str_int_inject_nonneg [of ?n n]
          by (auto dest: spec [of _ "ln_key l"])
      qed
    qed
  qed
  then show ?case
    using dist by (auto simp: Let_def split: if_split_asm)
qed simp

lemma distinct_of_count: "(\<And>k. count_list xs k \<le> 1) \<Longrightarrow> distinct xs"
proof (induction xs)
  case (Cons x xs)
  have "count_list xs k \<le> 1" for k
    using Cons.prems [of k] by (simp split: if_split_asm)
  moreover have "x \<notin> set xs"
    using Cons.prems [of x] by (simp add: count_list_0_iff)
  ultimately show ?case
    using Cons.IH by simp
qed simp

lemma disambiguate_distinct:
  assumes "\<forall>l \<in> set lines. CHR ''#'' \<notin> set (ln_key l)"
  shows "distinct (map ln_key (disambiguate lines))"
proof (cases "list_ex (\<lambda>(k, c). 1 < c) (count_keys lines)")
  case True
  then show ?thesis
    using number_keys_distinct [OF assms, of "count_keys lines" "[]"]
    by (simp add: disambiguate_def dget_count_keys) (simp add: dget_def)
next
  case False
  have "count_list (map ln_key lines) k \<le> 1" for k
  proof (cases "map_of (count_keys lines) k")
    case None
    then show ?thesis
      using dget_count_keys [of lines k] by (simp add: dget_def)
  next
    case (Some c)
    then have "c \<le> 1"
      using False by (auto simp: list_ex_iff dest!: map_of_SomeD)
    then show ?thesis
      using dget_count_keys [of lines k] Some by (simp add: dget_def)
  qed
  then have "distinct (map ln_key lines)"
    by (rule distinct_of_count)
  then show ?thesis
    using False by (simp add: disambiguate_def)
qed

subsection \<open>A loaded statement is complete\<close>

lemma hash_free_line_key:
  "CHR ''#'' \<notin> set (hexdigest s) \<Longrightarrow>
   s = value_date @ ''|'' @ str_int amount @ ''|'' @ py_strip narration @ ''|'' @ py_strip (str_of_opt bank_ref) \<Longrightarrow>
   CHR ''#'' \<notin> set (line_key hexdigest value_date amount narration bank_ref)"
  by (auto simp: line_key_def dest: in_set_takeD)

text \<open>What the key of a line is made of.\<close>

definition content_key :: "(string \<Rightarrow> string) \<Rightarrow> bank_line \<Rightarrow> string" where
  "content_key hexdigest l = line_key hexdigest (date_isoformat (ln_value_date l)) (ln_amount_paise l)
     (ln_narration l) (ln_bank_ref l)"

lemma line_key_bank_ref:
  "line_key hexdigest d a n (Some []) = line_key hexdigest d a n None"
  by (simp add: line_key_def str_of_opt_def)

lemma parse_row_key:
  assumes "parse_row hexdigest mapped n row = Inr (Some l)"
  shows "ln_key l = content_key hexdigest l" "nonblank row"
  using assms
  by (cases "ref_column mapped";
      auto simp: parse_row_def Let_def content_key_def line_key_bank_ref split: if_split_asm sum.split_asm)+

lemma parse_row_blank: "parse_row hexdigest mapped n row = Inr None \<longleftrightarrow> \<not> nonblank row"
  by (auto simp: parse_row_def Let_def split: sum.split)

lemma parse_data_rows:
  "parse_data hexdigest mapped n (rows, err) = Inr ls \<Longrightarrow>
     err = None \<and> list_all2 (\<lambda>r l. \<exists>m. parse_row hexdigest mapped m (fst r) = Inr (Some l))
       (filter (nonblank \<circ> fst) rows) ls"
proof (induction rows arbitrary: n ls)
  case Nil
  then show ?case by (cases err) auto
next
  case (Cons r rows)
  obtain row num where r: "r = (row, num)" by fastforce
  obtain x ls' where x: "parse_row hexdigest mapped (Suc n) row = Inr x"
    "parse_data hexdigest mapped num (rows, err) = Inr ls'"
    "ls = (case x of None \<Rightarrow> ls' | Some y \<Rightarrow> y # ls')"
    using Cons.prems by (auto simp: r split: sum.split_asm)
  show ?case
  proof (cases x)
    case None
    then show ?thesis
      using Cons.IH [OF x(2)] x parse_row_blank [of hexdigest mapped "Suc n" row] by (simp add: r)
  next
    case (Some y)
    then show ?thesis
      using Cons.IH [OF x(2)] x parse_row_key(2) [of hexdigest mapped "Suc n" row y] by (auto simp: r)
  qed
qed

lemma disambiguate_lines:
  "list_all2 (\<lambda>l l'. \<exists>sfx. l' = l\<lparr>ln_key := ln_key l @ sfx\<rparr>) lines (disambiguate lines)"
proof (cases "list_ex (\<lambda>(k, c). 1 < c) (count_keys lines)")
  case True
  have "\<exists>sfx. l' = l\<lparr>ln_key := ln_key l @ sfx\<rparr>" if "renumbered (count_keys lines) [] l l'" for l l'
    using that by (cases "dget (count_keys lines) (ln_key l) 0 \<le> 1")
      (auto simp: renumbered_def intro: exI [of _ "[]"])
  then show ?thesis
    using True list_all2_mono [OF number_keys_lines [of "count_keys lines" "[]" lines]]
    by (simp add: disambiguate_def)
next
  case False
  then show ?thesis
    by (auto simp: disambiguate_def list_all2_same intro: exI [of _ "[]"])
qed

lemma generic_parse_rowsD:
  assumes "generic_parse_rows hexdigest header rows source n = Inr res"
  obtains lines where "parse_data hexdigest (mapped_header header) n rows = Inr lines" "lines \<noteq> []"
    "lr_lines res = disambiguate lines" "distinct (mapped_header header)"
  using assms by (auto simp: generic_parse_rows_def Let_def split: if_split_asm sum.split_asm list.split_asm)

lemma dispatchD:
  "dispatch adapters source saw (rows, err) = Inr res \<Longrightarrow>
   \<exists>before hdr hn data a. rows = before @ (hdr, hn) # data \<and> filter (\<lambda>a. ad_detect a hdr) adapters = [a]
    \<and> (\<forall>r \<in> set before. nonblank (fst r) \<longrightarrow> (\<forall>b \<in> set adapters. \<not> ad_detect b (fst r)))
    \<and> nonblank hdr \<and> ad_parse_rows a hdr (data, err) source hn = Inr res" (is "_ \<Longrightarrow> ?P rows")
proof (induction rows arbitrary: saw)
  case Nil
  then show ?case by (cases err) auto
next
  case (Cons r rows)
  obtain row num where r: "r = (row, num)" by fastforce
  have step: "?P (r # rows)"
    if "?P rows" "nonblank row \<longrightarrow> (\<forall>b \<in> set adapters. \<not> ad_detect b row)"
  proof -
    from that(1) obtain before hdr hn data a where w: "rows = before @ (hdr, hn) # data"
      "filter (\<lambda>a. ad_detect a hdr) adapters = [a]"
      "\<forall>r \<in> set before. nonblank (fst r) \<longrightarrow> (\<forall>b \<in> set adapters. \<not> ad_detect b (fst r))"
      "nonblank hdr" "ad_parse_rows a hdr (data, err) source hn = Inr res"
      by blast
    then show ?thesis
      using that(2) by (intro exI [of _ "r # before"] exI [of _ hdr] exI [of _ hn] exI [of _ data] exI [of _ a])
        (simp add: r)
  qed
  consider "\<not> nonblank row" | "nonblank row" "filter (\<lambda>a. ad_detect a row) adapters = []"
    | a where "nonblank row" "filter (\<lambda>a. ad_detect a row) adapters = [a]"
    using Cons.prems by (fastforce simp: r split: list.split_asm if_split_asm)
  then show ?case
  proof cases
    case 1
    then show ?thesis
      using Cons.prems Cons.IH [of saw] step by (simp add: r)
  next
    case 2
    then show ?thesis
      using Cons.prems Cons.IH [of True] step by (simp add: r filter_empty_conv)
  next
    case 3
    then show ?thesis
      using Cons.prems
      by (intro exI [of _ "[]"] exI [of _ row] exI [of _ num] exI [of _ rows] exI [of _ a]) (simp add: r)
  qed
qed

text \<open>
  C23. A loaded statement is complete and its lines are identified. When loading succeeds, the text was
  read to its end without a CSV error, the header is the first record the adapter recognises, and the
  lines correspond one to one and in order to the non-blank records behind it, each with the values
  its row parses to: no row is dropped or invented. As long as the digest is free of \<open>#\<close> (a hexadecimal
  digest is), the keys of the lines are pairwise different, also for rows with the same content.
\<close>

theorem bank_statement_loaded:
  assumes hex: "\<And>s. CHR ''#'' \<notin> set (hexdigest s)"
    and load: "load_bank_bytes hexdigest source content = Inr lines"
  shows "distinct (map ln_key lines) \<and> lines \<noteq> [] \<and>
    (\<exists>txt before hdr hn data. decode_utf8_sig content = Some txt
      \<and> csv_reader txt = (before @ (hdr, hn) # data, None)
      \<and> generic_detect hdr \<and> (\<forall>r \<in> set before. \<not> generic_detect (fst r))
      \<and> list_all2 (\<lambda>r l. \<exists>m l0 sfx. parse_row hexdigest (mapped_header hdr) m (fst r) = Inr (Some l0)
            \<and> l = l0\<lparr>ln_key := content_key hexdigest l0 @ sfx\<rparr>) (filter (nonblank \<circ> fst) data) lines)"
proof -
  obtain doc res where doc: "decode_utf8_sig content = Some doc" "lines = lr_lines res"
    and res: "parse_bank_statement [generic_adapter hexdigest] source doc = Inr res"
    using load by (auto simp: load_bank_bytes_def load_bank_bytes_result_def DEFAULT_BANK_ADAPTERS_def
        map_sum_def split: option.split_asm sum.split_asm)
  obtain rows err where csv: "csv_reader doc = (rows, err)" by fastforce
  obtain pre hdr hn data where parts: "rows = pre @ (hdr, hn) # data" "generic_detect hdr"
      "\<forall>r \<in> set pre. \<not> generic_detect (fst r)"
    and parse: "generic_parse_rows hexdigest hdr (data, err) source hn = Inr res"
    using res csv dispatchD [of "[generic_adapter hexdigest]" source False rows err res]
    by (fastforce simp: parse_bank_statement_def generic_adapter_def generic_detect_def split: if_split_asm)
  obtain ls where ls: "parse_data hexdigest (mapped_header hdr) hn (data, err) = Inr ls" "ls \<noteq> []"
      "lr_lines res = disambiguate ls"
    using generic_parse_rowsD [OF parse] by blast
  note rows = parse_data_rows [OF ls(1)]
  have keys: "ln_key l = content_key hexdigest l" if l: "l \<in> set ls" for l
    using list_all2_memD [OF conjunct2 [OF rows] l] parse_row_key(1) by blast
  have "\<forall>l \<in> set ls. CHR ''#'' \<notin> set (ln_key l)"
    using keys hex hash_free_line_key by (fastforce simp: content_key_def)
  then have "distinct (map ln_key lines)"
    unfolding doc(2) ls(3) by (rule disambiguate_distinct)
  moreover have "length lines = length ls"
    using list_all2_lengthD [OF disambiguate_lines [of ls]] ls(3) doc(2) by simp
  ultimately have dist: "distinct (map ln_key lines)" "lines \<noteq> []"
    using ls(2) by fastforce+
  have suffixed: "list_all2 (\<lambda>l l'. \<exists>sfx. l' = l\<lparr>ln_key := ln_key l @ sfx\<rparr>) ls lines"
    using disambiguate_lines [of ls] ls(3) doc(2) by simp
  have "list_all2 (\<lambda>r l. \<exists>m l0 sfx. parse_row hexdigest (mapped_header hdr) m (fst r) = Inr (Some l0)
      \<and> l = l0\<lparr>ln_key := content_key hexdigest l0 @ sfx\<rparr>) (filter (nonblank \<circ> fst) data) lines"
    by (rule list_all2_trans [OF _ conjunct2 [OF rows] suffixed]) (metis parse_row_key(1))
  then show ?thesis
    using dist doc(1) csv parts rows by blast
qed

definition sample_statement :: string where
  "sample_statement = ''Date,Particulars,Credit,Debit'' @ [LF] @ ''1/2/24,N,5,'' @ [LF]
     @ [LF] @ ''1/2/24,N,5,'' @ [LF]"

lemma sample_statement_keys:
  "map_sum id (map ln_key) (load_bank_bytes (\<lambda>s. ''0a'') ''f'' sample_statement)
   = Inr [''k_0a#1'', ''k_0a#2'']"
  by code_simp

theorem bank_statement_loaded_witness:
  "\<exists>lines. load_bank_bytes (\<lambda>s. ''0a'') ''f'' sample_statement = Inr lines \<and> length lines = 2
     \<and> distinct (map ln_key lines)"
proof -
  obtain lines where lines: "load_bank_bytes (\<lambda>s. ''0a'') ''f'' sample_statement = Inr lines"
      "map ln_key lines = [''k_0a#1'', ''k_0a#2'']"
    using sample_statement_keys
    by (cases "load_bank_bytes (\<lambda>s. ''0a'') ''f'' sample_statement") auto
  moreover have "length lines = 2"
    using arg_cong [OF lines(2), of length] by simp
  ultimately show ?thesis
    using bank_statement_loaded [OF _ lines(1)] by auto
qed

subsection \<open>Amounts\<close>

text \<open>
  An underscore in front of the sign hides it from the check for negative amounts, as \<open>Decimal\<close> drops
  underscores wherever they stand; and an exponent beyond the decimal context is neither of the
  exceptions the conversion handles.
\<close>

theorem underscore_hides_sign:
  "parse_direction_amount ''_-100.00'' ''credit'' ''row 2'' = Inr (-10000)"
  by code_simp

theorem huge_amount_uncaught:
  "parse_direction_amount ''1E999999'' ''credit'' ''row 2'' = Inl Uncaught_Overflow"
  by code_simp

lemma drop_char_id: "c \<notin> set s \<Longrightarrow> drop_char c s = s"
  by (auto simp: drop_char_def filter_id_conv)

lemma set_py_strip: "set (py_strip s) \<subseteq> set s"
proof -
  have "set (strip_front cls t) \<subseteq> set t" for cls t
    using strip_front_decomp [of cls t] by (metis Un_upper2 set_append)
  then have "set (py_rstrip u) \<subseteq> set u" "set (py_lstrip u) \<subseteq> set u" for u
    by (auto simp: py_rstrip_def py_lstrip_def) (metis set_rev subsetD)
  then show ?thesis
    unfolding py_strip_def by blast
qed

lemma rupees_to_paise_nonneg:
  assumes "rupees_to_paise raw ctx = Inr v" "CHR ''_'' \<notin> set raw"
    and "\<not> prefix ''-'' (py_lstrip (drop_char COMMA raw))"
  shows "0 \<le> v"
proof (cases "drop_char COMMA (py_strip raw) = []")
  case True
  then show ?thesis
    using assms(1) by (simp add: rupees_to_paise_def)
next
  case False
  then obtain d where d: "dec_of_text (drop_char COMMA (py_strip raw)) = Some d" "dec_paise d = Inr v"
    using assms(1) by (auto simp: rupees_to_paise_def Let_def split: option.split_asm sum.split_asm dec_error.split_asm)
  then obtain neg c e where dec: "d = Dec neg c e"
    by (cases d) (auto simp: dec_paise_def)
  have "CHR ''_'' \<notin> set (py_strip (drop_char COMMA (py_strip raw)))"
    using set_py_strip [of "drop_char COMMA (py_strip raw)"] set_py_strip [of raw] assms(2)
    by (auto simp: drop_char_def)
  then have "neg \<longrightarrow> prefix ''-'' (py_strip (drop_char COMMA (py_strip raw)))" "0 \<le> c"
    using dec_of_text_sign [OF d(1) [unfolded dec]] by (simp_all add: drop_char_id)
  moreover have "\<not> prefix ''-'' (py_strip (drop_char COMMA (py_strip raw)))"
    using minus_after_strip [of COMMA raw] assms(3) by (auto simp: ws_chars_def)
  ultimately show ?thesis
    using dec_paise_nonneg [of c e v] d(2) dec by simp
qed

text \<open>
  A cell that is accepted gives a non-negative amount, so that the column alone decides the
  direction, unless the cell contains an underscore.
\<close>

theorem direction_amount_nonneg:
  assumes "parse_direction_amount raw column ctx = Inr v" and "CHR ''_'' \<notin> set raw"
  shows "0 \<le> v"
proof -
  obtain s where s: "strip_marker (py_strip raw) column ctx = Inr s" "rupees_to_paise s ctx = Inr v"
      "\<not> prefix ''-'' (py_lstrip (drop_char COMMA s))"
    using assms(1) by (auto simp: parse_direction_amount_def split: sum.split_asm if_split_asm)
  have "set s \<subseteq> set (py_strip raw)"
    using s(1) py_rstrip_prefix
    by (auto simp: strip_marker_def split: option.split_asm if_split_asm dest!: set_mono_prefix [OF py_rstrip_prefix, THEN subsetD] in_set_takeD)
  then have "CHR ''_'' \<notin> set s"
    using set_py_strip [of raw] assms(2) by blast
  then show ?thesis
    using rupees_to_paise_nonneg s(2,3) by blast
qed

theorem direction_amount_nonneg_witness:
  "parse_direction_amount ''1,250.50 CR'' ''credit'' ''row 2'' = Inr 125050 \<and> (0::int) \<le> 125050"
proof -
  have "parse_direction_amount ''1,250.50 CR'' ''credit'' ''row 2'' = Inr 125050"
    by code_simp
  then show ?thesis
    using direction_amount_nonneg [of "''1,250.50 CR''" "''credit''" "''row 2''" 125050] by simp
qed

end
