(* ===== verification/Ingest.thy ===== *)
theory Ingest
  imports PyRepr BankAdapters
begin

section \<open>The settlement report and the order ledger: \<open>engine/ingest.py\<close>\<close>

text \<open>
  \<open>load_recon_data\<close> takes the decoded JSON document, with finite floats; \<open>load_ledger_text\<close> the text of
  the CSV file. An \<open>InputError\<close> is a constructor of \<open>load_error\<close>; \<open>Uncaught_Time\<close> is the
  \<open>OverflowError\<close> of \<open>datetime.fromtimestamp\<close> and \<open>Uncaught_Csv\<close> the \<open>csv.Error\<close> of the reader, which
  the loaders let through.
\<close>

datatype load_error = Not_Paise string | Not_Array string | Row_Not_Object nat | Row_Without_Key nat
  | No_Rows string | Ledger_Column string | Ledger_Not_Utf8 string | Uncaught_Time | Uncaught_Csv csv_error

named_theorems load_iff "when a step of a loader succeeds"

definition sum_bind :: "'e + 'a \<Rightarrow> ('a \<Rightarrow> 'e + 'b) \<Rightarrow> 'e + 'b" where
  "sum_bind m f = (case m of Inl e \<Rightarrow> Inl e | Inr x \<Rightarrow> f x)"

lemma sum_bind_simps [simp]: "sum_bind (Inl e) f = Inl e" "sum_bind (Inr x) f = f x"
  by (simp_all add: sum_bind_def)

lemma sum_bind_Inr [load_iff]: "sum_bind m f = Inr y \<longleftrightarrow> (\<exists>x. m = Inr x \<and> f x = Inr y)"
  by (cases m) auto

subsection \<open>Values\<close>

text \<open>The epoch, 1970-01-01, has the ordinal 719163.\<close>

definition fromtimestamp :: "int \<Rightarrow> load_error + datetime option" where
  "fromtimestamp t = (if t < - (2 ^ 63) \<or> 2 ^ 63 \<le> t then Inl Uncaught_Time
     else let dt = 719163 * 86400 + t in
       Inr (if 1 \<le> dt_date dt \<and> dt_date dt \<le> 3652059 then Some dt else None))"

definition py_trunc :: "rat \<Rightarrow> int" where
  "py_trunc x = (if 0 \<le> x then \<lfloor>x\<rfloor> else - \<lfloor>- x\<rfloor>)"

definition epoch_to_dt :: "json \<Rightarrow> load_error + datetime option" where
  "epoch_to_dt v = (case v of
     JNull \<Rightarrow> Inr None
   | JStr s \<Rightarrow> (if s = [] then Inr None
       else case py_int s of None \<Rightarrow> Inr None | Some t \<Rightarrow> fromtimestamp t)
   | JBool b \<Rightarrow> fromtimestamp (if b then 1 else 0)
   | JInt t \<Rightarrow> fromtimestamp t
   | JFloat x \<Rightarrow> fromtimestamp (py_trunc x)
   | _ \<Rightarrow> Inr None)"

definition parse_dt :: "string \<Rightarrow> datetime option" where
  "parse_dt raw = (let raw = py_strip raw in
     if raw = [] then None
     else case strptime_iso strip_blank raw of
       Some t \<Rightarrow> Some t | None \<Rightarrow> strptime_iso strip_T raw)"

definition as_int_paise :: "json \<Rightarrow> string \<Rightarrow> load_error + int" where
  "as_int_paise v ctx = (case v of
     JNull \<Rightarrow> Inr 0
   | JBool _ \<Rightarrow> Inl (Not_Paise ctx)
   | JInt i \<Rightarrow> Inr i
   | JFloat x \<Rightarrow> if of_int \<lfloor>x\<rfloor> = x then Inr \<lfloor>x\<rfloor> else Inl (Not_Paise ctx)
   | JStr s \<Rightarrow> (if s = [] then Inr 0
       else case py_int (py_strip s) of None \<Rightarrow> Inl (Not_Paise ctx) | Some i \<Rightarrow> Inr i)
   | _ \<Rightarrow> Inl (Not_Paise ctx))"

subsection \<open>The settlement report\<close>

definition opt_str :: "json \<Rightarrow> string option" where
  "opt_str v = (if json_truthy v then Some (py_str v) else None)"

definition opt_paise :: "json \<Rightarrow> string \<Rightarrow> load_error + int option" where
  "opt_paise v ctx = (if v = JNull \<or> v = JStr [] then Inr None else map_sum id Some (as_int_paise v ctx))"

definition recon_ctx :: "nat \<Rightarrow> string \<Rightarrow> string" where
  "recon_ctx i col = ''recon row '' @ str_int (int i) @ '' '' @ col"

definition recon_row_id :: "nat \<Rightarrow> string" where
  "recon_row_id i = ''recon_'' @ str_int (int i)"

definition load_recon_row :: "nat \<Rightarrow> json \<Rightarrow> load_error + recon_row" where
  "load_recon_row i item = (case item of JObj r \<Rightarrow>
     let paise = (\<lambda>col. as_int_paise (jget r col) (recon_ctx i col)) in
     if \<not> json_truthy (jget r ''entity_id'') \<or> \<not> json_truthy (jget r ''type'') then Inl (Row_Without_Key i)
     else
       sum_bind (paise ''amount'') (\<lambda>amount. sum_bind (paise ''fee'') (\<lambda>fee.
       sum_bind (paise ''tax'') (\<lambda>tax. sum_bind (paise ''debit'') (\<lambda>debit.
       sum_bind (paise ''credit'') (\<lambda>credit.
       sum_bind (epoch_to_dt (jget r ''settled_at'')) (\<lambda>settled_at.
       sum_bind (epoch_to_dt (jget r ''created_at'')) (\<lambda>created_at.
       sum_bind (opt_paise (jget r ''authorized_amount'') (recon_ctx i ''authorized_amount'')) (\<lambda>authorized.
       sum_bind (opt_paise (jget r ''captured_amount'') (recon_ctx i ''captured_amount'')) (\<lambda>captured.
         Inr \<lparr>r_entity_id = py_str (jget r ''entity_id''), r_type = py_str (jget r ''type''),
              r_amount_paise = amount, r_fee_paise = fee, r_tax_paise = tax, r_debit_paise = debit,
              r_credit_paise = credit, r_settlement_id = opt_str (jget r ''settlement_id''),
              r_settlement_utr = opt_str (jget r ''settlement_utr''), r_settled_at = settled_at,
              r_created_at = created_at, r_on_hold = json_truthy (jget r ''on_hold''),
              r_dispute_id = opt_str (jget r ''dispute_id''), r_order_id = opt_str (jget r ''order_id''),
              r_method = opt_str (jget r ''method''), r_description = opt_str (jget r ''description''),
              r_row_id = Some (recon_row_id i), r_authorized_amount_paise = authorized,
              r_captured_amount_paise = captured\<rparr>)))))))))
   | _ \<Rightarrow> Inl (Row_Not_Object i))"

fun load_recon_rows :: "nat \<Rightarrow> json list \<Rightarrow> load_error + recon_row list" where
  "load_recon_rows i [] = Inr []"
| "load_recon_rows i (item # items) =
     sum_bind (load_recon_row i item) (\<lambda>r. map_sum id (\<lambda>rs. r # rs) (load_recon_rows (Suc i) items))"

text \<open>The array, bare or in the first envelope key that holds one.\<close>

definition recon_items :: "json \<Rightarrow> json list option" where
  "recon_items data = (case data of
     JList items \<Rightarrow> Some items
   | JObj d \<Rightarrow> (case List.map_filter (\<lambda>k. case jget d k of JList items \<Rightarrow> Some items | _ \<Rightarrow> None)
        [''items'', ''rows'', ''recon'', ''data''] of [] \<Rightarrow> None | items # _ \<Rightarrow> Some items)
   | _ \<Rightarrow> None)"

definition load_recon_data :: "json \<Rightarrow> string \<Rightarrow> load_error + recon_row list" where
  "load_recon_data data source = (case recon_items data of
     None \<Rightarrow> Inl (Not_Array source)
   | Some items \<Rightarrow> sum_bind (load_recon_rows 0 items)
       (\<lambda>rows. if rows = [] then Inl (No_Rows source) else Inr rows))"

subsection \<open>The order ledger\<close>

text \<open>
  A row of \<open>csv.DictReader\<close>: the last column of a name counts, and a column behind the end of a short
  row holds \<open>None\<close>.
\<close>

definition dict_row :: "string list \<Rightarrow> string list \<Rightarrow> string \<Rightarrow> string option" where
  "dict_row names row col =
    (case map_of (rev (zip names (map Some row @ replicate (length names - length row) None))) col of
       None \<Rightarrow> None | Some v \<Rightarrow> v)"

definition ledger_entry :: "string list \<Rightarrow> nat \<Rightarrow> string list \<Rightarrow> load_error + order_entry" where
  "ledger_entry names i row =
    (let cell = dict_row names row; oid = py_strip (str_of_opt (cell ''order_id''))
     in sum_bind (as_int_paise (j_opt JStr (cell ''amount_paise'')) (''ledger row '' @ str_int (int i)))
          (\<lambda>amount. Inr \<lparr>o_order_id = (if oid = [] then None else Some oid), o_amount_paise = amount,
             o_status = py_strip (str_of_opt (cell ''status'')),
             o_created_at = parse_dt (str_of_opt (cell ''created_at''))\<rparr>))"

text \<open>Empty records are skipped by the reader and not counted.\<close>

fun ledger_entries :: "string list \<Rightarrow> nat \<Rightarrow> csv_stream \<Rightarrow> load_error + order_entry list" where
  "ledger_entries names i ([], Some e) = Inl (Uncaught_Csv e)"
| "ledger_entries names i ([], None) = Inr []"
| "ledger_entries names i ((row, line_num) # rows, err) =
    (if row = [] then ledger_entries names i (rows, err)
     else sum_bind (ledger_entry names i row)
       (\<lambda>e. map_sum id (\<lambda>es. e # es) (ledger_entries names (Suc i) (rows, err))))"

definition load_ledger_text :: "string \<Rightarrow> string \<Rightarrow> load_error + order_entry list" where
  "load_ledger_text source content =
    (case csv_reader content of
       ([], Some e) \<Rightarrow> Inl (Uncaught_Csv e)
     | ([], None) \<Rightarrow> Inl (Ledger_Column source)
     | ((names, _) # rows, err) \<Rightarrow>
         if ''amount_paise'' \<notin> set names then Inl (Ledger_Column source)
         else ledger_entries names 2 (rows, err))"

definition load_ledger_bytes :: "string \<Rightarrow> string \<Rightarrow> load_error + order_entry list" where
  "load_ledger_bytes source content = (case decode_utf8 content of
     None \<Rightarrow> Inl (Ledger_Not_Utf8 source) | Some content \<Rightarrow> load_ledger_text source content)"

subsection \<open>What a loaded report contains\<close>

lemma py_repr_nonempty [simp]: "py_repr s \<noteq> []"
  by (simp add: py_repr_def Let_def)

lemma str_int_nonempty [simp]: "str_int i \<noteq> []"
  by (simp add: str_int_def)

lemma float_repr_nonempty [simp]: "float_repr x \<noteq> []"
proof -
  obtain d q where "shortest 17 1 \<bar>x\<bar> (dec_expo \<bar>x\<bar>) = (d, q)" by fastforce
  then show ?thesis
    unfolding float_repr_def by (simp add: Let_def exp_text_def del: shortest.simps)
qed

lemma py_str_nonempty: "json_truthy j \<Longrightarrow> py_str j \<noteq> []"
  by (cases j) (auto simp: json_truthy_def py_str_def)

lemma load_recon_rowD:
  assumes "load_recon_row i item = Inr r"
  shows "r_row_id r = Some (recon_row_id i)" "r_entity_id r \<noteq> []" "r_type r \<noteq> []"
  using assms
  by (auto simp: load_recon_row_def Let_def load_iff py_str_nonempty split: json.split_asm if_split_asm)

lemma load_recon_rows_iff:
  "load_recon_rows i items = Inr rows \<longleftrightarrow>
     length rows = length items \<and> (\<forall>k < length items. load_recon_row (i + k) (items ! k) = Inr (rows ! k))"
proof (induction items arbitrary: i rows)
  case (Cons item items)
  have "load_recon_rows i (item # items) = Inr rows \<longleftrightarrow>
      (\<exists>r rs. rows = r # rs \<and> load_recon_row i item = Inr r \<and> load_recon_rows (Suc i) items = Inr rs)"
    by (cases "load_recon_rows (Suc i) items") (auto simp: load_iff)
  also have "\<dots> \<longleftrightarrow> length rows = length (item # items)
      \<and> (\<forall>k < length (item # items). load_recon_row (i + k) ((item # items) ! k) = Inr (rows ! k))"
    by (cases rows) (auto simp: Cons.IH All_less_Suc2)
  finally show ?case .
qed auto

lemma recon_row_id_inject: "recon_row_id i = recon_row_id j \<longleftrightarrow> i = j"
  by (simp add: recon_row_id_def str_int_inject_nonneg)

text \<open>
  The report is loaded completely or not at all. Loading succeeds exactly when the document is an
  array, bare or in an envelope, with at least one item, all of whose items are well formed at their
  position. The rows are then those of the items, in order; every row carries a type and an entity
  identifier, and its row identifier is its position, whatever identifier the item brings along, so
  that the row identifiers are pairwise different.
\<close>

theorem recon_report_loaded:
  "load_recon_data data source = Inr rows \<longleftrightarrow>
    (\<exists>items. recon_items data = Some items \<and> items \<noteq> [] \<and> length rows = length items
      \<and> (\<forall>k < length items. load_recon_row k (items ! k) = Inr (rows ! k)
           \<and> r_row_id (rows ! k) = Some (recon_row_id k)
           \<and> r_entity_id (rows ! k) \<noteq> [] \<and> r_type (rows ! k) \<noteq> [])
      \<and> distinct (map r_row_id rows))"
proof -
  have dist: "distinct (map r_row_id rows)"
    if "\<forall>k < length rows. r_row_id (rows ! k) = Some (recon_row_id k)"
    using that by (auto simp: distinct_conv_nth recon_row_id_inject)
  have "load_recon_data data source = Inr rows \<longleftrightarrow>
      (\<exists>items. recon_items data = Some items \<and> rows \<noteq> [] \<and> load_recon_rows 0 items = Inr rows)"
    by (auto simp: load_recon_data_def load_iff split: option.split if_split_asm)
  also have "\<dots> \<longleftrightarrow> (\<exists>items. recon_items data = Some items \<and> items \<noteq> [] \<and> length rows = length items
      \<and> (\<forall>k < length items. load_recon_row k (items ! k) = Inr (rows ! k)))"
    by (auto simp: load_recon_rows_iff)
  finally show ?thesis
    using dist load_recon_rowD by (metis (no_types, lifting))
qed

definition sample_report :: json where
  "sample_report = JObj [(''items'', JList
     [JObj [(''entity_id'', JStr ''pay_1''), (''type'', JStr ''payment''), (''credit'', JInt 97640),
            (''row_id'', JStr ''x'')],
      JObj [(''entity_id'', JStr ''pay_1''), (''type'', JStr ''payment''), (''row_id'', JStr ''x'')]])]"

theorem recon_report_loaded_witness:
  "\<exists>rows. load_recon_data sample_report ''f'' = Inr rows \<and> distinct (map r_row_id rows)"
proof -
  have "\<not> isl (load_recon_data sample_report ''f'')"
    by code_simp
  then obtain rows where "load_recon_data sample_report ''f'' = Inr rows"
    by (cases "load_recon_data sample_report ''f''") auto
  then show ?thesis
    using recon_report_loaded [of sample_report "''f''" rows] by blast
qed

text \<open>
  A timestamp beyond 64 bits and a ledger with an overlong field are malformed inputs that the loaders
  do not turn into an \<open>InputError\<close>.
\<close>

theorem huge_timestamp_uncaught:
  "load_recon_data (JList [JObj [(''entity_id'', JStr ''p''), (''type'', JStr ''payment''),
     (''settled_at'', JInt (10 ^ 20))]]) ''f'' = Inl Uncaught_Time"
  by code_simp

lemma ledger_csv_error_uncaught:
  "csv_reader content = ([], Some e) \<Longrightarrow> load_ledger_text source content = Inl (Uncaught_Csv e)"
  by (simp add: load_ledger_text_def)

end
