(* ===== verification/CsvRoundtrip.thy ===== *)
theory CsvRoundtrip
  imports PyCsv
begin

section \<open>Reading back what was quoted\<close>

text \<open>
  A field is quoted when it contains a comma, a quote or a line end (the second half of \<open>_csv_field\<close> in
  \<open>engine/proof.py\<close>). The reader returns every record written this way, also when quoted fields span
  lines: \<open>csv_file_roundtrip\<close>. The proof follows the reader through a partially read line: \<open>p\<close> is the
  parser at the start of the line, \<open>acc\<close> the part of the line that was read and \<open>q\<close> the parser after it.
\<close>

definition csv_quote :: "string \<Rightarrow> string" where
  "csv_quote s = (if list_ex (\<lambda>c. c \<in> set s) [COMMA, QUOTE, LF, CR]
     then [QUOTE] @ replace_char QUOTE [QUOTE, QUOTE] s @ [QUOTE] else s)"


lemma feed_append: "feed p (s @ t) = (case feed p s of Inl e \<Rightarrow> Inl e | Inr q \<Rightarrow> feed q t)"
  by (induction p s rule: feed.induct) (auto split: sum.split)

lemma feed_snoc: "feed p s = Inr q \<Longrightarrow> feed p (s @ [c]) = process_char q c"
  by (simp add: feed_append split: sum.split)

lemma text_lines_plain: "\<not> is_newline c \<Longrightarrow> text_lines acc (c # t) = text_lines (acc @ [c]) t"
  by (cases t) (auto simp: is_newline_def)

lemma text_lines_LF: "text_lines acc (LF # t) = (acc @ [LF]) # text_lines [] t"
  by (cases t) auto

lemma text_lines_CR: "t = [] \<or> hd t \<noteq> LF \<Longrightarrow> text_lines acc (CR # t) = (acc @ [CR]) # text_lines [] t"
  by (cases t) auto

lemma text_lines_CRLF: "text_lines acc (CR # LF # t) = (acc @ [CR, LF]) # text_lines [] t"
  by simp

lemma text_len_append [simp]: "text_len (s @ t) = text_len s + text_len t"
  by (simp add: text_len_def)

lemma text_len_simps [simp]: "text_len [] = 0" "text_len (c # s) = (if utf8_cont c then 0 else 1) + text_len s"
  by (simp_all add: text_len_def)

lemma text_len_nonneg [simp]: "0 \<le> text_len s"
  by (simp add: text_len_def)

lemma add_char_fits:
  "text_len (cs_field p @ [c]) \<le> FIELD_LIMIT \<Longrightarrow> add_char c st p = Inr (p\<lparr>cs_field := cs_field p @ [c], cs_state := st\<rparr>)"
  by (auto simp: add_char_def)

text \<open>Plain text does not leave its line.\<close>

lemma text_lines_plains: "list_all (\<lambda>c. \<not> is_newline c) s \<Longrightarrow> text_lines acc (s @ t) = text_lines (acc @ s) t"
  by (induction s arbitrary: acc) (simp_all add: text_lines_plain)

lemma feed_plain:
  assumes "cs_state q = IN_FIELD" "list_all (\<lambda>c. c \<notin> {COMMA, QUOTE, LF, CR}) s"
    and "text_len (cs_field q @ s) \<le> FIELD_LIMIT"
  shows "feed q s = Inr (q\<lparr>cs_field := cs_field q @ s\<rparr>)"
  using assms
proof (induction s arbitrary: q)
  case (Cons c s)
  have "text_len (cs_field q @ [c]) \<le> FIELD_LIMIT"
    using Cons.prems(3) text_len_nonneg [of s] by (auto simp del: text_len_nonneg split: if_split_asm)
  then have step: "process_char q c = Inr (q\<lparr>cs_field := cs_field q @ [c]\<rparr>)"
    using Cons.prems(1,2) by (simp add: process_char_def is_newline_def add_char_fits)
  then show ?case
    using Cons.IH [of "q\<lparr>cs_field := cs_field q @ [c]\<rparr>"] Cons.prems by simp
qed simp

subsection \<open>Quoted text\<close>

lemma replace_quote_Cons [simp]:
  "replace_char QUOTE [QUOTE, QUOTE] (c # w)
     = (if c = QUOTE then [QUOTE, QUOTE] else [c]) @ replace_char QUOTE [QUOTE, QUOTE] w"
  "replace_char QUOTE [QUOTE, QUOTE] [] = []"
  by (simp_all add: replace_char_def)

lemma quoted_line_end:
  assumes "feed p l = Inr q" "cs_state q = IN_QUOTED_FIELD"
  shows "csv_rows p n (l # ls) = csv_rows q (Suc n) ls"
  using assms by (simp add: process_eol_def)

lemma quoted_char:
  assumes "cs_state q = IN_QUOTED_FIELD" "c \<noteq> QUOTE" "text_len (cs_field q @ [c]) \<le> FIELD_LIMIT"
  shows "process_char q c = Inr (q\<lparr>cs_field := cs_field q @ [c]\<rparr>)"
  using assms by (simp add: process_char_def add_char_fits)

lemma quoted_text:
  assumes "feed p acc = Inr q" "cs_state q = IN_QUOTED_FIELD" "text_len (cs_field q @ w) \<le> FIELD_LIMIT"
  shows "\<exists>p' n' acc'. csv_rows p n (text_lines acc (replace_char QUOTE [QUOTE, QUOTE] w @ QUOTE # t))
      = csv_rows p' n' (text_lines acc' (QUOTE # t)) \<and> feed p' acc' = Inr (q\<lparr>cs_field := cs_field q @ w\<rparr>)"
  using assms
proof (induction w arbitrary: p n acc q rule: length_induct)
  case (1 w)
  show ?case
  proof (cases w)
    case Nil
    then show ?thesis
      using "1.prems"(1) by (intro exI [of _ p] exI [of _ n] exI [of _ acc]) simp
  next
    case (Cons c v)
    let ?q = "q\<lparr>cs_field := cs_field q @ [c]\<rparr>"
    let ?r = "replace_char QUOTE [QUOTE, QUOTE] v @ QUOTE # t"
    have fits: "text_len (cs_field q @ [c]) \<le> FIELD_LIMIT" "text_len (cs_field ?q @ v) \<le> FIELD_LIMIT"
      using "1.prems"(3) text_len_nonneg [of v] by (auto simp: Cons simp del: text_len_nonneg split: if_split_asm)
    have IH: "\<exists>p'' n'' acc''. csv_rows p' n' (text_lines acc' ?r) = csv_rows p'' n'' (text_lines acc'' (QUOTE # t))
        \<and> feed p'' acc'' = Inr (q\<lparr>cs_field := cs_field q @ w\<rparr>)"
      if "feed p' acc' = Inr ?q" for p' n' acc'
      using "1.IH" [rule_format, of v p' acc' ?q n'] that "1.prems"(2) fits(2) by (simp add: Cons)
    consider "c = QUOTE" | "c = LF" | "c = CR" | "c \<noteq> QUOTE" "\<not> is_newline c"
      by (auto simp: is_newline_def)
    then show ?thesis
    proof cases
      case 1
      have "process_char q QUOTE = Inr (q\<lparr>cs_state := QUOTE_IN_QUOTED_FIELD\<rparr>)"
        "process_char (q\<lparr>cs_state := QUOTE_IN_QUOTED_FIELD\<rparr>) QUOTE = Inr ?q"
        using "1.prems"(2) fits(1) 1 by (simp_all add: process_char_def add_char_fits)
      then have "feed p ((acc @ [QUOTE]) @ [QUOTE]) = Inr ?q"
        using "1.prems"(1) feed_snoc by metis
      from IH [OF this] show ?thesis
        by (simp add: Cons 1 text_lines_plain is_newline_def)
    next
      case 2
      have "feed p (acc @ [LF]) = Inr ?q"
        using "1.prems"(1,2) fits(1) 2 by (simp add: feed_snoc quoted_char)
      then have "csv_rows p n (text_lines acc (LF # ?r)) = csv_rows ?q (Suc n) (text_lines [] ?r)"
        using "1.prems"(2) by (simp add: text_lines_LF quoted_line_end del: csv_rows.simps)
      then show ?thesis
        using IH [of ?q "[]" "Suc n"] by (simp add: Cons 2)
    next
      case 4
      then have "feed p (acc @ [c]) = Inr ?q"
        using "1.prems"(1,2) fits(1) by (simp add: feed_snoc quoted_char)
      from IH [OF this] show ?thesis
        using 4 by (simp add: Cons text_lines_plain)
    next
      case 3
      have cr: "feed p (acc @ [CR]) = Inr ?q"
        using "1.prems"(1,2) fits(1) 3 by (simp add: feed_snoc quoted_char)
      show ?thesis
      proof (cases "v \<noteq> [] \<and> hd v = LF")
        case True
        then obtain u where u: "v = LF # u" by (cases v) auto
        let ?q2 = "?q\<lparr>cs_field := cs_field ?q @ [LF]\<rparr>"
        have fits2: "text_len (cs_field ?q @ [LF]) \<le> FIELD_LIMIT" "text_len (cs_field ?q2 @ u) \<le> FIELD_LIMIT"
          using fits(2) text_len_nonneg [of u] by (auto simp: u simp del: text_len_nonneg split: if_split_asm)
        have "feed p (acc @ [CR, LF]) = Inr ?q2"
          using feed_snoc [OF cr, of LF] "1.prems"(2) fits2(1) by (simp add: quoted_char)
        then have "csv_rows p n (text_lines acc (CR # LF # replace_char QUOTE [QUOTE, QUOTE] u @ QUOTE # t))
            = csv_rows ?q2 (Suc n) (text_lines [] (replace_char QUOTE [QUOTE, QUOTE] u @ QUOTE # t))"
          using "1.prems"(2) by (simp add: quoted_line_end del: csv_rows.simps)
        then show ?thesis
          using "1.IH" [rule_format, of u ?q2 "[]" ?q2 "Suc n"] "1.prems"(2) fits2(2)
          by (simp add: Cons 3 u del: csv_rows.simps)
      next
        case False
        then have "?r = [] \<or> hd ?r \<noteq> LF"
          by (cases v) auto
        then have "csv_rows p n (text_lines acc (CR # ?r)) = csv_rows ?q (Suc n) (text_lines [] ?r)"
          using "1.prems"(2) cr by (simp add: text_lines_CR quoted_line_end del: csv_rows.simps)
        then show ?thesis
          using IH [of ?q "[]" "Suc n"] by (simp add: Cons 3)
      qed
    qed
  qed
qed

subsection \<open>Fields, records and files\<close>

definition at_start :: "csv_parser \<Rightarrow> bool" where
  "at_start q \<longleftrightarrow> (cs_state q = START_FIELD \<or> cs_state q = START_RECORD) \<and> cs_field q = []"

text \<open>The parser has read all of the field \<open>s\<close>, which began in the parser \<open>q\<close>.\<close>

definition read_field :: "csv_parser \<Rightarrow> string \<Rightarrow> csv_parser \<Rightarrow> bool" where
  "read_field q s q' \<longleftrightarrow> cs_field q' = s \<and> cs_fields q' = cs_fields q \<and>
     (cs_state q' = IN_FIELD \<or> cs_state q' = QUOTE_IN_QUOTED_FIELD \<or> s = [] \<and> cs_state q' = cs_state q)"

lemma plain_field:
  assumes "feed p acc = Inr q" "at_start q" "list_all (\<lambda>c. c \<notin> {COMMA, QUOTE, LF, CR}) s" "text_len s \<le> FIELD_LIMIT"
  shows "\<exists>q'. text_lines acc (s @ t) = text_lines (acc @ s) t \<and> feed p (acc @ s) = Inr q' \<and> read_field q s q'"
proof (cases s)
  case Nil
  then show ?thesis
    using assms(1,2) by (simp add: read_field_def at_start_def)
next
  case (Cons c u)
  have "process_char q c = Inr (q\<lparr>cs_field := [c], cs_state := IN_FIELD\<rparr>)"
    using assms(2-4) text_len_nonneg [of u] Cons
    by (auto simp: process_char_def at_start_def at_field_start_def is_newline_def add_char_fits
        simp del: text_len_nonneg split: if_split_asm)
  then have "feed p (acc @ s) = Inr (q\<lparr>cs_field := s, cs_state := IN_FIELD\<rparr>)"
    using assms feed_plain [of "q\<lparr>cs_field := [c], cs_state := IN_FIELD\<rparr>" u] Cons
    by (simp add: feed_append)
  moreover have "text_lines acc (s @ t) = text_lines (acc @ s) t"
    using assms(3) by (intro text_lines_plains) (auto simp: list_all_iff is_newline_def)
  ultimately show ?thesis
    by (simp add: read_field_def)
qed

lemma field_roundtrip:
  assumes "feed p acc = Inr q" "at_start q" "text_len s \<le> FIELD_LIMIT"
  shows "\<exists>p' n' acc' q'. csv_rows p n (text_lines acc (csv_quote s @ t)) = csv_rows p' n' (text_lines acc' t)
     \<and> feed p' acc' = Inr q' \<and> read_field q s q'"
proof (cases "list_ex (\<lambda>c. c \<in> set s) [COMMA, QUOTE, LF, CR]")
  case False
  then have "csv_quote s = s" "list_all (\<lambda>c. c \<notin> {COMMA, QUOTE, LF, CR}) s"
    unfolding csv_quote_def by (auto simp: list_all_iff)
  then show ?thesis
    using plain_field [OF assms(1,2) _ assms(3), of t] by (metis (no_types, lifting))
next
  case True
  let ?q = "q\<lparr>cs_state := IN_QUOTED_FIELD\<rparr>"
  have "process_char q QUOTE = Inr ?q"
    using assms(2) by (auto simp: process_char_def at_start_def at_field_start_def is_newline_def)
  then have "feed p (acc @ [QUOTE]) = Inr ?q"
    using feed_snoc [OF assms(1)] by simp
  from quoted_text [OF this, of s n t] obtain p' n' acc' where
    step: "csv_rows p n (text_lines (acc @ [QUOTE]) (replace_char QUOTE [QUOTE, QUOTE] s @ QUOTE # t))
      = csv_rows p' n' (text_lines acc' (QUOTE # t))" and q': "feed p' acc' = Inr (?q\<lparr>cs_field := s\<rparr>)"
    using assms(2,3) by (auto simp: at_start_def)
  have "feed p' (acc' @ [QUOTE]) = Inr (?q\<lparr>cs_field := s, cs_state := QUOTE_IN_QUOTED_FIELD\<rparr>)"
    using feed_snoc [OF q'] by (simp add: process_char_def)
  moreover have "csv_rows p n (text_lines acc (csv_quote s @ t)) = csv_rows p' n' (text_lines (acc' @ [QUOTE]) t)"
    using True step unfolding csv_quote_def by (simp add: text_lines_plain is_newline_def)
  ultimately show ?thesis
    by (intro exI [of _ p'] exI [of _ n'] exI [of _ "acc' @ [QUOTE]"] exI conjI) (auto simp: read_field_def)
qed

lemma comma_after_field:
  assumes "read_field q s q'" "at_start q"
  shows "process_char q' COMMA = Inr (q'\<lparr>cs_fields := cs_fields q @ [s], cs_field := [], cs_state := START_FIELD\<rparr>)"
  using assms
  by (auto simp: read_field_def at_start_def process_char_def at_field_start_def save_field_def is_newline_def)

lemma newline_after_field:
  assumes "read_field q s q'" "at_start q" "\<not> (s = [] \<and> cs_state q = START_RECORD)"
  shows "\<exists>q''. process_char q' LF = Inr q'' \<and> process_eol q''
     = q'\<lparr>cs_fields := cs_fields q @ [s], cs_field := [], cs_state := START_RECORD\<rparr>"
  using assms
  by (auto simp: read_field_def at_start_def process_char_def at_field_start_def save_field_def is_newline_def process_eol_def)

lemma record_roundtrip:
  assumes "feed p acc = Inr q" "at_start q" "r \<noteq> []" "\<not> (r = [[]] \<and> cs_state q = START_RECORD)"
    and "\<forall>s \<in> set r. text_len s \<le> FIELD_LIMIT"
  shows "\<exists>m. csv_rows p n (text_lines acc (py_join [COMMA] (map csv_quote r) @ LF # t))
    = (case csv_rows csv_init m (text_lines [] t) of (rows, e) \<Rightarrow> ((cs_fields q @ r, m) # rows, e))"
  using assms
proof (induction r arbitrary: p n acc q)
  case (Cons s r)
  note field = field_roundtrip [OF Cons.prems(1,2), of s n]
  show ?case
  proof (cases r)
    case Nil
    obtain p' n' acc' q' where f: "csv_rows p n (text_lines acc (csv_quote s @ LF # t))
        = csv_rows p' n' (text_lines acc' (LF # t))" "feed p' acc' = Inr q'" "read_field q s q'"
      using field Cons.prems(5) by force
    obtain q'' where q'': "process_char q' LF = Inr q''" "process_eol q''
        = q'\<lparr>cs_fields := cs_fields q @ [s], cs_field := [], cs_state := START_RECORD\<rparr>"
      using newline_after_field [OF f(3) Cons.prems(2)] Cons.prems(4) Nil by auto
    have "feed p' (acc' @ [LF]) = Inr q''"
      using feed_snoc [OF f(2)] q''(1) by simp
    then show ?thesis
      using f(1) q''(2) by (intro exI [of _ "Suc n'"]) (simp add: Nil text_lines_LF Let_def)
  next
    case (Cons s' r')
    let ?rest = "py_join [COMMA] (map csv_quote r) @ LF # t"
    obtain p' n' acc' q' where f: "csv_rows p n (text_lines acc (csv_quote s @ COMMA # ?rest))
        = csv_rows p' n' (text_lines acc' (COMMA # ?rest))" "feed p' acc' = Inr q'" "read_field q s q'"
      using field Cons.prems(5) by force
    let ?q = "q'\<lparr>cs_fields := cs_fields q @ [s], cs_field := [], cs_state := START_FIELD\<rparr>"
    have "feed p' (acc' @ [COMMA]) = Inr ?q"
      using feed_snoc [OF f(2)] comma_after_field [OF f(3) Cons.prems(2)] by simp
    from Cons.IH [OF this, of n'] obtain m where
      "csv_rows p' n' (text_lines (acc' @ [COMMA]) ?rest)
        = (case csv_rows csv_init m (text_lines [] t) of (rows, e) \<Rightarrow> ((cs_fields ?q @ r, m) # rows, e))"
      using Cons.prems(5) local.Cons by (auto simp: at_start_def)
    then show ?thesis
      using f(1) by (intro exI [of _ m]) (simp add: local.Cons text_lines_plain is_newline_def)
  qed
qed simp

definition csv_file :: "string list list \<Rightarrow> string" where
  "csv_file rows = concat (map (\<lambda>r. py_join [COMMA] (map csv_quote r) @ [LF]) rows)"

theorem csv_file_roundtrip:
  assumes "\<forall>r \<in> set rows. r \<noteq> [] \<and> r \<noteq> [[]] \<and> (\<forall>s \<in> set r. text_len s \<le> FIELD_LIMIT)"
  shows "map fst (fst (csv_reader (csv_file rows))) = rows \<and> snd (csv_reader (csv_file rows)) = None"
proof -
  have "map fst (fst (csv_rows csv_init n (text_lines [] (csv_file rows)))) = rows
      \<and> snd (csv_rows csv_init n (text_lines [] (csv_file rows))) = None" for n
    using assms
  proof (induction rows arbitrary: n)
    case Nil
    then show ?case by (simp add: csv_file_def csv_init_def)
  next
    case (Cons r rows)
    have "at_start csv_init" "feed csv_init [] = Inr csv_init" "cs_fields csv_init = []"
      by (simp_all add: at_start_def csv_init_def)
    then obtain m where "csv_rows csv_init n (text_lines [] (csv_file (r # rows)))
        = (case csv_rows csv_init m (text_lines [] (csv_file rows)) of (rs, e) \<Rightarrow> ((r, m) # rs, e))"
      using record_roundtrip [of csv_init "[]" csv_init r n "csv_file rows"] Cons.prems
      by (auto simp: csv_file_def)
    then show ?case
      using Cons.IH [of m] Cons.prems by (auto split: prod.split)
  qed
  then show ?thesis
    by (simp add: csv_reader_def)
qed

end
