(* ===== verification/ProofPackets.thy ===== *)
theory ProofPackets
  imports Ingest CsvRoundtrip Solver Reconcile
begin

section \<open>Proof packets: \<open>engine/proof.py\<close>\<close>

text \<open>
  One packet per credit proven to be Razorpay's: the bank line, the verdict, the signals that tie it to
  the settlement report, the rows it covers and the GST recoverable on their fees. The nested
  dictionaries of the source are records. The rows of a reconciliation that carries row ids are looked
  up by the strict resolver, whose error makes the whole function raise; a reconciliation without row
  ids uses the lossy join on type and entity id. The second part flattens packets to CSV.
\<close>

definition PENDING_GST :: string where
  "PENDING_GST = ''pending''"

definition TIE_LABEL :: "(string, string) dict" where
  "TIE_LABEL =
    [(''utr_exact'', ''exact UTR match to a settlement_utr''),
     (''utr_suffix'', ''corroborated UTR suffix of a settlement_utr''),
     (''setsum'', ''bounded set-sum of settlement nets''),
     (''amount_corr'', ''amount equals a unique settlement net''),
     (''split_reconstruction'', ''provably-unique split reconstruction (legs sum to a settlement net)'')]"

definition TIER_LABEL :: "(string, string) dict" where
  "TIER_LABEL =
    [(tier_value TIER_A, ''Tier A '' @ em_dash @ '' decisive identifier tie''),
     (tier_value TIER_B, ''Tier B '' @ em_dash @ '' scored evidence combination''),
     (tier_value TIER_C, ''Tier C '' @ em_dash @ '' bounded set-sum / split reconstruction''),
     (tier_value TIER_LLM, ''Tier LLM '' @ em_dash @ '' narration resolved with edge assistance''),
     (tier_value TIER_RULE, ''human-approved rule'')]"

definition packet_inr :: "int \<Rightarrow> string" where
  "packet_inr paise = rupee @ fmt_f_sep 2 (fl (of_int paise / 100))"

record tie =
  t_signal :: string
  t_detail :: string
  t_explains :: string

record settlement_part =
  sp_covered_entities :: "((string \<times> string) \<times> string option) list"
  sp_covered_net_inr :: string
  sp_residual_paise :: int
  sp_balanced :: bool

datatype violation =
    Credit_Candidate_Rejected string string string string
  | Contender_Settlement_Rejected "string list" string string string

record packet =
  pk_line_key :: string
  pk_value_date :: string
  pk_amount_inr :: string
  pk_narration :: string
  pk_bank_ref :: string
  pk_rail :: string
  pk_tier :: string
  pk_tier_label :: string
  pk_confidence :: rat
  pk_ties :: "tie list"
  pk_corroboration :: "(string \<times> string \<times> rat) list"
  pk_rejected_alternatives :: string
  pk_violated_constraints :: "violation list option"
  pk_challenge :: "(rat \<times> json option) option"
  pk_settlement :: "settlement_part option"
  pk_fee_gst_recoverable_inr :: string
  pk_reconciled :: bool

subsection \<open>The parts of a packet\<close>

definition packet_ties :: "evidence_item list \<Rightarrow> tie list" where
  "packet_ties ev = List.map_filter (\<lambda>e. map_option
     (\<lambda>x. \<lparr>t_signal = ev_signal e, t_detail = ev_detail e, t_explains = x\<rparr>) (map_of TIE_LABEL (ev_signal e))) ev"

definition packet_corroboration :: "evidence_item list \<Rightarrow> (string \<times> string \<times> rat) list" where
  "packet_corroboration ev = map (\<lambda>e. (ev_signal e, ev_detail e, py_round 3 (ev_weight e)))
     (filter (\<lambda>e. \<not> has_key TIE_LABEL (ev_signal e)) ev)"

definition rejected_text :: "string list \<Rightarrow> string" where
  "rejected_text competing =
    (if competing \<noteq> [] then
       ''A distinctive narration keyword for '' @ py_join '', '' (sort competing) @ '' was also present, ''
       @ ''but the report-backed tie(s) above outrank narration resemblance and decide the verdict.''
     else ''No distinctive competing rail keyword was present; the Razorpay verdict rests on the ''
       @ ''report-backed tie(s) above, not on resemblance.'')"

definition covered_items :: "reconciliation \<Rightarrow> ((string \<times> string) \<times> string option) list" where
  "covered_items rc = map (\<lambda>(i, e). (e, if i < length (rc_covered_row_ids rc)
      then Some (rc_covered_row_ids rc ! i) else None)) (enumerate 0 (rc_covered_entity_ids rc))"

text \<open>The fallback without row ids: the n-th occurrence of a key takes the n-th row of that key.\<close>

fun legacy_rows :: "(string \<times> string, recon_row list) dict \<Rightarrow> (string \<times> string, nat) dict \<Rightarrow>
    (string \<times> string) list \<Rightarrow> recon_row list" where
  "legacy_rows by_key seen [] = []"
| "legacy_rows by_key seen (k # ks) =
    (let bucket = dget by_key k []; n = dget seen k 0; rest = legacy_rows by_key (dset seen k (Suc n)) ks
     in if n < length bucket then bucket ! n # rest else rest)"

text \<open>The fee GST of a reconciliation and the rows that name its settlements.\<close>

definition packet_rows ::
  "(row_sig \<Rightarrow> string) \<Rightarrow> recon_row list \<Rightarrow> reconciliation \<Rightarrow> covered_error + int \<times> recon_row list" where
  "packet_rows dig recon_rows rc =
    (if rc_covered_row_ids rc \<noteq> [] then
       map_sum id (\<lambda>rows. (sum_list (map r_tax_paise rows), rows))
         (resolve_covered_rows_by_id rc (rows_by_canonical_id dig recon_rows))
     else
       let tax = dict_of (\<lambda>r. (r_type r, r_entity_id r)) r_tax_paise recon_rows;
           by_key = foldl (\<lambda>d r. dappend d (r_type r, r_entity_id r) r) [] recon_rows
       in Inr (sum_list (map (\<lambda>k. dget tax k 0) (rc_covered_entity_ids rc)),
               legacy_rows by_key [] (rc_covered_entity_ids rc)))"

definition claimed_sids :: "recon_row list \<Rightarrow> string list" where
  "claimed_sids rows = map (\<lambda>r. str_of_opt (r_settlement_id r)) (filter (\<lambda>r. truthy (r_settlement_id r)) rows)"

definition settlement_of :: "reconciliation \<Rightarrow> settlement_part" where
  "settlement_of rc = \<lparr>sp_covered_entities = covered_items rc,
     sp_covered_net_inr = packet_inr (rc_covered_net_paise rc),
     sp_residual_paise = rc_residual_paise rc, sp_balanced = rc_balanced rc\<rparr>"

definition violated_constraints :: "rejected list \<Rightarrow> string \<Rightarrow> string list \<Rightarrow> violation list" where
  "violated_constraints rejected key sids =
     map (\<lambda>r. Credit_Candidate_Rejected (rj_candidate_id r) (rj_target_id r) (rj_violated_constraint r) (rj_detail r))
       (filter (\<lambda>r. key \<in> set (rj_credit_keys r)) rejected)
     @ map (\<lambda>r. Contender_Settlement_Rejected (rj_credit_keys r) (rj_target_id r) (rj_violated_constraint r) (rj_detail r))
       (filter (\<lambda>r. rj_target_id r \<in> set sids \<and> key \<notin> set (rj_credit_keys r)) rejected)"

definition mk_packet ::
  "(string \<Rightarrow> string) \<Rightarrow> pack option \<Rightarrow> rejected list option \<Rightarrow> bank_line \<Rightarrow> attribution \<Rightarrow>
   (reconciliation \<times> int \<times> recon_row list) option \<Rightarrow> packet" where
  "mk_packet nf pack rejected line a covered =
    \<lparr>pk_line_key = a_line_key a, pk_value_date = date_isoformat (ln_value_date line),
     pk_amount_inr = packet_inr (ln_amount_paise line), pk_narration = ln_narration line,
     pk_bank_ref = str_of_opt (ln_bank_ref line), pk_rail = a_rail a, pk_tier = a_tier a,
     pk_tier_label = dget TIER_LABEL (a_tier a) (a_tier a), pk_confidence = py_round 3 (a_confidence a),
     pk_ties = packet_ties (a_evidence a), pk_corroboration = packet_corroboration (a_evidence a),
     pk_rejected_alternatives = rejected_text (map (rail_value \<circ> fst) (narration_rail_signals nf pack line)),
     pk_violated_constraints = map_option (\<lambda>rs. violated_constraints rs (a_line_key a)
        (case covered of None \<Rightarrow> [] | Some (_, _, rows) \<Rightarrow> claimed_sids rows)) rejected,
     pk_challenge = map_option (\<lambda>m. (py_round 4 m, a_competing a)) (a_proof_margin a),
     pk_settlement = map_option (settlement_of \<circ> fst) covered,
     pk_fee_gst_recoverable_inr = (case covered of None \<Rightarrow> PENDING_GST | Some (_, gst, _) \<Rightarrow> packet_inr gst),
     pk_reconciled = (covered \<noteq> None)\<rparr>"

text \<open>The body of the loop: \<open>None\<close> skips the attribution.\<close>

definition packet_of ::
  "(string \<Rightarrow> string) \<Rightarrow> (row_sig \<Rightarrow> string) \<Rightarrow> pack option \<Rightarrow> rejected list option \<Rightarrow> (string, bank_line) dict \<Rightarrow>
   (string, reconciliation) dict \<Rightarrow> recon_row list \<Rightarrow> attribution \<Rightarrow> covered_error + packet option" where
  "packet_of nf dig pack rejected lines_by_key recon_by_key recon_rows a =
    (if a_rail a \<noteq> ''razorpay_settlement'' \<or> a_abstained a then Inr None
     else case map_of lines_by_key (a_line_key a) of
       None \<Rightarrow> Inr None
     | Some line \<Rightarrow>
         if packet_ties (a_evidence a) = [] then Inr None
         else (case map_of recon_by_key (a_line_key a) of
             None \<Rightarrow> Inr (Some (mk_packet nf pack rejected line a None))
           | Some rc \<Rightarrow> sum_bind (packet_rows dig recon_rows rc)
               (\<lambda>(gst, rows). Inr (Some (mk_packet nf pack rejected line a (Some (rc, gst, rows)))))))"

fun packets_of ::
  "(attribution \<Rightarrow> covered_error + packet option) \<Rightarrow> attribution list \<Rightarrow> covered_error + packet list" where
  "packets_of f [] = Inr []"
| "packets_of f (a # as) = sum_bind (f a) (\<lambda>p. map_sum id
     (\<lambda>ps. case p of None \<Rightarrow> ps | Some x \<Rightarrow> x # ps) (packets_of f as))"

definition build_proof_packets ::
  "(string \<Rightarrow> string) \<Rightarrow> (row_sig \<Rightarrow> string) \<Rightarrow> pack option \<Rightarrow> rejected list option \<Rightarrow> bank_line list \<Rightarrow>
   attribution list \<Rightarrow> reconciliation list \<Rightarrow> recon_row list \<Rightarrow> covered_error + packet list" where
  "build_proof_packets nf dig pack rejected lines attributions reconciliations recon_rows =
     packets_of (packet_of nf dig pack rejected (dict_of ln_key id lines)
       (dict_of rc_line_key id reconciliations) recon_rows) attributions"

subsection \<open>CSV\<close>

definition CSV_COLUMNS :: "string list" where
  "CSV_COLUMNS = [''line_key'', ''value_date'', ''amount_inr'', ''narration'', ''bank_ref'', ''rail'', ''tier'',
     ''confidence'', ''tie_signals'', ''reconciled'', ''covered_entity_count'', ''residual_paise'',
     ''balanced'', ''fee_gst_recoverable_inr'']"

definition FORMULA_CHARS :: string where
  "FORMULA_CHARS = ''=+-@'' @ [CHR 0x09, CR, LF]"

definition formula_guard :: "string \<Rightarrow> string" where
  "formula_guard s = (if s \<noteq> [] \<and> hd s \<in> set FORMULA_CHARS then [CHR 0x27] @ s else s)"

definition csv_field :: "string \<Rightarrow> string" where
  "csv_field s = csv_quote (formula_guard s)"

definition bool_text :: "bool \<Rightarrow> string" where
  "bool_text b = (if b then ''True'' else ''False'')"

definition packet_cells :: "packet \<Rightarrow> string list" where
  "packet_cells p =
    [pk_line_key p, pk_value_date p, pk_amount_inr p, pk_narration p, pk_bank_ref p, pk_rail p, pk_tier p,
     float_repr (pk_confidence p), py_join ''; '' (map t_signal (pk_ties p)), bool_text (pk_reconciled p),
     str_int (case pk_settlement p of None \<Rightarrow> 0 | Some st \<Rightarrow> int (length (sp_covered_entities st))),
     (case pk_settlement p of None \<Rightarrow> [] | Some st \<Rightarrow> str_int (sp_residual_paise st)),
     (case pk_settlement p of None \<Rightarrow> [] | Some st \<Rightarrow> bool_text (sp_balanced st)),
     pk_fee_gst_recoverable_inr p]"

definition proof_packets_to_csv :: "packet list \<Rightarrow> string" where
  "proof_packets_to_csv packets =
     py_join [LF] (py_join [COMMA] CSV_COLUMNS # map (\<lambda>p. py_join [COMMA] (map csv_field (packet_cells p))) packets)
     @ [LF]"

subsection \<open>Which credits get a packet, and what it rests on\<close>

definition proven :: "bank_line list \<Rightarrow> attribution \<Rightarrow> bool" where
  "proven lines a \<longleftrightarrow> a_rail a = ''razorpay_settlement'' \<and> \<not> a_abstained a \<and> a_line_key a \<in> ln_key ` set lines
     \<and> (\<exists>e \<in> set (a_evidence a). has_key TIE_LABEL (ev_signal e))"

lemma packets_of_iff:
  "packets_of f as = Inr ps \<longleftrightarrow> (\<forall>a \<in> set as. \<not> isl (f a)) \<and> ps = List.map_filter (\<lambda>a. projr (f a)) as"
proof (induction as arbitrary: ps)
  case (Cons a as)
  have rest: "packets_of f as = Inr (List.map_filter (\<lambda>a. projr (f a)) as) \<longleftrightarrow> (\<forall>a \<in> set as. \<not> isl (f a))"
    using Cons.IH by blast
  show ?case
  proof (cases "packets_of f as")
    case (Inl e)
    then have "\<exists>a \<in> set as. isl (f a)"
      using rest by auto
    then show ?thesis
      using Inl by (cases "f a") auto
  next
    case (Inr qs)
    then have "\<forall>a \<in> set as. \<not> isl (f a)" "qs = List.map_filter (\<lambda>a. projr (f a)) as"
      using Cons.IH by blast+
    then show ?thesis
      using Inr by (cases "f a") (auto simp: map_filter_simps split: option.split)
  qed
qed (auto simp: map_filter_simps)

lemma packet_ties_empty: "packet_ties ev = [] \<longleftrightarrow> \<not> (\<exists>e \<in> set ev. has_key TIE_LABEL (ev_signal e))"
  by (induction ev) (auto simp: packet_ties_def map_filter_simps has_key_def split: option.split)

lemma packet_ties_mem:
  "t \<in> set (packet_ties ev) \<Longrightarrow> \<exists>e \<in> set ev. ev_signal e = t_signal t \<and> ev_detail e = t_detail t
     \<and> map_of TIE_LABEL (ev_signal e) = Some (t_explains t)"
  by (induction ev) (auto simp: packet_ties_def map_filter_simps split: option.split_asm)

lemma mk_packet_sel [simp]:
  "pk_line_key (mk_packet nf pack rej line a c) = a_line_key a"
  "pk_ties (mk_packet nf pack rej line a c) = packet_ties (a_evidence a)"
  "pk_reconciled (mk_packet nf pack rej line a c) = (c \<noteq> None)"
  "pk_amount_inr (mk_packet nf pack rej line a c) = packet_inr (ln_amount_paise line)"
  "pk_settlement (mk_packet nf pack rej line a c) = map_option (settlement_of \<circ> fst) c"
  "pk_fee_gst_recoverable_inr (mk_packet nf pack rej line a c)
     = (case c of None \<Rightarrow> PENDING_GST | Some (_, gst, _) \<Rightarrow> packet_inr gst)"
  by (simp_all add: mk_packet_def)

text \<open>What one step of the loop does.\<close>

lemma packet_of_cases:
  assumes "packet_of nf dig pack rej (dict_of ln_key id lines) recs rows a = Inr x"
  shows "case x of None \<Rightarrow> \<not> proven lines a
    | Some p \<Rightarrow> proven lines a \<and> (\<exists>line c. line \<in> set lines \<and> ln_key line = a_line_key a
        \<and> p = mk_packet nf pack rej line a c \<and>
        (case map_of recs (a_line_key a) of None \<Rightarrow> c = None
         | Some rc \<Rightarrow> \<exists>gst covered. packet_rows dig rows rc = Inr (gst, covered) \<and> c = Some (rc, gst, covered)))"
proof (cases "a_rail a \<noteq> ''razorpay_settlement'' \<or> a_abstained a \<or> packet_ties (a_evidence a) = []
    \<or> map_of (dict_of ln_key id lines) (a_line_key a) = None")
  case True
  then have "x = None"
    using assms by (cases "map_of (dict_of ln_key id lines) (a_line_key a)") (auto simp: packet_of_def split: if_split_asm)
  moreover have "\<not> proven lines a"
    using True by (auto simp: proven_def packet_ties_empty map_of_dict_of_None)
  ultimately show ?thesis by simp
next
  case False
  then obtain line where line: "map_of (dict_of ln_key id lines) (a_line_key a) = Some line" by blast
  then have mem: "line \<in> set lines" "ln_key line = a_line_key a"
    using map_of_dict_of_SomeD [OF line] by auto
  then have "proven lines a"
    using False by (force simp: proven_def packet_ties_empty)
  then show ?thesis
    using assms False line mem
    by (cases "map_of recs (a_line_key a)") (auto simp: packet_of_def load_iff)
qed

lemma map_filter_keys:
  "(\<And>a. a \<in> set as \<Longrightarrow> case g a of None \<Rightarrow> \<not> P a | Some p \<Rightarrow> P a \<and> key p = k a) \<Longrightarrow>
     map key (List.map_filter g as) = map k (filter P as)"
proof (induction as)
  case (Cons a as)
  then show ?case
    using Cons.prems [of a] by (cases "g a") (simp_all add: map_filter_simps)
qed (simp add: map_filter_simps)

lemma map_filter_memD: "y \<in> set (List.map_filter g xs) \<Longrightarrow> \<exists>x \<in> set xs. g x = Some y"
  by (auto simp: List.map_filter_def)

text \<open>What a packet of the line \<open>pk_line_key p\<close> must show.\<close>

definition packet_ok ::
  "(row_sig \<Rightarrow> string) \<Rightarrow> bank_line list \<Rightarrow> attribution list \<Rightarrow> reconciliation list \<Rightarrow> recon_row list \<Rightarrow> packet \<Rightarrow> bool"
where
  "packet_ok dig lines attributions recs rows p \<longleftrightarrow> pk_ties p \<noteq> [] \<and>
    (\<exists>a \<in> set attributions. proven lines a \<and> a_line_key a = pk_line_key p \<and>
      (\<forall>t \<in> set (pk_ties p). \<exists>e \<in> set (a_evidence a). ev_signal e = t_signal t \<and> has_key TIE_LABEL (t_signal t))) \<and>
    (\<exists>line \<in> set lines. ln_key line = pk_line_key p \<and> pk_amount_inr p = packet_inr (ln_amount_paise line)) \<and>
    (case map_of (dict_of rc_line_key id recs) (pk_line_key p) of
       None \<Rightarrow> \<not> pk_reconciled p \<and> pk_settlement p = None \<and> pk_fee_gst_recoverable_inr p = ''pending''
     | Some rc \<Rightarrow> pk_reconciled p \<and> pk_settlement p = Some (settlement_of rc) \<and>
         (rc_covered_row_ids rc \<noteq> [] \<longrightarrow>
           (\<exists>covered. resolve_covered_rows_by_id rc (rows_by_canonical_id dig rows) = Inr covered
             \<and> pk_fee_gst_recoverable_inr p = packet_inr (sum_list (map r_tax_paise covered)))))"

lemma packet_of_ok:
  assumes "packet_of nf dig pack rej (dict_of ln_key id lines) (dict_of rc_line_key id recs) rows a = Inr (Some p)"
    and "a \<in> set attributions"
  shows "packet_ok dig lines attributions recs rows p"
proof -
  from packet_of_cases [OF assms(1)] obtain line c where pv: "proven lines a" "line \<in> set lines"
      "ln_key line = a_line_key a" "p = mk_packet nf pack rej line a c"
    and c: "case map_of (dict_of rc_line_key id recs) (a_line_key a) of None \<Rightarrow> c = None
       | Some rc \<Rightarrow> \<exists>gst covered. packet_rows dig rows rc = Inr (gst, covered) \<and> c = Some (rc, gst, covered)"
    by (auto simp only: option.case)
  have "pk_ties p \<noteq> []"
    using pv(1,4) by (simp add: packet_ties_empty proven_def)
  moreover have "\<forall>t \<in> set (pk_ties p). \<exists>e \<in> set (a_evidence a). ev_signal e = t_signal t \<and> has_key TIE_LABEL (t_signal t)"
    using packet_ties_mem by (fastforce simp: pv(4) has_key_def)
  moreover have "case map_of (dict_of rc_line_key id recs) (pk_line_key p) of
       None \<Rightarrow> \<not> pk_reconciled p \<and> pk_settlement p = None \<and> pk_fee_gst_recoverable_inr p = ''pending''
     | Some rc \<Rightarrow> pk_reconciled p \<and> pk_settlement p = Some (settlement_of rc) \<and>
         (rc_covered_row_ids rc \<noteq> [] \<longrightarrow>
           (\<exists>covered. resolve_covered_rows_by_id rc (rows_by_canonical_id dig rows) = Inr covered
             \<and> pk_fee_gst_recoverable_inr p = packet_inr (sum_list (map r_tax_paise covered))))"
    using c by (auto simp: pv(4) packet_rows_def PENDING_GST_def map_sum_def split: option.split_asm sum.split_asm)
  ultimately show ?thesis
    unfolding packet_ok_def using assms(2) pv by auto
qed

lemma built_packet_ok:
  assumes "build_proof_packets nf dig pack rej lines attributions recs rows = Inr packets" "p \<in> set packets"
  shows "packet_ok dig lines attributions recs rows p"
proof -
  let ?f = "packet_of nf dig pack rej (dict_of ln_key id lines) (dict_of rc_line_key id recs) rows"
  have packets: "packets = List.map_filter (\<lambda>a. projr (?f a)) attributions"
    and ok: "\<forall>a \<in> set attributions. \<not> isl (?f a)"
    using assms(1) by (simp_all add: build_proof_packets_def packets_of_iff)
  obtain a where a: "a \<in> set attributions" "projr (?f a) = Some p"
    using map_filter_memD [OF assms(2) [unfolded packets]] by blast
  have "?f a = Inr (Some p)"
    using bspec [OF ok a(1)] a(2) by (cases "?f a") simp_all
  then show ?thesis
    by (rule packet_of_ok [OF _ a(1)])
qed

text \<open>
  The packets are exactly those of the proven credits. One packet per attribution that is a
  Razorpay verdict, not abstained, of a known line and supported by a signal of the settlement report,
  in the order of the attributions. Each packet lists at least one such signal, all of them found in the
  evidence of its attribution, and shows the amount of its bank line. Its GST figure is \<open>pending\<close> when
  the line has no reconciliation; when the reconciliation names its rows, the figure is the sum of the
  tax of exactly the rows the strict resolver returns.
\<close>

theorem proof_packets_exact:
  assumes "build_proof_packets nf dig pack rej lines attributions recs rows = Inr packets"
  shows "map pk_line_key packets = map a_line_key (filter (proven lines) attributions)
    \<and> (\<forall>p \<in> set packets. packet_ok dig lines attributions recs rows p)"
proof -
  let ?f = "packet_of nf dig pack rej (dict_of ln_key id lines) (dict_of rc_line_key id recs) rows"
  have steps: "?f a = Inr (projr (?f a))" if "a \<in> set attributions" for a
    using assms that by (simp add: build_proof_packets_def packets_of_iff)
  have packets: "packets = List.map_filter (\<lambda>a. projr (?f a)) attributions"
    using assms by (simp add: build_proof_packets_def packets_of_iff)
  have "map pk_line_key packets = map a_line_key (filter (proven lines) attributions)"
    unfolding packets
  proof (rule map_filter_keys)
    fix a assume "a \<in> set attributions"
    from packet_of_cases [OF steps [OF this]] show "case projr (?f a) of None \<Rightarrow> \<not> proven lines a
        | Some p \<Rightarrow> proven lines a \<and> pk_line_key p = a_line_key a"
      by (auto split: option.split_asm option.split)
  qed
  moreover have "packet_ok dig lines attributions recs rows p" if "p \<in> set packets" for p
    by (rule built_packet_ok [OF assms that])
  ultimately show ?thesis by blast
qed

lemma packets_total:
  assumes "digest_ok dig rows" "orderly (SettlementIndex dig rows)"
  shows "\<exists>packets. build_proof_packets nf dig pack rej lines attributions (fst (reconcile nf' dig lbk attrs rows)) rows
    = Inr packets"
proof -
  let ?recs = "fst (reconcile nf' dig lbk attrs rows)"
  have "\<not> isl (packet_of nf dig pack rej (dict_of ln_key id lines) (dict_of rc_line_key id ?recs) rows a)" for a
  proof (cases "map_of (dict_of rc_line_key id ?recs) (a_line_key a)")
    case None
    then show ?thesis
      by (auto simp: packet_of_def split: option.split)
  next
    case (Some rc)
    then have "rc \<in> set ?recs"
      by (auto dest: map_of_dict_of_SomeD)
    then obtain covered where "resolve_covered_rows_by_id rc (rows_by_canonical_id dig rows) = Inr covered"
      using result_resolves(1) [OF assms] by blast
    then have "\<exists>y. packet_rows dig rows rc = Inr y"
      by (simp add: packet_rows_def Let_def)
    then show ?thesis
      by (auto simp: packet_of_def Some case_prod_beta split: option.split)
  qed
  then show ?thesis
    by (simp add: build_proof_packets_def packets_of_iff)
qed

text \<open>
  The composition with reconciliation never fails: on the results of \<open>reconcile\<close> over the same
  report the packets are built without an error, whatever lines, attributions and solver rejections
  come with them.
\<close>

theorem proof_packets_total:
  assumes "digest_ok dig rows" and "orderly (SettlementIndex dig rows)"
  shows "\<not> isl (build_proof_packets nf dig pack rej lines attributions
    (fst (reconcile nf' dig lbk attrs rows)) rows)"
  using packets_total [OF assms] by (metis sum.disc(2))

theorem proof_packets_total_witness:
  "\<not> isl (build_proof_packets id sample_digest None None [sample_line] sample_attrs
    (fst (reconcile id sample_digest sample_lines sample_attrs [sample_row, sample_row2])) [sample_row, sample_row2])"
  by (rule proof_packets_total [OF sample_digest_ok sample_orderly])

definition sample_proof :: "attribution list" where
  "sample_proof = [RailAttribution ''k1'' ''razorpay_settlement'' (19/20) ''A'' [EvidenceItem ''utr_exact'' ''x'' 1]]"

theorem proof_packets_exact_witness:
  "\<exists>packets. build_proof_packets id sample_digest None None [sample_line] sample_proof [] [sample_row] = Inr packets
     \<and> map pk_line_key packets = [''k1'']"
proof -
  obtain packets where "build_proof_packets id sample_digest None None [sample_line] sample_proof [] [sample_row] = Inr packets"
    using that by (auto simp: build_proof_packets_def packets_of_iff packet_of_def split: option.split)
  moreover have "map a_line_key (filter (proven [sample_line]) sample_proof) = [''k1'']"
    by code_simp
  ultimately show ?thesis
    using proof_packets_exact by metis
qed

subsection \<open>The CSV export\<close>

lemma join_lines: "xs \<noteq> [] \<Longrightarrow> py_join [LF] xs @ [LF] = concat (map (\<lambda>x. x @ [LF]) xs)"
  by (induction xs rule: induct_list012) simp_all

lemma columns_plain: "map csv_quote CSV_COLUMNS = CSV_COLUMNS"
  unfolding CSV_COLUMNS_def csv_quote_def by simp

lemma packets_csv_file:
  "proof_packets_to_csv packets = csv_file (CSV_COLUMNS # map (\<lambda>p. map formula_guard (packet_cells p)) packets)"
  by (simp add: proof_packets_to_csv_def csv_file_def join_lines columns_plain csv_field_def [abs_def] comp_def)

lemma formula_guard_safe: "formula_guard s = [] \<or> hd (formula_guard s) \<notin> set FORMULA_CHARS"
  by (auto simp: formula_guard_def FORMULA_CHARS_def)

lemma text_len_formula_guard: "text_len (formula_guard s) \<le> text_len s + 1"
  by (simp add: formula_guard_def)

lemma columns_ok:
  "\<forall>s \<in> set CSV_COLUMNS. text_len s \<le> FIELD_LIMIT \<and> (s = [] \<or> hd s \<notin> set FORMULA_CHARS)"
  unfolding CSV_COLUMNS_def by (simp add: FIELD_LIMIT_def FORMULA_CHARS_def utf8_cont_def code_def)

text \<open>
  C40. The CSV export is read back as it was written: its records are the header and, for every packet
  in order, its fourteen cells, whatever quotes, commas and line ends they contain, as long as each is
  shorter than the reader's limit. The only difference is the quote put in front of a cell that would
  start a formula, and no cell that is read back starts one.
\<close>

theorem packets_csv_roundtrip:
  assumes "\<forall>p \<in> set packets. \<forall>s \<in> set (packet_cells p). text_len s < FIELD_LIMIT"
  shows "map fst (fst (csv_reader (proof_packets_to_csv packets)))
      = CSV_COLUMNS # map (\<lambda>p. map formula_guard (packet_cells p)) packets
    \<and> snd (csv_reader (proof_packets_to_csv packets)) = None
    \<and> (\<forall>row \<in> set (map fst (fst (csv_reader (proof_packets_to_csv packets)))). \<forall>s \<in> set row.
         s = [] \<or> hd s \<notin> set FORMULA_CHARS)"
proof -
  let ?rows = "CSV_COLUMNS # map (\<lambda>p. map formula_guard (packet_cells p)) packets"
  have "text_len (formula_guard s) \<le> FIELD_LIMIT" if "p \<in> set packets" "s \<in> set (packet_cells p)" for p s
    using assms that text_len_formula_guard [of s] by force
  moreover have "CSV_COLUMNS \<noteq> []" "CSV_COLUMNS \<noteq> [[]]" "packet_cells p \<noteq> []" "packet_cells p \<noteq> [z]" for p z
    by (simp_all add: CSV_COLUMNS_def packet_cells_def)
  ultimately have "\<forall>r \<in> set ?rows. r \<noteq> [] \<and> r \<noteq> [[]] \<and> (\<forall>s \<in> set r. text_len s \<le> FIELD_LIMIT)"
    using columns_ok by (auto simp: map_eq_Cons_conv)
  from csv_file_roundtrip [OF this] show ?thesis
    using columns_ok formula_guard_safe unfolding packets_csv_file by auto
qed

definition sample_packet :: packet where
  "sample_packet = mk_packet id None None (sample_line\<lparr>ln_narration := ''=1,'' @ [QUOTE, LF]\<rparr>) (hd sample_proof) None"

theorem packets_csv_roundtrip_witness:
  "map fst (fst (csv_reader (proof_packets_to_csv [sample_packet])))
      = [CSV_COLUMNS, map formula_guard (packet_cells sample_packet)]"
proof -
  have "list_all (\<lambda>s. text_len s < FIELD_LIMIT) (packet_cells sample_packet)"
    by code_simp
  then show ?thesis
    using packets_csv_roundtrip [of "[sample_packet]"] by (simp add: list_all_iff)
qed

end
