(* ===== verification/PyJson.thy ===== *)
theory PyJson
  imports PyRepr PyInput
begin

section \<open>JSON texts and the equality of decoded values\<close>

text \<open>
  \<open>json.dumps(v, sort_keys=True, separators=(",", ":"))\<close>, the canonical form that is hashed and signed:
  keys in the order of their code points (which is the order of their UTF-8 bytes), no blanks, every
  character outside the printable ASCII range escaped. Decoded numbers are finite.
\<close>

definition hex4 :: "int \<Rightarrow> string" where
  "hex4 n = [hex_char (n div 4096 mod 16), hex_char (n div 256 mod 16), hex_char (n div 16 mod 16), hex_char (n mod 16)]"

text \<open>The code point of one UTF-8 encoded character.\<close>

definition code_point :: "string \<Rightarrow> int" where
  "code_point s = (case map code s of
     [a] \<Rightarrow> a
   | [a, b] \<Rightarrow> (a - 192) * 64 + (b - 128)
   | [a, b, c] \<Rightarrow> (a - 224) * 4096 + (b - 128) * 64 + (c - 128)
   | [a, b, c, d] \<Rightarrow> (a - 240) * 262144 + (b - 128) * 4096 + (c - 128) * 64 + (d - 128)
   | _ \<Rightarrow> 0)"

definition u_escape :: "int \<Rightarrow> string" where
  "u_escape n = CHR 0x5C # CHR ''u'' # hex4 n"

definition json_escape :: "string \<Rightarrow> string" where
  "json_escape ch = (let n = code_point ch in
     if n = 34 \<or> n = 92 then CHR 0x5C # ch
     else if n = 10 then [CHR 0x5C, CHR ''n'']
     else if n = 13 then [CHR 0x5C, CHR ''r'']
     else if n = 9 then [CHR 0x5C, CHR ''t'']
     else if n = 12 then [CHR 0x5C, CHR ''f'']
     else if n = 8 then [CHR 0x5C, CHR ''b'']
     else if 32 \<le> n \<and> n \<le> 126 then ch
     else if n < 65536 then u_escape n
     else u_escape (55296 + (n - 65536) div 1024) @ u_escape (56320 + (n - 65536) mod 1024))"

text \<open>The characters of a text: a lead byte with its continuation bytes.\<close>

function text_chars :: "string \<Rightarrow> string list" where
  "text_chars [] = []"
| "text_chars (c # s) = (c # takeWhile utf8_cont s) # text_chars (dropWhile utf8_cont s)"
  by pat_completeness auto
termination
  by (relation "measure length") (simp_all add: less_Suc_eq_le length_dropWhile_le)

definition json_quote :: "string \<Rightarrow> string" where
  "json_quote s = [CHR 0x22] @ concat (map json_escape (text_chars s)) @ [CHR 0x22]"

fun json_dumps :: "json \<Rightarrow> string" where
  "json_dumps JNull = ''null''"
| "json_dumps (JBool b) = (if b then ''true'' else ''false'')"
| "json_dumps (JInt i) = str_int i"
| "json_dumps (JFloat x) = float_repr x"
| "json_dumps (JStr s) = json_quote s"
| "json_dumps (JList js) = ''['' @ py_join '','' (map json_dumps js) @ '']''"
| "json_dumps (JObj kvs) = ''{'' @ py_join '','' (map snd (sort_key fst
     (map (\<lambda>(k, v). (k, json_quote k @ '':'' @ json_dumps v)) kvs))) @ ''}''"

text \<open>
  Equality of decoded values as \<open>==\<close> has it: truth values and integers equal the floats of the same
  value, and objects do not depend on the order of their keys.
\<close>

fun json_norm :: "json \<Rightarrow> json" where
  "json_norm JNull = JNull"
| "json_norm (JBool b) = JFloat (if b then 1 else 0)"
| "json_norm (JInt i) = JFloat (of_int i)"
| "json_norm (JFloat x) = JFloat x"
| "json_norm (JStr s) = JStr s"
| "json_norm (JList js) = JList (map json_norm js)"
| "json_norm (JObj kvs) = JObj (sort_key fst (map (\<lambda>(k, v). (k, json_norm v)) kvs))"

definition json_eq :: "json \<Rightarrow> json \<Rightarrow> bool" where
  "json_eq a b \<longleftrightarrow> json_norm a = json_norm b"

lemma json_eq_refl [simp]: "json_eq a a"
  by (simp add: json_eq_def)

end
