(* ===== verification/Verifier.thy ===== *)
theory Verifier
  imports ProofPackets Journal PyJson
begin

section \<open>The independent verifier: \<open>engine/verifier.py\<close>\<close>

text \<open>
  The checks of a proof packet and of a report, over decoded JSON. The result of a check carries the
  text the source reports. Exceptions the code lets through, although it promises to raise none, are
  values of \<open>verify_error\<close>: the \<open>TypeError\<close> of a membership test with an unhashable signal and of
  iterating a value that is not iterable, and the \<open>OverflowError\<close> of rounding or formatting a number
  beyond the range of doubles.
\<close>

datatype verify_error = Unhashable_Signal | Float_Overflow | Not_Iterable

definition ALLOWED_TIE_SIGNALS :: "string list" where
  "ALLOWED_TIE_SIGNALS = [''utr_exact'', ''utr_suffix'', ''setsum'', ''amount_corr'', ''split_reconstruction'']"

definition VERIFY_TOLERANCE :: int where
  "VERIFY_TOLERANCE = 100"

record check_result =
  ck_name :: string
  ck_passed :: bool
  ck_detail :: string

definition CheckResult :: "string \<Rightarrow> bool \<Rightarrow> string \<Rightarrow> check_result" where
  "CheckResult name passed detail = \<lparr>ck_name = name, ck_passed = passed, ck_detail = detail\<rparr>"

lemma CheckResult_sel [simp]:
  "ck_name (CheckResult n p d) = n" "ck_passed (CheckResult n p d) = p" "ck_detail (CheckResult n p d) = d"
  by (simp_all add: CheckResult_def)

record verification_result =
  vr_ok :: bool
  vr_checks :: "check_result list"
  vr_packet_line_key :: string

subsection \<open>Amounts\<close>

text \<open>Doubles beyond this rational round to infinity.\<close>

definition FLOAT_BOUND :: rat where
  "FLOAT_BOUND = 2 ^ 1024"

text \<open>
  \<open>float(s)\<close> of a text without surrounding whitespace; \<open>None\<close> when it raises or is not finite.
  Underscores must stand between digits.
\<close>

fun underscores_ok :: "bool \<Rightarrow> string \<Rightarrow> bool" where
  "underscores_ok prev [] = True"
| "underscores_ok prev (c # s) = (if c = CHR ''_''
     then prev \<and> s \<noteq> [] \<and> is_digit (hd s) \<and> underscores_ok False s else underscores_ok (is_digit c) s)"

definition float_value :: "bool \<Rightarrow> int \<Rightarrow> int \<Rightarrow> rat option" where
  "float_value neg c e = (let adj = e + ndigits c - 1 in
     if c = 0 \<or> adj < -400 then Some 0
     else if 310 < adj then None
     else let v = fl (of_int c * pow10 e) in
       if FLOAT_BOUND \<le> v then None else Some (if neg then - v else v))"

definition float_of_text :: "string \<Rightarrow> rat option" where
  "float_of_text s = (if \<not> underscores_ok False s then None
     else case split_sign (drop_char (CHR ''_'') s) of (neg, t) \<Rightarrow>
       (case dec_finite neg t of Some (Dec n c e) \<Rightarrow> float_value n c e | _ \<Rightarrow> None))"

definition mul100 :: "rat \<Rightarrow> int option" where
  "mul100 x = (let y = fl (x * 100) in if FLOAT_BOUND \<le> \<bar>y\<bar> then None else Some (rhe y))"

definition parse_inr_text :: "string \<Rightarrow> int option" where
  "parse_inr_text raw = (let s = py_strip raw in
     if s = [] then None
     else let neg = prefix ''-'' s;
              s = (if neg then py_strip (drop 1 s) else s);
              s = py_strip (drop_char COMMA (drop_class [rupee] s))
          in case float_of_text s of None \<Rightarrow> None
             | Some x \<Rightarrow> map_option (\<lambda>p. if neg then - p else p) (mul100 x))"

definition parse_inr_to_paise :: "json \<Rightarrow> verify_error + int option" where
  "parse_inr_to_paise v = (case v of
     JNull \<Rightarrow> Inr None
   | JBool b \<Rightarrow> Inr (Some (if b then 1 else 0))
   | JInt i \<Rightarrow> Inr (Some i)
   | JFloat x \<Rightarrow> (case mul100 x of None \<Rightarrow> Inl Float_Overflow | Some p \<Rightarrow> Inr (Some p))
   | _ \<Rightarrow> Inr (parse_inr_text (py_str v)))"

subsection \<open>The checks of a packet\<close>

text \<open>\<open>str(d.get(k, ""))\<close>.\<close>

definition jstr :: "(string \<times> json) list \<Rightarrow> string \<Rightarrow> string" where
  "jstr d k = (case map_of d k of None \<Rightarrow> [] | Some v \<Rightarrow> py_str v)"

definition hashable :: "json \<Rightarrow> bool" where
  "hashable v = (case v of JList _ \<Rightarrow> False | JObj _ \<Rightarrow> False | _ \<Rightarrow> True)"

definition tie_verdict :: "json \<Rightarrow> verify_error + bool \<times> string" where
  "tie_verdict t = (case t of
     JObj d \<Rightarrow> (let s = jget d ''signal'' in
       if \<not> hashable s then Inl Unhashable_Signal
       else Inr (s \<in> JStr ` set ALLOWED_TIE_SIGNALS, py_str s))
   | _ \<Rightarrow> Inr (False, py_str t))"

fun tie_verdicts :: "json list \<Rightarrow> verify_error + (bool \<times> string) list" where
  "tie_verdicts [] = Inr []"
| "tie_verdicts (t # ts) = sum_bind (tie_verdict t) (\<lambda>v. sum_bind (tie_verdicts ts) (\<lambda>vs. Inr (v # vs)))"

definition check_ties :: "json \<Rightarrow> verify_error + check_result" where
  "check_ties proof = (case proof of
     JObj p \<Rightarrow> (case jget p ''ties'' of
         JList (t # ts) \<Rightarrow> sum_bind (tie_verdicts (t # ts)) (\<lambda>vs.
           let invalid = map snd (filter (\<lambda>v. \<not> fst v) vs) in
           Inr (if invalid \<noteq> [] then
               CheckResult ''tie_signals'' False
                 (''Unknown or disallowed tie signals: '' @ py_join '', '' invalid)
             else CheckResult ''tie_signals'' True
               (''Tie signal(s) are allowlisted report-backed tie types: '' @ py_join '', '' (map snd vs))))
       | _ \<Rightarrow> Inr (CheckResult ''tie_signals'' False
           ''Resemblance-only: no report-backed tie signal present in proof.ties''))
   | _ \<Rightarrow> Inr (CheckResult ''tie_signals'' False ''Missing or invalid 'proof' dictionary''))"

text \<open>\<open>isinstance(v, int)\<close>, which includes the truth values.\<close>

definition as_py_int :: "json \<Rightarrow> int option" where
  "as_py_int v = (case v of JInt i \<Rightarrow> Some i | JBool b \<Rightarrow> Some (if b then 1 else 0) | _ \<Rightarrow> None)"

definition check_residual :: "int \<Rightarrow> (string \<times> json) list \<Rightarrow> verify_error + check_result" where
  "check_residual credited st =
    sum_bind (parse_inr_to_paise (jget st ''covered_net_inr'')) (\<lambda>covered.
      let residual = jget st ''residual_paise''; name = ''reconciliation_arithmetic''
      in Inr (case (covered, as_py_int residual) of
           (Some cov, Some reported) \<Rightarrow>
             let expected = credited - cov
             in if VERIFY_TOLERANCE < \<bar>expected\<bar> then
                  CheckResult name False (''Arithmetic drift '' @ str_int \<bar>expected\<bar> @ '' paise exceeds ''
                    @ [CHR 0xC2, CHR 0xB1] @ str_int VERIFY_TOLERANCE @ '' paise tolerance (credited: ''
                    @ str_int credited @ '', covered: '' @ str_int cov @ '')'')
                else if reported \<noteq> expected then
                  CheckResult name False (''Reported residual '' @ json_repr residual
                    @ '' paise != calculated residual '' @ str_int expected @ '' paise'')
                else CheckResult name True (''Covered net matches credited amount within tolerance (residual: ''
                    @ json_repr residual @ '' paise)'')
         | _ \<Rightarrow> CheckResult name False (''Malformed settlement amounts: covered_net_inr=''
             @ json_repr (jget st ''covered_net_inr'') @ '', residual_paise='' @ json_repr residual)))"

definition check_arithmetic :: "(string \<times> json) list \<Rightarrow> verify_error + check_result" where
  "check_arithmetic packet =
    (let name = ''reconciliation_arithmetic''; reconciled = json_truthy (jget packet ''reconciled'');
         settlement = jget packet ''settlement'' in
     sum_bind (parse_inr_to_paise (jget packet ''amount_inr'')) (\<lambda>credited. case credited of
       None \<Rightarrow> Inr (CheckResult name False
         (''Invalid or missing amount_inr: '' @ json_repr (jget packet ''amount_inr'')))
     | Some cr \<Rightarrow>
         if \<not> reconciled then Inr (CheckResult name True
           ''Credit is unresolved (pending settlement report / split pairing); arithmetic check not applicable'')
         else (case settlement of
             JNull \<Rightarrow> Inr (CheckResult name False ''Packet marked reconciled=True but 'settlement' is missing'')
           | JObj st \<Rightarrow> check_residual cr st
           | _ \<Rightarrow> Inr (CheckResult name False ''Invalid 'settlement' object''))))"

text \<open>\<open>isinstance(m, (int, float)) and m > 0\<close> and the text \<open>f"{m:.4f}"\<close> of a positive margin.\<close>

definition margin_value :: "json \<Rightarrow> rat option" where
  "margin_value m = (case m of JFloat x \<Rightarrow> Some x | _ \<Rightarrow> map_option of_int (as_py_int m))"

definition margin_text :: "rat \<Rightarrow> verify_error + string" where
  "margin_text x = (if FLOAT_BOUND \<le> fl x then Inl Float_Overflow else Inr (fmt_f 4 (fl x)))"

definition check_margin :: "(string \<times> json) list \<Rightarrow> json \<Rightarrow> verify_error + check_result" where
  "check_margin packet proof =
    (let name = ''proof_margin'';
         rail = (case jget packet ''verdict'' of JObj v \<Rightarrow> jget v ''rail'' | _ \<Rightarrow> JNull)
     in if rail \<noteq> JStr ''razorpay_settlement'' then
          Inr (CheckResult name True (''Non-Razorpay verdict ('' @ py_str rail
            @ ''); proof margin check not applicable''))
        else case (case proof of JObj p \<Rightarrow> jget p ''challenge'' | _ \<Rightarrow> JNull) of
          JObj ch \<Rightarrow> (let m = jget ch ''proof_margin'' in
            case margin_value m of
              Some x \<Rightarrow> (if 0 < x
                then map_sum id (\<lambda>t. CheckResult name True (''Challenger audit present; proof margin positive: '' @ t))
                       (margin_text x)
                else Inr (CheckResult name False
                  (''Challenger audit present but proof margin non-positive: '' @ py_str m)))
            | None \<Rightarrow> Inr (CheckResult name False
                (''Challenger audit present but proof margin non-positive: '' @ py_str m)))
        | _ \<Rightarrow> Inr (CheckResult name True
            ''No challenger audit attached; proof rests on the report-backed tie(s) above (checks a/b).''))"

text \<open>The values a \<open>for\<close> loop runs over: list items, keys of an object, characters of a text.\<close>

definition iterate :: "json \<Rightarrow> verify_error + json list" where
  "iterate v = (case v of JList xs \<Rightarrow> Inr xs | JObj d \<Rightarrow> Inr (map (JStr \<circ> fst) d)
     | JStr s \<Rightarrow> Inr (map JStr (text_chars s)) | _ \<Rightarrow> Inl Not_Iterable)"

type_synonym row_index = "(string \<times> string, (string \<times> json) list) dict"

definition type_id :: "(string \<times> json) list \<Rightarrow> string \<times> string" where
  "type_id d = (jstr d ''type'', jstr d ''entity_id'')"

definition recon_by_type_id :: "json list \<Rightarrow> row_index" where
  "recon_by_type_id rows = foldl (\<lambda>ix r. case r of JObj d \<Rightarrow> dset ix (type_id d) d | _ \<Rightarrow> ix) [] rows"

definition missing_entities :: "row_index \<Rightarrow> json list \<Rightarrow> string list" where
  "missing_entities ix ents = List.map_filter (\<lambda>e. case e of
     JObj d \<Rightarrow> (if has_key ix (type_id d) then None else Some (fst (type_id d) @ '':'' @ snd (type_id d)))
   | _ \<Rightarrow> Some (py_str e)) ents"

text \<open>\<open>re.search(word + r"\s+([a-z0-9]+)", s)\<close>: the group of the leftmost match.\<close>

definition lower_alnum :: "char \<Rightarrow> bool" where
  "lower_alnum c \<longleftrightarrow> is_digit c \<or> (97 \<le> code c \<and> code c \<le> 122)"

fun search_after :: "string \<Rightarrow> string \<Rightarrow> string option" where
  "search_after word [] = None"
| "search_after word (c # s) =
    (let r = drop (length word) (c # s); t = takeWhile lower_alnum (py_lstrip r)
     in if prefix word (c # s) \<and> class_len ws_chars r \<noteq> 0 \<and> t \<noteq> [] then Some t else search_after word s)"

text \<open>The complaint about one covered entity under one tie, if any.\<close>

definition utr_complaint :: "row_index \<Rightarrow> json \<Rightarrow> json \<Rightarrow> string option" where
  "utr_complaint ix t ent = (case (t, ent) of
     (JObj tie, JObj e) \<Rightarrow>
       (case map_of ix (type_id e) of
          None \<Rightarrow> None
        | Some row \<Rightarrow>
            let detail = py_lower (jstr tie ''detail''); row_utr = py_lower (jstr row ''settlement_utr'');
                sig = jget tie ''signal''
            in if row = [] \<or> row_utr = [] then None
               else if sig = JStr ''utr_exact'' then
                 (case search_after ''utr'' detail of None \<Rightarrow> None
                  | Some utr \<Rightarrow> if \<not> contains utr row_utr \<and> \<not> contains row_utr utr
                      then Some (''Claimed exact UTR '' @ py_repr utr @ '' does not match recon settlement_utr ''
                             @ py_repr row_utr) else None)
               else if sig = JStr ''utr_suffix'' then
                 (case search_after ''settlement_utr'' detail of None \<Rightarrow> None
                  | Some utr \<Rightarrow> if \<not> (row_utr = utr \<or> suffix utr row_utr \<or> suffix row_utr utr)
                      then Some (''Claimed suffix UTR '' @ py_repr utr @ '' does not match recon settlement_utr ''
                             @ py_repr row_utr) else None)
               else None)
   | _ \<Rightarrow> None)"

definition utr_complaints :: "row_index \<Rightarrow> json list \<Rightarrow> json list \<Rightarrow> string list" where
  "utr_complaints ix ties ents =
     concat (map (\<lambda>t. List.map_filter (utr_complaint ix t) ents) ties)"

definition check_rows :: "json \<Rightarrow> json \<Rightarrow> json \<Rightarrow> verify_error + check_result" where
  "check_rows proof settlement recon_rows =
    (let name = ''recon_rows_consistency'' in
     case recon_rows of
       JList rows \<Rightarrow> (case settlement of
           JObj st \<Rightarrow>
             sum_bind (iterate (case map_of st ''covered_entities'' of None \<Rightarrow> JList [] | Some v \<Rightarrow> v)) (\<lambda>ents.
               let ix = recon_by_type_id rows; missing = missing_entities ix ents;
                   ties = (case proof of JObj p \<Rightarrow> (case jget p ''ties'' of JList ts \<Rightarrow> ts | _ \<Rightarrow> []) | _ \<Rightarrow> []);
                   complaints = utr_complaints ix ties ents
               in Inr (if missing \<noteq> [] then CheckResult name False
                    (''Covered entities not found in recon_rows: '' @ py_join '', '' (take 5 missing))
                  else if complaints \<noteq> [] then CheckResult name False (last complaints)
                  else CheckResult name True (''All '' @ str_int (int (length ents))
                    @ '' covered entities exist in recon_rows and match claimed UTR ties'')))
         | _ \<Rightarrow> Inr (CheckResult name True ''No covered entities in packet to cross-check against recon_rows''))
     | _ \<Rightarrow> Inr (CheckResult name False ''recon_rows must be a list''))"

definition verify_proof_packet :: "json \<Rightarrow> json option \<Rightarrow> verify_error + verification_result" where
  "verify_proof_packet pkt recon_rows = (case pkt of
     JObj packet \<Rightarrow>
       let proof = jget packet ''proof'';
           key = (case map_of packet ''line_key'' of None \<Rightarrow> ''unknown'' | Some v \<Rightarrow> py_str v)
       in sum_bind (check_ties proof) (\<lambda>a. sum_bind (check_arithmetic packet) (\<lambda>b.
          sum_bind (check_margin packet proof) (\<lambda>c.
          sum_bind (case recon_rows of None \<Rightarrow> Inr []
              | Some rows \<Rightarrow> map_sum id (\<lambda>d. [d]) (check_rows proof (jget packet ''settlement'') rows)) (\<lambda>d.
            Inr \<lparr>vr_ok = list_all ck_passed ([a, b, c] @ d), vr_checks = [a, b, c] @ d,
                 vr_packet_line_key = key\<rparr>))))
   | _ \<Rightarrow> Inr \<lparr>vr_ok = False, vr_checks = [CheckResult ''packet_structure'' False ''Packet is not a dictionary''],
        vr_packet_line_key = ''malformed''\<rparr>)"

subsection \<open>The checks of a report\<close>

definition single_check :: "string \<Rightarrow> string \<Rightarrow> bool \<Rightarrow> string \<Rightarrow> verification_result" where
  "single_check key name ok detail =
     \<lparr>vr_ok = ok, vr_checks = [CheckResult name ok detail], vr_packet_line_key = key\<rparr>"

definition is_hex :: "char \<Rightarrow> bool" where
  "is_hex c \<longleftrightarrow> c \<in> set ''0123456789abcdefABCDEF''"

definition check_audit_root :: "json \<Rightarrow> verification_result" where
  "check_audit_root v = (case v of
     JStr s \<Rightarrow> if length s = 64 \<and> list_all is_hex s
       then single_check ''report:audit_root'' ''audit_root_format'' True
         (''audit_root is a well-formed 64-char SHA-256 hex string ('' @ s @ '') '' @ em_dash @ '' FORMAT only; ''
          @ ''not an independent recomputation of the audit chain (needs the raw ledger).'')
       else single_check ''report:audit_root'' ''audit_root_format'' False
         (''Invalid audit_root: expected 64-char hex string, got '' @ json_repr v)
   | _ \<Rightarrow> single_check ''report:audit_root'' ''audit_root_format'' False
         (''Invalid audit_root: expected 64-char hex string, got '' @ json_repr v))"

definition type_name :: "json \<Rightarrow> string" where
  "type_name v = (case v of JNull \<Rightarrow> ''NoneType'' | JBool _ \<Rightarrow> ''bool'' | JInt _ \<Rightarrow> ''int'' | JFloat _ \<Rightarrow> ''float''
     | JStr _ \<Rightarrow> ''str'' | JList _ \<Rightarrow> ''list'' | JObj _ \<Rightarrow> ''dict'')"

fun verify_packets :: "json list \<Rightarrow> verify_error + verification_result list" where
  "verify_packets [] = Inr []"
| "verify_packets (p # ps) = sum_bind (verify_proof_packet p None) (\<lambda>r.
     sum_bind (verify_packets ps) (\<lambda>rs. Inr (r # rs)))"

definition is_str :: "json \<Rightarrow> bool" where
  "is_str v = (case v of JStr _ \<Rightarrow> True | _ \<Rightarrow> False)"

definition pack_shape :: "json \<Rightarrow> bool" where
  "pack_shape ep = (case ep of JObj d \<Rightarrow> is_str (jget d ''pack_id'') \<and> is_str (jget d ''version'')
     \<and> is_str (jget d ''schema_version'') | _ \<Rightarrow> False)"

definition check_pack :: "json \<Rightarrow> verification_result" where
  "check_pack ep = (let ok = (pack_shape ep \<and> \<not> isl (resolve_pack_provenance ep)) in
     single_check ''report:config:evidence_pack'' ''evidence_pack_provenance'' ok
       (if ok then (case ep of JObj d \<Rightarrow> ''Evidence pack provenance verified: '' @ py_str (jget d ''pack_id'') @ ''@''
            @ py_str (jget d ''version'') @ '' (schema '' @ py_str (jget d ''schema_version'') @ '')'' | _ \<Rightarrow> [])
        else ''Schema 1.1.0 report must carry valid config.evidence_pack dict, got: '' @ json_repr ep))"

definition verify_report :: "json \<Rightarrow> verify_error + verification_result list" where
  "verify_report rep = (case rep of
     JObj r \<Rightarrow>
       sum_bind (case jget r ''proof_packets'' of
           JList ps \<Rightarrow> verify_packets ps
         | v \<Rightarrow> Inr [single_check ''report:proof_packets'' ''proof_packets_structure'' False
               ([CHR 0x27] @ ''proof_packets' must be a list, got '' @ type_name v)]) (\<lambda>ps.
         Inr (check_audit_root (jget r ''audit_root'') # ps @
           (case jget r ''config'' of JObj cfg \<Rightarrow>
               if jget cfg ''report_schema_version'' = JStr ''1.1.0'' then [check_pack (jget cfg ''evidence_pack'')] else []
            | _ \<Rightarrow> [])))
   | _ \<Rightarrow> Inr [single_check ''report:root'' ''report_structure'' False ''Report is not a dictionary''])"

subsection \<open>The JSON form of a packet\<close>

definition tie_json :: "tie \<Rightarrow> json" where
  "tie_json t = JObj [(''signal'', JStr (t_signal t)), (''detail'', JStr (t_detail t)), (''explains'', JStr (t_explains t))]"

definition violation_json :: "violation \<Rightarrow> json" where
  "violation_json v = (case v of
     Credit_Candidate_Rejected cand target constr detail \<Rightarrow>
       JObj [(''type'', JStr ''credit_candidate_rejected''), (''candidate_id'', JStr cand), (''target_id'', JStr target),
         (''violated_constraint'', JStr constr), (''detail'', JStr detail)]
   | Contender_Settlement_Rejected keys target constr detail \<Rightarrow>
       JObj [(''type'', JStr ''contender_settlement_rejected''), (''contender_credit_keys'', JList (map JStr keys)),
         (''target_id'', JStr target), (''violated_constraint'', JStr constr), (''detail'', JStr detail)])"

definition settlement_json :: "settlement_part \<Rightarrow> json" where
  "settlement_json st = JObj
    [(''covered_entities'', JList (map (\<lambda>((t, eid), rid). JObj ([(''type'', JStr t), (''entity_id'', JStr eid)]
        @ (case rid of None \<Rightarrow> [] | Some i \<Rightarrow> [(''row_id'', JStr i)]))) (sp_covered_entities st))),
     (''covered_net_inr'', JStr (sp_covered_net_inr st)), (''residual_paise'', JInt (sp_residual_paise st)),
     (''balanced'', JBool (sp_balanced st))]"

definition packet_proof_json :: "packet \<Rightarrow> json" where
  "packet_proof_json p = JObj
    ([(''ties'', JList (map tie_json (pk_ties p))),
      (''corroboration'', JList (map (\<lambda>(s, d, w). JObj [(''signal'', JStr s), (''detail'', JStr d), (''weight'', JFloat w)])
          (pk_corroboration p))),
      (''rejected_alternatives'', JStr (pk_rejected_alternatives p))]
     @ (case pk_violated_constraints p of None \<Rightarrow> []
        | Some vs \<Rightarrow> [(''violated_constraints'', JList (map violation_json vs))])
     @ (case pk_challenge p of None \<Rightarrow> []
        | Some (m, ex) \<Rightarrow> [(''challenge'', JObj [(''proof_margin'', JFloat m), (''rejected_explanation'', j_opt id ex)])]))"

definition packet_json :: "packet \<Rightarrow> json" where
  "packet_json p = JObj
    [(''line_key'', JStr (pk_line_key p)), (''value_date'', JStr (pk_value_date p)),
     (''amount_inr'', JStr (pk_amount_inr p)), (''narration'', JStr (pk_narration p)),
     (''bank_ref'', JStr (pk_bank_ref p)),
     (''verdict'', JObj [(''rail'', JStr (pk_rail p)), (''tier'', JStr (pk_tier p)),
        (''tier_label'', JStr (pk_tier_label p)), (''confidence'', JFloat (pk_confidence p))]),
     (''proof'', packet_proof_json p), (''settlement'', j_opt settlement_json (pk_settlement p)),
     (''fee_gst_recoverable_inr'', JStr (pk_fee_gst_recoverable_inr p)), (''reconciled'', JBool (pk_reconciled p))]"

subsection \<open>Amounts are read back\<close>

lemma int_of_digits_append: "int_of_digits (a @ b) = int_of_digits a * 10 ^ length b + int_of_digits b"
  by (induction b rule: rev_induct) (simp_all add: int_of_digits_def algebra_simps)

lemma packet_inr_text:
  "\<bar>p\<bar> < 2 ^ 52 \<Longrightarrow> packet_inr p = rupee @ (if p < 0 then ''-'' else []) @ str_nn_sep (\<bar>p\<bar> div 100)
     @ ''.'' @ zpad 2 (str_nn (\<bar>p\<bar> mod 100))"
  unfolding packet_inr_def fmt_f_sep_def fixed_digits_def Let_def fl_hundredths by (simp only: power2_eq_square) simp

lemma drop_comma_group3: "list_all is_digit s \<Longrightarrow> drop_char COMMA (group3 s) = s"
  by (induction s rule: group3.induct) (auto simp: drop_char_def is_digit_def code_def)

lemma drop_comma_sep: "0 \<le> n \<Longrightarrow> drop_char COMMA (str_nn_sep n) = str_nn n"
proof -
  assume "0 \<le> n"
  have "drop_char COMMA (rev s) = rev (drop_char COMMA s)" for s
    by (simp add: drop_char_def rev_filter)
  then show ?thesis
    using drop_comma_group3 [of "rev (str_nn n)"] str_nn_digits [OF \<open>0 \<le> n\<close>] by (simp add: str_nn_sep_def)
qed

lemma ascii_group3: "list_all is_digit s \<Longrightarrow> c \<in> set (group3 s) \<Longrightarrow> is_digit c \<or> c = COMMA"
  by (induction s rule: group3.induct) (auto simp: list_all_iff)

lemma drop_rupee_plain: "CHR 0xE2 \<notin> set s \<Longrightarrow> drop_class [rupee] s = s"
proof (induction "[rupee]" s rule: drop_class.induct)
  case (2 c cs)
  then have "class_len [rupee] (c # cs) = 0"
    by (simp add: class_len_def rupee_def)
  then show ?case
    using 2 by (simp add: Let_def)
qed simp

lemma drop_rupee: "CHR 0xE2 \<notin> set s \<Longrightarrow> drop_class [rupee] (rupee @ s) = s"
proof -
  assume s: "CHR 0xE2 \<notin> set s"
  have front: "rupee @ s = CHR 0xE2 # CHR 0x82 # CHR 0xB9 # s"
    by (simp add: rupee_def)
  have "class_len [rupee] (CHR 0xE2 # CHR 0x82 # CHR 0xB9 # s) = 3"
    by (simp add: class_len_def rupee_def)
  then show ?thesis
    unfolding front by (simp add: Let_def drop_rupee_plain [OF s])
qed

lemma underscores_ok_plain: "CHR ''_'' \<notin> set s \<Longrightarrow> underscores_ok prev s"
  by (induction prev s rule: underscores_ok.induct) auto

lemma length_str_nn: "0 \<le> c \<Longrightarrow> c < 10 ^ Suc k \<Longrightarrow> length (str_nn c) \<le> Suc k"
proof (induction k arbitrary: c)
  case 0
  then show ?case by (subst str_nn.simps) simp
next
  case (Suc k)
  have "c div 10 < 10 ^ Suc k"
    using Suc.prems(2) by (simp add: div_less_iff_less_mult mult.commute)
  then show ?case
    using Suc.IH [of "c div 10"] Suc.prems(1) by (subst str_nn.simps) auto
qed

lemma ndigits_bounds: "0 \<le> c \<Longrightarrow> c < 2 ^ 52 \<Longrightarrow> 1 \<le> ndigits c \<and> ndigits c \<le> 16"
  using length_str_nn [of c 15] by (simp add: ndigits_def) (metis One_nat_def Suc_leI length_greater_0_conv str_nn_nonempty)

lemma dec_finite_amount:
  assumes a: "list_all is_digit a" "a \<noteq> []" and b: "list_all is_digit b" "length b = 2"
    and small: "int_of_digits (a @ b) < 2 ^ 52"
  shows "dec_finite neg (a @ CHR ''.'' # b) = Some (Dec neg (int_of_digits (a @ b)) (-2))"
proof -
  have dot: "\<not> is_digit (CHR ''.'')"
    by (simp add: is_digit_def code_def)
  have whole: "takeWhile is_digit b = b" "dropWhile is_digit b = []"
    using b(1) by (auto simp: takeWhile_eq_all_conv dropWhile_eq_Nil_conv list_all_iff)
  have "0 \<le> int_of_digits (a @ b)"
    using a b by (intro int_of_digits_nonneg) simp
  then have "1 \<le> ndigits (int_of_digits (a @ b))" "ndigits (int_of_digits (a @ b)) \<le> 16"
    using ndigits_bounds small by blast+
  then show ?thesis
    using a(2) b(2)
    by (simp add: dec_finite_def Let_def dec_exp_def takeWhile_digits [OF a(1) dot, of b, THEN conjunct1]
        takeWhile_digits [OF a(1) dot, of b, THEN conjunct2] whole)
qed

lemma rhe_fl_near: "\<bar>x - of_int p\<bar> < 1 / 2 \<Longrightarrow> rhe x = p" for x :: rat
  using rhe_unique [of p x] by (simp add: abs_minus_commute)

text \<open>The product of the nearest double of \<open>p / 100\<close> with 100 rounds to \<open>p\<close>.\<close>

lemma mul100_hundredth:
  assumes "\<bar>p\<bar> < 2 ^ 50"
  shows "mul100 (fl (of_int p / 100)) = Some p"
proof -
  let ?x = "of_int p / 100 :: rat" and ?q = "of_int \<bar>p\<bar> :: rat"
  have e1: "\<bar>fl ?x - ?x\<bar> \<le> ?q / 100 * 2 powi (- 53)"
    using fl_error [of ?x] by (simp add: abs_divide)
  then have m: "\<bar>fl ?x * 100 - of_int p\<bar> \<le> ?q * 2 powi (- 53)"
    by (simp add: abs_if field_simps split: if_split_asm)
  have "?q * 2 powi (- 53) \<le> ?q"
    by (simp add: power_int_minus power_int_numeral mult_le_cancel_left1)
  then have abs: "\<bar>fl ?x * 100\<bar> \<le> 2 * ?q"
    using m by linarith
  have "\<bar>fl (fl ?x * 100) - fl ?x * 100\<bar> \<le> 2 * ?q * 2 powi (- 53)"
    using fl_error [of "fl ?x * 100"] abs by (meson mult_right_mono order_trans zero_le_power_int zero_le_numeral)
  then have tot: "\<bar>fl (fl ?x * 100) - of_int p\<bar> \<le> 3 * ?q * 2 powi (- 53)"
    using m by linarith
  have "?q < 2 ^ 50"
    using assms by (metis of_int_less_iff of_int_numeral of_int_power)
  then have "3 * ?q * 2 powi (- 53) < 1 / 2"
    by (simp add: power_int_minus power_int_numeral field_simps)
  then have near: "\<bar>fl (fl ?x * 100) - of_int p\<bar> < 1 / 2"
    using tot by linarith
  moreover have "\<bar>fl (fl ?x * 100)\<bar> < 2 ^ 1024"
  proof -
    have "\<bar>fl (fl ?x * 100)\<bar> < ?q + 1" using near by linarith
    also have "\<dots> < 2 ^ 51" using \<open>?q < 2 ^ 50\<close> by simp
    also have "(2 :: rat) ^ 51 \<le> 2 ^ 1024" by (rule power_increasing) simp_all
    finally show ?thesis .
  qed
  ultimately show ?thesis
    using rhe_fl_near by (simp add: mul100_def Let_def FLOAT_BOUND_def)
qed

lemma fl_within: "\<bar>fl x - x\<bar> \<le> \<bar>x\<bar>"
proof -
  have "\<bar>x\<bar> * 2 powi (- 53) \<le> \<bar>x\<bar> * 1"
    by (rule mult_left_mono) (simp_all add: power_int_minus power_int_numeral)
  with fl_error [of x] show ?thesis by (simp only: mult_1_right)
qed

lemma float_value_amount:
  assumes "0 \<le> c" "c < 2 ^ 50"
  shows "float_value neg c (-2) = Some (fl (of_int (if neg then - c else c) / 100))"
proof (cases "c = 0")
  case False
  let ?x = "of_int c / 100 :: rat"
  have "1 \<le> ndigits c \<and> ndigits c \<le> 16"
    using assms by (intro ndigits_bounds) simp_all
  moreover have "fl ?x < 2 ^ 1024"
  proof -
    have "(of_int c :: rat) < 2 ^ 50"
      using assms(2) by (metis of_int_less_iff of_int_numeral of_int_power)
    then have "fl ?x < 2 ^ 50"
      using fl_within [of ?x] assms(1) by (simp add: abs_if field_simps split: if_split_asm)
    also have "(2 :: rat) ^ 50 \<le> 2 ^ 1024" by (rule power_increasing) simp_all
    finally show ?thesis .
  qed
  moreover have "fl (of_int (- c) / 100) = - fl ?x"
    by (simp flip: fl_minus)
  ultimately show ?thesis
    using False by (simp add: float_value_def Let_def pow10_def FLOAT_BOUND_def)
qed (simp add: float_value_def Let_def)

lemma amount_text_facts:
  assumes "0 \<le> n"
  shows "CHR 0xE2 \<notin> set (str_nn_sep n)" "CHR ''_'' \<notin> set (str_nn n)" "CHR ''_'' \<notin> set (zpad 2 (str_nn n))"
    "CHR 0xE2 \<notin> set (zpad 2 (str_nn n))" "COMMA \<notin> set (zpad 2 (str_nn n))"
proof -
  have "c \<in> set (str_nn_sep n) \<Longrightarrow> is_digit c \<or> c = COMMA" for c
    using ascii_group3 [of "rev (str_nn n)"] str_nn_digits [OF assms] by (simp add: str_nn_sep_def)
  from this [of "CHR 0xE2"] show "CHR 0xE2 \<notin> set (str_nn_sep n)"
    by (auto simp: is_digit_def code_def)
  have "\<forall>c \<in> set (str_nn n) \<union> set (zpad 2 (str_nn n)). is_digit c"
    using str_nn_digits [OF assms] zpad_digits by (auto simp: list_all_iff)
  then show "CHR ''_'' \<notin> set (str_nn n)" "CHR ''_'' \<notin> set (zpad 2 (str_nn n))"
    "CHR 0xE2 \<notin> set (zpad 2 (str_nn n))" "COMMA \<notin> set (zpad 2 (str_nn n))"
    by (force simp: is_digit_def code_def)+
qed

lemma py_strip_rupee: "is_digit d \<Longrightarrow> py_strip (rupee @ t @ [d]) = rupee @ t @ [d]"
proof -
  assume d: "is_digit d"
  have "class_len ws_chars (rupee @ t @ [d]) = 0"
    by (simp add: class_len_def ws_chars_def rupee_def)
  moreover have "class_len (map rev ws_chars) (d # rev t @ rev rupee) = 0"
    using d ws_heads(2) by (intro class_len_0) blast
  ultimately show ?thesis
    by (simp add: py_strip_def py_lstrip_def py_rstrip_def strip_front_id)
qed

text \<open>Below \<open>2 ^ 50\<close> paise the verifier reads the amount that the packet shows.\<close>

lemma parse_inr_packet:
  assumes "\<bar>p\<bar> < 2 ^ 50"
  shows "parse_inr_to_paise (JStr (packet_inr p)) = Inr (Some p)"
proof -
  let ?a = "\<bar>p\<bar> div 100" and ?b = "\<bar>p\<bar> mod 100" and ?sg = "if p < 0 then ''-'' else []"
  let ?t = "?sg @ str_nn ?a @ CHR ''.'' # zpad 2 (str_nn ?b)"
  have p52: "\<bar>p\<bar> < 2 ^ 52" using assms by simp
  have b: "list_all is_digit (zpad 2 (str_nn ?b))" "length (zpad 2 (str_nn ?b)) = 2"
    by (simp_all add: zpad_digits str_nn_digits length_str_nn_two)
  then obtain b' d where bd: "zpad 2 (str_nn ?b) = b' @ [d]" "is_digit d"
    by (cases "zpad 2 (str_nn ?b)" rule: rev_cases) auto
  obtain h a' where h: "str_nn ?a = h # a'" "is_digit h"
    using str_nn_digits [of ?a] str_nn_nonempty [of ?a] by (cases "str_nn ?a") auto
  have digits: "int_of_digits (str_nn ?a @ zpad 2 (str_nn ?b)) = \<bar>p\<bar>"
    using b(2) by (simp add: int_of_digits_append)
  have hn: "h \<noteq> CHR ''-''" "h \<noteq> CHR ''+''"
    using h(2) by (auto simp: is_digit_def code_def)
  have inr: "packet_inr p = rupee @ (?sg @ str_nn_sep ?a @ CHR ''.'' # b') @ [d]"
    using packet_inr_text [OF p52] bd(1) by simp
  have strip: "py_strip (packet_inr p) = packet_inr p"
    unfolding inr by (rule py_strip_rupee [OF bd(2)])
  moreover have "packet_inr p \<noteq> []" "\<not> prefix ''-'' (packet_inr p)"
    by (simp_all add: packet_inr_def rupee_def)
  moreover have "drop_class [rupee] (packet_inr p) = ?sg @ str_nn_sep ?a @ CHR ''.'' # zpad 2 (str_nn ?b)"
    using amount_text_facts [of ?a] amount_text_facts [of ?b]
    by (simp add: packet_inr_text [OF p52] drop_rupee)
  moreover have "drop_char COMMA (?sg @ str_nn_sep ?a @ CHR ''.'' # zpad 2 (str_nn ?b)) = ?t"
    using drop_comma_sep [of ?a] amount_text_facts(5) [of ?b] by (auto simp: drop_char_def filter_id_conv)
  moreover have "py_strip ?t = ?t"
    using py_strip_id [of h d "a' @ CHR ''.'' # b' @ [d]" "h # a' @ CHR ''.'' # b'"]
      py_strip_id [of "CHR ''-''" d "h # a' @ CHR ''.'' # b' @ [d]" "CHR ''-'' # h # a' @ CHR ''.'' # b'"] h bd
    by simp
  moreover have "float_of_text ?t = Some (fl (of_int p / 100))"
  proof -
    have "CHR ''_'' \<notin> set ?t"
      using amount_text_facts(2) [of ?a] amount_text_facts(3) [of ?b] by simp
    moreover have "split_sign ?t = (p < 0, str_nn ?a @ CHR ''.'' # zpad 2 (str_nn ?b))"
      using h hn by (simp add: split_sign_def)
    moreover have "dec_finite (p < 0) (str_nn ?a @ CHR ''.'' # zpad 2 (str_nn ?b)) = Some (Dec (p < 0) \<bar>p\<bar> (-2))"
      using dec_finite_amount [OF str_nn_digits str_nn_nonempty b] digits p52 by simp
    ultimately show ?thesis
      using float_value_amount [of "\<bar>p\<bar>" "p < 0"] assms by (simp add: float_of_text_def underscores_ok_plain drop_char_id)
  qed
  ultimately show ?thesis
    using mul100_hundredth [OF assms] by (simp add: parse_inr_to_paise_def py_str_def parse_inr_text_def Let_def)
qed

subsection \<open>What the verifier establishes\<close>

lemma tie_verdicts_allowed:
  "tie_verdicts ts = Inr vs \<Longrightarrow> (\<forall>v \<in> set vs. fst v) \<longleftrightarrow>
     (\<forall>t \<in> set ts. \<exists>d. \<exists>sig \<in> set ALLOWED_TIE_SIGNALS. t = JObj d \<and> jget d ''signal'' = JStr sig)"
proof (induction ts arbitrary: vs)
  case (Cons t ts)
  then obtain v vs' where v: "tie_verdict t = Inr v" "tie_verdicts ts = Inr vs'" "vs = v # vs'"
    by (auto simp: load_iff)
  have "fst v \<longleftrightarrow> (\<exists>d. \<exists>sig \<in> set ALLOWED_TIE_SIGNALS. t = JObj d \<and> jget d ''signal'' = JStr sig)"
    using v(1) by (cases t) (auto simp: tie_verdict_def Let_def split: if_split_asm)
  then show ?case
    using Cons.IH [OF v(2)] v(3) by simp
qed simp

lemma check_ties_passed:
  assumes "check_ties proof = Inr c"
  shows "ck_passed c \<longleftrightarrow> (\<exists>p ts. proof = JObj p \<and> jget p ''ties'' = JList ts \<and> ts \<noteq> [] \<and>
    (\<forall>t \<in> set ts. \<exists>d. \<exists>sig \<in> set ALLOWED_TIE_SIGNALS. t = JObj d \<and> jget d ''signal'' = JStr sig))"
proof (cases "\<exists>p t ts. proof = JObj p \<and> jget p ''ties'' = JList (t # ts)")
  case True
  then obtain p t ts where pt: "proof = JObj p" "jget p ''ties'' = JList (t # ts)" by blast
  obtain vs where vs: "tie_verdicts (t # ts) = Inr vs"
    using assms pt by (cases "tie_verdicts (t # ts)") (simp_all add: check_ties_def del: tie_verdicts.simps)
  then have "ck_passed c \<longleftrightarrow> filter (\<lambda>v. \<not> fst v) vs = []"
    using assms pt by (cases "filter (\<lambda>v. \<not> fst v) vs = []")
      (auto simp: check_ties_def Let_def simp del: tie_verdicts.simps)
  then show ?thesis
    using tie_verdicts_allowed [OF vs] pt by (simp add: filter_empty_conv)
next
  case False
  then have "\<not> ck_passed c"
    using assms by (auto simp: check_ties_def split: json.split_asm list.split_asm)
  then show ?thesis
    using False by (auto simp: neq_Nil_conv)
qed

lemma check_residual_passed:
  assumes "check_residual cr st = Inr c"
  shows "ck_passed c \<longleftrightarrow> (\<exists>cov. parse_inr_to_paise (jget st ''covered_net_inr'') = Inr (Some cov)
    \<and> \<bar>cr - cov\<bar> \<le> 100 \<and> as_py_int (jget st ''residual_paise'') = Some (cr - cov))"
proof (cases "\<exists>cov rep. parse_inr_to_paise (jget st ''covered_net_inr'') = Inr (Some cov)
    \<and> as_py_int (jget st ''residual_paise'') = Some rep")
  case True
  then obtain cov rep where cr: "parse_inr_to_paise (jget st ''covered_net_inr'') = Inr (Some cov)"
      "as_py_int (jget st ''residual_paise'') = Some rep" by blast
  consider "100 < \<bar>cr - cov\<bar>" | "\<not> 100 < \<bar>cr - cov\<bar>" "rep \<noteq> cr - cov"
    | "\<not> 100 < \<bar>cr - cov\<bar>" "rep = cr - cov"
    by blast
  then show ?thesis
  proof cases
    case 1
    then have "\<not> ck_passed c"
      using assms cr by (auto simp: check_residual_def Let_def VERIFY_TOLERANCE_def)
    with 1 cr show ?thesis by simp
  next
    case 2
    then have "\<not> ck_passed c"
      using assms cr by (auto simp: check_residual_def Let_def VERIFY_TOLERANCE_def)
    with 2 cr show ?thesis by simp
  next
    case 3
    then have "ck_passed c"
      using assms cr by (auto simp: check_residual_def Let_def VERIFY_TOLERANCE_def)
    with 3 cr show ?thesis by simp
  qed
next
  case False
  then have "\<not> ck_passed c"
    using assms by (auto simp: check_residual_def load_iff Let_def split: option.split_asm)
  with False show ?thesis by blast
qed

lemma check_arithmetic_passed:
  assumes "check_arithmetic packet = Inr c"
  shows "ck_passed c \<longleftrightarrow> (\<exists>cr. parse_inr_to_paise (jget packet ''amount_inr'') = Inr (Some cr) \<and>
    (json_truthy (jget packet ''reconciled'') \<longrightarrow>
      (\<exists>st cov. jget packet ''settlement'' = JObj st
        \<and> parse_inr_to_paise (jget st ''covered_net_inr'') = Inr (Some cov)
        \<and> \<bar>cr - cov\<bar> \<le> 100 \<and> as_py_int (jget st ''residual_paise'') = Some (cr - cov))))"
proof (cases "\<exists>cr. parse_inr_to_paise (jget packet ''amount_inr'') = Inr (Some cr)")
  case True
  then obtain cr where cr: "parse_inr_to_paise (jget packet ''amount_inr'') = Inr (Some cr)" by blast
  consider "\<not> json_truthy (jget packet ''reconciled'')"
    | st where "json_truthy (jget packet ''reconciled'')" "jget packet ''settlement'' = JObj st"
    | "json_truthy (jget packet ''reconciled'')" "\<forall>st. jget packet ''settlement'' \<noteq> JObj st"
    by blast
  then show ?thesis
  proof cases
    case 1
    then show ?thesis
      using assms cr by (auto simp: check_arithmetic_def Let_def)
  next
    case 2
    then have "check_residual cr st = Inr c"
      using assms cr by (simp add: check_arithmetic_def Let_def)
    from check_residual_passed [OF this] show ?thesis
      using cr 2 by auto
  next
    case 3
    then have "\<not> ck_passed c"
      using assms cr by (cases "jget packet ''settlement''") (auto simp: check_arithmetic_def Let_def)
    then show ?thesis
      using 3 by blast
  qed
next
  case False
  then have "\<not> ck_passed c"
    using assms by (auto simp: check_arithmetic_def load_iff Let_def split: option.split_asm)
  then show ?thesis
    using False by blast
qed

text \<open>
  C24. Acceptance means something. Whatever packet is handed in, with or without report rows, if all its
  checks pass then it names at least one tie and only allowed ones, its amount can be read, and a packet
  marked as reconciled carries a settlement whose covered net differs from the credited amount by at most
  100 paise and whose stated residual is exactly that difference.
\<close>

theorem verified_packet_sound:
  assumes "verify_proof_packet pkt recon_rows = Inr r" and "vr_ok r"
  shows "\<exists>packet proof ties cr. pkt = JObj packet \<and> jget packet ''proof'' = JObj proof
    \<and> jget proof ''ties'' = JList ties \<and> ties \<noteq> []
    \<and> (\<forall>t \<in> set ties. \<exists>d. \<exists>sig \<in> set ALLOWED_TIE_SIGNALS. t = JObj d \<and> jget d ''signal'' = JStr sig)
    \<and> parse_inr_to_paise (jget packet ''amount_inr'') = Inr (Some cr)
    \<and> (json_truthy (jget packet ''reconciled'') \<longrightarrow>
        (\<exists>st cov. jget packet ''settlement'' = JObj st
          \<and> parse_inr_to_paise (jget st ''covered_net_inr'') = Inr (Some cov)
          \<and> \<bar>cr - cov\<bar> \<le> 100 \<and> as_py_int (jget st ''residual_paise'') = Some (cr - cov)))"
proof -
  obtain packet where pkt: "pkt = JObj packet"
    using assms by (cases pkt) (auto simp: verify_proof_packet_def)
  obtain a b where ab: "check_ties (jget packet ''proof'') = Inr a" "check_arithmetic packet = Inr b"
      "ck_passed a" "ck_passed b"
    using assms by (auto simp: verify_proof_packet_def pkt load_iff Let_def)
  show ?thesis
    using check_ties_passed [OF ab(1)] check_arithmetic_passed [OF ab(2)] ab(3,4) pkt by fastforce
qed

theorem verified_packet_sound_witness:
  "\<exists>packet proof ties cr. packet_json sample_packet = JObj packet \<and> jget packet ''proof'' = JObj proof
    \<and> jget proof ''ties'' = JList ties \<and> ties \<noteq> []
    \<and> parse_inr_to_paise (jget packet ''amount_inr'') = Inr (Some cr)"
proof -
  have "case verify_proof_packet (packet_json sample_packet) None of Inl _ \<Rightarrow> False | Inr r \<Rightarrow> vr_ok r"
    by code_simp
  then obtain r where "verify_proof_packet (packet_json sample_packet) None = Inr r" "vr_ok r"
    by (auto split: sum.split_asm)
  from verified_packet_sound [OF this] show ?thesis by blast
qed

subsection \<open>The packets of the engine are accepted\<close>

lemma TIE_LABEL_allowed: "has_key TIE_LABEL s \<longleftrightarrow> s \<in> set ALLOWED_TIE_SIGNALS"
  by (auto simp: TIE_LABEL_def ALLOWED_TIE_SIGNALS_def has_key_def)

lemma jget_packet [simp]:
  "jget [] k = JNull" "jget ((k', v) # d) k = (if k' = k then v else jget d k)"
  by (simp_all add: jget_def)

lemma tie_verdicts_json:
  "\<forall>t \<in> set ts. t_signal t \<in> set ALLOWED_TIE_SIGNALS \<Longrightarrow> \<exists>vs. tie_verdicts (map tie_json ts) = Inr vs \<and> (\<forall>v \<in> set vs. fst v)"
  by (induction ts) (auto simp: tie_verdict_def tie_json_def Let_def hashable_def)

lemma check_ties_json:
  assumes "pk_ties p \<noteq> []" "\<forall>t \<in> set (pk_ties p). t_signal t \<in> set ALLOWED_TIE_SIGNALS"
  shows "\<exists>c. check_ties (packet_proof_json p) = Inr c \<and> ck_passed c"
proof -
  obtain vs where vs: "tie_verdicts (map tie_json (pk_ties p)) = Inr vs" "\<forall>v \<in> set vs. fst v"
    using tie_verdicts_json [OF assms(2)] by blast
  then have "filter (\<lambda>v. \<not> fst v) vs = []" by (simp add: filter_empty_conv)
  moreover obtain t ts where "pk_ties p = t # ts"
    using assms(1) by (cases "pk_ties p") simp_all
  ultimately show ?thesis
    using vs(1) by (simp add: check_ties_def packet_proof_json_def Let_def del: tie_verdicts.simps)
qed

lemma margin_text_ok: "0 < m \<Longrightarrow> m \<le> 1 \<Longrightarrow> \<exists>t. margin_text m = Inr t"
proof -
  assume m: "0 < m" "m \<le> 1"
  have "fl m \<le> 2" using fl_within [of m] m by linarith
  also have "(2 :: rat) = 2 ^ 1" by simp
  also have "(2 :: rat) ^ 1 < 2 ^ 1024" by (rule power_strict_increasing) simp_all
  finally show ?thesis
    by (simp add: margin_text_def FLOAT_BOUND_def)
qed

lemma check_margin_json:
  assumes "\<forall>m ex. pk_challenge p = Some (m, ex) \<longrightarrow> 0 < m \<and> m \<le> 1"
  shows "\<exists>c. check_margin packet (packet_proof_json p) = Inr c \<and> ck_passed c"
proof (cases "pk_challenge p")
  case None
  then show ?thesis
    by (cases "pk_violated_constraints p") (simp_all add: check_margin_def packet_proof_json_def Let_def)
next
  case (Some c)
  then obtain m ex where c: "pk_challenge p = Some (m, ex)" by (cases c) simp
  moreover obtain t where "margin_text m = Inr t"
    using margin_text_ok assms c by blast
  ultimately show ?thesis
    using assms by (cases "pk_violated_constraints p") (simp_all add: check_margin_def packet_proof_json_def Let_def margin_value_def)
qed


lemma check_arithmetic_json:
  assumes amount: "pk_amount_inr p = packet_inr cr" "\<bar>cr\<bar> < 2 ^ 49"
    and part: "case pk_settlement p of None \<Rightarrow> \<not> pk_reconciled p
      | Some st \<Rightarrow> sp_covered_net_inr st = packet_inr cov \<and> sp_residual_paise st = cr - cov \<and> \<bar>cr - cov\<bar> \<le> 100"
    and packet: "packet_json p = JObj packet"
  shows "\<exists>c. check_arithmetic packet = Inr c \<and> ck_passed c"
proof -
  have cr: "parse_inr_to_paise (jget packet ''amount_inr'') = Inr (Some cr)"
    using packet amount parse_inr_packet [of cr] by (auto simp: packet_json_def)
  have rec: "json_truthy (jget packet ''reconciled'') = pk_reconciled p"
      "jget packet ''settlement'' = j_opt settlement_json (pk_settlement p)"
    using packet by (auto simp: packet_json_def json_truthy_def)
  show ?thesis
  proof (cases "pk_reconciled p")
    case False
    then show ?thesis
      using cr rec by (simp add: check_arithmetic_def Let_def)
  next
    case True
    then obtain st where st: "pk_settlement p = Some st" "sp_covered_net_inr st = packet_inr cov"
        "sp_residual_paise st = cr - cov" "\<bar>cr - cov\<bar> \<le> 100"
      using part by (auto split: option.split_asm)
    have "parse_inr_to_paise (JStr (packet_inr cov)) = Inr (Some cov)"
      using amount(2) st(4) by (intro parse_inr_packet) simp
    then show ?thesis
      using True cr rec st
      by (simp add: check_arithmetic_def Let_def settlement_json_def j_opt_def check_residual_def as_py_int_def VERIFY_TOLERANCE_def)
  qed
qed

lemma verify_packet_json:
  assumes ties: "pk_ties p \<noteq> []" "\<forall>t \<in> set (pk_ties p). t_signal t \<in> set ALLOWED_TIE_SIGNALS"
    and amount: "pk_amount_inr p = packet_inr cr" "\<bar>cr\<bar> < 2 ^ 49"
    and part: "case pk_settlement p of None \<Rightarrow> \<not> pk_reconciled p
      | Some st \<Rightarrow> sp_covered_net_inr st = packet_inr cov \<and> sp_residual_paise st = cr - cov \<and> \<bar>cr - cov\<bar> \<le> 100"
    and margin: "\<forall>m ex. pk_challenge p = Some (m, ex) \<longrightarrow> 0 < m \<and> m \<le> 1"
  shows "\<exists>r. verify_proof_packet (packet_json p) None = Inr r \<and> vr_ok r"
proof -
  obtain packet where packet: "packet_json p = JObj packet" "jget packet ''proof'' = packet_proof_json p"
    by (simp add: packet_json_def)
  obtain a where "check_ties (packet_proof_json p) = Inr a" "ck_passed a"
    using check_ties_json [OF ties] by blast
  moreover obtain b where "check_arithmetic packet = Inr b" "ck_passed b"
    using check_arithmetic_json [OF amount part packet(1)] by blast
  moreover obtain c where "check_margin packet (packet_proof_json p) = Inr c" "ck_passed c"
    using check_margin_json [OF margin] by blast
  ultimately show ?thesis
    using packet by (simp add: verify_proof_packet_def Let_def)
qed

text \<open>Every packet over the results of \<open>reconcile\<close> is accepted.\<close>

lemma engine_packet_accepted:
  assumes "digest_ok dig rows" and "orderly (SettlementIndex dig rows)" and "distinct (map ln_key lines)"
    and "\<forall>l \<in> set lines. \<bar>ln_amount_paise l\<bar> < 2 ^ 49"
    and "build_proof_packets nf dig pack rej lines attributions
      (fst (reconcile nf' dig (dict_of ln_key id lines) attrs rows)) rows = Inr packets"
    and "p \<in> set packets" and "\<forall>m ex. pk_challenge p = Some (m, ex) \<longrightarrow> 0 < m \<and> m \<le> 1"
  shows "\<exists>r. verify_proof_packet (packet_json p) None = Inr r \<and> vr_ok r"
proof -
  let ?lbk = "dict_of ln_key id lines"
  let ?recs = "fst (reconcile nf' dig ?lbk attrs rows)"
  note ok = built_packet_ok [OF assms(5,6), unfolded packet_ok_def]
  obtain line where line: "line \<in> set lines" "ln_key line = pk_line_key p"
      "pk_amount_inr p = packet_inr (ln_amount_paise line)"
    using ok by blast
  have "\<exists>cov. case pk_settlement p of None \<Rightarrow> \<not> pk_reconciled p | Some st \<Rightarrow> sp_covered_net_inr st = packet_inr cov
      \<and> sp_residual_paise st = ln_amount_paise line - cov \<and> \<bar>ln_amount_paise line - cov\<bar> \<le> 100"
  proof (cases "map_of (dict_of rc_line_key id ?recs) (pk_line_key p)")
    case None
    then show ?thesis using ok by simp
  next
    case (Some rc)
    then have rc: "rc \<in> set ?recs" "rc_line_key rc = pk_line_key p"
      by (auto dest: map_of_dict_of_SomeD)
    from result_resolves(2) [OF assms(1,2) rc(1)] obtain k l where
        r: "rc_residual_paise rc = rc_credit_amount_paise rc - rc_covered_net_paise rc" "\<bar>rc_residual_paise rc\<bar> \<le> 100"
        "map_of ?lbk k = Some l" "rc_line_key rc = ln_key l" "rc_credit_amount_paise rc = ln_amount_paise l"
      by (auto simp: result_ok_def line_of_def)
    have "l \<in> set lines"
      using map_of_dict_of_SomeD [OF r(3)] by auto
    then have "l = line"
      using line rc(2) r(4) assms(3) by (simp add: distinct_map inj_on_def)
    moreover have "pk_settlement p = Some (settlement_of rc)"
      using ok Some by simp
    ultimately show ?thesis
      using r by (auto simp: settlement_of_def)
  qed
  then obtain cov where "case pk_settlement p of None \<Rightarrow> \<not> pk_reconciled p | Some st \<Rightarrow> sp_covered_net_inr st = packet_inr cov
      \<and> sp_residual_paise st = ln_amount_paise line - cov \<and> \<bar>ln_amount_paise line - cov\<bar> \<le> 100" ..
  moreover have "pk_ties p \<noteq> []" "\<forall>t \<in> set (pk_ties p). t_signal t \<in> set ALLOWED_TIE_SIGNALS"
    using ok by (auto simp: TIE_LABEL_allowed)
  ultimately show ?thesis
    using verify_packet_json line(1,3) assms(4,7) by blast
qed


text \<open>
  C25. The independent verifier accepts what the engine produces, when the digest has no collision and the report
  has at most 16 settlements or lists them in ascending order. Build the packets of any attributions
  from the results of \<open>reconcile\<close> over the same bank lines (distinct keys, amounts below \<open>2 ^ 49\<close> paise)
  and the same report: the packets are built without an error, the verifier raises nothing on the JSON
  of a packet and all its checks pass, provided a challenge attached to the packet has a margin above 0
  and at most 1. The amounts travel as formatted rupee texts through a double and come back exact.
\<close>

theorem verifier_accepts_engine_packets:
  assumes "digest_ok dig rows" and "orderly (SettlementIndex dig rows)" and "distinct (map ln_key lines)"
    and "\<forall>l \<in> set lines. \<bar>ln_amount_paise l\<bar> < 2 ^ 49"
  shows "\<exists>packets. build_proof_packets nf dig pack rej lines attributions
      (fst (reconcile nf' dig (dict_of ln_key id lines) attrs rows)) rows = Inr packets
    \<and> (\<forall>p \<in> set packets. (\<forall>m ex. pk_challenge p = Some (m, ex) \<longrightarrow> 0 < m \<and> m \<le> 1) \<longrightarrow>
         (\<exists>r. verify_proof_packet (packet_json p) None = Inr r \<and> vr_ok r))"
  using packets_total [OF assms(1,2)] engine_packet_accepted [OF assms] by metis

theorem verifier_accepts_engine_packets_witness:
  "\<exists>packets p r. build_proof_packets id sample_digest None None [sample_line] sample_proof
      (fst (reconcile id sample_digest (dict_of ln_key id [sample_line]) sample_attrs [sample_row, sample_row2]))
      [sample_row, sample_row2] = Inr packets \<and> p \<in> set packets \<and> pk_reconciled p
    \<and> verify_proof_packet (packet_json p) None = Inr r \<and> vr_ok r"
proof -
  let ?b = "build_proof_packets id sample_digest None None [sample_line] sample_proof
      (fst (reconcile id sample_digest (dict_of ln_key id [sample_line]) sample_attrs [sample_row, sample_row2]))
      [sample_row, sample_row2]"
  have "\<not> isl ?b \<and> map pk_reconciled (projr ?b) = [True] \<and> map pk_challenge (projr ?b) = [None]"
    by code_simp
  then obtain p where p: "?b = Inr [p]" "pk_reconciled p" "pk_challenge p = None"
    by (cases ?b) (auto simp: map_eq_Cons_conv)
  have "distinct (map ln_key [sample_line])" "\<forall>l \<in> set [sample_line]. \<bar>ln_amount_paise l\<bar> < 2 ^ 49"
    by (simp_all add: sample_line_def)
  from verifier_accepts_engine_packets [OF sample_digest_ok sample_orderly this,
      where nf = id and nf' = id and pack = None and rej = None and attributions = sample_proof and attrs = sample_attrs]
  obtain r where "verify_proof_packet (packet_json p) None = Inr r" "vr_ok r"
    unfolding p(1) using p(3) by auto
  with p show ?thesis by fastforce
qed

text \<open>
  The promise never to raise does not hold: a signal that is a list cannot be looked up in the set of
  signals, and an amount that is a double near the top of its range overflows when it is rounded.
\<close>

lemma mul100_overflow: "mul100 (2 ^ 1023) = None"
proof -
  let ?y = "2 ^ 1023 * 100 :: rat"
  have "\<bar>?y\<bar> * 2 powi (- 53) \<le> \<bar>?y\<bar> * (1 / 2)"
    by (rule mult_left_mono) (simp_all add: power_int_minus power_int_numeral del: abs_mult)
  then have "\<bar>fl ?y - ?y\<bar> \<le> \<bar>?y\<bar> * (1 / 2)"
    using fl_error [of ?y] by (rule order_trans [rotated])
  moreover have "0 \<le> ?y" by simp
  ultimately have "?y / 2 \<le> fl ?y" by linarith
  moreover have "(2 :: rat) ^ 1024 = 2 * 2 ^ 1023" by (simp flip: power_Suc)
  moreover have "2 * 2 ^ 1023 \<le> ?y / 2" by simp
  ultimately have "2 ^ 1024 \<le> \<bar>fl ?y\<bar>" by linarith
  then show ?thesis
    by (simp only: mul100_def Let_def FLOAT_BOUND_def if_True)
qed

theorem verifier_raises:
  "verify_proof_packet (JObj [(''proof'', JObj [(''ties'', JList [JObj [(''signal'', JList [])]])])]) None
     = Inl Unhashable_Signal
   \<and> verify_proof_packet (JObj [(''amount_inr'', JFloat (2 ^ 1023))]) None = Inl Float_Overflow"
proof
  show "verify_proof_packet (JObj [(''proof'', JObj [(''ties'', JList [JObj [(''signal'', JList [])]])])]) None
     = Inl Unhashable_Signal"
    by code_simp
  have "parse_inr_to_paise (JFloat (2 ^ 1023)) = Inl Float_Overflow"
    unfolding parse_inr_to_paise_def json.case mul100_overflow option.case ..
  then show "verify_proof_packet (JObj [(''amount_inr'', JFloat (2 ^ 1023))]) None = Inl Float_Overflow"
    unfolding verify_proof_packet_def check_arithmetic_def
    by (simp add: Let_def check_ties_def del: power_numeral)
qed

end
