(* ===== verification/JsonCanonical.thy ===== *)
theory JsonCanonical
  imports PyJson
begin

section \<open>The canonical text determines the value\<close>

text \<open>
  Two decoded values with the same canonical text are the same up to the order of keys. The proof reads
  the text from the left: \<open>unescape\<close> reads one character of a quoted text, a number ends at the first
  character that cannot belong to it, and the items of lists and objects are self-delimiting.
\<close>

subsection \<open>Characters\<close>

definition uchar :: "string \<Rightarrow> bool" where
  "uchar ch = (case ch of
     [a] \<Rightarrow> code a < 128
   | [a, b] \<Rightarrow> 194 \<le> code a \<and> code a < 224 \<and> utf8_cont b
   | [a, b, c] \<Rightarrow> 224 \<le> code a \<and> code a < 240 \<and> utf8_cont b \<and> utf8_cont c
       \<and> (code a = 224 \<longrightarrow> 160 \<le> code b) \<and> (code a = 237 \<longrightarrow> code b < 160)
   | [a, b, c, d] \<Rightarrow> 240 \<le> code a \<and> code a < 245 \<and> utf8_cont b \<and> utf8_cont c \<and> utf8_cont d
       \<and> (code a = 240 \<longrightarrow> 144 \<le> code b) \<and> (code a = 244 \<longrightarrow> code b < 144)
   | _ \<Rightarrow> False)"

lemma code_range: "0 \<le> code c" "code c < 256"
proof -
  have "code c = int (of_char c)" by (simp add: code_def of_char_def)
  then show "0 \<le> code c" "code c < 256" by simp_all
qed

lemma code_inject: "code a = code b \<longleftrightarrow> a = b"
  by (simp add: code_def)

lemma concat_text_chars [simp]: "concat (text_chars s) = s"
  by (induction s rule: text_chars.induct) simp_all

lemma utf8_ok_lead: "utf8_ok s \<Longrightarrow> takeWhile utf8_cont s = [] \<and> dropWhile utf8_cont s = s"
  by (cases s) (auto simp: utf8_cont_def split: if_split_asm)

lemma text_chars_uchar: "utf8_ok s \<Longrightarrow> \<forall>ch \<in> set (text_chars s). uchar ch"
proof (induction s rule: utf8_ok.induct)
  case (2 a s)
  have not_cont: "\<not> utf8_cont x" if "code x < 128 \<or> 192 \<le> code x" for x
    using that by (auto simp: utf8_cont_def)
  consider "code a < 128" "utf8_ok s"
    | b t where "s = b # t" "194 \<le> code a" "code a < 224" "utf8_cont b" "utf8_ok t"
    | b c t where "s = b # c # t" "224 \<le> code a" "code a < 240" "utf8_cont b" "utf8_cont c"
        "code a = 224 \<longrightarrow> 160 \<le> code b" "code a = 237 \<longrightarrow> code b < 160" "utf8_ok t"
    | b c d t where "s = b # c # d # t" "240 \<le> code a" "code a < 245" "utf8_cont b" "utf8_cont c" "utf8_cont d"
        "code a = 240 \<longrightarrow> 144 \<le> code b" "code a = 244 \<longrightarrow> code b < 144" "utf8_ok t"
    using "2.prems" by (auto split: if_split_asm list.split_asm)
  then show ?case
  proof cases
    case 1
    then show ?thesis using "2.IH"(1) utf8_ok_lead [of s] by (simp add: uchar_def)
  next
    case (2 b t)
    then show ?thesis using "2.IH"(2) utf8_ok_lead [of t] by (simp add: uchar_def)
  next
    case (3 b c t)
    then show ?thesis using "2.IH"(3) utf8_ok_lead [of t] by (simp add: uchar_def)
  next
    case (4 b c d t)
    then show ?thesis using "2.IH"(4) utf8_ok_lead [of t] by (simp add: uchar_def)
  qed
qed simp

lemma uchar_cases:
  assumes "uchar ch"
  obtains (one) a where "ch = [a]" "code_point ch = code a" "code a < 128"
  | (two) a b where "ch = [a, b]" "code_point ch = (code a - 192) * 64 + (code b - 128)"
      "194 \<le> code a" "code a < 224" "128 \<le> code b" "code b < 192"
  | (three) a b c where "ch = [a, b, c]" "code_point ch = (code a - 224) * 4096 + (code b - 128) * 64 + (code c - 128)"
      "224 \<le> code a" "code a < 240" "128 \<le> code b" "code b < 192" "128 \<le> code c" "code c < 192"
      "code a = 224 \<longrightarrow> 160 \<le> code b" "code a = 237 \<longrightarrow> code b < 160"
  | (four) a b c d where "ch = [a, b, c, d]"
      "code_point ch = (code a - 240) * 262144 + (code b - 128) * 4096 + (code c - 128) * 64 + (code d - 128)"
      "240 \<le> code a" "code a < 245" "128 \<le> code b" "code b < 192" "128 \<le> code c" "code c < 192"
      "128 \<le> code d" "code d < 192" "code a = 240 \<longrightarrow> 144 \<le> code b" "code a = 244 \<longrightarrow> code b < 144"
  using assms by (auto simp: uchar_def code_point_def utf8_cont_def split: list.split_asm)

text \<open>The four lengths have disjoint ranges of code points, none of them a surrogate.\<close>

lemma code_point_range:
  assumes "uchar ch"
  shows "0 \<le> code_point ch" "code_point ch < 1114112" "code_point ch < 55296 \<or> 57344 \<le> code_point ch"
    "length ch = (if code_point ch < 128 then 1 else if code_point ch < 2048 then 2
       else if code_point ch < 65536 then 3 else 4)"
proof -
  have "0 \<le> code_point ch \<and> code_point ch < 1114112 \<and> (code_point ch < 55296 \<or> 57344 \<le> code_point ch)
      \<and> length ch = (if code_point ch < 128 then 1 else if code_point ch < 2048 then 2
         else if code_point ch < 65536 then 3 else 4)"
    using assms
  proof (cases rule: uchar_cases)
    case (one a)
    then show ?thesis using code_range [of a] by simp
  next
    case (two a b)
    then show ?thesis by simp
  next
    case (three a b c)
    have "2048 \<le> code_point ch"
      using three by (cases "code a = 224") simp_all
    moreover have "code_point ch < 65536"
      using three by simp
    moreover have "code_point ch < 55296 \<or> 57344 \<le> code_point ch"
      using three by (cases "code a" "237 :: int" rule: linorder_cases) simp_all
    ultimately show ?thesis using three(1) by simp
  next
    case (four a b c d)
    have "65536 \<le> code_point ch"
      using four by (cases "code a = 240") simp_all
    moreover have "code_point ch < 1114112"
      using four by (cases "code a = 244") simp_all
    ultimately show ?thesis using four(1) by simp
  qed
  then show "0 \<le> code_point ch" "code_point ch < 1114112" "code_point ch < 55296 \<or> 57344 \<le> code_point ch"
    "length ch = (if code_point ch < 128 then 1 else if code_point ch < 2048 then 2
       else if code_point ch < 65536 then 3 else 4)"
    by blast+
qed

lemma base64_inject:
  "a * 64 + b = a' * 64 + b' \<Longrightarrow> 0 \<le> b \<Longrightarrow> b < 64 \<Longrightarrow> 0 \<le> b' \<Longrightarrow> b' < 64 \<Longrightarrow> a = a' \<and> b = b'" for a b :: int
  by (cases a a' rule: linorder_cases) linarith+

lemma code_point_inject:
  assumes "uchar x" "uchar y" "code_point x = code_point y"
  shows "x = y"
proof -
  have len: "length x = length y"
    using code_point_range(4) assms by metis
  from assms(1) show ?thesis
  proof (cases rule: uchar_cases)
    case (one a)
    from assms(2) show ?thesis
      by (cases rule: uchar_cases) (use one assms(3) len in \<open>simp_all add: code_inject\<close>)
  next
    case x: (two a b)
    from assms(2) show ?thesis
    proof (cases rule: uchar_cases)
      case y: (two a' b')
      have "code a - 192 = code a' - 192 \<and> code b - 128 = code b' - 128"
        using x(2-) y(2-) assms(3) by (intro base64_inject) simp_all
      then show ?thesis using x y by (simp add: code_inject)
    qed (use len x in simp_all)
  next
    case x: (three a b c)
    from assms(2) show ?thesis
    proof (cases rule: uchar_cases)
      case y: (three a' b' c')
      have "(code a - 224) * 64 + (code b - 128) = (code a' - 224) * 64 + (code b' - 128) \<and> code c - 128 = code c' - 128"
        using x(2-) y(2-) assms(3) by (intro base64_inject) simp_all
      moreover from this have "code a - 224 = code a' - 224 \<and> code b - 128 = code b' - 128"
        using x(2-) y(2-) by (intro base64_inject) simp_all
      ultimately show ?thesis using x y by (simp add: code_inject)
    qed (use len x in simp_all)
  next
    case x: (four a b c d)
    from assms(2) show ?thesis
    proof (cases rule: uchar_cases)
      case y: (four a' b' c' d')
      have 1: "(code a - 240) * 4096 + (code b - 128) * 64 + (code c - 128)
          = (code a' - 240) * 4096 + (code b' - 128) * 64 + (code c' - 128) \<and> code d - 128 = code d' - 128"
        using x(2-) y(2-) assms(3) by (intro base64_inject) simp_all
      then have 2: "(code a - 240) * 64 + (code b - 128) = (code a' - 240) * 64 + (code b' - 128)
          \<and> code c - 128 = code c' - 128"
        using x(2-) y(2-) by (intro base64_inject) simp_all
      then have "code a - 240 = code a' - 240 \<and> code b - 128 = code b' - 128"
        using x(2-) y(2-) by (intro base64_inject) simp_all
      with 1 2 show ?thesis using x y by (simp add: code_inject)
    qed (use len x in simp_all)
  qed
qed


subsection \<open>Quoted texts\<close>

definition hex_val :: "char \<Rightarrow> int" where
  "hex_val c = (if code c < 58 then code c - 48 else code c - 87)"

definition hex4_val :: "char \<Rightarrow> char \<Rightarrow> char \<Rightarrow> char \<Rightarrow> int" where
  "hex4_val a b c d = hex_val a * 4096 + hex_val b * 256 + hex_val c * 16 + hex_val d"

lemma hex_val_char: "0 \<le> d \<Longrightarrow> d < 16 \<Longrightarrow> hex_val (hex_char d) = d"
  by (simp add: hex_val_def hex_char_def code_def)

lemma hex4_value:
  assumes "0 \<le> n" "n < 65536"
  obtains a b c d where "hex4 n = [a, b, c, d]" "hex4_val a b c d = n"
proof -
  have "n div 16 div 16 = n div 256" "n div 256 div 16 = n div 4096"
    by (simp_all flip: zdiv_zmult2_eq)
  then have "n = n div 16 * 16 + n mod 16" "n div 16 = n div 256 * 16 + n div 16 mod 16"
    "n div 256 = n div 4096 * 16 + n div 256 mod 16"
    by (metis div_mult_mod_eq)+
  moreover have "n div 4096 mod 16 = n div 4096"
    using assms by (intro mod_pos_pos_trivial) linarith+
  ultimately have sum: "n div 4096 mod 16 * 4096 + n div 256 mod 16 * 256 + n div 16 mod 16 * 16 + n mod 16 = n"
    by linarith
  have hv: "hex_val (hex_char (m mod 16)) = m mod 16" for m
    by (rule hex_val_char) simp_all
  show thesis
    by (rule that [OF hex4_def]) (simp only: hex4_val_def hv sum)
qed

text \<open>Reads one character of a quoted text: its code point and the rest; nothing at the closing quote.\<close>

fun unescape :: "string \<Rightarrow> (int \<times> string) option" where
  "unescape [] = None"
| "unescape (e # s) =
    (if e = CHR 0x22 then None
     else if e \<noteq> CHR 0x5C then Some (code e, s)
     else case s of
       [] \<Rightarrow> None
     | k # r \<Rightarrow>
         if k \<noteq> CHR ''u'' then
           Some (if k = CHR ''n'' then 10 else if k = CHR ''r'' then 13 else if k = CHR ''t'' then 9
             else if k = CHR ''f'' then 12 else if k = CHR ''b'' then 8 else code k, r)
         else (case r of
             a # b # c # d # r \<Rightarrow>
               let n = hex4_val a b c d in
               if 55296 \<le> n \<and> n < 56320 then (case r of
                   _ # _ # a # b # c # d # r \<Rightarrow>
                     Some (65536 + (n - 55296) * 1024 + (hex4_val a b c d - 56320), r)
                 | _ \<Rightarrow> None)
               else Some (n, r)
           | _ \<Rightarrow> None))"

lemma unescape_hex:
  "unescape (CHR 0x5C # CHR ''u'' # a # b # c # d # r) =
    (let n = hex4_val a b c d in if 55296 \<le> n \<and> n < 56320 then (case r of
        _ # _ # a # b # c # d # r \<Rightarrow> Some (65536 + (n - 55296) * 1024 + (hex4_val a b c d - 56320), r) | _ \<Rightarrow> None)
     else Some (n, r))"
  by (simp add: Let_def)

lemma unescape_u:
  assumes "0 \<le> n" "n < 65536" "n < 55296 \<or> 56320 \<le> n"
  shows "unescape (u_escape n @ r) = Some (n, r)"
proof -
  obtain a b c d where h: "hex4 n = [a, b, c, d]" "hex4_val a b c d = n"
    using hex4_value assms(1,2) by blast
  show ?thesis
    unfolding u_escape_def h(1) append.simps unescape_hex h(2) using assms(3) by (auto simp: Let_def)
qed

lemma unescape_pair:
  assumes "65536 \<le> n" "n < 1114112"
  shows "unescape (u_escape (55296 + (n - 65536) div 1024) @ u_escape (56320 + (n - 65536) mod 1024) @ r) = Some (n, r)"
proof -
  define h l where "h = 55296 + (n - 65536) div 1024" and "l = 56320 + (n - 65536) mod 1024"
  have n: "65536 + (h - 55296) * 1024 + (l - 56320) = n"
    unfolding h_def l_def by simp
  have "0 \<le> (n - 65536) mod 1024" "(n - 65536) mod 1024 < 1024" by simp_all
  then have l: "0 \<le> l" "l < 65536" unfolding l_def by linarith+
  have "0 \<le> (n - 65536) div 1024" "(n - 65536) div 1024 < 1024"
    using assms by (simp_all add: div_less_iff_less_mult pos_imp_zdiv_nonneg_iff)
  then have h: "55296 \<le> h" "h < 56320" unfolding h_def by linarith+
  then have h65: "0 \<le> h" "h < 65536" by linarith+
  obtain a b c d where x: "hex4 h = [a, b, c, d]" "hex4_val a b c d = h"
    using hex4_value [OF h65] by blast
  obtain a' b' c' d' where y: "hex4 l = [a', b', c', d']" "hex4_val a' b' c' d' = l"
    using hex4_value l by blast
  have "unescape (u_escape h @ u_escape l @ r) = Some (n, r)"
    unfolding u_escape_def x(1) y(1) append.simps unescape_hex x(2) using h n by (simp add: y(2))
  then show ?thesis unfolding h_def l_def .
qed

lemma unescape_escape:
  assumes "uchar ch"
  shows "unescape (json_escape ch @ r) = Some (code_point ch, r)"
proof (cases "code_point ch < 128")
  case True
  then obtain a where a: "ch = [a]" "code_point ch = code a"
    using code_point_range(4) [OF assms] by (auto simp: code_point_def length_Suc_conv)
  have "code a = 34 \<longleftrightarrow> a = CHR 0x22" "code a = 92 \<longleftrightarrow> a = CHR 0x5C"
    using code_inject [of a "CHR 0x22"] code_inject [of a "CHR 0x5C"] by (simp_all add: code_def)
  then show ?thesis
    using a True code_range(1) [of a] unescape_u [of "code a" r] by (auto simp: json_escape_def Let_def code_def)
next
  case False
  then show ?thesis
    using code_point_range [OF assms] unescape_u [of "code_point ch" r] unescape_pair [of "code_point ch" r]
    by (auto simp: json_escape_def Let_def)
qed


lemma escaped_inject:
  assumes "concat (map json_escape cs) @ CHR 0x22 # r = concat (map json_escape ds) @ CHR 0x22 # s"
    and "\<forall>c \<in> set cs. uchar c" "\<forall>d \<in> set ds. uchar d"
  shows "cs = ds \<and> r = s"
  using assms
proof (induction cs arbitrary: ds)
  case Nil
  show ?case
  proof (cases ds)
    case (Cons d ds')
    then have "CHR 0x22 # r = json_escape d @ concat (map json_escape ds') @ CHR 0x22 # s"
      using Nil.prems(1) by simp
    then have "unescape (CHR 0x22 # r) = Some (code_point d, concat (map json_escape ds') @ CHR 0x22 # s)"
      using Cons Nil.prems(3) by (simp only: unescape_escape list.set_intros(1))
    then show ?thesis by simp
  qed (use Nil in simp)
next
  case (Cons c cs)
  let ?u = "concat (map json_escape cs) @ CHR 0x22 # r"
  have c: "unescape (json_escape c @ ?u) = Some (code_point c, ?u)"
    using Cons.prems(2) by (intro unescape_escape) simp
  show ?case
  proof (cases ds)
    case Nil
    then have "json_escape c @ ?u = CHR 0x22 # s"
      using Cons.prems(1) by simp
    then have "unescape (CHR 0x22 # s) \<noteq> None"
      using c by (simp only: not_None_eq) blast
    then show ?thesis by simp
  next
    case ds: (Cons d ds')
    let ?v = "concat (map json_escape ds') @ CHR 0x22 # s"
    have eq: "json_escape c @ ?u = json_escape d @ ?v"
      using Cons.prems(1) ds by simp
    have "unescape (json_escape d @ ?v) = Some (code_point d, ?v)"
      using ds Cons.prems(3) by (intro unescape_escape) simp
    then have *: "code_point c = code_point d" "?u = ?v"
      using c unfolding eq by (simp_all only: option.inject prod.inject)
    then have "c = d"
      using Cons.prems(2,3) ds by (intro code_point_inject) simp_all
    moreover have "cs = ds' \<and> r = s"
      using Cons.prems(2,3) ds by (intro Cons.IH [OF *(2)]) simp_all
    ultimately show ?thesis using ds by simp
  qed
qed

lemma json_quote_inject:
  assumes "json_quote a @ r = json_quote b @ s" "utf8_ok a" "utf8_ok b"
  shows "a = b \<and> r = s"
proof -
  have "text_chars a = text_chars b \<and> r = s"
    using assms text_chars_uchar by (intro escaped_inject) (simp_all add: json_quote_def)
  then show ?thesis by (metis concat_text_chars)
qed

subsection \<open>Numbers\<close>

definition num_char :: "char \<Rightarrow> bool" where
  "num_char c \<longleftrightarrow> is_digit c \<or> c \<in> set ''+-.e''"

definition delim :: "string \<Rightarrow> bool" where
  "delim r \<longleftrightarrow> r = [] \<or> hd r \<in> set '',]}''"

lemma token_inject:
  assumes "x @ r = y @ s" "list_all num_char x" "list_all num_char y" "delim r" "delim s"
  shows "x = y \<and> r = s"
proof -
  have *: "takeWhile num_char (z @ t) = z \<and> dropWhile num_char (z @ t) = t" if "list_all num_char z" "delim t" for z t
  proof -
    have "t = [] \<or> \<not> num_char (hd t)"
      using that(2) by (auto simp: delim_def num_char_def is_digit_def code_def)
    then have "takeWhile num_char t = [] \<and> dropWhile num_char t = t" by (cases t) auto
    then show ?thesis
      using that(1) by (simp add: takeWhile_append dropWhile_append list_all_iff)
  qed
  show ?thesis
    using *[OF assms(2,4)] *[OF assms(3,5)] unfolding assms(1) by metis
qed

lemma num_char_digits: "list_all is_digit s \<Longrightarrow> list_all num_char s"
  by (simp add: list_all_iff num_char_def)

lemma str_int_chars: "c \<in> set (str_int i) \<Longrightarrow> is_digit c \<or> c = CHR ''-''"
proof -
  assume c: "c \<in> set (str_int i)"
  have "\<forall>c \<in> set (str_nn (if i < 0 then - i else i)). is_digit c"
    using str_nn_digits [of "if i < 0 then - i else i"] by (simp add: list_all_iff)
  then show ?thesis
    using c by (cases "i < 0") (auto simp: str_int_def simp del: str_nn.simps)
qed

lemma str_nn_no_minus: "0 \<le> m \<Longrightarrow> str_nn m \<noteq> CHR ''-'' # t"
  using str_nn_digits [of m] by (auto simp: is_digit_def code_def simp del: str_nn.simps)

lemma str_int_eq_iff: "str_int i = str_int j \<longleftrightarrow> i = j"
proof
  assume eq: "str_int i = str_int j"
  consider "i < 0" "j < 0" | "0 \<le> i" "0 \<le> j" | "i < 0" "0 \<le> j" | "0 \<le> i" "j < 0" by linarith
  then show "i = j"
  proof cases
    case 1
    then show ?thesis using eq str_nn_inject [of "- i" "- j"] by (simp add: str_int_def del: str_nn.simps)
  next
    case 2
    then show ?thesis using eq str_nn_inject [of i j] by (simp add: str_int_def del: str_nn.simps)
  next
    case 3
    then show ?thesis using eq str_nn_no_minus [of j "str_nn (- i)"] by (simp add: str_int_def del: str_nn.simps)
  next
    case 4
    then show ?thesis using eq str_nn_no_minus [of i "str_nn (- j)"] by (simp add: str_int_def del: str_nn.simps)
  qed
qed simp

lemma pow10_pos: "0 < pow10 k"
  by (simp add: pow10_def)

lemma shortest_nonneg: "0 \<le> x \<Longrightarrow> 0 \<le> fst (shortest k n x p)"
proof (induction k arbitrary: n)
  case 0
  then show ?case using pow10_pos [of "p - 16"] by simp
next
  case (Suc k)
  let ?u = "pow10 (p - int n + 1)"
  define ok where "ok = filter (\<lambda>d. fl (of_int d * ?u) = x) [\<lfloor>x / ?u\<rfloor>, \<lfloor>x / ?u\<rfloor> + 1]"
  have lo: "0 \<le> \<lfloor>x / ?u\<rfloor>" using Suc.prems pow10_pos [of "p - int n + 1"] by simp
  then have "0 \<le> rhe (x / ?u)" using rhe_bounds(1) [of "x / ?u"] by linarith
  moreover have "\<forall>d \<in> set ok. 0 \<le> d" using lo by (simp add: ok_def)
  ultimately show ?case
    using Suc.IH [OF Suc.prems, of "Suc n"] unfolding shortest.simps Let_def ok_def [symmetric]
    by (simp split: list.split)
qed

lemma float_repr_chars:
  shows "list_all num_char (float_repr x)" and "CHR ''.'' \<in> set (float_repr x) \<or> CHR ''e'' \<in> set (float_repr x)"
proof -
  obtain d q where dq: "shortest 17 1 \<bar>x\<bar> (dec_expo \<bar>x\<bar>) = (d, q)" by fastforce
  have "0 \<le> d" using shortest_nonneg [of "\<bar>x\<bar>" 17 1 "dec_expo \<bar>x\<bar>"] dq by simp
  define ds where "ds = rev (dropWhile (\<lambda>c. c = CHR ''0'') (rev (str_nn d)))"
  have "list_all is_digit ds"
    using str_nn_digits [OF \<open>0 \<le> d\<close>] unfolding ds_def by (auto simp: list_all_iff dest: set_dropWhileD simp del: str_nn.simps)
  then have ds: "list_all num_char (take k ds)" "list_all num_char (drop k ds)" "list_all num_char ds" for k
    using num_char_digits by (auto simp: list_all_iff dest: in_set_takeD in_set_dropD)
  have z: "list_all num_char (replicate k (CHR ''0''))" for k
    by (simp add: list_all_iff num_char_def is_digit_def code_def)
  have e: "list_all num_char (exp_text m)" for m
    using num_char_digits [OF str_nn_digits [of "\<bar>m\<bar>"]] z
    by (simp add: exp_text_def zpad_def num_char_def del: str_nn.simps)
  have c: "num_char (CHR ''-'')" "num_char (CHR ''.'')" "num_char (CHR ''0'')"
    by (simp_all add: num_char_def is_digit_def code_def)
  show "list_all num_char (float_repr x)"
    unfolding float_repr_def dq ds_def [symmetric] Let_def prod.case
    using ds e z c by (simp del: str_nn.simps)
  show "CHR ''.'' \<in> set (float_repr x) \<or> CHR ''e'' \<in> set (float_repr x)"
    unfolding float_repr_def dq ds_def [symmetric] Let_def prod.case
    by (simp add: exp_text_def del: str_nn.simps)
qed


subsection \<open>Values\<close>

fun json_sorted :: "json \<Rightarrow> json" where
  "json_sorted (JList js) = JList (map json_sorted js)"
| "json_sorted (JObj kvs) = JObj (sort_key fst (map (\<lambda>(k, v). (k, json_sorted v)) kvs))"
| "json_sorted v = v"

text \<open>All texts are valid UTF-8; the floats of a value.\<close>

fun json_utf8 :: "json \<Rightarrow> bool" where
  "json_utf8 (JStr s) = utf8_ok s"
| "json_utf8 (JList js) = list_all json_utf8 js"
| "json_utf8 (JObj kvs) = list_all (\<lambda>(k, v). utf8_ok k \<and> json_utf8 v) kvs"
| "json_utf8 v = True"

fun json_floats :: "json \<Rightarrow> rat list" where
  "json_floats (JFloat x) = [x]"
| "json_floats (JList js) = concat (map json_floats js)"
| "json_floats (JObj kvs) = concat (map (\<lambda>(k, v). json_floats v) kvs)"
| "json_floats v = []"

lemma insort_key_map: "insort_key fst (fst x, h x) (map (\<lambda>y. (fst y, h y)) ys) = map (\<lambda>y. (fst y, h y)) (insort_key fst x ys)"
  by (induction ys) simp_all

lemma sort_key_map_items: "sort_key fst (map (\<lambda>(k, v). (k, h k v)) kvs) = map (\<lambda>(k, v). (k, h k v)) (sort_key fst kvs)"
  by (induction kvs)
    (simp_all add: sort_key_def case_prod_beta insort_key_map [where h = "\<lambda>y. h (fst y) (snd y)"])

lemma json_dumps_obj: "json_dumps (JObj kvs) = ''{'' @
    py_join '','' (map (\<lambda>(k, v). json_quote k @ '':'' @ json_dumps v) (sort_key fst kvs)) @ ''}''"
  unfolding json_dumps.simps sort_key_map_items [where h = "\<lambda>k v. json_quote k @ '':'' @ json_dumps v"]
  by (simp add: case_prod_beta' comp_def)

lemma json_sorted_obj: "json_sorted (JObj kvs) = JObj (map (\<lambda>(k, v). (k, json_sorted v)) (sort_key fst kvs))"
  by (simp add: sort_key_map_items)

text \<open>The first character tells the constructors apart, except integers and floats.\<close>

definition head_class :: "char \<Rightarrow> nat" where
  "head_class c = (if c = CHR ''n'' then 1 else if c = CHR ''t'' then 2 else if c = CHR ''f'' then 3
     else if c = CHR 0x22 then 4 else if c = CHR ''['' then 5 else if c = CHR ''{'' then 6
     else if num_char c then 7 else 0)"

fun json_class :: "json \<Rightarrow> nat" where
  "json_class JNull = 1"
| "json_class (JBool b) = (if b then 2 else 3)"
| "json_class (JStr s) = 4"
| "json_class (JList js) = 5"
| "json_class (JObj kvs) = 6"
| "json_class _ = 7"

lemma head_class_num: "s \<noteq> [] \<Longrightarrow> list_all num_char s \<Longrightarrow> head_class (hd s) = 7"
  by (cases s) (auto simp: head_class_def num_char_def is_digit_def code_def)

lemma str_int_num: "list_all num_char (str_int i)" "str_int i \<noteq> []"
proof -
  show "list_all num_char (str_int i)"
    using str_int_chars by (auto simp: list_all_iff num_char_def)
  show "str_int i \<noteq> []"
    using str_nn_nonempty [of i] by (simp add: str_int_def del: str_nn.simps)
qed

lemma json_dumps_head: "json_dumps v \<noteq> []" "head_class (hd (json_dumps v)) = json_class v"
proof -
  have "float_repr x \<noteq> []" for x using float_repr_chars(2) [of x] by auto
  then show "json_dumps v \<noteq> []" "head_class (hd (json_dumps v)) = json_class v"
    using str_int_num float_repr_chars(1) head_class_num
    by (cases v; simp add: json_quote_def; simp add: head_class_def)+
qed

lemma items_inject:
  assumes "py_join '','' (map f xs) @ c # r = py_join '','' (map f ys) @ c # s" "c \<noteq> CHR '',''" "delim [c]"
    and "\<And>x y t u. x \<in> set xs \<Longrightarrow> y \<in> set ys \<Longrightarrow> delim t \<Longrightarrow> delim u \<Longrightarrow> f x @ t = f y @ u \<Longrightarrow> g x = g y \<and> t = u"
    and "\<And>x. x \<in> set xs \<union> set ys \<Longrightarrow> f x \<noteq> [] \<and> hd (f x) \<noteq> c"
  shows "map g xs = map g ys \<and> r = s"
  using assms(1,4,5)
proof (induction xs arbitrary: ys)
  case Nil
  show ?case
  proof (cases ys)
    case (Cons y ys')
    then have "hd (f y) = c"
      using Nil.prems(1) Nil.prems(3) [of y] by (cases ys'; cases "f y") auto
    then show ?thesis using Nil.prems(3) [of y] Cons by simp
  qed (use Nil in simp)
next
  case (Cons x xs)
  let ?t = "\<lambda>zs r. if zs = [] then c # r else CHR '','' # py_join '','' (map f zs) @ c # r"
  have split: "py_join '','' (map f (z # zs)) @ c # r = f z @ ?t zs r" for z zs r
    by (cases zs) simp_all
  have dt: "delim (?t zs r)" for zs r
    using assms(3) by (simp add: delim_def)
  show ?case
  proof (cases ys)
    case Nil
    then have "hd (f x) = c"
      using Cons.prems(1) Cons.prems(3) [of x] unfolding split by (cases "f x") auto
    then show ?thesis using Cons.prems(3) [of x] by simp
  next
    case ys: (Cons y ys')
    have "g x = g y \<and> ?t xs r = ?t ys' s"
      using Cons.prems(1) unfolding ys split
      by (intro Cons.prems(2) dt) (simp_all add: ys)
    then have gxy: "g x = g y" and te: "?t xs r = ?t ys' s" by blast+
    have "map g xs = map g ys' \<and> r = s"
    proof (cases "xs = [] \<or> ys' = []")
      case True
      then show ?thesis using te assms(2) by (auto split: if_split_asm)
    next
      case False
      then have "py_join '','' (map f xs) @ c # r = py_join '','' (map f ys') @ c # s" using te by simp
      then show ?thesis
        using Cons.prems(2,3) ys by (intro Cons.IH) (auto simp del: py_join.simps)
    qed
    then show ?thesis using gxy ys by simp
  qed
qed


lemma number_inject:
  assumes "json_dumps a @ r = json_dumps b @ s" "json_class a = 7" "json_class b = 7"
    and "inj_on float_repr (set (json_floats a) \<union> set (json_floats b))" "delim r" "delim s"
  shows "a = b \<and> r = s"
proof -
  have chars: "list_all num_char (json_dumps v)" if "json_class v = 7" for v
    using that str_int_num(1) float_repr_chars(1) by (cases v) (auto split: if_split_asm)
  have eq: "json_dumps a = json_dumps b" "r = s"
    using token_inject [OF assms(1) chars [OF assms(2)] chars [OF assms(3)] assms(5,6)] by blast+
  have differ: "str_int i \<noteq> float_repr x" for i x
  proof
    assume "str_int i = float_repr x"
    then have "CHR ''.'' \<in> set (str_int i) \<or> CHR ''e'' \<in> set (str_int i)"
      using float_repr_chars(2) [of x] by simp
    then show False
      using str_int_chars [of "CHR ''.''" i] str_int_chars [of "CHR ''e''" i] by (auto simp: is_digit_def code_def)
  qed
  have num: "(\<exists>i. v = JInt i) \<or> (\<exists>x. v = JFloat x)" if "json_class v = 7" for v
    using that by (cases v) (auto split: if_split_asm)
  consider i j where "a = JInt i" "b = JInt j" | i y where "a = JInt i" "b = JFloat y"
    | x j where "a = JFloat x" "b = JInt j" | x y where "a = JFloat x" "b = JFloat y"
    using num [OF assms(2)] num [OF assms(3)] by blast
  then have "a = b"
  proof cases
    case 1
    then show ?thesis using eq(1) by (simp add: str_int_eq_iff)
  next
    case (2 i y)
    then show ?thesis using eq(1) differ [of i y] by simp
  next
    case (3 x j)
    then show ?thesis using eq(1) differ [of j x] by simp
  next
    case 4
    then show ?thesis using eq(1) assms(4) by (auto dest: inj_onD)
  qed
  with eq(2) show ?thesis by blast
qed

lemma json_dumps_inject:
  assumes "json_dumps a @ r = json_dumps b @ s" "json_utf8 a" "json_utf8 b"
    and "inj_on float_repr (set (json_floats a) \<union> set (json_floats b))" "delim r" "delim s"
  shows "json_sorted a = json_sorted b \<and> r = s"
  using assms
proof (induction a arbitrary: b r s)
  case (JList xs)
  have "json_class b = 5"
    using json_dumps_head [of b] json_dumps_head [of "JList xs"] JList.prems(1) by (metis hd_append2 json_class.simps(4))
  then obtain ys where b: "b = JList ys" by (cases b) (auto split: if_split_asm)
  have "map json_sorted xs = map json_sorted ys \<and> r = s"
  proof (rule items_inject)
    show "py_join '','' (map json_dumps xs) @ CHR '']'' # r = py_join '','' (map json_dumps ys) @ CHR '']'' # s"
      using JList.prems(1) b by simp
    show "json_dumps x \<noteq> [] \<and> hd (json_dumps x) \<noteq> CHR '']''" for x
      using json_dumps_head [of x] by (cases x) (auto simp: head_class_def num_char_def is_digit_def code_def)
    fix x y t u assume xy: "x \<in> set xs" "y \<in> set ys" "delim t" "delim u" "json_dumps x @ t = json_dumps y @ u"
    have "set (json_floats x) \<union> set (json_floats y) \<subseteq> set (json_floats (JList xs)) \<union> set (json_floats b)"
      using xy b by auto
    then show "json_sorted x = json_sorted y \<and> t = u"
      using xy JList.prems(2-4) b by (intro JList.IH) (auto simp: list_all_iff intro: inj_on_subset)
  qed (simp_all add: delim_def)
  then show ?case using b by simp
next
  case (JObj kvs)
  have "json_class b = 6"
    using json_dumps_head [of b] json_dumps_head [of "JObj kvs"] JObj.prems(1) by (metis hd_append2 json_class.simps(5))
  then obtain ls where b: "b = JObj ls" by (cases b) (auto split: if_split_asm)
  let ?f = "\<lambda>(k, v). json_quote k @ '':'' @ json_dumps v" and ?g = "\<lambda>(k, v). (k, json_sorted v)"
  have "map ?g (sort_key fst kvs) = map ?g (sort_key fst ls) \<and> r = s"
  proof (rule items_inject)
    show "py_join '','' (map ?f (sort_key fst kvs)) @ CHR ''}'' # r = py_join '','' (map ?f (sort_key fst ls)) @ CHR ''}'' # s"
      using JObj.prems(1) unfolding b json_dumps_obj by simp
    show "?f x \<noteq> [] \<and> hd (?f x) \<noteq> CHR ''}''" for x
      by (simp add: case_prod_beta json_quote_def)
    fix x y t u assume xy: "x \<in> set (sort_key fst kvs)" "y \<in> set (sort_key fst ls)" "delim t" "delim u" "?f x @ t = ?f y @ u"
    obtain k v l w where kv: "x = (k, v)" "y = (l, w)" by fastforce
    have mem: "(k, v) \<in> set kvs" "(l, w) \<in> set ls" using xy(1,2) kv by simp_all
    have "k = l \<and> '':'' @ json_dumps v @ t = '':'' @ json_dumps w @ u"
      using xy(5) mem JObj.prems(2,3) b kv by (intro json_quote_inject) (auto simp: list_all_iff)
    then have kl: "k = l" "json_dumps v @ t = json_dumps w @ u" by simp_all
    have "set (json_floats v) \<union> set (json_floats w) \<subseteq> set (json_floats (JObj kvs)) \<union> set (json_floats b)"
      using mem b by (auto intro!: bexI)
    then have "json_sorted v = json_sorted w \<and> t = u"
      using mem kl xy(3,4) JObj.prems(2-4) b by (intro JObj.IH [OF mem(1)]) (auto simp: list_all_iff intro: inj_on_subset)
    then show "?g x = ?g y \<and> t = u" using kv kl by simp
  qed (simp_all add: delim_def)
  then show ?case using b by (simp only: json_sorted_obj)
next
  case (JStr x)
  have "json_class b = 4"
    using json_dumps_head [of b] json_dumps_head [of "JStr x"] JStr.prems(1) by (metis hd_append2 json_class.simps(3))
  then obtain y where "b = JStr y" by (cases b) (auto split: if_split_asm)
  then show ?case
    using JStr.prems json_quote_inject [of x r y s] by simp
next
  case (JInt i)
  have "json_class b = 7"
    using json_dumps_head [of b] json_dumps_head [of "JInt i"] JInt.prems(1) by (metis hd_append2 json_class.simps(6))
  then show ?case using number_inject [OF JInt.prems(1)] JInt.prems by simp
next
  case (JFloat x)
  have "json_class b = 7"
    using json_dumps_head [of b] json_dumps_head [of "JFloat x"] JFloat.prems(1) by (metis hd_append2 json_class.simps(7))
  then show ?case using number_inject [OF JFloat.prems(1)] JFloat.prems by simp
next
  case JNull
  have "json_class b = 1"
    using json_dumps_head [of b] json_dumps_head [of JNull] JNull.prems(1) by (metis hd_append2 json_class.simps(1))
  then have "b = JNull" by (cases b) (auto split: if_split_asm)
  then show ?case using JNull.prems by simp
next
  case (JBool x)
  have "json_class b = json_class (JBool x)"
    using json_dumps_head [of b] json_dumps_head [of "JBool x"] JBool.prems(1) by (metis hd_append2)
  then have "b = JBool x" by (cases b) (auto split: if_split_asm)
  then show ?case using JBool.prems by simp
qed

end
