(* ===== verification/Certificate.thy ===== *)
theory Certificate
  imports Verifier JsonCanonical
begin

section \<open>Close certificates: \<open>engine/certificate.py\<close>\<close>

text \<open>
  A certificate summarises a report; its envelope carries the SHA-256 of its canonical text and, when a
  signing key is configured, a signature. SHA-256 (\<open>digest\<close>, as hexadecimal text), base64 and the
  \<open>cryptography\<close> package (\<open>crypto\<close>) are arguments. The functions work on decoded JSON; what the source
  raises is a \<open>cert_error\<close>. \<open>exceptions_by_reason\<close> given as a list, which \<open>dict()\<close> would read as pairs,
  is outside the model and has its own error value.
\<close>

datatype cert_error =
    Cert_Not_Dict | Cert_Attribute_Error | Money_Not_Int | Exceptions_Not_Dict | Exceptions_List
  | Cert_Verify_Error verify_error | Unsupported_Schema json | Missing_Provenance | Cert_Pack_Error pack_error
  | Legacy_With_Provenance | Signing_Unavailable | Key_Not_Base64 | Key_Not_Pem | Key_Not_P256

text \<open>
  What the code uses of the environment: the value of \<open>UNTANGLE_SIGNING_KEY\<close>, whether the
  \<open>cryptography\<close> package is installed, strict base64, and the package's operations on keys.
\<close>

record 'k crypto =
  cr_env :: "string option"
  cr_available :: bool
  cr_b64decode :: "string \<Rightarrow> string option"
  cr_b64encode :: "string \<Rightarrow> string"
  cr_load_private :: "string \<Rightarrow> 'k option"
  cr_is_p256 :: "'k \<Rightarrow> bool"
  cr_public_pem :: "'k \<Rightarrow> string"
  cr_sign :: "'k \<Rightarrow> string \<Rightarrow> string"
  cr_verify :: "string \<Rightarrow> string \<Rightarrow> string \<Rightarrow> bool"

subsection \<open>Money, keys and notes\<close>

definition cert_inr :: "json \<Rightarrow> cert_error + string" where
  "cert_inr v = (case v of JInt p \<Rightarrow>
       Inr (rupee @ (if p < 0 then ''-'' else []) @ str_nn_sep (\<bar>p\<bar> div 100) @ ''.'' @ zpad 2 (str_nn (\<bar>p\<bar> mod 100)))
     | _ \<Rightarrow> Inl Money_Not_Int)"

definition signing_key :: "'k crypto \<Rightarrow> cert_error + 'k option" where
  "signing_key cr = (if \<not> truthy (cr_env cr) then Inr None
     else if \<not> cr_available cr then Inl Signing_Unavailable
     else case cr_b64decode cr (str_of_opt (cr_env cr)) of
       None \<Rightarrow> Inl Key_Not_Base64
     | Some pem \<Rightarrow> (case cr_load_private cr pem of
           None \<Rightarrow> Inl Key_Not_Pem
         | Some key \<Rightarrow> if cr_is_p256 cr key then Inr (Some key) else Inl Key_Not_P256))"

definition public_key_pem :: "'k crypto \<Rightarrow> cert_error + string option" where
  "public_key_pem cr = map_sum id (map_option (cr_public_pem cr)) (signing_key cr)"

definition certificate_note :: "bool \<Rightarrow> string" where
  "certificate_note signed = (if signed then
      ''ECDSA (P-256) signed and tamper-evident. Re-derive the SHA-256 hash and check the ''
      @ ''signature against this deployment's pinned issuer key '' @ em_dash @ '' a tampered field breaks the ''
      @ ''hash, a forgery fails the signature. Packet checks can be re-run against the attached ''
      @ ''bound report; this does not re-audit the original bank, settlement, or ledger source files.''
    else
      ''Tamper-evident content hash (SHA-256) over the certificate. Not a cryptographic ''
      @ ''signature. Packet checks can be re-run against the attached bound report; this does not ''
      @ ''re-audit the original bank, settlement, or ledger source files.'')"

subsection \<open>Building a certificate\<close>

text \<open>\<open>d.get(k, default)\<close>, an error when \<open>d\<close> is not an object.\<close>

definition jget_of :: "json \<Rightarrow> string \<Rightarrow> json \<Rightarrow> cert_error + json" where
  "jget_of d k v = (case d of JObj kvs \<Rightarrow> Inr (dget kvs k v) | _ \<Rightarrow> Inl Cert_Attribute_Error)"

definition is_packet_result :: "verification_result \<Rightarrow> bool" where
  "is_packet_result r \<longleftrightarrow> \<not> prefix ''report:'' (vr_packet_line_key r)"

definition packet_counts :: "verification_result list \<Rightarrow> int \<times> int" where
  "packet_counts results = (let pkt = filter is_packet_result results in
     (int (length pkt), int (length (filter vr_ok pkt))))"

definition audit_root_valid :: "verification_result list \<Rightarrow> bool" where
  "audit_root_valid results = (case find (\<lambda>r. vr_packet_line_key r = ''report:audit_root'') results of
     None \<Rightarrow> False | Some r \<Rightarrow> vr_ok r)"

definition copy_dict :: "json \<Rightarrow> cert_error + json" where
  "copy_dict v = (case v of JObj d \<Rightarrow> Inr v | JList [] \<Rightarrow> Inr (JObj [])
     | JList _ \<Rightarrow> Inl Exceptions_List | JStr [] \<Rightarrow> Inr (JObj []) | _ \<Rightarrow> Inl Exceptions_Not_Dict)"

definition check_provenance :: "json \<Rightarrow> json \<Rightarrow> cert_error + unit" where
  "check_provenance schema pack =
    (if schema \<noteq> JNull \<and> schema \<noteq> JStr ''1.1.0'' then Inl (Unsupported_Schema schema)
     else if schema = JStr ''1.1.0'' then (case pack of
         JObj _ \<Rightarrow> (case resolve_pack_provenance pack of Inl e \<Rightarrow> Inl (Cert_Pack_Error e) | Inr _ \<Rightarrow> Inr ())
       | _ \<Rightarrow> Inl Missing_Provenance)
     else if pack \<noteq> JNull then Inl Legacy_With_Provenance else Inr ())"

text \<open>The figures taken from the totals of the report.\<close>

record cert_figures =
  cf_period_records :: json
  cf_proven_count :: json
  cf_proven_inr :: string
  cf_reconciled_count :: json
  cf_reconciled_inr :: string
  cf_unresolved_count :: json
  cf_unresolved_inr :: string
  cf_fee_gst_inr :: string
  cf_exception_count :: json
  cf_exceptions_by_reason :: json

definition jint_or_0 :: "json \<Rightarrow> int" where
  "jint_or_0 v = (case v of JInt i \<Rightarrow> i | _ \<Rightarrow> 0)"

definition cert_figures_of :: "json \<Rightarrow> cert_error + cert_figures" where
  "cert_figures_of totals =
    sum_bind (jget_of totals ''n_bank_lines'' (JInt 0)) (\<lambda>period.
    sum_bind (jget_of totals ''by_rail_count'' (JObj [])) (\<lambda>by_count.
    sum_bind (jget_of totals ''by_rail_paise'' (JObj [])) (\<lambda>by_paise.
    sum_bind (jget_of by_count ''razorpay_settlement'' (JInt 0)) (\<lambda>proven_count.
    sum_bind (jget_of by_paise ''razorpay_settlement'' (JInt 0)) (\<lambda>proven.
    sum_bind (cert_inr proven) (\<lambda>proven_inr.
    sum_bind (jget_of totals ''reconciled_count'' (JInt 0)) (\<lambda>rec_count.
    sum_bind (jget_of totals ''reconciled_paise'' (JInt 0)) (\<lambda>rec.
    sum_bind (cert_inr rec) (\<lambda>rec_inr.
    sum_bind (jget_of totals ''unresolved_rzp_count'' (JInt 0)) (\<lambda>unres_count.
    sum_bind (cert_inr (JInt (max 0 (jint_or_0 proven - jint_or_0 rec)))) (\<lambda>unres_inr.
    sum_bind (jget_of totals ''fee_gst_recoverable_paise'' (JInt 0)) (\<lambda>gst.
    sum_bind (cert_inr gst) (\<lambda>gst_inr.
    sum_bind (jget_of totals ''exception_count'' (JInt 0)) (\<lambda>exc_count.
    sum_bind (jget_of totals ''exceptions_by_reason'' (JObj [])) (\<lambda>by_reason.
    sum_bind (copy_dict by_reason) (\<lambda>by_reason.
      Inr \<lparr>cf_period_records = period, cf_proven_count = proven_count, cf_proven_inr = proven_inr,
           cf_reconciled_count = rec_count, cf_reconciled_inr = rec_inr, cf_unresolved_count = unres_count,
           cf_unresolved_inr = unres_inr, cf_fee_gst_inr = gst_inr, cf_exception_count = exc_count,
           cf_exceptions_by_reason = by_reason\<rparr>))))))))))))))))"

definition cert_summary :: "cert_figures \<Rightarrow> int \<Rightarrow> string" where
  "cert_summary f unverifiable =
     ''Period closed: '' @ py_str (cf_proven_count f) @ '' credits proven Razorpay ('' @ cf_proven_inr f @ ''), ''
     @ cf_unresolved_inr f @ '' unresolved pending evidence, ''
     @ str_int unverifiable @ '' unverifiable proof packets.''"

definition cert_fields :: "cert_figures \<Rightarrow> verification_result list \<Rightarrow> json \<Rightarrow> json \<Rightarrow> json \<Rightarrow> json \<Rightarrow> json \<Rightarrow>
    (string \<times> json) list" where
  "cert_fields f results schema pack version seed audit_root =
    (case packet_counts results of (verified, passed) \<Rightarrow>
     [(''summary'', JStr (cert_summary f (verified - passed))),
      (''certificate_schema_version'', schema), (''evidence_pack'', pack),
      (''period_records'', cf_period_records f),
      (''proven_razorpay_count'', cf_proven_count f), (''proven_razorpay_inr'', JStr (cf_proven_inr f)),
      (''reconciled_count'', cf_reconciled_count f), (''reconciled_inr'', JStr (cf_reconciled_inr f)),
      (''unresolved_count'', cf_unresolved_count f), (''unresolved_inr'', JStr (cf_unresolved_inr f)),
      (''fee_gst_recoverable_inr'', JStr (cf_fee_gst_inr f)),
      (''exception_count'', cf_exception_count f), (''exceptions_by_reason'', cf_exceptions_by_reason f),
      (''verification'', JObj [(''packets_verified'', JInt verified), (''packets_passed'', JInt passed)]),
      (''engine_version'', version), (''seed'', seed), (''audit_root'', audit_root),
      (''generated_from_hashes'', JObj [(''audit_root'', audit_root), (''audit_root_valid'', JBool (audit_root_valid results)),
         (''packets_total'', JInt verified), (''packets_verified'', JInt passed)])])"

definition build_close_certificate :: "json \<Rightarrow> cert_error + (string \<times> json) list" where
  "build_close_certificate rep = (case rep of
     JObj r \<Rightarrow>
       let config = dget r ''config'' (JObj []) in
       sum_bind (cert_figures_of (dget r ''totals'' (JObj []))) (\<lambda>f.
       sum_bind (map_sum Cert_Verify_Error id (verify_report rep)) (\<lambda>results.
       sum_bind (jget_of config ''engine_version'' (JStr ''1.1.0'')) (\<lambda>version.
       sum_bind (jget_of config ''seed'' (JInt 42)) (\<lambda>seed.
       sum_bind (jget_of config ''evidence_pack'' JNull) (\<lambda>pack.
       sum_bind (jget_of config ''report_schema_version'' JNull) (\<lambda>schema.
       sum_bind (check_provenance schema pack) (\<lambda>_.
         Inr (cert_fields f results schema pack version seed (dget r ''audit_root'' (JStr []))))))))))
   | _ \<Rightarrow> Inl Cert_Not_Dict)"

subsection \<open>Issuing\<close>

definition canonical_hash :: "(string \<Rightarrow> string) \<Rightarrow> json \<Rightarrow> string" where
  "canonical_hash digest v = digest (json_dumps v)"

definition issue_certificate :: "(string \<Rightarrow> string) \<Rightarrow> 'k crypto \<Rightarrow> json \<Rightarrow> cert_error + (string \<times> json) list" where
  "issue_certificate digest cr rep =
    sum_bind (build_close_certificate rep) (\<lambda>cert.
      let cert = JObj (dset cert ''report_sha256'' (JStr (canonical_hash digest rep))); body = json_dumps cert in
      sum_bind (signing_key cr) (\<lambda>key. Inr (case key of
        None \<Rightarrow> [(''certificate'', cert), (''content_sha256'', JStr (digest body)), (''signed'', JBool False),
                 (''note'', JStr (certificate_note False))]
      | Some k \<Rightarrow> [(''certificate'', cert), (''content_sha256'', JStr (digest body)), (''signed'', JBool True),
                 (''note'', JStr (certificate_note True)),
                 (''signature'', JStr (cr_b64encode cr (cr_sign cr k body))),
                 (''public_key_pem'', JStr (cr_public_pem cr k))])))"

subsection \<open>Verifying\<close>

definition signature_contract :: "(string \<times> json) list \<Rightarrow> bool" where
  "signature_contract payload \<longleftrightarrow> jget payload ''signed'' = JBool (has_key payload ''signature'')
     \<and> (has_key payload ''signature'' \<longrightarrow> (case jget payload ''signature'' of JStr s \<Rightarrow> s \<noteq> [] | _ \<Rightarrow> False))"

definition signature_verifies :: "'k crypto \<Rightarrow> string \<Rightarrow> json \<Rightarrow> bool" where
  "signature_verifies cr body sig = (case (public_key_pem cr, sig) of
     (Inr (Some pem), JStr s) \<Rightarrow> pem \<noteq> [] \<and>
       (case cr_b64decode cr s of None \<Rightarrow> False | Some raw \<Rightarrow> cr_verify cr pem raw body)
   | _ \<Rightarrow> False)"

definition signature_status :: "'k crypto \<Rightarrow> string \<Rightarrow> (string \<times> json) list \<Rightarrow> bool option" where
  "signature_status cr body payload = (if has_key payload ''signature''
     then Some (signature_contract payload \<and> cr_available cr \<and> signature_verifies cr body (jget payload ''signature''))
     else None)"

definition is_schema_1_1 :: "(string \<times> json) list \<Rightarrow> bool" where
  "is_schema_1_1 cert \<longleftrightarrow> jget cert ''certificate_schema_version'' = JStr ''1.1.0''
     \<or> (case jget cert ''evidence_pack'' of JObj d \<Rightarrow> has_key d ''schema_version'' | _ \<Rightarrow> False)"

definition cert_pack_valid :: "(string \<times> json) list \<Rightarrow> bool" where
  "cert_pack_valid cert = (if is_schema_1_1 cert then pack_shape (jget cert ''evidence_pack'')
     else jget cert ''certificate_schema_version'' = JNull \<and> jget cert ''evidence_pack'' = JNull)"

text \<open>
  The attached report: whether it is bound to the certificate, whether the packs agree, and the packet
  counts. An exception leaves the report unbound and the counts empty; the comparison of the packs has
  taken effect before the packets are verified.
\<close>

definition check_attached ::
  "(string \<Rightarrow> string) \<Rightarrow> (string \<times> json) list \<Rightarrow> (string \<times> json) list \<Rightarrow> bool \<times> bool \<times> (int \<times> int) option" where
  "check_attached digest cert rep =
    (case dget rep ''config'' (JObj []) of
       JObj cfg \<Rightarrow>
         let bound = (jget cert ''report_sha256'' = JStr (canonical_hash digest (JObj rep)));
             pack = jget cfg ''evidence_pack''; schema = jget cfg ''report_schema_version'';
             agree = ((schema = JNull) = (pack = JNull) \<and> json_eq (jget cert ''evidence_pack'') pack)
         in (case verify_report (JObj rep) of
               Inl _ \<Rightarrow> (False, agree, None)
             | Inr results \<Rightarrow> (bound \<and> agree \<and> (schema = JStr ''1.1.0'' \<longrightarrow> list_all vr_ok results), agree,
                 Some (packet_counts results)))
     | _ \<Rightarrow> (False, True, None))"

record cert_check =
  cc_ok :: bool
  cc_content_hash :: string
  cc_claimed_hash :: json
  cc_hash_matches :: bool
  cc_signature_valid :: "bool option"
  cc_signed :: bool
  cc_authenticated :: bool
  cc_attested_verification :: json
  cc_packets :: "(int \<times> int) option"
  cc_report_binding_valid :: "bool option"
  cc_evidence_pack :: json
  cc_evidence_pack_valid :: bool
  cc_legacy :: bool
  cc_summary :: json
  cc_audit_root :: json

definition cert_body :: "(string \<times> json) list \<Rightarrow> (string \<times> json) list" where
  "cert_body payload = (case jget payload ''certificate'' of JObj c \<Rightarrow> c | _ \<Rightarrow> payload)"

definition verify_envelope :: "(string \<Rightarrow> string) \<Rightarrow> 'k crypto \<Rightarrow> (string \<times> json) list \<Rightarrow> cert_check" where
  "verify_envelope digest cr payload =
    (let cert = cert_body payload; body = json_dumps (JObj cert); recomputed = digest body;
         claimed = jget payload ''content_sha256''; hash_matches = (claimed = JStr recomputed);
         sig = jget payload ''signature''; sig_valid = signature_status cr body payload;
         (binding, agree, counts) = (if has_key payload ''report'' then
             (case jget payload ''report'' of
                JObj rep \<Rightarrow> (case check_attached digest cert rep of (b, a, c) \<Rightarrow> (Some b, a, c))
              | _ \<Rightarrow> (Some False, True, None))
           else (None, True, None));
         pack_valid = (cert_pack_valid cert \<and> agree)
     in \<lparr>cc_ok = (hash_matches \<and> signature_contract payload \<and> sig_valid \<noteq> Some False \<and> binding \<noteq> Some False
           \<and> (case counts of None \<Rightarrow> True | Some (verified, passed) \<Rightarrow> passed = verified) \<and> pack_valid),
         cc_content_hash = recomputed, cc_claimed_hash = claimed, cc_hash_matches = hash_matches,
         cc_signature_valid = sig_valid, cc_signed = json_truthy sig,
         cc_authenticated = (json_truthy sig \<and> sig_valid = Some True),
         cc_attested_verification = jget cert ''verification'', cc_packets = counts,
         cc_report_binding_valid = binding, cc_evidence_pack = jget cert ''evidence_pack'',
         cc_evidence_pack_valid = pack_valid, cc_legacy = (\<not> is_schema_1_1 cert),
         cc_summary = jget cert ''summary'', cc_audit_root = jget cert ''audit_root''\<rparr>)"

definition verify_certificate :: "(string \<Rightarrow> string) \<Rightarrow> 'k crypto \<Rightarrow> json \<Rightarrow> string + cert_check" where
  "verify_certificate digest cr payload = (case payload of JObj p \<Rightarrow> Inr (verify_envelope digest cr p)
     | _ \<Rightarrow> Inl ''payload is not a dict'')"


subsection \<open>What an issued certificate is worth\<close>

lemma jget_dset: "jget (dset d k v) k' = (if k' = k then v else jget d k')"
  by (simp add: jget_def)

lemma jget_of_Inr: "jget_of c k v = Inr x \<longleftrightarrow> (\<exists>d. c = JObj d \<and> x = dget d k v)"
  by (auto simp: jget_of_def split: json.split)

lemma dget_JNull: "dget d k JNull = jget d k"
  by (simp add: dget_def jget_def)

lemma map_sum_Inr_iff: "map_sum f g x = Inr y \<longleftrightarrow> (\<exists>z. x = Inr z \<and> y = g z)"
  by (cases x) auto

lemma str_field_is_str: "str_field d k = Some s \<Longrightarrow> is_str (jget d k)"
  by (cases "map_of d k"; cases "the (map_of d k)") (simp_all add: str_field_def is_str_def jget_def)

lemma resolved_pack_shape: "resolve_pack_provenance pack = Inr p \<Longrightarrow> pack_shape pack"
proof -
  assume p: "resolve_pack_provenance pack = Inr p"
  then obtain d where d: "pack = JObj d"
    by (cases pack) (simp_all add: resolve_pack_provenance_def)
  then show ?thesis
    using p str_field_is_str unfolding d resolve_pack_provenance_InrD pack_shape_def by auto
qed

text \<open>The report behind a certificate: its configuration, its check results and its provenance.\<close>

lemma build_close_certificateE:
  assumes "build_close_certificate rep = Inr cert"
  obtains r cfg results f version seed where "rep = JObj r" "dget r ''config'' (JObj []) = JObj cfg"
    "verify_report rep = Inr results"
    "check_provenance (jget cfg ''report_schema_version'') (jget cfg ''evidence_pack'') = Inr ()"
    "cert = cert_fields f results (jget cfg ''report_schema_version'') (jget cfg ''evidence_pack'') version seed
       (dget r ''audit_root'' (JStr []))"
proof -
  obtain r where r: "rep = JObj r"
    using assms by (cases rep) (simp_all add: build_close_certificate_def)
  have "\<exists>cfg results f version seed. dget r ''config'' (JObj []) = JObj cfg \<and> verify_report rep = Inr results
    \<and> check_provenance (jget cfg ''report_schema_version'') (jget cfg ''evidence_pack'') = Inr ()
    \<and> cert = cert_fields f results (jget cfg ''report_schema_version'') (jget cfg ''evidence_pack'') version seed
       (dget r ''audit_root'' (JStr []))"
    using assms unfolding r
    by (auto simp: build_close_certificate_def Let_def load_iff jget_of_Inr dget_JNull map_sum_Inr_iff) blast
  then show thesis using that r by blast
qed

lemma check_provenance_Inr:
  "check_provenance schema pack = Inr u \<longleftrightarrow> (schema = JNull \<and> pack = JNull) \<or>
     (schema = JStr ''1.1.0'' \<and> pack_shape pack \<and> \<not> isl (resolve_pack_provenance pack))"
proof (cases "schema = JStr ''1.1.0''")
  case True
  then show ?thesis
    using resolved_pack_shape [of pack] by (cases pack; cases "resolve_pack_provenance pack") (auto simp: check_provenance_def pack_shape_def)
next
  case False
  then show ?thesis by (auto simp: check_provenance_def)
qed

lemma cert_fields_get:
  "jget (cert_fields f results schema pack version seed ar) ''certificate_schema_version'' = schema"
  "jget (cert_fields f results schema pack version seed ar) ''evidence_pack'' = pack"
  by (simp_all add: cert_fields_def case_prod_beta)


text \<open>The envelope of an issued certificate.\<close>

lemma issue_certificateE:
  assumes "issue_certificate digest cr rep = Inr env"
  obtains cert key where "build_close_certificate rep = Inr cert" "signing_key cr = Inr key"
    "cert_body env = dset cert ''report_sha256'' (JStr (canonical_hash digest rep))"
    "jget env ''content_sha256'' = JStr (digest (json_dumps (JObj (cert_body env))))"
    "jget env ''signed'' = JBool (key \<noteq> None)" "\<not> has_key env ''report''"
    "jget env ''certificate'' = JObj (cert_body env)"
    "map_of env ''signature'' = map_option (\<lambda>k. JStr (cr_b64encode cr (cr_sign cr k (json_dumps (JObj (cert_body env)))))) key"
proof -
  obtain cert key where ck: "build_close_certificate rep = Inr cert" "signing_key cr = Inr key"
    using assms by (auto simp: issue_certificate_def load_iff Let_def)
  show thesis
  proof (cases key)
    case None
    then show thesis
      using assms by (intro that [OF ck]) (auto simp: issue_certificate_def ck Let_def cert_body_def has_key_def)
  next
    case (Some k)
    then show thesis
      using assms by (intro that [OF ck]) (auto simp: issue_certificate_def ck Let_def cert_body_def has_key_def)
  qed
qed

text \<open>Documented behaviour of the signature package: what a key signs, its public key verifies.\<close>

definition crypto_ok :: "'k crypto \<Rightarrow> bool" where
  "crypto_ok cr \<longleftrightarrow> (\<forall>b. cr_b64decode cr (cr_b64encode cr b) = Some b) \<and>
     (\<forall>k. cr_public_pem cr k \<noteq> []) \<and> (\<forall>k body. cr_b64encode cr (cr_sign cr k body) \<noteq> []) \<and>
     (\<forall>k body. cr_is_p256 cr k \<longrightarrow> cr_verify cr (cr_public_pem cr k) (cr_sign cr k body) body)"

lemma signing_key_Some:
  "signing_key cr = Inr (Some k) \<Longrightarrow> cr_available cr \<and> cr_is_p256 cr k \<and> public_key_pem cr = Inr (Some (cr_public_pem cr k))"
  by (auto simp: signing_key_def public_key_pem_def split: if_split_asm option.split_asm)

lemma issued_signature:
  assumes "crypto_ok cr" "issue_certificate digest cr rep = Inr env" "signing_key cr = Inr key"
    and "has_key payload ''signature'' = has_key env ''signature''" "jget payload ''signature'' = jget env ''signature''"
      "jget payload ''signed'' = jget env ''signed''"
  shows "signature_contract payload"
    "signature_status cr (json_dumps (JObj (cert_body env))) payload = (if key = None then None else Some True)"
    "json_truthy (jget payload ''signature'') \<longleftrightarrow> key \<noteq> None"
proof -
  from assms(2,3) have e: "jget env ''signed'' = JBool (key \<noteq> None)"
    "map_of env ''signature'' = map_option (\<lambda>k. JStr (cr_b64encode cr (cr_sign cr k (json_dumps (JObj (cert_body env)))))) key"
    by (auto elim!: issue_certificateE)
  then have sig: "has_key payload ''signature'' \<longleftrightarrow> key \<noteq> None"
    using assms(4) by (simp add: has_key_def)
  have enc: "jget payload ''signature'' = JStr (cr_b64encode cr (cr_sign cr k (json_dumps (JObj (cert_body env)))))" if "key = Some k" for k
    using assms(5) e(2) that by (simp add: jget_def)
  show c: "signature_contract payload"
    using assms(1,6) e(1) sig enc by (cases key) (auto simp: signature_contract_def crypto_ok_def)
  show "json_truthy (jget payload ''signature'') \<longleftrightarrow> key \<noteq> None"
    using enc assms(1,5) e(2) by (cases key) (auto simp: json_truthy_def crypto_ok_def jget_def)
  show "signature_status cr (json_dumps (JObj (cert_body env))) payload = (if key = None then None else Some True)"
  proof (cases key)
    case (Some k)
    have "signature_verifies cr (json_dumps (JObj (cert_body env))) (jget payload ''signature'')"
      using signing_key_Some [of cr k] assms(1,3) enc [OF Some] Some by (simp add: signature_verifies_def crypto_ok_def)
    then show ?thesis
      using Some sig c signing_key_Some [of cr k] assms(3) by (simp add: signature_status_def)
  qed (use sig in \<open>simp add: signature_status_def\<close>)
qed


lemma packet_counts_pass:
  "packet_counts results = (verified, passed) \<Longrightarrow> passed = verified \<longleftrightarrow> list_all vr_ok (filter is_packet_result results)"
proof -
  have "length (filter P xs) = length xs \<longleftrightarrow> list_all P xs" for P and xs :: "verification_result list"
    by (metis (no_types, lifting) filter_True length_filter_less less_irrefl list_all_iff)
  moreover assume "packet_counts results = (verified, passed)"
  ultimately show ?thesis by (auto simp: packet_counts_def Let_def simp del: filter_filter)
qed

definition report_schema :: "json \<Rightarrow> json" where
  "report_schema rep = (case rep of JObj r \<Rightarrow> (case dget r ''config'' (JObj []) of
     JObj cfg \<Rightarrow> jget cfg ''report_schema_version'' | _ \<Rightarrow> JNull) | _ \<Rightarrow> JNull)"

text \<open>The body of an issued certificate against the report it was issued for.\<close>

lemma issued_body:
  assumes "issue_certificate digest cr rep = Inr env"
  obtains r results where "rep = JObj r" "verify_report rep = Inr results" "cert_pack_valid (cert_body env)"
    "check_attached digest (cert_body env) r =
       ((report_schema rep = JStr ''1.1.0'' \<longrightarrow> list_all vr_ok results), True, Some (packet_counts results))"
proof -
  from assms obtain cert where build: "build_close_certificate rep = Inr cert"
    and body: "cert_body env = dset cert ''report_sha256'' (JStr (canonical_hash digest rep))"
    by (rule issue_certificateE)
  from build obtain r cfg results f version seed where r: "rep = JObj r" "dget r ''config'' (JObj []) = JObj cfg"
    "verify_report rep = Inr results"
    "check_provenance (jget cfg ''report_schema_version'') (jget cfg ''evidence_pack'') = Inr ()"
    and cert: "cert = cert_fields f results (jget cfg ''report_schema_version'') (jget cfg ''evidence_pack'') version seed
       (dget r ''audit_root'' (JStr []))"
    by (rule build_close_certificateE)
  let ?schema = "jget cfg ''report_schema_version''" and ?pack = "jget cfg ''evidence_pack''"
  have get: "jget (cert_body env) ''certificate_schema_version'' = ?schema"
    "jget (cert_body env) ''evidence_pack'' = ?pack"
    "jget (cert_body env) ''report_sha256'' = JStr (canonical_hash digest rep)"
    by (simp_all add: body jget_dset cert cert_fields_get)
  have valid: "cert_pack_valid (cert_body env)" and agree: "(?schema = JNull) = (?pack = JNull)"
    using r(4) by (auto simp: check_provenance_Inr cert_pack_valid_def is_schema_1_1_def get pack_shape_def)
  have "check_attached digest (cert_body env) r =
      ((report_schema rep = JStr ''1.1.0'' \<longrightarrow> list_all vr_ok results), True, Some (packet_counts results))"
    using r agree by (simp add: check_attached_def get Let_def report_schema_def)
  with r(1,3) valid show thesis by (rule that)
qed

text \<open>
  C26. An issued certificate verifies, and says no more than the report supports, in a deployment where the public
  key of a P-256 key verifies what that key signs. Whatever report a certificate was issued for, its envelope
  passes \<open>verify_certificate\<close> in the same deployment, and it is authenticated exactly when a signing key is
  configured. With the report attached, it passes exactly when the report's own checks pass: all of them for a
  report of schema 1.1.0, the packet checks for a legacy report.
\<close>

theorem issued_certificate_verifies:
  assumes "crypto_ok cr" and "issue_certificate digest cr rep = Inr env"
  shows "cc_ok (verify_envelope digest cr env)
    \<and> (cc_authenticated (verify_envelope digest cr env) \<longleftrightarrow> signing_key cr \<noteq> Inr None)
    \<and> (\<exists>results. verify_report rep = Inr results \<and>
        (cc_ok (verify_envelope digest cr (env @ [(''report'', rep)])) \<longleftrightarrow>
         list_all vr_ok (if report_schema rep = JStr ''1.1.0'' then results else filter is_packet_result results)))"
proof -
  from assms(2) obtain key where key: "signing_key cr = Inr key"
    and hash: "jget env ''content_sha256'' = JStr (digest (json_dumps (JObj (cert_body env))))"
    and nrep: "\<not> has_key env ''report''" and inner: "jget env ''certificate'' = JObj (cert_body env)"
    by (rule issue_certificateE)
  from assms(2) obtain r results where r: "rep = JObj r" "verify_report rep = Inr results"
    and valid: "cert_pack_valid (cert_body env)" and att: "check_attached digest (cert_body env) r =
       ((report_schema rep = JStr ''1.1.0'' \<longrightarrow> list_all vr_ok results), True, Some (packet_counts results))"
    by (rule issued_body)
  let ?p = "env @ [(''report'', rep)]"
  have same: "has_key ?p k = has_key env k" "jget ?p k = jget env k" if "k \<noteq> ''report''" for k
    using that by (simp_all add: jget_def has_key_def map_add_def split: option.split)
  have "cert_body ?p = cert_body env"
    using inner unfolding cert_body_def [of ?p] by (simp add: same)
  then have p: "cert_body ?p = cert_body env" "has_key ?p ''report''" "jget ?p ''report'' = rep"
    "jget ?p ''content_sha256'' = jget env ''content_sha256''"
    using nrep same [of "''content_sha256''"] by (auto simp: jget_def has_key_def map_add_def)
  note sig = issued_signature [OF assms key, of env] issued_signature [OF assms key, of ?p]
  have "cc_ok (verify_envelope digest cr env)" "cc_authenticated (verify_envelope digest cr env) \<longleftrightarrow> key \<noteq> None"
    using nrep hash valid sig(1-3) by (auto simp: verify_envelope_def Let_def)
  moreover obtain v w where vw: "packet_counts results = (v, w)" by fastforce
  have "cc_ok (verify_envelope digest cr ?p) \<longleftrightarrow>
      (report_schema rep = JStr ''1.1.0'' \<longrightarrow> list_all vr_ok results) \<and> list_all vr_ok (filter is_packet_result results)"
    using p hash valid sig(4,5) same att r(1) vw packet_counts_pass [OF vw] by (auto simp: verify_envelope_def Let_def)
  then have "cc_ok (verify_envelope digest cr ?p) \<longleftrightarrow>
      list_all vr_ok (if report_schema rep = JStr ''1.1.0'' then results else filter is_packet_result results)"
    by (auto simp: list_all_iff)
  ultimately show ?thesis
    using r(2) key by auto
qed

subsection \<open>What the content hash pins down\<close>

lemma map_of_filter_key: "map_of (filter (\<lambda>y. fst y = k) xs) k = map_of xs k"
  by (induction xs) auto

lemma map_of_sort_key: "map_of (sort_key fst xs) k = map_of xs k"
  by (metis map_of_filter_key sort_key_stable)

lemma json_sorted_get:
  assumes "json_sorted (JObj c) = json_sorted (JObj d)" "jget c k = JStr s"
  shows "jget d k = JStr s"
proof -
  have *: "map_of (map (\<lambda>(k, v). (k, json_sorted v)) (sort_key fst xs)) k = map_option json_sorted (map_of xs k)" for xs
    by (simp add: map_of_map map_of_sort_key)
  have "map_option json_sorted (map_of c k) = map_option json_sorted (map_of d k)"
    using assms(1) * [of c] * [of d] unfolding json_sorted_obj by simp
  moreover have "map_of c k = Some (JStr s)"
    using assms(2) by (cases "map_of c k") (simp_all add: jget_def)
  moreover have "json_sorted v = JStr s \<Longrightarrow> v = JStr s" for v
    by (cases v) simp_all
  ultimately show ?thesis
    by (cases "map_of d k") (auto simp: jget_def)
qed

definition cert_values :: "(string \<times> json) list \<Rightarrow> json list" where
  "cert_values payload = [JObj (cert_body payload), jget payload ''report'']"

lemma same_text_same_value:
  assumes "digest (json_dumps a) = digest (json_dumps b)" "inj_on digest (json_dumps ` V)" "a \<in> V" "b \<in> V"
    and "\<forall>v \<in> V. json_utf8 v" "inj_on float_repr (\<Union>v \<in> V. set (json_floats v))"
  shows "json_sorted a = json_sorted b"
proof -
  have eq: "json_dumps a @ [] = json_dumps b @ []"
    using assms(1-4) by (simp add: inj_on_eq_iff)
  have "set (json_floats a) \<union> set (json_floats b) \<subseteq> (\<Union>v \<in> V. set (json_floats v))"
    using assms(3,4) by blast
  from this inj_on_subset [OF assms(6) this] show ?thesis
    using json_dumps_inject [of a "[]" b "[]"] eq assms(3-5) by (simp add: delim_def)
qed

lemma envelope_ok:
  assumes "cc_ok (verify_envelope digest cr p)"
  shows "jget p ''content_sha256'' = JStr (digest (json_dumps (JObj (cert_body p))))"
    and "has_key p ''report'' \<Longrightarrow> \<exists>rep. jget p ''report'' = JObj rep \<and>
      jget (cert_body p) ''report_sha256'' = JStr (digest (json_dumps (JObj rep)))"
proof -
  show "jget p ''content_sha256'' = JStr (digest (json_dumps (JObj (cert_body p))))"
    using assms by (simp add: verify_envelope_def Let_def case_prod_beta)
  assume rep: "has_key p ''report''"
  then obtain r where r: "jget p ''report'' = JObj r"
    using assms by (cases "jget p ''report''") (simp_all add: verify_envelope_def Let_def case_prod_beta)
  then have "fst (check_attached digest (cert_body p) r)"
    using assms rep by (simp add: verify_envelope_def Let_def case_prod_beta)
  then have "jget (cert_body p) ''report_sha256'' = JStr (canonical_hash digest (JObj r))"
    by (auto simp: check_attached_def Let_def split: json.split_asm sum.split_asm)
  then show "\<exists>rep. jget p ''report'' = JObj rep \<and>
      jget (cert_body p) ''report_sha256'' = JStr (digest (json_dumps (JObj rep)))"
    using r by (simp add: canonical_hash_def)
qed

text \<open>
  C27. The content hash pins down the certificate and the report behind it. Two envelopes that pass
  verification, in whatever deployments, and claim the same content hash carry the same certificate up
  to the order of keys, and if both attach a report, the same report. The canonical text is
  unambiguous, so the only way out is a collision of the digest on the texts at hand; the texts of the
  values are valid UTF-8 and \<open>repr\<close> tells their floats apart.
\<close>

theorem certificate_tamper_evident:
  assumes "cc_ok (verify_envelope digest cr p)" and "cc_ok (verify_envelope digest cr' q)"
    and "jget p ''content_sha256'' = jget q ''content_sha256''"
    and "\<forall>v \<in> set (cert_values p @ cert_values q). json_utf8 v"
    and "inj_on float_repr (\<Union>v \<in> set (cert_values p @ cert_values q). set (json_floats v))"
    and "inj_on digest (json_dumps ` set (cert_values p @ cert_values q))"
  shows "json_sorted (JObj (cert_body p)) = json_sorted (JObj (cert_body q))
    \<and> (has_key p ''report'' \<and> has_key q ''report'' \<longrightarrow>
        json_sorted (jget p ''report'') = json_sorted (jget q ''report''))"
proof -
  let ?V = "set (cert_values p @ cert_values q)"
  have mem: "JObj (cert_body p) \<in> ?V" "JObj (cert_body q) \<in> ?V" "jget p ''report'' \<in> ?V" "jget q ''report'' \<in> ?V"
    by (simp_all add: cert_values_def)
  have same: "json_sorted a = json_sorted b" if "digest (json_dumps a) = digest (json_dumps b)" "a \<in> ?V" "b \<in> ?V" for a b
    by (rule same_text_same_value [OF that(1) assms(6) that(2,3) assms(4,5)])
  have c: "json_sorted (JObj (cert_body p)) = json_sorted (JObj (cert_body q))"
    using envelope_ok(1) [OF assms(1)] envelope_ok(1) [OF assms(2)] assms(3) mem(1,2) by (intro same) simp_all
  moreover have "json_sorted (jget p ''report'') = json_sorted (jget q ''report'')"
    if reps: "has_key p ''report''" "has_key q ''report''"
  proof -
    obtain rp rq where "jget p ''report'' = JObj rp" "jget q ''report'' = JObj rq"
      "jget (cert_body p) ''report_sha256'' = JStr (digest (json_dumps (JObj rp)))"
      "jget (cert_body q) ''report_sha256'' = JStr (digest (json_dumps (JObj rq)))"
      using envelope_ok(2) [OF assms(1) reps(1)] envelope_ok(2) [OF assms(2) reps(2)] by blast
    then show ?thesis
      using json_sorted_get [OF c] mem(3,4) by (intro same) simp_all
  qed
  ultimately show ?thesis by blast
qed


subsection \<open>Concrete instances\<close>

text \<open>A report without packets, unsigned and signed, with a digest that keeps the text.\<close>

definition sample_report :: json where
  "sample_report = JObj [(''totals'', JObj [(''n_bank_lines'', JInt 2), (''reconciled_paise'', JInt 97640),
      (''by_rail_paise'', JObj [(''razorpay_settlement'', JInt 97640)])]),
     (''proof_packets'', JList []), (''audit_root'', JStr (replicate 64 (CHR ''a''))),
     (''config'', JObj [(''seed'', JInt 7)])]"

definition sample_crypto :: "string option \<Rightarrow> unit crypto" where
  "sample_crypto env = \<lparr>cr_env = env, cr_available = True, cr_b64decode = (\<lambda>s. if s = [] then None else Some (tl s)),
     cr_b64encode = (\<lambda>b. CHR ''b'' # b), cr_load_private = (\<lambda>_. Some ()), cr_is_p256 = (\<lambda>_. True),
     cr_public_pem = (\<lambda>_. ''pem''), cr_sign = (\<lambda>_ body. rev body), cr_verify = (\<lambda>pem sig body. sig = rev body)\<rparr>"

lemma sample_crypto_ok: "crypto_ok (sample_crypto env)"
  by (simp add: crypto_ok_def sample_crypto_def)

theorem issued_certificate_verifies_witness:
  "\<exists>env. issue_certificate id (sample_crypto (Some ''key'')) sample_report = Inr env
     \<and> cc_ok (verify_envelope id (sample_crypto (Some ''key'')) env)
     \<and> cc_authenticated (verify_envelope id (sample_crypto (Some ''key'')) env)"
proof -
  have "\<not> isl (issue_certificate id (sample_crypto (Some ''key'')) sample_report)" by code_simp
  then obtain env where env: "issue_certificate id (sample_crypto (Some ''key'')) sample_report = Inr env"
    by (cases "issue_certificate id (sample_crypto (Some ''key'')) sample_report") simp_all
  have "signing_key (sample_crypto (Some ''key'')) \<noteq> Inr None"
    by (simp add: signing_key_def sample_crypto_def)
  then show ?thesis
    using issued_certificate_verifies [OF sample_crypto_ok env] env by blast
qed

definition sample_envelope :: "(string \<times> json) list \<Rightarrow> (string \<times> json) list" where
  "sample_envelope cert = [(''certificate'', JObj cert), (''content_sha256'', JStr (json_dumps (JObj cert))),
     (''signed'', JBool False), (''report'', JObj [])]"

definition sample_body :: "(string \<times> json) list" where
  "sample_body = [(''report_sha256'', JStr ''{}''), (''period_records'', JInt 2)]"

theorem certificate_tamper_evident_witness:
  "json_sorted (JObj (cert_body (sample_envelope sample_body))) = json_sorted (JObj (cert_body (sample_envelope (rev sample_body))))
    \<and> json_sorted (jget (sample_envelope sample_body) ''report'') = json_sorted (jget (sample_envelope (rev sample_body)) ''report'')"
proof -
  let ?V = "cert_values (sample_envelope sample_body) @ cert_values (sample_envelope (rev sample_body))"
  have ok: "cc_ok (verify_envelope id (sample_crypto None) (sample_envelope sample_body))"
    "cc_ok (verify_envelope id (sample_crypto None) (sample_envelope (rev sample_body)))"
    "jget (sample_envelope sample_body) ''content_sha256'' = jget (sample_envelope (rev sample_body)) ''content_sha256''"
    and keys: "has_key (sample_envelope sample_body) ''report'' \<and> has_key (sample_envelope (rev sample_body)) ''report''"
    by code_simp+
  have "list_all json_utf8 ?V" "list_all (\<lambda>v. json_floats v = []) ?V"
    by code_simp+
  then have vals: "\<forall>v \<in> set ?V. json_utf8 v" "(\<Union>v \<in> set ?V. set (json_floats v)) = {}"
    unfolding list_all_iff by (blast, simp only: UN_simps(1) SUP_bot_conv) simp
  have "inj_on float_repr (\<Union>v \<in> set ?V. set (json_floats v))" "inj_on id (json_dumps ` set ?V)"
    unfolding vals(2) by (rule inj_on_empty, rule inj_on_id)
  from certificate_tamper_evident [OF ok vals(1) this] keys show ?thesis by blast
qed

end
