(* ===== verification/AuthStore.thy ===== *)
theory AuthStore
  imports Jobs Models
begin

section \<open>The control-plane tables\<close>

text \<open>
  The rows of \<open>persistence/models.py\<close> and the migrations that sessions, organisations, memberships,
  invitations and sign-in read and write, with their CHECK, UNIQUE and FOREIGN KEY constraints. A
  timestamp is an instant in microseconds, a table the list of its rows. Columns that no modelled
  operation reads or writes, column widths and the size check of the details of a security event are
  left out. An operation returns an exception, after which its transaction is rolled back, or its
  result with the new database. Clocks, random tokens and generated public ids are arguments, and so is
  SHA-256 (\<open>h\<close>, as hexadecimal text). The tables created by the migration with the server's clock as
  default get the time of the operation.
\<close>

datatype violation_of = Unique_Key string | Check_Of string string | Foreign_Key_Of string string

datatype auth_error = RuntimeErr string | DatabaseErr string | Violation violation_of

text \<open>The server's primary message of an integrity error.\<close>

definition server_message :: "violation_of \<Rightarrow> string" where
  "server_message v = (case v of
     Unique_Key c \<Rightarrow> ''duplicate key value violates unique constraint '' @ [CHR 0x22] @ c @ [CHR 0x22]
   | Check_Of t c \<Rightarrow> ''new row for relation '' @ [CHR 0x22] @ t @ [CHR 0x22] @ '' violates check constraint ''
       @ [CHR 0x22] @ c @ [CHR 0x22]
   | Foreign_Key_Of t c \<Rightarrow> ''insert or update on table '' @ [CHR 0x22] @ t @ [CHR 0x22]
       @ '' violates foreign key constraint '' @ [CHR 0x22] @ c @ [CHR 0x22])"

record principal_row =
  pr_id :: int
  pr_public_id :: string
  pr_email :: string
  pr_display_name :: string
  pr_is_active :: bool

record organisation_row =
  og_id :: int
  og_public_id :: string
  og_name :: string
  og_is_active :: bool

record org_membership =
  om_id :: int
  om_public_id :: string
  om_organisation_id :: int
  om_principal_id :: int
  om_role_code :: string
  om_status :: string
  om_auth_version :: int
  om_created_at :: int

record user_session =
  us_id :: int
  us_public_id :: string
  us_principal_id :: int
  us_token_hash :: string
  us_active_org :: "int option"
  us_auth_version :: "int option"
  us_ip_hash :: string
  us_user_agent :: "string option"
  us_last_active_at :: int
  us_idle_expires_at :: int
  us_absolute_expires_at :: int
  us_revoked_at :: "int option"
  us_created_at :: int

record invitation =
  iv_id :: int
  iv_public_id :: string
  iv_organisation_id :: int
  iv_invited_by :: int
  iv_email :: string
  iv_role_code :: string
  iv_token_hash :: string
  iv_status :: string
  iv_expires_at :: int
  iv_accepted_at :: "int option"
  iv_revoked_at :: "int option"
  iv_created_at :: int

record control_event =
  ae_public_id :: string
  ae_organisation_id :: int
  ae_actor :: int
  ae_event_type :: string
  ae_subject_type :: string
  ae_subject :: string
  ae_metadata :: "(string \<times> json) list"

record security_event =
  sv_public_id :: string
  sv_event_type :: string
  sv_actor :: "int option"
  sv_subject_type :: string
  sv_subject :: string
  sv_ip_hash :: string
  sv_user_agent :: "string option"
  sv_details :: "(string \<times> json) list"
  sv_created_at :: int

record oidc_transaction =
  tx_public_id :: string
  tx_state_hash :: string
  tx_nonce_hash :: string
  tx_code_verifier :: string
  tx_return_to :: string
  tx_expires_at :: int
  tx_consumed_at :: "int option"
  tx_created_at :: int

record federated_identity =
  fi_public_id :: string
  fi_principal_id :: int
  fi_issuer :: string
  fi_subject :: string
  fi_email_at_auth :: string
  fi_email_verified :: bool

record auth_db =
  principals :: "principal_row list"
  organisations :: "organisation_row list"
  org_memberships :: "org_membership list"
  sessions :: "user_session list"
  invitations :: "invitation list"
  control_events :: "control_event list"
  security_events :: "security_event list"
  oidc_transactions :: "oidc_transaction list"
  federated_identities :: "federated_identity list"
  trusted_issuers :: "(string \<times> bool) list"

definition ROLE_CODES :: "string list" where
  "ROLE_CODES = [''owner'', ''admin'', ''operator'', ''reviewer'', ''auditor'']"

subsection \<open>Constraints\<close>

text \<open>The first constraint that a new or changed row violates, if any.\<close>

fun require_all :: "(bool \<times> violation_of) list \<Rightarrow> auth_error + unit" where
  "require_all [] = Inr ()"
| "require_all ((ok, v) # cs) = (if ok then require_all cs else Inl (Violation v))"

definition session_checks :: "user_session \<Rightarrow> (bool \<times> violation_of) list" where
  "session_checks s =
    [((us_active_org s = None) = (us_auth_version s = None), Check_Of ''user_sessions'' ''chk_sessions_org_version_consistency''),
     (hex_hash_check 64 (Some (us_ip_hash s)), Check_Of ''user_sessions'' ''chk_sessions_ip_hash_hex''),
     (case us_auth_version s of None \<Rightarrow> True | Some v \<Rightarrow> 0 < v, Check_Of ''user_sessions'' ''chk_sessions_membership_version_positive''),
     (case us_revoked_at s of None \<Rightarrow> True | Some t \<Rightarrow> us_created_at s \<le> t, Check_Of ''user_sessions'' ''chk_sessions_revoked_after_created''),
     (us_last_active_at s \<le> us_idle_expires_at s \<and> us_idle_expires_at s \<le> us_absolute_expires_at s,
        Check_Of ''user_sessions'' ''chk_sessions_timestamp_ordering''),
     (hex_hash_check 64 (Some (us_token_hash s)), Check_Of ''user_sessions'' ''chk_sessions_token_hash_hex'')]"

definition session_fits :: "auth_db \<Rightarrow> user_session list \<Rightarrow> user_session \<Rightarrow> (bool \<times> violation_of) list" where
  "session_fits d others s = session_checks s @
    [(us_public_id s \<notin> us_public_id ` set others, Unique_Key ''user_sessions_public_id_key''),
     (us_token_hash s \<notin> us_token_hash ` set others, Unique_Key ''user_sessions_session_token_hash_key''),
     (us_principal_id s \<in> pr_id ` set (principals d), Foreign_Key_Of ''user_sessions'' ''user_sessions_principal_id_fkey''),
     (case us_active_org s of None \<Rightarrow> True | Some og \<Rightarrow> og \<in> og_id ` set (organisations d),
        Foreign_Key_Of ''user_sessions'' ''user_sessions_active_organisation_id_fkey'')]"

definition membership_fits :: "auth_db \<Rightarrow> org_membership list \<Rightarrow> org_membership \<Rightarrow> (bool \<times> violation_of) list" where
  "membership_fits d others m =
    [(0 < om_auth_version m, Check_Of ''organisation_memberships'' ''chk_memberships_auth_version_positive''),
     (om_status m \<in> {''active'', ''suspended'', ''invited''},
        Check_Of ''organisation_memberships'' ''chk_memberships_status_allowed''),
     (om_public_id m \<notin> om_public_id ` set others, Unique_Key ''organisation_memberships_public_id_key''),
     ((om_organisation_id m, om_principal_id m) \<notin> (\<lambda>x. (om_organisation_id x, om_principal_id x)) ` set others,
        Unique_Key ''uq_memberships_org_principal''),
     (om_organisation_id m \<in> og_id ` set (organisations d),
        Foreign_Key_Of ''organisation_memberships'' ''organisation_memberships_organisation_id_fkey''),
     (om_principal_id m \<in> pr_id ` set (principals d),
        Foreign_Key_Of ''organisation_memberships'' ''organisation_memberships_principal_id_fkey''),
     (om_role_code m \<in> set ROLE_CODES, Foreign_Key_Of ''organisation_memberships'' ''organisation_memberships_role_code_fkey'')]"

text \<open>\<open>trim\<close> of SQL removes blanks only.\<close>

definition sql_trim :: "string \<Rightarrow> string" where
  "sql_trim s = (let blank = (\<lambda>c. c = CHR '' '') in rev (dropWhile blank (rev (dropWhile blank s))))"

definition pending_key :: "invitation \<Rightarrow> int \<times> string" where
  "pending_key i = (iv_organisation_id i, py_lower (sql_trim (iv_email i)))"

definition invitation_lifecycle :: "invitation \<Rightarrow> bool" where
  "invitation_lifecycle i \<longleftrightarrow>
     (iv_status i = ''pending'' \<and> iv_accepted_at i = None \<and> iv_revoked_at i = None)
   \<or> (iv_status i = ''accepted'' \<and> iv_accepted_at i \<noteq> None \<and> iv_revoked_at i = None)
   \<or> (iv_status i = ''revoked'' \<and> iv_revoked_at i \<noteq> None \<and> iv_accepted_at i = None)
   \<or> (iv_status i = ''expired'' \<and> iv_accepted_at i = None)"

definition invitation_fits :: "auth_db \<Rightarrow> invitation list \<Rightarrow> invitation \<Rightarrow> (bool \<times> violation_of) list" where
  "invitation_fits d others i =
    [(iv_created_at i < iv_expires_at i, Check_Of ''organisation_invitations'' ''chk_invitations_expiry_order''),
     (invitation_lifecycle i, Check_Of ''organisation_invitations'' ''chk_invitations_lifecycle''),
     (iv_status i \<in> {''pending'', ''accepted'', ''revoked'', ''expired''}, Check_Of ''organisation_invitations'' ''chk_invitations_status''),
     (hex_hash_check 64 (Some (iv_token_hash i)), Check_Of ''organisation_invitations'' ''chk_invitations_token_hash_hex''),
     (iv_public_id i \<notin> iv_public_id ` set others, Unique_Key ''organisation_invitations_public_id_key''),
     (iv_token_hash i \<notin> iv_token_hash ` set others, Unique_Key ''organisation_invitations_token_hash_key''),
     (iv_status i = ''pending'' \<longrightarrow> pending_key i \<notin> pending_key ` set (filter (\<lambda>x. iv_status x = ''pending'') others),
        Unique_Key ''uq_org_invitations_pending_email''),
     (iv_organisation_id i \<in> og_id ` set (organisations d),
        Foreign_Key_Of ''organisation_invitations'' ''organisation_invitations_organisation_id_fkey''),
     (iv_invited_by i \<in> pr_id ` set (principals d),
        Foreign_Key_Of ''organisation_invitations'' ''organisation_invitations_invited_by_principal_id_fkey''),
     (iv_role_code i \<in> set ROLE_CODES, Foreign_Key_Of ''organisation_invitations'' ''organisation_invitations_role_code_fkey'')]"

definition SECURITY_EVENT_TYPES :: "string list" where
  "SECURITY_EVENT_TYPES = [''auth.oidc.initiated'', ''auth.oidc.callback_success'', ''auth.oidc.callback_failed'',
     ''auth.session.created'', ''auth.session.expired'', ''auth.session.revoked'',
     ''auth.session.stale_invalidated'', ''auth.csrf.violation'', ''auth.rate_limit.exceeded'', ''auth.identity.collision'']"

subsection \<open>Statements\<close>

definition insert_session :: "user_session \<Rightarrow> auth_db \<Rightarrow> auth_error + auth_db" where
  "insert_session s d = attempt (require_all (session_fits d (sessions d) s))
     (\<lambda>_. Inr (d\<lparr>sessions := sessions d @ [s]\<rparr>))"

definition insert_membership :: "org_membership \<Rightarrow> auth_db \<Rightarrow> auth_error + auth_db" where
  "insert_membership m d = attempt (require_all (membership_fits d (org_memberships d) m))
     (\<lambda>_. Inr (d\<lparr>org_memberships := org_memberships d @ [m]\<rparr>))"

definition insert_invitation :: "invitation \<Rightarrow> auth_db \<Rightarrow> auth_error + auth_db" where
  "insert_invitation i d = attempt (require_all (invitation_fits d (invitations d) i))
     (\<lambda>_. Inr (d\<lparr>invitations := invitations d @ [i]\<rparr>))"

text \<open>\<open>UPDATE user_sessions SET f WHERE P\<close>; a token hash is set for one row only.\<close>

definition update_sessions :: "(user_session \<Rightarrow> bool) \<Rightarrow> (user_session \<Rightarrow> user_session) \<Rightarrow> auth_db \<Rightarrow> auth_error + auth_db" where
  "update_sessions P f d =
    attempt (require_all (concat (map (session_checks \<circ> f) (filter P (sessions d))))) (\<lambda>_.
      Inr (d\<lparr>sessions := map (\<lambda>s. if P s then f s else s) (sessions d)\<rparr>))"

definition update_membership :: "int \<Rightarrow> (org_membership \<Rightarrow> org_membership) \<Rightarrow> auth_db \<Rightarrow> auth_error + auth_db" where
  "update_membership mid f d =
    attempt (require_all (concat (map (\<lambda>m. membership_fits d (filter (\<lambda>x. om_id x \<noteq> mid) (org_memberships d)) (f m))
        (filter (\<lambda>m. om_id m = mid) (org_memberships d))))) (\<lambda>_.
      Inr (d\<lparr>org_memberships := map (\<lambda>m. if om_id m = mid then f m else m) (org_memberships d)\<rparr>))"

definition update_invitation :: "int \<Rightarrow> (invitation \<Rightarrow> invitation) \<Rightarrow> auth_db \<Rightarrow> auth_error + auth_db" where
  "update_invitation iid f d =
    attempt (require_all (concat (map (\<lambda>i. invitation_fits d (filter (\<lambda>x. iv_id x \<noteq> iid) (invitations d)) (f i))
        (filter (\<lambda>i. iv_id i = iid) (invitations d))))) (\<lambda>_.
      Inr (d\<lparr>invitations := map (\<lambda>i. if iv_id i = iid then f i else i) (invitations d)\<rparr>))"

definition add_control_event :: "control_event \<Rightarrow> auth_db \<Rightarrow> auth_error + auth_db" where
  "add_control_event e d =
    attempt (require_all [(ae_public_id e \<notin> ae_public_id ` set (control_events d), Unique_Key ''audit_events_public_id_key'')])
      (\<lambda>_. Inr (d\<lparr>control_events := control_events d @ [e]\<rparr>))"

text \<open>\<open>fn_sec_event_record\<close> and its SQLite counterpart.\<close>

definition record_security_event ::
  "string \<Rightarrow> int \<Rightarrow> string \<Rightarrow> string \<Rightarrow> string \<Rightarrow> string \<Rightarrow> string option \<Rightarrow> int option \<Rightarrow> (string \<times> json) list \<Rightarrow>
   auth_db \<Rightarrow> auth_error + auth_db" where
  "record_security_event pid now event_type subject_type subject ip_hash ua actor details d =
    attempt (require_all
        [(event_type \<in> set SECURITY_EVENT_TYPES, Check_Of ''control_plane_security_events'' ''chk_sec_events_type''),
         (pid \<notin> sv_public_id ` set (security_events d), Unique_Key ''control_plane_security_events_public_id_key''),
         (case actor of None \<Rightarrow> True | Some p \<Rightarrow> p \<in> pr_id ` set (principals d),
            Foreign_Key_Of ''control_plane_security_events'' ''control_plane_security_events_actor_principal_id_fkey'')]) (\<lambda>_.
      Inr (d\<lparr>security_events := security_events d @
        [\<lparr>sv_public_id = pid, sv_event_type = event_type, sv_actor = actor, sv_subject_type = subject_type,
          sv_subject = take 255 subject, sv_ip_hash = ip_hash, sv_user_agent = ua, sv_details = details,
          sv_created_at = now\<rparr>]\<rparr>))"

definition policy_json :: "(string \<times> json) list" where
  "policy_json = map (\<lambda>(k, v). (k, JStr v)) permission_policy_metadata"

definition principal_of :: "auth_db \<Rightarrow> int \<Rightarrow> principal_row option" where
  "principal_of d p = find (\<lambda>x. pr_id x = p) (principals d)"

definition organisation_of :: "auth_db \<Rightarrow> int \<Rightarrow> organisation_row option" where
  "organisation_of d og = find (\<lambda>x. og_id x = og) (organisations d)"

definition membership_of :: "auth_db \<Rightarrow> int \<Rightarrow> int \<Rightarrow> org_membership option" where
  "membership_of d og p = find (\<lambda>m. om_organisation_id m = og \<and> om_principal_id m = p) (org_memberships d)"

definition active_member :: "auth_db \<Rightarrow> int \<Rightarrow> int \<Rightarrow> org_membership option" where
  "active_member d og p =
     find (\<lambda>m. om_organisation_id m = og \<and> om_principal_id m = p \<and> om_status m = ''active'') (org_memberships d)"

subsection \<open>Facts about statements\<close>

lemma require_all_Inr [store_simps]: "require_all cs = Inr u \<longleftrightarrow> (\<forall>c \<in> set cs. fst c)"
  by (induction cs rule: require_all.induct) auto

lemma find_SomeD: "find P xs = Some x \<Longrightarrow> x \<in> set xs \<and> P x"
  by (induction xs) (auto split: if_split_asm)

lemma find_NoneD: "find P xs = None \<Longrightarrow> x \<in> set xs \<Longrightarrow> \<not> P x"
  by (auto simp: find_None_iff)

end
