(* ===== verification/Sessions.thy ===== *)
theory Sessions
  imports AuthStore PyJson
begin

section \<open>Sessions: \<open>auth/sessions.py\<close> and the \<open>fn_auth_*\<close> functions\<close>

text \<open>
  Every operation takes the raw token and works on its hash. On PostgreSQL it calls a function of the
  migration, on SQLite it runs the statements of the fallback; both are modelled. \<open>now\<close> is the clock of
  the operation, \<open>tok\<close> the token it generates.
\<close>

definition IDLE_TIMEOUT_SECONDS :: int where "IDLE_TIMEOUT_SECONDS = 1800"
definition ABSOLUTE_TIMEOUT_SECONDS :: int where "ABSOLUTE_TIMEOUT_SECONDS = 43200"
definition TOUCH_THROTTLE_SECONDS :: int where "TOUCH_THROTTLE_SECONDS = 60"

definition seconds :: "int \<Rightarrow> int" where
  "seconds n = n * 1000000"

definition truncate_user_agent :: "string option \<Rightarrow> string option" where
  "truncate_user_agent ua = map_option (\<lambda>s. concat (take 128 (text_chars s))) ua"

record session_info =
  si_session_id :: int
  si_public_id :: string
  si_principal_id :: int
  si_principal_public_id :: string
  si_email :: string
  si_display_name :: string
  si_active_org :: "int option"
  si_active_org_public_id :: "string option"
  si_role_code :: "string option"
  si_idle_expires_at :: int
  si_absolute_expires_at :: int
  si_last_active_at :: int
  si_is_revoked :: bool
  si_is_stale :: bool

text \<open>Not revoked and before both expiry times: the condition all guarded statements share.\<close>

definition live :: "int \<Rightarrow> user_session \<Rightarrow> bool" where
  "live now s \<longleftrightarrow> us_revoked_at s = None \<and> now < us_absolute_expires_at s \<and> now < us_idle_expires_at s"

definition session_of :: "auth_db \<Rightarrow> string \<Rightarrow> user_session option" where
  "session_of d th = find (\<lambda>s. us_token_hash s = th) (sessions d)"

definition live_session :: "auth_db \<Rightarrow> int \<Rightarrow> string \<Rightarrow> user_session option" where
  "live_session d now th = find (\<lambda>s. us_token_hash s = th \<and> live now s) (sessions d)"

text \<open>The join with active principals.\<close>

definition active_principal :: "auth_db \<Rightarrow> int \<Rightarrow> bool" where
  "active_principal d p \<longleftrightarrow> (\<exists>x \<in> set (principals d). pr_id x = p \<and> pr_is_active x)"

definition caller_session :: "auth_db \<Rightarrow> int \<Rightarrow> string \<Rightarrow> user_session option" where
  "caller_session d now th =
     find (\<lambda>s. us_token_hash s = th \<and> live now s \<and> active_principal d (us_principal_id s)) (sessions d)"

definition active_organisation :: "auth_db \<Rightarrow> int \<Rightarrow> bool" where
  "active_organisation d og \<longleftrightarrow> (\<exists>x \<in> set (organisations d). og_id x = og \<and> og_is_active x)"

subsection \<open>Creation\<close>

definition new_session ::
  "auth_db \<Rightarrow> int \<Rightarrow> string \<Rightarrow> string \<Rightarrow> int \<Rightarrow> int option \<Rightarrow> int option \<Rightarrow> string \<Rightarrow> string option \<Rightarrow> int \<Rightarrow> int \<Rightarrow> user_session" where
  "new_session d now pid th p og ver ip_h ua idle abs_exp =
    \<lparr>us_id = fresh_id (map us_id (sessions d)), us_public_id = pid, us_principal_id = p, us_token_hash = th,
     us_active_org = og, us_auth_version = ver, us_ip_hash = ip_h, us_user_agent = ua, us_last_active_at = now,
     us_idle_expires_at = idle, us_absolute_expires_at = abs_exp, us_revoked_at = None, us_created_at = now\<rparr>"

definition fn_auth_create_session ::
  "int \<Rightarrow> string \<Rightarrow> int \<Rightarrow> string \<Rightarrow> int option \<Rightarrow> string \<Rightarrow> string option \<Rightarrow> int \<Rightarrow> int \<Rightarrow> auth_db \<Rightarrow> auth_error + auth_db" where
  "fn_auth_create_session now pid p th og ip_h ua idle abs_exp d =
    (if \<not> active_principal d p then Inl (DatabaseErr ''Principal not found or inactive'')
     else case og of
       None \<Rightarrow> insert_session (new_session d now pid th p None None ip_h ua (min idle abs_exp) abs_exp) d
     | Some g \<Rightarrow> (case active_member d g p of
           Some m \<Rightarrow> if active_organisation d g
             then insert_session (new_session d now pid th p og (Some (om_auth_version m)) ip_h ua (min idle abs_exp) abs_exp) d
             else Inl (DatabaseErr (''No active membership in organisation '' @ str_int g))
         | None \<Rightarrow> Inl (DatabaseErr (''No active membership in organisation '' @ str_int g))))"

definition sqlite_create_session ::
  "int \<Rightarrow> string \<Rightarrow> int \<Rightarrow> string \<Rightarrow> int option \<Rightarrow> string \<Rightarrow> string option \<Rightarrow> int \<Rightarrow> int \<Rightarrow> auth_db \<Rightarrow> auth_error + auth_db" where
  "sqlite_create_session now pid p th og ip_h ua idle abs_exp d =
    (case og of
       None \<Rightarrow> insert_session (new_session d now pid th p None None ip_h ua idle abs_exp) d
     | Some g \<Rightarrow> (case active_member d g p of
           Some m \<Rightarrow> insert_session (new_session d now pid th p og (Some (om_auth_version m)) ip_h ua idle abs_exp) d
         | None \<Rightarrow> Inl (RuntimeErr (''No active membership in organisation '' @ str_int g))))"

subsection \<open>Lookup\<close>

definition info_of :: "user_session \<Rightarrow> principal_row \<Rightarrow> int \<Rightarrow> string option \<Rightarrow> string option \<Rightarrow> bool \<Rightarrow> session_info" where
  "info_of s p now org_pid role stale =
    \<lparr>si_session_id = us_id s, si_public_id = us_public_id s, si_principal_id = us_principal_id s,
     si_principal_public_id = pr_public_id p, si_email = pr_email p, si_display_name = pr_display_name p,
     si_active_org = us_active_org s, si_active_org_public_id = org_pid, si_role_code = role,
     si_idle_expires_at = us_idle_expires_at s, si_absolute_expires_at = us_absolute_expires_at s,
     si_last_active_at = us_last_active_at s,
     si_is_revoked = (us_revoked_at s \<noteq> None \<or> us_absolute_expires_at s \<le> now \<or> us_idle_expires_at s \<le> now
        \<or> \<not> pr_is_active p),
     si_is_stale = stale\<rparr>"

definition fn_auth_lookup_session :: "int \<Rightarrow> string \<Rightarrow> auth_db \<Rightarrow> session_info option" where
  "fn_auth_lookup_session now th d = (case session_of d th of
     None \<Rightarrow> None
   | Some s \<Rightarrow> (case principal_of d (us_principal_id s) of
       None \<Rightarrow> None
     | Some p \<Rightarrow> Some (case us_active_org s of
         None \<Rightarrow> info_of s p now None None False
       | Some g \<Rightarrow> (case organisation_of d g of
           None \<Rightarrow> info_of s p now None None True
         | Some og \<Rightarrow> (case membership_of d g (us_principal_id s) of
             None \<Rightarrow> info_of s p now (Some (og_public_id og)) None True
           | Some m \<Rightarrow> info_of s p now (Some (og_public_id og)) (Some (om_role_code m))
               (om_status m \<noteq> ''active'' \<or> \<not> og_is_active og \<or> Some (om_auth_version m) \<noteq> us_auth_version s))))))"

definition sqlite_lookup_session :: "int \<Rightarrow> string \<Rightarrow> auth_db \<Rightarrow> session_info option" where
  "sqlite_lookup_session now th d = (case session_of d th of
     None \<Rightarrow> None
   | Some s \<Rightarrow> (case principal_of d (us_principal_id s) of
       None \<Rightarrow> None
     | Some p \<Rightarrow> Some (case us_active_org s of
         None \<Rightarrow> info_of s p now None None False
       | Some g \<Rightarrow> (case (organisation_of d g, membership_of d g (us_principal_id s)) of
           (Some og, Some m) \<Rightarrow>
             if \<not> og_is_active og \<or> om_status m \<noteq> ''active'' then info_of s p now None None True
             else if Some (om_auth_version m) \<noteq> us_auth_version s then info_of s p now None None True
             else info_of s p now (Some (og_public_id og)) (Some (om_role_code m)) False
         | _ \<Rightarrow> info_of s p now None None True))))"

definition lookup_session :: "dialect \<Rightarrow> (string \<Rightarrow> string) \<Rightarrow> int \<Rightarrow> string \<Rightarrow> auth_db \<Rightarrow> session_info option" where
  "lookup_session dia h now raw d = (case dia of
     Postgres \<Rightarrow> fn_auth_lookup_session now (h raw) d | Sqlite \<Rightarrow> sqlite_lookup_session now (h raw) d)"

definition create_session ::
  "dialect \<Rightarrow> (string \<Rightarrow> string) \<Rightarrow> int \<Rightarrow> string \<Rightarrow> string \<Rightarrow> string \<Rightarrow> int \<Rightarrow> int option \<Rightarrow> string \<Rightarrow> string option \<Rightarrow>
   auth_db \<Rightarrow> auth_error + (string \<times> session_info) \<times> auth_db" where
  "create_session dia h now tok pid event_pid p og ip ua d =
    (let idle = now + seconds IDLE_TIMEOUT_SECONDS; abs_exp = now + seconds ABSOLUTE_TIMEOUT_SECONDS;
         ip_h = h ip; ua' = truncate_user_agent ua;
         create = (case dia of Postgres \<Rightarrow> fn_auth_create_session | Sqlite \<Rightarrow> sqlite_create_session)
     in attempt (create now pid p (h tok) og ip_h ua' idle abs_exp d) (\<lambda>d1.
        attempt (record_security_event event_pid now ''auth.session.created'' ''user_session'' pid ip_h ua' (Some p)
          [(''active_org_id'', j_opt JInt og)] d1) (\<lambda>d2.
        case lookup_session dia h now tok d2 of
          None \<Rightarrow> Inl (RuntimeErr ''Newly created session could not be looked up'')
        | Some info \<Rightarrow> Inr ((tok, info), d2))))"

subsection \<open>Activity\<close>

definition touched :: "int \<Rightarrow> int \<Rightarrow> user_session \<Rightarrow> user_session" where
  "touched now window s = s\<lparr>us_last_active_at := now,
     us_idle_expires_at := min (now + seconds window) (us_absolute_expires_at s)\<rparr>"

definition touch_guard :: "dialect \<Rightarrow> int \<Rightarrow> string \<Rightarrow> int \<Rightarrow> user_session \<Rightarrow> bool" where
  "touch_guard dia now th throttle s \<longleftrightarrow> us_token_hash s = th \<and> live now s \<and>
     (case dia of Postgres \<Rightarrow> us_last_active_at s < now - seconds throttle
      | Sqlite \<Rightarrow> us_last_active_at s \<le> now - seconds throttle)"

definition touch_session_throttled ::
  "dialect \<Rightarrow> (string \<Rightarrow> string) \<Rightarrow> int \<Rightarrow> string \<Rightarrow> int \<Rightarrow> int \<Rightarrow> auth_db \<Rightarrow> auth_error + bool \<times> auth_db" where
  "touch_session_throttled dia h now raw window throttle d =
    (let G = touch_guard dia now (h raw) throttle in
     attempt (update_sessions G (touched now window) d) (\<lambda>d'. Inr (list_ex G (sessions d), d')))"

definition touch_session :: "dialect \<Rightarrow> (string \<Rightarrow> string) \<Rightarrow> int \<Rightarrow> string \<Rightarrow> int \<Rightarrow> auth_db \<Rightarrow> auth_error + bool \<times> auth_db" where
  "touch_session dia h now raw window d = touch_session_throttled dia h now raw window 0 d"

subsection \<open>Revocation\<close>

definition revoked :: "int \<Rightarrow> user_session \<Rightarrow> user_session" where
  "revoked now s = s\<lparr>us_revoked_at := Some now\<rparr>"

text \<open>Both dialects update the one row of the token that is not revoked.\<close>

definition revoke_session ::
  "(string \<Rightarrow> string) \<Rightarrow> int \<Rightarrow> string \<Rightarrow> string \<Rightarrow> string \<Rightarrow> string option \<Rightarrow> auth_db \<Rightarrow> auth_error + bool \<times> auth_db" where
  "revoke_session h now event_pid raw ip ua d =
    (let th = h raw; G = (\<lambda>s. us_token_hash s = th \<and> us_revoked_at s = None) in
     if \<not> list_ex G (sessions d) then Inr (False, d)
     else attempt (update_sessions G (revoked now) d) (\<lambda>d1.
       attempt (record_security_event event_pid now ''auth.session.revoked'' ''user_session'' (take 16 th)
         (h ip) (truncate_user_agent ua) None [(''scope'', JStr ''single_session'')] d1) (\<lambda>d2. Inr (True, d2))))"

definition revoke_all_sessions ::
  "(string \<Rightarrow> string) \<Rightarrow> int \<Rightarrow> string \<Rightarrow> string \<Rightarrow> string \<Rightarrow> string option \<Rightarrow> auth_db \<Rightarrow> auth_error + nat \<times> auth_db" where
  "revoke_all_sessions h now event_pid raw ip ua d =
    (let th = h raw in case live_session d now th of
       None \<Rightarrow> Inr (0, d)
     | Some s \<Rightarrow>
         let G = (\<lambda>x. us_principal_id x = us_principal_id s \<and> us_revoked_at x = None); n = rowcount G (sessions d) in
         attempt (update_sessions G (revoked now) d) (\<lambda>d1.
         attempt (record_security_event event_pid now ''auth.session.revoked'' ''user_session'' (take 16 th)
           (h ip) (truncate_user_agent ua) None [(''scope'', JStr ''all_sessions''), (''count'', JInt (int n))] d1)
           (\<lambda>d2. Inr (n, d2))))"

subsection \<open>Switching the organisation\<close>

definition switched :: "int \<Rightarrow> string \<Rightarrow> int \<Rightarrow> int \<Rightarrow> user_session \<Rightarrow> user_session" where
  "switched now th og ver s = s\<lparr>us_active_org := Some og, us_auth_version := Some ver, us_token_hash := th,
     us_last_active_at := now,
     us_idle_expires_at := min (now + seconds IDLE_TIMEOUT_SECONDS) (us_absolute_expires_at s)\<rparr>"

definition rotate_session :: "int \<Rightarrow> string \<Rightarrow> int \<Rightarrow> int \<Rightarrow> user_session \<Rightarrow> auth_db \<Rightarrow> auth_error + auth_db" where
  "rotate_session now th og ver s d =
    attempt (require_all (session_fits d (filter (\<lambda>x. us_id x \<noteq> us_id s) (sessions d)) (switched now th og ver s))) (\<lambda>_.
      update_sessions (\<lambda>x. us_id x = us_id s) (switched now th og ver) d)"

definition fn_auth_switch_organisation ::
  "int \<Rightarrow> string \<Rightarrow> int \<Rightarrow> string \<Rightarrow> string \<Rightarrow> auth_db \<Rightarrow> auth_error + (int \<times> string) \<times> auth_db" where
  "fn_auth_switch_organisation now th og new_th audit_pid d = (case caller_session d now th of
     None \<Rightarrow> Inl (DatabaseErr ''Unauthorized: invalid or expired session'')
   | Some s \<Rightarrow> (case (organisation_of d og, active_member d og (us_principal_id s)) of
       (Some org, Some m) \<Rightarrow>
         if \<not> og_is_active org then Inl (DatabaseErr ''Target organisation not found or no active membership'')
         else attempt (rotate_session now new_th og (om_auth_version m) s d) (\<lambda>d1.
           attempt (add_control_event \<lparr>ae_public_id = audit_pid, ae_organisation_id = og, ae_actor = us_principal_id s,
               ae_event_type = ''organisation.switched'', ae_subject_type = ''organisation'',
               ae_subject = og_public_id org,
               ae_metadata = (''role_code'', JStr (om_role_code m)) # policy_json\<rparr> d1)
             (\<lambda>d2. Inr ((om_auth_version m, om_role_code m), d2)))
     | _ \<Rightarrow> Inl (DatabaseErr ''Target organisation not found or no active membership'')))"

definition sqlite_switch_organisation ::
  "int \<Rightarrow> string \<Rightarrow> int \<Rightarrow> string \<Rightarrow> auth_db \<Rightarrow> auth_error + (int \<times> string) \<times> auth_db" where
  "sqlite_switch_organisation now th og new_th d = (case live_session d now th of
     None \<Rightarrow> Inl (RuntimeErr ''Unauthorized: invalid or expired session'')
   | Some s \<Rightarrow> (case (active_organisation d og, active_member d og (us_principal_id s)) of
       (True, Some m) \<Rightarrow> attempt (rotate_session now new_th og (om_auth_version m) s d)
         (\<lambda>d1. Inr ((om_auth_version m, om_role_code m), d1))
     | _ \<Rightarrow> Inl (RuntimeErr ''Target organisation not found or no active membership'')))"

definition switch_organisation ::
  "dialect \<Rightarrow> (string \<Rightarrow> string) \<Rightarrow> int \<Rightarrow> string \<Rightarrow> string \<Rightarrow> string \<Rightarrow> int \<Rightarrow> auth_db \<Rightarrow>
   auth_error + (string \<times> int \<times> string) \<times> auth_db" where
  "switch_organisation dia h now tok audit_pid raw og d =
    attempt (case dia of
        Postgres \<Rightarrow> fn_auth_switch_organisation now (h raw) og (h tok) audit_pid d
      | Sqlite \<Rightarrow> sqlite_switch_organisation now (h raw) og (h tok) d)
      (\<lambda>(vr, d'). Inr ((tok, vr), d'))"

end
