(* ===== verification/ControlPlane.thy ===== *)
theory ControlPlane
  imports Sessions
begin

section \<open>Organisations, memberships and invitations: \<open>auth/service.py\<close>\<close>

text \<open>
  The operations of \<open>ControlPlaneService\<close>, with the functions of the migration on PostgreSQL and the
  fallbacks on SQLite. The caller is identified by the raw token of its session only. A row lock on the
  organisation makes each mutation of PostgreSQL one atomic step; errors of the functions called through
  \<open>_exec_control_plane_fn\<close> become \<open>RuntimeError\<close>s with the server's message.
\<close>

definition INVITATION_TTL_DAYS :: int where "INVITATION_TTL_DAYS = 7"

definition exec_control_plane_fn :: "auth_error + 'a \<Rightarrow> auth_error + 'a" where
  "exec_control_plane_fn r = map_sum (\<lambda>e. case e of
     DatabaseErr m \<Rightarrow> RuntimeErr m | Violation v \<Rightarrow> RuntimeErr (server_message v) | RuntimeErr m \<Rightarrow> RuntimeErr m) id r"

definition control_event ::
  "string \<Rightarrow> int \<Rightarrow> int \<Rightarrow> string \<Rightarrow> string \<Rightarrow> string \<Rightarrow> (string \<times> json) list \<Rightarrow> control_event" where
  "control_event pid og actor event_type subject_type subject details =
    \<lparr>ae_public_id = pid, ae_organisation_id = og, ae_actor = actor, ae_event_type = event_type,
     ae_subject_type = subject_type, ae_subject = subject, ae_metadata = details @ policy_json\<rparr>"

subsection \<open>Organisations\<close>

definition insert_organisation :: "organisation_row \<Rightarrow> auth_db \<Rightarrow> auth_error + auth_db" where
  "insert_organisation og d =
    attempt (require_all [(og_public_id og \<notin> og_public_id ` set (organisations d), Unique_Key ''organisations_public_id_key'')])
      (\<lambda>_. Inr (d\<lparr>organisations := organisations d @ [og]\<rparr>))"

definition new_membership :: "auth_db \<Rightarrow> int \<Rightarrow> string \<Rightarrow> int \<Rightarrow> int \<Rightarrow> string \<Rightarrow> org_membership" where
  "new_membership d now pid og p role =
    \<lparr>om_id = fresh_id (map om_id (org_memberships d)), om_public_id = pid, om_organisation_id = og, om_principal_id = p,
     om_role_code = role, om_status = ''active'', om_auth_version = 1, om_created_at = now\<rparr>"

text \<open>The body both dialects share once the caller is known.\<close>

definition found_organisation ::
  "int \<Rightarrow> string \<Rightarrow> string \<Rightarrow> string \<Rightarrow> string \<Rightarrow> string \<Rightarrow> user_session \<Rightarrow> auth_db \<Rightarrow> auth_error + (int \<times> string) \<times> auth_db" where
  "found_organisation now name org_pid mem_pid audit1 audit2 s d =
    (let og = fresh_id (map og_id (organisations d)) in
     attempt (insert_organisation \<lparr>og_id = og, og_public_id = org_pid, og_name = name, og_is_active = True\<rparr> d) (\<lambda>d1.
     attempt (insert_membership (new_membership d now mem_pid og (us_principal_id s) ''owner'') d1) (\<lambda>d2.
     attempt (add_control_event (control_event audit1 og (us_principal_id s) ''organisation.created'' ''organisation''
       org_pid [(''name'', JStr name)]) d2) (\<lambda>d3.
     attempt (add_control_event (control_event audit2 og (us_principal_id s) ''membership.assigned''
       ''organisation_membership'' mem_pid [(''role'', JStr ''owner'')]) d3) (\<lambda>d4.
       Inr ((og, org_pid), d4))))))"

definition fn_org_create ::
  "int \<Rightarrow> string \<Rightarrow> string \<Rightarrow> string \<Rightarrow> string \<Rightarrow> string \<Rightarrow> string \<Rightarrow> auth_db \<Rightarrow> auth_error + (int \<times> string) \<times> auth_db" where
  "fn_org_create now th name org_pid mem_pid audit1 audit2 d = (case caller_session d now th of
     None \<Rightarrow> Inl (DatabaseErr ''Unauthorized: invalid or expired session'')
   | Some s \<Rightarrow> found_organisation now name org_pid mem_pid audit1 audit2 s d)"

definition create_organisation ::
  "dialect \<Rightarrow> (string \<Rightarrow> string) \<Rightarrow> int \<Rightarrow> string \<Rightarrow> string \<Rightarrow> string \<Rightarrow> string \<Rightarrow> string \<Rightarrow> string \<Rightarrow> auth_db \<Rightarrow>
   auth_error + (int \<times> string) \<times> auth_db" where
  "create_organisation dia h now raw name org_pid mem_pid audit1 audit2 d = (case dia of
     Postgres \<Rightarrow> fn_org_create now (h raw) name org_pid mem_pid audit1 audit2 d
   | Sqlite \<Rightarrow> (case caller_session d now (h raw) of
       None \<Rightarrow> Inl (RuntimeErr ''Unauthorized: invalid or expired session'')
     | Some s \<Rightarrow> found_organisation now name org_pid mem_pid audit1 audit2 s d))"

record org_list_item =
  ol_org_id :: int
  ol_org_public_id :: string
  ol_org_name :: string
  ol_role_code :: string
  ol_membership_status :: string

definition org_items :: "auth_db \<Rightarrow> int \<Rightarrow> org_list_item list" where
  "org_items d p = List.map_filter (\<lambda>m. case find (\<lambda>o'. og_id o' = om_organisation_id m \<and> og_is_active o') (organisations d) of
       None \<Rightarrow> None
     | Some o' \<Rightarrow> Some \<lparr>ol_org_id = og_id o', ol_org_public_id = og_public_id o', ol_org_name = og_name o',
         ol_role_code = om_role_code m, ol_membership_status = om_status m\<rparr>)
     (filter (\<lambda>m. om_principal_id m = p) (org_memberships d))"

text \<open>PostgreSQL sorts the names by its collation, a key given as \<open>coll\<close>; Python by code points.\<close>

definition list_organisations ::
  "(string \<Rightarrow> string) \<Rightarrow> dialect \<Rightarrow> (string \<Rightarrow> string) \<Rightarrow> int \<Rightarrow> string \<Rightarrow> auth_db \<Rightarrow> org_list_item list" where
  "list_organisations coll dia h now raw d = (case caller_session d now (h raw) of
     None \<Rightarrow> []
   | Some s \<Rightarrow> sort_key (\<lambda>i. case dia of Postgres \<Rightarrow> coll (ol_org_name i) | Sqlite \<Rightarrow> ol_org_name i)
       (org_items d (us_principal_id s)))"

subsection \<open>Memberships\<close>

record member_item =
  ml_membership_public_id :: string
  ml_principal_public_id :: string
  ml_email :: string
  ml_display_name :: string
  ml_role_code :: string
  ml_status :: string
  ml_auth_version :: int
  ml_created_at :: int

definition member_items :: "auth_db \<Rightarrow> int \<Rightarrow> member_item list" where
  "member_items d og = List.map_filter (\<lambda>m. map_option (\<lambda>p. \<lparr>ml_membership_public_id = om_public_id m,
       ml_principal_public_id = pr_public_id p, ml_email = pr_email p, ml_display_name = pr_display_name p,
       ml_role_code = om_role_code m, ml_status = om_status m, ml_auth_version = om_auth_version m,
       ml_created_at = om_created_at m\<rparr>) (principal_of d (om_principal_id m)))
     (sort_key om_created_at (filter (\<lambda>m. om_organisation_id m = og) (org_memberships d)))"

definition list_memberships :: "dialect \<Rightarrow> (string \<Rightarrow> string) \<Rightarrow> int \<Rightarrow> string \<Rightarrow> auth_db \<Rightarrow> auth_error + member_item list" where
  "list_memberships dia h now raw d =
    (let err = (case dia of Postgres \<Rightarrow> DatabaseErr | Sqlite \<Rightarrow> RuntimeErr) in
     case caller_session d now (h raw) of
       None \<Rightarrow> Inl (err ''Unauthorized: session not found or no active organisation'')
     | Some s \<Rightarrow> (case us_active_org s of
         None \<Rightarrow> Inl (err ''Unauthorized: session not found or no active organisation'')
       | Some og \<Rightarrow> if dia = Postgres \<and> active_member d og (us_principal_id s) = None
           then Inl (err ''Unauthorized: not an active member of organisation'')
           else Inr (member_items d og)))"

definition active_owner :: "int \<Rightarrow> org_membership \<Rightarrow> bool" where
  "active_owner og m \<longleftrightarrow> om_organisation_id m = og \<and> om_role_code m = ''owner'' \<and> om_status m = ''active''"

text \<open>What follows once the actor and its role are known: the guards in order, then the writes.\<close>

definition mutate_guards ::
  "(string \<Rightarrow> auth_error) \<Rightarrow> int \<Rightarrow> int \<Rightarrow> string \<Rightarrow> int \<Rightarrow> string \<Rightarrow> string \<Rightarrow> auth_db \<Rightarrow> auth_error + org_membership" where
  "mutate_guards err og actor role target n_role n_status d =
    (if role \<notin> {''owner'', ''admin''} then Inl (err ''Forbidden: only owners and admins may modify memberships'')
     else if actor = target then Inl (err ''Forbidden: users cannot modify their own membership role or status'')
     else case membership_of d og target of
       None \<Rightarrow> Inl (err ''Target member not found in organisation'')
     | Some m \<Rightarrow>
         if role = ''admin'' \<and> (om_role_code m = ''owner'' \<or> n_role = ''owner'')
           then Inl (err ''Forbidden: administrators cannot alter or assign owner roles'')
         else if om_role_code m = ''owner'' \<and> om_status m = ''active'' \<and> (n_role \<noteq> ''owner'' \<or> n_status \<noteq> ''active'')
             \<and> rowcount (active_owner og) (org_memberships d) \<le> 1
           then Inl (err (''Cannot demote or remove the last active owner of organisation '' @ str_int og))
         else Inr m)"

definition mutate_writes ::
  "int \<Rightarrow> string \<Rightarrow> int \<Rightarrow> int \<Rightarrow> int \<Rightarrow> string \<Rightarrow> string \<Rightarrow> (string \<times> json) list \<Rightarrow> org_membership \<Rightarrow> auth_db \<Rightarrow>
   auth_error + (int \<times> string \<times> string \<times> int) \<times> auth_db" where
  "mutate_writes now audit_pid og actor target n_role n_status details m d =
    attempt (update_membership (om_id m)
        (\<lambda>x. x\<lparr>om_role_code := n_role, om_status := n_status, om_auth_version := om_auth_version m + 1\<rparr>) d) (\<lambda>d1.
    attempt (update_sessions (\<lambda>s. us_principal_id s = target \<and> us_active_org s = Some og \<and> us_revoked_at s = None)
        (revoked now) d1) (\<lambda>d2.
    attempt (add_control_event (control_event audit_pid og actor
        (if n_status \<noteq> ''active'' then ''membership.suspended'' else ''membership.role_changed'')
        ''organisation_membership'' (om_public_id m) details) d2) (\<lambda>d3.
      Inr ((om_id m, n_role, n_status, om_auth_version m + 1), d3))))"

text \<open>The actor that PostgreSQL accepts: live, active, in an active organisation and not stale.\<close>

definition fresh_actor :: "auth_db \<Rightarrow> int \<Rightarrow> string \<Rightarrow> int \<Rightarrow> (user_session \<times> org_membership) option" where
  "fresh_actor d now th og = (case caller_session d now th of
     None \<Rightarrow> None
   | Some s \<Rightarrow> (case active_member d og (us_principal_id s) of
       None \<Rightarrow> None
     | Some m \<Rightarrow> if us_active_org s = Some og \<and> active_organisation d og \<and> us_auth_version s = Some (om_auth_version m)
         then Some (s, m) else None))"

definition fn_membership_mutate_with_mutex ::
  "int \<Rightarrow> string \<Rightarrow> int \<Rightarrow> string \<Rightarrow> string \<Rightarrow> string \<Rightarrow> auth_db \<Rightarrow> auth_error + (int \<times> string \<times> string \<times> int) \<times> auth_db" where
  "fn_membership_mutate_with_mutex now th target n_role n_status audit_pid d =
    (case Option.bind (session_of d th) us_active_org of
       None \<Rightarrow> Inl (DatabaseErr ''Unauthorized: session not found or no active organisation'')
     | Some og \<Rightarrow> (case fresh_actor d now th og of
         None \<Rightarrow> Inl (DatabaseErr ''Unauthorized: invalid, expired, or stale session'')
       | Some (s, a) \<Rightarrow>
           attempt (mutate_guards DatabaseErr og (us_principal_id s) (om_role_code a) target n_role n_status d) (\<lambda>m.
             mutate_writes now audit_pid og (us_principal_id s) target n_role n_status
               [(''target_principal_id'', JInt target), (''previous_role'', JStr (om_role_code m)),
                (''new_role'', JStr n_role)] m d)))"

text \<open>The session and the active organisation that the SQLite fallbacks start from.\<close>

definition org_session :: "auth_db \<Rightarrow> int \<Rightarrow> string \<Rightarrow> (user_session \<times> int) option" where
  "org_session d now th = Option.bind (caller_session d now th) (\<lambda>s. map_option (\<lambda>og. (s, og)) (us_active_org s))"

definition sqlite_mutate_membership ::
  "int \<Rightarrow> string \<Rightarrow> int \<Rightarrow> string \<Rightarrow> string \<Rightarrow> string \<Rightarrow> auth_db \<Rightarrow> auth_error + (int \<times> string \<times> string \<times> int) \<times> auth_db" where
  "sqlite_mutate_membership now th target n_role n_status audit_pid d = (case org_session d now th of
     None \<Rightarrow> Inl (RuntimeErr ''Unauthorized: session not found or no active organisation'')
   | Some (s, og) \<Rightarrow> (case active_member d og (us_principal_id s) of
       None \<Rightarrow> Inl (RuntimeErr ''Forbidden: only owners and admins may modify memberships'')
     | Some a \<Rightarrow>
         attempt (mutate_guards RuntimeErr og (us_principal_id s) (om_role_code a) target n_role n_status d) (\<lambda>m.
           mutate_writes now audit_pid og (us_principal_id s) target n_role n_status
             [(''target_principal_id'', JInt target), (''new_role'', JStr n_role)] m d)))"

definition mutate_membership ::
  "dialect \<Rightarrow> (string \<Rightarrow> string) \<Rightarrow> int \<Rightarrow> string \<Rightarrow> int \<Rightarrow> string \<Rightarrow> string \<Rightarrow> string \<Rightarrow> auth_db \<Rightarrow>
   auth_error + (int \<times> string \<times> string \<times> int) \<times> auth_db" where
  "mutate_membership dia h now raw target n_role n_status audit_pid d = (case dia of
     Postgres \<Rightarrow> exec_control_plane_fn (fn_membership_mutate_with_mutex now (h raw) target n_role n_status audit_pid d)
   | Sqlite \<Rightarrow> sqlite_mutate_membership now (h raw) target n_role n_status audit_pid d)"


subsection \<open>Invitations\<close>

text \<open>The actor of the PostgreSQL invitation functions: a live session with an active membership in its organisation.\<close>

definition member_actor :: "auth_db \<Rightarrow> int \<Rightarrow> string \<Rightarrow> (user_session \<times> int \<times> org_membership) option" where
  "member_actor d now th = (case org_session d now th of
     None \<Rightarrow> None
   | Some (s, og) \<Rightarrow> map_option (\<lambda>m. (s, og, m)) (active_member d og (us_principal_id s)))"

text \<open>The actor of either dialect, with the exceptions each raises; \<open>forbidden\<close> is the message for other roles.\<close>

definition invitation_actor ::
  "dialect \<Rightarrow> string \<Rightarrow> int \<Rightarrow> string \<Rightarrow> auth_db \<Rightarrow> auth_error + user_session \<times> int \<times> org_membership" where
  "invitation_actor dia forbidden now th d =
    (let err = (case dia of Postgres \<Rightarrow> DatabaseErr | Sqlite \<Rightarrow> RuntimeErr) in
     case org_session d now th of
       None \<Rightarrow> Inl (err ''Unauthorized: session not found or no active organisation'')
     | Some (s, og) \<Rightarrow> (case member_actor d now th of
         None \<Rightarrow> Inl (err (case dia of Postgres \<Rightarrow> ''Unauthorized: session not found or no active organisation''
             | Sqlite \<Rightarrow> forbidden))
       | Some (s, og, m) \<Rightarrow>
           if om_role_code m \<notin> {''owner'', ''admin''} then Inl (err forbidden) else Inr (s, og, m)))"

text \<open>Whether an active member has the address: the join of PostgreSQL, the first principal of SQLite.\<close>

definition already_member :: "dialect \<Rightarrow> int \<Rightarrow> string \<Rightarrow> auth_db \<Rightarrow> bool" where
  "already_member dia og addr d = (case dia of
     Postgres \<Rightarrow> list_ex (\<lambda>m. om_organisation_id m = og \<and> om_status m = ''active''
       \<and> list_ex (\<lambda>p. pr_id p = om_principal_id m \<and> py_lower (pr_email p) = addr) (principals d)) (org_memberships d)
   | Sqlite \<Rightarrow> (case find (\<lambda>p. pr_email p = addr) (principals d) of
       None \<Rightarrow> False | Some p \<Rightarrow> active_member d og (pr_id p) \<noteq> None))"

definition normalised_email :: "dialect \<Rightarrow> string \<Rightarrow> string" where
  "normalised_email dia email = (case dia of Postgres \<Rightarrow> py_lower (sql_trim email) | Sqlite \<Rightarrow> py_strip (py_lower email))"

definition insert_pending_invitation ::
  "int \<Rightarrow> string \<Rightarrow> string \<Rightarrow> string \<Rightarrow> int \<Rightarrow> string \<Rightarrow> string \<Rightarrow> user_session \<Rightarrow> int \<Rightarrow> auth_db \<Rightarrow> auth_error + auth_db" where
  "insert_pending_invitation now inv_pid audit_pid inv_th expires addr role s og d =
    attempt (insert_invitation \<lparr>iv_id = fresh_id (map iv_id (invitations d)), iv_public_id = inv_pid,
        iv_organisation_id = og, iv_invited_by = us_principal_id s, iv_email = addr, iv_role_code = role,
        iv_token_hash = inv_th, iv_status = ''pending'', iv_expires_at = expires, iv_accepted_at = None,
        iv_revoked_at = None, iv_created_at = now\<rparr> d) (\<lambda>d1.
      add_control_event (control_event audit_pid og (us_principal_id s) ''invitation.created''
        ''organisation_invitation'' inv_pid [(''role'', JStr role)]) d1)"

definition create_invitation ::
  "dialect \<Rightarrow> (string \<Rightarrow> string) \<Rightarrow> int \<Rightarrow> string \<Rightarrow> string \<Rightarrow> string \<Rightarrow> string \<Rightarrow> string \<Rightarrow> string \<Rightarrow> auth_db \<Rightarrow>
   auth_error + (string \<times> string \<times> string) \<times> auth_db" where
  "create_invitation dia h now inv_tok inv_pid audit_pid raw email role d =
    (let err = (case dia of Postgres \<Rightarrow> DatabaseErr | Sqlite \<Rightarrow> RuntimeErr); addr = normalised_email dia email;
         expires = now + seconds (INVITATION_TTL_DAYS * 86400) in
     attempt (invitation_actor dia ''Forbidden: only owners and admins may invite members'' now (h raw) d) (\<lambda>(s, og, m).
       if om_role_code m = ''admin'' \<and> role = ''owner''
         then Inl (err ''Forbidden: administrators cannot invite owners'')
       else if dia = Postgres \<and> role \<notin> set ROLE_CODES then Inl (err (''Invalid role code: '' @ role))
       else if already_member dia og addr d
         then Inl (err (''User with email '' @ email @ '' is already an active member of this organisation''))
       else attempt (insert_pending_invitation now inv_pid audit_pid (h inv_tok) expires addr role s og d)
         (\<lambda>d'. Inr ((inv_tok, inv_pid, py_strip (py_lower email)), d'))))"

record invitation_details =
  vd_invitation_id :: int
  vd_public_id :: string
  vd_organisation_name :: string
  vd_email :: string
  vd_role_code :: string
  vd_status :: string
  vd_is_expired :: bool

definition invitation_of :: "auth_db \<Rightarrow> string \<Rightarrow> invitation option" where
  "invitation_of d th = find (\<lambda>i. iv_token_hash i = th) (invitations d)"

definition lookup_invitation :: "dialect \<Rightarrow> (string \<Rightarrow> string) \<Rightarrow> int \<Rightarrow> string \<Rightarrow> auth_db \<Rightarrow> invitation_details option" where
  "lookup_invitation dia h now raw d = (case invitation_of d (h raw) of
     None \<Rightarrow> None
   | Some i \<Rightarrow> (case organisation_of d (iv_organisation_id i) of
       None \<Rightarrow> if dia = Postgres then None else Some \<lparr>vd_invitation_id = iv_id i, vd_public_id = iv_public_id i,
         vd_organisation_name = [], vd_email = iv_email i, vd_role_code = iv_role_code i, vd_status = iv_status i,
         vd_is_expired = (iv_expires_at i \<le> now)\<rparr>
     | Some og \<Rightarrow> Some \<lparr>vd_invitation_id = iv_id i, vd_public_id = iv_public_id i,
         vd_organisation_name = og_name og, vd_email = iv_email i, vd_role_code = iv_role_code i, vd_status = iv_status i,
         vd_is_expired = (iv_expires_at i \<le> now)\<rparr>))"

definition accepted_now :: "int \<Rightarrow> invitation \<Rightarrow> invitation" where
  "accepted_now now i = i\<lparr>iv_status := ''accepted'', iv_accepted_at := Some now\<rparr>"

definition accept_writes ::
  "int \<Rightarrow> string \<Rightarrow> string \<Rightarrow> string \<Rightarrow> int \<Rightarrow> invitation \<Rightarrow> auth_db \<Rightarrow> auth_error + (int \<times> int \<times> string) \<times> auth_db" where
  "accept_writes now mem_pid audit1 audit2 p i d =
    attempt (update_invitation (iv_id i) (accepted_now now) d) (\<lambda>d1.
    let m = new_membership d1 now mem_pid (iv_organisation_id i) p (iv_role_code i) in
    attempt (insert_membership m d1) (\<lambda>d2.
    attempt (add_control_event (control_event audit1 (iv_organisation_id i) p ''invitation.accepted''
      ''organisation_invitation'' (iv_public_id i) [(''accepted_by_principal_id'', JInt p)]) d2) (\<lambda>d3.
    attempt (add_control_event (control_event audit2 (iv_organisation_id i) p ''membership.assigned''
      ''organisation_membership'' mem_pid [(''role'', JStr (iv_role_code i))]) d3) (\<lambda>d4.
      Inr ((om_id m, iv_organisation_id i, iv_role_code i), d4)))))"

definition fn_invitation_accept_with_mutex ::
  "int \<Rightarrow> string \<Rightarrow> string \<Rightarrow> string \<Rightarrow> string \<Rightarrow> string \<Rightarrow> auth_db \<Rightarrow> auth_error + (int \<times> int \<times> string) \<times> auth_db" where
  "fn_invitation_accept_with_mutex now th inv_th mem_pid audit1 audit2 d = (case caller_session d now th of
     None \<Rightarrow> Inl (DatabaseErr ''Unauthorized: invalid or expired session'')
   | Some s \<Rightarrow> (case invitation_of d inv_th of
       None \<Rightarrow> Inl (DatabaseErr ''Invitation not found'')
     | Some i \<Rightarrow>
         if iv_status i \<noteq> ''pending'' \<or> iv_expires_at i \<le> now
           then Inl (DatabaseErr ''Invitation is no longer pending or has expired'')
         else (case principal_of d (us_principal_id s) of
             Some p \<Rightarrow>
               if py_lower (sql_trim (iv_email i)) \<noteq> py_lower (sql_trim (pr_email p))
                 then Inl (DatabaseErr ''Invitation email does not match authenticated user'')
               else accept_writes now mem_pid audit1 audit2 (us_principal_id s) i d
           | None \<Rightarrow> Inl (DatabaseErr ''Unauthorized: invalid or expired session''))))"

definition sqlite_accept_invitation ::
  "int \<Rightarrow> string \<Rightarrow> string \<Rightarrow> string \<Rightarrow> string \<Rightarrow> string \<Rightarrow> auth_db \<Rightarrow> auth_error + (int \<times> int \<times> string) \<times> auth_db" where
  "sqlite_accept_invitation now th inv_th mem_pid audit1 audit2 d = (case caller_session d now th of
     None \<Rightarrow> Inl (RuntimeErr ''Unauthorized: invalid or expired session'')
   | Some s \<Rightarrow> (case invitation_of d inv_th of
       None \<Rightarrow> Inl (RuntimeErr ''Invitation not found, expired, or already accepted'')
     | Some i \<Rightarrow>
         if iv_status i \<noteq> ''pending'' \<or> iv_expires_at i \<le> now
           then Inl (RuntimeErr ''Invitation not found, expired, or already accepted'')
         else (case principal_of d (us_principal_id s) of
             Some p \<Rightarrow>
               if py_strip (py_lower (pr_email p)) \<noteq> py_strip (py_lower (iv_email i))
                 then Inl (RuntimeErr ''Invitation email does not match authenticated user'')
               else accept_writes now mem_pid audit1 audit2 (us_principal_id s) i d
           | None \<Rightarrow> Inl (RuntimeErr ''Unauthorized: invalid or expired session''))))"

definition accept_invitation ::
  "dialect \<Rightarrow> (string \<Rightarrow> string) \<Rightarrow> int \<Rightarrow> string \<Rightarrow> string \<Rightarrow> string \<Rightarrow> string \<Rightarrow> string \<Rightarrow> auth_db \<Rightarrow>
   auth_error + (int \<times> int \<times> string) \<times> auth_db" where
  "accept_invitation dia h now raw inv_raw mem_pid audit1 audit2 d = (case dia of
     Postgres \<Rightarrow> exec_control_plane_fn (fn_invitation_accept_with_mutex now (h raw) (h inv_raw) mem_pid audit1 audit2 d)
   | Sqlite \<Rightarrow> sqlite_accept_invitation now (h raw) (h inv_raw) mem_pid audit1 audit2 d)"

definition revoked_now :: "int \<Rightarrow> invitation \<Rightarrow> invitation" where
  "revoked_now now i = i\<lparr>iv_status := ''revoked'', iv_revoked_at := Some now\<rparr>"

text \<open>The pending invitation of the organisation with the public id: public ids are unique.\<close>

definition revocable :: "auth_db \<Rightarrow> int \<Rightarrow> string \<Rightarrow> invitation option" where
  "revocable d og pid = find (\<lambda>i. iv_public_id i = pid \<and> iv_organisation_id i = og \<and> iv_status i = ''pending'') (invitations d)"

definition revoke_invitation ::
  "dialect \<Rightarrow> (string \<Rightarrow> string) \<Rightarrow> int \<Rightarrow> string \<Rightarrow> string \<Rightarrow> string \<Rightarrow> auth_db \<Rightarrow> auth_error + bool \<times> auth_db" where
  "revoke_invitation dia h now raw inv_pid audit_pid d =
    attempt (invitation_actor dia ''Forbidden: only owners and admins may revoke invitations'' now (h raw) d) (\<lambda>(s, og, m).
      case revocable d og inv_pid of
        None \<Rightarrow> Inr (False, d)
      | Some i \<Rightarrow> attempt (update_invitation (iv_id i) (revoked_now now) d) (\<lambda>d1.
          attempt (add_control_event (control_event audit_pid og (us_principal_id s) ''invitation.revoked''
            ''organisation_invitation'' (iv_public_id i) []) d1) (\<lambda>d2. Inr (True, d2))))"

record invitation_item =
  vl_public_id :: string
  vl_email :: string
  vl_role_code :: string
  vl_status :: string
  vl_expires_at :: int
  vl_created_at :: int

definition list_invitations :: "dialect \<Rightarrow> (string \<Rightarrow> string) \<Rightarrow> int \<Rightarrow> string \<Rightarrow> auth_db \<Rightarrow> auth_error + invitation_item list" where
  "list_invitations dia h now raw d =
    attempt (invitation_actor dia ''Forbidden: only owners and admins may view invitations'' now (h raw) d) (\<lambda>(s, og, m).
      Inr (map (\<lambda>i. \<lparr>vl_public_id = iv_public_id i, vl_email = iv_email i, vl_role_code = iv_role_code i,
          vl_status = iv_status i, vl_expires_at = iv_expires_at i, vl_created_at = iv_created_at i\<rparr>)
        (sort_key (\<lambda>i. - iv_created_at i) (filter (\<lambda>i. iv_organisation_id i = og) (invitations d)))))"

end
