(* ===== verification/AuthSafety.thy ===== *)
theory AuthSafety
  imports ControlPlane
begin

section \<open>The session machine and what no operation can do\<close>

text \<open>
  The control-plane operations as one alphabet, run in the order of their clocks; an operation that
  raises leaves the database as it was. The relation \<open>sess_step\<close> is the abstract session machine (a
  session is created, touched while live, revoked, or moved to a new token while live) and every
  operation is proved to take one of its steps; the safety of sessions is proved on the machine.
\<close>

datatype auth_op =
    Create_Session string string string int "int option" string "string option"
  | Touch string int int
  | Revoke string string string "string option"
  | Revoke_All string string string "string option"
  | Switch string string string int
  | Create_Org string string string string string string
  | Mutate string int string string string
  | Invite string string string string string string
  | Accept string string string string string
  | Withdraw string string string

definition committed :: "auth_error + 'a \<times> auth_db \<Rightarrow> auth_db \<Rightarrow> auth_db" where
  "committed r d = (case r of Inl _ \<Rightarrow> d | Inr (_, d') \<Rightarrow> d')"

fun auth_exec :: "dialect \<Rightarrow> (string \<Rightarrow> string) \<Rightarrow> int \<Rightarrow> auth_op \<Rightarrow> auth_db \<Rightarrow> auth_db" where
  "auth_exec dia h now (Create_Session tok pid ev p og ip ua) d = committed (create_session dia h now tok pid ev p og ip ua d) d"
| "auth_exec dia h now (Touch raw window throttle) d = committed (touch_session_throttled dia h now raw window throttle d) d"
| "auth_exec dia h now (Revoke ev raw ip ua) d = committed (revoke_session h now ev raw ip ua d) d"
| "auth_exec dia h now (Revoke_All ev raw ip ua) d = committed (revoke_all_sessions h now ev raw ip ua d) d"
| "auth_exec dia h now (Switch tok audit raw og) d = committed (switch_organisation dia h now tok audit raw og d) d"
| "auth_exec dia h now (Create_Org raw name op mp a1 a2) d = committed (create_organisation dia h now raw name op mp a1 a2 d) d"
| "auth_exec dia h now (Mutate raw target role st audit) d = committed (mutate_membership dia h now raw target role st audit d) d"
| "auth_exec dia h now (Invite tok pid audit raw email role) d = committed (create_invitation dia h now tok pid audit raw email role d) d"
| "auth_exec dia h now (Accept raw iraw mp a1 a2) d = committed (accept_invitation dia h now raw iraw mp a1 a2 d) d"
| "auth_exec dia h now (Withdraw raw pid audit) d = committed (revoke_invitation dia h now raw pid audit d) d"

fun auth_run :: "dialect \<Rightarrow> (string \<Rightarrow> string) \<Rightarrow> (int \<times> auth_op) list \<Rightarrow> auth_db \<Rightarrow> auth_db" where
  "auth_run dia h [] d = d"
| "auth_run dia h ((now, op) # es) d = auth_run dia h es (auth_exec dia h now op d)"

subsection \<open>What the statements change\<close>

lemma insert_session_Inr [store_simps]:
  "insert_session s d = Inr d' \<longleftrightarrow> (\<forall>c \<in> set (session_fits d (sessions d) s). fst c) \<and> d' = d\<lparr>sessions := sessions d @ [s]\<rparr>"
  by (auto simp: insert_session_def store_simps)

lemma insert_membership_Inr [store_simps]:
  "insert_membership m d = Inr d' \<longleftrightarrow> (\<forall>c \<in> set (membership_fits d (org_memberships d) m). fst c)
     \<and> d' = d\<lparr>org_memberships := org_memberships d @ [m]\<rparr>"
  by (auto simp: insert_membership_def store_simps)

lemma insert_invitation_Inr [store_simps]:
  "insert_invitation i d = Inr d' \<longleftrightarrow> (\<forall>c \<in> set (invitation_fits d (invitations d) i). fst c)
     \<and> d' = d\<lparr>invitations := invitations d @ [i]\<rparr>"
  by (auto simp: insert_invitation_def store_simps)

lemma insert_organisation_Inr [store_simps]:
  "insert_organisation og d = Inr d' \<longleftrightarrow> og_public_id og \<notin> og_public_id ` set (organisations d)
     \<and> d' = d\<lparr>organisations := organisations d @ [og]\<rparr>"
  by (auto simp: insert_organisation_def store_simps)

lemma update_sessions_Inr [store_simps]:
  "update_sessions P f d = Inr d' \<longleftrightarrow> (\<forall>s \<in> set (sessions d). P s \<longrightarrow> (\<forall>c \<in> set (session_checks (f s)). fst c))
     \<and> d' = d\<lparr>sessions := map (\<lambda>s. if P s then f s else s) (sessions d)\<rparr>"
  by (auto simp: update_sessions_def store_simps)

lemma update_membership_Inr [store_simps]:
  "update_membership mid f d = Inr d' \<longleftrightarrow>
     (\<forall>m \<in> set (org_memberships d). om_id m = mid \<longrightarrow>
        (\<forall>c \<in> set (membership_fits d (filter (\<lambda>x. om_id x \<noteq> mid) (org_memberships d)) (f m)). fst c))
     \<and> d' = d\<lparr>org_memberships := map (\<lambda>m. if om_id m = mid then f m else m) (org_memberships d)\<rparr>"
  by (auto simp: update_membership_def store_simps)

lemma update_invitation_Inr [store_simps]:
  "update_invitation iid f d = Inr d' \<longleftrightarrow>
     (\<forall>i \<in> set (invitations d). iv_id i = iid \<longrightarrow>
        (\<forall>c \<in> set (invitation_fits d (filter (\<lambda>x. iv_id x \<noteq> iid) (invitations d)) (f i)). fst c))
     \<and> d' = d\<lparr>invitations := map (\<lambda>i. if iv_id i = iid then f i else i) (invitations d)\<rparr>"
  by (auto simp: update_invitation_def store_simps)

lemma add_control_event_Inr [store_simps]:
  "add_control_event e d = Inr d' \<longleftrightarrow> ae_public_id e \<notin> ae_public_id ` set (control_events d)
     \<and> d' = d\<lparr>control_events := control_events d @ [e]\<rparr>"
  by (auto simp: add_control_event_def store_simps)

lemma record_security_event_InrD:
  "record_security_event pid now ty st sub ip ua actor details d = Inr d' \<Longrightarrow>
     \<exists>e. d' = d\<lparr>security_events := security_events d @ [e]\<rparr>"
  by (auto simp: record_security_event_def store_simps)

text \<open>A committed result is that of an operation that returned, or nothing happened.\<close>

lemma committed_cases:
  obtains "committed r d = d" | x d' where "r = Inr (x, d')" "committed r d = d'"
  by (cases r) (auto simp: committed_def)

subsection \<open>The abstract session machine\<close>

definition session_lifetime :: int where
  "session_lifetime = seconds ABSOLUTE_TIMEOUT_SECONDS"

inductive sess_step :: "int \<Rightarrow> user_session list \<Rightarrow> user_session list \<Rightarrow> bool" for now where
  sess_keep: "sess_step now ss ss"
| sess_create: "us_id s \<notin> us_id ` set ss \<Longrightarrow> us_token_hash s \<notin> us_token_hash ` set ss \<Longrightarrow>
    us_last_active_at s \<le> us_idle_expires_at s \<Longrightarrow> us_idle_expires_at s \<le> us_absolute_expires_at s \<Longrightarrow>
    us_absolute_expires_at s = us_created_at s + session_lifetime \<Longrightarrow> us_created_at s = now \<Longrightarrow>
    sess_step now ss (ss @ [s])"
| sess_touch: "(\<And>s. s \<in> set ss \<Longrightarrow> G s \<Longrightarrow> live now s \<and> us_last_active_at (touched now w s) \<le> us_idle_expires_at (touched now w s)) \<Longrightarrow>
    sess_step now ss (map (\<lambda>s. if G s then touched now w s else s) ss)"
| sess_revoke: "sess_step now ss (map (\<lambda>s. if G s then revoked now s else s) ss)"
| sess_switch: "s \<in> set ss \<Longrightarrow> live now s \<Longrightarrow> th \<notin> us_token_hash ` set (filter (\<lambda>x. us_id x \<noteq> us_id s) ss) \<Longrightarrow>
    us_last_active_at (switched now th og v s) \<le> us_idle_expires_at (switched now th og v s) \<Longrightarrow>
    sess_step now ss (map (\<lambda>x. if us_id x = us_id s then switched now th og v x else x) ss)"

lemma session_fits_unique:
  "(\<forall>c \<in> set (session_fits d others s). fst c) \<Longrightarrow> us_token_hash s \<notin> us_token_hash ` set others
     \<and> us_last_active_at s \<le> us_idle_expires_at s \<and> us_idle_expires_at s \<le> us_absolute_expires_at s"
  by (simp add: session_fits_def session_checks_def)

lemma sess_step_create:
  assumes "create_session dia h now tok pid ev p og ip ua d = Inr (x, d')"
  shows "sess_step now (sessions d) (sessions d')"
proof -
  let ?idle = "now + seconds IDLE_TIMEOUT_SECONDS" and ?abs = "now + seconds ABSOLUTE_TIMEOUT_SECONDS"
  obtain d1 where d1: "(case dia of Postgres \<Rightarrow> fn_auth_create_session | Sqlite \<Rightarrow> sqlite_create_session)
      now pid p (h tok) og (h ip) (truncate_user_agent ua) ?idle ?abs d = Inr d1" "sessions d' = sessions d1"
    using assms by (auto simp: create_session_def Let_def store_simps split: option.split_asm dest!: record_security_event_InrD)
  have "\<exists>og' ver idle. insert_session (new_session d now pid (h tok) p og' ver (h ip) (truncate_user_agent ua) idle ?abs) d = Inr d1"
    using d1(1) by (cases dia) (auto simp: fn_auth_create_session_def sqlite_create_session_def split: if_split_asm option.split_asm)
  then obtain og' ver idle where ins: "insert_session (new_session d now pid (h tok) p og' ver (h ip) (truncate_user_agent ua) idle ?abs) d = Inr d1"
    by blast
  let ?s = "new_session d now pid (h tok) p og' ver (h ip) (truncate_user_agent ua) idle ?abs"
  have "us_id ?s \<notin> us_id ` set (sessions d)"
    using fresh_id_notin [of "map us_id (sessions d)"] by (simp add: new_session_def)
  moreover have "us_token_hash ?s \<notin> us_token_hash ` set (sessions d)" "us_last_active_at ?s \<le> us_idle_expires_at ?s"
      "us_idle_expires_at ?s \<le> us_absolute_expires_at ?s" "sessions d1 = sessions d @ [?s]"
    using ins session_fits_unique [of d "sessions d" ?s] by (simp_all add: insert_session_Inr)
  ultimately show ?thesis
    unfolding d1(2) by (simp only:) (rule sess_create, simp_all add: new_session_def session_lifetime_def)
qed

lemma sess_step_touch:
  assumes "touch_session_throttled dia h now raw w th d = Inr (x, d')"
  shows "sess_step now (sessions d) (sessions d')"
  using assms by (auto simp: touch_session_throttled_def Let_def store_simps touch_guard_def session_checks_def intro!: sess_touch)

lemma sess_step_revoke:
  assumes "revoke_session h now ev raw ip ua d = Inr (x, d')"
  shows "sess_step now (sessions d) (sessions d')"
  using assms by (auto simp: revoke_session_def Let_def store_simps intro: sess_keep sess_revoke
      split: if_split_asm dest!: record_security_event_InrD)

lemma sess_step_revoke_all:
  assumes "revoke_all_sessions h now ev raw ip ua d = Inr (x, d')"
  shows "sess_step now (sessions d) (sessions d')"
  using assms by (auto simp: revoke_all_sessions_def Let_def store_simps intro: sess_keep sess_revoke
      split: option.split_asm dest!: record_security_event_InrD)

lemma rotate_session_step:
  assumes "rotate_session now th og ver s d = Inr d'" "s \<in> set (sessions d)" "live now s"
  shows "sess_step now (sessions d) (sessions d')"
  using assms sess_switch [of s "sessions d" now th og ver]
  by (auto simp: rotate_session_def store_simps switched_def dest: session_fits_unique)

lemma sess_step_switch:
  assumes "switch_organisation dia h now tok audit raw og d = Inr (x, d')"
  shows "sess_step now (sessions d) (sessions d')"
proof -
  have "\<exists>s ver d1. s \<in> set (sessions d) \<and> live now s \<and> rotate_session now (h tok) og ver s d = Inr d1 \<and> sessions d' = sessions d1"
  proof (cases dia)
    case Postgres
    then show ?thesis
      using assms by (fastforce simp: switch_organisation_def fn_auth_switch_organisation_def caller_session_def store_simps
          split: option.split_asm if_split_asm dest: find_SomeD)
  next
    case Sqlite
    then show ?thesis
      using assms by (fastforce simp: switch_organisation_def sqlite_switch_organisation_def live_session_def store_simps
          split: option.split_asm bool.split_asm dest: find_SomeD)
  qed
  then show ?thesis using rotate_session_step by metis
qed


lemma mutate_writes_effect:
  assumes "mutate_writes now audit og actor target role st details m d = Inr (x, d')"
  shows "sessions d' = map (\<lambda>s. if us_principal_id s = target \<and> us_active_org s = Some og \<and> us_revoked_at s = None
      then revoked now s else s) (sessions d)"
    and "org_memberships d' = map (\<lambda>y. if om_id y = om_id m
      then y\<lparr>om_role_code := role, om_status := st, om_auth_version := om_auth_version m + 1\<rparr> else y) (org_memberships d)"
    and "organisations d' = organisations d" "invitations d' = invitations d" "principals d' = principals d"
    and "x = (om_id m, role, st, om_auth_version m + 1)"
  using assms by (auto simp: mutate_writes_def store_simps)

lemma exec_control_plane_fn_Inr [store_simps]: "exec_control_plane_fn r = Inr x \<longleftrightarrow> r = Inr x"
  by (cases r) (auto simp: exec_control_plane_fn_def)

text \<open>A membership mutation that returned: who acted on what, in either dialect.\<close>

lemma mutate_membership_Inr:
  assumes "mutate_membership dia h now raw target role st audit d = Inr (x, d')"
  obtains s og a m details err where "caller_session d now (h raw) = Some s"
    "us_active_org s = Some og" "active_member d og (us_principal_id s) = Some a"
    "mutate_guards err og (us_principal_id s) (om_role_code a) target role st d = Inr m"
    "mutate_writes now audit og (us_principal_id s) target role st details m d = Inr (x, d')"
proof (cases dia)
  case Postgres
  then have "fn_membership_mutate_with_mutex now (h raw) target role st audit d = Inr (x, d')"
    using assms by (simp add: mutate_membership_def store_simps)
  then show thesis
    by (auto simp: fn_membership_mutate_with_mutex_def fresh_actor_def store_simps
        split: option.split_asm if_split_asm intro: that)
next
  case Sqlite
  then show thesis
    using assms by (auto simp: mutate_membership_def sqlite_mutate_membership_def org_session_def store_simps bind_eq_Some_conv
        split: option.split_asm intro: that)
qed

lemma other_ops_keep_sessions:
  "create_organisation dia h now raw name op mp a1 a2 d = Inr (x, d') \<Longrightarrow> sessions d' = sessions d"
  "create_invitation dia h now tok pid audit raw email role d = Inr (y, d') \<Longrightarrow> sessions d' = sessions d"
  "accept_invitation dia h now raw iraw mp a1 a2 d = Inr (z, d') \<Longrightarrow> sessions d' = sessions d"
  "revoke_invitation dia h now raw pid audit d = Inr (w, d') \<Longrightarrow> sessions d' = sessions d"
  subgoal
    by (cases dia) (auto simp: create_organisation_def fn_org_create_def found_organisation_def Let_def store_simps
        split: option.split_asm)
  subgoal
    by (auto simp: create_invitation_def insert_pending_invitation_def Let_def store_simps split: if_split_asm)
  subgoal
    by (cases dia) (auto simp: accept_invitation_def fn_invitation_accept_with_mutex_def sqlite_accept_invitation_def
        accept_writes_def Let_def store_simps split: option.split_asm if_split_asm)
  subgoal
    by (auto simp: revoke_invitation_def store_simps split: option.split_asm)
  done

text \<open>Every operation takes a step of the session machine.\<close>

lemma auth_exec_sess_step: "sess_step now (sessions d) (sessions (auth_exec dia h now op d))"
proof -
  have mutate: "sess_step now (sessions d) (sessions d')"
    if "mutate_membership dia h now raw target role st audit d = Inr (x, d')" for raw target role st audit x d'
    using that by (rule mutate_membership_Inr) (simp add: mutate_writes_effect(1) sess_revoke)
  have "sess_step now (sessions d) (sessions (committed r d))"
    if "\<And>x d'. r = Inr (x, d') \<Longrightarrow> sess_step now (sessions d) (sessions d')" for r :: "auth_error + 'b \<times> auth_db"
    using that by (cases r) (auto simp: committed_def intro: sess_keep)
  note step = this
  show ?thesis
    by (cases op; simp only: auth_exec.simps; rule step)
      (auto simp: other_ops_keep_sessions intro: sess_keep mutate sess_step_create sess_step_touch sess_step_revoke
        sess_step_revoke_all sess_step_switch)
qed

definition sess_inv :: "user_session list \<Rightarrow> bool" where
  "sess_inv ss \<longleftrightarrow> distinct (map us_id ss) \<and> distinct (map us_token_hash ss) \<and>
     (\<forall>s \<in> set ss. us_last_active_at s \<le> us_idle_expires_at s \<and> us_idle_expires_at s \<le> us_absolute_expires_at s
        \<and> us_absolute_expires_at s = us_created_at s + session_lifetime)"

lemma same_row: "distinct (map f xs) \<Longrightarrow> x \<in> set xs \<Longrightarrow> y \<in> set xs \<Longrightarrow> f x = f y \<Longrightarrow> x = y"
  by (auto simp: distinct_map inj_on_def)

lemma distinct_map_replace:
  assumes "distinct (map k xs)" "\<And>x. x \<in> set xs \<Longrightarrow> k (f x) = k x"
  shows "distinct (map k (map f xs))"
proof -
  have "map k (map f xs) = map k xs" using assms(2) by simp
  then show ?thesis using assms(1) by (simp only:)
qed

lemma distinct_map_replace_one:
  assumes "distinct (map i xs)" "distinct (map k xs)" "s \<in> set xs" "k (f s) \<notin> k ` set (filter (\<lambda>x. i x \<noteq> i s) xs)"
  shows "distinct (map k (map (\<lambda>x. if i x = i s then f x else x) xs))"
  using assms
proof (induction xs)
  case (Cons y ys)
  show ?case
  proof (cases "i y = i s")
    case True
    moreover have "i y \<notin> i ` set ys" using Cons.prems(1) by simp
    ultimately have "i x \<noteq> i s" if "x \<in> set ys" for x using that by (metis image_eqI)
    then have ys: "map (\<lambda>x. if i x = i s then f x else x) ys = ys" "filter (\<lambda>x. i x \<noteq> i s) ys = ys"
      by (auto intro: map_idI simp: filter_id_conv)
    have "y = s" using True Cons.prems(1,3) by (auto simp: image_iff)
    then show ?thesis using True Cons.prems(2,4) ys by simp
  next
    case False
    then have "s \<in> set ys" using Cons.prems(3) by auto
    have ne: "k y \<noteq> k (if i x = i s then f x else x)" if x: "x \<in> set ys" for x
    proof (cases "i x = i s")
      case True
      moreover have "distinct (map i ys)" using Cons.prems(1) by simp
      ultimately have "x = s" using same_row [of i ys x s] x \<open>s \<in> set ys\<close> by simp
      moreover have "k (f s) \<noteq> k y" using Cons.prems(4) False by auto
      ultimately show ?thesis by simp
    next
      case False
      then show ?thesis using Cons.prems(2) x by auto
    qed
    have "k y \<notin> (\<lambda>x. k (if i x = i s then f x else x)) ` set ys" using ne by blast
    moreover have "distinct (map k (map (\<lambda>x. if i x = i s then f x else x) ys))"
      using Cons.prems False \<open>s \<in> set ys\<close> by (intro Cons.IH) auto
    ultimately show ?thesis using False by (simp add: comp_def)
  qed
qed simp

lemma sess_step_inv: "sess_step now ss ss' \<Longrightarrow> sess_inv ss \<Longrightarrow> sess_inv ss'"
proof (induction rule: sess_step.induct)
  case (sess_touch ss G w)
  have "distinct (map us_id (map (\<lambda>s. if G s then touched now w s else s) ss))"
    by (rule distinct_map_replace) (use sess_touch.prems in \<open>simp_all add: sess_inv_def touched_def\<close>)
  moreover have "distinct (map us_token_hash (map (\<lambda>s. if G s then touched now w s else s) ss))"
    by (rule distinct_map_replace) (use sess_touch.prems in \<open>simp_all add: sess_inv_def touched_def\<close>)
  ultimately show ?case using sess_touch by (auto simp: sess_inv_def touched_def)
next
  case (sess_revoke ss G)
  have "distinct (map us_id (map (\<lambda>s. if G s then revoked now s else s) ss))"
    by (rule distinct_map_replace) (use sess_revoke.prems in \<open>simp_all add: sess_inv_def revoked_def\<close>)
  moreover have "distinct (map us_token_hash (map (\<lambda>s. if G s then revoked now s else s) ss))"
    by (rule distinct_map_replace) (use sess_revoke.prems in \<open>simp_all add: sess_inv_def revoked_def\<close>)
  ultimately show ?case using sess_revoke by (auto simp: sess_inv_def revoked_def)
next
  case (sess_switch s ss th og v)
  let ?f = "\<lambda>x. if us_id x = us_id s then switched now th og v x else x"
  have d: "distinct (map us_id ss)" "distinct (map us_token_hash ss)" using sess_switch.prems by (simp_all add: sess_inv_def)
  have "distinct (map us_id (map ?f ss))"
    using d(1) by (rule distinct_map_replace) (simp add: switched_def)
  moreover have "distinct (map us_token_hash (map ?f ss))"
    using d sess_switch.hyps(1,3) by (intro distinct_map_replace_one) (simp_all add: switched_def)
  moreover have "x = s" if "x \<in> set ss" "us_id x = us_id s" for x
    using same_row [OF d(1), of x s] that sess_switch.hyps(1) by simp
  ultimately show ?case
    using sess_switch by (fastforce simp: sess_inv_def switched_def)
qed (auto simp: sess_inv_def)

end
