(* ===== verification/SessionSafety.thy ===== *)
theory SessionSafety
  imports AuthSafety
begin

section \<open>What holds of sessions after any run\<close>

text \<open>
  The safety of sessions, proved on the abstract machine of \<open>AuthSafety\<close> and carried to every run of the
  control-plane operations: rows and tokens stay distinct, no session outlives its twelve hours, and a
  token whose session was revoked or has expired is never accepted again, whatever operations follow.
\<close>

definition dead_token :: "int \<Rightarrow> string \<Rightarrow> user_session list \<Rightarrow> bool" where
  "dead_token t th ss \<longleftrightarrow> (\<exists>s \<in> set ss. us_token_hash s = th \<and> \<not> live t s)"

lemma live_later: "\<not> live t s \<Longrightarrow> t \<le> now \<Longrightarrow> \<not> live now s"
  by (auto simp: live_def)

lemma dead_token_later: "dead_token t th ss \<Longrightarrow> t \<le> now \<Longrightarrow> dead_token now th ss"
  unfolding dead_token_def using live_later by blast

lemma sess_step_dead:
  "sess_step now ss ss' \<Longrightarrow> distinct (map us_id ss) \<Longrightarrow> dead_token now th ss \<Longrightarrow> dead_token now th ss'"
proof (induction rule: sess_step.induct)
  case (sess_touch ss G w)
  then show ?case by (force simp: dead_token_def)
next
  case (sess_revoke ss G)
  obtain s where "s \<in> set ss" "us_token_hash s = th" "\<not> live now s"
    using sess_revoke.prems(2) by (auto simp: dead_token_def)
  then have "(if G s then revoked now s else s) \<in> set (map (\<lambda>s. if G s then revoked now s else s) ss)"
    "us_token_hash (if G s then revoked now s else s) = th" "\<not> live now (if G s then revoked now s else s)"
    by (auto simp: revoked_def live_def)
  then show ?case unfolding dead_token_def by blast
next
  case (sess_switch s ss th' og v)
  obtain x where x: "x \<in> set ss" "us_token_hash x = th" "\<not> live now x"
    using sess_switch.prems(2) by (auto simp: dead_token_def)
  then have "us_id x \<noteq> us_id s"
    using same_row [OF sess_switch.prems(1), of x s] sess_switch.hyps(1,2) by auto
  then show ?case using x unfolding dead_token_def by (auto intro!: bexI [of _ x])
qed (auto simp: dead_token_def)

lemma auth_exec_sess_inv: "sess_inv (sessions d) \<Longrightarrow> sess_inv (sessions (auth_exec dia h now op d))"
  by (rule sess_step_inv [OF auth_exec_sess_step])

lemma auth_run_sess_inv: "sess_inv (sessions d) \<Longrightarrow> sess_inv (sessions (auth_run dia h es d))"
  by (induction dia h es d rule: auth_run.induct) (simp_all add: auth_exec_sess_inv)

lemma auth_run_dead:
  "sess_inv (sessions d) \<Longrightarrow> sorted (t # map fst es @ [t']) \<Longrightarrow> dead_token t th (sessions d) \<Longrightarrow>
     dead_token t' th (sessions (auth_run dia h es d))"
proof (induction dia h es d arbitrary: t rule: auth_run.induct)
  case (1 dia h d)
  then show ?case by (auto intro: dead_token_later)
next
  case (2 dia h now op es d)
  have "dead_token now th (sessions d)"
    using 2(3,4) by (auto intro: dead_token_later)
  then have "dead_token now th (sessions (auth_exec dia h now op d))"
    using sess_step_dead [OF auth_exec_sess_step] 2(2) by (auto simp: sess_inv_def)
  then show ?case
    using 2(1) [of now] 2(2,3) by (simp add: auth_exec_sess_inv)
qed

lemma dead_token_not_live:
  assumes "sess_inv (sessions d)" "dead_token t th (sessions d)"
  shows "live_session d t th = None"
proof -
  obtain s where s: "s \<in> set (sessions d)" "us_token_hash s = th" "\<not> live t s"
    using assms(2) by (auto simp: dead_token_def)
  have "\<not> (us_token_hash x = th \<and> live t x)" if "x \<in> set (sessions d)" for x
    using same_row [of us_token_hash "sessions d" x s] assms(1) s that by (auto simp: sess_inv_def)
  then show ?thesis by (simp add: live_session_def find_None_iff)
qed

lemma live_session_caller: "live_session d t th = None \<Longrightarrow> caller_session d t th = None"
  by (auto simp: live_session_def caller_session_def find_None_iff)

subsection \<open>The safety of sessions\<close>

text \<open>
  C28. A token whose session is no longer live stays refused: after every later run of control-plane
  operations, in either dialect, the lookups that authorise an operation find no session for it.
\<close>

theorem dead_token_stays_dead:
  assumes "sess_inv (sessions d)" "session_of d th = Some s" "\<not> live t s" "sorted (t # map fst es @ [t'])"
  shows "live_session (auth_run dia h es d) t' th = None \<and> caller_session (auth_run dia h es d) t' th = None"
proof -
  have "dead_token t th (sessions d)"
    using assms(2,3) by (auto simp: session_of_def dead_token_def dest!: find_SomeD)
  then have "live_session (auth_run dia h es d) t' th = None"
    using assms by (intro dead_token_not_live auth_run_sess_inv auth_run_dead) auto
  then show ?thesis by (simp add: live_session_caller)
qed

text \<open>
  Whatever operations run from a well-formed table, session ids and token hashes stay distinct and a
  live session is younger than twelve hours.
\<close>

theorem live_sessions_bounded:
  assumes "sess_inv (sessions d)" "live_session (auth_run dia h es d) t th = Some s"
  shows "sess_inv (sessions (auth_run dia h es d)) \<and> t - us_created_at s < 12 * 3600 * 1000000"
proof -
  have "sess_inv (sessions (auth_run dia h es d))" using assms(1) by (rule auth_run_sess_inv)
  moreover from this have "us_absolute_expires_at s = us_created_at s + session_lifetime" "live t s"
    using assms(2) by (auto simp: sess_inv_def live_session_def dest!: find_SomeD)
  ultimately show ?thesis
    by (simp add: live_def session_lifetime_def ABSOLUTE_TIMEOUT_SECONDS_def seconds_def)
qed

text \<open>
  A revocation of all sessions that found the caller leaves no live session of the principal, now or
  at any later time.
\<close>

theorem revoke_all_revokes_every_session:
  assumes "revoke_all_sessions h now ev raw ip ua d = Inr (n, d')" "live_session d now (h raw) = Some s"
  shows "0 < n \<and> (\<forall>x \<in> set (sessions d'). us_principal_id x = us_principal_id s \<longrightarrow> (\<forall>t. \<not> live t x))"
proof -
  let ?G = "\<lambda>x. us_principal_id x = us_principal_id s \<and> us_revoked_at x = None"
  have u: "sessions d' = map (\<lambda>x. if ?G x then revoked now x else x) (sessions d)"
      and n: "n = rowcount ?G (sessions d)"
    using assms by (auto simp: revoke_all_sessions_def Let_def store_simps dest!: record_security_event_InrD)
  have "s \<in> set (sessions d)" "?G s"
    using assms(2) by (auto simp: live_session_def live_def dest!: find_SomeD)
  then have "filter ?G (sessions d) \<noteq> []" by (auto simp: filter_empty_conv)
  then have "0 < n" unfolding n rowcount_def by blast
  then show ?thesis
    unfolding u by (auto simp: revoked_def live_def)
qed

subsection \<open>The properties at a concrete store\<close>

definition demo_hash :: "string \<Rightarrow> string" where
  "demo_hash raw = replicate 64 (if raw = ''tok'' then CHR ''a'' else CHR ''b'')"

definition demo_session :: user_session where
  "demo_session = \<lparr>us_id = 1, us_public_id = ''s1'', us_principal_id = 7, us_token_hash = demo_hash ''tok'',
     us_active_org = None, us_auth_version = None, us_ip_hash = demo_hash ''ip'', us_user_agent = None,
     us_last_active_at = 0, us_idle_expires_at = 9, us_absolute_expires_at = session_lifetime,
     us_revoked_at = None, us_created_at = 0\<rparr>"

definition demo_auth_db :: auth_db where
  "demo_auth_db = \<lparr>principals = [\<lparr>pr_id = 7, pr_public_id = ''p'', pr_email = ''a@b'', pr_display_name = ''A'', pr_is_active = True\<rparr>],
     organisations = [], org_memberships = [], sessions = [demo_session], invitations = [], control_events = [],
     security_events = [], oidc_transactions = [], federated_identities = [], trusted_issuers = []\<rparr>"

lemma demo_sess_inv: "sess_inv (sessions demo_auth_db)"
  by (simp add: sess_inv_def demo_auth_db_def demo_session_def session_lifetime_def ABSOLUTE_TIMEOUT_SECONDS_def seconds_def)

theorem dead_token_stays_dead_witness:
  "live_session (auth_run Postgres demo_hash [(10, Touch ''tok'' 5 0), (20, Switch ''new'' ''e'' ''tok'' 3)] demo_auth_db) 30
     (demo_hash ''tok'') = None"
proof -
  have "session_of demo_auth_db (demo_hash ''tok'') = Some demo_session"
    by (simp add: session_of_def demo_auth_db_def demo_session_def)
  moreover have "\<not> live 9 demo_session" by (simp add: live_def demo_session_def)
  ultimately show ?thesis
    using dead_token_stays_dead [OF demo_sess_inv, of "demo_hash ''tok''" demo_session 9
        "[(10, Touch ''tok'' 5 0), (20, Switch ''new'' ''e'' ''tok'' 3)]" 30 Postgres demo_hash] by simp
qed

theorem live_sessions_bounded_witness:
  "live_session (auth_run Sqlite demo_hash [(5, Touch ''tok'' 1800 0)] demo_auth_db) 1000 (demo_hash ''tok'')
     = Some (touched 5 1800 demo_session) \<and> sess_inv (sessions (auth_run Sqlite demo_hash [(5, Touch ''tok'' 1800 0)] demo_auth_db))"
proof -
  have "live_session (auth_run Sqlite demo_hash [(5, Touch ''tok'' 1800 0)] demo_auth_db) 1000 (demo_hash ''tok'')
     = Some (touched 5 1800 demo_session)"
    by code_simp
  then show ?thesis using live_sessions_bounded [OF demo_sess_inv] by blast
qed

theorem revoke_all_revokes_every_session_witness:
  "\<exists>n d'. revoke_all_sessions demo_hash 5 ''e'' ''tok'' ''ip'' None demo_auth_db = Inr (n, d')
     \<and> 0 < n \<and> \<not> live 6 (hd (sessions d'))"
proof -
  have run: "case revoke_all_sessions demo_hash 5 ''e'' ''tok'' ''ip'' None demo_auth_db of Inl _ \<Rightarrow> False
      | Inr (n, d') \<Rightarrow> sessions d' \<noteq> [] \<and> us_principal_id (hd (sessions d')) = us_principal_id demo_session"
    by code_simp
  then obtain n d' where nd: "revoke_all_sessions demo_hash 5 ''e'' ''tok'' ''ip'' None demo_auth_db = Inr (n, d')"
    "sessions d' \<noteq> []" "us_principal_id (hd (sessions d')) = us_principal_id demo_session"
    by (auto split: sum.split_asm)
  have "live_session demo_auth_db 5 (demo_hash ''tok'') = Some demo_session" by code_simp
  then show ?thesis using revoke_all_revokes_every_session [OF nd(1)] nd by simp
qed

end
