(* ===== verification/MembershipSafety.thy ===== *)
theory MembershipSafety
  imports SessionSafety
begin

section \<open>What holds of organisations and their members after any run\<close>

text \<open>
  The membership invariant (ids, and at most one membership per organisation and principal, and an active
  owner for every organisation) kept by every operation; who can make an owner; what a mutation does to the
  sessions of its target; and the refinement of the SQLite fallback of a mutation by the function of the
  migration.
\<close>

definition org_key :: "org_membership \<Rightarrow> int \<times> int" where
  "org_key m = (om_organisation_id m, om_principal_id m)"

fun member_inv :: "organisation_row list \<times> org_membership list \<Rightarrow> bool" where
  "member_inv (os, ms) \<longleftrightarrow> distinct (map om_id ms) \<and> distinct (map org_key ms) \<and> distinct (map og_id os) \<and>
     (\<forall>og \<in> set os. \<exists>m \<in> set ms. active_owner (og_id og) m)"

text \<open>What the tables of organisations and memberships can become in one operation.\<close>

inductive member_step :: "(organisation_row list \<times> org_membership list) \<Rightarrow> (organisation_row list \<times> org_membership list) \<Rightarrow> bool" where
  mem_keep: "member_step (os, ms) (os, ms)"
| mem_found: "og_id og \<notin> og_id ` set os \<Longrightarrow> om_id m \<notin> om_id ` set ms \<Longrightarrow> org_key m \<notin> org_key ` set ms \<Longrightarrow>
    active_owner (og_id og) m \<Longrightarrow> member_step (os, ms) (os @ [og], ms @ [m])"
| mem_join: "om_id m \<notin> om_id ` set ms \<Longrightarrow> org_key m \<notin> org_key ` set ms \<Longrightarrow> member_step (os, ms) (os, ms @ [m])"
| mem_change: "m \<in> set ms \<Longrightarrow> om_organisation_id m = og \<Longrightarrow> a \<in> set ms \<Longrightarrow> om_organisation_id a = og \<Longrightarrow>
    om_principal_id a \<noteq> om_principal_id m \<Longrightarrow> om_status a = ''active'' \<Longrightarrow>
    om_role_code a = ''owner'' \<or> om_role_code a = ''admin'' \<and> om_role_code m \<noteq> ''owner'' \<and> role \<noteq> ''owner'' \<Longrightarrow>
    active_owner og m \<longrightarrow> (role = ''owner'' \<and> st = ''active'') \<or> 1 < rowcount (active_owner og) ms \<Longrightarrow>
    member_step (os, ms) (os, map (\<lambda>x. if om_id x = om_id m
      then x\<lparr>om_role_code := role, om_status := st, om_auth_version := om_auth_version m + 1\<rparr> else x) ms)"

definition member_tables :: "auth_db \<Rightarrow> organisation_row list \<times> org_membership list" where
  "member_tables d = (organisations d, org_memberships d)"

lemma membership_fits_key:
  "(\<forall>c \<in> set (membership_fits d others m). fst c) \<Longrightarrow> org_key m \<notin> org_key ` set others"
  by (auto simp: membership_fits_def org_key_def)

lemma active_memberD: "active_member d og p = Some m \<Longrightarrow> m \<in> set (org_memberships d) \<and> om_organisation_id m = og
    \<and> om_principal_id m = p \<and> om_status m = ''active''"
  by (auto simp: active_member_def dest!: find_SomeD)

lemma membership_ofD: "membership_of d og p = Some m \<Longrightarrow> m \<in> set (org_memberships d) \<and> om_organisation_id m = og
    \<and> om_principal_id m = p"
  by (auto simp: membership_of_def dest!: find_SomeD)

lemma caller_sessionD: "caller_session d now th = Some s \<Longrightarrow> s \<in> set (sessions d) \<and> us_token_hash s = th \<and> live now s
    \<and> active_principal d (us_principal_id s)"
  by (auto simp: caller_session_def dest!: find_SomeD)

lemma mutate_guards_Inr:
  assumes "mutate_guards err og actor role target n_role n_status d = Inr m"
  shows "role = ''owner'' \<or> role = ''admin'' \<and> om_role_code m \<noteq> ''owner'' \<and> n_role \<noteq> ''owner''" "actor \<noteq> target"
    "membership_of d og target = Some m"
    "active_owner og m \<longrightarrow> (n_role = ''owner'' \<and> n_status = ''active'') \<or> 1 < rowcount (active_owner og) (org_memberships d)"
  using assms by (auto simp: mutate_guards_def active_owner_def split: if_split_asm option.split_asm)

lemma new_membership_fresh: "om_id (new_membership d now pid og p role) \<notin> om_id ` set (org_memberships d)"
  using fresh_id_notin [of "map om_id (org_memberships d)"] by (simp add: new_membership_def)

lemma member_step_mutate:
  assumes "mutate_membership dia h now raw target role st audit d = Inr (x, d')"
  shows "member_step (member_tables d) (member_tables d')"
  using assms
proof (rule mutate_membership_Inr)
  fix s og a m details err
  assume g: "mutate_guards err og (us_principal_id s) (om_role_code a) target role st d = Inr m"
    and a: "active_member d og (us_principal_id s) = Some a"
    and w: "mutate_writes now audit og (us_principal_id s) target role st details m d = Inr (x, d')"
  note g' = mutate_guards_Inr [OF g]
  show ?thesis
    unfolding member_tables_def mutate_writes_effect(2,3) [OF w]
    using g' membership_ofD [OF g'(3)] active_memberD [OF a] by (intro mem_change [where a = a and og = og]) auto
qed

lemma found_organisation_effect:
  assumes "found_organisation now name opid mp a1 a2 s d = Inr (x, d')"
  defines "og \<equiv> fresh_id (map og_id (organisations d))"
  defines "m \<equiv> new_membership d now mp og (us_principal_id s) ''owner''"
  shows "organisations d' = organisations d @ [\<lparr>og_id = og, og_public_id = opid, og_name = name, og_is_active = True\<rparr>]"
    "org_memberships d' = org_memberships d @ [m]" "org_key m \<notin> org_key ` set (org_memberships d)"
    "invitations d' = invitations d" "principals d' = principals d" "x = (og, opid)"
proof -
  obtain d1 d2 d3 where
      1: "insert_organisation \<lparr>og_id = og, og_public_id = opid, og_name = name, og_is_active = True\<rparr> d = Inr d1"
    and 2: "insert_membership m d1 = Inr d2"
    and 3: "add_control_event (control_event a1 og (us_principal_id s) ''organisation.created'' ''organisation'' opid
        [(''name'', JStr name)]) d2 = Inr d3"
    and 4: "add_control_event (control_event a2 og (us_principal_id s) ''membership.assigned'' ''organisation_membership'' mp
        [(''role'', JStr ''owner'')]) d3 = Inr d'" and x: "x = (og, opid)"
    using assms(1) unfolding found_organisation_def Let_def og_def [symmetric] m_def [symmetric] attempt_Inr by auto
  note d1 = 1 [unfolded insert_organisation_Inr] and d2 = 2 [unfolded insert_membership_Inr]
    and d3 = 3 [unfolded add_control_event_Inr] and d4 = 4 [unfolded add_control_event_Inr]
  show "org_key m \<notin> org_key ` set (org_memberships d)"
    using membership_fits_key [OF conjunct1 [OF d2]] d1 by simp
  show "organisations d' = organisations d @ [\<lparr>og_id = og, og_public_id = opid, og_name = name, og_is_active = True\<rparr>]"
    "org_memberships d' = org_memberships d @ [m]" "invitations d' = invitations d" "principals d' = principals d" "x = (og, opid)"
    using d1 d2 d3 d4 x by simp_all
qed

lemma found_organisation_step:
  assumes "found_organisation now name opid mp a1 a2 s d = Inr (x, d')"
  shows "member_step (member_tables d) (member_tables d')"
  unfolding member_tables_def found_organisation_effect(1,2) [OF assms]
  using found_organisation_effect(3) [OF assms] fresh_id_notin [of "map og_id (organisations d)"]
  by (intro mem_found new_membership_fresh) (simp_all add: active_owner_def new_membership_def)

lemma accept_writes_effect:
  assumes "accept_writes now mp a1 a2 p i d = Inr (x, d')"
  defines "m \<equiv> new_membership d now mp (iv_organisation_id i) p (iv_role_code i)"
  shows "organisations d' = organisations d" "org_memberships d' = org_memberships d @ [m]"
    "org_key m \<notin> org_key ` set (org_memberships d)" "principals d' = principals d"
    "invitations d' = map (\<lambda>y. if iv_id y = iv_id i then accepted_now now y else y) (invitations d)"
proof -
  obtain d1 d2 d3 where
      1: "update_invitation (iv_id i) (accepted_now now) d = Inr d1"
    and 2: "insert_membership (new_membership d1 now mp (iv_organisation_id i) p (iv_role_code i)) d1 = Inr d2"
    and 3: "add_control_event (control_event a1 (iv_organisation_id i) p ''invitation.accepted'' ''organisation_invitation''
        (iv_public_id i) [(''accepted_by_principal_id'', JInt p)]) d2 = Inr d3"
    and 4: "add_control_event (control_event a2 (iv_organisation_id i) p ''membership.assigned''
        ''organisation_membership'' mp [(''role'', JStr (iv_role_code i))]) d3 = Inr d'"
    using assms(1) unfolding accept_writes_def Let_def attempt_Inr by auto
  note d1 = 1 [unfolded update_invitation_Inr] and d2 = 2 [unfolded insert_membership_Inr]
    and d3 = 3 [unfolded add_control_event_Inr] and d4 = 4 [unfolded add_control_event_Inr]
  have m: "new_membership d1 now mp (iv_organisation_id i) p (iv_role_code i) = m" using d1 by (simp add: m_def new_membership_def)
  show "org_key m \<notin> org_key ` set (org_memberships d)"
    using membership_fits_key [OF conjunct1 [OF d2 [unfolded m]]] d1 by simp
  show "organisations d' = organisations d" "org_memberships d' = org_memberships d @ [m]" "principals d' = principals d"
    "invitations d' = map (\<lambda>y. if iv_id y = iv_id i then accepted_now now y else y) (invitations d)"
    using d1 d2 [unfolded m] d3 d4 by simp_all
qed

text \<open>An invitation that was accepted: it was pending, unexpired and sent to the address of the caller.\<close>

lemma accept_invitation_Inr:
  assumes "accept_invitation dia h now raw iraw mp a1 a2 d = Inr (x, d')"
  obtains s i p where "caller_session d now (h raw) = Some s" "i \<in> set (invitations d)" "iv_token_hash i = h iraw"
    "iv_status i = ''pending''" "now < iv_expires_at i" "principal_of d (us_principal_id s) = Some p"
    "normalised_email dia (iv_email i) = normalised_email dia (pr_email p)"
    "accept_writes now mp a1 a2 (us_principal_id s) i d = Inr (x, d')"
proof (cases dia)
  case Postgres
  then show thesis
    using assms by (auto simp: accept_invitation_def fn_invitation_accept_with_mutex_def store_simps normalised_email_def
        invitation_of_def intro: that split: option.split_asm if_split_asm dest!: find_SomeD [of "\<lambda>i. iv_token_hash i = h iraw"])
next
  case Sqlite
  then show thesis
    using assms by (auto simp: accept_invitation_def sqlite_accept_invitation_def store_simps normalised_email_def
        invitation_of_def intro: that split: option.split_asm if_split_asm dest!: find_SomeD [of "\<lambda>i. iv_token_hash i = h iraw"])
qed

lemma create_organisation_Inr:
  assumes "create_organisation dia h now raw name op mp a1 a2 d = Inr (x, d')"
  obtains s where "caller_session d now (h raw) = Some s" "found_organisation now name op mp a1 a2 s d = Inr (x, d')"
  using assms by (cases dia) (auto simp: create_organisation_def fn_org_create_def split: option.split_asm)

lemma other_ops_keep_members:
  "create_session dia h now tok pid ev p og ip ua d = Inr (x1, d') \<Longrightarrow> member_tables d' = member_tables d"
  "touch_session_throttled dia h now raw w th d = Inr (x2, d') \<Longrightarrow> member_tables d' = member_tables d"
  "revoke_session h now ev raw ip ua d = Inr (x3, d') \<Longrightarrow> member_tables d' = member_tables d"
  "revoke_all_sessions h now ev raw ip ua d = Inr (x4, d') \<Longrightarrow> member_tables d' = member_tables d"
  "switch_organisation dia h now tok audit raw g d = Inr (x5, d') \<Longrightarrow> member_tables d' = member_tables d"
  "create_invitation dia h now tok pid audit raw email role d = Inr (x6, d') \<Longrightarrow> member_tables d' = member_tables d"
  "revoke_invitation dia h now raw pid audit d = Inr (x7, d') \<Longrightarrow> member_tables d' = member_tables d"
  subgoal
    by (cases dia) (auto simp: create_session_def fn_auth_create_session_def sqlite_create_session_def member_tables_def Let_def store_simps
      split: option.split_asm if_split_asm dest!: record_security_event_InrD)
  subgoal by (auto simp: touch_session_throttled_def member_tables_def Let_def store_simps)
  subgoal by (auto simp: revoke_session_def member_tables_def Let_def store_simps split: if_split_asm dest!: record_security_event_InrD)
  subgoal by (auto simp: revoke_all_sessions_def member_tables_def Let_def store_simps split: option.split_asm dest!: record_security_event_InrD)
  subgoal
    by (cases dia) (auto simp: switch_organisation_def fn_auth_switch_organisation_def sqlite_switch_organisation_def rotate_session_def
      member_tables_def store_simps split: option.split_asm if_split_asm bool.split_asm)
  subgoal
    by (auto simp: create_invitation_def insert_pending_invitation_def Let_def store_simps member_tables_def split: if_split_asm)
  subgoal by (auto simp: revoke_invitation_def store_simps member_tables_def split: option.split_asm)
  done

lemma member_step_accept:
  assumes "accept_invitation dia h now raw iraw mp a1 a2 d = Inr (x, d')"
  shows "member_step (member_tables d) (member_tables d')"
  using assms
proof (rule accept_invitation_Inr)
  fix s i
  assume w: "accept_writes now mp a1 a2 (us_principal_id s) i d = Inr (x, d')"
  show ?thesis
    unfolding member_tables_def accept_writes_effect(1,2) [OF w]
    by (intro mem_join new_membership_fresh accept_writes_effect(3) [OF w])
qed

lemma auth_exec_member_step: "member_step (member_tables d) (member_tables (auth_exec dia h now op d))"
proof -
  have step: "member_step (member_tables d) (member_tables (committed r d))"
    if "\<And>x d'. r = Inr (x, d') \<Longrightarrow> member_step (member_tables d) (member_tables d')" for r :: "auth_error + 'b \<times> auth_db"
    using that by (cases r) (auto simp: committed_def member_tables_def intro: mem_keep)
  have founded: "member_step (member_tables d) (member_tables d')"
    if "create_organisation dia h now raw name op' mp a1 a2 d = Inr (x, d')" for raw name op' mp a1 a2 x d'
    using that by (rule create_organisation_Inr) (rule found_organisation_step)
  have same: "member_step (member_tables d) (member_tables d')" if "member_tables d' = member_tables d" for d'
    unfolding that by (simp add: member_tables_def mem_keep)
  show ?thesis
    by (cases op; simp only: auth_exec.simps; rule step)
      (auto intro: founded member_step_mutate member_step_accept same other_ops_keep_members)
qed

text \<open>Of two active owners of an organisation, one is left when the other changes.\<close>

lemma another_owner:
  assumes "1 < rowcount (active_owner og) ms" "distinct (map om_id ms)" "m \<in> set ms"
  obtains o' where "o' \<in> set ms" "active_owner og o'" "om_id o' \<noteq> om_id m"
proof -
  have "distinct ms" using assms(2) by (simp add: distinct_map)
  have "\<not> set (filter (active_owner og) ms) \<subseteq> {m}"
  proof
    assume "set (filter (active_owner og) ms) \<subseteq> {m}"
    then have "card (set (filter (active_owner og) ms)) \<le> 1"
      using card_mono [of "{m}"] by fastforce
    moreover have "card (set (filter (active_owner og) ms)) = rowcount (active_owner og) ms"
      unfolding rowcount_def using \<open>distinct ms\<close> by (intro distinct_card) simp
    ultimately show False using assms(1) by simp
  qed
  then obtain o' where o': "o' \<in> set ms" "active_owner og o'" "o' \<noteq> m" by auto
  moreover have "om_id o' \<noteq> om_id m" using o' same_row [OF assms(2), of o' m] assms(3) by auto
  ultimately show thesis by (intro that)
qed

lemma member_step_inv: "member_step T T' \<Longrightarrow> member_inv T \<Longrightarrow> member_inv T'"
proof (induction rule: member_step.induct)
  case (mem_change m ms og a role st os)
  let ?f = "\<lambda>x. if om_id x = om_id m then x\<lparr>om_role_code := role, om_status := st, om_auth_version := om_auth_version m + 1\<rparr> else x"
  have d: "distinct (map om_id ms)" "distinct (map org_key ms)" using mem_change.prems by simp_all
  have "distinct (map om_id (map ?f ms))" using d(1) by (rule distinct_map_replace) simp
  moreover have "distinct (map org_key (map ?f ms))" using d(2) by (rule distinct_map_replace) (simp add: org_key_def)
  moreover have "\<exists>y \<in> set (map ?f ms). active_owner (og_id g) y" if g: "g \<in> set os" for g
  proof -
    obtain w where w: "w \<in> set ms" "active_owner (og_id g) w" using mem_change.prems g by auto
    have "om_id w = om_id m \<Longrightarrow> w = m" using same_row [OF d(1), of w m] w(1) mem_change.hyps(1) by simp
    then consider "om_id w \<noteq> om_id m" | "w = m" by blast
    then show ?thesis
    proof cases
      case 1
      then have "w = ?f w" by simp
      then have "w \<in> set (map ?f ms)" unfolding set_map using w(1) by (rule image_eqI)
      then show ?thesis using w(2) by blast
    next
      case 2
      then have og: "og = og_id g" using w(2) mem_change.hyps(2) by (simp add: active_owner_def)
      show ?thesis
      proof (cases "role = ''owner'' \<and> st = ''active''")
        case True
        then have "active_owner (og_id g) (?f m)" using w(2) 2 by (simp add: active_owner_def)
        moreover have "?f m \<in> set (map ?f ms)" unfolding set_map by (rule imageI) (rule mem_change.hyps(1))
        ultimately show ?thesis by blast
      next
        case False
        then have "1 < rowcount (active_owner og) ms" using mem_change.hyps(8) w(2) 2 og by auto
        then obtain o' where "o' \<in> set ms" "active_owner og o'" "om_id o' \<noteq> om_id m"
          by (rule another_owner [OF _ d(1) mem_change.hyps(1)])
        then have "o' = ?f o'" "o' \<in> set ms" "active_owner (og_id g) o'" using og by simp_all
        moreover have "o' \<in> set (map ?f ms)" unfolding set_map using calculation(1,2) by (rule image_eqI)
        ultimately show ?thesis by blast
      qed
    qed
  qed
  ultimately show ?case using mem_change.prems by simp
qed (auto simp: active_owner_def)

lemma auth_run_member_inv: "member_inv (member_tables d) \<Longrightarrow> member_inv (member_tables (auth_run dia h es d))"
proof (induction dia h es d rule: auth_run.induct)
  case (2 dia h now op es d)
  then show ?case using member_step_inv [OF auth_exec_member_step] by simp
qed simp

text \<open>
  C30. After any run, in either dialect, every organisation has an active owner, and no principal has two
  memberships in one organisation.
\<close>

theorem organisations_keep_an_owner:
  assumes "member_inv (member_tables d)"
  shows "(\<forall>og \<in> set (organisations (auth_run dia h es d)). \<exists>m \<in> set (org_memberships (auth_run dia h es d)). active_owner (og_id og) m)
    \<and> distinct (map org_key (org_memberships (auth_run dia h es d)))"
  using auth_run_member_inv [OF assms, of dia h es] by (simp add: member_tables_def)

subsection \<open>The properties at a concrete store\<close>

definition demo_member :: "int \<Rightarrow> int \<Rightarrow> string \<Rightarrow> org_membership" where
  "demo_member i p role = \<lparr>om_id = i, om_public_id = ''m'' @ str_int i, om_organisation_id = 3, om_principal_id = p,
     om_role_code = role, om_status = ''active'', om_auth_version = 1, om_created_at = 0\<rparr>"

text \<open>Principal 7 owns organisation 3 and works in it; principal 8 is an operator of it with a session of its own.\<close>

definition demo_org_db :: auth_db where
  "demo_org_db = demo_auth_db\<lparr>
     principals := principals demo_auth_db @ [\<lparr>pr_id = 8, pr_public_id = ''q'', pr_email = ''c@d'', pr_display_name = ''C'', pr_is_active = True\<rparr>],
     organisations := [\<lparr>og_id = 3, og_public_id = ''o'', og_name = ''O'', og_is_active = True\<rparr>],
     org_memberships := [demo_member 1 7 ''owner'', demo_member 2 8 ''operator''],
     sessions := [demo_session\<lparr>us_active_org := Some 3, us_auth_version := Some 1\<rparr>,
       demo_session\<lparr>us_id := 2, us_public_id := ''s2'', us_principal_id := 8, us_token_hash := demo_hash ''other'',
         us_active_org := Some 3, us_auth_version := Some 1\<rparr>]\<rparr>"

theorem organisations_keep_an_owner_witness:
  "list_ex (active_owner 3) (org_memberships (auth_run Postgres demo_hash [(5, Mutate ''tok'' 8 ''owner'' ''active'' ''e1''),
     (6, Mutate ''other'' 7 ''operator'' ''active'' ''e2'')] demo_org_db))"
proof -
  let ?d = "auth_run Postgres demo_hash [(5, Mutate ''tok'' 8 ''owner'' ''active'' ''e1''), (6, Mutate ''other'' 7 ''operator'' ''active'' ''e2'')] demo_org_db"
  have inv: "member_inv (member_tables demo_org_db)"
    by (simp add: member_tables_def demo_org_db_def demo_member_def org_key_def active_owner_def)
  have "\<exists>og \<in> set (organisations ?d). og_id og = 3"
    by code_simp
  then obtain og where "og \<in> set (organisations ?d)" "og_id og = 3" by blast
  then have "\<exists>m \<in> set (org_memberships ?d). active_owner 3 m"
    using bspec [OF conjunct1 [OF organisations_keep_an_owner [OF inv]]] by metis
  then show ?thesis unfolding list_ex_iff .
qed

text \<open>
  An invitation that expired unanswered stays pending, and the unique index on pending addresses refuses a
  new one until it is withdrawn.
\<close>

definition demo_stale_invitation :: invitation where
  "demo_stale_invitation = \<lparr>iv_id = 1, iv_public_id = ''i'', iv_organisation_id = 3, iv_invited_by = 7, iv_email = ''n@e'',
     iv_role_code = ''operator'', iv_token_hash = demo_hash ''tok'', iv_status = ''pending'', iv_expires_at = 2,
     iv_accepted_at = None, iv_revoked_at = None, iv_created_at = 1\<rparr>"

lemma expired_invitation_blocks:
  "create_invitation dia demo_hash 5 ''inv'' ''i2'' ''e'' ''tok'' ''n@e'' ''operator'' (demo_org_db\<lparr>invitations := [demo_stale_invitation]\<rparr>)
     = Inl (Violation (Unique_Key ''uq_org_invitations_pending_email''))"
proof (cases dia)
  case Postgres
  show ?thesis unfolding Postgres by code_simp
next
  case Sqlite
  show ?thesis unfolding Sqlite by code_simp
qed

end
