(* ===== verification/MembershipPower.thy ===== *)
theory MembershipPower
  imports MembershipSafety
begin

section \<open>Who can make an owner, and what a mutation takes away\<close>

text \<open>
  Each operation makes an active owner only with the authority the code asks for (\<open>grants_owner\<close>) and a
  pending invitation to own an organisation only on behalf of one of its owners; a membership mutation
  leaves its target no session in the organisation; and the function of the migration refines the SQLite
  fallback.
\<close>

text \<open>The authority with which an operation at \<open>now\<close> may make principal \<open>p\<close> an owner of organisation \<open>og\<close>.\<close>

fun grants_owner :: "dialect \<Rightarrow> (string \<Rightarrow> string) \<Rightarrow> int \<Rightarrow> auth_op \<Rightarrow> auth_db \<Rightarrow> int \<Rightarrow> int \<Rightarrow> bool" where
  "grants_owner dia h now (Create_Org raw name op mp a1 a2) d og p \<longleftrightarrow>
     og \<notin> og_id ` set (organisations d) \<and> map_option us_principal_id (caller_session d now (h raw)) = Some p"
| "grants_owner dia h now (Accept raw iraw mp a1 a2) d og p \<longleftrightarrow>
     map_option us_principal_id (caller_session d now (h raw)) = Some p \<and>
     (\<exists>i \<in> set (invitations d). iv_token_hash i = h iraw \<and> iv_organisation_id i = og \<and> iv_role_code i = ''owner''
        \<and> iv_status i = ''pending'' \<and> now < iv_expires_at i
        \<and> map_option (normalised_email dia \<circ> pr_email) (principal_of d p) = Some (normalised_email dia (iv_email i)))"
| "grants_owner dia h now (Mutate raw target role st audit) d og p \<longleftrightarrow>
     target = p \<and> role = ''owner'' \<and> st = ''active'' \<and>
     (case caller_session d now (h raw) of None \<Rightarrow> False
      | Some s \<Rightarrow> us_active_org s = Some og \<and> us_principal_id s \<noteq> p
          \<and> (\<exists>a \<in> set (org_memberships d). active_owner og a \<and> om_principal_id a = us_principal_id s))"
| "grants_owner dia h now op d og p \<longleftrightarrow> False"

text \<open>The authority with which an operation may leave a pending invitation to own organisation \<open>og\<close>.\<close>

fun invites_owner :: "(string \<Rightarrow> string) \<Rightarrow> int \<Rightarrow> auth_op \<Rightarrow> auth_db \<Rightarrow> int \<Rightarrow> bool" where
  "invites_owner h now (Invite tok pid audit raw email role) d og \<longleftrightarrow>
     (case caller_session d now (h raw) of None \<Rightarrow> False
      | Some s \<Rightarrow> us_active_org s = Some og
          \<and> (\<exists>a \<in> set (org_memberships d). active_owner og a \<and> om_principal_id a = us_principal_id s))"
| "invites_owner h now op d og \<longleftrightarrow> False"

definition owns :: "auth_db \<Rightarrow> int \<Rightarrow> int \<Rightarrow> bool" where
  "owns d og p \<longleftrightarrow> (\<exists>m \<in> set (org_memberships d). active_owner og m \<and> om_principal_id m = p)"

definition owner_invitation :: "int \<Rightarrow> invitation \<Rightarrow> bool" where
  "owner_invitation og i \<longleftrightarrow> iv_organisation_id i = og \<and> iv_role_code i = ''owner'' \<and> iv_status i = ''pending''"

lemma owns_member_tables: "member_tables d' = member_tables d \<Longrightarrow> owns d' og p = owns d og p"
  by (simp add: member_tables_def owns_def)

lemma owns_append: "org_memberships d' = org_memberships d @ [m] \<Longrightarrow>
    owns d' og p \<longleftrightarrow> owns d og p \<or> active_owner og m \<and> om_principal_id m = p"
  by (auto simp: owns_def)

lemma create_organisation_owner:
  assumes "create_organisation dia h now raw name op mp a1 a2 d = Inr (x, d')" "owns d' og p"
  shows "owns d og p \<or> grants_owner dia h now (Create_Org raw name op mp a1 a2) d og p"
  using assms(1)
proof (rule create_organisation_Inr)
  fix s
  assume s: "caller_session d now (h raw) = Some s" and f: "found_organisation now name op mp a1 a2 s d = Inr (x, d')"
  show ?thesis
    using assms(2) s fresh_id_notin [of "map og_id (organisations d)"]
    by (auto simp: owns_append [OF found_organisation_effect(2) [OF f]] new_membership_def active_owner_def)
qed

lemma accept_invitation_owner:
  assumes "accept_invitation dia h now raw iraw mp a1 a2 d = Inr (x, d')" "owns d' og p"
  shows "owns d og p \<or> grants_owner dia h now (Accept raw iraw mp a1 a2) d og p"
  using assms(1)
proof (rule accept_invitation_Inr)
  fix s i pr
  assume s: "caller_session d now (h raw) = Some s" "i \<in> set (invitations d)" "iv_token_hash i = h iraw"
      "iv_status i = ''pending''" "now < iv_expires_at i" "principal_of d (us_principal_id s) = Some pr"
      "normalised_email dia (iv_email i) = normalised_email dia (pr_email pr)"
    and w: "accept_writes now mp a1 a2 (us_principal_id s) i d = Inr (x, d')"
  show ?thesis
    using assms(2) s by (auto simp: owns_append [OF accept_writes_effect(2) [OF w]] new_membership_def active_owner_def)
qed

lemma mutate_membership_owner:
  assumes "mutate_membership dia h now raw target role st audit d = Inr (x, d')" "owns d' og p"
    and ids: "distinct (map om_id (org_memberships d))"
  shows "owns d og p \<or> grants_owner dia h now (Mutate raw target role st audit) d og p"
  using assms(1)
proof (rule mutate_membership_Inr)
  fix s g a m details err
  assume s: "caller_session d now (h raw) = Some s"
      "us_active_org s = Some g" and a: "active_member d g (us_principal_id s) = Some a"
    and gd: "mutate_guards err g (us_principal_id s) (om_role_code a) target role st d = Inr m"
    and w: "mutate_writes now audit g (us_principal_id s) target role st details m d = Inr (x, d')"
  note g' = mutate_guards_Inr [OF gd] and m = membership_ofD [OF mutate_guards_Inr(3) [OF gd]]
  obtain y where y: "y \<in> set (org_memberships d)" "om_principal_id y = p"
      "active_owner og (if om_id y = om_id m
        then y\<lparr>om_role_code := role, om_status := st, om_auth_version := om_auth_version m + 1\<rparr> else y)"
    using assms(2) unfolding owns_def mutate_writes_effect(2) [OF w] by (auto split: if_split_asm)
  show ?thesis
  proof (cases "om_id y = om_id m")
    case False
    then show ?thesis using y by (auto simp: owns_def)
  next
    case True
    then have "y = m" using same_row [OF ids, of y m] y(1) m by simp
    then have og: "og = g" "target = p" "role = ''owner''" "st = ''active''" using y m by (simp_all add: active_owner_def)
    then have "active_owner g a" using g'(1) active_memberD [OF a] by (auto simp: active_owner_def)
    then have "\<exists>b \<in> set (org_memberships d). active_owner g b \<and> om_principal_id b = us_principal_id s"
      using active_memberD [OF a] by blast
    then show ?thesis using s og g'(2) by simp
  qed
qed

lemma create_invitation_Inr:
  assumes "create_invitation dia h now tok pid audit raw email role d = Inr (x, d')"
  obtains s og m i where "caller_session d now (h raw) = Some s" "us_active_org s = Some og"
    "active_member d og (us_principal_id s) = Some m" "om_role_code m \<in> {''owner'', ''admin''}"
    "\<not> (om_role_code m = ''admin'' \<and> role = ''owner'')" "invitations d' = invitations d @ [i]"
    "iv_organisation_id i = og" "iv_role_code i = role"
  using assms
  by (auto simp: create_invitation_def insert_pending_invitation_def invitation_actor_def member_actor_def org_session_def
      Let_def store_simps bind_eq_Some_conv split: if_split_asm option.split_asm)

lemma committed_member_tables:
  "(\<And>x d'. r = Inr (x, d') \<Longrightarrow> member_tables d' = member_tables d) \<Longrightarrow> member_tables (committed r d) = member_tables d"
  by (cases r) (auto simp: committed_def)

lemma auth_exec_other_owns:
  "case op of Create_Org _ _ _ _ _ _ \<Rightarrow> True | Mutate _ _ _ _ _ \<Rightarrow> True | Accept _ _ _ _ _ \<Rightarrow> True
   | _ \<Rightarrow> owns (auth_exec dia h now op d) og p = owns d og p"
  by (cases op; simp) (rule owns_member_tables, rule committed_member_tables, erule other_ops_keep_members)+

lemma auth_exec_owns:
  assumes "owns (auth_exec dia h now op d) og p" "member_inv (member_tables d)"
  shows "owns d og p \<or> grants_owner dia h now op d og p"
proof -
  have ids: "distinct (map om_id (org_memberships d))" using assms(2) by (simp add: member_tables_def)
  have ok: "owns (committed r d) og p \<Longrightarrow> (\<And>x d'. r = Inr (x, d') \<Longrightarrow> owns d' og p \<Longrightarrow> owns d og p \<or> G) \<Longrightarrow> owns d og p \<or> G"
    for G and r :: "auth_error + 'b \<times> auth_db"
    by (cases r) (auto simp: committed_def)
  show ?thesis
  proof (cases op)
    case (Create_Org raw name op mp a1 a2)
    show ?thesis using assms(1) unfolding Create_Org auth_exec.simps by (rule ok) (rule create_organisation_owner)
  next
    case (Mutate raw target role st audit)
    show ?thesis using assms(1) unfolding Mutate auth_exec.simps by (rule ok) (rule mutate_membership_owner [OF _ _ ids])
  next
    case (Accept raw iraw mp a1 a2)
    show ?thesis using assms(1) unfolding Accept auth_exec.simps by (rule ok) (rule accept_invitation_owner)
  qed (use assms(1) auth_exec_other_owns [where op = op and dia = dia and h = h and now = now
      and d = d and og = og and p = p] in simp_all)
qed

lemma auth_exec_owner_invitation:
  assumes "i \<in> set (invitations (auth_exec dia h now op d))" "owner_invitation og i"
  shows "i \<in> set (invitations d) \<or> invites_owner h now op d og"
proof -
  have ok: "i \<in> set (invitations (committed r d)) \<Longrightarrow>
      (\<And>x d'. r = Inr (x, d') \<Longrightarrow> i \<in> set (invitations d') \<Longrightarrow> i \<in> set (invitations d) \<or> G) \<Longrightarrow> i \<in> set (invitations d) \<or> G"
    for G and r :: "auth_error + 'b \<times> auth_db"
    by (cases r) (auto simp: committed_def)
  show ?thesis
  proof (cases op)
    case (Create_Session tok pid ev p g ip ua)
    show ?thesis using assms(1) unfolding Create_Session auth_exec.simps
      by (rule ok) (cases dia, auto simp: create_session_def fn_auth_create_session_def sqlite_create_session_def Let_def store_simps
        split: option.split_asm if_split_asm dest!: record_security_event_InrD)
  next
    case (Touch raw w th)
    show ?thesis using assms(1) unfolding Touch auth_exec.simps
      by (rule ok) (auto simp: touch_session_throttled_def Let_def store_simps)
  next
    case (Revoke ev raw ip ua)
    show ?thesis using assms(1) unfolding Revoke auth_exec.simps
      by (rule ok) (auto simp: revoke_session_def Let_def store_simps split: if_split_asm dest!: record_security_event_InrD)
  next
    case (Revoke_All ev raw ip ua)
    show ?thesis using assms(1) unfolding Revoke_All auth_exec.simps
      by (rule ok) (auto simp: revoke_all_sessions_def Let_def store_simps split: option.split_asm dest!: record_security_event_InrD)
  next
    case (Switch tok audit raw g)
    show ?thesis using assms(1) unfolding Switch auth_exec.simps
      by (rule ok) (cases dia, auto simp: switch_organisation_def fn_auth_switch_organisation_def sqlite_switch_organisation_def
        rotate_session_def store_simps split: option.split_asm if_split_asm bool.split_asm)
  next
    case (Create_Org raw name op mp a1 a2)
    show ?thesis using assms(1) unfolding Create_Org auth_exec.simps
      by (rule ok) (auto elim!: create_organisation_Inr simp: found_organisation_effect(4))
  next
    case (Mutate raw target role st audit)
    show ?thesis using assms(1) unfolding Mutate auth_exec.simps
      by (rule ok) (auto elim!: mutate_membership_Inr simp: mutate_writes_effect(4))
  next
    case (Invite tok pid audit raw email role)
    have "i \<in> set (invitations d) \<or> invites_owner h now op d og"
      if "create_invitation dia h now tok pid audit raw email role d = Inr (x, d')" "i \<in> set (invitations d')" for x d'
      using that(1)
    proof (rule create_invitation_Inr)
      fix s g m j
      assume "caller_session d now (h raw) = Some s" "us_active_org s = Some g" "active_member d g (us_principal_id s) = Some m"
        "om_role_code m \<in> {''owner'', ''admin''}" "\<not> (om_role_code m = ''admin'' \<and> role = ''owner'')"
        "invitations d' = invitations d @ [j]" "iv_organisation_id j = g" "iv_role_code j = role"
      then show ?thesis
        using that(2) assms(2) active_memberD [of d g "us_principal_id s" m]
        by (auto simp: owner_invitation_def active_owner_def Invite)
    qed
    then show ?thesis using assms(1) unfolding Invite auth_exec.simps by (rule ok [rotated])
  next
    case (Accept raw iraw mp a1 a2)
    show ?thesis using assms(1) unfolding Accept auth_exec.simps
      by (rule ok) (use assms(2) in \<open>auto elim!: accept_invitation_Inr
        simp: accept_writes_effect(5) owner_invitation_def accepted_now_def split: if_split_asm\<close>)
  next
    case (Withdraw raw pid audit)
    show ?thesis using assms(1) unfolding Withdraw auth_exec.simps
      by (rule ok) (use assms(2) in \<open>auto simp: revoke_invitation_def store_simps owner_invitation_def revoked_now_def
        split: option.split_asm if_split_asm\<close>)
  qed
qed

subsection \<open>Ownership comes from ownership\<close>

text \<open>
  C29. In one operation, in either dialect, a principal becomes an active owner of an organisation only by
  founding it, by a change of membership made by another active owner, or by accepting a pending owner
  invitation sent to its address; and a pending owner invitation appears only on behalf of an active owner.
\<close>

theorem ownership_needs_authority:
  assumes "member_inv (member_tables d)"
  shows "(owns (auth_exec dia h now op d) og p \<longrightarrow> owns d og p \<or> grants_owner dia h now op d og p) \<and>
    (\<forall>i \<in> set (invitations (auth_exec dia h now op d)).
       owner_invitation og i \<longrightarrow> i \<in> set (invitations d) \<or> invites_owner h now op d og)"
  using auth_exec_owns [OF _ assms] auth_exec_owner_invitation by blast

lemma revoked_rows_dead:
  "\<forall>y \<in> set (map (\<lambda>s. if us_principal_id s = p \<and> us_active_org s = og \<and> us_revoked_at s = None then revoked now s else s) ss).
     us_principal_id y = p \<longrightarrow> us_active_org y = og \<longrightarrow> (\<forall>t. \<not> live t y)"
  unfolding set_map by (intro ballI, elim imageE) (simp add: revoked_def live_def)

text \<open>
  C31. A membership mutation that succeeds was asked for by an active owner, or by an active administrator
  about someone else who neither is nor becomes an owner; it stores the new role and status in the membership of its
  target with the next authorisation version, changing no other membership, and leaves the target no session in the
  organisation that is live at any time, touching no other session.
\<close>

theorem mutation_cuts_off_target:
  assumes "mutate_membership dia h now raw target role st audit d = Inr (x, d')"
  shows "\<exists>s og a m. caller_session d now (h raw) = Some s \<and> us_active_org s = Some og \<and>
    active_member d og (us_principal_id s) = Some a \<and> membership_of d og target = Some m \<and> us_principal_id s \<noteq> target \<and>
    (om_role_code a = ''owner'' \<or> om_role_code a = ''admin'' \<and> om_role_code m \<noteq> ''owner'' \<and> role \<noteq> ''owner'') \<and>
    x = (om_id m, role, st, om_auth_version m + 1) \<and>
    org_memberships d' = map (\<lambda>y. if om_id y = om_id m
      then y\<lparr>om_role_code := role, om_status := st, om_auth_version := om_auth_version m + 1\<rparr> else y) (org_memberships d) \<and>
    sessions d' = map (\<lambda>y. if us_principal_id y = target \<and> us_active_org y = Some og \<and> us_revoked_at y = None
      then revoked now y else y) (sessions d) \<and>
    (\<forall>y \<in> set (sessions d'). us_principal_id y = target \<longrightarrow> us_active_org y = Some og \<longrightarrow> (\<forall>t. \<not> live t y))"
  using assms
proof (rule mutate_membership_Inr)
  fix s og a m details err
  assume s: "caller_session d now (h raw) = Some s" "us_active_org s = Some og" "active_member d og (us_principal_id s) = Some a"
    and g: "mutate_guards err og (us_principal_id s) (om_role_code a) target role st d = Inr m"
    and w: "mutate_writes now audit og (us_principal_id s) target role st details m d = Inr (x, d')"
  have "\<forall>y \<in> set (sessions d'). us_principal_id y = target \<longrightarrow> us_active_org y = Some og \<longrightarrow> (\<forall>t. \<not> live t y)"
    unfolding mutate_writes_effect(1) [OF w] by (rule revoked_rows_dead)
  then show ?thesis
    using s mutate_guards_Inr(1-3) [OF g] mutate_writes_effect(1,2,6) [OF w]
    by (intro exI [of _ s] exI [of _ og] exI [of _ a] exI [of _ m]) simp
qed

subsection \<open>The migration's function refines the fallback\<close>

lemma mutate_guards_err: "mutate_guards err og actor role target n_role n_status d = Inr m \<Longrightarrow>
    mutate_guards err' og actor role target n_role n_status d = Inr m"
  by (auto simp: mutate_guards_def split: if_split_asm option.split_asm)

lemma mutate_writes_details:
  assumes "mutate_writes now audit og actor target role st details m d = Inr (x, d')"
  shows "\<exists>d''. mutate_writes now audit og actor target role st details' m d = Inr (x, d'')
    \<and> d''\<lparr>control_events := []\<rparr> = d'\<lparr>control_events := []\<rparr>"
  using assms by (auto simp: mutate_writes_def store_simps control_event_def)

text \<open>
  Whenever the function of the migration carries out a mutation, the SQLite fallback carries it out from
  the same store, with the same result and, but for the details of the audit event, the same new store.
\<close>

theorem postgres_mutation_refines_sqlite:
  assumes "mutate_membership Postgres h now raw target role st audit d = Inr (x, d')"
  shows "\<exists>d''. mutate_membership Sqlite h now raw target role st audit d = Inr (x, d'')
    \<and> d''\<lparr>control_events := []\<rparr> = d'\<lparr>control_events := []\<rparr>"
  using assms
proof (rule mutate_membership_Inr)
  fix s og a m details err
  assume s: "caller_session d now (h raw) = Some s" "us_active_org s = Some og" "active_member d og (us_principal_id s) = Some a"
    and g: "mutate_guards err og (us_principal_id s) (om_role_code a) target role st d = Inr m"
    and w: "mutate_writes now audit og (us_principal_id s) target role st details m d = Inr (x, d')"
  have "org_session d now (h raw) = Some (s, og)" using s by (simp add: org_session_def)
  then show ?thesis
    using s mutate_guards_err [OF g, of RuntimeErr] mutate_writes_details [OF w]
    by (simp add: mutate_membership_def sqlite_mutate_membership_def)
qed

subsection \<open>The properties at a concrete store\<close>

lemma demo_member_inv: "member_inv (member_tables demo_org_db)"
  by (simp add: member_tables_def demo_org_db_def demo_member_def org_key_def active_owner_def)

theorem ownership_needs_authority_witness:
  "\<not> owns (auth_exec Postgres demo_hash 5 (Mutate ''other'' 8 ''owner'' ''active'' ''e1'') demo_org_db) 3 8"
proof -
  have "\<not> owns demo_org_db 3 8"
    by (simp add: owns_def demo_org_db_def demo_member_def active_owner_def)
  moreover have "map_option us_principal_id (caller_session demo_org_db 5 (demo_hash ''other'')) = Some 8" by code_simp
  then have "\<not> grants_owner Postgres demo_hash 5 (Mutate ''other'' 8 ''owner'' ''active'' ''e1'') demo_org_db 3 8"
    by (cases "caller_session demo_org_db 5 (demo_hash ''other'')") (simp_all only: grants_owner.simps option.case option.map option.inject, simp_all)
  ultimately show ?thesis
    using conjunct1 [OF ownership_needs_authority [OF demo_member_inv]] by blast
qed

lemma demo_mutation_runs: "\<not> isl (mutate_membership Postgres demo_hash 5 ''tok'' 8 ''admin'' ''active'' ''e1'' demo_org_db)"
  by code_simp

theorem mutation_cuts_off_target_witness:
  "\<exists>d'. mutate_membership Postgres demo_hash 5 ''tok'' 8 ''admin'' ''active'' ''e1'' demo_org_db
      = Inr ((2, ''admin'', ''active'', 2), d') \<and>
    map (\<lambda>y. (om_id y, om_role_code y, om_auth_version y)) (org_memberships d') = [(1, ''owner'', 1), (2, ''admin'', 2)]"
proof -
  obtain x d' where r: "mutate_membership Postgres demo_hash 5 ''tok'' 8 ''admin'' ''active'' ''e1'' demo_org_db = Inr (x, d')"
    using demo_mutation_runs by (cases "mutate_membership Postgres demo_hash 5 ''tok'' 8 ''admin'' ''active'' ''e1'' demo_org_db") auto
  have "caller_session demo_org_db 5 (demo_hash ''tok'') = Some (demo_session\<lparr>us_active_org := Some 3, us_auth_version := Some 1\<rparr>)"
    by code_simp
  then show ?thesis
    using mutation_cuts_off_target [OF r] r
    by (auto simp: demo_session_def demo_org_db_def membership_of_def demo_member_def)
qed

theorem postgres_mutation_refines_sqlite_witness:
  "\<not> isl (mutate_membership Sqlite demo_hash 5 ''tok'' 8 ''admin'' ''active'' ''e1'' demo_org_db)"
proof -
  obtain x d' where "mutate_membership Postgres demo_hash 5 ''tok'' 8 ''admin'' ''active'' ''e1'' demo_org_db = Inr (x, d')"
    using demo_mutation_runs by (cases "mutate_membership Postgres demo_hash 5 ''tok'' 8 ''admin'' ''active'' ''e1'' demo_org_db") auto
  then show ?thesis using postgres_mutation_refines_sqlite by fastforce
qed

end
