(* ===== verification/Oidc.thy ===== *)
theory Oidc
  imports AuthSafety PyRepr
begin

section \<open>Sign-in: \<open>auth/oidc.py\<close> and the \<open>fn_oidc_*\<close> functions\<close>

text \<open>
  The authorisation-code flow: a transaction is created, consumed once by the callback, the code is
  exchanged at the identity provider, the claims of the identity token are checked and the identity is
  resolved to a principal. The provider, token decoding and the encryption of the code verifier are the
  fields of \<open>oidc_env\<close>, \<open>None\<close> where they raise. The callback returns an exception or a principal together
  with what it leaves committed: an exception after a commit keeps the committed security event, any other
  rolls the session back.
\<close>

datatype oidc_error = OidcError string | OidcStateError string | OidcTokenError string | UnverifiedEmailError string
  | IdentityCollisionError string | Db_Failure auth_error | Uncaught

record oidc_env =
  ep_issuer :: string
  ep_client_id :: string
  ep_metadata :: "(string \<times> json) list option"
  ep_exchange :: "json \<Rightarrow> string \<Rightarrow> string \<Rightarrow> (int \<times> (string \<times> json) list option) option"
  ep_get_jwks :: "json \<Rightarrow> json option"
  ep_decode :: "json \<Rightarrow> json \<Rightarrow> (string \<times> json) list option"
  ep_encrypt :: "string \<Rightarrow> string"
  ep_decrypt :: "string \<Rightarrow> string option"

definition get_metadata :: "oidc_env \<Rightarrow> oidc_error + (string \<times> json) list" where
  "get_metadata env = (case ep_metadata env of None \<Rightarrow> Inl Uncaught | Some m \<Rightarrow> Inr m)"

definition get_jwks :: "oidc_env \<Rightarrow> oidc_error + json" where
  "get_jwks env = attempt (get_metadata env) (\<lambda>m.
     if \<not> json_truthy (jget m ''jwks_uri'') then Inl (OidcError ''Discovery document missing jwks_uri'')
     else case ep_get_jwks env (jget m ''jwks_uri'') of None \<Rightarrow> Inl Uncaught | Some k \<Rightarrow> Inr k)"

subsection \<open>The transaction\<close>

definition transaction_fits :: "oidc_transaction list \<Rightarrow> oidc_transaction \<Rightarrow> (bool \<times> violation_of) list" where
  "transaction_fits others t =
    [(tx_created_at t < tx_expires_at t, Check_Of ''oidc_auth_transactions'' ''chk_oidc_tx_expiry_order''),
     (hex_hash_check 64 (Some (tx_nonce_hash t)), Check_Of ''oidc_auth_transactions'' ''chk_oidc_tx_nonce_hex''),
     (hex_hash_check 64 (Some (tx_state_hash t)), Check_Of ''oidc_auth_transactions'' ''chk_oidc_tx_state_hex''),
     (tx_public_id t \<notin> tx_public_id ` set others, Unique_Key ''oidc_auth_transactions_public_id_key''),
     (tx_state_hash t \<notin> tx_state_hash ` set others, Unique_Key ''oidc_auth_transactions_state_hash_key'')]"

definition insert_transaction :: "oidc_transaction \<Rightarrow> auth_db \<Rightarrow> auth_error + auth_db" where
  "insert_transaction t d = attempt (require_all (transaction_fits (oidc_transactions d) t))
     (\<lambda>_. Inr (d\<lparr>oidc_transactions := oidc_transactions d @ [t]\<rparr>))"

text \<open>The parameters of the authorisation URL, whose encoding is left to the HTTP library.\<close>

definition authorization_params :: "string \<Rightarrow> string \<Rightarrow> string \<Rightarrow> string \<Rightarrow> string \<Rightarrow> (string \<times> string) list" where
  "authorization_params client_id redirect_uri raw_state raw_nonce challenge =
    [(''response_type'', ''code''), (''client_id'', client_id), (''redirect_uri'', redirect_uri),
     (''scope'', ''openid email profile''), (''state'', raw_state), (''nonce'', raw_nonce),
     (''code_challenge'', challenge), (''code_challenge_method'', ''S256'')]"

definition create_authorization_flow ::
  "oidc_env \<Rightarrow> (string \<Rightarrow> string) \<Rightarrow> (string \<Rightarrow> string) \<Rightarrow> string \<Rightarrow> int \<Rightarrow> string \<Rightarrow> string \<Rightarrow> string \<Rightarrow> string \<Rightarrow> string \<Rightarrow>
   string \<Rightarrow> string \<Rightarrow> string option \<Rightarrow> auth_db \<Rightarrow>
   oidc_error + ((json \<times> (string \<times> string) list) \<times> string) \<times> auth_db" where
  "create_authorization_flow env h challenge redirect_uri now raw_state raw_nonce verifier pid event_pid return_to ip ua d =
    attempt (get_metadata env) (\<lambda>m. let ep = jget m ''authorization_endpoint'' in
      if \<not> json_truthy ep then Inl (OidcError ''Discovery document missing authorization_endpoint'')
      else map_sum Db_Failure id
        (attempt (insert_transaction \<lparr>tx_public_id = pid, tx_state_hash = h raw_state, tx_nonce_hash = h raw_nonce,
             tx_code_verifier = ep_encrypt env verifier, tx_return_to = return_to, tx_expires_at = now + seconds 600,
             tx_consumed_at = None, tx_created_at = now\<rparr> d) (\<lambda>d1.
         attempt (record_security_event event_pid now ''auth.oidc.initiated'' ''oidc_transaction'' pid (h ip)
             (truncate_user_agent ua) None [(''issuer'', JStr (ep_issuer env)), (''return_to'', JStr return_to)] d1) (\<lambda>d2.
         Inr (((ep, authorization_params (ep_client_id env) redirect_uri raw_state raw_nonce (challenge verifier)),
           raw_state), d2)))))"

text \<open>The one unconsumed, unexpired transaction of the state is marked, on both dialects.\<close>

definition open_transaction :: "int \<Rightarrow> string \<Rightarrow> oidc_transaction \<Rightarrow> bool" where
  "open_transaction now sh t \<longleftrightarrow> tx_state_hash t = sh \<and> tx_consumed_at t = None \<and> now < tx_expires_at t"

definition consume_transaction :: "int \<Rightarrow> string \<Rightarrow> auth_db \<Rightarrow> (oidc_transaction \<times> auth_db) option" where
  "consume_transaction now sh d = map_option
     (\<lambda>t. (t, d\<lparr>oidc_transactions := map (\<lambda>x. if open_transaction now sh x then x\<lparr>tx_consumed_at := Some now\<rparr> else x)
        (oidc_transactions d)\<rparr>))
     (find (open_transaction now sh) (oidc_transactions d))"

subsection \<open>The identity token\<close>

text \<open>
  How the callback stops: with an exception, or after recording a security event on a database and
  committing both.
\<close>

datatype signin_stop = Raise oidc_error
  | Report auth_db string string string "(string \<times> json) list" oidc_error

definition raising :: "oidc_error + 'a \<Rightarrow> signin_stop + 'a" where
  "raising r = map_sum Raise id r"

definition prefix_chars :: "nat \<Rightarrow> string \<Rightarrow> string" where
  "prefix_chars n s = concat (take n (text_chars s))"

definition exchange_code ::
  "oidc_env \<Rightarrow> string \<Rightarrow> string \<Rightarrow> oidc_transaction \<Rightarrow> auth_db \<Rightarrow> signin_stop + (string \<times> json) list" where
  "exchange_code env sh acode tx d =
    (let failed = Report d ''auth.oidc.callback_failed'' in
     case ep_decrypt env (tx_code_verifier tx) of
       None \<Rightarrow> Inl (Raise Uncaught)
     | Some verifier \<Rightarrow> attempt (raising (get_metadata env)) (\<lambda>m. let ep = jget m ''token_endpoint'' in
         if \<not> json_truthy ep then Inl (Raise (OidcError ''Discovery document missing token_endpoint''))
         else case ep_exchange env ep acode verifier of
           None \<Rightarrow> Inl (Raise Uncaught)
         | Some (status, body) \<Rightarrow>
             if status \<noteq> 200
               then Inl (failed ''oidc_transaction'' (take 16 sh)
                 [(''error'', JStr ''token_endpoint_error''), (''status'', JInt status)]
                 (OidcTokenError (''IdP token endpoint returned '' @ str_int status)))
             else (case body of
               None \<Rightarrow> Inl (Raise Uncaught)
             | Some tokens \<Rightarrow>
                 if \<not> json_truthy (jget tokens ''id_token'')
                   then Inl (Raise (OidcTokenError ''Missing id_token in token response''))
                 else attempt (raising (get_jwks env)) (\<lambda>jwks.
                   case ep_decode env jwks (jget tokens ''id_token'') of
                     None \<Rightarrow> Inl (failed ''id_token'' ''jwt_validation'' [(''error'', JStr ''jwt_decode_error'')]
                       (OidcTokenError ''Invalid ID Token signature or claims''))
                   | Some claims \<Rightarrow> Inr claims))))"

definition aud_values :: "json \<Rightarrow> json list" where
  "aud_values aud = (case aud of JList xs \<Rightarrow> xs | _ \<Rightarrow> [aud])"

definition first_truthy :: "json list \<Rightarrow> json" where
  "first_truthy js = (case find json_truthy js of Some j \<Rightarrow> j | None \<Rightarrow> last js)"

text \<open>
  The checks of the claims in the order of the source. An e-mail or a display name that is neither empty
  nor a text ends in an exception of \<open>str.lower\<close> or of the driver (SQLite would store a number as a name).
\<close>

definition check_claims ::
  "oidc_env \<Rightarrow> (string \<Rightarrow> string) \<Rightarrow> string \<Rightarrow> (string \<times> json) list \<Rightarrow> auth_db \<Rightarrow> signin_stop + string \<times> string \<times> string" where
  "check_claims env h nonce_hash claims d =
    (let aud = jget claims ''aud''; azp = jget claims ''azp''; nonce = jget claims ''nonce'';
         email = jget claims ''email''; sub = jget claims ''sub'';
         name = first_truthy [jget claims ''name'', jget claims ''preferred_username'', email];
         token_error = (\<lambda>m. Inl (Raise (OidcTokenError m)))
     in if jget claims ''iss'' \<noteq> JStr (ep_issuer env)
          then token_error (''Issuer mismatch: expected '' @ ep_issuer env @ '', got '' @ py_str (jget claims ''iss''))
        else if JStr (ep_client_id env) \<notin> set (aud_values aud)
          then token_error (''Audience mismatch: expected '' @ ep_client_id env @ '', got '' @ py_str aud)
        else if azp \<noteq> JNull \<and> azp \<noteq> JStr (ep_client_id env)
          then token_error ''azp claim must equal the client_id''
        else if (case aud of JList xs \<Rightarrow> 1 < length xs | _ \<Rightarrow> False) \<and> azp \<noteq> JStr (ep_client_id env)
          then token_error ''azp claim must equal the client_id when the ID token has multiple audiences''
        else if \<not> json_truthy nonce then token_error ''Nonce mismatch in ID token''
        else case nonce of
          JStr n \<Rightarrow>
            if h n \<noteq> nonce_hash then token_error ''Nonce mismatch in ID token''
            else if \<not> json_truthy (jget claims ''email_verified'')
              then Inl (Report d ''auth.oidc.callback_failed'' ''id_token''
                (prefix_chars 64 (if json_truthy sub then py_str sub else [])) [(''error'', JStr ''unverified_email'')]
                (UnverifiedEmailError ''IdP account email must be verified''))
            else if \<not> json_truthy email then token_error ''Missing email claim in ID token''
            else (case sub of
              JStr s \<Rightarrow>
                if s = [] then token_error ''Missing subject (sub) claim in ID token''
                else (case (email, name) of
                    (JStr e, JStr nm) \<Rightarrow> Inr (e, s, nm)
                  | _ \<Rightarrow> Inl (Raise Uncaught))
            | _ \<Rightarrow> token_error ''Missing subject (sub) claim in ID token'')
        | _ \<Rightarrow> Inl (Raise Uncaught))"

subsection \<open>The principal\<close>

definition trusted_issuer :: "auth_db \<Rightarrow> string \<Rightarrow> bool" where
  "trusted_issuer d iss \<longleftrightarrow> (iss, True) \<in> set (trusted_issuers d)"

definition identity_of :: "auth_db \<Rightarrow> string \<Rightarrow> string \<Rightarrow> federated_identity option" where
  "identity_of d iss sub = find (\<lambda>f. fi_issuer f = iss \<and> fi_subject f = sub) (federated_identities d)"

text \<open>A known identity signs in again: its address and the name of its principal are refreshed.\<close>

definition refresh_identity :: "string \<Rightarrow> string \<Rightarrow> string \<Rightarrow> string \<Rightarrow> int \<Rightarrow> auth_db \<Rightarrow> auth_db" where
  "refresh_identity iss sub addr name p d = d\<lparr>
     federated_identities := map (\<lambda>f. if fi_issuer f = iss \<and> fi_subject f = sub then f\<lparr>fi_email_at_auth := addr\<rparr> else f)
       (federated_identities d),
     principals := map (\<lambda>x. if pr_id x = p then x\<lparr>pr_display_name := name\<rparr> else x) (principals d)\<rparr>"

definition insert_principal :: "principal_row \<Rightarrow> auth_db \<Rightarrow> auth_error + auth_db" where
  "insert_principal p d =
    attempt (require_all [(pr_public_id p \<notin> pr_public_id ` set (principals d), Unique_Key ''principals_public_id_key'')])
      (\<lambda>_. Inr (d\<lparr>principals := principals d @ [p]\<rparr>))"

definition insert_identity :: "federated_identity \<Rightarrow> auth_db \<Rightarrow> auth_error + auth_db" where
  "insert_identity f d =
    attempt (require_all
        [(fi_email_verified f, Check_Of ''federated_identities'' ''chk_federated_email_verified''),
         (fi_public_id f \<notin> fi_public_id ` set (federated_identities d), Unique_Key ''federated_identities_public_id_key''),
         ((fi_issuer f, fi_subject f) \<notin> (\<lambda>x. (fi_issuer x, fi_subject x)) ` set (federated_identities d),
            Unique_Key ''uq_federated_issuer_subject''),
         (fi_principal_id f \<in> pr_id ` set (principals d),
            Foreign_Key_Of ''federated_identities'' ''federated_identities_principal_id_fkey'')])
      (\<lambda>_. Inr (d\<lparr>federated_identities := federated_identities d @ [f]\<rparr>))"

text \<open>The first sign-in of an identity creates its principal; both dialects insert the same rows.\<close>

definition enrol :: "string \<Rightarrow> string \<Rightarrow> string \<Rightarrow> string \<Rightarrow> string \<Rightarrow> string \<Rightarrow> auth_db \<Rightarrow> auth_error + (int \<times> string) \<times> auth_db" where
  "enrol iss sub addr name p_pid f_pid d =
    (let p = fresh_id (map pr_id (principals d)) in
     attempt (insert_principal \<lparr>pr_id = p, pr_public_id = p_pid, pr_email = addr, pr_display_name = name, pr_is_active = True\<rparr> d)
       (\<lambda>d1. attempt (insert_identity \<lparr>fi_public_id = f_pid, fi_principal_id = p, fi_issuer = iss, fi_subject = sub,
           fi_email_at_auth = addr, fi_email_verified = True\<rparr> d1) (\<lambda>d2. Inr ((p, p_pid), d2))))"

definition fn_auth_resolve_federated_identity ::
  "string \<Rightarrow> string \<Rightarrow> string \<Rightarrow> string \<Rightarrow> string \<Rightarrow> string \<Rightarrow> auth_db \<Rightarrow> auth_error + (int \<times> string) \<times> auth_db" where
  "fn_auth_resolve_federated_identity iss sub email name p_pid f_pid d =
    (let addr = py_lower (sql_trim email) in
     if \<not> trusted_issuer d iss then Inl (DatabaseErr (''Untrusted or inactive identity provider: '' @ iss))
     else case Option.bind (identity_of d iss sub) (\<lambda>f. principal_of d (fi_principal_id f)) of
       Some p \<Rightarrow>
         if \<not> pr_is_active p then Inl (DatabaseErr ''Principal account is deactivated'')
         else Inr ((pr_id p, pr_public_id p), refresh_identity iss sub addr name (pr_id p) d)
     | None \<Rightarrow>
         if list_ex (\<lambda>p. py_lower (pr_email p) = addr) (principals d)
           then Inl (DatabaseErr (''Principal with email '' @ email @ '' already exists (identity collision)''))
         else enrol iss sub addr name p_pid f_pid d)"

text \<open>
  The text of a driver error holds the server's message and the parameters of the statement, and the
  source looks in it for the collision.
\<close>

definition mentions_collision :: "string list \<Rightarrow> bool" where
  "mentions_collision parts \<longleftrightarrow>
     list_ex (\<lambda>t. contains ''identity collision'' (py_lower t) \<or> contains ''p0004'' (py_lower t)) parts"

definition error_text :: "auth_error \<Rightarrow> string" where
  "error_text e = (case e of RuntimeErr m \<Rightarrow> m | DatabaseErr m \<Rightarrow> m | Violation v \<Rightarrow> server_message v)"

definition collision_stop :: "auth_db \<Rightarrow> string \<Rightarrow> string \<Rightarrow> string \<Rightarrow> string \<Rightarrow> signin_stop" where
  "collision_stop d iss sub email shown = Report d ''auth.identity.collision'' ''principal'' (prefix_chars 64 shown)
     [(''issuer'', JStr iss), (''subject'', JStr sub)]
     (IdentityCollisionError (''Email '' @ email @ '' already belongs to an existing principal''))"

text \<open>PostgreSQL: an error rolls back to \<open>d0\<close>, the database before the callback.\<close>

definition postgres_resolve ::
  "auth_db \<Rightarrow> string \<Rightarrow> string \<Rightarrow> string \<Rightarrow> string \<Rightarrow> string \<Rightarrow> string \<Rightarrow> auth_db \<Rightarrow> signin_stop + (int \<times> string) \<times> auth_db" where
  "postgres_resolve d0 iss sub email name p_pid f_pid d =
    (case fn_auth_resolve_federated_identity iss sub email name p_pid f_pid d of
       Inr r \<Rightarrow> Inr r
     | Inl e \<Rightarrow>
         if mentions_collision [error_text e, iss, sub, email, name, p_pid, f_pid]
           then Inl (collision_stop d0 iss sub email email)
         else Inl (Raise (Db_Failure e)))"

definition sqlite_resolve ::
  "string \<Rightarrow> string \<Rightarrow> string \<Rightarrow> string \<Rightarrow> string \<Rightarrow> string \<Rightarrow> auth_db \<Rightarrow> signin_stop + (int \<times> string) \<times> auth_db" where
  "sqlite_resolve iss sub email name p_pid f_pid d =
    (let addr = py_strip (py_lower email) in
     if \<not> trusted_issuer d iss
       then Inl (Raise (OidcError (''Untrusted or inactive identity provider: '' @ iss)))
     else case identity_of d iss sub of
       Some f \<Rightarrow> (case principal_of d (fi_principal_id f) of
           Some p \<Rightarrow>
             if \<not> pr_is_active p then Inl (Raise (OidcError ''Principal account is deactivated''))
             else Inr ((pr_id p, pr_public_id p), refresh_identity iss sub addr name (pr_id p) d)
         | None \<Rightarrow> Inl (Raise (OidcError ''Principal account is deactivated'')))
     | None \<Rightarrow>
         if list_ex (\<lambda>p. pr_email p = addr) (principals d)
           then Inl (collision_stop d iss sub email addr)
         else map_sum (Raise \<circ> Db_Failure) id (enrol iss sub addr name p_pid f_pid d))"

subsection \<open>The callback\<close>

definition sign_in ::
  "dialect \<Rightarrow> oidc_env \<Rightarrow> (string \<Rightarrow> string) \<Rightarrow> int \<Rightarrow> string \<Rightarrow> string \<Rightarrow> string \<Rightarrow> string \<Rightarrow> string \<Rightarrow> string \<Rightarrow> string option \<Rightarrow>
   auth_db \<Rightarrow> signin_stop + (int \<times> string \<times> string) \<times> auth_db" where
  "sign_in dia env h now event_pid p_pid f_pid acode raw_state ip ua d =
    (let sh = h raw_state; iss = ep_issuer env in
     case consume_transaction now sh d of
       None \<Rightarrow> Inl (Report d ''auth.oidc.callback_failed'' ''oidc_transaction'' (take 16 sh)
         [(''error'', JStr ''invalid_or_replayed_state'')]
         (OidcStateError ''Invalid, expired, or previously consumed OIDC state''))
     | Some (tx, d1) \<Rightarrow>
         attempt (exchange_code env sh acode tx d1) (\<lambda>claims.
         attempt (check_claims env h (tx_nonce_hash tx) claims d1) (\<lambda>(email, sub, name).
         attempt (case dia of
             Postgres \<Rightarrow> postgres_resolve d iss sub email name p_pid f_pid d1
           | Sqlite \<Rightarrow> sqlite_resolve iss sub email name p_pid f_pid d1) (\<lambda>((p, pid), d2).
         attempt (map_sum (Raise \<circ> Db_Failure) id (record_security_event event_pid now ''auth.oidc.callback_success''
             ''principal'' pid (h ip) (truncate_user_agent ua) (Some p)
             [(''issuer'', JStr iss), (''email'', JStr email)] d2)) (\<lambda>d3.
         Inr ((p, pid, tx_return_to tx), d3))))))"

definition process_callback ::
  "dialect \<Rightarrow> oidc_env \<Rightarrow> (string \<Rightarrow> string) \<Rightarrow> int \<Rightarrow> string \<Rightarrow> string \<Rightarrow> string \<Rightarrow> string \<Rightarrow> string \<Rightarrow> string \<Rightarrow> string option \<Rightarrow>
   auth_db \<Rightarrow> (oidc_error + int \<times> string \<times> string) \<times> auth_db" where
  "process_callback dia env h now event_pid p_pid f_pid acode raw_state ip ua d =
    (case sign_in dia env h now event_pid p_pid f_pid acode raw_state ip ua d of
       Inr (r, d') \<Rightarrow> (Inr r, d')
     | Inl (Raise e) \<Rightarrow> (Inl e, d)
     | Inl (Report base ty st sub details e) \<Rightarrow>
         (case record_security_event event_pid now ty st sub (h ip) (truncate_user_agent ua) None details base of
            Inl x \<Rightarrow> (Inl (Db_Failure x), d)
          | Inr d' \<Rightarrow> (Inl e, d')))"

end
