(* ===== verification/OidcSafety.thy ===== *)
theory OidcSafety
  imports Oidc SessionSafety
begin

section \<open>What a sign-in establishes\<close>

text \<open>
  The callback that succeeds has consumed an open transaction, checked every claim it relies on, and
  resolved the identity to the principal it was linked to before or to a new one; a state is worth one
  sign-in at most, whatever flows are begun and completed afterwards.
\<close>

definition claims_accepted :: "oidc_env \<Rightarrow> (string \<Rightarrow> string) \<Rightarrow> string \<Rightarrow> (string \<times> json) list \<Rightarrow> bool" where
  "claims_accepted env h nonce_hash claims \<longleftrightarrow>
     jget claims ''iss'' = JStr (ep_issuer env) \<and>
     JStr (ep_client_id env) \<in> set (aud_values (jget claims ''aud'')) \<and>
     jget claims ''azp'' \<in> {JNull, JStr (ep_client_id env)} \<and>
     (1 < length (aud_values (jget claims ''aud'')) \<longrightarrow> jget claims ''azp'' = JStr (ep_client_id env)) \<and>
     (\<exists>n. jget claims ''nonce'' = JStr n \<and> n \<noteq> [] \<and> h n = nonce_hash) \<and>
     json_truthy (jget claims ''email_verified'')"

lemma check_claims_Inr:
  assumes "check_claims env h nonce_hash claims d = Inr (email, sub, name)"
  shows "claims_accepted env h nonce_hash claims" "jget claims ''email'' = JStr email" "jget claims ''sub'' = JStr sub" "sub \<noteq> []"
proof -
  note chk = assms [unfolded check_claims_def Let_def]
  have c: "jget claims ''iss'' = JStr (ep_issuer env)" "JStr (ep_client_id env) \<in> set (aud_values (jget claims ''aud''))"
    "jget claims ''azp'' = JNull \<or> jget claims ''azp'' = JStr (ep_client_id env)"
    using chk by (simp_all split: if_split_asm)
  have m: "1 < length (aud_values (jget claims ''aud'')) \<longrightarrow> jget claims ''azp'' = JStr (ep_client_id env)"
    using chk by (cases "jget claims ''aud''") (simp_all add: aud_values_def split: if_split_asm)
  obtain n where n: "jget claims ''nonce'' = JStr n" "n \<noteq> []"
    using chk by (cases "jget claims ''nonce''") (simp_all add: json_truthy_def split: if_split_asm)
  have v: "h n = nonce_hash" "json_truthy (jget claims ''email_verified'')"
    using chk by (simp_all add: n json_truthy_def [of "JStr n"] split: if_split_asm)
  show "claims_accepted env h nonce_hash claims" using c m n v by (simp add: claims_accepted_def)
  obtain s where s: "jget claims ''sub'' = JStr s" "s \<noteq> []"
    using chk by (cases "jget claims ''sub''") (simp_all add: n split: if_split_asm)
  obtain e where e: "jget claims ''email'' = JStr e"
    using chk by (cases "jget claims ''email''") (simp_all add: n s split: if_split_asm)
  have "e = email \<and> s = sub"
    using chk by (simp add: n s e split: if_split_asm json.split_asm)
  then show "jget claims ''email'' = JStr email" "jget claims ''sub'' = JStr sub" "sub \<noteq> []" using s e by simp_all
qed

lemma consume_transactionD:
  "consume_transaction now sh d = Some (t, d1) \<Longrightarrow> t \<in> set (oidc_transactions d) \<and> open_transaction now sh t \<and>
     d1 = d\<lparr>oidc_transactions := map (\<lambda>x. if open_transaction now sh x then x\<lparr>tx_consumed_at := Some now\<rparr> else x) (oidc_transactions d)\<rparr>"
  by (auto simp: consume_transaction_def dest!: find_SomeD)

text \<open>
  The claims the provider vouches for: those of the identity token that its token endpoint returned for the code and
  the decrypted verifier of the transaction, decoded with its published keys.
\<close>

definition token_claims :: "oidc_env \<Rightarrow> string \<Rightarrow> oidc_transaction \<Rightarrow> (string \<times> json) list \<Rightarrow> bool" where
  "token_claims env acode tx claims \<longleftrightarrow> (\<exists>verifier m tokens jwks. ep_decrypt env (tx_code_verifier tx) = Some verifier \<and>
     ep_metadata env = Some m \<and> ep_exchange env (jget m ''token_endpoint'') acode verifier = Some (200, Some tokens) \<and>
     ep_get_jwks env (jget m ''jwks_uri'') = Some jwks \<and> ep_decode env jwks (jget tokens ''id_token'') = Some claims)"

lemma exchange_code_Inr: "exchange_code env sh acode tx d = Inr claims \<Longrightarrow> token_claims env acode tx claims"
  by (auto simp: exchange_code_def token_claims_def raising_def Let_def get_metadata_def get_jwks_def attempt_def
      split: option.split_asm if_split_asm sum.split_asm prod.split_asm)

text \<open>The rows that say who an identity is.\<close>

definition links :: "auth_db \<Rightarrow> (string \<times> string \<times> int) list" where
  "links d = map (\<lambda>f. (fi_issuer f, fi_subject f, fi_principal_id f)) (federated_identities d)"

definition accounts :: "auth_db \<Rightarrow> (int \<times> string \<times> string \<times> bool) list" where
  "accounts d = map (\<lambda>p. (pr_id p, pr_public_id p, pr_email p, pr_is_active p)) (principals d)"

definition resolved :: "dialect \<Rightarrow> string \<Rightarrow> string \<Rightarrow> string \<Rightarrow> int \<Rightarrow> string \<Rightarrow> auth_db \<Rightarrow> auth_db \<Rightarrow> bool" where
  "resolved dia iss sub email p pid d d' \<longleftrightarrow> trusted_issuer d iss \<and>
     ((iss, sub, p) \<in> set (links d) \<and> (\<exists>e. (p, pid, e, True) \<in> set (accounts d)) \<and> links d' = links d \<and> accounts d' = accounts d
      \<or> (iss, sub) \<notin> (\<lambda>(i, s, _). (i, s)) ` set (links d) \<and> p \<notin> fst ` set (accounts d) \<and>
        (\<exists>addr. addr \<notin> (\<lambda>(_, _, e, _). e) ` set (accounts d) \<and> links d' = links d @ [(iss, sub, p)] \<and>
          accounts d' = accounts d @ [(p, pid, addr, True)]))"

lemma refresh_identity_rows [simp]:
  "links (refresh_identity iss sub addr name p d) = links d" "accounts (refresh_identity iss sub addr name p d) = accounts d"
  by (simp_all add: links_def accounts_def refresh_identity_def)

lemma identity_link: "identity_of d iss sub = Some f \<Longrightarrow> (iss, sub, fi_principal_id f) \<in> set (links d)"
  by (auto simp: identity_of_def links_def dest!: find_SomeD)

lemma principal_account: "principal_of d p = Some x \<Longrightarrow> (p, pr_public_id x, pr_email x, pr_is_active x) \<in> set (accounts d)"
  by (auto simp: principal_of_def accounts_def dest!: find_SomeD)

lemma principal_of_id: "principal_of d p = Some x \<Longrightarrow> pr_id x = p"
  by (auto simp: principal_of_def dest!: find_SomeD)

lemma insert_principal_Inr: "insert_principal p d = Inr d' \<longleftrightarrow>
    pr_public_id p \<notin> pr_public_id ` set (principals d) \<and> d' = d\<lparr>principals := principals d @ [p]\<rparr>"
  by (auto simp: insert_principal_def store_simps)

lemma insert_identity_InrD: "insert_identity f d = Inr d' \<Longrightarrow>
    (fi_issuer f, fi_subject f) \<notin> (\<lambda>x. (fi_issuer x, fi_subject x)) ` set (federated_identities d) \<and>
    d' = d\<lparr>federated_identities := federated_identities d @ [f]\<rparr>"
  by (auto simp: insert_identity_def store_simps simp del: require_all.simps)

lemma enrol_Inr:
  assumes "enrol iss sub addr name p_pid f_pid d = Inr ((p, pid), d')"
  shows "(iss, sub) \<notin> (\<lambda>(i, s, _). (i, s)) ` set (links d)" "p \<notin> fst ` set (accounts d)" "pid = p_pid"
    "links d' = links d @ [(iss, sub, p)]" "accounts d' = accounts d @ [(p, pid, addr, True)]"
  using assms fresh_id_notin [of "map pr_id (principals d)"]
  by (auto simp: enrol_def Let_def attempt_Inr insert_principal_Inr links_def accounts_def image_image dest!: insert_identity_InrD)

lemma known_identity:
  assumes "identity_of d iss sub = Some f" "principal_of d (fi_principal_id f) = Some x" "pr_is_active x" "trusted_issuer d iss"
  shows "resolved dia iss sub email (pr_id x) (pr_public_id x) d (refresh_identity iss sub addr name (pr_id x) d)"
  using identity_link [OF assms(1)] principal_account [OF assms(2)] principal_of_id [OF assms(2)] assms(3,4)
  by (auto simp: resolved_def)

lemma postgres_resolve_Inr:
  assumes "postgres_resolve d0 iss sub email name p_pid f_pid d = Inr ((p, pid), d')"
  shows "resolved Postgres iss sub email p pid d d'"
proof -
  have r: "fn_auth_resolve_federated_identity iss sub email name p_pid f_pid d = Inr ((p, pid), d')"
    using assms by (simp add: postgres_resolve_def split: sum.split_asm if_split_asm)
  then have t: "trusted_issuer d iss"
    by (simp add: fn_auth_resolve_federated_identity_def Let_def split: if_split_asm)
  show ?thesis
  proof (cases "Option.bind (identity_of d iss sub) (\<lambda>f. principal_of d (fi_principal_id f))")
    case (Some x)
    then show ?thesis
      using r t by (auto simp: fn_auth_resolve_federated_identity_def Let_def bind_eq_Some_conv
          intro: known_identity split: if_split_asm)
  next
    case None
    then have n: "\<not> list_ex (\<lambda>p. py_lower (pr_email p) = py_lower (sql_trim email)) (principals d)"
        "enrol iss sub (py_lower (sql_trim email)) name p_pid f_pid d = Inr ((p, pid), d')"
      using r t by (simp_all add: fn_auth_resolve_federated_identity_def Let_def split: if_split_asm)
    have "py_lower (sql_trim email) \<noteq> pr_email y" if "y \<in> set (principals d)" for y
    proof
      assume "py_lower (sql_trim email) = pr_email y"
      then have "py_lower (pr_email y) = py_lower (sql_trim email)" by (metis py_lower_idem)
      then show False using n(1) that by (auto simp: list_ex_iff)
    qed
    then have "py_lower (sql_trim email) \<notin> (\<lambda>(_, _, e, _). e) ` set (accounts d)"
      by (auto simp: accounts_def)
    then show ?thesis using t enrol_Inr [OF n(2)] unfolding resolved_def by blast
  qed
qed

lemma sqlite_resolve_Inr:
  assumes "sqlite_resolve iss sub email name p_pid f_pid d = Inr ((p, pid), d')"
  shows "resolved Sqlite iss sub email p pid d d'"
proof -
  have t: "trusted_issuer d iss" using assms by (simp add: sqlite_resolve_def Let_def split: if_split_asm)
  show ?thesis
  proof (cases "identity_of d iss sub")
    case (Some f)
    then show ?thesis
      using assms t by (auto simp: sqlite_resolve_def Let_def intro: known_identity split: if_split_asm option.split_asm)
  next
    case None
    then have n: "\<not> list_ex (\<lambda>p. pr_email p = py_strip (py_lower email)) (principals d)"
        "enrol iss sub (py_strip (py_lower email)) name p_pid f_pid d = Inr ((p, pid), d')"
      using assms t
      by (cases "enrol iss sub (py_strip (py_lower email)) name p_pid f_pid d"; simp add: sqlite_resolve_def Let_def split: if_split_asm)+
    then have "py_strip (py_lower email) \<notin> (\<lambda>(_, _, e, _). e) ` set (accounts d)"
      by (auto simp: accounts_def list_ex_iff)
    then show ?thesis using t enrol_Inr [OF n(2)] unfolding resolved_def by blast
  qed
qed

subsection \<open>A successful callback\<close>

text \<open>
  C38. A callback that signs in, in either dialect, had an open transaction of its state, and a trusted issuer
  whose token endpoint returned, for the code and the verifier of that transaction, an identity token that decodes
  to claims with the right issuer, audience, authorised party and nonce, a verified e-mail and a subject. The principal it returns was linked to that identity and is active, or the identity is
  new and so is the principal, whose address no principal had; no other link, account, address or activation
  changes.
\<close>

theorem sign_in_sound:
  assumes "process_callback dia env h now ev p_pid f_pid acode raw_state ip ua d = (Inr (p, pid, ret), d')"
  shows "\<exists>tx claims email sub. tx \<in> set (oidc_transactions d) \<and> open_transaction now (h raw_state) tx \<and> ret = tx_return_to tx \<and>
    token_claims env acode tx claims \<and> claims_accepted env h (tx_nonce_hash tx) claims \<and> jget claims ''email'' = JStr email \<and> jget claims ''sub'' = JStr sub \<and>
    sub \<noteq> [] \<and> resolved dia (ep_issuer env) sub email p pid d d'"
proof -
  have s: "sign_in dia env h now ev p_pid f_pid acode raw_state ip ua d = Inr ((p, pid, ret), d')"
    using assms by (simp add: process_callback_def split: sum.split_asm prod.split_asm signin_stop.split_asm)
  obtain tx d1 where c: "consume_transaction now (h raw_state) d = Some (tx, d1)"
    using s by (auto simp: sign_in_def Let_def split: option.split_asm)
  obtain claims email sub name d2 where x: "exchange_code env (h raw_state) acode tx d1 = Inr claims"
    and k: "check_claims env h (tx_nonce_hash tx) claims d1 = Inr (email, sub, name)"
    and r: "(case dia of Postgres \<Rightarrow> postgres_resolve d (ep_issuer env) sub email name p_pid f_pid d1
        | Sqlite \<Rightarrow> sqlite_resolve (ep_issuer env) sub email name p_pid f_pid d1) = Inr ((p, pid), d2)"
    and e: "map_sum (Raise \<circ> Db_Failure) id (record_security_event ev now ''auth.oidc.callback_success'' ''principal'' pid
        (h ip) (truncate_user_agent ua) (Some p) [(''issuer'', JStr (ep_issuer env)), (''email'', JStr email)] d2) = Inr d'"
    and ret: "ret = tx_return_to tx"
    using s by (auto simp: sign_in_def Let_def c attempt_Inr)
  have "resolved dia (ep_issuer env) sub email p pid d1 d2"
    using r by (cases dia) (simp_all add: postgres_resolve_Inr sqlite_resolve_Inr)
  moreover have "links d1 = links d" "accounts d1 = accounts d" "trusted_issuers d1 = trusted_issuers d"
    using consume_transactionD [OF c] by (simp_all add: links_def accounts_def)
  moreover obtain e' where "d' = d2\<lparr>security_events := security_events d2 @ [e']\<rparr>"
    using e by (cases "record_security_event ev now ''auth.oidc.callback_success'' ''principal'' pid (h ip)
      (truncate_user_agent ua) (Some p) [(''issuer'', JStr (ep_issuer env)), (''email'', JStr email)] d2")
      (auto dest: record_security_event_InrD)
  then have "links d' = links d2" "accounts d' = accounts d2" by (simp_all add: links_def accounts_def)
  ultimately have "resolved dia (ep_issuer env) sub email p pid d d'"
    by (simp add: resolved_def trusted_issuer_def)
  then show ?thesis
    using consume_transactionD [OF c] exchange_code_Inr [OF x] check_claims_Inr [OF k] ret by blast
qed

subsection \<open>A state is worth one sign-in\<close>

definition spent :: "int \<Rightarrow> string \<Rightarrow> auth_db \<Rightarrow> bool" where
  "spent now sh d \<longleftrightarrow> sh \<in> tx_state_hash ` set (oidc_transactions d) \<and>
     (\<forall>t \<in> set (oidc_transactions d). \<not> open_transaction now sh t)"

lemma spent_later: "spent now sh d \<Longrightarrow> now \<le> now' \<Longrightarrow> spent now' sh d"
  by (fastforce simp: spent_def open_transaction_def)

lemma spent_consume: "spent now sh d \<Longrightarrow> consume_transaction now sh d = None"
  by (simp add: consume_transaction_def spent_def find_None_iff)

text \<open>What the table of transactions can become in one callback.\<close>

definition marked :: "int \<Rightarrow> string \<Rightarrow> oidc_transaction list \<Rightarrow> oidc_transaction list" where
  "marked now sh = map (\<lambda>x. if open_transaction now sh x then x\<lparr>tx_consumed_at := Some now\<rparr> else x)"

lemma marked_hashes: "map tx_state_hash (marked now sh ts) = map tx_state_hash ts"
  by (simp add: marked_def comp_def if_distrib [of tx_state_hash])

lemma marked_not_open: "t \<in> set (marked now sh ts) \<Longrightarrow> \<not> open_transaction now sh t"
  unfolding marked_def set_map by (elim imageE) (simp add: open_transaction_def)

lemma marked_still_closed:
  "\<forall>t \<in> set ts. \<not> open_transaction now sh t \<Longrightarrow> t \<in> set (marked now' sh' ts) \<Longrightarrow> \<not> open_transaction now sh t"
  unfolding marked_def set_map by (elim imageE) (simp add: open_transaction_def)

lemma enrol_transactions: "enrol iss sub addr name p_pid f_pid d = Inr (r, d') \<Longrightarrow> oidc_transactions d' = oidc_transactions d"
  by (auto simp: enrol_def Let_def attempt_Inr insert_principal_Inr dest!: insert_identity_InrD)

lemma fn_resolve_transactions:
  "fn_auth_resolve_federated_identity iss sub email name p_pid f_pid d = Inr (r, d') \<Longrightarrow> oidc_transactions d' = oidc_transactions d"
  by (auto simp: fn_auth_resolve_federated_identity_def Let_def refresh_identity_def dest: enrol_transactions
      split: if_split_asm option.split_asm)

lemma sqlite_resolve_transactions:
  "sqlite_resolve iss sub email name p_pid f_pid d = Inr (r, d') \<Longrightarrow> oidc_transactions d' = oidc_transactions d"
  by (cases "enrol iss sub (py_strip (py_lower email)) name p_pid f_pid d")
    (auto simp: sqlite_resolve_def Let_def refresh_identity_def dest: enrol_transactions
      split: if_split_asm option.split_asm)

definition stop_on :: "oidc_transaction list list \<Rightarrow> signin_stop \<Rightarrow> bool" where
  "stop_on tables s \<longleftrightarrow> (case s of Raise _ \<Rightarrow> True | Report base _ _ _ _ _ \<Rightarrow> oidc_transactions base \<in> set tables)"

lemma exchange_code_stop: "exchange_code env sh acode tx d = Inl s \<Longrightarrow> stop_on [oidc_transactions d] s"
  by (auto simp: exchange_code_def raising_def stop_on_def Let_def get_metadata_def get_jwks_def attempt_def
      split: option.split_asm if_split_asm sum.split_asm prod.split_asm signin_stop.split)

definition stops_on :: "oidc_transaction list list \<Rightarrow> signin_stop + 'a \<Rightarrow> bool" where
  "stops_on tables r \<longleftrightarrow> (\<forall>s. r = Inl s \<longrightarrow> stop_on tables s)"

lemma stops_on_intros:
  "stops_on T (Inr x)" "stops_on T (Inl (Raise e))"
  "oidc_transactions base \<in> set T \<Longrightarrow> stops_on T (Inl (Report base ty st sub details e))"
  "stops_on T x1 \<Longrightarrow> stops_on T x2 \<Longrightarrow> stops_on T (if b then x1 else x2)"
  by (simp_all add: stops_on_def stop_on_def)

lemma stops_on_json:
  assumes "stops_on T n" "\<And>x. stops_on T (b x)" "\<And>x. stops_on T (i x)" "\<And>x. stops_on T (f x)" "\<And>x. stops_on T (s x)"
    "\<And>x. stops_on T (l x)" "\<And>x. stops_on T (ob x)"
  shows "stops_on T (case j of JNull \<Rightarrow> n | JBool x \<Rightarrow> b x | JInt x \<Rightarrow> i x | JFloat x \<Rightarrow> f x | JStr x \<Rightarrow> s x
    | JList x \<Rightarrow> l x | JObj x \<Rightarrow> ob x)"
  using assms by (cases j) simp_all

lemma check_claims_stop: "check_claims env h nh claims d = Inl s \<Longrightarrow> stop_on [oidc_transactions d] s"
proof -
  have "stops_on [oidc_transactions d] (check_claims env h nh claims d)"
    unfolding check_claims_def Let_def prod.case by (intro stops_on_intros stops_on_json) simp
  then show "check_claims env h nh claims d = Inl s \<Longrightarrow> stop_on [oidc_transactions d] s" by (simp add: stops_on_def)
qed

lemma postgres_resolve_stop: "postgres_resolve d0 iss sub email name p_pid f_pid d = Inl s \<Longrightarrow> stop_on [oidc_transactions d0] s"
  by (auto simp: postgres_resolve_def stop_on_def collision_stop_def split: sum.split_asm if_split_asm)

lemma sqlite_resolve_stop: "sqlite_resolve iss sub email name p_pid f_pid d = Inl s \<Longrightarrow> stop_on [oidc_transactions d] s"
  by (cases "enrol iss sub (py_strip (py_lower email)) name p_pid f_pid d")
    (auto simp: sqlite_resolve_def stop_on_def collision_stop_def Let_def split: if_split_asm option.split_asm)

lemma record_transactions: "record_security_event pid now ty st sub ip ua actor details d = Inr d' \<Longrightarrow> oidc_transactions d' = oidc_transactions d"
  by (auto dest: record_security_event_InrD)

lemma stops_on_attempt:
  "stops_on T r \<Longrightarrow> (\<And>x. stops_on T (f x)) \<Longrightarrow> stops_on T (attempt r f)"
  by (cases r) (auto simp: stops_on_def)

lemma stops_on_raise: "stops_on T (map_sum (Raise \<circ> Db_Failure) id r)"
  by (cases r) (simp_all add: stops_on_def stop_on_def)

lemma stops_on_weaken: "(\<And>s. r = Inl s \<Longrightarrow> stop_on [t] s) \<Longrightarrow> t \<in> set T \<Longrightarrow> stops_on T r"
  by (auto simp: stops_on_def stop_on_def split: signin_stop.split_asm signin_stop.split)

lemma sign_in_stop:
  assumes "sign_in dia env h now ev p_pid f_pid acode raw_state ip ua d = Inl s"
  shows "stop_on [oidc_transactions d, marked now (h raw_state) (oidc_transactions d)] s"
proof (cases "consume_transaction now (h raw_state) d")
  case None
  then show ?thesis using assms by (auto simp: sign_in_def Let_def stop_on_def)
next
  case (Some td)
  then obtain tx d1 where c: "consume_transaction now (h raw_state) d = Some (tx, d1)" by (cases td) auto
  then have d1: "oidc_transactions d1 = marked now (h raw_state) (oidc_transactions d)"
    using consume_transactionD [OF c] by (simp add: marked_def)
  let ?T = "[oidc_transactions d, marked now (h raw_state) (oidc_transactions d)]"
  have "stops_on ?T (sign_in dia env h now ev p_pid f_pid acode raw_state ip ua d)"
    unfolding sign_in_def Let_def c option.case prod.case
    by (cases dia; intro stops_on_attempt stops_on_intros stops_on_raise)
      (auto intro!: stops_on_intros stops_on_attempt stops_on_raise
        intro: stops_on_weaken exchange_code_stop check_claims_stop postgres_resolve_stop sqlite_resolve_stop simp: d1)
  then show ?thesis using assms by (simp add: stops_on_def)
qed

lemma sign_in_transactions:
  assumes "sign_in dia env h now ev p_pid f_pid acode raw_state ip ua d = Inr (r, d')"
  shows "oidc_transactions d' = marked now (h raw_state) (oidc_transactions d)"
    "\<exists>t \<in> set (oidc_transactions d). tx_state_hash t = h raw_state"
proof -
  obtain tx d1 where c: "consume_transaction now (h raw_state) d = Some (tx, d1)"
    using assms by (auto simp: sign_in_def Let_def split: option.split_asm)
  obtain email sub name p pid d2 where
      r: "(case dia of Postgres \<Rightarrow> postgres_resolve d (ep_issuer env) sub email name p_pid f_pid d1
        | Sqlite \<Rightarrow> sqlite_resolve (ep_issuer env) sub email name p_pid f_pid d1) = Inr ((p, pid), d2)"
    and e: "map_sum (Raise \<circ> Db_Failure) id (record_security_event ev now ''auth.oidc.callback_success'' ''principal'' pid
        (h ip) (truncate_user_agent ua) (Some p) [(''issuer'', JStr (ep_issuer env)), (''email'', JStr email)] d2) = Inr d'"
    using assms by (auto simp: sign_in_def Let_def c attempt_Inr)
  have "oidc_transactions d2 = oidc_transactions d1"
    using r by (cases dia) (auto simp: postgres_resolve_def dest: fn_resolve_transactions sqlite_resolve_transactions
        split: sum.split_asm if_split_asm)
  moreover have "oidc_transactions d' = oidc_transactions d2"
    using e by (cases "record_security_event ev now ''auth.oidc.callback_success'' ''principal'' pid
      (h ip) (truncate_user_agent ua) (Some p) [(''issuer'', JStr (ep_issuer env)), (''email'', JStr email)] d2")
      (auto dest: record_transactions)
  ultimately show "oidc_transactions d' = marked now (h raw_state) (oidc_transactions d)"
    using consume_transactionD [OF c] by (simp add: marked_def)
  show "\<exists>t \<in> set (oidc_transactions d). tx_state_hash t = h raw_state"
    using consume_transactionD [OF c] by (auto simp: open_transaction_def)
qed

lemma process_callback_transactions:
  assumes "process_callback dia env h now ev p_pid f_pid acode raw_state ip ua d = (r, d')"
  shows "oidc_transactions d' = oidc_transactions d \<or> oidc_transactions d' = marked now (h raw_state) (oidc_transactions d)"
proof (cases "sign_in dia env h now ev p_pid f_pid acode raw_state ip ua d")
  case (Inl s)
  then show ?thesis
    using assms sign_in_stop [OF Inl]
    by (cases s) (auto simp: process_callback_def stop_on_def dest: record_transactions split: sum.split_asm)
next
  case (Inr rd)
  then show ?thesis using assms sign_in_transactions(1) by (cases rd) (auto simp: process_callback_def)
qed

subsection \<open>Runs of the flow\<close>

datatype login_op =
    Begin string string string string string string string "string option"
  | Callback oidc_env string string string string string string "string option"

fun login_exec :: "dialect \<Rightarrow> oidc_env \<Rightarrow> (string \<Rightarrow> string) \<Rightarrow> (string \<Rightarrow> string) \<Rightarrow> string \<Rightarrow> int \<Rightarrow> login_op \<Rightarrow> auth_db \<Rightarrow> auth_db" where
  "login_exec dia env h challenge uri now (Begin st nonce verifier pid ev ret ip ua) d =
     (case create_authorization_flow env h challenge uri now st nonce verifier pid ev ret ip ua d of Inl _ \<Rightarrow> d | Inr (_, d') \<Rightarrow> d')"
| "login_exec dia env h challenge uri now (Callback env' ev p_pid f_pid acode st ip ua) d =
     snd (process_callback dia env' h now ev p_pid f_pid acode st ip ua d)"

fun login_run :: "dialect \<Rightarrow> oidc_env \<Rightarrow> (string \<Rightarrow> string) \<Rightarrow> (string \<Rightarrow> string) \<Rightarrow> string \<Rightarrow> (int \<times> login_op) list \<Rightarrow> auth_db \<Rightarrow> auth_db" where
  "login_run dia env h challenge uri [] d = d"
| "login_run dia env h challenge uri ((now, op) # es) d = login_run dia env h challenge uri es (login_exec dia env h challenge uri now op d)"

lemma create_flow_transactions:
  assumes "create_authorization_flow env h challenge uri now st nonce verifier pid ev ret ip ua d = Inr (r, d')"
  shows "\<exists>t. tx_state_hash t \<notin> tx_state_hash ` set (oidc_transactions d) \<and> oidc_transactions d' = oidc_transactions d @ [t]"
proof -
  obtain t d1 where "insert_transaction t d = Inr d1" "oidc_transactions d' = oidc_transactions d1"
    using assms by (auto simp: create_authorization_flow_def Let_def attempt_def dest: record_transactions
        split: sum.split_asm if_split_asm)
  then show ?thesis
    by (auto simp: insert_transaction_def store_simps transaction_fits_def simp del: require_all.simps)
qed

lemma spent_table:
  assumes "spent now sh d" "oidc_transactions d' = marked t sh' (oidc_transactions d)"
  shows "spent now sh d'"
proof -
  have "tx_state_hash ` set (oidc_transactions d') = tx_state_hash ` set (oidc_transactions d)"
    using arg_cong [OF marked_hashes, of set] by (simp add: assms(2))
  moreover have "\<not> open_transaction now sh x" if "x \<in> set (oidc_transactions d')" for x
  proof (rule marked_still_closed)
    show "\<forall>t \<in> set (oidc_transactions d). \<not> open_transaction now sh t" using assms(1) by (simp add: spent_def)
    show "x \<in> set (marked t sh' (oidc_transactions d))" using that by (simp add: assms(2))
  qed
  ultimately show ?thesis using assms(1) by (simp add: spent_def)
qed

lemma login_exec_spent: "spent now sh d \<Longrightarrow> spent now sh (login_exec dia env h challenge uri now op d)"
proof (cases op)
  case (Begin st nonce verifier pid ev ret ip ua)
  assume sp: "spent now sh d"
  show ?thesis
  proof (cases "create_authorization_flow env h challenge uri now st nonce verifier pid ev ret ip ua d")
    case (Inr rd)
    obtain r d' where rd: "rd = (r, d')" by (cases rd)
    obtain t where "tx_state_hash t \<notin> tx_state_hash ` set (oidc_transactions d)" "oidc_transactions d' = oidc_transactions d @ [t]"
      using create_flow_transactions [OF Inr [unfolded rd]] by blast
    then show ?thesis using sp by (auto simp: Begin Inr rd spent_def open_transaction_def)
  qed (simp add: Begin sp)
next
  case (Callback env' ev p_pid f_pid acode st ip ua)
  assume sp: "spent now sh d"
  obtain r d' where r: "process_callback dia env' h now ev p_pid f_pid acode st ip ua d = (r, d')"
    by (cases "process_callback dia env' h now ev p_pid f_pid acode st ip ua d")
  show ?thesis
    using process_callback_transactions [OF r] sp spent_table [OF sp, of d'] by (auto simp: Callback r spent_def)
qed

lemma login_run_spent:
  "sorted (t # map fst es @ [t']) \<Longrightarrow> spent t sh d \<Longrightarrow> spent t' sh (login_run dia env h challenge uri es d)"
proof (induction dia env h challenge uri es d arbitrary: t rule: login_run.induct)
  case (1 dia env h challenge uri d)
  then show ?case by (auto intro: spent_later)
next
  case (2 dia env h challenge uri now op es d)
  then have "spent now sh d" by (auto intro: spent_later)
  then show ?case using 2(1) [of now] 2(2) by (simp add: login_exec_spent)
qed

text \<open>
  C37. Once a callback has signed in with a state, no later callback signs in with it, whatever flows were
  begun and completed in between, with any code and any answer of the provider.
\<close>

theorem state_signs_in_once:
  assumes "process_callback dia env h now ev p_pid f_pid acode raw_state ip ua d = (Inr r, d')"
    "sorted (now # map fst es @ [t'])"
  shows "isl (fst (process_callback dia env' h t' ev' p_pid' f_pid' acode' raw_state ip' ua'
    (login_run dia env h challenge uri es d')))"
proof -
  have s: "sign_in dia env h now ev p_pid f_pid acode raw_state ip ua d = Inr (r, d')"
    using assms(1) by (simp add: process_callback_def split: sum.split_asm prod.split_asm signin_stop.split_asm)
  obtain t where "t \<in> set (oidc_transactions d)" "tx_state_hash t = h raw_state"
    using sign_in_transactions(2) [OF s] by blast
  then have "h raw_state \<in> tx_state_hash ` set (oidc_transactions d)" by force
  then have "h raw_state \<in> tx_state_hash ` set (oidc_transactions d')"
    using arg_cong [OF marked_hashes, of set] by (simp add: sign_in_transactions(1) [OF s])
  moreover have "\<not> open_transaction now (h raw_state) x" if "x \<in> set (oidc_transactions d')" for x
    using that unfolding sign_in_transactions(1) [OF s] by (rule marked_not_open)
  ultimately have "spent now (h raw_state) d'" by (simp add: spent_def)
  then have "spent t' (h raw_state) (login_run dia env h challenge uri es d')"
    using assms(2) by (rule login_run_spent [rotated])
  then show ?thesis
    by (simp add: process_callback_def sign_in_def spent_consume split: sum.split)
qed

subsection \<open>The properties at a concrete store\<close>

text \<open>A provider that puts the code it is given into the nonce of the token.\<close>

definition demo_env :: oidc_env where
  "demo_env = \<lparr>ep_issuer = ''iss'', ep_client_id = ''me'',
     ep_metadata = Some [(''token_endpoint'', JStr ''t''), (''jwks_uri'', JStr ''k'')],
     ep_exchange = (\<lambda>_ c _. Some (200, Some [(''id_token'', JStr c)])), ep_get_jwks = (\<lambda>_. Some JNull),
     ep_decode = (\<lambda>_ t. Some [(''iss'', JStr ''iss''), (''aud'', JStr ''me''), (''nonce'', t), (''email_verified'', JBool True),
       (''email'', JStr ''X@y''), (''sub'', JStr ''u'')]),
     ep_encrypt = (\<lambda>v. v), ep_decrypt = Some\<rparr>"

definition demo_login_db :: auth_db where
  "demo_login_db = demo_auth_db\<lparr>trusted_issuers := [(''iss'', True)],
     oidc_transactions := [\<lparr>tx_public_id = ''o'', tx_state_hash = demo_hash ''st'', tx_nonce_hash = demo_hash ''tok'',
       tx_code_verifier = ''v'', tx_return_to = ''r'', tx_expires_at = 600, tx_consumed_at = None, tx_created_at = 0\<rparr>]\<rparr>"

lemma demo_login: "fst (process_callback Postgres demo_env demo_hash 5 ''e'' ''p2'' ''f'' ''tok'' ''st'' ''ip'' None demo_login_db)
    = Inr (8, ''p2'', ''r'')"
  by code_simp

theorem sign_in_sound_witness:
  "\<exists>d' claims. process_callback Postgres demo_env demo_hash 5 ''e'' ''p2'' ''f'' ''tok'' ''st'' ''ip'' None demo_login_db
     = (Inr (8, ''p2'', ''r''), d') \<and> token_claims demo_env ''tok'' (hd (oidc_transactions demo_login_db)) claims \<and>
     claims_accepted demo_env demo_hash (demo_hash ''tok'') claims \<and> jget claims ''sub'' = JStr ''u'' \<and>
     trusted_issuer demo_login_db ''iss'' \<and> 8 \<notin> fst ` set (accounts demo_login_db) \<and>
     links d' = [(''iss'', ''u'', 8)]"
proof -
  obtain d' where r: "process_callback Postgres demo_env demo_hash 5 ''e'' ''p2'' ''f'' ''tok'' ''st'' ''ip'' None demo_login_db
      = (Inr (8, ''p2'', ''r''), d')"
    using demo_login by (metis prod.collapse)
  obtain tx claims email sub where tx: "tx \<in> set (oidc_transactions demo_login_db)" and t: "token_claims demo_env ''tok'' tx claims"
      "claims_accepted demo_env demo_hash (tx_nonce_hash tx) claims" "jget claims ''sub'' = JStr sub"
    and q: "resolved Postgres (ep_issuer demo_env) sub email 8 ''p2'' demo_login_db d'"
    using sign_in_sound [OF r] by blast
  have "jget claims ''sub'' = JStr ''u''"
    using t(1) by (auto simp: token_claims_def demo_env_def jget_def dget_def)
  with t(3) have sub: "sub = ''u''" by simp
  have "links demo_login_db = []" by (simp add: links_def demo_login_db_def demo_auth_db_def)
  with q sub have "trusted_issuer demo_login_db ''iss'' \<and> 8 \<notin> fst ` set (accounts demo_login_db) \<and> links d' = [(''iss'', ''u'', 8)]"
    by (auto simp: resolved_def demo_env_def)
  moreover have "tx = hd (oidc_transactions demo_login_db)" "tx_nonce_hash tx = demo_hash ''tok''"
    using tx by (simp_all add: demo_login_db_def)
  ultimately show ?thesis using r t sub by metis
qed

theorem state_signs_in_once_witness:
  "isl (fst (process_callback Postgres demo_env demo_hash 9 ''e2'' ''p3'' ''f2'' ''tok'' ''st'' ''ip'' None
     (login_run Postgres demo_env demo_hash id ''uri'' [(7, Begin ''st2'' ''n'' ''v'' ''o2'' ''e3'' ''/'' ''ip'' None)]
       (snd (process_callback Postgres demo_env demo_hash 5 ''e'' ''p2'' ''f'' ''tok'' ''st'' ''ip'' None demo_login_db)))))"
proof -
  obtain d' where r: "process_callback Postgres demo_env demo_hash 5 ''e'' ''p2'' ''f'' ''tok'' ''st'' ''ip'' None demo_login_db
      = (Inr (8, ''p2'', ''r''), d')"
    using demo_login by (metis prod.collapse)
  show ?thesis unfolding r snd_conv by (rule state_signs_in_once [OF r]) simp
qed

text \<open>
  A token that is rejected for its nonce, issuer, audience or subject raises before anything is committed:
  the transaction stays open and the same state signs in afterwards.
\<close>

lemma rejected_token_leaves_state_open:
  "process_callback dia demo_env demo_hash 5 ''e'' ''p2'' ''f'' ''bad'' ''st'' ''ip'' None demo_login_db
     = (Inl (OidcTokenError ''Nonce mismatch in ID token''), demo_login_db)"
  by (cases dia) code_simp+

text \<open>An address that contains \<open>p0004\<close> turns any error of the resolution into a reported collision.\<close>

lemma untrusted_issuer_reported_as_collision:
  "fst (process_callback Postgres (demo_env\<lparr>ep_decode := \<lambda>_ t. Some [(''iss'', JStr ''iss''), (''aud'', JStr ''me''), (''nonce'', t),
       (''email_verified'', JBool True), (''email'', JStr ''p0004@y''), (''sub'', JStr ''u'')]\<rparr>)
     demo_hash 5 ''e'' ''p2'' ''f'' ''tok'' ''st'' ''ip'' None (demo_login_db\<lparr>trusted_issuers := []\<rparr>))
   = Inl (IdentityCollisionError ''Email p0004@y already belongs to an existing principal'')"
  by code_simp

end
