(* ===== verification/Maintenance.thy ===== *)
theory Maintenance
  imports Oidc SessionSafety
begin

section \<open>Retention: \<open>persistence/maintenance.py\<close> and the \<open>fn_maintenance_*\<close> functions\<close>

text \<open>
  The purge validates its four retention periods before it touches a row, deletes old security events,
  consumed or old sign-in transactions and long-dead sessions, and redacts the addresses of settled
  invitations. PostgreSQL runs the functions of the migration under an advisory lock, SQLite the same
  statements. A day is 24 hours. An argument is the Python value given, as \<open>json\<close>.
\<close>

definition MAX_RETENTION_DAYS :: int where "MAX_RETENTION_DAYS = 3650"
definition MAX_RETENTION_HOURS :: int where "MAX_RETENTION_HOURS = 87600"

definition validate_retention :: "string \<Rightarrow> json \<Rightarrow> int \<Rightarrow> string + int" where
  "validate_retention name v maximum = (case v of
     JInt n \<Rightarrow> if 1 \<le> n \<and> n \<le> maximum then Inr n
       else Inl (name @ '' must be an integer from 1 to '' @ str_int maximum)
   | _ \<Rightarrow> Inl (name @ '' must be an integer from 1 to '' @ str_int maximum))"

text \<open>The rows each statement selects, with its cutoff.\<close>

definition old_security_event :: "int \<Rightarrow> security_event \<Rightarrow> bool" where
  "old_security_event cutoff e \<longleftrightarrow> sv_created_at e < cutoff"

definition old_transaction :: "int \<Rightarrow> oidc_transaction \<Rightarrow> bool" where
  "old_transaction cutoff t \<longleftrightarrow> tx_created_at t < cutoff \<or> tx_consumed_at t \<noteq> None"

definition before_cutoff :: "int option \<Rightarrow> int \<Rightarrow> bool" where
  "before_cutoff t cutoff = (case t of None \<Rightarrow> False | Some x \<Rightarrow> x < cutoff)"

definition old_session :: "int \<Rightarrow> user_session \<Rightarrow> bool" where
  "old_session cutoff s \<longleftrightarrow> before_cutoff (us_revoked_at s) cutoff \<or> us_absolute_expires_at s < cutoff"

definition REDACTED_EMAIL :: string where "REDACTED_EMAIL = ''redacted@untangle.internal''"

definition redactable :: "int \<Rightarrow> invitation \<Rightarrow> bool" where
  "redactable cutoff i \<longleftrightarrow> iv_status i \<in> {''accepted'', ''revoked''} \<and>
     (before_cutoff (iv_accepted_at i) cutoff \<or> before_cutoff (iv_revoked_at i) cutoff) \<and> iv_email i \<noteq> REDACTED_EMAIL"

definition delete_rows :: "('r \<Rightarrow> bool) \<Rightarrow> 'r list \<Rightarrow> nat \<times> 'r list" where
  "delete_rows P rows = (rowcount P rows, filter (\<lambda>r. \<not> P r) rows)"

definition fn_maintenance_purge_security_events :: "int \<Rightarrow> int \<Rightarrow> auth_db \<Rightarrow> nat \<times> auth_db" where
  "fn_maintenance_purge_security_events now days d =
    (case delete_rows (old_security_event (now - seconds (days * 86400))) (security_events d) of (n, rows) \<Rightarrow>
       (n, d\<lparr>security_events := rows\<rparr>))"

definition fn_maintenance_purge_oidc_transactions :: "int \<Rightarrow> int \<Rightarrow> auth_db \<Rightarrow> nat \<times> auth_db" where
  "fn_maintenance_purge_oidc_transactions now hours d =
    (case delete_rows (old_transaction (now - seconds (hours * 3600))) (oidc_transactions d) of (n, rows) \<Rightarrow>
       (n, d\<lparr>oidc_transactions := rows\<rparr>))"

definition fn_maintenance_purge_expired_sessions :: "int \<Rightarrow> int \<Rightarrow> auth_db \<Rightarrow> nat \<times> auth_db" where
  "fn_maintenance_purge_expired_sessions now days d =
    (case delete_rows (old_session (now - seconds (days * 86400))) (sessions d) of (n, rows) \<Rightarrow> (n, d\<lparr>sessions := rows\<rparr>))"

definition fn_maintenance_redact_accepted_invitations :: "int \<Rightarrow> int \<Rightarrow> auth_db \<Rightarrow> nat \<times> auth_db" where
  "fn_maintenance_redact_accepted_invitations now days d =
    (let P = redactable (now - seconds (days * 86400)) in
     (rowcount P (invitations d),
      d\<lparr>invitations := map (\<lambda>i. if P i then i\<lparr>iv_email := REDACTED_EMAIL\<rparr> else i) (invitations d)\<rparr>))"

datatype purge_result = Skipped | Purged nat nat nat nat

definition purge_statements :: "int \<Rightarrow> int \<Rightarrow> int \<Rightarrow> int \<Rightarrow> int \<Rightarrow> auth_db \<Rightarrow> purge_result \<times> auth_db" where
  "purge_statements now sessions_days invites_days sec_days oidc_hours d =
    (case fn_maintenance_purge_security_events now sec_days d of (sec, d1) \<Rightarrow>
     case fn_maintenance_purge_oidc_transactions now oidc_hours d1 of (oidc, d2) \<Rightarrow>
     case fn_maintenance_purge_expired_sessions now sessions_days d2 of (sess, d3) \<Rightarrow>
     case fn_maintenance_redact_accepted_invitations now invites_days d3 of (invs, d4) \<Rightarrow>
       (Purged sec oidc sess invs, d4))"

text \<open>\<open>lock\<close> is whether the advisory lock was free.\<close>

definition run_maintenance_purge ::
  "dialect \<Rightarrow> bool \<Rightarrow> int \<Rightarrow> json \<Rightarrow> json \<Rightarrow> json \<Rightarrow> json \<Rightarrow> auth_db \<Rightarrow> string + purge_result \<times> auth_db" where
  "run_maintenance_purge dia lock now sessions_days invites_days sec_days oidc_hours d =
    attempt (validate_retention ''sessions_days'' sessions_days MAX_RETENTION_DAYS) (\<lambda>sd.
    attempt (validate_retention ''invites_days'' invites_days MAX_RETENTION_DAYS) (\<lambda>ivd.
    attempt (validate_retention ''sec_events_days'' sec_days MAX_RETENTION_DAYS) (\<lambda>sed.
    attempt (validate_retention ''oidc_hours'' oidc_hours MAX_RETENTION_HOURS) (\<lambda>oh.
      if dia = Postgres \<and> \<not> lock then Inr (Skipped, d) else Inr (purge_statements now sd ivd sed oh d)))))"

subsection \<open>What a purge keeps\<close>

lemma validate_retention_Inr: "validate_retention name v maximum = Inr n \<longleftrightarrow> v = JInt n \<and> 1 \<le> n \<and> n \<le> maximum"
  by (auto simp: validate_retention_def split: json.split_asm if_split_asm)

lemma not_old_live: "live now s \<Longrightarrow> 1 \<le> days \<Longrightarrow> \<not> old_session (now - seconds (days * 86400)) s"
  by (auto simp: live_def old_session_def before_cutoff_def seconds_def)

definition usable_transaction :: "int \<Rightarrow> oidc_transaction \<Rightarrow> bool" where
  "usable_transaction now t \<longleftrightarrow> open_transaction now (tx_state_hash t) t \<and> tx_expires_at t \<le> tx_created_at t + seconds 3600"

lemma not_old_open:
  "usable_transaction now t \<Longrightarrow> 1 \<le> hours \<Longrightarrow> \<not> old_transaction (now - seconds (hours * 3600)) t"
  by (auto simp: usable_transaction_def open_transaction_def old_transaction_def seconds_def)

lemma filter_map_keep: "(\<And>x. P (f x) = P x) \<Longrightarrow> (\<And>x. P x \<Longrightarrow> f x = x) \<Longrightarrow> filter P (map f xs) = filter P xs"
  by (induction xs) auto

text \<open>
  C39. A purge that runs, in either dialect and with any accepted retention periods, deletes no live session,
  no open sign-in transaction of at most an hour and no pending invitation, adds no row, and redacts every
  settled invitation older than its period.
\<close>

theorem purge_keeps_what_is_live:
  assumes "run_maintenance_purge dia lock now sd (JInt ivd) sed oh d = Inr (Purged a b c n, d')"
  shows "set (sessions d') \<subseteq> set (sessions d) \<and> filter (live now) (sessions d') = filter (live now) (sessions d) \<and>
    filter (usable_transaction now) (oidc_transactions d') =
      filter (usable_transaction now) (oidc_transactions d) \<and>
    filter (\<lambda>i. iv_status i = ''pending'') (invitations d') = filter (\<lambda>i. iv_status i = ''pending'') (invitations d) \<and>
    list_all (\<lambda>i. \<not> redactable (now - seconds (ivd * 86400)) i) (invitations d')"
proof -
  obtain s e hrs where r: "1 \<le> s" "1 \<le> hrs" "purge_statements now s ivd e hrs d = (Purged a b c n, d')"
    using assms by (auto simp: run_maintenance_purge_def attempt_Inr validate_retention_Inr split: if_split_asm)
  have "sessions d' = filter (\<lambda>x. \<not> old_session (now - seconds (s * 86400)) x) (sessions d)"
    and "oidc_transactions d' = filter (\<lambda>x. \<not> old_transaction (now - seconds (hrs * 3600)) x) (oidc_transactions d)"
    and "invitations d' = map (\<lambda>i. if redactable (now - seconds (ivd * 86400)) i then i\<lparr>iv_email := REDACTED_EMAIL\<rparr> else i) (invitations d)"
    using r(3) by (auto simp: purge_statements_def fn_maintenance_purge_security_events_def fn_maintenance_purge_oidc_transactions_def
      fn_maintenance_purge_expired_sessions_def fn_maintenance_redact_accepted_invitations_def delete_rows_def Let_def)
  note d' = this
  have "filter (live now) (sessions d') = filter (live now) (sessions d)"
    unfolding d' filter_filter using not_old_live [OF _ r(1)] by (intro filter_cong) auto
  moreover have "filter (usable_transaction now) (oidc_transactions d') =
      filter (usable_transaction now) (oidc_transactions d)"
    unfolding d' filter_filter using not_old_open [OF _ r(2)] by (intro filter_cong) auto
  moreover have "filter (\<lambda>i. iv_status i = ''pending'') (invitations d') = filter (\<lambda>i. iv_status i = ''pending'') (invitations d)"
    unfolding d' by (intro filter_map_keep) (auto simp: redactable_def)
  moreover have "list_all (\<lambda>i. \<not> redactable (now - seconds (ivd * 86400)) i) (invitations d')"
    unfolding d' by (auto simp: list_all_iff redactable_def)
  ultimately show ?thesis unfolding d'(1) by auto
qed

text \<open>Forty days on, of the sessions of a principal only the one created a second ago is left.\<close>

definition demo_purge_db :: auth_db where
  "demo_purge_db = demo_auth_db\<lparr>sessions := [demo_session, demo_session\<lparr>us_id := 2, us_token_hash := demo_hash ''other'',
     us_created_at := 3456000000000, us_last_active_at := 3456000000000, us_idle_expires_at := 3457000000000,
     us_absolute_expires_at := 3456000000000 + session_lifetime\<rparr>]\<rparr>"

theorem purge_keeps_what_is_live_witness:
  "case run_maintenance_purge Postgres True 3456001000000 (JInt 30) (JInt 14) (JInt 90) (JInt 1) demo_purge_db of
     Inr (Purged a b c n, d') \<Rightarrow> c = 1 \<and> length (filter (live 3456001000000) (sessions d')) = 1 | _ \<Rightarrow> False"
proof -
  have "case run_maintenance_purge Postgres True 3456001000000 (JInt 30) (JInt 14) (JInt 90) (JInt 1) demo_purge_db of
     Inr (Purged a b c n, d') \<Rightarrow> c = 1 | _ \<Rightarrow> False"
    by code_simp
  then obtain a b n d' where r: "run_maintenance_purge Postgres True 3456001000000 (JInt 30) (JInt 14) (JInt 90) (JInt 1) demo_purge_db
      = Inr (Purged a b 1 n, d')"
    by (auto split: sum.split_asm prod.split_asm purge_result.split_asm)
  have "length (filter (live 3456001000000) (sessions demo_purge_db)) = 1" by code_simp
  then show ?thesis using purge_keeps_what_is_live [OF r] by (simp add: r)
qed

end
