(* ===== verification/Storage.thy ===== *)
theory Storage
  imports AuthStore PyJson
begin

section \<open>Object storage: \<open>persistence/storage.py\<close>\<close>

text \<open>
  The object keys of the service and the local backend, on a file system of files and directories without
  symbolic links; a path is the list of its segments. The S3 backend is a client of a remote service and is
  met only through the contract \<open>object_storage\<close>, which the local backend is shown to satisfy on the keys
  of the service. \<open>sha\<close> is SHA-256 as hexadecimal text.
\<close>

datatype storage_error = SecurityViolationError string | PayloadTooLargeError | ObjectNotFoundError string | OSError

record stored_object =
  so_key :: string
  so_size_bytes :: int
  so_sha256_checksum :: string
  so_content_type :: string
  so_etag :: "string option"
  so_version_id :: "string option"
  so_backend :: string

subsection \<open>Keys\<close>

definition SLASH :: char where "SLASH = CHR ''/''"

fun segments :: "string \<Rightarrow> string list" where
  "segments [] = [[]]"
| "segments (c # s) = (if c = SLASH then [] # segments s
     else (case segments s of [] \<Rightarrow> [[c]] | w # ws \<Rightarrow> (c # w) # ws))"

text \<open>The parts of a \<open>Path\<close>: empty and dot segments are dropped.\<close>

definition path_parts :: "string \<Rightarrow> string list" where
  "path_parts s = filter (\<lambda>w. w \<noteq> [] \<and> w \<noteq> ''.'') (segments s)"

definition path_name :: "string \<Rightarrow> string" where
  "path_name s = (if path_parts s = [] then [] else last (path_parts s))"

definition safe_char :: "string \<Rightarrow> char" where
  "safe_char u = (case u of [c] \<Rightarrow> if is_alnum c \<or> c \<in> set ''._-'' then c else CHR ''_'' | _ \<Rightarrow> CHR ''_'')"

definition sanitize_filename :: "string \<Rightarrow> string" where
  "sanitize_filename filename =
    (let clean = map safe_char (text_chars (path_name filename))
     in if take 128 clean = [] then ''file'' else take 128 clean)"

definition generate_input_object_key :: "string \<Rightarrow> string \<Rightarrow> string \<Rightarrow> string \<Rightarrow> string \<Rightarrow> string" where
  "generate_input_object_key tenant run role hash filename =
    ''tenants/'' @ tenant @ ''/runs/'' @ run @ ''/inputs/'' @ role @ ''_'' @ take 16 hash @ ''_'' @ sanitize_filename filename"

definition clean_ext :: "string \<Rightarrow> string" where
  "clean_ext ext = concat (filter (\<lambda>u. case u of [c] \<Rightarrow> is_alnum c | _ \<Rightarrow> False) (text_chars ext))"

definition generate_artifact_object_key :: "string \<Rightarrow> string \<Rightarrow> string \<Rightarrow> string \<Rightarrow> string \<Rightarrow> string" where
  "generate_artifact_object_key tenant run kind hash ext =
    ''tenants/'' @ tenant @ ''/runs/'' @ run @ ''/artifacts/'' @ kind @ ''_'' @ take 16 hash @ ''.'' @ clean_ext ext"

definition generate_staging_upload_key :: "string \<Rightarrow> string \<Rightarrow> string \<Rightarrow> string" where
  "generate_staging_upload_key tenant tok role = ''tenants/'' @ tenant @ ''/staging/uploads/'' @ tok @ ''/'' @ role"

definition generate_attempt_artifact_key :: "string \<Rightarrow> string \<Rightarrow> string \<Rightarrow> string \<Rightarrow> string \<Rightarrow> string" where
  "generate_attempt_artifact_key tenant run tok kind ext =
    ''tenants/'' @ tenant @ ''/runs/'' @ run @ ''/staging/attempts/'' @ tok @ ''/'' @ kind @ ''.'' @ clean_ext ext"

subsection \<open>The local backend\<close>

type_synonym path = "string list"

record file_system =
  fs_files :: "(path, string) dict"
  fs_dirs :: "path list"

text \<open>\<open>resolve\<close> of \<open>base_dir / key\<close>: an absolute key replaces the base, a parent step drops a segment.\<close>

definition path_step :: "path \<Rightarrow> string \<Rightarrow> path" where
  "path_step p w = (if w = ''..'' then butlast p else p @ [w])"

definition resolve_path :: "path \<Rightarrow> string \<Rightarrow> path" where
  "resolve_path base key = foldl path_step (if prefix [SLASH] key then [] else base) (path_parts key)"

definition resolve_safe_path :: "path \<Rightarrow> string \<Rightarrow> storage_error + path" where
  "resolve_safe_path base key = (let target = resolve_path base key in
     if prefix base target then Inr target else Inl (SecurityViolationError (''Path traversal detected: '' @ key)))"

definition is_file :: "file_system \<Rightarrow> path \<Rightarrow> bool" where
  "is_file fs p \<longleftrightarrow> map_of (fs_files fs) p \<noteq> None"

definition make_dirs :: "path \<Rightarrow> file_system \<Rightarrow> storage_error + file_system" where
  "make_dirs p fs = (if list_ex (is_file fs) (prefixes p) then Inl OSError
     else Inr (fs\<lparr>fs_dirs := remdups (fs_dirs fs @ prefixes p)\<rparr>))"

definition write_file :: "path \<Rightarrow> string \<Rightarrow> file_system \<Rightarrow> file_system" where
  "write_file p data fs = fs\<lparr>fs_files := dset (fs_files fs) p data\<rparr>"

definition unlink_file :: "path \<Rightarrow> file_system \<Rightarrow> file_system" where
  "unlink_file p fs = fs\<lparr>fs_files := filter (\<lambda>(q, _). q \<noteq> p) (fs_files fs)\<rparr>"

text \<open>\<open>with_suffix(".tmp")\<close> on the last segment: a suffix starts at a dot that is neither first nor last.\<close>

definition name_stem :: "string \<Rightarrow> string" where
  "name_stem w = (let tail = takeWhile (\<lambda>c. c \<noteq> CHR ''.'') (rev w); stem = take (length w - length tail - 1) w
     in if CHR ''.'' \<in> set w \<and> tail \<noteq> [] \<and> stem \<noteq> [] then stem else w)"

definition tmp_path :: "path \<Rightarrow> path" where
  "tmp_path p = butlast p @ [name_stem (last p) @ ''.tmp'']"

definition local_metadata :: "(string \<Rightarrow> string) \<Rightarrow> string \<Rightarrow> string \<Rightarrow> string \<Rightarrow> stored_object" where
  "local_metadata sha key data content_type =
    \<lparr>so_key = key, so_size_bytes = int (length data), so_sha256_checksum = sha data, so_content_type = content_type,
     so_etag = Some ([CHR 0x22] @ take 32 (sha data) @ [CHR 0x22]), so_version_id = None, so_backend = ''local''\<rparr>"

text \<open>
  The bytes go to the temporary file, which replaces the target; the \<open>finally\<close> clause then removes the
  temporary file if it (still) exists.
\<close>

definition store_stream ::
  "(string \<Rightarrow> string) \<Rightarrow> path \<Rightarrow> string \<Rightarrow> string \<Rightarrow> int \<Rightarrow> string \<Rightarrow> file_system \<Rightarrow> (storage_error + stored_object) \<times> file_system" where
  "store_stream sha base key data max_bytes content_type fs =
    (case attempt (resolve_safe_path base key) (\<lambda>target. attempt (make_dirs (butlast target) fs) (\<lambda>fs1. Inr (target, fs1))) of
       Inl e \<Rightarrow> (Inl e, fs)
     | Inr (target, fs1) \<Rightarrow>
         let tmp = tmp_path target in
         if tmp \<in> set (fs_dirs fs1) then (Inl OSError, fs1)
         else if max_bytes < int (length data) then (Inl PayloadTooLargeError, unlink_file tmp fs1)
         else if target \<in> set (fs_dirs fs1) then (Inl OSError, unlink_file tmp fs1)
         else (Inr (local_metadata sha key data content_type), unlink_file tmp (write_file target data fs1)))"

definition store_bytes ::
  "(string \<Rightarrow> string) \<Rightarrow> path \<Rightarrow> string \<Rightarrow> string \<Rightarrow> string \<Rightarrow> file_system \<Rightarrow> (storage_error + stored_object) \<times> file_system" where
  "store_bytes sha base key data content_type fs = store_stream sha base key data (int (length data) + 1) content_type fs"

definition retrieve_bytes :: "path \<Rightarrow> string \<Rightarrow> file_system \<Rightarrow> storage_error + string" where
  "retrieve_bytes base key fs = attempt (resolve_safe_path base key) (\<lambda>target.
     case map_of (fs_files fs) target of
       None \<Rightarrow> Inl (ObjectNotFoundError (''Object not found: '' @ key)) | Some data \<Rightarrow> Inr data)"

definition copy_object ::
  "(string \<Rightarrow> string) \<Rightarrow> path \<Rightarrow> string \<Rightarrow> string \<Rightarrow> file_system \<Rightarrow> (storage_error + stored_object) \<times> file_system" where
  "copy_object sha base source_key dest_key fs =
    (case attempt (resolve_safe_path base source_key) (\<lambda>src. attempt (resolve_safe_path base dest_key) (\<lambda>dst. Inr (src, dst))) of
       Inl e \<Rightarrow> (Inl e, fs)
     | Inr (src, dst) \<Rightarrow> (case map_of (fs_files fs) src of
         None \<Rightarrow> (Inl (ObjectNotFoundError (''Source object not found: '' @ source_key)), fs)
       | Some data \<Rightarrow> (case make_dirs (butlast dst) fs of
           Inl e \<Rightarrow> (Inl e, fs)
         | Inr fs1 \<Rightarrow> if dst \<in> set (fs_dirs fs1) then (Inl OSError, fs1)
             else (Inr (local_metadata sha dest_key data ''application/octet-stream''), write_file dst data fs1))))"

definition delete_object :: "path \<Rightarrow> string \<Rightarrow> file_system \<Rightarrow> (storage_error + bool) \<times> file_system" where
  "delete_object base key fs = (case resolve_safe_path base key of
     Inl e \<Rightarrow> (Inl e, fs)
   | Inr target \<Rightarrow> if is_file fs target then (Inr True, unlink_file target fs) else (Inr False, fs))"

definition delete_prefix :: "path \<Rightarrow> string \<Rightarrow> file_system \<Rightarrow> (storage_error + nat) \<times> file_system" where
  "delete_prefix base pre fs = (case resolve_safe_path base pre of
     Inl e \<Rightarrow> (Inl e, fs)
   | Inr target \<Rightarrow>
       if target \<in> set (fs_dirs fs)
       then (Inr (length (filter (\<lambda>(q, _). strict_prefix target q) (fs_files fs))),
         fs\<lparr>fs_files := filter (\<lambda>(q, _). \<not> strict_prefix target q) (fs_files fs),
            fs_dirs := filter (\<lambda>q. \<not> prefix target q) (fs_dirs fs)\<rparr>)
       else if is_file fs target then (Inr 1, unlink_file target fs)
       else (Inr 0, fs))"

definition object_exists :: "path \<Rightarrow> string \<Rightarrow> file_system \<Rightarrow> storage_error + bool" where
  "object_exists base key fs = attempt (resolve_safe_path base key) (\<lambda>target. Inr (is_file fs target))"

definition head_bucket :: "path \<Rightarrow> file_system \<Rightarrow> bool" where
  "head_bucket base fs \<longleftrightarrow> base \<in> set (fs_dirs fs)"

subsection \<open>The choice of the backend\<close>

text \<open>\<open>env\<close> is \<open>os.environ\<close>; the credentials of the client are read in the same place and left out.\<close>

record s3_settings =
  s3_bucket :: string
  s3_endpoint :: "string option"
  s3_region :: string
  s3_use_ssl :: bool
  s3_path_style :: bool
  s3_encryption :: "string option"

datatype backend_choice = S3_Backend s3_settings | Local_Backend string

definition env_get :: "(string \<Rightarrow> string option) \<Rightarrow> string \<Rightarrow> string \<Rightarrow> string" where
  "env_get env k dflt = (case env k of None \<Rightarrow> dflt | Some v \<Rightarrow> v)"

definition env_flag :: "(string \<Rightarrow> string option) \<Rightarrow> string \<Rightarrow> string \<Rightarrow> bool" where
  "env_flag env k dflt \<longleftrightarrow> py_lower (env_get env k dflt) \<in> {''true'', ''1'', ''yes''}"

text \<open>\<open>None\<close> is a \<open>StorageConfigurationError\<close>.\<close>

definition get_storage_backend :: "(string \<Rightarrow> string option) \<Rightarrow> backend_choice option" where
  "get_storage_backend env =
    (let kind = py_lower (py_strip (env_get env ''UNTANGLE_STORAGE_BACKEND'' []));
         mode = py_lower (py_strip (env_get env ''UNTANGLE_DEPLOY_MODE'' ''demo''))
     in if kind = ''s3'' \<or> kind = [] \<and> mode \<in> {''private'', ''production''} then
          (if truthy (env ''UNTANGLE_S3_BUCKET'') then
             Some (S3_Backend \<lparr>s3_bucket = env_get env ''UNTANGLE_S3_BUCKET'' [], s3_endpoint = env ''UNTANGLE_S3_ENDPOINT_URL'',
               s3_region = env_get env ''UNTANGLE_S3_REGION'' ''ap-south-1'', s3_use_ssl = env_flag env ''UNTANGLE_S3_USE_SSL'' ''true'',
               s3_path_style = env_flag env ''UNTANGLE_S3_FORCE_PATH_STYLE'' ''false'',
               s3_encryption = env ''UNTANGLE_S3_SERVER_SIDE_ENCRYPTION''\<rparr>)
           else None)
        else if kind = ''local'' \<or> mode = ''demo'' then Some (Local_Backend (env_get env ''UNTANGLE_STORAGE_DIR'' ''./data/storage''))
        else None)"

subsection \<open>Staging of the inputs of a job\<close>

text \<open>
  \<open>submit_reconciliation_job\<close> stores its inputs one after the other and, when one of them raises, deletes
  the key of every input, ignoring what the deletions raise. The backend is an argument: \<open>store\<close>, which
  takes the bytes with their content type, and \<open>remove\<close>.
\<close>

fun store_all ::
  "(string \<Rightarrow> 'd \<Rightarrow> 's \<Rightarrow> ('e + 'm) \<times> 's) \<Rightarrow> (string \<times> 'd) list \<Rightarrow> 's \<Rightarrow> ('e + 'm list) \<times> 's" where
  "store_all store [] s = (Inr [], s)"
| "store_all store ((k, data) # kvs) s = (case store k data s of
     (Inl e, s1) \<Rightarrow> (Inl e, s1)
   | (Inr m, s1) \<Rightarrow> (case store_all store kvs s1 of (Inl e, s2) \<Rightarrow> (Inl e, s2) | (Inr ms, s2) \<Rightarrow> (Inr (m # ms), s2)))"

fun discard :: "(string \<Rightarrow> 's \<Rightarrow> ('e + bool) \<times> 's) \<Rightarrow> string list \<Rightarrow> 's \<Rightarrow> 's" where
  "discard remove [] s = s"
| "discard remove (k # ks) s = discard remove ks (snd (remove k s))"

definition stage_inputs ::
  "(string \<Rightarrow> 'd \<Rightarrow> 's \<Rightarrow> ('e + 'm) \<times> 's) \<Rightarrow> (string \<Rightarrow> 's \<Rightarrow> ('e + bool) \<times> 's) \<Rightarrow> (string \<times> 'd) list \<Rightarrow> 's \<Rightarrow>
   ('e + 'm list) \<times> 's" where
  "stage_inputs store remove kvs s = (case store_all store kvs s of
     (Inl e, s1) \<Rightarrow> (Inl e, discard remove (map fst kvs) s1) | (Inr ms, s1) \<Rightarrow> (Inr ms, s1))"

end
