(* ===== verification/StorageSafety.thy ===== *)
theory StorageSafety
  imports Storage
begin

section \<open>What storage promises\<close>

text \<open>
  The keys the service generates resolve inside the folder of their tenant and run whatever the uploaded file
  is called; the local backend touches no file outside its base directory; and on canonical keys that do not
  end in \<open>.tmp\<close> it satisfies the contract of an object store, from which the staging of several objects is
  shown to be all or nothing. A key that does end in \<open>.tmp\<close> is its own temporary file and is lost.
\<close>

subsection \<open>Paths of keys\<close>

lemma segments_nonempty [simp]: "segments s \<noteq> []"
  by (induction s rule: segments.induct) (auto split: list.split)

lemma segments_plain: "SLASH \<notin> set w \<Longrightarrow> segments w = [w]"
  by (induction w) (auto simp: SLASH_def)

lemma segments_slash: "SLASH \<notin> set w \<Longrightarrow> segments (w @ SLASH # s) = w # segments s"
  by (induction w) (auto split: list.split)

definition plain_segment :: "string \<Rightarrow> bool" where
  "plain_segment w \<longleftrightarrow> w \<notin> {[], ''.'', ''..''} \<and> SLASH \<notin> set w"

definition canonical_key :: "string \<Rightarrow> bool" where
  "canonical_key k \<longleftrightarrow> list_all (\<lambda>w. w \<notin> {[], ''.'', ''..''}) (segments k)"

lemma foldl_path_step: "\<forall>w \<in> set ws. w \<noteq> ''..'' \<Longrightarrow> foldl path_step p ws = p @ ws"
  by (induction ws arbitrary: p) (auto simp: path_step_def)

lemma canonical_not_absolute: "canonical_key k \<Longrightarrow> \<not> prefix [SLASH] k"
  by (cases k) (auto simp: canonical_key_def)

lemma resolve_canonical: "canonical_key k \<Longrightarrow> resolve_safe_path base k = Inr (base @ segments k)"
proof -
  assume k: "canonical_key k"
  have "path_parts k = segments k"
    unfolding path_parts_def using k by (auto simp: canonical_key_def list_all_iff filter_id_conv)
  moreover have "foldl path_step base (segments k) = base @ segments k"
    using k by (intro foldl_path_step) (auto simp: canonical_key_def list_all_iff)
  ultimately show ?thesis
    using canonical_not_absolute [OF k] by (simp add: resolve_safe_path_def resolve_path_def)
qed

lemma segments_concat: "concat (map (\<lambda>w. w @ [SLASH]) (segments s)) = s @ [SLASH]"
  by (induction s rule: segments.induct) (auto split: list.split)

lemma segments_inject: "segments k = segments k' \<Longrightarrow> k = k'"
  using segments_concat by (metis append_same_eq)

lemma safe_char_no_slash: "safe_char u \<noteq> SLASH"
  by (auto simp: safe_char_def SLASH_def is_alnum_def is_alpha_def is_digit_def code_def split: list.split)

lemma sanitize_filename_no_slash: "SLASH \<notin> set (sanitize_filename f)"
proof -
  have "SLASH \<notin> set (take n (map safe_char us))" for n us
    using safe_char_no_slash by (auto dest!: in_set_takeD) (metis safe_char_no_slash)
  then show ?thesis by (simp add: sanitize_filename_def Let_def SLASH_def)
qed

lemma segments_folder:
  assumes "SLASH \<notin> set a" "SLASH \<notin> set b" "SLASH \<notin> set c" "SLASH \<notin> set e" "SLASH \<notin> set f" "SLASH \<notin> set g"
  shows "segments (a @ SLASH # b @ SLASH # c @ SLASH # e @ SLASH # f @ SLASH # g) = [a, b, c, e, f, g]"
  using assms by (simp add: segments_slash segments_plain)

text \<open>
  C36. The key of an uploaded input resolves to a file directly inside the inputs folder of its tenant and
  run, whatever the name of the uploaded file.
\<close>

theorem input_keys_stay_in_their_folder:
  assumes "plain_segment tenant" "plain_segment run" "SLASH \<notin> set role" "SLASH \<notin> set hash"
  shows "\<exists>name. resolve_safe_path base (generate_input_object_key tenant run role hash filename)
    = Inr (base @ [''tenants'', tenant, ''runs'', run, ''inputs'', name])"
proof -
  let ?name = "role @ ''_'' @ take 16 hash @ ''_'' @ sanitize_filename filename"
  have "SLASH \<notin> set ?name"
    using assms(3,4) sanitize_filename_no_slash [of filename] by (auto simp: SLASH_def dest: in_set_takeD)
  then have "segments (''tenants'' @ SLASH # tenant @ SLASH # ''runs'' @ SLASH # run @ SLASH # ''inputs'' @ SLASH # ?name)
      = [''tenants'', tenant, ''runs'', run, ''inputs'', ?name]"
    using assms(1,2) by (intro segments_folder) (simp_all add: plain_segment_def SLASH_def)
  moreover have "generate_input_object_key tenant run role hash filename =
      ''tenants'' @ SLASH # tenant @ SLASH # ''runs'' @ SLASH # run @ SLASH # ''inputs'' @ SLASH # ?name"
    by (simp add: generate_input_object_key_def SLASH_def)
  ultimately have seg: "segments (generate_input_object_key tenant run role hash filename)
      = [''tenants'', tenant, ''runs'', run, ''inputs'', ?name]" by (simp only:)
  moreover have "?name \<notin> {[], ''.'', ''..''}"
    by (cases role) (auto split: list.split)
  ultimately have "canonical_key (generate_input_object_key tenant run role hash filename)"
    using assms(1,2) by (simp add: canonical_key_def plain_segment_def)
  then show ?thesis using seg by (simp add: resolve_canonical)
qed

subsection \<open>The contract of an object store\<close>

locale object_storage =
  fixes payload :: "'d \<Rightarrow> string"
    and store :: "string \<Rightarrow> 'd \<Rightarrow> 's \<Rightarrow> ('e + 'm) \<times> 's"
    and fetch :: "string \<Rightarrow> 's \<Rightarrow> string option"
    and remove :: "string \<Rightarrow> 's \<Rightarrow> ('e + bool) \<times> 's"
    and good :: "string \<Rightarrow> bool"
  assumes store_fetch: "good k \<Longrightarrow> store k v s = (Inr m, s') \<Longrightarrow> fetch k s' = Some (payload v)"
    and store_other: "good k \<Longrightarrow> good k' \<Longrightarrow> k' \<noteq> k \<Longrightarrow> fetch k' (snd (store k v s)) = fetch k' s"
    and remove_fetch: "good k \<Longrightarrow> fetch k (snd (remove k s)) = None"
    and remove_other: "good k \<Longrightarrow> good k' \<Longrightarrow> k' \<noteq> k \<Longrightarrow> fetch k' (snd (remove k s)) = fetch k' s"
begin

lemma discard_fetch:
  "\<forall>k \<in> set ks. good k \<Longrightarrow> good k' \<Longrightarrow> fetch k' (discard remove ks s) = (if k' \<in> set ks then None else fetch k' s)"
proof (induction ks arbitrary: s)
  case (Cons k ks)
  then show ?case using remove_fetch [of k s] remove_other [of k k' s] by auto
qed simp

lemma store_all_other:
  "\<forall>k \<in> fst ` set kvs. good k \<Longrightarrow> good k' \<Longrightarrow> k' \<notin> fst ` set kvs \<Longrightarrow> fetch k' (snd (store_all store kvs s)) = fetch k' s"
proof (induction kvs arbitrary: s)
  case (Cons kv kvs)
  obtain k v where kv: "kv = (k, v)" by (cases kv)
  have "fetch k' (snd (store k v s)) = fetch k' s" using Cons.prems by (intro store_other) (auto simp: kv)
  then show ?case
    using Cons.IH [of "snd (store k v s)"] Cons.prems
    by (auto simp: kv split: prod.split sum.split)
qed simp

lemma store_all_fetch:
  "store_all store kvs s = (Inr ms, s') \<Longrightarrow> \<forall>k \<in> fst ` set kvs. good k \<Longrightarrow> distinct (map fst kvs) \<Longrightarrow>
     (k, v) \<in> set kvs \<Longrightarrow> fetch k s' = Some (payload v)"
proof (induction kvs arbitrary: s ms)
  case (Cons kv kvs)
  obtain k0 v0 where kv: "kv = (k0, v0)" by (cases kv)
  obtain m s1 ms' where s: "store k0 v0 s = (Inr m, s1)" "store_all store kvs s1 = (Inr ms', s')"
    using Cons.prems(1) by (auto simp: kv split: prod.split_asm sum.split_asm)
  show ?case
  proof (cases "(k, v) = (k0, v0)")
    case True
    then have "k \<notin> fst ` set kvs" using Cons.prems(3) by (simp add: kv)
    then have "fetch k s' = fetch k s1" using store_all_other [of kvs k s1] Cons.prems(2) True s(2) by (simp add: kv)
    then show ?thesis using store_fetch [OF _ s(1)] Cons.prems(2) True by (simp add: kv)
  next
    case False
    then have "(k, v) \<in> set kvs" using Cons.prems(4) by (auto simp: kv)
    then show ?thesis using Cons.IH [OF s(2)] Cons.prems(2,3) by (simp add: kv)
  qed
qed simp

text \<open>Staging is all or nothing, for the keys it names and for every other good key.\<close>

lemma stage_inputs_atomic:
  assumes "\<forall>k \<in> fst ` set kvs. good k" "distinct (map fst kvs)" "\<forall>k \<in> fst ` set kvs. fetch k s = None"
    "stage_inputs store remove kvs s = (r, s')" "good k"
  shows "fetch k s' = (if isl r then fetch k s else case map_of kvs k of Some v \<Rightarrow> Some (payload v) | None \<Rightarrow> fetch k s)"
proof (cases "store_all store kvs s")
  case (Pair q s1)
  have other: "k \<notin> fst ` set kvs \<Longrightarrow> fetch k s1 = fetch k s"
    using store_all_other [OF assms(1,5), of s] Pair by simp
  show ?thesis
  proof (cases q)
    case (Inl e)
    then have "r = Inl e" "s' = discard remove (map fst kvs) s1" using assms(4) Pair by (simp_all add: stage_inputs_def)
    then show ?thesis using discard_fetch [of "map fst kvs" k s1] assms(1,3,5) other by auto
  next
    case (Inr ms)
    then have r: "r = Inr ms" "s' = s1" using assms(4) Pair by (simp_all add: stage_inputs_def)
    show ?thesis
    proof (cases "map_of kvs k")
      case None
      then have "k \<notin> fst ` set kvs" by (simp add: map_of_eq_None_iff)
      then show ?thesis using other r None by simp
    next
      case (Some v)
      then show ?thesis
        using store_all_fetch [OF Pair [unfolded Inr] assms(1,2) map_of_SomeD [OF Some]] r by simp
    qed
  qed
qed

end

subsection \<open>The local backend keeps the contract\<close>

definition local_key :: "string \<Rightarrow> bool" where
  "local_key k \<longleftrightarrow> canonical_key k \<and> \<not> suffix ''.tmp'' k"

definition local_fetch :: "path \<Rightarrow> string \<Rightarrow> file_system \<Rightarrow> string option" where
  "local_fetch base k fs = (case retrieve_bytes base k fs of Inl _ \<Rightarrow> None | Inr v \<Rightarrow> Some v)"

lemma local_fetch_canonical: "canonical_key k \<Longrightarrow> local_fetch base k fs = map_of (fs_files fs) (base @ segments k)"
  by (simp add: local_fetch_def retrieve_bytes_def resolve_canonical split: option.split)

lemma map_of_unlink: "map_of (filter (\<lambda>(q, _). q \<noteq> p) xs) q = (if q = p then None else map_of xs q)"
  by (induction xs) auto

lemma unlink_file_get: "map_of (fs_files (unlink_file p fs)) q = (if q = p then None else map_of (fs_files fs) q)"
  by (simp add: unlink_file_def map_of_unlink)

lemma write_file_get: "map_of (fs_files (write_file p v fs)) q = (if q = p then Some v else map_of (fs_files fs) q)"
  by (simp add: write_file_def map_of_dset)

lemma make_dirs_files: "make_dirs p fs = Inr fs1 \<Longrightarrow> fs_files fs1 = fs_files fs"
  by (auto simp: make_dirs_def split: if_split_asm)

lemma last_segment: "\<exists>pre. k = pre @ last (segments k)"
proof -
  obtain ws w where w: "segments k = ws @ [w]" by (cases "segments k" rule: rev_cases) simp_all
  then have "(concat (map (\<lambda>w. w @ [SLASH]) ws) @ w) @ [SLASH] = k @ [SLASH]" using segments_concat [of k] by simp
  then have "concat (map (\<lambda>w. w @ [SLASH]) ws) @ w = k" unfolding append_same_eq .
  then show ?thesis using w by auto
qed

lemma tmp_path_not_key: "\<not> suffix ''.tmp'' k \<Longrightarrow> tmp_path p \<noteq> base @ segments k"
proof
  assume k: "\<not> suffix ''.tmp'' k" and eq: "tmp_path p = base @ segments k"
  have "last (segments k) = name_stem (last p) @ ''.tmp''"
    using arg_cong [OF eq, of last] by (simp add: tmp_path_def)
  then have "suffix ''.tmp'' k" using last_segment [of k] by (metis suffix_def append.assoc)
  then show False using k by simp
qed

text \<open>What storing a canonical key does to the other files.\<close>

lemma store_bytes_files:
  assumes "canonical_key k" "store_bytes sha base k v ct fs = (r, fs')" "q \<noteq> base @ segments k"
    "q \<noteq> tmp_path (base @ segments k)"
  shows "map_of (fs_files fs') q = map_of (fs_files fs) q"
  using assms
  by (auto simp: store_bytes_def store_stream_def resolve_canonical Let_def unlink_file_get write_file_get attempt_Inr
      dest!: make_dirs_files split: sum.split_asm if_split_asm)

lemma store_bytes_stored:
  assumes "canonical_key k" "store_bytes sha base k v ct fs = (Inr m, fs')"
  shows "map_of (fs_files fs') (base @ segments k) = (if tmp_path (base @ segments k) = base @ segments k then None else Some v)"
  using assms
  by (auto simp: store_bytes_def store_stream_def resolve_canonical Let_def unlink_file_get write_file_get attempt_Inr
      split: sum.split_asm if_split_asm)

interpretation local_store: object_storage fst "\<lambda>k v. store_bytes sha base k (fst v) (snd v)" "local_fetch base" "delete_object base" local_key
proof
  fix k s m s' and v :: "string \<times> string"
  assume k: "local_key k" and st: "store_bytes sha base k (fst v) (snd v) s = (Inr m, s')"
  then show "local_fetch base k s' = Some (fst v)"
    using store_bytes_stored [OF _ st] tmp_path_not_key [of k "base @ segments k" base]
    by (simp add: local_key_def local_fetch_canonical)
next
  fix k k' s and v :: "string \<times> string"
  assume k: "local_key k" "local_key k'" "k' \<noteq> k"
  obtain r s' where st: "store_bytes sha base k (fst v) (snd v) s = (r, s')" by (cases "store_bytes sha base k (fst v) (snd v) s")
  have "base @ segments k' \<noteq> base @ segments k" using segments_inject k(3) by auto
  then show "local_fetch base k' (snd (store_bytes sha base k (fst v) (snd v) s)) = local_fetch base k' s"
    using store_bytes_files [OF _ st, of "base @ segments k'"] k tmp_path_not_key [of k' "base @ segments k" base]
    by (simp add: local_key_def local_fetch_canonical st)
next
  fix k s
  assume "local_key k"
  then show "local_fetch base k (snd (delete_object base k s)) = None"
    by (auto simp: local_key_def local_fetch_canonical delete_object_def resolve_canonical unlink_file_get is_file_def)
next
  fix k k' s
  assume k: "local_key k" "local_key k'" "k' \<noteq> k"
  have "base @ segments k' \<noteq> base @ segments k" using segments_inject k(3) by auto
  then show "local_fetch base k' (snd (delete_object base k s)) = local_fetch base k' s"
    using k by (auto simp: local_key_def local_fetch_canonical delete_object_def resolve_canonical unlink_file_get)
qed

text \<open>
  On the local backend, staging inputs under fresh canonical keys that do not end in \<open>.tmp\<close> is all or
  nothing: if it returns, every key holds its bytes, and if it raises, every key reads as before; no other
  key changes either way.
\<close>

theorem local_staging_all_or_nothing:
  assumes "\<forall>k \<in> fst ` set kvs. local_key k \<and> local_fetch base k fs = None" "distinct (map fst kvs)" "local_key k"
    "stage_inputs (\<lambda>k v. store_bytes sha base k (fst v) (snd v)) (delete_object base) kvs fs = (r, fs')"
  shows "local_fetch base k fs' = (if isl r then local_fetch base k fs
    else case map_of kvs k of Some v \<Rightarrow> Some (fst v) | None \<Rightarrow> local_fetch base k fs)"
  using assms by (intro local_store.stage_inputs_atomic) auto

text \<open>A key that ends in \<open>.tmp\<close> is stored with success and then removed as a left-over temporary file.\<close>

lemma tmp_key_is_lost:
  "case store_bytes (\<lambda>_. ''h'') [''data''] ''tenants/o/runs/r/inputs/bank.tmp'' ''x'' ''text/csv'' \<lparr>fs_files = [], fs_dirs = [[''data'']]\<rparr> of
     (r, fs') \<Rightarrow> \<not> isl r \<and> local_fetch [''data''] ''tenants/o/runs/r/inputs/bank.tmp'' fs' = None"
  by code_simp

lemma uploaded_tmp_name_is_kept: "generate_input_object_key ''o'' ''r'' ''bank'' ''h'' ''bank.tmp'' = ''tenants/o/runs/r/inputs/bank_h_bank.tmp''"
  by code_simp

subsection \<open>Nothing outside the base directory\<close>

lemma resolve_safe_prefix: "resolve_safe_path base k = Inr target \<Longrightarrow> prefix base target"
  by (simp add: resolve_safe_path_def Let_def split: if_split_asm)

lemma tmp_path_prefix: "prefix base target \<Longrightarrow> target \<noteq> base \<Longrightarrow> prefix base (tmp_path target)"
proof -
  assume "prefix base target" "target \<noteq> base"
  then obtain zs where "target = base @ zs" "zs \<noteq> []" by (auto simp: prefix_def)
  then show "prefix base (tmp_path target)" by (simp add: tmp_path_def butlast_append)
qed

definition outside_same :: "path \<Rightarrow> file_system \<Rightarrow> file_system \<Rightarrow> bool" where
  "outside_same base fs fs' \<longleftrightarrow> (\<forall>q. \<not> prefix base q \<longrightarrow> map_of (fs_files fs') q = map_of (fs_files fs) q)"

lemma outside_sameI:
  "fs_files fs' = fs_files fs \<Longrightarrow> outside_same base fs fs'"
  "prefix base p \<Longrightarrow> outside_same base fs (unlink_file p fs)"
  "prefix base p \<Longrightarrow> outside_same base fs (write_file p v fs)"
  by (auto simp: outside_same_def unlink_file_get write_file_get)

lemma outside_same_trans: "outside_same base fs fs1 \<Longrightarrow> outside_same base fs1 fs2 \<Longrightarrow> outside_same base fs fs2"
  by (simp add: outside_same_def)

lemma store_stream_outside:
  assumes "resolve_safe_path base k \<noteq> Inr base" "store_stream sha base k v mx ct fs = (r, fs')"
  shows "outside_same base fs fs'"
proof (cases "resolve_safe_path base k")
  case (Inl e)
  then show ?thesis using assms(2) by (simp add: store_stream_def outside_sameI)
next
  case (Inr target)
  then have t: "prefix base target" "prefix base (tmp_path target)"
    using resolve_safe_prefix [OF Inr] tmp_path_prefix assms(1) by auto
  show ?thesis
  proof (cases "make_dirs (butlast target) fs")
    case (Inl e)
    then show ?thesis using assms(2) Inr by (simp add: store_stream_def outside_sameI)
  next
    case made: (Inr fs1)
    have "outside_same base fs fs1" using make_dirs_files [OF made] by (rule outside_sameI)
    moreover have "outside_same base fs1 fs'"
      using assms(2) t unfolding store_stream_def Inr attempt_simps made sum.case prod.case
      by (auto simp: Let_def outside_same_def unlink_file_get write_file_get split: if_split_asm)
    ultimately show ?thesis by (rule outside_same_trans)
  qed
qed

lemma copy_object_outside: "copy_object sha base k k' fs = (r, fs') \<Longrightarrow> outside_same base fs fs'"
  by (auto simp: copy_object_def attempt_Inr outside_same_def write_file_get dest!: make_dirs_files resolve_safe_prefix
      split: sum.split_asm option.split_asm if_split_asm)

lemma map_of_filter_keep: "P q \<Longrightarrow> map_of (filter (\<lambda>(q, _). P q) xs) q = map_of xs q"
  by (induction xs) auto

lemma delete_prefix_outside: "delete_prefix base k fs = (r, fs') \<Longrightarrow> outside_same base fs fs'"
proof (cases "resolve_safe_path base k")
  case (Inr target)
  assume d: "delete_prefix base k fs = (r, fs')"
  have t: "prefix base target" using Inr by (rule resolve_safe_prefix)
  have "\<not> strict_prefix target q" if "\<not> prefix base q" for q
    using t that by (meson prefix_order.less_imp_le prefix_order.trans)
  then show ?thesis
    using d t unfolding delete_prefix_def Inr
    by (auto simp: outside_same_def map_of_filter_keep unlink_file_get split: if_split_asm)
qed (auto simp: delete_prefix_def outside_sameI)

text \<open>
  No operation of the local backend changes a file outside its base directory, whatever the keys, unless
  the key stored is the base directory itself.
\<close>

theorem local_storage_contained:
  shows "(resolve_safe_path base k \<noteq> Inr base \<longrightarrow> outside_same base fs (snd (store_stream sha base k v mx ct fs))) \<and>
    outside_same base fs (snd (copy_object sha base k k' fs)) \<and> outside_same base fs (snd (delete_object base k fs)) \<and>
    outside_same base fs (snd (delete_prefix base k fs))"
proof (intro conjI impI)
  show "outside_same base fs (snd (store_stream sha base k v mx ct fs))" if "resolve_safe_path base k \<noteq> Inr base"
    using store_stream_outside [OF that] by (metis prod.collapse)
  show "outside_same base fs (snd (copy_object sha base k k' fs))" using copy_object_outside by (metis prod.collapse)
  show "outside_same base fs (snd (delete_object base k fs))"
    by (auto simp: delete_object_def intro: outside_sameI dest: resolve_safe_prefix split: sum.split)
  show "outside_same base fs (snd (delete_prefix base k fs))" using delete_prefix_outside by (metis prod.collapse)
qed

subsection \<open>The properties at concrete keys\<close>

theorem input_keys_stay_in_their_folder_witness:
  "\<exists>name. resolve_safe_path [''data''] (generate_input_object_key ''org'' ''run'' ''bank'' ''00'' ''../../etc/passwd'')
    = Inr ([''data''] @ [''tenants'', ''org'', ''runs'', ''run'', ''inputs'', name])"
  by (rule input_keys_stay_in_their_folder) (simp_all add: plain_segment_def SLASH_def)

definition demo_fs :: file_system where
  "demo_fs = \<lparr>fs_files = [([''data'', ''old''], ''o'')], fs_dirs = [[''data'']]\<rparr>"

theorem local_staging_all_or_nothing_witness:
  "case stage_inputs (\<lambda>k v. store_bytes (\<lambda>_. ''h'') [''data''] k (fst v) (snd v)) (delete_object [''data''])
      [(''a/b.csv'', ''1'', ''text/csv''), (''old/c'', ''2'', ''text/csv'')] demo_fs of
     (r, fs') \<Rightarrow> isl r \<and> local_fetch [''data''] ''a/b.csv'' fs' = None"
proof -
  let ?run = "stage_inputs (\<lambda>k v. store_bytes (\<lambda>_. ''h'') [''data''] k (fst v) (snd v)) (delete_object [''data''])
      [(''a/b.csv'', ''1'', ''text/csv''), (''old/c'', ''2'', ''text/csv'')] demo_fs"
  have pre: "\<forall>k \<in> fst ` set [(''a/b.csv'', ''1'', ''text/csv''), (''old/c'', ''2'', ''text/csv'')]. local_key k \<and> local_fetch [''data''] k demo_fs = None"
    by (simp, code_simp)
  have key: "local_key ''a/b.csv''" using pre by simp
  have "isl (fst ?run)" by code_simp
  moreover obtain r fs' where run: "?run = (r, fs')" by (cases ?run)
  ultimately show ?thesis
    using local_staging_all_or_nothing [OF pre _ key run] pre by (simp add: run)
qed

theorem local_storage_contained_witness:
  "outside_same [''data''] demo_fs (snd (store_stream (\<lambda>_. ''h'') [''data''] ''../x'' ''v'' 9 ''t'' demo_fs))"
proof -
  have "resolve_safe_path [''data''] ''../x'' \<noteq> Inr [''data'']" by code_simp
  then show ?thesis using local_storage_contained [of "[''data'']" "''../x''" demo_fs] by blast
qed

end
