(* ===== verification/RunRecords.thy ===== *)
theory RunRecords
  imports Idempotency Certificate Storage
begin

section \<open>What a run leaves behind: files, results, investigations, certificates, artifacts\<close>

text \<open>
  The tables of \<open>persistence/models.py\<close> bound to a run and their repositories
  (\<open>repositories/artifact.py\<close>, \<open>result.py\<close>, \<open>investigation.py\<close>, \<open>certificate.py\<close>), over the tenant database
  of \<open>Store\<close>. Each insertion goes through \<open>insert_with_public_id_retry\<close>; a row must pass its CHECK
  constraints, name a run of its organisation and respect the unique keys per run. The lifecycle columns
  keep their defaults. A foreign or unique key that fails is the \<open>IntegrityError\<close> of PostgreSQL; on SQLite the
  same failure surfaces as its subclass \<open>PublicIdCollisionError\<close> (the text of the error contains the
  statement, and with it the name \<open>public_id\<close>), after three vain attempts. \<open>up\<close> says which characters outside ASCII are printable, \<open>sha\<close> is SHA-256 as
  hexadecimal text, and \<open>gen\<close> gives the public ids of the attempts of one insertion.
\<close>

datatype service_error =
    Store_Error db_error | Result_Integrity_Error | Invalid_Investigation | Key_Error string | Type_Error | Value_Error
  | Not_Text | Cert_Failure cert_error | Engine_Failure | Recording_Failed | Storage_Failure | Idempotency_Replay string int

definition stored :: "db_error + 'a \<Rightarrow> service_error + 'a" where
  "stored r = map_sum Store_Error id r"

record uploaded_file =
  uf_public_id :: string
  uf_organisation_id :: int
  uf_run_id :: int
  uf_file_role :: string
  uf_original_filename :: string
  uf_content_type :: string
  uf_size_bytes :: int
  uf_sha256_checksum :: string
  uf_backend :: string
  uf_object_key :: string
  uf_etag :: "string option"
  uf_version_id :: "string option"

record result_record =
  rt_public_id :: string
  rt_organisation_id :: int
  rt_run_id :: int
  rt_summary :: json
  rt_presentation :: json
  rt_canonical_report_text :: string
  rt_audit_root :: string
  rt_report_sha256 :: string

record investigation_record =
  nv_public_id :: string
  nv_organisation_id :: int
  nv_run_id :: int
  nv_line_key :: string
  nv_root_cause :: string
  nv_resolved :: bool
  nv_confidence :: rat
  nv_variance_paise :: int
  nv_details :: json

record certificate_record =
  ct_public_id :: string
  ct_organisation_id :: int
  ct_run_id :: int
  ct_content_sha256 :: string
  ct_report_sha256 :: string
  ct_is_signed :: bool
  ct_signature :: "string option"
  ct_public_key_pem :: "string option"
  ct_certificate :: json

record artifact_record =
  af_public_id :: string
  af_organisation_id :: int
  af_run_id :: int
  af_artifact_type :: string
  af_filename :: string
  af_media_type :: string
  af_size_bytes :: int
  af_content_sha256 :: string

record tenant_db =
  core :: db
  uploaded_files :: "uploaded_file list"
  results :: "result_record list"
  investigation_rows :: "investigation_record list"
  certificates :: "certificate_record list"
  artifacts :: "artifact_record list"

text \<open>The composite foreign key of every table to the run of the organisation.\<close>

definition run_exists :: "db \<Rightarrow> int \<Rightarrow> int \<Rightarrow> bool" where
  "run_exists d og run \<longleftrightarrow> list_ex (\<lambda>r. r_organisation_id r = og \<and> r_id r = run) (runs d)"

definition hex64 :: "string \<Rightarrow> bool" where
  "hex64 s = hex_hash_check 64 (Some s)"

subsection \<open>Uploaded files and artifacts\<close>

definition printable_char :: "(string \<Rightarrow> bool) \<Rightarrow> string \<Rightarrow> bool" where
  "printable_char up u = (case u of [c] \<Rightarrow> 32 \<le> code c \<and> code c < 127 | _ \<Rightarrow> up u)"

definition clean_filename :: "(string \<Rightarrow> bool) \<Rightarrow> string \<Rightarrow> string \<Rightarrow> string" where
  "clean_filename up dflt s = (let t = concat (take 255 (filter (printable_char up) (text_chars s))) in if t = [] then dflt else t)"

definition file_checks :: "uploaded_file \<Rightarrow> bool" where
  "file_checks f \<longleftrightarrow> uf_file_role f \<in> {''bank_statement'', ''recon_report'', ''order_ledger''} \<and> 0 \<le> uf_size_bytes f
     \<and> hex64 (uf_sha256_checksum f) \<and> uf_backend f \<in> {''s3'', ''local''}"

definition save_uploaded_file_metadata ::
  "(string \<Rightarrow> bool) \<Rightarrow> (nat \<Rightarrow> string) \<Rightarrow> tenant_context \<Rightarrow> int \<Rightarrow> string \<Rightarrow> string \<Rightarrow> string \<Rightarrow> int \<Rightarrow> string \<Rightarrow> string \<Rightarrow> string \<Rightarrow>
   string option \<Rightarrow> string option \<Rightarrow> tenant_db \<Rightarrow> service_error + tenant_db" where
  "save_uploaded_file_metadata up gen c run role filename content_type nbytes checksum backend key etag version d =
    stored (attempt (require c ''create'') (\<lambda>_.
      attempt (insert_with_public_id_retry file_checks (\<lambda>pid. pid \<in> set (map uf_public_id (uploaded_files d)))
        (\<lambda>f. run_exists (core d) (uf_organisation_id f) (uf_run_id f) \<and>
           \<not> list_ex (\<lambda>x. uf_organisation_id x = uf_organisation_id f \<and> uf_run_id x = uf_run_id f \<and> uf_file_role x = uf_file_role f)
             (uploaded_files d))
        (\<lambda>pid. \<lparr>uf_public_id = pid, uf_organisation_id = c_organisation_id c, uf_run_id = run, uf_file_role = role,
           uf_original_filename = clean_filename up ''unnamed_file'' filename,
           uf_content_type = concat (take 128 (text_chars content_type)), uf_size_bytes = nbytes,
           uf_sha256_checksum = checksum, uf_backend = backend, uf_object_key = key,
           uf_etag = etag, uf_version_id = version\<rparr>) gen)
      (\<lambda>f. Inr (d\<lparr>uploaded_files := uploaded_files d @ [f]\<rparr>))))"

definition list_uploaded_files_for_run :: "tenant_context \<Rightarrow> int \<Rightarrow> tenant_db \<Rightarrow> uploaded_file list" where
  "list_uploaded_files_for_run c run d =
    filter (\<lambda>f. uf_organisation_id f = c_organisation_id c \<and> uf_run_id f = run) (uploaded_files d)"

definition artifact_checks :: "artifact_record \<Rightarrow> bool" where
  "artifact_checks a \<longleftrightarrow> af_artifact_type a \<in> {''tally_xml'', ''report_json'', ''certificate_json'', ''recovery_json''}
     \<and> 0 \<le> af_size_bytes a \<and> hex64 (af_content_sha256 a)"

definition save_artifact_metadata ::
  "(string \<Rightarrow> bool) \<Rightarrow> (nat \<Rightarrow> string) \<Rightarrow> tenant_context \<Rightarrow> int \<Rightarrow> string \<Rightarrow> string \<Rightarrow> string \<Rightarrow> int \<Rightarrow> string \<Rightarrow>
   tenant_db \<Rightarrow> service_error + tenant_db" where
  "save_artifact_metadata up gen c run kind filename media nbytes checksum d =
    stored (attempt (require c ''complete'') (\<lambda>_.
      attempt (insert_with_public_id_retry artifact_checks (\<lambda>pid. pid \<in> set (map af_public_id (artifacts d)))
        (\<lambda>a. run_exists (core d) (af_organisation_id a) (af_run_id a) \<and>
           \<not> list_ex (\<lambda>x. af_organisation_id x = af_organisation_id a \<and> af_run_id x = af_run_id a
             \<and> af_artifact_type x = af_artifact_type a) (artifacts d))
        (\<lambda>pid. \<lparr>af_public_id = pid, af_organisation_id = c_organisation_id c, af_run_id = run, af_artifact_type = kind,
           af_filename = clean_filename up ''artifact'' filename, af_media_type = concat (take 128 (text_chars media)),
           af_size_bytes = nbytes, af_content_sha256 = checksum\<rparr>) gen)
      (\<lambda>a. Inr (d\<lparr>artifacts := artifacts d @ [a]\<rparr>))))"

definition list_artifacts_for_run :: "tenant_context \<Rightarrow> int \<Rightarrow> tenant_db \<Rightarrow> artifact_record list" where
  "list_artifacts_for_run c run d =
    filter (\<lambda>a. af_organisation_id a = c_organisation_id c \<and> af_run_id a = run) (artifacts d)"

definition get_artifact_for_run_by_type :: "tenant_context \<Rightarrow> int \<Rightarrow> string \<Rightarrow> tenant_db \<Rightarrow> artifact_record option" where
  "get_artifact_for_run_by_type c run kind d = find (\<lambda>a. af_artifact_type a = kind) (list_artifacts_for_run c run d)"

subsection \<open>Results\<close>

definition result_checks :: "result_record \<Rightarrow> bool" where
  "result_checks r \<longleftrightarrow> hex64 (rt_audit_root r) \<and> hex64 (rt_report_sha256 r)"

definition save_result ::
  "(string \<Rightarrow> string) \<Rightarrow> (nat \<Rightarrow> string) \<Rightarrow> tenant_context \<Rightarrow> int \<Rightarrow> json \<Rightarrow> json \<Rightarrow> string \<Rightarrow> string \<Rightarrow> string \<Rightarrow>
   tenant_db \<Rightarrow> service_error + tenant_db" where
  "save_result sha gen c run summary presentation txt root_hash report_sha d =
    attempt (stored (require c ''complete'')) (\<lambda>_.
      if sha txt \<noteq> report_sha then Inl Result_Integrity_Error
      else stored (attempt (insert_with_public_id_retry result_checks (\<lambda>pid. pid \<in> set (map rt_public_id (results d)))
        (\<lambda>r. run_exists (core d) (rt_organisation_id r) (rt_run_id r) \<and>
           \<not> list_ex (\<lambda>x. rt_organisation_id x = rt_organisation_id r \<and> rt_run_id x = rt_run_id r) (results d))
        (\<lambda>pid. \<lparr>rt_public_id = pid, rt_organisation_id = c_organisation_id c, rt_run_id = run, rt_summary = summary,
           rt_presentation = presentation, rt_canonical_report_text = txt, rt_audit_root = root_hash,
           rt_report_sha256 = report_sha\<rparr>) gen)
      (\<lambda>r. Inr (d\<lparr>results := results d @ [r]\<rparr>))))"

definition get_result_by_run_id :: "tenant_context \<Rightarrow> int \<Rightarrow> tenant_db \<Rightarrow> result_record option" where
  "get_result_by_run_id c run d = find (\<lambda>r. rt_organisation_id r = c_organisation_id c \<and> rt_run_id r = run) (results d)"

subsection \<open>Investigations\<close>

text \<open>
  \<open>float(v)\<close> of a decoded value; an integer is taken at its exact value, which the CHECK of the column
  bounds by one.
\<close>

definition py_float :: "json \<Rightarrow> service_error + rat" where
  "py_float v = (case v of JBool b \<Rightarrow> Inr (if b then 1 else 0) | JInt i \<Rightarrow> Inr (of_int i) | JFloat x \<Rightarrow> Inr x
     | JStr s \<Rightarrow> (case float_of_text (py_strip s) of None \<Rightarrow> Inl Value_Error | Some x \<Rightarrow> Inr x) | _ \<Rightarrow> Inl Type_Error)"

definition required_text :: "(string \<times> json) list \<Rightarrow> string \<Rightarrow> service_error + string" where
  "required_text d k = (case map_of d k of None \<Rightarrow> Inl (Key_Error k) | Some (JStr s) \<Rightarrow> Inr s | Some _ \<Rightarrow> Inl Not_Text)"

definition required_paise :: "(string \<times> json) list \<Rightarrow> service_error + int" where
  "required_paise d = (case map_of d ''variance_paise'' of Some (JInt i) \<Rightarrow> Inr i | _ \<Rightarrow> Inl Invalid_Investigation)"

definition ROOT_CAUSES :: "string list" where
  "ROOT_CAUSES = [''mdr_fee_drift'', ''cross_cycle_refund_lag'', ''on_hold_release'', ''dispute_deduction'',
     ''partial_capture'', ''bank_charge_or_rounding'', ''rolling_reserve'', ''unexplained'']"

definition investigation_checks :: "investigation_record \<Rightarrow> bool" where
  "investigation_checks v \<longleftrightarrow> nv_root_cause v \<in> set ROOT_CAUSES \<and> 0 \<le> nv_confidence v \<and> nv_confidence v \<le> 1"

definition save_investigation ::
  "(nat \<Rightarrow> string) \<Rightarrow> tenant_context \<Rightarrow> int \<Rightarrow> (string \<times> json) list \<Rightarrow> tenant_db \<Rightarrow> service_error + tenant_db" where
  "save_investigation gen c run kase d =
    attempt (required_paise kase) (\<lambda>variance.
    attempt (required_text kase ''line_key'') (\<lambda>key.
    attempt (required_text kase ''root_cause'') (\<lambda>cause.
    attempt (py_float (dget kase ''confidence'' (JFloat 0))) (\<lambda>conf.
      stored (attempt (insert_with_public_id_retry investigation_checks
          (\<lambda>pid. pid \<in> set (map nv_public_id (investigation_rows d)))
          (\<lambda>v. run_exists (core d) (nv_organisation_id v) (nv_run_id v) \<and>
             \<not> list_ex (\<lambda>x. nv_organisation_id x = nv_organisation_id v \<and> nv_run_id x = nv_run_id v
               \<and> nv_line_key x = nv_line_key v) (investigation_rows d))
          (\<lambda>pid. \<lparr>nv_public_id = pid, nv_organisation_id = c_organisation_id c, nv_run_id = run, nv_line_key = key,
             nv_root_cause = cause, nv_resolved = json_truthy (dget kase ''resolved'' (JBool False)), nv_confidence = conf,
             nv_variance_paise = variance,
             nv_details = (let t = jget kase ''details_json'' in if json_truthy t then t else JObj kase)\<rparr>) gen)
        (\<lambda>v. Inr (d\<lparr>investigation_rows := investigation_rows d @ [v]\<rparr>)))))))"

fun save_cases ::
  "(nat \<Rightarrow> nat \<Rightarrow> string) \<Rightarrow> tenant_context \<Rightarrow> int \<Rightarrow> nat \<Rightarrow> (string \<times> json) list list \<Rightarrow> tenant_db \<Rightarrow> service_error + tenant_db" where
  "save_cases gens c run i [] d = Inr d"
| "save_cases gens c run i (kase # ks) d =
    attempt (save_investigation (gens i) c run kase d) (\<lambda>d1. save_cases gens c run (Suc i) ks d1)"

definition save_investigations ::
  "(nat \<Rightarrow> nat \<Rightarrow> string) \<Rightarrow> tenant_context \<Rightarrow> int \<Rightarrow> (string \<times> json) list list \<Rightarrow> tenant_db \<Rightarrow> service_error + tenant_db" where
  "save_investigations gens c run cases d =
    attempt (stored (require c ''complete'')) (\<lambda>_. save_cases gens c run 0 cases d)"

definition list_investigations_by_run_id :: "tenant_context \<Rightarrow> int \<Rightarrow> tenant_db \<Rightarrow> investigation_record list" where
  "list_investigations_by_run_id c run d =
    filter (\<lambda>v. nv_organisation_id v = c_organisation_id c \<and> nv_run_id v = run) (investigation_rows d)"

subsection \<open>Certificates\<close>

definition certificate_checks :: "certificate_record \<Rightarrow> bool" where
  "certificate_checks t \<longleftrightarrow> hex64 (ct_content_sha256 t) \<and> hex64 (ct_report_sha256 t)
     \<and> (if ct_is_signed t then ct_signature t \<noteq> None \<and> ct_public_key_pem t \<noteq> None
        else ct_signature t = None \<and> ct_public_key_pem t = None)"

definition save_certificate ::
  "(nat \<Rightarrow> string) \<Rightarrow> tenant_context \<Rightarrow> int \<Rightarrow> json \<Rightarrow> string \<Rightarrow> string \<Rightarrow> bool \<Rightarrow> string option \<Rightarrow> string option \<Rightarrow>
   tenant_db \<Rightarrow> service_error + tenant_db" where
  "save_certificate gen c run cert content_sha report_sha signed sig pem d =
    stored (attempt (require c ''complete'') (\<lambda>_.
      attempt (insert_with_public_id_retry certificate_checks (\<lambda>pid. pid \<in> set (map ct_public_id (certificates d)))
        (\<lambda>t. run_exists (core d) (ct_organisation_id t) (ct_run_id t) \<and>
           \<not> list_ex (\<lambda>x. ct_organisation_id x = ct_organisation_id t \<and> ct_run_id x = ct_run_id t) (certificates d))
        (\<lambda>pid. \<lparr>ct_public_id = pid, ct_organisation_id = c_organisation_id c, ct_run_id = run,
           ct_content_sha256 = content_sha, ct_report_sha256 = report_sha, ct_is_signed = signed, ct_signature = sig,
           ct_public_key_pem = pem, ct_certificate = cert\<rparr>) gen)
      (\<lambda>t. Inr (d\<lparr>certificates := certificates d @ [t]\<rparr>))))"

definition get_certificate_by_run_id :: "tenant_context \<Rightarrow> int \<Rightarrow> tenant_db \<Rightarrow> certificate_record option" where
  "get_certificate_by_run_id c run d =
    find (\<lambda>t. ct_organisation_id t = c_organisation_id c \<and> ct_run_id t = run) (certificates d)"

definition get_certificate_by_public_id :: "tenant_context \<Rightarrow> string \<Rightarrow> tenant_db \<Rightarrow> certificate_record option" where
  "get_certificate_by_public_id c pid d =
    find (\<lambda>t. ct_organisation_id t = c_organisation_id c \<and> ct_public_id t = pid) (certificates d)"

end
