(* ===== verification/RunService.thy ===== *)
theory RunService
  imports RunRecords
begin

section \<open>The tenant reconciliation service: \<open>persistence/service.py\<close>\<close>

text \<open>
  A run is executed in three phases: a transaction that records it with its input files, the engine outside
  any transaction, and a transaction that stores everything the run leaves behind; a failure is recorded in a
  transaction of its own. The engine (\<open>engine\<close>), the presentation payload and the Tally export are arguments,
  as are the generated ids (\<open>ids i\<close> for the \<open>i\<close>-th insertion), the clocks, and \<open>mid\<close>: what other
  transactions did to the database between two transactions of the service. Audit metadata other than those
  of deletions and legal holds are not kept.
\<close>

subsection \<open>Transactions\<close>

definition unit_of_work :: "(tenant_db \<Rightarrow> service_error + ('a \<times> tenant_db)) \<Rightarrow> tenant_db \<Rightarrow> (service_error + 'a) \<times> tenant_db" where
  "unit_of_work f d = (case f d of Inl e \<Rightarrow> (Inl e, d) | Inr (a, d') \<Rightarrow> (Inr a, d'))"

definition in_core :: "(db \<Rightarrow> db_error + db) \<Rightarrow> tenant_db \<Rightarrow> service_error + tenant_db" where
  "in_core f d = attempt (stored (f (core d))) (\<lambda>k. Inr (d\<lparr>core := k\<rparr>))"

record run_input =
  ri_bytes :: string
  ri_filename :: string

record service_input =
  si_bank :: run_input
  si_recon :: run_input
  si_ledger :: run_input

text \<open>What the service calls: digests, key material, the engine and the renderers.\<close>

record 'k service_env =
  sv_printable :: "string \<Rightarrow> bool"
  sv_sha :: "string \<Rightarrow> string"
  sv_crypto :: "'k crypto"
  sv_reconcile :: "string \<Rightarrow> string \<Rightarrow> string \<Rightarrow> (string \<times> json) list option"
  sv_presentation :: "json \<Rightarrow> (string \<times> json) list \<Rightarrow> json option"
  sv_tally :: "json \<Rightarrow> string option"

subsection \<open>Phase 1: the run and its input files\<close>

definition save_input ::
  "'k service_env \<Rightarrow> (nat \<Rightarrow> string) \<Rightarrow> tenant_context \<Rightarrow> int \<Rightarrow> string \<Rightarrow> string \<Rightarrow> run_input \<Rightarrow> tenant_db \<Rightarrow> service_error + tenant_db" where
  "save_input env gen c run role ctype f d =
    save_uploaded_file_metadata (sv_printable env) gen c run role (ri_filename f) ctype (int (length (ri_bytes f)))
      (sv_sha env (ri_bytes f)) ''s3'' [] None None d"

definition initiate_run ::
  "'k service_env \<Rightarrow> (nat \<Rightarrow> nat \<Rightarrow> string) \<Rightarrow> tenant_context \<Rightarrow> service_input \<Rightarrow> int \<Rightarrow> tenant_db \<Rightarrow>
   service_error + (run_row \<times> tenant_db)" where
  "initiate_run env ids c inp now d =
    attempt (stored (create_run (ids 0) c ''{}'' now (core d))) (\<lambda>(run, k).
    attempt (save_input env (ids 1) c (r_id run) ''bank_statement'' ''text/csv'' (si_bank inp) (d\<lparr>core := k\<rparr>)) (\<lambda>d.
    attempt (save_input env (ids 2) c (r_id run) ''recon_report'' ''application/json'' (si_recon inp) d) (\<lambda>d.
    attempt (save_input env (ids 3) c (r_id run) ''order_ledger'' ''text/csv'' (si_ledger inp) d) (\<lambda>d.
    attempt (in_core (append_audit_event (ids 4) c ''run.initiated'' ''reconciliation_run'' (r_public_id run) NoMetadata None) d)
      (\<lambda>d. Inr (run, d))))))"

subsection \<open>Phase 2: the engine\<close>

record run_output =
  ro_report :: "(string \<times> json) list"
  ro_certificate :: "(string \<times> json) list"
  ro_presentation :: json
  ro_tally :: string

definition from_option :: "'e \<Rightarrow> 'a option \<Rightarrow> 'e + 'a" where
  "from_option e x = (case x of None \<Rightarrow> Inl e | Some a \<Rightarrow> Inr a)"

text \<open>\<open>d.get(k) or v\<close>.\<close>

definition jget_or :: "(string \<times> json) list \<Rightarrow> string \<Rightarrow> json \<Rightarrow> json" where
  "jget_or d k v = (if json_truthy (jget d k) then jget d k else v)"

definition run_engine :: "'k service_env \<Rightarrow> service_input \<Rightarrow> service_error + run_output" where
  "run_engine env inp =
    attempt (from_option Engine_Failure (sv_reconcile env (ri_bytes (si_bank inp)) (ri_bytes (si_recon inp)) (ri_bytes (si_ledger inp)))) (\<lambda>rep.
    attempt (map_sum Cert_Failure id (issue_certificate (sv_sha env) (sv_crypto env) (JObj rep))) (\<lambda>cert.
    attempt (from_option Engine_Failure (sv_presentation env (JObj rep) cert)) (\<lambda>pres.
    attempt (from_option Engine_Failure (sv_tally env (jget_or rep ''journal'' (JList [])))) (\<lambda>xml.
      Inr \<lparr>ro_report = rep, ro_certificate = cert, ro_presentation = pres, ro_tally = xml\<rparr>))))"

definition report_digest :: "'k service_env \<Rightarrow> (string \<times> json) list \<Rightarrow> string" where
  "report_digest env rep = canonical_hash (sv_sha env) (JObj rep)"

subsection \<open>Phase 3: completion\<close>

record run_response =
  rr_run_public_id :: string
  rr_report :: "(string \<times> json) list"
  rr_certificate :: "(string \<times> json) list"
  rr_presentation :: json
  rr_report_sha256 :: string

definition optional_text :: "string \<Rightarrow> string option \<Rightarrow> (string \<times> json) list" where
  "optional_text k v = (case v of None \<Rightarrow> [] | Some s \<Rightarrow> [(k, JStr s)])"

definition stored_envelope :: "certificate_record \<Rightarrow> (string \<times> json) list" where
  "stored_envelope t =
    [(''certificate'', ct_certificate t), (''content_sha256'', JStr (ct_content_sha256 t)), (''signed'', JBool (ct_is_signed t)),
     (''note'', JStr (certificate_note (ct_is_signed t)))]
    @ optional_text ''signature'' (ct_signature t) @ optional_text ''public_key_pem'' (ct_public_key_pem t)"

definition authoritative_completed_result ::
  "'k service_env \<Rightarrow> tenant_context \<Rightarrow> run_row \<Rightarrow> (string \<times> json) list \<Rightarrow> tenant_db \<Rightarrow> service_error + run_response" where
  "authoritative_completed_result env c run rep d =
    (case get_certificate_by_run_id c (r_id run) d of
       None \<Rightarrow> Inl (Store_Error InvalidRunStateError)
     | Some t \<Rightarrow> attempt (from_option Engine_Failure (sv_presentation env (JObj rep) (stored_envelope t))) (\<lambda>pres.
         Inr \<lparr>rr_run_public_id = r_public_id run, rr_report = rep, rr_certificate = stored_envelope t,
              rr_presentation = pres, rr_report_sha256 = report_digest env rep\<rparr>))"

text \<open>The text of a field of the envelope or the report; other values have their own error.\<close>

definition text_of :: "json \<Rightarrow> service_error + string" where
  "text_of v = (case v of JStr s \<Rightarrow> Inr s | _ \<Rightarrow> Inl Not_Text)"

definition opt_text_of :: "json \<Rightarrow> service_error + string option" where
  "opt_text_of v = (case v of JStr s \<Rightarrow> Inr (Some s) | JNull \<Rightarrow> Inr None | _ \<Rightarrow> Inl Not_Text)"

fun objects_of :: "json list \<Rightarrow> service_error + (string \<times> json) list list" where
  "objects_of [] = Inr []"
| "objects_of (JObj d # js) = attempt (objects_of js) (\<lambda>ds. Inr (d # ds))"
| "objects_of (_ # js) = Inl Invalid_Investigation"

definition investigation_cases :: "(string \<times> json) list \<Rightarrow> service_error + (string \<times> json) list list" where
  "investigation_cases rep = (case jget_or rep ''investigations'' (JList []) of JList js \<Rightarrow> objects_of js | _ \<Rightarrow> Inl Type_Error)"

definition pack_field :: "(string \<times> json) list \<Rightarrow> string \<Rightarrow> service_error + string option" where
  "pack_field rep k = (case dget rep ''config'' (JObj []) of
     JObj cfg \<Rightarrow> (case jget_or cfg ''evidence_pack'' (JObj []) of JObj pack \<Rightarrow> opt_text_of (jget pack k) | _ \<Rightarrow> Inl Type_Error)
   | _ \<Rightarrow> Inl Type_Error)"

definition save_certificate_of ::
  "'k service_env \<Rightarrow> (nat \<Rightarrow> string) \<Rightarrow> tenant_context \<Rightarrow> int \<Rightarrow> run_output \<Rightarrow> tenant_db \<Rightarrow> service_error + tenant_db" where
  "save_certificate_of env gen c run out d =
    attempt (text_of (jget (ro_certificate out) ''content_sha256'')) (\<lambda>content.
    attempt (opt_text_of (jget (ro_certificate out) ''signature'')) (\<lambda>sig.
    attempt (opt_text_of (jget (ro_certificate out) ''public_key_pem'')) (\<lambda>pem.
      save_certificate gen c run (jget (ro_certificate out) ''certificate'') content (report_digest env (ro_report out))
        (json_truthy (jget (ro_certificate out) ''signed'')) sig pem d)))"

definition persist_completion ::
  "'k service_env \<Rightarrow> (nat \<Rightarrow> nat \<Rightarrow> string) \<Rightarrow> tenant_context \<Rightarrow> run_row \<Rightarrow> service_input \<Rightarrow> run_output \<Rightarrow> int \<Rightarrow> tenant_db \<Rightarrow>
   service_error + tenant_db" where
  "persist_completion env ids c run inp out now d =
    (let rep = ro_report out; sha = report_digest env rep; i = r_id run in
     attempt (text_of (dget rep ''audit_root'' (JStr []))) (\<lambda>root_hash.
     attempt (save_result (sv_sha env) (ids 5) c i (jget_or rep ''totals'' (JObj [])) (ro_presentation out) (json_dumps (JObj rep)) root_hash sha d) (\<lambda>d.
     attempt (investigation_cases rep) (\<lambda>cases.
     attempt (save_investigations (\<lambda>k. ids (10 + k)) c i cases d) (\<lambda>d.
     attempt (save_certificate_of env (ids 6) c i out d) (\<lambda>d.
     attempt (save_artifact_metadata (sv_printable env) (ids 7) c i ''tally_xml'' ''untangle_tally_vouchers.xml'' ''application/xml''
                (int (length (ro_tally out))) (sv_sha env (ro_tally out)) d) (\<lambda>d.
     attempt (save_artifact_metadata (sv_printable env) (ids 8) c i ''report_json'' ''untangle_report.json'' ''application/json''
                (int (length (json_dumps (JObj rep)))) sha d) (\<lambda>d.
     attempt (in_core (append_audit_event (ids 9) c ''run.completed'' ''reconciliation_run'' (r_public_id run) NoMetadata None) d) (\<lambda>d.
     attempt (pack_field rep ''pack_id'') (\<lambda>pack_id.
     attempt (pack_field rep ''version'') (\<lambda>pack_version.
       in_core (complete_run c i \<lparr>h_reconciliation_hash = Some sha,
          h_bank_statement_hash = Some (sv_sha env (ri_bytes (si_bank inp))),
          h_recon_report_hash = Some (sv_sha env (ri_bytes (si_recon inp))),
          h_order_ledger_hash = Some (sv_sha env (ri_bytes (si_ledger inp))),
          h_evidence_pack_id = pack_id, h_evidence_pack_version = pack_version\<rparr> now) d)))))))))))"

definition complete_phase ::
  "'k service_env \<Rightarrow> (nat \<Rightarrow> nat \<Rightarrow> string) \<Rightarrow> tenant_context \<Rightarrow> run_row \<Rightarrow> service_input \<Rightarrow> run_output \<Rightarrow> int \<Rightarrow> tenant_db \<Rightarrow>
   service_error + (run_response \<times> tenant_db)" where
  "complete_phase env ids c run inp out now d =
    attempt (stored (lock_run_for_update c (Some (r_id run)) None (core d))) (\<lambda>found.
      case found of
        None \<Rightarrow> Inl (Store_Error InvalidRunStateError)
      | Some locked \<Rightarrow>
          if r_status locked = RCompleted then
            (if r_reconciliation_hash locked \<noteq> Some (report_digest env (ro_report out)) then Inl (Store_Error InvalidRunStateError)
             else attempt (authoritative_completed_result env c run (ro_report out) d) (\<lambda>resp. Inr (resp, d)))
          else if r_status locked \<in> {RFailed, RAborted} then Inl (Store_Error InvalidRunStateError)
          else attempt (persist_completion env ids c run inp out now d) (\<lambda>d.
            Inr (\<lparr>rr_run_public_id = r_public_id run, rr_report = ro_report out, rr_certificate = ro_certificate out,
                  rr_presentation = ro_presentation out, rr_report_sha256 = report_digest env (ro_report out)\<rparr>, d)))"

subsection \<open>Failures\<close>

definition fail_and_audit ::
  "(nat \<Rightarrow> string) \<Rightarrow> tenant_context \<Rightarrow> run_row \<Rightarrow> string \<Rightarrow> string \<Rightarrow> int \<Rightarrow> tenant_db \<Rightarrow> service_error + (unit \<times> tenant_db)" where
  "fail_and_audit gen c run error_code summary now d =
    attempt (in_core (fail_run c (r_id run) error_code summary now) d) (\<lambda>d1.
      case get_run_by_id c (r_id run) (core d1) of
        None \<Rightarrow> Inl (Store_Error RecordNotFoundError)
      | Some r \<Rightarrow>
          if r_status r = RCompleted then Inr ((), d1)
          else attempt (in_core (append_audit_event gen c ''run.failed'' ''reconciliation_run'' (r_public_id run) NoMetadata None) d1)
            (\<lambda>d2. Inr ((), d2)))"

definition record_failure ::
  "(nat \<Rightarrow> string) \<Rightarrow> tenant_context \<Rightarrow> run_row \<Rightarrow> string \<Rightarrow> string \<Rightarrow> int \<Rightarrow> tenant_db \<Rightarrow> (service_error + unit) \<times> tenant_db" where
  "record_failure gen c run error_code summary now d =
    (case unit_of_work (fail_and_audit gen c run error_code summary now) d of
       (Inl _, d1) \<Rightarrow> (Inl Recording_Failed, d1) | (Inr u, d1) \<Rightarrow> (Inr u, d1))"

text \<open>An error of the recording itself only becomes a note on the error that is raised.\<close>

definition execute_reconciliation ::
  "'k service_env \<Rightarrow> (nat \<Rightarrow> nat \<Rightarrow> string) \<Rightarrow> (nat \<Rightarrow> int) \<Rightarrow> (nat \<Rightarrow> tenant_db \<Rightarrow> tenant_db) \<Rightarrow> tenant_context \<Rightarrow>
   service_input \<Rightarrow> tenant_db \<Rightarrow> (service_error + run_response) \<times> tenant_db" where
  "execute_reconciliation env ids clock mid c inp d =
    (case unit_of_work (initiate_run env ids c inp (clock 0)) d of
       (Inl e, d1) \<Rightarrow> (Inl e, d1)
     | (Inr run, d1) \<Rightarrow> (case run_engine env inp of
         Inl e \<Rightarrow> (Inl e, snd (record_failure (ids 9) c run ''RECONCILIATION_FAILED''
           ''The deterministic reconciliation engine could not process the input.'' (clock 1) (mid 0 d1)))
       | Inr out \<Rightarrow> (case unit_of_work (complete_phase env ids c run inp out (clock 1)) (mid 0 d1) of
           (Inr resp, d2) \<Rightarrow> (Inr resp, d2)
         | (Inl e, d2) \<Rightarrow> (if e = Store_Error InvalidRunStateError then (Inl e, d2)
             else (Inl e, snd (record_failure (ids 9) c run ''PERSISTENCE_FAILURE''
               ''The reconciliation output could not be persisted.'' (clock 2) (mid 1 d2)))))))"

end
