(* ===== verification/RunSafety.thy ===== *)
theory RunSafety
  imports RunService
begin

section \<open>Runs complete all or nothing\<close>

text \<open>
  The state invariant of the tables of a run: rows name a run of their organisation, a completed run has one
  result and one certificate with the digest it is completed with, and any other run has left nothing
  behind. Every execution keeps it, whatever the engine does and wherever it fails; a retry of a completion
  returns the certificate of the first one.
\<close>

subsection \<open>What the repositories store\<close>

lemma stored_Inr: "stored x = Inr y \<longleftrightarrow> x = Inr y"
  by (cases x) (simp_all add: stored_def)

lemma in_core_Inr: "in_core f d = Inr d' \<longleftrightarrow> (\<exists>k. f (core d) = Inr k \<and> d' = d\<lparr>core := k\<rparr>)"
  by (auto simp: in_core_def attempt_Inr stored_Inr)

lemma save_uploaded_file_InrD:
  "save_uploaded_file_metadata up gen c run role fn ct n sha bk key et v d = Inr d' \<Longrightarrow>
     \<exists>f. d' = d\<lparr>uploaded_files := uploaded_files d @ [f]\<rparr> \<and> run_exists (core d) (uf_organisation_id f) (uf_run_id f)
       \<and> uf_organisation_id f = c_organisation_id c \<and> uf_run_id f = run \<and> uf_file_role f = role
       \<and> uf_sha256_checksum f = sha \<and> uf_object_key f = key \<and> uf_backend f = bk"
  unfolding save_uploaded_file_metadata_def stored_Inr
  by (auto simp: store_simps dest!: insert_with_public_id_retry_InrD)

lemma save_artifact_InrD:
  "save_artifact_metadata up gen c run kind fn m n sha d = Inr d' \<Longrightarrow>
     \<exists>a. d' = d\<lparr>artifacts := artifacts d @ [a]\<rparr> \<and> run_exists (core d) (af_organisation_id a) (af_run_id a)
       \<and> af_organisation_id a = c_organisation_id c \<and> af_run_id a = run \<and> af_artifact_type a = kind \<and> af_content_sha256 a = sha"
  unfolding save_artifact_metadata_def stored_Inr
  by (auto simp: store_simps dest!: insert_with_public_id_retry_InrD)

lemma save_result_InrD:
  "save_result sha gen c run sm pr txt rh dg d = Inr d' \<Longrightarrow>
     \<exists>r. d' = d\<lparr>results := results d @ [r]\<rparr> \<and> run_exists (core d) (rt_organisation_id r) (rt_run_id r)
       \<and> rt_organisation_id r = c_organisation_id c \<and> rt_run_id r = run \<and> rt_report_sha256 r = dg
       \<and> sha (rt_canonical_report_text r) = dg"
  unfolding save_result_def
  by (auto simp: store_simps stored_Inr split: if_split_asm dest!: insert_with_public_id_retry_InrD)

lemma save_certificate_InrD:
  "save_certificate gen c run cert content dg signed sig pem d = Inr d' \<Longrightarrow>
     \<exists>t. d' = d\<lparr>certificates := certificates d @ [t]\<rparr> \<and> run_exists (core d) (ct_organisation_id t) (ct_run_id t)
       \<and> ct_organisation_id t = c_organisation_id c \<and> ct_run_id t = run \<and> ct_report_sha256 t = dg
       \<and> ct_content_sha256 t = content \<and> ct_certificate t = cert \<and> ct_is_signed t = signed \<and> ct_signature t = sig
       \<and> ct_public_key_pem t = pem"
  unfolding save_certificate_def stored_Inr
  by (auto simp: store_simps dest!: insert_with_public_id_retry_InrD)

lemma save_investigation_InrD:
  "save_investigation gen c run kase d = Inr d' \<Longrightarrow>
     \<exists>v. d' = d\<lparr>investigation_rows := investigation_rows d @ [v]\<rparr> \<and> run_exists (core d) (nv_organisation_id v) (nv_run_id v)
       \<and> nv_organisation_id v = c_organisation_id c \<and> nv_run_id v = run"
  unfolding save_investigation_def
  by (auto simp: store_simps stored_Inr dest!: insert_with_public_id_retry_InrD)

definition rows_of_run :: "tenant_context \<Rightarrow> int \<Rightarrow> db \<Rightarrow> investigation_record list \<Rightarrow> bool" where
  "rows_of_run c run k vs \<longleftrightarrow> (\<forall>v \<in> set vs. run_exists k (nv_organisation_id v) (nv_run_id v)
     \<and> nv_organisation_id v = c_organisation_id c \<and> nv_run_id v = run)"

lemma save_cases_InrD:
  "save_cases gens c run i kases d = Inr d' \<Longrightarrow>
     \<exists>vs. d' = d\<lparr>investigation_rows := investigation_rows d @ vs\<rparr> \<and> rows_of_run c run (core d) vs"
proof (induction kases arbitrary: i d)
  case Nil
  then show ?case by (intro exI [of _ "[]"]) (cases d, simp add: rows_of_run_def)
next
  case (Cons kase kases)
  then obtain d1 where d1: "save_investigation (gens i) c run kase d = Inr d1" "save_cases gens c run (Suc i) kases d1 = Inr d'"
    by (auto simp: attempt_Inr)
  obtain v where v: "d1 = d\<lparr>investigation_rows := investigation_rows d @ [v]\<rparr>" "rows_of_run c run (core d) [v]"
    using save_investigation_InrD [OF d1(1)] by (auto simp: rows_of_run_def)
  obtain vs where "d' = d1\<lparr>investigation_rows := investigation_rows d1 @ vs\<rparr>" "rows_of_run c run (core d1) vs"
    using Cons.IH [OF d1(2)] by blast
  then show ?case using v by (intro exI [of _ "v # vs"]) (auto simp: rows_of_run_def)
qed

lemma append_audit_event_runs: "append_audit_event gen c ty sty subj meta req k = Inr k' \<Longrightarrow> runs k' = runs k"
  by (auto dest!: append_audit_event_InrD)

text \<open>What a completion that did not raise has stored.\<close>

lemma persist_completionE:
  assumes "persist_completion env ids c run inp out now d = Inr d'"
  obtains rt vs ct ax ay h k k' where
    "d' = d\<lparr>core := k', results := results d @ [rt], investigation_rows := investigation_rows d @ vs,
       certificates := certificates d @ [ct], artifacts := artifacts d @ [ax, ay]\<rparr>"
    "rt_organisation_id rt = c_organisation_id c" "rt_run_id rt = r_id run"
    "rt_report_sha256 rt = report_digest env (ro_report out)" "sv_sha env (rt_canonical_report_text rt) = report_digest env (ro_report out)"
    "rows_of_run c (r_id run) (core d) vs"
    "save_certificate_of env (ids 6) c (r_id run) out (d\<lparr>results := results d @ [rt], investigation_rows := investigation_rows d @ vs\<rparr>)
       = Inr (d\<lparr>results := results d @ [rt], investigation_rows := investigation_rows d @ vs, certificates := certificates d @ [ct]\<rparr>)"
    "ct_organisation_id ct = c_organisation_id c" "ct_run_id ct = r_id run" "ct_report_sha256 ct = report_digest env (ro_report out)"
    "\<forall>a \<in> {ax, ay}. af_organisation_id a = c_organisation_id c \<and> af_run_id a = r_id run"
    "runs k = runs (core d)" "h_reconciliation_hash h = Some (report_digest env (ro_report out))"
    "complete_run c (r_id run) h now k = Inr k'"
proof -
  from assms obtain rh d1 cases d2 d3 d4 d5 d6 p1 p2 where
    s: "save_result (sv_sha env) (ids 5) c (r_id run) (jget_or (ro_report out) ''totals'' (JObj [])) (ro_presentation out)
          (json_dumps (JObj (ro_report out))) rh (report_digest env (ro_report out)) d = Inr d1"
       "save_investigations (\<lambda>k. ids (10 + k)) c (r_id run) cases d1 = Inr d2"
       "save_certificate_of env (ids 6) c (r_id run) out d2 = Inr d3"
       "save_artifact_metadata (sv_printable env) (ids 7) c (r_id run) ''tally_xml'' ''untangle_tally_vouchers.xml'' ''application/xml''
                (int (length (ro_tally out))) (sv_sha env (ro_tally out)) d3 = Inr d4"
       "save_artifact_metadata (sv_printable env) (ids 8) c (r_id run) ''report_json'' ''untangle_report.json'' ''application/json''
                (int (length (json_dumps (JObj (ro_report out))))) (report_digest env (ro_report out)) d4 = Inr d5"
       "in_core (append_audit_event (ids 9) c ''run.completed'' ''reconciliation_run'' (r_public_id run) NoMetadata None) d5 = Inr d6"
       "in_core (complete_run c (r_id run) \<lparr>h_reconciliation_hash = Some (report_digest env (ro_report out)),
          h_bank_statement_hash = Some (sv_sha env (ri_bytes (si_bank inp))),
          h_recon_report_hash = Some (sv_sha env (ri_bytes (si_recon inp))),
          h_order_ledger_hash = Some (sv_sha env (ri_bytes (si_ledger inp))),
          h_evidence_pack_id = p1, h_evidence_pack_version = p2\<rparr> now) d6 = Inr d'"
    unfolding persist_completion_def Let_def by (elim attemptE) blast
  obtain rt where rt: "d1 = d\<lparr>results := results d @ [rt]\<rparr>" "rt_organisation_id rt = c_organisation_id c" "rt_run_id rt = r_id run"
    "rt_report_sha256 rt = report_digest env (ro_report out)" "sv_sha env (rt_canonical_report_text rt) = report_digest env (ro_report out)"
    using save_result_InrD [OF s(1)] by blast
  obtain vs where vs: "d2 = d1\<lparr>investigation_rows := investigation_rows d1 @ vs\<rparr>" "rows_of_run c (r_id run) (core d1) vs"
    using s(2) by (auto simp: save_investigations_def attempt_Inr dest!: save_cases_InrD)
  obtain ct where ct: "d3 = d2\<lparr>certificates := certificates d2 @ [ct]\<rparr>" "ct_organisation_id ct = c_organisation_id c"
    "ct_run_id ct = r_id run" "ct_report_sha256 ct = report_digest env (ro_report out)"
    using s(3) by (auto simp: save_certificate_of_def attempt_Inr dest!: save_certificate_InrD)
  obtain ax where ax: "d4 = d3\<lparr>artifacts := artifacts d3 @ [ax]\<rparr>" "af_organisation_id ax = c_organisation_id c" "af_run_id ax = r_id run"
    using save_artifact_InrD [OF s(4)] by blast
  obtain ay where ay: "d5 = d4\<lparr>artifacts := artifacts d4 @ [ay]\<rparr>" "af_organisation_id ay = c_organisation_id c" "af_run_id ay = r_id run"
    using save_artifact_InrD [OF s(5)] by blast
  obtain k where k: "d6 = d5\<lparr>core := k\<rparr>" "runs k = runs (core d5)"
    using s(6) by (auto simp: in_core_Inr dest: append_audit_event_runs)
  obtain k' where k': "d' = d6\<lparr>core := k'\<rparr>" and fin: "complete_run c (r_id run) \<lparr>h_reconciliation_hash = Some (report_digest env (ro_report out)),
          h_bank_statement_hash = Some (sv_sha env (ri_bytes (si_bank inp))),
          h_recon_report_hash = Some (sv_sha env (ri_bytes (si_recon inp))),
          h_order_ledger_hash = Some (sv_sha env (ri_bytes (si_ledger inp))),
          h_evidence_pack_id = p1, h_evidence_pack_version = p2\<rparr> now (core d6) = Inr k'"
    using s(7) unfolding in_core_Inr by blast
  show thesis
    by (rule that [where vs = vs and ax = ax and ay = ay, OF _ rt(2,3,4,5) _ _ ct(2,3,4) _ _ _ fin])
       (use s(3) rt(1) vs ct(1) ax ay k k' in simp_all)
qed

subsection \<open>The invariant\<close>

definition result_rows :: "tenant_db \<Rightarrow> run_row \<Rightarrow> result_record list" where
  "result_rows d r = filter (\<lambda>x. rt_organisation_id x = r_organisation_id r \<and> rt_run_id x = r_id r) (results d)"

definition certificate_rows :: "tenant_db \<Rightarrow> run_row \<Rightarrow> certificate_record list" where
  "certificate_rows d r = filter (\<lambda>x. ct_organisation_id x = r_organisation_id r \<and> ct_run_id x = r_id r) (certificates d)"

definition case_rows :: "tenant_db \<Rightarrow> run_row \<Rightarrow> investigation_record list" where
  "case_rows d r = filter (\<lambda>x. nv_organisation_id x = r_organisation_id r \<and> nv_run_id x = r_id r) (investigation_rows d)"

definition artifact_rows :: "tenant_db \<Rightarrow> run_row \<Rightarrow> artifact_record list" where
  "artifact_rows d r = filter (\<lambda>x. af_organisation_id x = r_organisation_id r \<and> af_run_id x = r_id r) (artifacts d)"

lemmas run_rows_defs = result_rows_def certificate_rows_def case_rows_def artifact_rows_def

definition completion_stored :: "(string \<Rightarrow> string) \<Rightarrow> tenant_db \<Rightarrow> run_row \<Rightarrow> bool" where
  "completion_stored sha d r \<longleftrightarrow> (\<exists>rt ct. result_rows d r = [rt] \<and> certificate_rows d r = [ct]
     \<and> r_reconciliation_hash r = Some (rt_report_sha256 rt) \<and> ct_report_sha256 ct = rt_report_sha256 rt
     \<and> sha (rt_canonical_report_text rt) = rt_report_sha256 rt)"

definition nothing_stored :: "tenant_db \<Rightarrow> run_row \<Rightarrow> bool" where
  "nothing_stored d r \<longleftrightarrow> result_rows d r = [] \<and> certificate_rows d r = [] \<and> case_rows d r = [] \<and> artifact_rows d r = []"

definition run_rows_ok :: "(string \<Rightarrow> string) \<Rightarrow> tenant_db \<Rightarrow> run_row \<Rightarrow> bool" where
  "run_rows_ok sha d r = (if r_status r = RCompleted then completion_stored sha d r else nothing_stored d r)"

definition rows_have_runs :: "tenant_db \<Rightarrow> bool" where
  "rows_have_runs d \<longleftrightarrow> (\<forall>x \<in> set (results d). run_exists (core d) (rt_organisation_id x) (rt_run_id x))
     \<and> (\<forall>x \<in> set (certificates d). run_exists (core d) (ct_organisation_id x) (ct_run_id x))
     \<and> (\<forall>x \<in> set (investigation_rows d). run_exists (core d) (nv_organisation_id x) (nv_run_id x))
     \<and> (\<forall>x \<in> set (artifacts d). run_exists (core d) (af_organisation_id x) (af_run_id x))"

definition run_store_ok :: "(string \<Rightarrow> string) \<Rightarrow> tenant_db \<Rightarrow> bool" where
  "run_store_ok sha d \<longleftrightarrow> distinct (map r_id (runs (core d))) \<and> rows_have_runs d \<and> (\<forall>r \<in> set (runs (core d)). run_rows_ok sha d r)"

text \<open>The four tables of a completion are all the invariant reads besides the runs.\<close>

definition same_rows :: "tenant_db \<Rightarrow> tenant_db \<Rightarrow> bool" where
  "same_rows d d' \<longleftrightarrow> results d' = results d \<and> certificates d' = certificates d
     \<and> investigation_rows d' = investigation_rows d \<and> artifacts d' = artifacts d"

lemma same_rows_run: "same_rows d d' \<Longrightarrow> run_rows_ok sha d' r = run_rows_ok sha d r"
  by (simp add: same_rows_def run_rows_ok_def completion_stored_def nothing_stored_def run_rows_defs)

lemma run_store_ok_runs:
  assumes "run_store_ok sha d" "same_rows d d'" "runs (core d') = runs (core d)"
  shows "run_store_ok sha d'"
  using assms same_rows_run [OF assms(2)]
  by (simp add: run_store_ok_def rows_have_runs_def run_exists_def) (simp add: same_rows_def)

text \<open>An update of runs that neither completes nor reopens one.\<close>

lemma run_rows_ok_cong:
  "r_id r' = r_id r \<Longrightarrow> r_organisation_id r' = r_organisation_id r \<Longrightarrow> r_status r \<noteq> RCompleted \<Longrightarrow> r_status r' \<noteq> RCompleted \<Longrightarrow>
     run_rows_ok sha d r' = run_rows_ok sha d r"
  by (simp add: run_rows_ok_def nothing_stored_def run_rows_defs)

lemma run_exists_map:
  "(\<And>r. r \<in> set (runs k) \<Longrightarrow> r_id (f r) = r_id r \<and> r_organisation_id (f r) = r_organisation_id r) \<Longrightarrow>
     runs k' = map f (runs k) \<Longrightarrow> run_exists k' og i = run_exists k og i"
  by (auto simp: run_exists_def list_ex_iff)

lemma run_store_ok_update:
  assumes "run_store_ok sha d" "same_rows d d'" "runs (core d') = map f (runs (core d))"
    "\<And>r. r \<in> set (runs (core d)) \<Longrightarrow> f r = r \<or> r_id (f r) = r_id r \<and> r_organisation_id (f r) = r_organisation_id r
       \<and> r_status r \<noteq> RCompleted \<and> r_status (f r) \<noteq> RCompleted"
  shows "run_store_ok sha d'"
proof -
  have same: "r_id (f r) = r_id r \<and> r_organisation_id (f r) = r_organisation_id r" if "r \<in> set (runs (core d))" for r
    using assms(4) [OF that] by auto
  have "map r_id (runs (core d')) = map r_id (runs (core d))" using same by (simp add: assms(3))
  then have "distinct (map r_id (runs (core d')))" using assms(1) by (simp add: run_store_ok_def)
  moreover have "run_rows_ok sha d (f r)" if "r \<in> set (runs (core d))" for r
    using assms(1,4) that run_rows_ok_cong [of "f r" r] by (metis run_store_ok_def)
  ultimately show ?thesis
    using assms(1,2) same_rows_run [OF assms(2)] run_exists_map [OF same assms(3)]
    unfolding run_store_ok_def rows_have_runs_def same_rows_def by (simp add: assms(3))
qed

subsection \<open>Phase 1\<close>

lemma fresh_id_other [simp]: "x \<in> set xs \<Longrightarrow> fresh_id (map g xs) = g x \<longleftrightarrow> False"
  using fresh_id_notin [of "map g xs"] by auto

lemma create_run_InrD:
  "create_run gen c cfg now k = Inr (run, k') \<Longrightarrow>
     k' = k\<lparr>runs := runs k @ [run]\<rparr> \<and> r_id run \<notin> set (map r_id (runs k)) \<and> r_organisation_id run = c_organisation_id c
       \<and> r_status run = RInitiated \<and> \<not> r_is_deleted run"
  unfolding create_run_def by (elim attemptE) (auto dest!: insert_with_public_id_retry_InrD)

lemma save_input_InrD:
  "save_input env gen c run role ct f d = Inr d' \<Longrightarrow> core d' = core d \<and> same_rows d d'"
  by (auto simp: save_input_def same_rows_def dest!: save_uploaded_file_InrD)

lemma initiate_runE:
  assumes "initiate_run env ids c inp now d = Inr (run, d')"
  obtains k where "create_run (ids 0) c ''{}'' now (core d) = Inr (run, k)" "runs (core d') = runs k" "same_rows d d'"
proof -
  from assms obtain k d2 d3 d4 where s:
    "create_run (ids 0) c ''{}'' now (core d) = Inr (run, k)"
    "save_input env (ids 1) c (r_id run) ''bank_statement'' ''text/csv'' (si_bank inp) (d\<lparr>core := k\<rparr>) = Inr d2"
    "save_input env (ids 2) c (r_id run) ''recon_report'' ''application/json'' (si_recon inp) d2 = Inr d3"
    "save_input env (ids 3) c (r_id run) ''order_ledger'' ''text/csv'' (si_ledger inp) d3 = Inr d4"
    "in_core (append_audit_event (ids 4) c ''run.initiated'' ''reconciliation_run'' (r_public_id run) NoMetadata None) d4 = Inr d'"
    unfolding initiate_run_def by (auto elim!: attemptE simp: stored_Inr)
  note f = save_input_InrD [OF s(2)] save_input_InrD [OF s(3)] save_input_InrD [OF s(4)]
  have "core d4 = k" "same_rows d d4" using f by (auto simp: same_rows_def)
  moreover have "runs (core d') = runs (core d4)" "same_rows d4 d'"
    using s(5) by (auto simp: in_core_Inr same_rows_def dest: append_audit_event_runs)
  ultimately show thesis using that [OF s(1)] by (simp add: same_rows_def)
qed

lemma initiate_run_ok:
  assumes "initiate_run env ids c inp now d = Inr (run, d')" "run_store_ok sha d"
  shows "run_store_ok sha d'"
proof -
  obtain k where k: "create_run (ids 0) c ''{}'' now (core d) = Inr (run, k)" "runs (core d') = runs k" "same_rows d d'"
    using initiate_runE [OF assms(1)] .
  note n = create_run_InrD [OF k(1)]
  have ex: "run_exists (core d') og i = (run_exists (core d) og i \<or> r_organisation_id run = og \<and> r_id run = i)" for og i
    using n k(2) by (auto simp: run_exists_def)
  have new: "\<not> run_exists (core d) (r_organisation_id run) (r_id run)"
    using n by (auto simp: run_exists_def list_ex_iff image_iff)
  have "nothing_stored d run"
    using assms(2) new unfolding run_store_ok_def rows_have_runs_def nothing_stored_def run_rows_defs filter_empty_conv by auto
  then have "run_rows_ok sha d' r" if "r \<in> set (runs (core d'))" for r
    using that assms(2) n k(2) same_rows_run [OF k(3)] by (auto simp: run_store_ok_def run_rows_ok_def)
  then show ?thesis
    using assms(2) n k(2,3) ex by (auto simp: run_store_ok_def rows_have_runs_def same_rows_def)
qed

subsection \<open>Completion and failure\<close>

lemma locked_runD:
  "lock_run_for_update c (Some i) None k = Inr (Some r) \<Longrightarrow>
     r \<in> set (runs k) \<and> r_id r = i \<and> r_organisation_id r = c_organisation_id c \<and> \<not> r_is_deleted r"
  by (auto simp: lock_run_for_update_def scoped_runs_def dest!: find_mem)

lemma save_run_runs:
  "save_run now r k = Inr k' \<Longrightarrow> runs k' = map (\<lambda>x. if r_id x = r_id r then r\<lparr>r_updated_at := now\<rparr> else x) (runs k)"
  by (auto simp: save_run_def attempt_Inr update_where_Inr)

lemma complete_runE:
  assumes "complete_run c i h now k = Inr k'" "lock_run_for_update c (Some i) None k = Inr (Some r)"
    "r_status r \<notin> {RCompleted, RFailed, RAborted}"
  obtains r' where "runs k' = map (\<lambda>x. if r_id x = i then r' else x) (runs k)" "r_id r' = i"
    "r_organisation_id r' = c_organisation_id c" "r_public_id r' = r_public_id r" "r_status r' = RCompleted"
    "r_reconciliation_hash r' = given (h_reconciliation_hash h) (r_reconciliation_hash r)" "\<not> r_is_deleted r'"
proof -
  from assms have "\<exists>r'. save_run now r' k = Inr k' \<and> r_id r' = r_id r \<and> r_organisation_id r' = r_organisation_id r
      \<and> r_public_id r' = r_public_id r \<and> r_status r' = RCompleted \<and> r_is_deleted r' = r_is_deleted r
      \<and> r_reconciliation_hash r' = given (h_reconciliation_hash h) (r_reconciliation_hash r)"
    unfolding complete_run_def attempt_Inr
    by (elim exE conjE) (simp, intro exI conjI, assumption, simp_all)
  then obtain r' where r': "save_run now r' k = Inr k'" "r_id r' = r_id r" "r_organisation_id r' = r_organisation_id r"
      "r_public_id r' = r_public_id r" "r_status r' = RCompleted" "r_is_deleted r' = r_is_deleted r"
      "r_reconciliation_hash r' = given (h_reconciliation_hash h) (r_reconciliation_hash r)"
    by blast
  show thesis
    by (rule that [of "r'\<lparr>r_updated_at := now\<rparr>"]) (use save_run_runs [OF r'(1)] r' locked_runD [OF assms(2)] in simp_all)
qed

lemma fail_runE:
  assumes "fail_run c i err summ now k = Inr k'" "distinct (map r_id (runs k))"
  obtains f where "runs k' = map f (runs k)"
    "\<And>r. r \<in> set (runs k) \<Longrightarrow> f r = r \<or> r_id (f r) = r_id r \<and> r_organisation_id (f r) = r_organisation_id r
       \<and> r_status r \<noteq> RCompleted \<and> r_status (f r) \<noteq> RCompleted"
proof -
  from assms(1) obtain r where l: "lock_run_for_update c (Some i) None k = Inr (Some r)"
    and body: "(if r_status r = RCompleted then Inr k
          else save_run now (r\<lparr>r_status := RFailed, r_failed_at := Some now,
                 r_error_code := Some (take 64 err), r_error_summary := Some (take 255 summ)\<rparr>) k) = Inr k'"
    unfolding fail_run_def by (auto simp: attempt_Inr split: option.split_asm)
  have step: "r_status r = RCompleted \<and> k' = k \<or> r_status r \<noteq> RCompleted \<and> (\<exists>r'. save_run now r' k = Inr k' \<and>
       r_status r' = RFailed \<and> r_id r' = r_id r \<and> r_organisation_id r' = r_organisation_id r)"
    using body by (cases "r_status r = RCompleted") (simp_all, intro exI conjI, assumption, simp_all)
  note r = locked_runD [OF l]
  have uniq: "x = r" if "x \<in> set (runs k)" "r_id x = r_id r" for x
    using that r assms(2) by (auto simp: distinct_map inj_on_def)
  from step show thesis
  proof (elim disjE conjE exE)
    assume "k' = k"
    then show thesis using that [of id] by simp
  next
    fix r' assume s: "r_status r \<noteq> RCompleted" "save_run now r' k = Inr k'" "r_status r' = RFailed" "r_id r' = r_id r"
      "r_organisation_id r' = r_organisation_id r"
    show thesis
      by (rule that [OF save_run_runs [OF s(2)]]) (use s uniq in auto)
  qed
qed

lemma record_failure_ok:
  assumes "run_store_ok sha d"
  shows "run_store_ok sha (snd (record_failure gen c run err summ now d))"
proof (cases "fail_and_audit gen c run err summ now d")
  case (Inr u)
  obtain d' where u: "u = ((), d')" by (cases u) simp
  from Inr [unfolded u fail_and_audit_def] obtain d1 where f: "in_core (fail_run c (r_id run) err summ now) d = Inr d1"
    and rest: "(case get_run_by_id c (r_id run) (core d1) of
        None \<Rightarrow> Inl (Store_Error RecordNotFoundError)
      | Some r \<Rightarrow>
          if r_status r = RCompleted then Inr ((), d1)
          else attempt (in_core (append_audit_event gen c ''run.failed'' ''reconciliation_run'' (r_public_id run) NoMetadata None) d1)
            (\<lambda>d2. Inr ((), d2))) = Inr ((), d')"
    by (rule attemptE)
  have d': "runs (core d') = runs (core d1)" "same_rows d1 d'"
    using rest by (auto simp: attempt_Inr in_core_Inr same_rows_def dest: append_audit_event_runs
        split: option.split_asm if_split_asm)
  obtain k where k: "fail_run c (r_id run) err summ now (core d) = Inr k" "d1 = d\<lparr>core := k\<rparr>"
    using f by (auto simp: in_core_Inr)
  obtain f where "runs k = map f (runs (core d))"
    "\<And>r. r \<in> set (runs (core d)) \<Longrightarrow> f r = r \<or> r_id (f r) = r_id r \<and> r_organisation_id (f r) = r_organisation_id r
       \<and> r_status r \<noteq> RCompleted \<and> r_status (f r) \<noteq> RCompleted"
    using fail_runE [OF k(1)] assms unfolding run_store_ok_def by metis
  then have "run_store_ok sha d'"
    using d' k(2) by (intro run_store_ok_update [OF assms]) (auto simp: same_rows_def)
  then show ?thesis by (simp add: record_failure_def unit_of_work_def Inr u)
qed (simp add: record_failure_def unit_of_work_def assms)

text \<open>A completion that returned: either the run was complete before, or it is now, with its rows.\<close>

definition completed_as :: "tenant_context \<Rightarrow> run_row \<Rightarrow> string \<Rightarrow> run_row \<Rightarrow> bool" where
  "completed_as c run sha r \<longleftrightarrow> r_id r = r_id run \<and> r_organisation_id r = c_organisation_id c \<and> r_status r = RCompleted
     \<and> r_reconciliation_hash r = Some sha"

lemma complete_phaseE:
  assumes "complete_phase env ids c run inp out now d = Inr (resp, d')"
  obtains (again) r where "lock_run_for_update c (Some (r_id run)) None (core d) = Inr (Some r)" "d' = d"
      "completed_as c run (report_digest env (ro_report out)) r"
      "authoritative_completed_result env c run (ro_report out) d = Inr resp"
  | (first) r where "lock_run_for_update c (Some (r_id run)) None (core d) = Inr (Some r)"
      "r_status r \<notin> {RCompleted, RFailed, RAborted}" "persist_completion env ids c run inp out now d = Inr d'"
      "resp = \<lparr>rr_run_public_id = r_public_id run, rr_report = ro_report out, rr_certificate = ro_certificate out,
         rr_presentation = ro_presentation out, rr_report_sha256 = report_digest env (ro_report out)\<rparr>"
proof -
  from assms obtain r where l: "lock_run_for_update c (Some (r_id run)) None (core d) = Inr (Some r)"
    and rest: "(if r_status r = RCompleted then
            (if r_reconciliation_hash r \<noteq> Some (report_digest env (ro_report out)) then Inl (Store_Error InvalidRunStateError)
             else attempt (authoritative_completed_result env c run (ro_report out) d) (\<lambda>resp. Inr (resp, d)))
          else if r_status r \<in> {RFailed, RAborted} then Inl (Store_Error InvalidRunStateError)
          else attempt (persist_completion env ids c run inp out now d) (\<lambda>d.
            Inr (\<lparr>rr_run_public_id = r_public_id run, rr_report = ro_report out, rr_certificate = ro_certificate out,
                  rr_presentation = ro_presentation out, rr_report_sha256 = report_digest env (ro_report out)\<rparr>, d)))
        = Inr (resp, d')"
    unfolding complete_phase_def by (auto simp: attempt_Inr stored_Inr split: option.split_asm)
  show thesis
  proof (cases "r_status r = RCompleted")
    case True
    then show thesis
      using rest locked_runD [OF l] again [OF l]
      by (auto simp: attempt_Inr completed_as_def split: if_split_asm)
  next
    case False
    then show thesis using rest first [OF l] by (auto simp: attempt_Inr split: if_split_asm)
  qed
qed

lemma completion_rows:
  assumes "nothing_stored d r" "r_id r' = r_id r" "r_organisation_id r' = r_organisation_id r"
    "results d' = results d @ [rt]" "certificates d' = certificates d @ [ct]"
    "rt_organisation_id rt = r_organisation_id r" "rt_run_id rt = r_id r"
    "ct_organisation_id ct = r_organisation_id r" "ct_run_id ct = r_id r"
  shows "result_rows d' r' = [rt]" "certificate_rows d' r' = [ct]"
  using assms by (simp_all add: nothing_stored_def run_rows_defs)

lemma other_run_rows:
  assumes "r_id x \<noteq> i" "results d' = results d @ [rt]" "certificates d' = certificates d @ [ct]"
    "investigation_rows d' = investigation_rows d @ vs" "artifacts d' = artifacts d @ as"
    "rt_run_id rt = i" "ct_run_id ct = i" "\<forall>v \<in> set vs. nv_run_id v = i" "\<forall>a \<in> set as. af_run_id a = i"
  shows "run_rows_ok sha d' x = run_rows_ok sha d x"
proof -
  have "filter (\<lambda>v. nv_organisation_id v = r_organisation_id x \<and> nv_run_id v = r_id x) vs = []"
    "filter (\<lambda>a. af_organisation_id a = r_organisation_id x \<and> af_run_id a = r_id x) as = []"
    using assms(1,8,9) by (auto simp: filter_empty_conv)
  then show ?thesis
    using assms(1-7) by (simp add: run_rows_ok_def completion_stored_def nothing_stored_def run_rows_defs)
qed

lemma persist_completion_ok:
  assumes p: "persist_completion env ids c run inp out now d = Inr d'" and ok: "run_store_ok (sv_sha env) d"
    and l: "lock_run_for_update c (Some (r_id run)) None (core d) = Inr (Some r)"
    and open_run: "r_status r \<notin> {RCompleted, RFailed, RAborted}"
  shows "run_store_ok (sv_sha env) d' \<and> (\<exists>r' \<in> set (runs (core d')). completed_as c run (report_digest env (ro_report out)) r'
    \<and> r_public_id r' = r_public_id r \<and> \<not> r_is_deleted r')"
proof -
  let ?sha = "report_digest env (ro_report out)"
  from p obtain rt vs ct ax ay h k k' where e:
    "d' = d\<lparr>core := k', results := results d @ [rt], investigation_rows := investigation_rows d @ vs,
       certificates := certificates d @ [ct], artifacts := artifacts d @ [ax, ay]\<rparr>"
    "rt_organisation_id rt = c_organisation_id c" "rt_run_id rt = r_id run"
    "rt_report_sha256 rt = ?sha" "sv_sha env (rt_canonical_report_text rt) = ?sha" "rows_of_run c (r_id run) (core d) vs"
    "ct_organisation_id ct = c_organisation_id c" "ct_run_id ct = r_id run" "ct_report_sha256 ct = ?sha"
    "\<forall>a \<in> {ax, ay}. af_organisation_id a = c_organisation_id c \<and> af_run_id a = r_id run"
    "runs k = runs (core d)" "h_reconciliation_hash h = Some ?sha" "complete_run c (r_id run) h now k = Inr k'"
    by (rule persist_completionE)
  note r = locked_runD [OF l]
  have l': "lock_run_for_update c (Some (r_id run)) None k = Inr (Some r)"
    using l e(11) by (simp add: lock_run_for_update_def scoped_runs_def)
  obtain r' where r': "runs k' = map (\<lambda>x. if r_id x = r_id run then r' else x) (runs (core d))" "r_id r' = r_id run"
    "r_organisation_id r' = c_organisation_id c" "r_public_id r' = r_public_id r" "r_status r' = RCompleted"
    "r_reconciliation_hash r' = Some ?sha" "\<not> r_is_deleted r'"
    using complete_runE [OF e(13) l' open_run] e(11,12) by (auto simp: given_def)
  have uniq: "x = r" if "x \<in> set (runs (core d))" "r_id x = r_id run" for x
    using that r ok by (auto simp: run_store_ok_def distinct_map inj_on_def)
  have same: "r_id (if r_id x = r_id run then r' else x) = r_id x
      \<and> r_organisation_id (if r_id x = r_id run then r' else x) = r_organisation_id x" if "x \<in> set (runs (core d))" for x
    using uniq [OF that] r r' by auto
  have ids: "map r_id (runs (core d')) = map r_id (runs (core d))"
    using r'(1,2) by (simp add: e(1))
  have ex: "run_exists (core d') og i = run_exists (core d) og i" for og i
    by (rule run_exists_map [OF same]) (use r'(1) in \<open>simp_all add: e(1)\<close>)
  have here: "run_exists (core d) (c_organisation_id c) (r_id run)"
    using r by (auto simp: run_exists_def list_ex_iff)
  have rows: "rows_have_runs d'"
    using ok e(2,3,6,7,8,10) here unfolding run_store_ok_def rows_have_runs_def ex
    by (simp add: e(1) rows_of_run_def ball_Un)
  have "nothing_stored d r" using ok r open_run by (auto simp: run_store_ok_def run_rows_ok_def)
  then have "completion_stored (sv_sha env) d' r'"
    using completion_rows [of d r r' d' rt ct] r r' e by (simp add: completion_stored_def)
  then have done_run: "run_rows_ok (sv_sha env) d' r'" using r'(5) by (simp add: run_rows_ok_def)
  have "run_rows_ok (sv_sha env) d' x" if "x \<in> set (runs (core d))" "r_id x \<noteq> r_id run" for x
    using that ok other_run_rows [of x "r_id run" d' d rt ct vs "[ax, ay]"] e
    by (simp add: run_store_ok_def rows_of_run_def)
  then have "run_rows_ok (sv_sha env) d' x" if "x \<in> set (runs (core d'))" for x
    using that r'(1) done_run by (auto simp: e(1))
  moreover have "r' \<in> set (runs (core d'))"
    using r r'(1) by (force simp: e(1))
  ultimately show ?thesis
    using ok ids rows r' by (auto simp: run_store_ok_def completed_as_def)
qed

lemma complete_phase_ok:
  assumes "complete_phase env ids c run inp out now d = Inr (resp, d')" "run_store_ok (sv_sha env) d"
  shows "run_store_ok (sv_sha env) d' \<and> rr_run_public_id resp = r_public_id run \<and> rr_report resp = ro_report out
    \<and> rr_report_sha256 resp = report_digest env (ro_report out)
    \<and> (\<exists>r \<in> set (runs (core d')). completed_as c run (rr_report_sha256 resp) r
         \<and> (\<exists>r0 \<in> set (runs (core d)). r_id r0 = r_id run \<and> r_public_id r0 = r_public_id r))"
  using assms(1)
proof (cases rule: complete_phaseE)
  case (again r)
  then show ?thesis
    using assms(2) locked_runD [OF again(1)]
    by (auto simp: authoritative_completed_result_def attempt_Inr split: option.split_asm)
next
  case (first r)
  note q = persist_completion_ok [OF first(3) assms(2) first(1,2)] and r = locked_runD [OF first(1)]
  obtain r' where "r' \<in> set (runs (core d'))" "completed_as c run (report_digest env (ro_report out)) r'"
    "r_public_id r' = r_public_id r"
    using q by blast
  then show ?thesis using q r first(4) by (simp, intro bexI [of _ r'] conjI bexI [of _ r]) simp_all
qed

subsection \<open>Executions\<close>

text \<open>What other transactions may do: anything that keeps the invariant and the identity of runs.\<close>

definition fair :: "(string \<Rightarrow> string) \<Rightarrow> (tenant_db \<Rightarrow> tenant_db) \<Rightarrow> bool" where
  "fair sha mid \<longleftrightarrow> (\<forall>d. run_store_ok sha d \<longrightarrow> run_store_ok sha (mid d))
     \<and> (\<forall>d. \<forall>r \<in> set (runs (core d)). \<exists>r' \<in> set (runs (core (mid d))). r_id r' = r_id r \<and> r_public_id r' = r_public_id r)"

text \<open>
  C32. Executing a reconciliation keeps the store consistent, whatever the engine returns and whichever step
  fails: every completed run has exactly one result and one certificate with the digest it was completed
  with, and every other run has left no result, certificate, investigation or artifact. An execution that
  returns has completed its run with the digest of the report it returns.
\<close>

theorem runs_complete_atomically:
  assumes "run_store_ok (sv_sha env) d" "fair (sv_sha env) (mid 0)" "fair (sv_sha env) (mid 1)"
    "execute_reconciliation env ids clock mid c inp d = (res, d')"
  shows "run_store_ok (sv_sha env) d' \<and> (case res of Inl _ \<Rightarrow> True | Inr resp \<Rightarrow>
    rr_report_sha256 resp = canonical_hash (sv_sha env) (JObj (rr_report resp))
    \<and> (\<exists>r \<in> set (runs (core d')). r_public_id r = rr_run_public_id resp \<and> r_organisation_id r = c_organisation_id c
         \<and> r_status r = RCompleted \<and> completion_stored (sv_sha env) d' r
         \<and> r_reconciliation_hash r = Some (rr_report_sha256 resp)))"
proof (cases "initiate_run env ids c inp (clock 0) d")
  case (Inl e)
  then show ?thesis using assms(1,4) by (auto simp: execute_reconciliation_def unit_of_work_def)
next
  case (Inr u)
  obtain run d1 where u: "u = (run, d1)" by (cases u)
  obtain k where k: "create_run (ids 0) c ''{}'' (clock 0) (core d) = Inr (run, k)" "runs (core d1) = runs k" "same_rows d d1"
    using initiate_runE [OF Inr [unfolded u]] .
  have d1: "run_store_ok (sv_sha env) d1" "run \<in> set (runs (core d1))"
    using initiate_run_ok [OF Inr [unfolded u] assms(1)] create_run_InrD [OF k(1)] k(2) by simp_all
  have m: "run_store_ok (sv_sha env) (mid 0 d1)" using assms(2) d1 by (simp add: fair_def)
  show ?thesis
  proof (cases "run_engine env inp")
    case (Inl e)
    then show ?thesis
      using assms(4) Inr record_failure_ok [OF m] by (auto simp: execute_reconciliation_def unit_of_work_def u)
  next
    case out: (Inr out)
    show ?thesis
    proof (cases "complete_phase env ids c run inp out (clock 1) (mid 0 d1)")
      case (Inl e)
      have "run_store_ok (sv_sha env) (mid 1 (mid 0 d1))" using assms(3) m by (simp add: fair_def)
      then show ?thesis
        using assms(4) Inr out Inl m record_failure_ok
        by (auto simp: execute_reconciliation_def unit_of_work_def u split: if_split_asm)
    next
      case fin: (Inr v)
      obtain resp d2 where v: "v = (resp, d2)" by (cases v)
      have res: "res = Inr resp" "d' = d2"
        using assms(4) Inr out fin by (auto simp: execute_reconciliation_def unit_of_work_def u v)
      note ok = complete_phase_ok [OF fin [unfolded v] m]
      then obtain r r0 where r: "r \<in> set (runs (core d2))" "completed_as c run (rr_report_sha256 resp) r"
        "r0 \<in> set (runs (core (mid 0 d1)))" "r_id r0 = r_id run" "r_public_id r0 = r_public_id r" by blast
      obtain r1 where r1: "r1 \<in> set (runs (core (mid 0 d1)))" "r_id r1 = r_id run" "r_public_id r1 = r_public_id run"
        using assms(2) d1(2) unfolding fair_def by blast
      have "r1 = r0" using r r1 m by (auto simp: run_store_ok_def distinct_map inj_on_def)
      moreover have "run_rows_ok (sv_sha env) d2 r" using ok r(1) by (simp add: run_store_ok_def)
      ultimately show ?thesis
        using ok r r1(3) res by (auto simp: completed_as_def run_rows_ok_def report_digest_def)
    qed
  qed
qed

subsection \<open>Retries\<close>

lemma issued_envelope_stored:
  assumes "issue_certificate sha cr rep = Inr (ro_certificate out)" "save_certificate_of env gen c run out d = Inr d'"
  shows "\<exists>ct. certificates d' = certificates d @ [ct] \<and> stored_envelope ct = ro_certificate out
    \<and> ct_organisation_id ct = c_organisation_id c \<and> ct_run_id ct = run"
proof -
  obtain cert key where k: "signing_key cr = Inr key" "ro_certificate out = (case key of
        None \<Rightarrow> [(''certificate'', cert), (''content_sha256'', JStr (sha (json_dumps cert))), (''signed'', JBool False),
                 (''note'', JStr (certificate_note False))]
      | Some k \<Rightarrow> [(''certificate'', cert), (''content_sha256'', JStr (sha (json_dumps cert))), (''signed'', JBool True),
                 (''note'', JStr (certificate_note True)),
                 (''signature'', JStr (cr_b64encode cr (cr_sign cr k (json_dumps cert)))),
                 (''public_key_pem'', JStr (cr_public_pem cr k))])"
    using assms(1) unfolding issue_certificate_def Let_def load_iff by (elim exE conjE) (rule that, assumption, simp add: eq_commute)
  then show ?thesis
    using assms(2)
    by (cases key) (auto simp: save_certificate_of_def attempt_Inr text_of_def opt_text_of_def jget_def json_truthy_def
        stored_envelope_def optional_text_def dest!: save_certificate_InrD)
qed

lemma persisted_certificate:
  assumes "persist_completion env ids c run inp out now d = Inr d'" "issue_certificate sha cr rep = Inr (ro_certificate out)"
  shows "\<exists>ct \<in> set (certificates d'). stored_envelope ct = ro_certificate out
    \<and> ct_organisation_id ct = c_organisation_id c \<and> ct_run_id ct = r_id run"
  using assms(1)
proof (rule persist_completionE)
  fix rt vs ct ax ay h k k'
  assume d': "d' = d\<lparr>core := k', results := results d @ [rt], investigation_rows := investigation_rows d @ vs,
       certificates := certificates d @ [ct], artifacts := artifacts d @ [ax, ay]\<rparr>"
    and s: "save_certificate_of env (ids 6) c (r_id run) out (d\<lparr>results := results d @ [rt], investigation_rows := investigation_rows d @ vs\<rparr>)
       = Inr (d\<lparr>results := results d @ [rt], investigation_rows := investigation_rows d @ vs, certificates := certificates d @ [ct]\<rparr>)"
  show ?thesis using issued_envelope_stored [OF assms(2) s] by (auto simp: d')
qed

lemma find_filter_single: "filter P xs = [x] \<Longrightarrow> find P xs = Some x"
  by (induction xs) (auto split: if_split_asm)

lemma stored_certificate_found:
  assumes "run_store_ok sha d" "r \<in> set (runs (core d))" "r_status r = RCompleted" "r_id r = i"
    "r_organisation_id r = c_organisation_id c" "ct \<in> set (certificates d)" "ct_organisation_id ct = c_organisation_id c" "ct_run_id ct = i"
  shows "get_certificate_by_run_id c i d = Some ct"
proof -
  have "completion_stored sha d r" using assms(1-3) by (metis run_store_ok_def run_rows_ok_def)
  then obtain ct' where "certificate_rows d r = [ct']" by (auto simp: completion_stored_def)
  then have f: "filter (\<lambda>t. ct_organisation_id t = c_organisation_id c \<and> ct_run_id t = i) (certificates d) = [ct']"
    using assms(4,5) by (simp add: certificate_rows_def)
  moreover have "ct \<in> set (filter (\<lambda>t. ct_organisation_id t = c_organisation_id c \<and> ct_run_id t = i) (certificates d))"
    using assms(6-8) by simp
  ultimately have "ct' = ct" by simp
  then show ?thesis using f by (simp add: get_certificate_by_run_id_def find_filter_single)
qed

lemma relock:
  assumes "run_store_ok sha d" "r \<in> set (runs (core d))" "completed_as c run h r" "\<not> r_is_deleted r"
  shows "lock_run_for_update c (Some (r_id run)) None (core d) = Inr (Some r)"
proof -
  have "distinct (map r_id (scoped_runs c (core d)))" "r \<in> set (scoped_runs c (core d))"
    using assms by (simp_all add: run_store_ok_def scoped_runs_def completed_as_def distinct_map_filter)
  then show ?thesis
    using find_unique [of r_id "scoped_runs c (core d)" r] assms(3) by (simp add: lock_run_for_update_def completed_as_def)
qed

text \<open>
  C33. Once a completion has returned, completing the same run again with the same report (as a caller does
  that is unsure of the first commit) changes nothing and returns the certificate of the first completion,
  whatever certificate the retry itself has issued.
\<close>

theorem retry_returns_first_certificate:
  assumes "run_store_ok (sv_sha env) d" "complete_phase env ids c run inp out now d = Inr (resp, d1)"
    "issue_certificate (sv_sha env) (sv_crypto env) (JObj (ro_report out)) = Inr (ro_certificate out)"
    "ro_report out' = ro_report out" "sv_presentation env (JObj (ro_report out)) (rr_certificate resp) = Some pres"
  shows "complete_phase env ids' c run inp' out' now' d1 = Inr (resp\<lparr>rr_presentation := pres\<rparr>, d1)"
  using assms(2)
proof (cases rule: complete_phaseE)
  case (again r)
  then have "rr_presentation resp = pres"
    using assms(5) by (auto simp: authoritative_completed_result_def attempt_Inr from_option_def split: option.split_asm)
  then show ?thesis
    using again assms(4) by (simp add: complete_phase_def stored_def completed_as_def)
next
  case (first r)
  note q = persist_completion_ok [OF first(3) assms(1) first(1,2)]
  then obtain r' where r': "r' \<in> set (runs (core d1))" "completed_as c run (report_digest env (ro_report out)) r'" "\<not> r_is_deleted r'"
    by blast
  obtain ct where ct: "ct \<in> set (certificates d1)" "stored_envelope ct = ro_certificate out"
    "ct_organisation_id ct = c_organisation_id c" "ct_run_id ct = r_id run"
    using persisted_certificate [OF first(3) assms(3)] by blast
  have "get_certificate_by_run_id c (r_id run) d1 = Some ct"
    using q r' ct by (intro stored_certificate_found [of "sv_sha env" d1 r']) (auto simp: completed_as_def)
  moreover have "lock_run_for_update c (Some (r_id run)) None (core d1) = Inr (Some r')"
    using relock [OF q [THEN conjunct1] r'] .
  ultimately show ?thesis
    using assms(4,5) first(4) r' ct(2)
    by (simp add: complete_phase_def stored_def completed_as_def authoritative_completed_result_def from_option_def)
qed

subsection \<open>The properties on a concrete execution\<close>

definition served_env :: "unit service_env" where
  "served_env = \<lparr>sv_printable = (\<lambda>_. True), sv_sha = (\<lambda>_. demo_hash), sv_crypto = sample_crypto (Some ''key''),
     sv_reconcile = (\<lambda>_ _ _. Some [(''audit_root'', JStr demo_hash),
       (''investigations'', JList [JObj [(''line_key'', JStr ''L1''), (''root_cause'', JStr ''unexplained''), (''variance_paise'', JInt 5)]])]),
     sv_presentation = (\<lambda>_ _. Some (JObj [])), sv_tally = (\<lambda>_. Some ''<xml/>'')\<rparr>"

definition served_ids :: "nat \<Rightarrow> nat \<Rightarrow> string" where
  "served_ids i n = replicate (Suc i) CHR ''x'' @ replicate n CHR ''y''"

definition served_file :: run_input where
  "served_file = \<lparr>ri_bytes = ''data'', ri_filename = ''f.csv''\<rparr>"

definition served_input :: service_input where
  "served_input = \<lparr>si_bank = served_file, si_recon = served_file, si_ledger = served_file\<rparr>"

definition served_db :: tenant_db where
  "served_db = \<lparr>core = demo_empty, uploaded_files = [], results = [], investigation_rows = [], certificates = [], artifacts = []\<rparr>"

lemma served_executes:
  "\<not> isl (fst (execute_reconciliation served_env served_ids int (\<lambda>_ d. d) demo_ctx served_input served_db))"
  by code_simp

lemma served_db_ok: "run_store_ok sha served_db"
  by (simp add: run_store_ok_def rows_have_runs_def served_db_def demo_empty_def)

theorem runs_complete_atomically_witness:
  "case execute_reconciliation served_env served_ids int (\<lambda>_ d. d) demo_ctx served_input served_db of
     (res, d') \<Rightarrow> \<not> isl res \<and> (\<exists>r \<in> set (runs (core d')). r_status r = RCompleted \<and> completion_stored (sv_sha served_env) d' r)"
proof -
  obtain res d' where e: "execute_reconciliation served_env served_ids int (\<lambda>_ d. d) demo_ctx served_input served_db = (res, d')"
    by (cases "execute_reconciliation served_env served_ids int (\<lambda>_ d. d) demo_ctx served_input served_db")
  have f: "fair sha (\<lambda>d. d)" for sha by (auto simp: fair_def)
  show ?thesis
    using runs_complete_atomically [OF served_db_ok f f e] served_executes by (cases res) (auto simp: e)
qed

lemma served_completes:
  "case initiate_run served_env served_ids demo_ctx served_input 0 served_db of
     Inl e \<Rightarrow> False | Inr (run, d) \<Rightarrow> (case run_engine served_env served_input of Inl e \<Rightarrow> False
   | Inr out \<Rightarrow> \<not> isl (complete_phase served_env served_ids demo_ctx run served_input out 1 d))"
  by code_simp

theorem retry_returns_first_certificate_witness:
  "\<exists>run d out resp d1. complete_phase served_env served_ids demo_ctx run served_input out 1 d = Inr (resp, d1) \<and>
     complete_phase served_env served_ids demo_ctx run served_input (out\<lparr>ro_certificate := []\<rparr>) 9 d1
       = Inr (resp\<lparr>rr_presentation := JObj []\<rparr>, d1)"
proof -
  obtain run d where i: "initiate_run served_env served_ids demo_ctx served_input 0 served_db = Inr (run, d)"
    using served_completes by (auto split: sum.split_asm)
  obtain out where out: "run_engine served_env served_input = Inr out"
    using served_completes by (auto simp: i split: sum.split_asm)
  obtain resp d1 where c: "complete_phase served_env served_ids demo_ctx run served_input out 1 d = Inr (resp, d1)"
    using served_completes
    by (cases "complete_phase served_env served_ids demo_ctx run served_input out 1 d") (auto simp: i out)
  have issued: "issue_certificate (sv_sha served_env) (sv_crypto served_env) (JObj (ro_report out)) = Inr (ro_certificate out)"
    using out by (auto simp: run_engine_def attempt_Inr map_sum_Inr_iff)
  have "sv_presentation served_env (JObj (ro_report out)) (rr_certificate resp) = Some (JObj [])"
    by (simp add: served_env_def)
  from retry_returns_first_certificate [OF initiate_run_ok [OF i served_db_ok] c issued _ this, of "out\<lparr>ro_certificate := []\<rparr>"] c
  show ?thesis by (intro exI conjI) auto
qed

end
