(* ===== verification/RunSubmission.thy ===== *)
theory RunSubmission
  imports RunSafety StorageSafety
begin

section \<open>Submission of jobs\<close>

text \<open>
  \<open>submit_reconciliation_job\<close> of \<open>persistence/service.py\<close>: the idempotency check, the staging of the inputs,
  and one transaction for the run, its files, its job and the idempotency record, with the staged objects
  discarded when it does not commit. The object store is given by \<open>store\<close> and \<open>remove\<close>; \<open>digest\<close> is SHA-256
  as bytes, \<open>stamp\<close> the text of a timestamp, \<open>tok\<close> the random upload token. Columns of the run that no modelled
  operation reads (versions of the engine, the schema, the rule pack and the adapter) are left out.
\<close>

record submission =
  sb_input :: service_input
  sb_key :: "string option"
  sb_period_start :: "date option"
  sb_period_end :: "date option"
  sb_rule_pack_id :: "string option"
  sb_bank_adapter_id :: "string option"

definition opt_json :: "string option \<Rightarrow> json" where
  "opt_json v = (case v of None \<Rightarrow> JNull | Some s \<Rightarrow> JStr s)"

definition extra_params :: "submission \<Rightarrow> string" where
  "extra_params sb = json_dumps (JObj
    [(''period_start'', opt_json (map_option date_isoformat (sb_period_start sb))),
     (''period_end'', opt_json (map_option date_isoformat (sb_period_end sb))),
     (''rule_pack_id'', opt_json (sb_rule_pack_id sb)), (''bank_adapter_id'', opt_json (sb_bank_adapter_id sb))])"

definition request_hash :: "'k service_env \<Rightarrow> (string \<Rightarrow> string) \<Rightarrow> submission \<Rightarrow> string" where
  "request_hash env digest sb = compute_request_hash digest (sv_sha env) (ri_bytes (si_bank (sb_input sb)))
     (ri_bytes (si_recon (sb_input sb))) (ri_bytes (si_ledger (sb_input sb))) (Some (extra_params sb))"

text \<open>The idempotency key, when there is one and it is not empty.\<close>

definition given_key :: "submission \<Rightarrow> string option" where
  "given_key sb = (if truthy (sb_key sb) then sb_key sb else None)"

definition period_reversed :: "submission \<Rightarrow> bool" where
  "period_reversed sb \<longleftrightarrow> (case (sb_period_start sb, sb_period_end sb) of (Some a, Some b) \<Rightarrow> b < a | _ \<Rightarrow> False)"

definition find_replay ::
  "tenant_context \<Rightarrow> string option \<Rightarrow> string \<Rightarrow> int \<Rightarrow> tenant_db \<Rightarrow> service_error + (string \<times> int) option" where
  "find_replay c key hash now d = (case key of
     None \<Rightarrow> Inr None
   | Some k \<Rightarrow> attempt (stored (get_idempotency_record c k now (core d))) (\<lambda>found. case found of
       None \<Rightarrow> Inr None
     | Some r \<Rightarrow> if i_request_hash r \<noteq> hash then Inl (Store_Error IdempotencyCollisionError)
         else Inr (Some (i_response_json r, i_response_status_code r))))"

subsection \<open>Staging\<close>

definition upload_key :: "'k service_env \<Rightarrow> tenant_context \<Rightarrow> string \<Rightarrow> string \<Rightarrow> run_input \<Rightarrow> string" where
  "upload_key env c tok role f = generate_input_object_key (''org_'' @ str_int (c_organisation_id c)) tok role
     (sv_sha env (ri_bytes f)) (ri_filename f)"

definition staged_inputs :: "'k service_env \<Rightarrow> tenant_context \<Rightarrow> string \<Rightarrow> service_input \<Rightarrow> (string \<times> string \<times> string) list" where
  "staged_inputs env c tok inp =
    [(upload_key env c tok ''bank_statement'' (si_bank inp), ri_bytes (si_bank inp), ''text/csv''),
     (upload_key env c tok ''recon_report'' (si_recon inp), ri_bytes (si_recon inp), ''application/json''),
     (upload_key env c tok ''order_ledger'' (si_ledger inp), ri_bytes (si_ledger inp), ''text/csv'')]"

subsection \<open>The transaction\<close>

definition save_staged ::
  "'k service_env \<Rightarrow> (nat \<Rightarrow> string) \<Rightarrow> tenant_context \<Rightarrow> int \<Rightarrow> string \<Rightarrow> string \<Rightarrow> run_input \<Rightarrow> stored_object \<Rightarrow> tenant_db \<Rightarrow>
   service_error + tenant_db" where
  "save_staged env gen c run role ctype f m d =
    save_uploaded_file_metadata (sv_printable env) gen c run role (ri_filename f) ctype (int (length (ri_bytes f)))
      (sv_sha env (ri_bytes f)) (so_backend m) (so_key m) (so_etag m) (so_version_id m) d"

definition submitted_run :: "'k service_env \<Rightarrow> submission \<Rightarrow> run_row \<Rightarrow> run_row" where
  "submitted_run env sb run = run\<lparr>r_reporting_period_start := sb_period_start sb, r_reporting_period_end := sb_period_end sb,
     r_bank_statement_hash := Some (sv_sha env (ri_bytes (si_bank (sb_input sb)))),
     r_recon_report_hash := Some (sv_sha env (ri_bytes (si_recon (sb_input sb)))),
     r_order_ledger_hash := Some (sv_sha env (ri_bytes (si_ledger (sb_input sb))))\<rparr>"

definition job_response :: "(int \<Rightarrow> string) \<Rightarrow> run_row \<Rightarrow> job_row \<Rightarrow> string" where
  "job_response stamp run job = json_dumps (JObj
    [(''job_id'', JStr (j_public_id job)), (''run_id'', JStr (r_public_id run)), (''status'', JStr ''queued''), (''stage'', JStr ''queued''),
     (''created_at'', JStr (stamp (j_created_at job))),
     (''links'', JObj [(''status'', JStr (''/api/tenant/jobs/'' @ j_public_id job)),
        (''cancel'', JStr (''/api/tenant/jobs/'' @ j_public_id job @ ''/cancel'')),
        (''run'', JStr (''/api/tenant/runs/'' @ r_public_id run))])])"

definition remember_response ::
  "tenant_context \<Rightarrow> string option \<Rightarrow> string \<Rightarrow> run_row \<Rightarrow> job_row \<Rightarrow> string \<Rightarrow> int \<Rightarrow> db \<Rightarrow> service_error + db" where
  "remember_response c key hash run job resp now k = (case key of
     None \<Rightarrow> Inr k
   | Some key \<Rightarrow> attempt (stored (save_idempotency_record c key hash (j_id job) (r_id run) 202 resp 24 now k)) (\<lambda>(rec, k').
       if i_job_id rec \<noteq> j_id job then Inl (Idempotency_Replay (i_response_json rec) (i_response_status_code rec))
       else Inr k'))"

definition submit_transaction ::
  "'k service_env \<Rightarrow> (nat \<Rightarrow> nat \<Rightarrow> string) \<Rightarrow> (int \<Rightarrow> string) \<Rightarrow> tenant_context \<Rightarrow> submission \<Rightarrow> string \<Rightarrow>
   stored_object \<times> stored_object \<times> stored_object \<Rightarrow> int \<Rightarrow> tenant_db \<Rightarrow> service_error + (string \<times> tenant_db)" where
  "submit_transaction env ids stamp c sb hash metas now d =
    (case metas of (m_bank, m_recon, m_ledger) \<Rightarrow>
     attempt (stored (create_run (ids 0) c ''{}'' now (core d))) (\<lambda>(run, k).
     attempt (stored (save_run now (submitted_run env sb run) k)) (\<lambda>k.
     attempt (save_staged env (ids 1) c (r_id run) ''bank_statement'' ''text/csv'' (si_bank (sb_input sb)) m_bank (d\<lparr>core := k\<rparr>)) (\<lambda>d.
     attempt (save_staged env (ids 2) c (r_id run) ''recon_report'' ''application/json'' (si_recon (sb_input sb)) m_recon d) (\<lambda>d.
     attempt (save_staged env (ids 3) c (r_id run) ''order_ledger'' ''text/csv'' (si_ledger (sb_input sb)) m_ledger d) (\<lambda>d.
     attempt (in_core (append_audit_event (ids 4) c ''run.initiated'' ''reconciliation_run'' (r_public_id run) NoMetadata None) d) (\<lambda>d.
     attempt (stored (create_reconciliation_job (ids 5) c (r_id run) 3 now (core d))) (\<lambda>(job, k).
     attempt (remember_response c (given_key sb) hash run job (job_response stamp run job) now k) (\<lambda>k.
       Inr (job_response stamp run job, d\<lparr>core := k\<rparr>))))))))))"

text \<open>
  The result is the response with its status code and whether it is a replay. \<open>Idempotency_Replay\<close> is the
  internal exception of a transaction that lost the race for its key: it rolls back and answers as the winner.
\<close>

definition submit_reconciliation_job ::
  "(string \<Rightarrow> string \<times> string \<Rightarrow> 's \<Rightarrow> ('e + stored_object) \<times> 's) \<Rightarrow> (string \<Rightarrow> 's \<Rightarrow> ('e + bool) \<times> 's) \<Rightarrow>
   'k service_env \<Rightarrow> (string \<Rightarrow> string) \<Rightarrow> (nat \<Rightarrow> nat \<Rightarrow> string) \<Rightarrow> (int \<Rightarrow> string) \<Rightarrow> string \<Rightarrow> (nat \<Rightarrow> int) \<Rightarrow>
   (nat \<Rightarrow> tenant_db \<Rightarrow> tenant_db) \<Rightarrow> tenant_context \<Rightarrow> submission \<Rightarrow> tenant_db \<times> 's \<Rightarrow>
   (service_error + string \<times> int \<times> bool) \<times> tenant_db \<times> 's" where
  "submit_reconciliation_job store remove env digest ids stamp tok clock mid c sb = (\<lambda>(d, st).
    if period_reversed sb then (Inl Value_Error, d, st) else
    let hash = request_hash env digest sb; key = given_key sb; staged = staged_inputs env c tok (sb_input sb);
        keys = map fst staged in
    (case find_replay c key hash (clock 0) d of
       Inl e \<Rightarrow> (Inl e, d, st)
     | Inr (Some (resp, status)) \<Rightarrow> (Inr (resp, status, True), d, st)
     | Inr None \<Rightarrow> (case stage_inputs store remove staged st of
         (Inr [m_bank, m_recon, m_ledger], st1) \<Rightarrow>
           (case find_replay c key hash (clock 1) (mid 0 d) of
              Inl e \<Rightarrow> (Inl e, mid 0 d, discard remove keys st1)
            | Inr (Some (resp, status)) \<Rightarrow> (Inr (resp, status, True), mid 0 d, discard remove keys st1)
            | Inr None \<Rightarrow>
                (case unit_of_work (submit_transaction env ids stamp c sb hash (m_bank, m_recon, m_ledger) (clock 2)) (mid 1 (mid 0 d)) of
                   (Inr resp, d2) \<Rightarrow> (Inr (resp, 202, False), d2, st1)
                 | (Inl (Idempotency_Replay resp status), d2) \<Rightarrow>
                     (Inr (resp, status, True), d2, discard remove keys (discard remove keys st1))
                 | (Inl e, d2) \<Rightarrow> (Inl e, d2, discard remove keys st1)))
       | (_, st1) \<Rightarrow> (Inl Storage_Failure, mid 0 d, st1))))"

subsection \<open>Staged objects\<close>

lemma staged_keys_distinct: "distinct (map fst (staged_inputs env c tok inp))"
  by (simp add: staged_inputs_def upload_key_def generate_input_object_key_def)

lemma discard_append: "discard remove ks (discard remove ks' s) = discard remove (ks' @ ks) s"
  by (induction ks' arbitrary: s) simp_all

context object_storage
begin

text \<open>Fresh objects that are staged and then discarded leave every good key as it was.\<close>

lemma staged_then_discarded:
  assumes "\<forall>k \<in> fst ` set kvs. good k" "distinct (map fst kvs)" "\<forall>k \<in> fst ` set kvs. fetch k s = None"
    "stage_inputs store remove kvs s = (r, s')" "good k" "set ks = set (map fst kvs)"
  shows "fetch k (discard remove ks s') = fetch k s"
proof -
  have "fetch k s' = fetch k s" if "k \<notin> fst ` set kvs"
    using stage_inputs_atomic [OF assms(1-5)] that by (cases "map_of kvs k") (auto dest: map_of_SomeD simp: rev_image_eqI)
  moreover have "\<forall>k \<in> set ks. good k" using assms(1,6) by simp
  ultimately show ?thesis using discard_fetch [of ks k s'] assms(3,5,6) by auto
qed

end

lemma store_bytes_key: "store_bytes sha base k v ct fs = (Inr m, fs') \<Longrightarrow> so_key m = k"
  by (auto simp: store_bytes_def store_stream_def local_metadata_def Let_def split: sum.split_asm if_split_asm)

lemma stage_three:
  assumes "stage_inputs (\<lambda>k v. store_bytes sha base k (fst v) (snd v)) remove [kv1, kv2, kv3] fs = (Inr ms, fs')"
  shows "\<exists>m1 m2 m3. ms = [m1, m2, m3] \<and> so_key m1 = fst kv1 \<and> so_key m2 = fst kv2 \<and> so_key m3 = fst kv3"
  using assms
  by (cases kv1; cases kv2; cases kv3)
     (auto simp: stage_inputs_def split: prod.split_asm sum.split_asm dest!: store_bytes_key)

subsection \<open>What a committed submission leaves\<close>

lemma save_stagedD:
  "save_staged env gen c run role ct f m d = Inr d' \<Longrightarrow>
     \<exists>u. d' = d\<lparr>uploaded_files := uploaded_files d @ [u]\<rparr> \<and> uf_organisation_id u = c_organisation_id c \<and> uf_run_id u = run
       \<and> uf_file_role u = role \<and> uf_sha256_checksum u = sv_sha env (ri_bytes f) \<and> uf_object_key u = so_key m"
  unfolding save_staged_def by (drule save_uploaded_file_InrD) blast

definition file_recorded :: "'k service_env \<Rightarrow> run_row \<Rightarrow> string \<Rightarrow> run_input \<Rightarrow> string \<Rightarrow> tenant_db \<Rightarrow> bool" where
  "file_recorded env r role f key d \<longleftrightarrow> (\<exists>u \<in> set (uploaded_files d). uf_organisation_id u = r_organisation_id r
     \<and> uf_run_id u = r_id r \<and> uf_file_role u = role \<and> uf_sha256_checksum u = sv_sha env (ri_bytes f) \<and> uf_object_key u = key)"

text \<open>A run in its initial state with its three files, and a queued job that answers with the response.\<close>

definition submission_recorded ::
  "'k service_env \<Rightarrow> (int \<Rightarrow> string) \<Rightarrow> tenant_context \<Rightarrow> service_input \<Rightarrow> string \<times> string \<times> string \<Rightarrow> string \<Rightarrow>
   tenant_db \<Rightarrow> run_row \<Rightarrow> job_row \<Rightarrow> bool" where
  "submission_recorded env stamp c inp keys resp d r j \<longleftrightarrow> r \<in> set (runs (core d)) \<and> j \<in> set (jobs (core d))
     \<and> r_organisation_id r = c_organisation_id c \<and> j_organisation_id j = c_organisation_id c \<and> r_status r = RInitiated
     \<and> j_status j = JQueued \<and> j_run_id j = r_id r \<and> resp = job_response stamp r j
     \<and> r_bank_statement_hash r = Some (sv_sha env (ri_bytes (si_bank inp)))
     \<and> (case keys of (kb, kr, kl) \<Rightarrow> file_recorded env r ''bank_statement'' (si_bank inp) kb d
          \<and> file_recorded env r ''recon_report'' (si_recon inp) kr d \<and> file_recorded env r ''order_ledger'' (si_ledger inp) kl d)"

lemma create_jobD:
  "create_reconciliation_job gen c run mx now k = Inr (j, k') \<Longrightarrow>
     k' = k\<lparr>jobs := jobs k @ [j]\<rparr> \<and> j_id j \<notin> set (map j_id (jobs k)) \<and> j_organisation_id j = c_organisation_id c
       \<and> j_run_id j = run \<and> j_status j = JQueued"
  unfolding create_reconciliation_job_def by (elim attemptE) (auto dest!: insert_with_public_id_retry_InrD)

lemma drop_expired_same [simp]:
  "runs (drop_expired c key now k) = runs k" "jobs (drop_expired c key now k) = jobs k"
  "memberships (drop_expired c key now k) = memberships k" "audit_events (drop_expired c key now k) = audit_events k"
  by (auto simp: drop_expired_def split: option.split)

lemma save_idempotency_same:
  "save_idempotency_record c key hash jid rid st resp ttl now k = Inr (rec, k') \<Longrightarrow> runs k' = runs k \<and> jobs k' = jobs k"
  unfolding save_idempotency_record_def Let_def
  by (elim attemptE) (auto split: if_split_asm option.split_asm)

lemma remember_response_same: "remember_response c key hash run job resp now k = Inr k' \<Longrightarrow> runs k' = runs k \<and> jobs k' = jobs k"
  by (auto simp: remember_response_def attempt_Inr stored_Inr split: option.split_asm if_split_asm dest!: save_idempotency_same)

lemma submit_transactionE:
  assumes "submit_transaction env ids stamp c sb hash (m1, m2, m3) now d = Inr (resp, d')"
  obtains run job k k' where "jobs k = jobs (core d) @ [job]" "j_id job \<notin> set (map j_id (jobs (core d)))"
    "idempotency_records k = idempotency_records (core d)"
    "remember_response c (given_key sb) hash run job resp now k = Inr k'" "core d' = k'" "resp = job_response stamp run job"
    "\<exists>r. submission_recorded env stamp c (sb_input sb) (so_key m1, so_key m2, so_key m3) resp d' r job"
proof -
  let ?i = "sb_input sb"
  from assms obtain run k1 k2 d3 d4 d5 d6 job k7 k8 where t:
    "create_run (ids 0) c ''{}'' now (core d) = Inr (run, k1)"
    "save_run now (submitted_run env sb run) k1 = Inr k2"
    "save_staged env (ids 1) c (r_id run) ''bank_statement'' ''text/csv'' (si_bank ?i) m1 (d\<lparr>core := k2\<rparr>) = Inr d3"
    "save_staged env (ids 2) c (r_id run) ''recon_report'' ''application/json'' (si_recon ?i) m2 d3 = Inr d4"
    "save_staged env (ids 3) c (r_id run) ''order_ledger'' ''text/csv'' (si_ledger ?i) m3 d4 = Inr d5"
    "in_core (append_audit_event (ids 4) c ''run.initiated'' ''reconciliation_run'' (r_public_id run) NoMetadata None) d5 = Inr d6"
    "create_reconciliation_job (ids 5) c (r_id run) 3 now (core d6) = Inr (job, k7)"
    "remember_response c (given_key sb) hash run job (job_response stamp run job) now k7 = Inr k8"
    "resp = job_response stamp run job" "d' = d6\<lparr>core := k8\<rparr>"
    unfolding submit_transaction_def by (auto elim!: attemptE simp: stored_Inr)
  note run = create_run_InrD [OF t(1)] and job = create_jobD [OF t(7)]
  define r where "r = (submitted_run env sb run)\<lparr>r_updated_at := now\<rparr>"
  have k2: "runs k2 = map (\<lambda>x. if r_id x = r_id run then r else x) (runs k1)" "jobs k2 = jobs k1"
    "idempotency_records k2 = idempotency_records k1"
    using t(2) save_run_runs [OF t(2)] by (auto simp: r_def submitted_run_def save_run_def attempt_Inr)
  obtain u1 where u1: "d3 = d\<lparr>core := k2, uploaded_files := uploaded_files d @ [u1]\<rparr>" "uf_organisation_id u1 = c_organisation_id c"
    "uf_run_id u1 = r_id run" "uf_file_role u1 = ''bank_statement''" "uf_sha256_checksum u1 = sv_sha env (ri_bytes (si_bank ?i))"
    "uf_object_key u1 = so_key m1" using save_stagedD [OF t(3)] by auto
  obtain u2 where u2: "d4 = d3\<lparr>uploaded_files := uploaded_files d3 @ [u2]\<rparr>" "uf_organisation_id u2 = c_organisation_id c"
    "uf_run_id u2 = r_id run" "uf_file_role u2 = ''recon_report''" "uf_sha256_checksum u2 = sv_sha env (ri_bytes (si_recon ?i))"
    "uf_object_key u2 = so_key m2" using save_stagedD [OF t(4)] by auto
  obtain u3 where u3: "d5 = d4\<lparr>uploaded_files := uploaded_files d4 @ [u3]\<rparr>" "uf_organisation_id u3 = c_organisation_id c"
    "uf_run_id u3 = r_id run" "uf_file_role u3 = ''order_ledger''" "uf_sha256_checksum u3 = sv_sha env (ri_bytes (si_ledger ?i))"
    "uf_object_key u3 = so_key m3" using save_stagedD [OF t(5)] by auto
  have d6: "runs (core d6) = runs k2" "jobs (core d6) = jobs k2" "idempotency_records (core d6) = idempotency_records k2"
    "uploaded_files d6 = uploaded_files d @ [u1, u2, u3]"
    using t(6) u1(1) u2(1) u3(1) by (auto simp: in_core_Inr dest!: append_audit_event_InrD)
  note k8 = remember_response_same [OF t(8)]
  have files: "file_recorded env r ''bank_statement'' (si_bank ?i) (so_key m1) d'"
    "file_recorded env r ''recon_report'' (si_recon ?i) (so_key m2) d'" "file_recorded env r ''order_ledger'' (si_ledger ?i) (so_key m3) d'"
    using run u1(2-6) u2(2-6) u3(2-6) d6(4) unfolding file_recorded_def t(10) by (auto simp: r_def submitted_run_def)
  have "job_response stamp r job = job_response stamp run job"
    by (simp add: job_response_def r_def submitted_run_def)
  moreover have "r \<in> set (runs (core d'))" using run k2(1) d6(1) k8 job by (auto simp: t(10))
  moreover have "job \<in> set (jobs (core d'))" using k8 job by (simp add: t(10))
  ultimately have "submission_recorded env stamp c ?i (so_key m1, so_key m2, so_key m3) resp d' r job"
    using files run job t(9) by (simp add: submission_recorded_def r_def submitted_run_def)
  then show thesis
    by (intro that [where k = k7 and k' = k8 and run = run and job = job]) (use t(8,9,10) job d6 k2 run in auto)
qed

subsection \<open>Submissions are all or nothing\<close>

text \<open>
  C34. On the local backend a submission either commits or leaves no trace, when the keys to be staged are free in the
  store, canonical and do not end in \<open>.tmp\<close> (the bytes of an upload named that way are lost, \<open>tmp_key_is_lost\<close>). If
  it answers 202 as a new job, the database holds the run in its initial state with the digests and keys of its three
  files and a queued job that the response describes, and the staged keys hold the input bytes. If it raises
  or replays, the database is the one other transactions left and every key of that form reads as before.
\<close>

theorem submission_all_or_nothing:
  assumes "\<forall>k \<in> fst ` set (staged_inputs env c tok (sb_input sb)). local_key k \<and> local_fetch base k st = None" "local_key k"
    "submit_reconciliation_job (\<lambda>k v. store_bytes (sv_sha env) base k (fst v) (snd v)) (delete_object base)
       env digest ids stamp tok clock mid c sb (d, st) = (res, d', st')"
  shows "(if \<exists>resp status. res = Inr (resp, status, False)
    then (\<exists>resp r j. res = Inr (resp, 202, False) \<and> submission_recorded env stamp c (sb_input sb)
        (upload_key env c tok ''bank_statement'' (si_bank (sb_input sb)), upload_key env c tok ''recon_report'' (si_recon (sb_input sb)),
         upload_key env c tok ''order_ledger'' (si_ledger (sb_input sb))) resp d' r j)
      \<and> local_fetch base k st' = (case map_of (staged_inputs env c tok (sb_input sb)) k of
          Some v \<Rightarrow> Some (fst v) | None \<Rightarrow> local_fetch base k st)
    else d' \<in> {d, mid 0 d, mid 1 (mid 0 d)} \<and> local_fetch base k st' = local_fetch base k st)"
proof -
  let ?kvs = "staged_inputs env c tok (sb_input sb)" and ?hash = "request_hash env digest sb" and ?key = "given_key sb"
  let ?store = "\<lambda>k v. store_bytes (sv_sha env) base k (fst v) (snd v)" and ?remove = "delete_object base"
  let ?tx = "\<lambda>m. submit_transaction env ids stamp c sb ?hash m (clock 2) (mid 1 (mid 0 d))"
  have good: "\<forall>k \<in> fst ` set ?kvs. local_key k" "\<forall>k \<in> fst ` set ?kvs. local_fetch base k st = None"
    using assms(1) unfolding ball_conj_distrib by (rule conjunct1, intro assms(1) [unfolded ball_conj_distrib, THEN conjunct2])
  note run = assms(3) [unfolded submit_reconciliation_job_def Let_def split]
  obtain q st1 where q: "stage_inputs ?store ?remove ?kvs st = (q, st1)" by (cases "stage_inputs ?store ?remove ?kvs st")
  note atomic = local_store.stage_inputs_atomic [OF good(1) staged_keys_distinct good(2) q assms(2)]
  have gone: "local_fetch base k (discard ?remove ks st1) = local_fetch base k st" if "set ks = set (map fst ?kvs)" for ks
    by (rule local_store.staged_then_discarded [OF good(1) staged_keys_distinct good(2) q assms(2) that])
  note gone2 = gone [of "map fst ?kvs"] gone [of "map fst ?kvs @ map fst ?kvs"]
  show ?thesis
  proof (cases "period_reversed sb \<or> find_replay c ?key ?hash (clock 0) d \<noteq> Inr None")
    case True
    then show ?thesis using run by (auto split: if_split_asm sum.split_asm option.split_asm)
  next
    case False
    show ?thesis
    proof (cases q)
      case (Inl e)
      then show ?thesis using run False q atomic by auto
    next
      case (Inr ms)
      then obtain m1 m2 m3 where ms: "q = Inr [m1, m2, m3]"
        "so_key m1 = upload_key env c tok ''bank_statement'' (si_bank (sb_input sb))"
        "so_key m2 = upload_key env c tok ''recon_report'' (si_recon (sb_input sb))"
        "so_key m3 = upload_key env c tok ''order_ledger'' (si_ledger (sb_input sb))"
        using stage_three [OF q [unfolded Inr staged_inputs_def]] by auto
      show ?thesis
      proof (cases "find_replay c ?key ?hash (clock 1) (mid 0 d) = Inr None")
        case False
        then show ?thesis using run \<open>\<not> (_ \<or> _)\<close> q ms(1) gone2
          by (auto split: sum.split_asm option.split_asm)
      next
        case replay: True
        show ?thesis
        proof (cases "?tx (m1, m2, m3)")
          case (Inl e)
          then show ?thesis using run False replay q ms(1) gone2
            by (cases e) (auto simp: unit_of_work_def discard_append)
        next
          case tx: (Inr u)
          obtain resp d2 where u: "u = (resp, d2)" by (cases u)
          obtain r j where "submission_recorded env stamp c (sb_input sb) (so_key m1, so_key m2, so_key m3) resp d2 r j"
            using submit_transactionE [OF tx [unfolded u]] by metis
          then show ?thesis using run False replay q ms atomic tx u by (auto simp: unit_of_work_def)
        qed
      qed
    qed
  qed
qed

subsection \<open>Replays\<close>

text \<open>The foreign key of idempotency records to their jobs.\<close>

definition records_have_jobs :: "db \<Rightarrow> bool" where
  "records_have_jobs k \<longleftrightarrow> (\<forall>r \<in> set (idempotency_records k). i_job_id r \<in> set (map j_id (jobs k)))"

lemma drop_expired_sub: "set (idempotency_records (drop_expired c key now k)) \<subseteq> set (idempotency_records k)"
  by (auto simp: drop_expired_def split: option.split dest: set_remove1_subset [THEN subsetD])

lemma remembered:
  assumes "remember_response c (Some key) hash run job resp now k = Inr k'" "keys_unique k"
    "\<forall>r \<in> set (idempotency_records k). i_job_id r \<noteq> j_id job"
  shows "check_key key = Inr () \<and> (\<exists>rec. scoped_record c key k' = Some rec \<and> i_request_hash rec = hash \<and> i_response_json rec = resp
    \<and> i_response_status_code rec = 202 \<and> i_expires_at rec = now + 24 * 3600000000)"
proof -
  obtain rec where s: "save_idempotency_record c key hash (j_id job) (r_id run) 202 resp 24 now k = Inr (rec, k')"
    and own: "i_job_id rec = j_id job"
    using assms(1) by (auto simp: remember_response_def attempt_Inr stored_Inr split: if_split_asm)
  note saved = save_idempotency_saved [OF s assms(2)]
  have "rec \<notin> set (idempotency_records k)" using own assms(3) by auto
  then have "scoped_record c key (drop_expired c key now k) \<noteq> Some rec"
    using drop_expired_sub [of c key now k] by (auto dest: scoped_record_SomeD)
  then have "i_response_json rec = resp \<and> i_response_status_code rec = 202 \<and> i_expires_at rec = now + 24 * 3600000000"
    using s unfolding save_idempotency_record_def Let_def
    by (elim attemptE) (auto split: if_split_asm option.split_asm)
  then show ?thesis using saved by blast
qed

text \<open>
  C35. A submission that was accepted under an idempotency key is replayed: until the record expires, the same
  request under that key is answered with the same response and status, and touches neither the database
  nor the object store.
\<close>

theorem submission_replays:
  assumes "submit_reconciliation_job store remove env digest ids stamp tok clock mid c sb (d, st) = (Inr (resp, status, False), d', st')"
    "given_key sb = Some key" "keys_unique (core (mid 1 (mid 0 d)))" "records_have_jobs (core (mid 1 (mid 0 d)))"
    "clock' 0 \<le> clock 2 + 24 * 3600000000"
  shows "submit_reconciliation_job store' remove' env digest ids' stamp' tok' clock' mid' c sb (d', st'')
    = (Inr (resp, status, True), d', st'')"
proof -
  let ?hash = "request_hash env digest sb"
  note run = assms(1) [unfolded submit_reconciliation_job_def Let_def split]
  have p: "\<not> period_reversed sb" using run by (auto split: if_split_asm)
  obtain m1 m2 m3 where tx: "submit_transaction env ids stamp c sb ?hash (m1, m2, m3) (clock 2) (mid 1 (mid 0 d)) = Inr (resp, d')"
    and st: "status = 202"
    using run by (auto simp: p unit_of_work_def split: sum.split_asm option.split_asm prod.split_asm list.split_asm service_error.split_asm)
  obtain rn job k k' where k: "j_id job \<notin> set (map j_id (jobs (core (mid 1 (mid 0 d)))))"
    "idempotency_records k = idempotency_records (core (mid 1 (mid 0 d)))"
    "remember_response c (Some key) ?hash rn job resp (clock 2) k = Inr k'" "core d' = k'"
    using submit_transactionE [OF tx] assms(2) by metis
  have own: "\<forall>r \<in> set (idempotency_records k). i_job_id r \<noteq> j_id job"
    using k(1,2) assms(4) unfolding records_have_jobs_def by metis
  have "keys_unique k" using assms(3) k(2) by (simp add: keys_unique_def)
  from remembered [OF k(3) this own] obtain rec where rec: "check_key key = Inr ()" "scoped_record c key (core d') = Some rec"
    "i_request_hash rec = ?hash" "i_response_json rec = resp" "i_response_status_code rec = 202"
    "i_expires_at rec = clock 2 + 24 * 3600000000"
    using k(4) by blast
  have "find_replay c (Some key) ?hash (clock' 0) d' = Inr (Some (resp, 202))"
    using rec assms(5) by (simp add: find_replay_def get_idempotency_record_def stored_def)
  then show ?thesis
    using p st assms(2) by (simp add: submit_reconciliation_job_def Let_def)
qed

subsection \<open>The properties on a concrete submission\<close>

definition served_submission :: submission where
  "served_submission = \<lparr>sb_input = served_input, sb_key = Some ''k1'', sb_period_start = Some 739000, sb_period_end = Some 739030,
     sb_rule_pack_id = None, sb_bank_adapter_id = None\<rparr>"

definition served_submit :: "string \<Rightarrow> tenant_db \<times> file_system \<Rightarrow> (service_error + string \<times> int \<times> bool) \<times> tenant_db \<times> file_system" where
  "served_submit tok = submit_reconciliation_job (\<lambda>k v. store_bytes (sv_sha served_env) [''data''] k (fst v) (snd v)) (delete_object [''data''])
     served_env id served_ids str_int tok int (\<lambda>_ d. d) demo_ctx served_submission"

lemma served_submit_accepted:
  "case served_submit ''t1'' (served_db, demo_fs) of (res, d', st') \<Rightarrow> (case res of Inl _ \<Rightarrow> False | Inr (_, status, replay) \<Rightarrow> status = 202 \<and> \<not> replay)"
  by code_simp

theorem submission_all_or_nothing_witness:
  "case served_submit ''t1'' (served_db, demo_fs) of (res, d', st') \<Rightarrow>
     local_fetch [''data''] (upload_key served_env demo_ctx ''t1'' ''bank_statement'' served_file) st' = Some ''data''
     \<and> (\<exists>r j resp. submission_recorded served_env str_int demo_ctx served_input
         (upload_key served_env demo_ctx ''t1'' ''bank_statement'' served_file, upload_key served_env demo_ctx ''t1'' ''recon_report'' served_file,
          upload_key served_env demo_ctx ''t1'' ''order_ledger'' served_file) resp d' r j)"
proof -
  let ?k = "upload_key served_env demo_ctx ''t1'' ''bank_statement'' served_file"
  have "list_all (\<lambda>k. local_key k \<and> local_fetch [''data''] k demo_fs = None) (map fst (staged_inputs served_env demo_ctx ''t1'' served_input))"
    by code_simp
  then have pre: "\<forall>k \<in> fst ` set (staged_inputs served_env demo_ctx ''t1'' (sb_input served_submission)).
      local_key k \<and> local_fetch [''data''] k demo_fs = None"
    by (simp add: list_all_iff served_submission_def)
  then have key: "local_key ?k" by (simp add: staged_inputs_def served_submission_def served_input_def)
  obtain res d' st' where run: "served_submit ''t1'' (served_db, demo_fs) = (res, d', st')" by (cases "served_submit ''t1'' (served_db, demo_fs)")
  have "\<exists>resp status. res = Inr (resp, status, False)"
    using served_submit_accepted by (auto simp: run split: sum.split_asm)
  then show ?thesis
    using submission_all_or_nothing [OF pre key run [unfolded served_submit_def]]
    by (auto simp: run staged_inputs_def served_submission_def served_input_def served_file_def)
qed

theorem submission_replays_witness:
  "\<exists>resp d'. fst (served_submit ''t1'' (served_db, demo_fs)) = Inr (resp, 202, False)
     \<and> served_submit ''t2'' (d', demo_fs) = (Inr (resp, 202, True), d', demo_fs)"
proof -
  obtain res d' st' where run: "served_submit ''t1'' (served_db, demo_fs) = (res, d', st')" by (cases "served_submit ''t1'' (served_db, demo_fs)")
  then obtain resp where res: "res = Inr (resp, 202, False)"
    using served_submit_accepted by (auto split: sum.split_asm)
  have "given_key served_submission = Some ''k1''" by code_simp
  from submission_replays [OF run [unfolded res served_submit_def] this, of int]
  have "served_submit ''t2'' (d', demo_fs) = (Inr (resp, 202, True), d', demo_fs)"
    by (simp add: served_submit_def keys_unique_def records_have_jobs_def served_db_def demo_empty_def)
  then show ?thesis using run res by auto
qed

end
