(* ===== verification/RunComparison.thy ===== *)
theory RunComparison
  imports RunSafety
begin

section \<open>Comparison of runs\<close>

text \<open>
  \<open>compare_runs\<close> of \<open>persistence/service.py\<close>: two completed runs of a tenant with disjoint reporting periods are
  compared by the summaries and rails of their stored presentations and by the root causes of their
  investigations. Amounts and counts are integers, as the presentation writes them; a subtraction of other
  values is a \<open>Type_Error\<close> here. Names of rails are compared as they are written.
\<close>

subsection \<open>Reading the stored presentations\<close>

definition object_of :: "json \<Rightarrow> service_error + (string \<times> json) list" where
  "object_of v = (case v of JObj d \<Rightarrow> Inr d | _ \<Rightarrow> Inl Type_Error)"

definition presentation_of :: "tenant_context \<Rightarrow> run_row \<Rightarrow> tenant_db \<Rightarrow> service_error + (string \<times> json) list" where
  "presentation_of c r d = (case get_result_by_run_id c (r_id r) d of
     None \<Rightarrow> Inr []
   | Some rt \<Rightarrow> if json_truthy (rt_presentation rt) then object_of (rt_presentation rt) else Inr [])"

definition json_minus :: "json \<Rightarrow> json \<Rightarrow> service_error + int" where
  "json_minus a b = (case (a, b) of (JInt i, JInt j) \<Rightarrow> Inr (i - j) | _ \<Rightarrow> Inl Type_Error)"

definition summary_delta :: "(string \<times> json) list \<Rightarrow> (string \<times> json) list \<Rightarrow> string \<Rightarrow> service_error + int" where
  "summary_delta base target k = json_minus (dget target k (JInt 0)) (dget base k (JInt 0))"

definition DELTA_FIELDS :: "(string \<times> string) list" where
  "DELTA_FIELDS = [(''total_credit_delta_paise'', ''total_credit_paise''), (''reconciled_delta_paise'', ''reconciled_paise''),
     (''unresolved_delta_paise'', ''unresolved_paise''), (''fee_gst_recoverable_delta_paise'', ''fee_gst_recoverable_paise''),
     (''exception_count_delta'', ''exception_count'')]"

text \<open>The results of a list of steps, or the first exception.\<close>

fun collect :: "('a \<Rightarrow> 'e + 'b) \<Rightarrow> 'a list \<Rightarrow> 'e + 'b list" where
  "collect f [] = Inr []"
| "collect f (x # xs) = attempt (f x) (\<lambda>y. attempt (collect f xs) (\<lambda>ys. Inr (y # ys)))"

definition summary_deltas :: "(string \<times> json) list \<Rightarrow> (string \<times> json) list \<Rightarrow> service_error + (string \<times> int) list" where
  "summary_deltas base target =
    collect (\<lambda>(name, k). attempt (summary_delta base target k) (\<lambda>v. Inr (name, v))) DELTA_FIELDS"

subsection \<open>Rails\<close>

type_synonym rail_table = "(json, (string \<times> json) list) dict"

fun rail_table_of :: "json list \<Rightarrow> rail_table \<Rightarrow> service_error + rail_table" where
  "rail_table_of [] t = Inr t"
| "rail_table_of (JObj r # js) t = (if hashable (jget r ''rail'') then rail_table_of js (dset t (jget r ''rail'') r) else Inl Type_Error)"
| "rail_table_of (_ # js) t = rail_table_of js t"

definition rails_of :: "(string \<times> json) list \<Rightarrow> service_error + rail_table" where
  "rails_of pres = (case jget_or pres ''rails'' (JList []) of
     JList js \<Rightarrow> rail_table_of js [] | JStr _ \<Rightarrow> Inr [] | JObj _ \<Rightarrow> Inr [] | _ \<Rightarrow> Inl Type_Error)"

record rail_comparison =
  rl_rail :: json
  rl_label :: json
  rl_base_amount :: json
  rl_target_amount :: json
  rl_delta_amount :: int
  rl_base_count :: json
  rl_target_count :: json
  rl_delta_count :: int

definition compare_rail :: "rail_table \<Rightarrow> rail_table \<Rightarrow> json \<Rightarrow> service_error + rail_comparison" where
  "compare_rail base target k =
    (let b = dget base k []; t = dget target k [];
         b_amt = jget_or b ''amount_paise'' (JInt 0); t_amt = jget_or t ''amount_paise'' (JInt 0);
         b_n = jget_or b ''count'' (JInt 0); t_n = jget_or t ''count'' (JInt 0)
     in attempt (json_minus t_amt b_amt) (\<lambda>amt. attempt (json_minus t_n b_n) (\<lambda>n.
       Inr \<lparr>rl_rail = k, rl_label = jget_or t ''label'' (jget_or b ''label'' k), rl_base_amount = b_amt, rl_target_amount = t_amt,
            rl_delta_amount = amt, rl_base_count = b_n, rl_target_count = t_n, rl_delta_count = n\<rparr>)))"

definition compare_rails :: "rail_table \<Rightarrow> rail_table \<Rightarrow> service_error + rail_comparison list" where
  "compare_rails base target = collect (compare_rail base target) (sort_key py_str (remdups (map fst base @ map fst target)))"

subsection \<open>Root causes and the comparison\<close>

record cause_drift =
  cd_root_cause :: string
  cd_base_count :: int
  cd_target_count :: int
  cd_delta_count :: int

definition root_cause_drift :: "investigation_record list \<Rightarrow> investigation_record list \<Rightarrow> cause_drift list" where
  "root_cause_drift base target =
    (let b = map nv_root_cause base; t = map nv_root_cause target in
     map (\<lambda>rc. \<lparr>cd_root_cause = rc, cd_base_count = int (count_list b rc), cd_target_count = int (count_list t rc),
            cd_delta_count = int (count_list t rc) - int (count_list b rc)\<rparr>)
       (sort (remdups (b @ t))))"

record compared_run =
  cm_id :: string
  cm_start :: string
  cm_end :: string
  cm_summary :: json

record comparison =
  cmp_base :: compared_run
  cmp_target :: compared_run
  cmp_relationship :: string
  cmp_deltas :: "(string \<times> int) list"
  cmp_rails :: "rail_comparison list"
  cmp_drift :: "cause_drift list"

definition found_run :: "tenant_context \<Rightarrow> string \<Rightarrow> db \<Rightarrow> service_error + run_row" where
  "found_run c pid k = (case get_run_by_public_id c pid k of
     None \<Rightarrow> Inl (Store_Error RecordNotFoundError)
   | Some r \<Rightarrow> if r_is_deleted r then Inl (Store_Error RecordNotFoundError) else Inr r)"

definition require_completed :: "run_row \<Rightarrow> service_error + unit" where
  "require_completed r = (if r_status r = RCompleted then Inr () else Inl (Store_Error InvalidRunStateError))"

definition period_of :: "run_row \<Rightarrow> service_error + date \<times> date" where
  "period_of r = (case (r_reporting_period_start r, r_reporting_period_end r) of
     (Some a, Some b) \<Rightarrow> Inr (a, b) | _ \<Rightarrow> Inl Value_Error)"

definition compared_run_of :: "run_row \<Rightarrow> date \<times> date \<Rightarrow> json \<Rightarrow> compared_run" where
  "compared_run_of r p summary = \<lparr>cm_id = r_public_id r, cm_start = date_isoformat (fst p), cm_end = date_isoformat (snd p),
     cm_summary = summary\<rparr>"

definition compare_pair ::
  "tenant_context \<Rightarrow> run_row \<Rightarrow> date \<times> date \<Rightarrow> run_row \<Rightarrow> date \<times> date \<Rightarrow> tenant_db \<Rightarrow> service_error + comparison" where
  "compare_pair c base bp target tp d =
    attempt (presentation_of c base d) (\<lambda>b_pres.
    attempt (presentation_of c target d) (\<lambda>t_pres.
    attempt (object_of (jget_or b_pres ''summary'' (JObj []))) (\<lambda>b_sum.
    attempt (object_of (jget_or t_pres ''summary'' (JObj []))) (\<lambda>t_sum.
    attempt (summary_deltas b_sum t_sum) (\<lambda>deltas.
    attempt (rails_of b_pres) (\<lambda>b_rails.
    attempt (rails_of t_pres) (\<lambda>t_rails.
    attempt (compare_rails b_rails t_rails) (\<lambda>rails.
      Inr \<lparr>cmp_base = compared_run_of base bp (JObj b_sum), cmp_target = compared_run_of target tp (JObj t_sum),
           cmp_relationship = (if snd bp < fst tp then ''subsequent'' else ''preceding''),
           cmp_deltas = deltas, cmp_rails = rails,
           cmp_drift = root_cause_drift (list_investigations_by_run_id c (r_id base) d) (list_investigations_by_run_id c (r_id target) d)\<rparr>))))))))"

definition disjoint_periods :: "date \<times> date \<Rightarrow> date \<times> date \<Rightarrow> bool" where
  "disjoint_periods bp tp \<longleftrightarrow> snd bp < fst tp \<or> snd tp < fst bp"

definition compare_runs :: "tenant_context \<Rightarrow> string \<Rightarrow> string \<Rightarrow> tenant_db \<Rightarrow> service_error + comparison" where
  "compare_runs c base_id target_id d =
    attempt (found_run c base_id (core d)) (\<lambda>base.
    attempt (found_run c target_id (core d)) (\<lambda>target.
    attempt (require_completed base) (\<lambda>_.
    attempt (require_completed target) (\<lambda>_.
    attempt (period_of base) (\<lambda>bp.
    attempt (period_of target) (\<lambda>tp.
      if disjoint_periods bp tp then compare_pair c base bp target tp d else Inl Value_Error))))))"

subsection \<open>Comparing in the other direction\<close>

lemma collect_Inr: "collect f xs = Inr ys \<longleftrightarrow> list_all2 (\<lambda>x y. f x = Inr y) xs ys"
  by (induction xs arbitrary: ys) (auto simp: attempt_Inr list_all2_Cons1)

lemma json_minus_Inr: "json_minus a b = Inr v \<longleftrightarrow> (\<exists>i j. a = JInt i \<and> b = JInt j \<and> v = i - j)"
  by (auto simp: json_minus_def split: json.splits)

lemma summary_deltas_swap:
  "summary_deltas b t = Inr ds \<Longrightarrow> summary_deltas t b = Inr (map (\<lambda>(k, v). (k, - v)) ds)"
  unfolding summary_deltas_def collect_Inr list_all2_map2
  by (erule list_all2_mono) (auto simp: attempt_Inr summary_delta_def json_minus_Inr)

lemma list_all2_left: "list_all2 P xs ys \<Longrightarrow> x \<in> set xs \<Longrightarrow> \<exists>y \<in> set ys. P x y"
  by (induction rule: list_all2_induct) auto

lemma list_all2_right: "list_all2 P xs ys \<Longrightarrow> y \<in> set ys \<Longrightarrow> \<exists>x \<in> set xs. P x y"
  by (induction rule: list_all2_induct) auto

definition swap_rail :: "rail_comparison \<Rightarrow> rail_comparison \<Rightarrow> bool" where
  "swap_rail x y \<longleftrightarrow> rl_rail y = rl_rail x \<and> rl_base_amount y = rl_target_amount x \<and> rl_target_amount y = rl_base_amount x
     \<and> rl_delta_amount y = - rl_delta_amount x \<and> rl_base_count y = rl_target_count x \<and> rl_target_count y = rl_base_count x
     \<and> rl_delta_count y = - rl_delta_count x"

lemma compare_rail_swap: "compare_rail b t k = Inr x \<Longrightarrow> \<exists>y. compare_rail t b k = Inr y \<and> swap_rail x y"
  by (auto simp: compare_rail_def Let_def attempt_Inr json_minus_Inr swap_rail_def)

lemma collect_total: "(\<And>x. x \<in> set xs \<Longrightarrow> \<exists>y. f x = Inr y) \<Longrightarrow> \<exists>ys. collect f xs = Inr ys"
  by (induction xs) (auto simp: attempt_Inr)

lemma compare_rails_swap:
  assumes "compare_rails b t = Inr xs"
  shows "\<exists>ys. compare_rails t b = Inr ys \<and> (\<forall>x \<in> set xs. \<exists>y \<in> set ys. swap_rail x y) \<and> length ys = length xs"
proof -
  let ?ks = "sort_key py_str (remdups (map fst b @ map fst t))" and ?ks' = "sort_key py_str (remdups (map fst t @ map fst b))"
  have ks: "set ?ks' = set ?ks" "length ?ks' = length ?ks" by (auto simp: length_remdups_card_conv Un_commute)
  have xs: "list_all2 (\<lambda>k x. compare_rail b t k = Inr x) ?ks xs" using assms by (simp add: compare_rails_def collect_Inr)
  have each: "\<exists>x \<in> set xs. compare_rail b t k = Inr x" if "k \<in> set ?ks" for k
    using list_all2_left [OF xs that] .
  have "\<exists>y. compare_rail t b k = Inr y" if "k \<in> set ?ks'" for k
    using each compare_rail_swap that ks(1) by metis
  then obtain ys where ys: "collect (compare_rail t b) ?ks' = Inr ys" using collect_total by metis
  have l: "list_all2 (\<lambda>k y. compare_rail t b k = Inr y) ?ks' ys" using ys by (simp add: collect_Inr)
  have "\<exists>y \<in> set ys. swap_rail x y" if xm: "x \<in> set xs" for x
  proof -
    obtain k where k: "k \<in> set ?ks" "compare_rail b t k = Inr x"
      using list_all2_right [OF xs xm] by blast
    then obtain y where "compare_rail t b k = Inr y" "swap_rail x y" using compare_rail_swap by blast
    moreover have "k \<in> set ?ks'" using k(1) ks(1) by simp
    then have "\<exists>y \<in> set ys. compare_rail t b k = Inr y" by (rule list_all2_left [OF l])
    ultimately show ?thesis by auto
  qed
  moreover have "length ys = length xs" using xs l ks(2) by (metis list_all2_lengthD)
  ultimately show ?thesis using ys by (auto simp: compare_rails_def)
qed

definition swap_drift :: "cause_drift \<Rightarrow> cause_drift" where
  "swap_drift x = \<lparr>cd_root_cause = cd_root_cause x, cd_base_count = cd_target_count x, cd_target_count = cd_base_count x,
     cd_delta_count = - cd_delta_count x\<rparr>"

lemma root_cause_drift_swap: "root_cause_drift t b = map swap_drift (root_cause_drift b t)"
proof -
  have "sort (remdups (map nv_root_cause t @ map nv_root_cause b)) = sort (remdups (map nv_root_cause b @ map nv_root_cause t))"
    by (rule sorted_distinct_set_unique) auto
  then show ?thesis by (simp add: root_cause_drift_def Let_def swap_drift_def)
qed

definition opposite :: "comparison \<Rightarrow> comparison \<Rightarrow> bool" where
  "opposite x y \<longleftrightarrow> cmp_deltas y = map (\<lambda>(k, v). (k, - v)) (cmp_deltas x)
    \<and> (\<forall>u \<in> set (cmp_rails x). \<exists>v \<in> set (cmp_rails y). swap_rail u v) \<and> length (cmp_rails y) = length (cmp_rails x)
    \<and> cmp_drift y = map swap_drift (cmp_drift x) \<and> cmp_base y = cmp_target x \<and> cmp_target y = cmp_base x
    \<and> cmp_relationship y \<noteq> cmp_relationship x"

lemma compare_pair_swap:
  assumes "compare_pair c b bp t tp d = Inr x" "disjoint_periods bp tp" "fst bp \<le> snd bp" "fst tp \<le> snd tp"
  shows "\<exists>y. compare_pair c t tp b bp d = Inr y \<and> opposite x y"
proof -
  from assms(1) obtain bpres tpres bs ts ds br tr rl where s:
    "presentation_of c b d = Inr bpres" "presentation_of c t d = Inr tpres"
    "object_of (jget_or bpres ''summary'' (JObj [])) = Inr bs" "object_of (jget_or tpres ''summary'' (JObj [])) = Inr ts"
    "summary_deltas bs ts = Inr ds" "rails_of bpres = Inr br" "rails_of tpres = Inr tr" "compare_rails br tr = Inr rl"
    and x: "x = \<lparr>cmp_base = compared_run_of b bp (JObj bs), cmp_target = compared_run_of t tp (JObj ts),
           cmp_relationship = (if snd bp < fst tp then ''subsequent'' else ''preceding''), cmp_deltas = ds, cmp_rails = rl,
           cmp_drift = root_cause_drift (list_investigations_by_run_id c (r_id b) d) (list_investigations_by_run_id c (r_id t) d)\<rparr>"
    unfolding compare_pair_def
    by (elim attemptE) (rule that, assumption+, erule sum.inject(2) [THEN iffD1, symmetric])
  obtain ys where ys: "compare_rails tr br = Inr ys" "\<forall>x \<in> set rl. \<exists>y \<in> set ys. swap_rail x y" "length ys = length rl"
    using compare_rails_swap [OF s(8)] by blast
  have "(snd bp < fst tp) \<noteq> (snd tp < fst bp)" using assms(2-4) by (auto simp: disjoint_periods_def)
  then have "opposite x \<lparr>cmp_base = compared_run_of t tp (JObj ts), cmp_target = compared_run_of b bp (JObj bs),
      cmp_relationship = (if snd tp < fst bp then ''subsequent'' else ''preceding''),
      cmp_deltas = map (\<lambda>(k, v). (k, - v)) ds, cmp_rails = ys,
      cmp_drift = root_cause_drift (list_investigations_by_run_id c (r_id t) d) (list_investigations_by_run_id c (r_id b) d)\<rparr>"
    using ys(2,3) unfolding opposite_def x
    by (simp add: root_cause_drift_swap [of "list_investigations_by_run_id c (r_id t) d" "list_investigations_by_run_id c (r_id b) d"])
  then show ?thesis
    using s(1-4,6,7) summary_deltas_swap [OF s(5)] ys(1) unfolding compare_pair_def by simp
qed

text \<open>
  Comparing two runs the other way round succeeds when the comparison does, and gives the negated deltas, the
  same rails and root causes with base and target exchanged, and the opposite relationship.
\<close>

theorem comparison_antisymmetric:
  assumes "compare_runs c p q d = Inr x"
    "\<And>r a b. r \<in> set (runs (core d)) \<Longrightarrow> r_reporting_period_start r = Some a \<Longrightarrow> r_reporting_period_end r = Some b \<Longrightarrow> a \<le> b"
  shows "\<exists>y. compare_runs c q p d = Inr y \<and> opposite x y"
proof -
  from assms(1) obtain b t bp tp where s: "found_run c p (core d) = Inr b" "found_run c q (core d) = Inr t"
    "require_completed b = Inr ()" "require_completed t = Inr ()" "period_of b = Inr bp" "period_of t = Inr tp"
    "disjoint_periods bp tp" and pair: "compare_pair c b bp t tp d = Inr x"
    unfolding compare_runs_def by (elim attemptE) (auto split: if_split_asm)
  have mem: "r \<in> set (runs (core d))" if "found_run c i (core d) = Inr r" for r i
    using that by (auto simp: found_run_def get_run_by_public_id_def scoped_runs_def split: option.split_asm if_split_asm dest!: find_mem)
  have ordered: "fst bp \<le> snd bp" "fst tp \<le> snd tp"
    using s(5,6) assms(2) [OF mem [OF s(1)]] assms(2) [OF mem [OF s(2)]]
    by (auto simp: period_of_def split: option.split_asm)
  have "compare_runs c q p d = compare_pair c t tp b bp d"
    using s by (simp add: compare_runs_def disjoint_periods_def disj_commute)
  then show ?thesis
    using compare_pair_swap [OF pair s(7) ordered] by simp
qed

end
