(* ===== verification/Spec2Isabelle.thy ===== *)
theory Spec2Isabelle
  imports Bounded_Subsets Packs Evidence Challenger Attribute Splits Rules Covered Reconcile FeeGst
    Journal Exceptions Ledger Pipeline Config AuditChain Idempotency Recovery Ingest ProofPackets Verifier Certificate MembershipPower OidcSafety Maintenance StorageSafety RunSafety RunSubmission RunComparison
begin

text \<open>
  \<^bold>\<open>Untangle: a verification of the reconciliation engine and its job store\<close>

  The program attributes the lines of a bank statement to payment rails, reconciles the Razorpay
  lines with a settlement report, and derives fees, journals, exceptions, proof packets, recovery plans,
  certificates and a ledger cross-check. Around this engine a multi-tenant store keeps reconciliation runs,
  what they leave behind and a queue of background jobs; a service executes runs on it; and a control plane
  keeps organisations, members, sessions and sign-ins. The theories follow the components; each opens with a note on its correspondence to the source.

  \<^bold>\<open>Values.\<close> Money is \<open>int\<close> paise, as in the source. A Python \<open>float\<close> is the rational it denotes and
  every arithmetic operation is followed by the rounding \<open>fl\<close> to 53 bits (theory \<open>PyFloat\<close>; the
  values that occur are far from overflow and underflow). Text is the list of its UTF-8 bytes;
  classes of characters are given by their bytes, and case mapping is the ASCII one (\<open>PyText\<close>). A
  \<open>dict\<close> is an insertion-ordered association list, a \<open>set\<close> a list asked for membership (\<open>Prelude\<close>).
  An exception is a value of a sum type. Timestamps of the store are instants in microseconds.

  \<^bold>\<open>Parameters.\<close> What the sources do not define is an argument: \<open>nf\<close> (Unicode normalisation),
  \<open>digest\<close> (SHA-256), \<open>so\<close> (the iteration order of a set of strings), \<open>dumps\<close> and \<open>loads\<close> (JSON
  text read from files), clocks, generated public ids and tokens, the \<open>cryptography\<close> package, the HTTP exchanges
  with an identity provider, and what other transactions do meanwhile: the rows they hold locked, or a function
  on the database between two transactions of an operation. Theorems that need a documented fact about one of them state it as a hypothesis.

  \<^bold>\<open>The engine.\<close>
  \<^item> \<open>Models\<close> (\<open>engine/models.py\<close>): enumerations, dataclasses, their serialisation to \<open>json\<close>.
  \<^item> \<open>Bounded_Subsets\<close> (\<open>engine/bounded_subsets.py\<close>): the budgeted enumeration and the amount-indexed
    search. The first refines its reference definition or fails closed; the second is exact on
    ascending identities and counts a settlement twice on others.
  \<^item> \<open>Packs\<close>, \<open>Evidence\<close>, \<open>Challenger\<close> (\<open>engine/packs.py\<close>, \<open>evidence.py\<close>, \<open>challenger.py\<close>): keyword
    packs, the settlement index, the token scanners and signals, competing explanations. Deciding
    signals are facts about the report; the UTR scanner finds exactly the maximal runs of UTR shape.
  \<^item> \<open>Attribute\<close>, \<open>Splits\<close>, \<open>Rules\<close>, \<open>Pipeline\<close> (\<open>engine/attribute.py\<close>, \<open>rules.py\<close>): the verdict of one
    line, the reconstruction of split credits (its groups are those of \<open>leg_group\<close> that meet no other), merchant
    rules, and \<open>attribute_all\<close>. Gates: a Razorpay verdict needs a tie to the report, a verdict clears the threshold, the margin gate only
    demotes, rules only replace abstentions; every line gets one attribution.
  \<^item> \<open>SolverGraph\<close>, \<open>SolverSearch\<close>, \<open>Solver\<close> (\<open>engine/solver.py\<close>): the candidate graph, its connected
    components, the branch-and-bound search and the merge of its verdicts. The locale
    \<open>assignment_problem\<close> states what the search relies on and is interpreted on the built graph; the
    search returns a cheapest exact cover of a component, and no settlement is used twice.
  \<^item> \<open>Covered\<close>, \<open>Reconcile\<close>, \<open>FeeGst\<close>, \<open>Journal\<close>, \<open>Exceptions\<close>, \<open>Ledger\<close> (the modules of the same
    names): row identities, the two matching passes, tax, vouchers, unresolved lines, the order
    ledger. Rows are counted once and results resolve to the rows of their settlements within the tolerance, for a
    digest without collisions and a report that has at most 16 settlements or lists them in ascending order
    (\<open>orderly\<close>; \<open>reconcile_books_rows_twice\<close> shows why). The slice is partitioned and no line the index records
    is booked, vouchers balance, and the ledger lists are those of the contract.
  \<^item> \<open>Config\<close> (\<open>engine/config.py\<close>, \<open>abstain.py\<close>): the threshold is in [0, 1] or there is no
    configuration; coverage curves fall. \<open>AuditChain\<close> (\<open>engine/audit.py\<close>): a written ledger verifies,
    and two verifying ledgers with one head agree or exhibit a digest collision.
  \<^item> \<open>Recovery\<close> (\<open>engine/recovery.py\<close>): the plan for unresolved credits; every credit is counted once.

  \<^bold>\<open>Ingestion and export.\<close>
  \<^item> \<open>PyInput\<close>, \<open>PyCsv\<close>, \<open>PyRepr\<close>: number, date and CSV reading and \<open>str\<close> of the standard library.
  \<^item> \<open>BankAdapters\<close>, \<open>Ingest\<close> (\<open>engine/bank_adapters.py\<close>, \<open>ingest.py\<close>): a statement becomes one line per data row
    in order with pairwise different keys, and the settlement report loads exactly when it is well formed.
  \<^item> \<open>ProofPackets\<close>, \<open>CsvRoundtrip\<close> (\<open>engine/proof.py\<close>): a packet for each proven credit; the exported CSV reads
    back to the same cells, none of which starts a spreadsheet formula.

  \<^bold>\<open>Certificates.\<close>
  \<^item> \<open>PyJson\<close>, \<open>JsonCanonical\<close>: \<open>json.dumps\<close> with sorted keys; equal canonical texts are equal values.
  \<^item> \<open>Verifier\<close> (\<open>engine/verifier.py\<close>): the checks of packets; a passing packet is sound, and the engine's own
    packets raise nothing. \<open>Certificate\<close> (\<open>engine/certificate.py\<close>): an issued certificate verifies, and two verifying
    envelopes with one content hash carry the same certificate and report.

  \<^bold>\<open>The store.\<close>
  \<^item> \<open>Tenant\<close> (\<open>persistence/context.py\<close>, \<open>auth/permissions.py\<close>): roles, contexts, capabilities.
  \<^item> \<open>Store\<close> (\<open>persistence/models.py\<close>, \<open>uow.py\<close>, \<open>repositories/base.py\<close>, \<open>repositories/audit.py\<close>): rows,
    CHECK constraints, guarded updates, insertion with retry, audit events; \<open>Runs\<close>, \<open>Jobs\<close>,
    \<open>Idempotency\<close> (\<open>repositories/run.py\<close>, \<open>job.py\<close>, \<open>idempotency.py\<close> and the PostgreSQL functions of
    migration 0003): every operation, one transaction each, for both dialects.
  \<^item> \<open>JobSafety\<close> makes them the labelled step relation \<open>store_step\<close> and shows how rows may change;
    \<open>JobQueue\<close> states the contract of a fenced queue as the locale \<open>leased_store\<close> and interprets it;
    \<open>JobOutcomes\<close> and \<open>Idempotency\<close> draw the consequences: superseded leases are inert, retries end,
    claims make progress in order, the dialects claim alike, tenants are isolated, completed runs
    and runs on hold are protected, pages enumerate, requests replay.
  \<^item> \<open>Maintenance\<close> (\<open>persistence/maintenance.py\<close> and migration 0002): retention; a purge spares what is live.
  \<^item> \<open>Storage\<close> (\<open>persistence/storage.py\<close>): object keys, the choice of the backend, the local backend on an explicit
    file system, and the staging of inputs with its compensation. \<open>StorageSafety\<close> states an object store as the
    locale \<open>object_storage\<close>, interprets it on the local backend for keys that do not end in \<open>.tmp\<close>, and shows that
    keys stay in their folder, that nothing outside the base directory changes, and that staging is all or nothing.
  \<^item> \<open>RunRecords\<close> (\<open>repositories/artifact.py\<close>, \<open>result.py\<close>, \<open>investigation.py\<close>, \<open>certificate.py\<close>): the rows a run leaves
    behind. \<open>RunService\<close> (\<open>persistence/service.py\<close>): the three phases of an execution, over the certificates of
    \<open>Certificate\<close> and the runs of \<open>Runs\<close>. \<open>RunSafety\<close>: the invariant of these tables (completed runs have one result
    and one certificate with their digest, other runs nothing), kept by every execution, and retries of a completion.
    \<open>RunSubmission\<close>: a submitted job commits with its inputs staged or leaves no trace in database and object store
    (keys ending in \<open>.tmp\<close> apart), and replays under its key. \<open>RunComparison\<close>: the comparison of two runs, antisymmetric in its arguments.

  \<^bold>\<open>The control plane.\<close>
  \<^item> \<open>AuthStore\<close> (the tables of migration 0002), \<open>Sessions\<close> (\<open>auth/sessions.py\<close>), \<open>ControlPlane\<close> (\<open>auth/service.py\<close>):
    sessions, organisations, invitations and memberships on SQLite and through the PostgreSQL functions.
  \<^item> \<open>AuthSafety\<close> makes them a step relation; \<open>SessionSafety\<close>: a dead token stays dead; \<open>MembershipSafety\<close>: organisations
    keep an owner; \<open>MembershipPower\<close>: who may make an owner, and what a mutation of a member stores and cuts off.
  \<^item> \<open>Oidc\<close> (\<open>auth/oidc.py\<close>): transactions, claims, identity resolution; \<open>OidcSafety\<close>: a sign-in needs an open
    transaction and accepted claims of the token its provider returned, and a state signs in once.

  \<^bold>\<open>Bounds and fuel.\<close> The search of \<open>SolverSearch\<close> runs on fuel one above the step budget of the
  source; each call spends a step, so the fuel is never the reason to stop (\<open>search_fuel\<close>). Other
  loops are structural or have a measure. \<open>follow_pages\<close> takes a number of pages; one more than there
  are rows is enough. Python's recursion limit and memory are not modelled.

  \<^bold>\<open>Not modelled.\<close> The investigation engine, report assembly and the command line; the threads of the worker; the
  S3 client; web application, tool server and
  dashboards; the language model client; generators, evaluation and scripts: they are input and output, remote
  clients or rendering around the modelled parts, or remain to be done. Where the service calls the engine, the
  theorems hold for any engine. Row-level security, the definitions of migrations beyond constraints and the
  functions named above, column widths, the text form of cursors, cookies and cross-site request tokens are left
  out. Within the store, concurrent transactions are serialised: an operation is one atomic step, and lock waits
  appear only as the rows a claim skips. In the source two database clocks are read in one statement; the model
  reads one. Numbers in JSON are finite; \<open>exceptions_by_reason\<close> given as a list, the size check of security
  events, symbolic links and file names beyond the limits of a file system are outside the model.
\<close>

end
